(* ===== verification/Prelude.thy ===== *)
theory Prelude
  imports Main "HOL-Library.Word"
begin

text \<open>
  Shared vocabulary of the development: the integer types and status codes of
  LibTomCrypt and SQLite, the portable load, store and rotate macros of
  \<open>tomcrypt_macros.h\<close>, byte-string helpers, and the lemma collections used by the
  component theories.  C arrays of bytes are lists of bytes; \<open>unsigned char\<close>,
  \<open>ulong32\<close> and \<open>ulong64\<close> are words of 8, 32 and 64 bits.
\<close>

unbundle bit_operations_syntax

named_theorems bytes_simps \<open>rules about the load and store macros and packed words\<close>
named_theorems xor_lin \<open>linearity rules with respect to exclusive or\<close>
named_theorems len_simps \<open>lengths of the byte strings an operation returns\<close>

section \<open>Types\<close>

type_synonym byte = "8 word"
type_synonym u32 = "32 word"
type_synonym u64 = "64 word"
type_synonym bytes = "byte list"

text \<open>The status codes of \<open>tomcrypt.h\<close>, in the order of the C enumeration.\<close>

datatype crypt_rc =
    CRYPT_OK | CRYPT_ERROR | CRYPT_NOP
  | CRYPT_INVALID_KEYSIZE | CRYPT_INVALID_ROUNDS | CRYPT_FAIL_TESTVECTOR
  | CRYPT_BUFFER_OVERFLOW | CRYPT_INVALID_PACKET
  | CRYPT_INVALID_PRNGSIZE | CRYPT_ERROR_READPRNG
  | CRYPT_INVALID_CIPHER | CRYPT_INVALID_HASH | CRYPT_INVALID_PRNG
  | CRYPT_MEM
  | CRYPT_PK_TYPE_MISMATCH | CRYPT_PK_NOT_PRIVATE
  | CRYPT_INVALID_ARG | CRYPT_FILE_NOTFOUND
  | CRYPT_PK_INVALID_TYPE | CRYPT_OVERFLOW | CRYPT_PK_ASN1_ERROR
  | CRYPT_INPUT_TOO_LONG | CRYPT_PK_INVALID_SIZE
  | CRYPT_INVALID_PRIME_SIZE | CRYPT_PK_INVALID_PADDING | CRYPT_HASH_OVERFLOW

text \<open>
  \<open>XMALLOC\<close> and \<open>sqlcipher_malloc\<close> may fail.  A model of code that allocates takes
  an allocator: whether a request for that many bytes succeeds.
\<close>

type_synonym allocator = "nat \<Rightarrow> bool"

section \<open>Byte strings\<close>

text \<open>\<open>XMEMCPY(buf + i, src, n)\<close> for a source of \<open>n\<close> bytes.\<close>

definition buf_write :: "'a list \<Rightarrow> nat \<Rightarrow> 'a list \<Rightarrow> 'a list" where
  "buf_write buf i src = take i buf @ src @ drop (i + length src) buf"

definition xor_bytes :: "bytes \<Rightarrow> bytes \<Rightarrow> bytes" where
  "xor_bytes xs ys = map2 (XOR) xs ys"

lemma length_buf_write [len_simps]:
  "i + length src \<le> length buf \<Longrightarrow> length (buf_write buf i src) = length buf"
  by (simp add: buf_write_def)

lemma buf_write_0: "buf_write buf 0 src = src @ drop (length src) buf"
  by (simp add: buf_write_def)

lemma buf_write_full: "length src = length buf \<Longrightarrow> buf_write buf 0 src = src"
  by (simp add: buf_write_def)

lemma take_buf_write: "i \<le> length buf \<Longrightarrow>
    take (i + length src) (buf_write buf i src) = take i buf @ src"
  by (simp add: buf_write_def)

lemma length_xor_bytes [simp, len_simps]: "length (xor_bytes xs ys) = min (length xs) (length ys)"
  by (simp add: xor_bytes_def)

lemma nth_xor_bytes [simp]:
  "i < length xs \<Longrightarrow> i < length ys \<Longrightarrow> xor_bytes xs ys ! i = (xs ! i) XOR (ys ! i)"
  by (simp add: xor_bytes_def)

lemma xor_bytes_cancel_right [simp]:
  "length xs = length ys \<Longrightarrow> xor_bytes (xor_bytes xs ys) ys = xs"
  by (rule nth_equalityI) (simp_all add: xor.assoc)

lemma xor_bytes_commute: "xor_bytes xs ys = xor_bytes ys xs"
  by (rule nth_equalityI) (simp_all add: xor.commute)

lemma xor_bytes_cancel_left [simp]:
  "length xs = length ys \<Longrightarrow> xor_bytes xs (xor_bytes xs ys) = ys"
  by (metis xor_bytes_cancel_right xor_bytes_commute)

lemma xor_bytes_assoc: "xor_bytes (xor_bytes xs ys) zs = xor_bytes xs (xor_bytes ys zs)"
  by (rule nth_equalityI) (simp_all add: xor.assoc)

lemma xor_bytes_replicate0 [simp]:
  "length xs = n \<Longrightarrow> xor_bytes xs (replicate n 0) = xs"
  by (rule nth_equalityI) simp_all

lemma take_xor_bytes: "take n (xor_bytes xs ys) = xor_bytes (take n xs) (take n ys)"
  by (simp add: xor_bytes_def take_map take_zip)

lemma drop_xor_bytes: "drop n (xor_bytes xs ys) = xor_bytes (drop n xs) (drop n ys)"
  by (simp add: xor_bytes_def drop_map drop_zip)

lemma xor_left_cancel_word [simp]: "(a :: 'a::len word) XOR (a XOR b) = b"
  by (simp add: xor.assoc [symmetric])

lemma xor_right_cancel_word [simp]: "((b :: 'a::len word) XOR a) XOR a = b"
  by (simp add: xor.assoc)

lemma xor_eq_zero_word: "(a :: 'a::len word) XOR b = 0 \<longleftrightarrow> a = b"
  by (metis xor.right_neutral xor_left_cancel_word xor_self_eq)

section \<open>The portable macros\<close>

text \<open>\<open>STORE32H\<close>, \<open>LOAD32H\<close>, \<open>STORE64H\<close> and \<open>LOAD64H\<close>: big-endian byte order.\<close>

definition STORE32H :: "u32 \<Rightarrow> bytes" where
  "STORE32H x =
     [ucast (drop_bit 24 x AND 255), ucast (drop_bit 16 x AND 255),
      ucast (drop_bit 8 x AND 255), ucast (x AND 255)]"

definition LOAD32H :: "bytes \<Rightarrow> u32" where
  "LOAD32H y =
     push_bit 24 (ucast (y ! 0 AND 255)) OR push_bit 16 (ucast (y ! 1 AND 255)) OR
     push_bit 8 (ucast (y ! 2 AND 255)) OR ucast (y ! 3 AND 255)"

definition STORE64H :: "u64 \<Rightarrow> bytes" where
  "STORE64H x =
     [ucast (drop_bit 56 x AND 255), ucast (drop_bit 48 x AND 255),
      ucast (drop_bit 40 x AND 255), ucast (drop_bit 32 x AND 255),
      ucast (drop_bit 24 x AND 255), ucast (drop_bit 16 x AND 255),
      ucast (drop_bit 8 x AND 255), ucast (x AND 255)]"

definition LOAD64H :: "bytes \<Rightarrow> u64" where
  "LOAD64H y =
     push_bit 56 (ucast (y ! 0 AND 255)) OR push_bit 48 (ucast (y ! 1 AND 255)) OR
     push_bit 40 (ucast (y ! 2 AND 255)) OR push_bit 32 (ucast (y ! 3 AND 255)) OR
     push_bit 24 (ucast (y ! 4 AND 255)) OR push_bit 16 (ucast (y ! 5 AND 255)) OR
     push_bit 8 (ucast (y ! 6 AND 255)) OR ucast (y ! 7 AND 255)"

text \<open>\<open>LTC_BYTE(x, n)\<close> with its result used as a table index or a byte.\<close>

definition LTC_BYTE :: "u32 \<Rightarrow> nat \<Rightarrow> byte" where
  "LTC_BYTE x n = ucast (drop_bit (8 * n) x AND 255)"

text \<open>The rotations written out with shifts (the \<open>LTC_NO_ASM\<close> branch).\<close>

definition ROL :: "u32 \<Rightarrow> nat \<Rightarrow> u32" where
  "ROL x y = push_bit (y mod 32) x OR drop_bit ((32 - y mod 32) mod 32) x"

definition ROR :: "u32 \<Rightarrow> nat \<Rightarrow> u32" where
  "ROR x y = drop_bit (y mod 32) x OR push_bit ((32 - y mod 32) mod 32) x"

definition ROR64 :: "u64 \<Rightarrow> nat \<Rightarrow> u64" where
  "ROR64 x y = drop_bit (y mod 64) x OR push_bit ((64 - y mod 64) mod 64) x"

abbreviation "ROLc \<equiv> ROL"
abbreviation "RORc \<equiv> ROR"
abbreviation "ROR64c \<equiv> ROR64"

lemma length_STORE32H [simp, len_simps]: "length (STORE32H x) = 4"
  by (simp add: STORE32H_def)

lemma length_STORE64H [simp, len_simps]: "length (STORE64H x) = 8"
  by (simp add: STORE64H_def)

lemma bit_255_int [simp]: "bit (255 :: int) n \<longleftrightarrow> n < 8"
proof -
  have "(255 :: int) = mask 8" by (simp add: mask_eq_exp_minus_1)
  then show ?thesis by (simp only: bit_mask_iff possible_bit_int simp_thms)
qed

lemma bit_255_word: "bit (255 :: 'a::len word) n \<longleftrightarrow> n < 8 \<and> n < LENGTH('a)"
  by auto

lemma bit_byte_ge [simp]: "8 \<le> n \<Longrightarrow> \<not> bit (b :: byte) n"
  using bit_imp_le_length [of b n] by auto

lemma byte_and_255 [simp]: "(b :: byte) AND 255 = b"
  by (rule bit_word_eqI) (simp add: bit_simps)

lemma bit_byte_high: "bit (b :: byte) n \<Longrightarrow> n < 8"
  by (drule bit_imp_le_length) simp

text \<open>A 32-bit word packed from four bytes, most significant first.\<close>

abbreviation pack32 :: "byte \<Rightarrow> byte \<Rightarrow> byte \<Rightarrow> byte \<Rightarrow> u32" where
  "pack32 a b c d \<equiv> LOAD32H [a, b, c, d]"

lemma bit_pack32:
  "bit (pack32 a b c d) n \<longleftrightarrow>
     (if n < 8 then bit d n else if n < 16 then bit c (n - 8)
      else if n < 24 then bit b (n - 16) else n < 32 \<and> bit a (n - 24))"
  by (auto simp: LOAD32H_def bit_simps dest: bit_byte_high)

lemma LTC_BYTE_pack32 [bytes_simps]:
  "LTC_BYTE (pack32 a b c d) 3 = a" "LTC_BYTE (pack32 a b c d) 2 = b"
  "LTC_BYTE (pack32 a b c d) (Suc 0) = c" "LTC_BYTE (pack32 a b c d) 0 = d"
  "LTC_BYTE (pack32 a b c d) 1 = c"
  by (rule bit_word_eqI; auto simp: LTC_BYTE_def bit_simps bit_pack32)+

lemma pack32_LTC_BYTE [bytes_simps]:
  "pack32 (LTC_BYTE x 3) (LTC_BYTE x 2) (LTC_BYTE x 1) (LTC_BYTE x 0) = x"
  by (rule bit_word_eqI)
    (auto simp: bit_pack32 LTC_BYTE_def bit_simps intro!: arg_cong [where f = "bit x"])

lemma STORE32H_bytes: "STORE32H x = [LTC_BYTE x 3, LTC_BYTE x 2, LTC_BYTE x 1, LTC_BYTE x 0]"
  by (simp add: STORE32H_def LTC_BYTE_def)

lemma STORE32H_pack32 [bytes_simps]: "STORE32H (pack32 a b c d) = [a, b, c, d]"
  by (simp add: STORE32H_bytes bytes_simps)

lemma LOAD32H_STORE32H [bytes_simps]: "LOAD32H (STORE32H x) = x"
  by (simp add: STORE32H_bytes pack32_LTC_BYTE [simplified])

lemma pack32_xor [bytes_simps]:
  "pack32 a b c d XOR pack32 a' b' c' d' = pack32 (a XOR a') (b XOR b') (c XOR c') (d XOR d')"
  by (rule bit_word_eqI) (auto simp: bit_simps bit_pack32)

lemma pack32_inject [simp]:
  "pack32 a b c d = pack32 a' b' c' d' \<longleftrightarrow> a = a' \<and> b = b' \<and> c = c' \<and> d = d'"
  by (metis LTC_BYTE_pack32)

lemma pack32_cases: obtains a b c d where "x = pack32 a b c d"
  by (metis pack32_LTC_BYTE)

lemma LOAD32H_four: "length y = 4 \<Longrightarrow> LOAD32H y = pack32 (y ! 0) (y ! 1) (y ! 2) (y ! 3)"
  by (simp add: LOAD32H_def)

lemma list_length_4:
  assumes "length xs = 4" obtains a b c d where "xs = [a, b, c, d]"
proof -
  from assms obtain a b c d where "xs = [a, b, c, d]"
    by (auto simp: length_Suc_conv numeral_eq_Suc)
  then show ?thesis by (rule that)
qed

lemma STORE32H_LOAD32H: "length y = 4 \<Longrightarrow> STORE32H (LOAD32H y) = y"
  by (elim list_length_4) (simp add: bytes_simps)

end
