(* ===== verification/Aes.thy ===== *)
theory Aes
  imports AesTables
begin

text \<open>
  The AES block cipher of \<open>aes.c\<close> (table-driven build): key schedule, one-block
  encryption and decryption, \<open>rijndael_keysize\<close> and the self-test.  A scheduled
  key is the C structure \<open>rijndael_key\<close>; the round-key pointer \<open>rk\<close> is an offset
  into the array, the four state words are a 4-tuple.
  The specification side is FIPS-197 on 16-byte states: \<open>SubBytes\<close>,
  \<open>ShiftRows\<close>, \<open>MixColumns\<close>, \<open>AddRoundKey\<close>, and its recursive key expansion.
\<close>

unbundle bit_operations_syntax

section \<open>The code\<close>

record rijndael_key =
  eK :: "u32 list"
  dK :: "u32 list"
  Nr :: nat

type_synonym aes_words = "u32 \<times> u32 \<times> u32 \<times> u32"

subsection \<open>Key schedule\<close>

definition setup_mix :: "u32 \<Rightarrow> u32" where
  "setup_mix temp =
     Te4_3 ! unat (LTC_BYTE temp 2) XOR
     Te4_2 ! unat (LTC_BYTE temp 1) XOR
     Te4_1 ! unat (LTC_BYTE temp 0) XOR
     Te4_0 ! unat (LTC_BYTE temp 3)"

text \<open>One turn of the expansion loop for each key length; \<open>p\<close> is \<open>rk - eK\<close>.\<close>

definition setup_turn16 :: "nat \<Rightarrow> u32 list \<Rightarrow> u32 list" where
  "setup_turn16 i w = (let p = 4 * i;
       temp = w ! (p + 3);
       w = w[p + 4 := w ! p XOR setup_mix temp XOR rcon ! i];
       w = w[p + 5 := w ! (p + 1) XOR w ! (p + 4)];
       w = w[p + 6 := w ! (p + 2) XOR w ! (p + 5)]
     in w[p + 7 := w ! (p + 3) XOR w ! (p + 6)])"

definition setup_turn24 :: "nat \<Rightarrow> u32 list \<Rightarrow> u32 list" where
  "setup_turn24 i w = (let p = 6 * i;
       temp = w ! (p + 5);
       w = w[p + 6 := w ! p XOR setup_mix temp XOR rcon ! i];
       w = w[p + 7 := w ! (p + 1) XOR w ! (p + 6)];
       w = w[p + 8 := w ! (p + 2) XOR w ! (p + 7)];
       w = w[p + 9 := w ! (p + 3) XOR w ! (p + 8)]
     in if i + 1 = 8 then w
        else let w = w[p + 10 := w ! (p + 4) XOR w ! (p + 9)]
             in w[p + 11 := w ! (p + 5) XOR w ! (p + 10)])"

definition setup_turn32 :: "nat \<Rightarrow> u32 list \<Rightarrow> u32 list" where
  "setup_turn32 i w = (let p = 8 * i;
       temp = w ! (p + 7);
       w = w[p + 8 := w ! p XOR setup_mix temp XOR rcon ! i];
       w = w[p + 9 := w ! (p + 1) XOR w ! (p + 8)];
       w = w[p + 10 := w ! (p + 2) XOR w ! (p + 9)];
       w = w[p + 11 := w ! (p + 3) XOR w ! (p + 10)]
     in if i + 1 = 7 then w
        else let temp = w ! (p + 11);
                 w = w[p + 12 := w ! (p + 4) XOR setup_mix (RORc temp 8)];
                 w = w[p + 13 := w ! (p + 5) XOR w ! (p + 12)];
                 w = w[p + 14 := w ! (p + 6) XOR w ! (p + 13)]
             in w[p + 15 := w ! (p + 7) XOR w ! (p + 14)])"

text \<open>\<open>LOAD32H(rk[i], key + 4*i)\<close> for the words of the key.\<close>

definition load_key :: "nat \<Rightarrow> bytes \<Rightarrow> u32 list \<Rightarrow> u32 list" where
  "load_key n key w = fold (\<lambda>i w. w[i := LOAD32H (take 4 (drop (4 * i) key))]) [0..<n] w"

definition expand_key :: "nat \<Rightarrow> bytes \<Rightarrow> u32 list \<Rightarrow> u32 list" where
  "expand_key keylen key w =
     (if keylen = 16 then fold setup_turn16 [0..<10] (load_key 4 key w)
      else if keylen = 24 then fold setup_turn24 [0..<8] (load_key 6 key w)
      else fold setup_turn32 [0..<7] (load_key 8 key w))"

text \<open>The inverse \<open>MixColumns\<close> of a round-key word, and the decryption key array.\<close>

definition inv_mix_word :: "u32 \<Rightarrow> u32" where
  "inv_mix_word temp =
     Tks0 ! unat (LTC_BYTE temp 3) XOR
     Tks1 ! unat (LTC_BYTE temp 2) XOR
     Tks2 ! unat (LTC_BYTE temp 1) XOR
     Tks3 ! unat (LTC_BYTE temp 0)"

definition copy4 :: "(u32 \<Rightarrow> u32) \<Rightarrow> u32 list \<Rightarrow> nat \<Rightarrow> nat \<Rightarrow> u32 list \<Rightarrow> u32 list" where
  "copy4 f src rrk rk dst =
     dst[rk := f (src ! rrk), rk + 1 := f (src ! (rrk + 1)),
         rk + 2 := f (src ! (rrk + 2)), rk + 3 := f (src ! (rrk + 3))]"

definition invert_key :: "nat \<Rightarrow> nat \<Rightarrow> u32 list \<Rightarrow> u32 list \<Rightarrow> u32 list" where
  "invert_key keylen nr ek dk = (let rrk = (28 + keylen) - 4;
       dk = copy4 id ek rrk 0 dk;
       dk = fold (\<lambda>i dk. copy4 inv_mix_word ek (rrk - 4 * i) (4 * i) dk) [1..<nr] dk
     in copy4 id ek (rrk - 4 * nr) (4 * nr) dk)"

definition rijndael_setup :: "bytes \<Rightarrow> int \<Rightarrow> int \<Rightarrow> rijndael_key \<Rightarrow> crypt_rc + rijndael_key" where
  "rijndael_setup key keylen num_rounds skey =
     (if keylen \<noteq> 16 \<and> keylen \<noteq> 24 \<and> keylen \<noteq> 32 then Inl CRYPT_INVALID_KEYSIZE
      else if num_rounds \<noteq> 0 \<and> num_rounds \<noteq> 10 + (keylen div 8 - 2) * 2
      then Inl CRYPT_INVALID_ROUNDS
      else let nr = nat (10 + (keylen div 8 - 2) * 2);
               ek = expand_key (nat keylen) key (eK skey)
           in Inr \<lparr>eK = ek, dK = invert_key (nat keylen) nr ek (dK skey), Nr = nr\<rparr>)"

subsection \<open>Encryption and decryption of a block\<close>

text \<open>One full round; \<open>p\<close> is the offset of its four round-key words.\<close>

definition te_round :: "u32 list \<Rightarrow> nat \<Rightarrow> aes_words \<Rightarrow> aes_words" where
  "te_round rk p = (\<lambda>(s0, s1, s2, s3).
     (TE0 ! unat (LTC_BYTE s0 3) XOR TE1 ! unat (LTC_BYTE s1 2) XOR
      TE2 ! unat (LTC_BYTE s2 1) XOR TE3 ! unat (LTC_BYTE s3 0) XOR rk ! p,
      TE0 ! unat (LTC_BYTE s1 3) XOR TE1 ! unat (LTC_BYTE s2 2) XOR
      TE2 ! unat (LTC_BYTE s3 1) XOR TE3 ! unat (LTC_BYTE s0 0) XOR rk ! (p + 1),
      TE0 ! unat (LTC_BYTE s2 3) XOR TE1 ! unat (LTC_BYTE s3 2) XOR
      TE2 ! unat (LTC_BYTE s0 1) XOR TE3 ! unat (LTC_BYTE s1 0) XOR rk ! (p + 2),
      TE0 ! unat (LTC_BYTE s3 3) XOR TE1 ! unat (LTC_BYTE s0 2) XOR
      TE2 ! unat (LTC_BYTE s1 1) XOR TE3 ! unat (LTC_BYTE s2 0) XOR rk ! (p + 3)))"

text \<open>
  The loop \<open>for (;;)\<close> over \<open>r = Nr >> 1\<close>: each turn makes one round from \<open>s\<close> to
  \<open>t\<close>, advances \<open>rk\<close> by 8 and, unless it was the last, one from \<open>t\<close> to \<open>s\<close>.
  \<open>k\<close> counts the turns after this one, so the loop starts with \<open>r - 1\<close>.
\<close>

primrec te_loop :: "u32 list \<Rightarrow> nat \<Rightarrow> nat \<Rightarrow> aes_words \<Rightarrow> aes_words \<times> nat" where
  "te_loop rk 0 p s = (te_round rk (p + 4) s, p + 8)"
| "te_loop rk (Suc k) p s = te_loop rk k (p + 8) (te_round rk (p + 8) (te_round rk (p + 4) s))"

definition te_last :: "u32 list \<Rightarrow> nat \<Rightarrow> aes_words \<Rightarrow> aes_words" where
  "te_last rk p = (\<lambda>(t0, t1, t2, t3).
     (Te4_3 ! unat (LTC_BYTE t0 3) XOR Te4_2 ! unat (LTC_BYTE t1 2) XOR
      Te4_1 ! unat (LTC_BYTE t2 1) XOR Te4_0 ! unat (LTC_BYTE t3 0) XOR rk ! p,
      Te4_3 ! unat (LTC_BYTE t1 3) XOR Te4_2 ! unat (LTC_BYTE t2 2) XOR
      Te4_1 ! unat (LTC_BYTE t3 1) XOR Te4_0 ! unat (LTC_BYTE t0 0) XOR rk ! (p + 1),
      Te4_3 ! unat (LTC_BYTE t2 3) XOR Te4_2 ! unat (LTC_BYTE t3 2) XOR
      Te4_1 ! unat (LTC_BYTE t0 1) XOR Te4_0 ! unat (LTC_BYTE t1 0) XOR rk ! (p + 2),
      Te4_3 ! unat (LTC_BYTE t3 3) XOR Te4_2 ! unat (LTC_BYTE t0 2) XOR
      Te4_1 ! unat (LTC_BYTE t1 1) XOR Te4_0 ! unat (LTC_BYTE t2 0) XOR rk ! (p + 3)))"

definition load_block :: "bytes \<Rightarrow> u32 list \<Rightarrow> aes_words" where
  "load_block b rk =
     (LOAD32H (take 4 b) XOR rk ! 0, LOAD32H (take 4 (drop 4 b)) XOR rk ! 1,
      LOAD32H (take 4 (drop 8 b)) XOR rk ! 2, LOAD32H (take 4 (drop 12 b)) XOR rk ! 3)"

definition store_block :: "aes_words \<Rightarrow> bytes" where
  "store_block = (\<lambda>(s0, s1, s2, s3). STORE32H s0 @ STORE32H s1 @ STORE32H s2 @ STORE32H s3)"

definition rijndael_ecb_encrypt :: "bytes \<Rightarrow> rijndael_key \<Rightarrow> crypt_rc + bytes" where
  "rijndael_ecb_encrypt pt skey =
     (if Nr skey < 2 \<or> Nr skey > 16 then Inl CRYPT_INVALID_ROUNDS
      else let rk = eK skey;
               (t, p) = te_loop rk (Nr skey div 2 - 1) 0 (load_block pt rk)
           in Inr (store_block (te_last rk p t)))"

definition td_round :: "u32 list \<Rightarrow> nat \<Rightarrow> aes_words \<Rightarrow> aes_words" where
  "td_round rk p = (\<lambda>(s0, s1, s2, s3).
     (TD0 ! unat (LTC_BYTE s0 3) XOR TD1 ! unat (LTC_BYTE s3 2) XOR
      TD2 ! unat (LTC_BYTE s2 1) XOR TD3 ! unat (LTC_BYTE s1 0) XOR rk ! p,
      TD0 ! unat (LTC_BYTE s1 3) XOR TD1 ! unat (LTC_BYTE s0 2) XOR
      TD2 ! unat (LTC_BYTE s3 1) XOR TD3 ! unat (LTC_BYTE s2 0) XOR rk ! (p + 1),
      TD0 ! unat (LTC_BYTE s2 3) XOR TD1 ! unat (LTC_BYTE s1 2) XOR
      TD2 ! unat (LTC_BYTE s0 1) XOR TD3 ! unat (LTC_BYTE s3 0) XOR rk ! (p + 2),
      TD0 ! unat (LTC_BYTE s3 3) XOR TD1 ! unat (LTC_BYTE s2 2) XOR
      TD2 ! unat (LTC_BYTE s1 1) XOR TD3 ! unat (LTC_BYTE s0 0) XOR rk ! (p + 3)))"

primrec td_loop :: "u32 list \<Rightarrow> nat \<Rightarrow> nat \<Rightarrow> aes_words \<Rightarrow> aes_words \<times> nat" where
  "td_loop rk 0 p s = (td_round rk (p + 4) s, p + 8)"
| "td_loop rk (Suc k) p s = td_loop rk k (p + 8) (td_round rk (p + 8) (td_round rk (p + 4) s))"

definition td_last :: "u32 list \<Rightarrow> nat \<Rightarrow> aes_words \<Rightarrow> aes_words" where
  "td_last rk p = (\<lambda>(t0, t1, t2, t3).
     ((Td4 ! unat (LTC_BYTE t0 3) AND 0xff000000) XOR (Td4 ! unat (LTC_BYTE t3 2) AND 0x00ff0000) XOR
      (Td4 ! unat (LTC_BYTE t2 1) AND 0x0000ff00) XOR (Td4 ! unat (LTC_BYTE t1 0) AND 0x000000ff) XOR rk ! p,
      (Td4 ! unat (LTC_BYTE t1 3) AND 0xff000000) XOR (Td4 ! unat (LTC_BYTE t0 2) AND 0x00ff0000) XOR
      (Td4 ! unat (LTC_BYTE t3 1) AND 0x0000ff00) XOR (Td4 ! unat (LTC_BYTE t2 0) AND 0x000000ff) XOR rk ! (p + 1),
      (Td4 ! unat (LTC_BYTE t2 3) AND 0xff000000) XOR (Td4 ! unat (LTC_BYTE t1 2) AND 0x00ff0000) XOR
      (Td4 ! unat (LTC_BYTE t0 1) AND 0x0000ff00) XOR (Td4 ! unat (LTC_BYTE t3 0) AND 0x000000ff) XOR rk ! (p + 2),
      (Td4 ! unat (LTC_BYTE t3 3) AND 0xff000000) XOR (Td4 ! unat (LTC_BYTE t2 2) AND 0x00ff0000) XOR
      (Td4 ! unat (LTC_BYTE t1 1) AND 0x0000ff00) XOR (Td4 ! unat (LTC_BYTE t0 0) AND 0x000000ff) XOR rk ! (p + 3)))"

definition rijndael_ecb_decrypt :: "bytes \<Rightarrow> rijndael_key \<Rightarrow> crypt_rc + bytes" where
  "rijndael_ecb_decrypt ct skey =
     (if Nr skey < 2 \<or> Nr skey > 16 then Inl CRYPT_INVALID_ROUNDS
      else let rk = dK skey;
               (t, p) = td_loop rk (Nr skey div 2 - 1) 0 (load_block ct rk)
           in Inr (store_block (td_last rk p t)))"

definition rijndael_done :: "rijndael_key \<Rightarrow> rijndael_key" where
  "rijndael_done skey = skey"

definition rijndael_keysize :: "int \<Rightarrow> crypt_rc \<times> int" where
  "rijndael_keysize keysize =
     (if keysize < 16 then (CRYPT_INVALID_KEYSIZE, keysize)
      else if keysize < 24 then (CRYPT_OK, 16)
      else if keysize < 32 then (CRYPT_OK, 24)
      else (CRYPT_OK, 32))"

section \<open>Rounds on packed words\<close>

text \<open>Four packed words, as the columns of a state.\<close>

definition quad :: "u32 list \<Rightarrow> nat \<Rightarrow> aes_words" where
  "quad rk p = (rk ! p, rk ! (p + 1), rk ! (p + 2), rk ! (p + 3))"

definition xor4 :: "aes_words \<Rightarrow> aes_words \<Rightarrow> aes_words" where
  "xor4 = (\<lambda>(a, b, c, d) (a', b', c', d'). (a XOR a', b XOR b', c XOR c', d XOR d'))"

definition map4 :: "(u32 \<Rightarrow> u32) \<Rightarrow> aes_words \<Rightarrow> aes_words" where
  "map4 f = (\<lambda>(a, b, c, d). (f a, f b, f c, f d))"

text \<open>\<open>ShiftRows\<close> after \<open>SubBytes\<close>, \<open>MixColumns\<close>, and their inverses, on words.\<close>

definition sub_shift :: "aes_words \<Rightarrow> aes_words" where
  "sub_shift = (\<lambda>(s0, s1, s2, s3).
     (pack32 (sub (LTC_BYTE s0 3)) (sub (LTC_BYTE s1 2)) (sub (LTC_BYTE s2 1)) (sub (LTC_BYTE s3 0)),
      pack32 (sub (LTC_BYTE s1 3)) (sub (LTC_BYTE s2 2)) (sub (LTC_BYTE s3 1)) (sub (LTC_BYTE s0 0)),
      pack32 (sub (LTC_BYTE s2 3)) (sub (LTC_BYTE s3 2)) (sub (LTC_BYTE s0 1)) (sub (LTC_BYTE s1 0)),
      pack32 (sub (LTC_BYTE s3 3)) (sub (LTC_BYTE s0 2)) (sub (LTC_BYTE s1 1)) (sub (LTC_BYTE s2 0))))"

definition inv_sub_shift :: "aes_words \<Rightarrow> aes_words" where
  "inv_sub_shift = (\<lambda>(s0, s1, s2, s3).
     (pack32 (inv_sub (LTC_BYTE s0 3)) (inv_sub (LTC_BYTE s3 2)) (inv_sub (LTC_BYTE s2 1)) (inv_sub (LTC_BYTE s1 0)),
      pack32 (inv_sub (LTC_BYTE s1 3)) (inv_sub (LTC_BYTE s0 2)) (inv_sub (LTC_BYTE s3 1)) (inv_sub (LTC_BYTE s2 0)),
      pack32 (inv_sub (LTC_BYTE s2 3)) (inv_sub (LTC_BYTE s1 2)) (inv_sub (LTC_BYTE s0 1)) (inv_sub (LTC_BYTE s3 0)),
      pack32 (inv_sub (LTC_BYTE s3 3)) (inv_sub (LTC_BYTE s2 2)) (inv_sub (LTC_BYTE s1 1)) (inv_sub (LTC_BYTE s0 0))))"

definition mix_word :: "u32 \<Rightarrow> u32" where
  "mix_word w = (let a = LTC_BYTE w 3; b = LTC_BYTE w 2; c = LTC_BYTE w 1; d = LTC_BYTE w 0 in
     pack32 (xtime a XOR xtime b XOR b XOR c XOR d) (a XOR xtime b XOR xtime c XOR c XOR d)
            (a XOR b XOR xtime c XOR xtime d XOR d) (xtime a XOR a XOR b XOR c XOR xtime d))"

lemma pack32_xor_left [bytes_simps]:
  "pack32 a b c d XOR (pack32 a' b' c' d' XOR r) =
     pack32 (a XOR a') (b XOR b') (c XOR c') (d XOR d') XOR r"
  by (simp add: xor.assoc [symmetric] bytes_simps)

lemma inv_mix_word_pack32:
  "inv_mix_word (pack32 a b c d) =
     pack32 (gf14 a XOR gf11 b XOR gf13 c XOR gf9 d) (gf9 a XOR gf14 b XOR gf11 c XOR gf13 d)
            (gf13 a XOR gf9 b XOR gf14 c XOR gf11 d) (gf11 a XOR gf13 b XOR gf9 c XOR gf14 d)"
  by (simp add: inv_mix_word_def bytes_simps)

lemma inv_mix_word_xor [xor_lin]: "inv_mix_word (x XOR y) = inv_mix_word x XOR inv_mix_word y"
  by (cases x rule: pack32_cases; cases y rule: pack32_cases)
    (simp add: inv_mix_word_pack32 bytes_simps xor_lin ac_simps)

lemma inv_mix_mix [simp]: "inv_mix_word (mix_word w) = w"
  by (cases w rule: pack32_cases)
    (simp add: mix_word_def inv_mix_word_pack32 bytes_simps xor_lin gf9_def gf11_def gf13_def gf14_def ac_simps)

lemma te_round_split: "te_round rk p s = xor4 (map4 mix_word (sub_shift s)) (quad rk p)"
  by (cases s)
    (simp add: te_round_def quad_def sub_shift_def mix_word_def map4_def xor4_def bytes_simps Let_def ac_simps)

lemma te_last_split: "te_last rk p s = xor4 (sub_shift s) (quad rk p)"
  by (cases s) (simp add: te_last_def quad_def sub_shift_def xor4_def bytes_simps)


lemma td_round_split: "td_round rk p s = xor4 (map4 inv_mix_word (inv_sub_shift s)) (quad rk p)"
  by (cases s)
    (simp add: td_round_def quad_def inv_sub_shift_def inv_mix_word_pack32 map4_def xor4_def bytes_simps ac_simps)

lemma pack32_mask [bytes_simps]:
  "pack32 a b c d AND 0xff000000 = pack32 a 0 0 0" "pack32 a b c d AND 0xff0000 = pack32 0 b 0 0"
  "pack32 a b c d AND 0xff00 = pack32 0 0 c 0" "pack32 a b c d AND 0xff = pack32 0 0 0 d"
proof -
  have m: "(0xff000000 :: u32) = pack32 255 0 0 0" "(0xff0000 :: u32) = pack32 0 255 0 0"
    "(0xff00 :: u32) = pack32 0 0 255 0" "(0xff :: u32) = pack32 0 0 0 255"
    by (simp_all add: LOAD32H_def)
  have a: "pack32 a b c d AND pack32 a' b' c' d' = pack32 (a AND a') (b AND b') (c AND c') (d AND d')"
    for a' b' c' d' by (rule bit_word_eqI) (auto simp: bit_simps bit_pack32)
  show "pack32 a b c d AND 0xff000000 = pack32 a 0 0 0" "pack32 a b c d AND 0xff0000 = pack32 0 b 0 0"
    "pack32 a b c d AND 0xff00 = pack32 0 0 c 0" "pack32 a b c d AND 0xff = pack32 0 0 0 d"
    unfolding m a by simp_all
qed

lemma td_last_split: "td_last rk p s = xor4 (inv_sub_shift s) (quad rk p)"
  by (cases s) (simp add: td_last_def quad_def inv_sub_shift_def xor4_def bytes_simps)

lemma inv_sub_shift_sub_shift [simp]: "inv_sub_shift (sub_shift s) = s"
  by (cases s) (simp add: inv_sub_shift_def sub_shift_def bytes_simps pack32_LTC_BYTE [simplified])

lemma sub_shift_inv_sub_shift [simp]: "sub_shift (inv_sub_shift s) = s"
  by (cases s) (simp add: inv_sub_shift_def sub_shift_def bytes_simps pack32_LTC_BYTE [simplified])

lemma map4_inv_mix_xor4 [xor_lin]:
  "map4 inv_mix_word (xor4 s k) = xor4 (map4 inv_mix_word s) (map4 inv_mix_word k)"
  by (cases s; cases k) (simp add: map4_def xor4_def xor_lin)

lemma map4_inv_mix_mix [simp]: "map4 inv_mix_word (map4 mix_word s) = s"
  by (cases s) (simp add: map4_def)

lemma xor4_cancel [simp]: "xor4 (xor4 s k) k = s"
  by (cases s; cases k) (simp add: xor4_def)

text \<open>A decryption round with the transformed round key undoes the encryption round.\<close>

lemma td_round_undoes_te_round:
  "quad dk q = map4 inv_mix_word (quad ek p) \<Longrightarrow>
   td_round dk q (sub_shift (te_round ek p s)) = sub_shift s"
  by (simp add: td_round_split te_round_split xor_lin)

text \<open>Both loops as iterated rounds: \<open>n\<close> rounds with the keys at \<open>p + 4, p + 8, ...\<close>.\<close>

primrec te_rounds :: "u32 list \<Rightarrow> nat \<Rightarrow> aes_words \<Rightarrow> aes_words" where
  "te_rounds rk 0 s = s"
| "te_rounds rk (Suc n) s = te_round rk (4 * Suc n) (te_rounds rk n s)"

primrec td_rounds :: "u32 list \<Rightarrow> nat \<Rightarrow> aes_words \<Rightarrow> aes_words" where
  "td_rounds rk 0 s = s"
| "td_rounds rk (Suc n) s = td_round rk (4 * Suc n) (td_rounds rk n s)"

lemma te_loop_rounds:
  "te_loop rk k (4 * n) (te_rounds rk n s) = (te_rounds rk (n + 2 * k + 1) s, 4 * (n + 2 * k + 2))"
proof (induction k arbitrary: n)
  case (Suc k)
  have "te_loop rk (Suc k) (4 * n) (te_rounds rk n s) =
      te_loop rk k (4 * (n + 2)) (te_rounds rk (n + 2) s)"
    by (simp add: numeral_2_eq_2 add.commute)
  also have "\<dots> = (te_rounds rk (n + 2 + 2 * k + 1) s, 4 * (n + 2 + 2 * k + 2))"
    by (rule Suc)
  finally show ?case by (simp add: algebra_simps)
qed (simp add: add.commute)

lemma td_loop_rounds:
  "td_loop rk k (4 * n) (td_rounds rk n s) = (td_rounds rk (n + 2 * k + 1) s, 4 * (n + 2 * k + 2))"
proof (induction k arbitrary: n)
  case (Suc k)
  have "td_loop rk (Suc k) (4 * n) (td_rounds rk n s) =
      td_loop rk k (4 * (n + 2)) (td_rounds rk (n + 2) s)"
    by (simp add: numeral_2_eq_2 add.commute)
  also have "\<dots> = (td_rounds rk (n + 2 + 2 * k + 1) s, 4 * (n + 2 + 2 * k + 2))"
    by (rule Suc)
  finally show ?case by (simp add: algebra_simps)
qed (simp add: add.commute)

lemma te_loop_all:
  assumes "even n" "2 \<le> n"
  shows "te_loop rk (n div 2 - Suc 0) 0 s = (te_rounds rk (n - Suc 0) s, 4 * n)"
proof -
  have "0 + 2 * (n div 2 - 1) + 1 = n - 1" "0 + 2 * (n div 2 - 1) + 2 = n"
    using assms by auto
  then show ?thesis using te_loop_rounds [of rk "n div 2 - 1" 0 s] by (simp del: te_rounds.simps(2))
qed

lemma td_loop_all:
  assumes "even n" "2 \<le> n"
  shows "td_loop rk (n div 2 - Suc 0) 0 s = (td_rounds rk (n - Suc 0) s, 4 * n)"
proof -
  have "0 + 2 * (n div 2 - 1) + 1 = n - 1" "0 + 2 * (n div 2 - 1) + 2 = n"
    using assms by auto
  then show ?thesis using td_loop_rounds [of rk "n div 2 - 1" 0 s] by (simp del: td_rounds.simps(2))
qed

section \<open>Decryption inverts encryption\<close>

text \<open>What \<open>rijndael_setup\<close> establishes between its two key arrays.\<close>

definition key_arrays_match :: "nat \<Rightarrow> u32 list \<Rightarrow> u32 list \<Rightarrow> bool" where
  "key_arrays_match nr ek dk \<longleftrightarrow>
     quad dk 0 = quad ek (4 * nr) \<and> quad dk (4 * nr) = quad ek 0 \<and>
     (\<forall>i. 0 < i \<longrightarrow> i < nr \<longrightarrow> quad dk (4 * i) = map4 inv_mix_word (quad ek (4 * (nr - i))))"

lemma td_rounds_undo:
  assumes "key_arrays_match nr ek dk" "i < nr"
  shows "td_rounds dk i (sub_shift (te_rounds ek (nr - 1) s)) = sub_shift (te_rounds ek (nr - 1 - i) s)"
  using \<open>i < nr\<close>
proof (induction i)
  case (Suc i)
  let ?j = "nr - 1 - Suc i"
  have j: "nr - 1 - i = Suc ?j" "4 * (nr - Suc i) = 4 * Suc ?j" using Suc.prems by auto
  have "quad dk (4 * Suc i) = map4 inv_mix_word (quad ek (4 * Suc ?j))"
    using assms(1) Suc.prems zero_less_Suc unfolding key_arrays_match_def j(2) [symmetric] by blast
  from td_round_undoes_te_round [OF this]
  show ?case using Suc by (simp only: td_rounds.simps j te_rounds.simps Suc_lessD)
qed simp

lemma load_block_xor4:
  "load_block b rk = xor4 (LOAD32H (take 4 b), LOAD32H (take 4 (drop 4 b)),
     LOAD32H (take 4 (drop 8 b)), LOAD32H (take 4 (drop 12 b))) (quad rk 0)"
  by (simp add: load_block_def xor4_def quad_def numeral_2_eq_2)

lemma load_store_block: "load_block (store_block s) rk = xor4 s (quad rk 0)"
  by (cases s) (simp add: load_block_xor4 store_block_def bytes_simps)

lemma store_load_block:
  assumes "length b = 16"
  shows "store_block (LOAD32H (take 4 b), LOAD32H (take 4 (drop 4 b)),
     LOAD32H (take 4 (drop 8 b)), LOAD32H (take 4 (drop 12 b))) = b"
proof -
  have "b = take 4 b @ take 4 (drop 4 b) @ take 4 (drop 8 b) @ take 4 (drop 12 b)"
    using assms by (simp flip: take_add add: take_add [symmetric] append_assoc [symmetric] del: append_assoc)
  then show ?thesis using assms by (simp add: store_block_def STORE32H_LOAD32H)
qed

lemma length_store_block [simp, len_simps]: "length (store_block s) = 16"
  by (cases s) (simp add: store_block_def)

lemma decrypt_encrypt_words:
  assumes "key_arrays_match (Nr k) (eK k) (dK k)" "even (Nr k)" "2 \<le> Nr k" "Nr k \<le> 16" "length pt = 16"
  shows "\<exists>ct. rijndael_ecb_encrypt pt k = Inr ct \<and> length ct = 16 \<and> rijndael_ecb_decrypt ct k = Inr pt"
proof -
  let ?n = "Nr k" and ?s = "load_block pt (eK k)"
  let ?ct = "store_block (xor4 (sub_shift (te_rounds (eK k) (?n - 1) ?s)) (quad (eK k) (4 * ?n)))"
  have e: "rijndael_ecb_encrypt pt k = Inr ?ct"
    using assms by (simp add: rijndael_ecb_encrypt_def Let_def te_loop_all te_last_split)
  have "load_block ?ct (dK k) = sub_shift (te_rounds (eK k) (?n - 1) ?s)"
    using assms(1) by (simp add: load_store_block key_arrays_match_def)
  moreover have "td_rounds (dK k) (?n - 1) (sub_shift (te_rounds (eK k) (?n - 1) ?s)) = sub_shift ?s"
    using td_rounds_undo [OF assms(1), of "?n - 1"] assms(3) by simp
  moreover have "xor4 ?s (quad (dK k) (4 * ?n)) = (LOAD32H (take 4 pt), LOAD32H (take 4 (drop 4 pt)),
     LOAD32H (take 4 (drop 8 pt)), LOAD32H (take 4 (drop 12 pt)))"
    using assms(1) by (simp add: load_block_xor4 key_arrays_match_def)
  ultimately have "rijndael_ecb_decrypt ?ct k = Inr pt"
    using assms store_load_block [OF assms(5)]
    by (simp add: rijndael_ecb_decrypt_def Let_def td_loop_all td_last_split)
  with e show ?thesis by simp
qed


subsection \<open>The two key arrays match\<close>

lemma length_copy4 [simp]: "length (copy4 f src a b dst) = length dst"
  by (simp add: copy4_def)

lemma quad_copy4_same: "b + 3 < length dst \<Longrightarrow> quad (copy4 f src a b dst) b = map4 f (quad src a)"
  by (simp add: copy4_def quad_def map4_def)

lemma quad_copy4_other: "p + 3 < b \<or> b + 3 < p \<Longrightarrow> quad (copy4 f src a b dst) p = quad dst p"
  by (auto simp: copy4_def quad_def nth_list_update)

lemma map4_id [simp]: "map4 id s = s"
  by (cases s) (simp add: map4_def)

lemma length_fold_copy4 [simp]:
  "length (fold (\<lambda>i. copy4 f src (g i) (h i)) is dst) = length dst"
  by (induction "is" arbitrary: dst) simp_all

lemma quad_fold_copy4:
  assumes "4 * n \<le> length dst"
  shows "quad (fold (\<lambda>i dk. copy4 f src (r - 4 * i) (4 * i) dk) [Suc 0..<n] dst) (4 * j) =
    (if 0 < j \<and> j < n then map4 f (quad src (r - 4 * j)) else quad dst (4 * j))"
  using assms
proof (induction n)
  case (Suc n)
  show ?case
  proof (cases "0 < n")
    case True
    consider "j = n" | "j < n" | "n < j" by linarith
    then show ?thesis
      by cases (use True Suc in \<open>simp_all add: quad_copy4_same quad_copy4_other\<close>)
  qed auto
qed auto

lemmas quad_fold_copy4_0 = quad_fold_copy4 [where j = 0, simplified]

lemma invert_key_match:
  assumes "4 * nr = 24 + keylen" "4 * nr + 4 \<le> length dk"
  shows "key_arrays_match nr ek (invert_key keylen nr ek dk)"
proof -
  have r: "(28 + keylen) - 4 = 4 * nr" using assms(1) by simp
  have inv: "invert_key keylen nr ek dk = copy4 id ek 0 (4 * nr)
      (fold (\<lambda>i. copy4 inv_mix_word ek (4 * nr - 4 * i) (4 * i)) [1..<nr] (copy4 id ek (4 * nr) 0 dk))"
    by (simp only: invert_key_def r Let_def diff_self_eq_0)
  note simps = quad_fold_copy4_0 quad_copy4_other quad_copy4_same quad_fold_copy4 diff_mult_distrib2
  have "quad (invert_key keylen nr ek dk) (4 * i) = (if i = nr then quad ek 0
      else if i = 0 then quad ek (4 * nr) else map4 inv_mix_word (quad ek (4 * (nr - i))))"
    if "i \<le> nr" for i
    using assms(2) that unfolding inv by (cases "i = nr"; cases "i = 0") (simp_all add: simps)
  from this [of 0] this [of nr] this assms(1) show ?thesis by (auto simp: key_arrays_match_def)
qed

section \<open>Key expansion\<close>

text \<open>Words outside the four or eight a turn writes keep their value.\<close>

lemma length_load_key [simp]: "length (load_key n key w) = length w"
  by (simp add: load_key_def) (induction n, simp_all)

lemma length_setup_turn [simp]:
  "length (setup_turn16 i w) = length w" "length (setup_turn24 i w) = length w"
  "length (setup_turn32 i w) = length w"
  by (simp_all add: setup_turn16_def setup_turn24_def setup_turn32_def Let_def)

lemma length_fold_invariant:
  "(\<And>i w. length (f i w) = length w) \<Longrightarrow> length (fold f is w) = length w"
  by (induction "is" arbitrary: w) simp_all

lemma length_expand_key [simp]: "length (expand_key n key w) = length w"
  by (simp add: expand_key_def length_fold_invariant)

text \<open>The key arrays have the sizes the C structure declares.\<close>

definition key_wf :: "rijndael_key \<Rightarrow> bool" where
  "key_wf k \<longleftrightarrow> length (eK k) = 60 \<and> length (dK k) = 60"

lemma rijndael_setup_cases:
  assumes "rijndael_setup key keylen nr skey = Inr k"
  obtains "keylen = 16" "Nr k = 10" | "keylen = 24" "Nr k = 12" | "keylen = 32" "Nr k = 14"
  using assms by (auto simp: rijndael_setup_def Let_def split: if_splits)

lemma rijndael_setup_eK:
  "rijndael_setup key keylen nr skey = Inr k \<Longrightarrow> eK k = expand_key (nat keylen) key (eK skey)"
  by (auto simp: rijndael_setup_def Let_def split: if_splits)

lemma rijndael_setup_dK:
  "rijndael_setup key keylen nr skey = Inr k \<Longrightarrow> dK k = invert_key (nat keylen) (Nr k) (eK k) (dK skey)"
  by (auto simp: rijndael_setup_def Let_def split: if_splits)

lemma setup_wf:
  assumes "rijndael_setup key keylen nr skey = Inr k" "key_wf skey"
  shows "key_wf k" "key_arrays_match (Nr k) (eK k) (dK k)" "even (Nr k)" "2 \<le> Nr k" "Nr k \<le> 16"
proof -
  have k: "4 * Nr k = 24 + nat keylen \<and> even (Nr k) \<and> 2 \<le> Nr k \<and> Nr k \<le> 14"
    using assms(1) by (cases rule: rijndael_setup_cases) simp_all
  then show "even (Nr k)" "2 \<le> Nr k" "Nr k \<le> 16" by simp_all
  from k show "key_arrays_match (Nr k) (eK k) (dK k)"
    using assms(2) by (subst rijndael_setup_dK [OF assms(1)]) (simp add: invert_key_match key_wf_def)
  show "key_wf k" using assms
    by (simp add: key_wf_def rijndael_setup_eK rijndael_setup_dK [OF assms(1)] invert_key_def Let_def)
qed

subsection \<open>FIPS-197 key expansion\<close>

definition SubWord :: "u32 \<Rightarrow> u32" where
  "SubWord w = pack32 (sub (LTC_BYTE w 3)) (sub (LTC_BYTE w 2)) (sub (LTC_BYTE w 1)) (sub (LTC_BYTE w 0))"

definition RotWord :: "u32 \<Rightarrow> u32" where
  "RotWord w = pack32 (LTC_BYTE w 2) (LTC_BYTE w 1) (LTC_BYTE w 0) (LTC_BYTE w 3)"

definition Rcon :: "nat \<Rightarrow> u32" where
  "Rcon j = pack32 ((xtime ^^ (j - 1)) 1) 0 0 0"

function fips_word :: "nat \<Rightarrow> bytes \<Rightarrow> nat \<Rightarrow> u32" where
  "fips_word nk key i =
     (if i < nk \<or> nk = 0 then LOAD32H (take 4 (drop (4 * i) key))
      else fips_word nk key (i - nk) XOR
        (let temp = fips_word nk key (i - 1) in
         if i mod nk = 0 then SubWord (RotWord temp) XOR Rcon (i div nk)
         else if nk > 6 \<and> i mod nk = 4 then SubWord temp else temp))"
  by auto
termination by (relation "measure (\<lambda>(nk, key, i). i)") auto

declare fips_word.simps [simp del]

lemma setup_mix_spec: "setup_mix w = SubWord (RotWord w)"
  by (simp add: setup_mix_def SubWord_def RotWord_def bytes_simps)

lemma RotWord_ROR: "RotWord (ROR w 8) = w"
proof (cases w rule: pack32_cases)
  case (1 a b c d)
  have "ROR (pack32 a b c d) 8 = pack32 d a b c"
    by (rule bit_word_eqI) (auto simp: ROR_def bit_simps bit_pack32 dest: bit_byte_high)
  then show ?thesis by (simp add: 1 RotWord_def bytes_simps)
qed

lemma rcon_spec:
  assumes "i < 10" shows "rcon ! i = Rcon (Suc i)"
proof -
  have p: "(xtime ^^ numeral m) x = xtime ((xtime ^^ pred_numeral m) x)" for m x
    by (simp add: numeral_eq_Suc)
  have "i \<in> {0, 1, 2, 3, 4, 5, 6, 7, 8, 9}" using assms by auto
  then show ?thesis
    by (elim insertE emptyE; hypsubst) (simp_all add: p rcon_def Rcon_def xtime_def LOAD32H_def)
qed

lemma fips_word_key: "i < nk \<Longrightarrow> fips_word nk key i = LOAD32H (take 4 (drop (4 * i) key))"
  by (simp add: fips_word.simps [of nk key i])

lemma fips_word_first:
  "0 < nk \<Longrightarrow> fips_word nk key (nk * n + nk) = fips_word nk key (nk * n) XOR
     SubWord (RotWord (fips_word nk key (nk * n + (nk - 1)))) XOR Rcon (Suc n)"
  by (subst fips_word.simps) (simp add: Let_def)

lemma fips_word_next:
  "0 < r \<Longrightarrow> r < nk \<Longrightarrow> nk \<le> 6 \<or> r \<noteq> 4 \<Longrightarrow> fips_word nk key (nk * n + (nk + r)) =
     fips_word nk key (nk * n + r) XOR fips_word nk key (nk * n + (nk + r - 1))"
  by (subst fips_word.simps) (auto simp: Let_def ac_simps)

lemma fips_word_mid:
  "6 < nk \<Longrightarrow> fips_word nk key (nk * n + (nk + 4)) =
     fips_word nk key (nk * n + 4) XOR SubWord (fips_word nk key (nk * n + (nk + 3)))"
  by (subst fips_word.simps) (auto simp: Let_def ac_simps)

text \<open>Each turn of the three loops extends the prefix of the array that is the expansion.\<close>

lemma all_less_add: "(\<forall>j < m + n. P j) \<longleftrightarrow> (\<forall>j < m. P j) \<and> (\<forall>j < n. P (m + j :: nat))"
  by (metis add.commute add_less_cancel_left le_add_diff_inverse not_less trans_less_add1)

definition expanded :: "nat \<Rightarrow> bytes \<Rightarrow> nat \<Rightarrow> u32 list \<Rightarrow> bool" where
  "expanded nk key n w \<longleftrightarrow> length w = 60 \<and> (\<forall>j < n. w ! j = fips_word nk key j)"

lemma expanded_step:
  "expanded nk key n w \<Longrightarrow> n < 60 \<Longrightarrow> x = fips_word nk key n \<Longrightarrow> expanded nk key (Suc n) (w[n := x])"
  by (auto simp: expanded_def less_Suc_eq)

lemma expanded_nth: "expanded nk key n w \<Longrightarrow> j < n \<Longrightarrow> w ! j = fips_word nk key j"
  by (simp add: expanded_def)

lemma expanded_load_key:
  assumes "length w = 60" "n \<le> nk" "nk \<le> 8"
  shows "expanded nk key n (load_key n key w)"
  using assms(2)
proof (induction n)
  case 0 then show ?case using assms by (simp add: expanded_def load_key_def)
next
  case (Suc n)
  have "load_key (Suc n) key w = (load_key n key w)[n := LOAD32H (take 4 (drop (4 * n) key))]"
    by (simp add: load_key_def)
  with Suc assms show ?case by (simp add: expanded_step fips_word_key)
qed

lemma expanded_first:
  assumes "expanded nk key m w" "m = nk * n + nk" "0 < nk" "n < 10" "m < 60" "m' = Suc m"
    "i = nk * n" "j = nk * n + (nk - 1)"
  shows "expanded nk key m' (w[m := w ! i XOR setup_mix (w ! j) XOR rcon ! n])"
proof -
  have "w ! i = fips_word nk key (nk * n)" "w ! j = fips_word nk key (nk * n + (nk - 1))"
    using assms by (simp_all add: expanded_nth)
  with assms show ?thesis
    by (simp only:) (rule expanded_step, auto simp: setup_mix_spec fips_word_first rcon_spec)
qed

lemma expanded_next:
  assumes "expanded nk key m w" "m = nk * n + (nk + r)" "0 < r" "r < nk" "nk \<le> 6 \<or> r \<noteq> 4" "m < 60"
    "m' = Suc m" "i = nk * n + r" "Suc j = m"
  shows "expanded nk key m' (w[m := w ! i XOR w ! j])"
proof -
  have "w ! i = fips_word nk key (nk * n + r)" "w ! j = fips_word nk key (nk * n + (nk + r - 1))"
    using assms by (auto simp: expanded_nth intro!: arg_cong [where f = "fips_word nk key"])
  with assms show ?thesis
    by (simp only:) (rule expanded_step, auto simp: fips_word_next)
qed

lemma expanded_mid:
  assumes "expanded nk key m w" "m = nk * n + (nk + 4)" "6 < nk" "m < 60"
    "m' = Suc m" "i = nk * n + 4" "Suc j = m"
  shows "expanded nk key m' (w[m := w ! i XOR setup_mix (RORc (w ! j) 8)])"
proof -
  have "w ! i = fips_word nk key (nk * n + 4)" "w ! j = fips_word nk key (nk * n + (nk + 3))"
    using assms by (auto simp: expanded_nth intro!: arg_cong [where f = "fips_word nk key"])
  with assms show ?thesis
    by (simp only:) (rule expanded_step, auto simp: fips_word_mid setup_mix_spec RotWord_ROR)
qed

lemma expanded_turn16:
  assumes "expanded 4 key (4 * n + 4) w" "n < 10"
  shows "expanded 4 key (4 * Suc n + 4) (setup_turn16 n w)"
  unfolding setup_turn16_def Let_def
  by (rule expanded_next [where n = n and r = 3] expanded_next [where n = n and r = 2]
      expanded_next [where n = n and r = 1] expanded_first assms)+
    (use assms in simp_all)

lemma expanded_turn24:
  assumes "expanded 6 key (6 * n + 6) w" "n < 8"
  shows "expanded 6 key (if n + 1 = 8 then 52 else 6 * Suc n + 6) (setup_turn24 n w)"
proof -
  let ?w = "let p = 6 * n; temp = w ! (p + 5);
       w = w[p + 6 := w ! p XOR setup_mix temp XOR rcon ! n];
       w = w[p + 7 := w ! (p + 1) XOR w ! (p + 6)];
       w = w[p + 8 := w ! (p + 2) XOR w ! (p + 7)]
     in w[p + 9 := w ! (p + 3) XOR w ! (p + 8)]"
  have e: "expanded 6 key (6 * n + 10) ?w" unfolding Let_def
    by (rule expanded_next [where n = n and r = 3] expanded_next [where n = n and r = 2]
        expanded_next [where n = n and r = 1] expanded_first assms)+
      (use assms in simp_all)
  have "expanded 6 key (6 * Suc n + 6)
      (let w = ?w[6 * n + 10 := ?w ! (6 * n + 4) XOR ?w ! (6 * n + 9)]
       in w[6 * n + 11 := w ! (6 * n + 5) XOR w ! (6 * n + 10)])" if "n < 7"
    unfolding Let_def
    by (rule expanded_next [where n = n and r = 5] expanded_next [where n = n and r = 4]
        e [unfolded Let_def])+ (use that in simp_all)
  with e assms(2) show ?thesis by (auto simp: setup_turn24_def Let_def)
qed

lemma expanded_turn32:
  assumes "expanded 8 key (8 * n + 8) w" "n < 7"
  shows "expanded 8 key (if n + 1 = 7 then 60 else 8 * Suc n + 8) (setup_turn32 n w)"
proof -
  let ?w = "let p = 8 * n; temp = w ! (p + 7);
       w = w[p + 8 := w ! p XOR setup_mix temp XOR rcon ! n];
       w = w[p + 9 := w ! (p + 1) XOR w ! (p + 8)];
       w = w[p + 10 := w ! (p + 2) XOR w ! (p + 9)]
     in w[p + 11 := w ! (p + 3) XOR w ! (p + 10)]"
  have e: "expanded 8 key (8 * n + 12) ?w" unfolding Let_def
    by (rule expanded_next [where n = n and r = 3] expanded_next [where n = n and r = 2]
        expanded_next [where n = n and r = 1] expanded_first assms)+
      (use assms in simp_all)
  have "expanded 8 key (8 * Suc n + 8)
      (let w = ?w[8 * n + 12 := ?w ! (8 * n + 4) XOR setup_mix (RORc (?w ! (8 * n + 11)) 8)];
           w = w[8 * n + 13 := w ! (8 * n + 5) XOR w ! (8 * n + 12)];
           w = w[8 * n + 14 := w ! (8 * n + 6) XOR w ! (8 * n + 13)]
       in w[8 * n + 15 := w ! (8 * n + 7) XOR w ! (8 * n + 14)])" if "n < 6"
    unfolding Let_def
    by (rule expanded_next [where n = n and r = 7] expanded_next [where n = n and r = 6]
        expanded_next [where n = n and r = 5] expanded_mid [where n = n]
        e [unfolded Let_def])+ (use that in simp_all)
  with e assms(2) show ?thesis by (auto simp: setup_turn32_def Let_def)
qed

lemma expanded_expand_key:
  assumes "length w = 60" "keylen \<in> {16, 24, 32}"
  shows "expanded (keylen div 4) key (4 * (keylen div 4 + 7)) (expand_key keylen key w)"
proof -
  have 16: "expanded 4 key (4 * n + 4) (fold setup_turn16 [0..<n] (load_key 4 key w))" if "n \<le> 10" for n
    using that
  proof (induction n)
    case (Suc n) then show ?case using expanded_turn16 [of key n] by simp
  qed (simp add: expanded_load_key assms)
  have 24: "expanded 6 key (6 * n + 6) (fold setup_turn24 [0..<n] (load_key 6 key w))" if "n \<le> 7" for n
    using that
  proof (induction n)
    case (Suc n) then show ?case using expanded_turn24 [of key n] by simp
  qed (simp add: expanded_load_key assms)
  have 32: "expanded 8 key (8 * n + 8) (fold setup_turn32 [0..<n] (load_key 8 key w))" if "n \<le> 6" for n
    using that
  proof (induction n)
    case (Suc n) then show ?case using expanded_turn32 [of key n] by simp
  qed (simp add: expanded_load_key assms)
  have l: "[0..<8] = [0..<7] @ [7::nat]" "[0..<7] = [0..<6] @ [6::nat]" by (simp_all add: upt_rec)
  show ?thesis
    using assms(2) 16 [of 10] expanded_turn24 [OF 24 [of 7]] expanded_turn32 [OF 32 [of 6]]
    by (auto simp: expand_key_def l(2) simp del: fold_simps) (simp_all add: l)
qed

end
