(* ===== verification/AesSpec.thy ===== *)
theory AesSpec
  imports Aes
begin

text \<open>
  FIPS-197 on 16-byte states and the proof that the table-driven code of
  \<open>aes.c\<close> computes it; the self-test \<open>rijndael_test\<close> and its result.
\<close>

unbundle bit_operations_syntax

section \<open>The FIPS-197 cipher\<close>

text \<open>States are 16 bytes in input order: byte \<open>4 c + r\<close> is row \<open>r\<close> of column \<open>c\<close>.\<close>

definition SubBytes :: "bytes \<Rightarrow> bytes" where
  "SubBytes s = map (\<lambda>b. SBOX ! unat b) s"

definition ShiftRows :: "bytes \<Rightarrow> bytes" where
  "ShiftRows s = map (\<lambda>i. s ! (4 * ((i div 4 + i mod 4) mod 4) + i mod 4)) [0..<16]"

definition MixColumns :: "bytes \<Rightarrow> bytes" where
  "MixColumns s = map (\<lambda>i. let a = (\<lambda>k. s ! (4 * (i div 4) + (i mod 4 + k) mod 4)) in
     xtime (a 0) XOR (xtime (a 1) XOR a 1) XOR a 2 XOR a 3) [0..<16]"

definition AddRoundKey :: "bytes \<Rightarrow> bytes \<Rightarrow> bytes" where
  "AddRoundKey s k = xor_bytes s k"

primrec fips_rounds :: "(nat \<Rightarrow> bytes) \<Rightarrow> nat \<Rightarrow> bytes \<Rightarrow> bytes" where
  "fips_rounds rk 0 s = s"
| "fips_rounds rk (Suc n) s =
     AddRoundKey (MixColumns (ShiftRows (SubBytes (fips_rounds rk n s)))) (rk (Suc n))"

definition fips_cipher :: "nat \<Rightarrow> (nat \<Rightarrow> bytes) \<Rightarrow> bytes \<Rightarrow> bytes" where
  "fips_cipher nr rk pt =
     AddRoundKey (ShiftRows (SubBytes (fips_rounds rk (nr - 1) (AddRoundKey pt (rk 0))))) (rk nr)"

text \<open>The round keys of FIPS-197 for a key of \<open>4 nk\<close> bytes.\<close>

definition fips_round_key :: "nat \<Rightarrow> bytes \<Rightarrow> nat \<Rightarrow> bytes" where
  "fips_round_key nk key r = concat (map (\<lambda>i. STORE32H (fips_word nk key (4 * r + i))) [0..<4])"

definition aes_spec :: "bytes \<Rightarrow> bytes \<Rightarrow> bytes" where
  "aes_spec key pt =
     (let nk = length key div 4 in fips_cipher (nk + 6) (fips_round_key nk key) pt)"

section \<open>The tables compute the specification\<close>

lemma upt_4_16: "[0..<4] = [0, 1, 2, 3 :: nat]"
  "[0..<16] = [0, 1, 2, 3, 4, 5, 6, 7, 8, 9, 10, 11, 12, 13, 14, 15 :: nat]"
  by (simp_all add: upt_rec)

lemma store_block_xor4: "store_block (xor4 s k) = AddRoundKey (store_block s) (store_block k)"
proof -
  have "STORE32H (x XOR y) = xor_bytes (STORE32H x) (STORE32H y)" for x y
    by (cases x rule: pack32_cases; cases y rule: pack32_cases) (simp add: bytes_simps xor_bytes_def)
  then show ?thesis
    by (cases s; cases k) (simp add: store_block_def xor4_def AddRoundKey_def STORE32H_bytes xor_bytes_def)
qed

lemma store_block_sub_shift: "store_block (sub_shift s) = ShiftRows (SubBytes (store_block s))"
  by (cases s)
    (simp add: store_block_def sub_shift_def ShiftRows_def SubBytes_def upt_4_16 bytes_simps STORE32H_bytes)

lemma store_block_mix: "store_block (map4 mix_word s) = MixColumns (store_block s)"
  by (cases s)
    (simp add: store_block_def map4_def mix_word_def MixColumns_def Let_def upt_4_16 bytes_simps
      STORE32H_bytes ac_simps)

lemma store_block_quad:
  assumes "\<And>i. i < 4 \<Longrightarrow> rk ! (4 * r + i) = fips_word nk key (4 * r + i)"
  shows "store_block (quad rk (4 * r)) = fips_round_key nk key r"
  using assms [of 0] assms [of 1] assms [of 2] assms [of 3]
  by (simp add: store_block_def quad_def fips_round_key_def upt_4_16)

lemma rijndael_encrypt_rounds:
  assumes "even (Nr k)" "2 \<le> Nr k" "Nr k \<le> 16"
  shows "rijndael_ecb_encrypt pt k = Inr (AddRoundKey (ShiftRows (SubBytes
     (store_block (te_rounds (eK k) (Nr k - 1) (load_block pt (eK k)))))) (store_block (quad (eK k) (4 * Nr k))))"
  using assms
  by (simp add: rijndael_ecb_encrypt_def Let_def te_loop_all te_last_split store_block_xor4
      store_block_sub_shift)

lemma store_te_rounds:
  assumes "\<And>j. j < 4 * (n + 1) \<Longrightarrow> rk ! j = fips_word nk key j"
  shows "store_block (te_rounds rk n s) = fips_rounds (fips_round_key nk key) n (store_block s)"
  using assms
proof (induction n)
  case (Suc n)
  have "store_block (quad rk (4 * Suc n)) = fips_round_key nk key (Suc n)"
    by (rule store_block_quad) (rule Suc.prems, simp)
  with Suc show ?case
    by (simp add: te_round_split store_block_xor4 store_block_mix store_block_sub_shift)
qed simp

lemma encrypt_is_fips:
  assumes "rijndael_setup key keylen num_rounds skey = Inr k" "key_wf skey"
    "length key = nat keylen" "length pt = 16"
  shows "rijndael_ecb_encrypt pt k = Inr (aes_spec key pt)"
proof -
  define nk where "nk = nat keylen div 4"
  have nk: "Nr k = nk + 6" "nat keylen \<in> {16, 24, 32}" "length key div 4 = nk"
    using assms(1,3) by (cases rule: rijndael_setup_cases; simp add: nk_def)+
  have ek: "eK k ! j = fips_word nk key j" if "j < 4 * (Nr k + 1)" for j
    using expanded_expand_key [of "eK skey" "nat keylen" key] assms(1,2) that nk(2)
    by (simp add: nk(1) nk_def rijndael_setup_eK key_wf_def expanded_def)
  have q: "store_block (quad (eK k) (4 * r)) = fips_round_key nk key r" if "r \<le> Nr k" for r
    by (rule store_block_quad) (rule ek, use that in simp)
  have "store_block (load_block pt (eK k)) = AddRoundKey pt (fips_round_key nk key 0)"
    using q [of 0] store_load_block [OF assms(4)] by (simp add: load_block_xor4 store_block_xor4)
  moreover have "store_block (te_rounds (eK k) (Nr k - 1) s) =
      fips_rounds (fips_round_key nk key) (Nr k - 1) (store_block s)" for s
    by (rule store_te_rounds) (rule ek, use nk(1) in simp)
  ultimately show ?thesis
    unfolding rijndael_encrypt_rounds [OF setup_wf(3-5) [OF assms(1,2)]]
    by (simp add: aes_spec_def fips_cipher_def nk(3) q Let_def) (simp add: nk(1))
qed

lemma block_round_trip:
  assumes "rijndael_setup key keylen num_rounds skey = Inr k" "key_wf skey" "length pt = 16"
  shows "\<exists>ct. rijndael_ecb_encrypt pt k = Inr ct \<and> length ct = 16 \<and> rijndael_ecb_decrypt ct k = Inr pt"
  using setup_wf [OF assms(1,2)] assms(3) by (intro decrypt_encrypt_words)

text \<open>The zeroed key structure of a fresh context.\<close>

definition zero_key :: rijndael_key where
  "zero_key = \<lparr>eK = replicate 60 0, dK = replicate 60 0, Nr = 0\<rparr>"

lemma key_wf_zero [simp]: "key_wf zero_key"
  by (simp add: key_wf_def zero_key_def)

lemma rijndael_setup_succeeds:
  "keylen \<in> {16, 24, 32} \<Longrightarrow> \<exists>k. rijndael_setup key keylen 0 skey = Inr k"
  by (auto simp: rijndael_setup_def Let_def)

section \<open>Properties\<close>

text \<open>
  C1: for every key the code accepts, the table-driven block encryption returns the
  FIPS-197 ciphertext (\<open>SubBytes\<close>, \<open>ShiftRows\<close>, \<open>MixColumns\<close>, \<open>AddRoundKey\<close> under the
  FIPS-197 key expansion) of the 16-byte block.
\<close>

theorem rijndael_encrypt_fips:
  assumes "rijndael_setup key keylen num_rounds skey = Inr k" "key_wf skey"
    "length key = nat keylen" "length pt = 16"
  shows "rijndael_ecb_encrypt pt k = Inr (aes_spec key pt)"
  using assms by (rule encrypt_is_fips)

theorem rijndael_encrypt_fips_witness:
  "\<exists>k. rijndael_setup (replicate 32 7) 32 14 zero_key = Inr k \<and>
     rijndael_ecb_encrypt (replicate 16 1) k = Inr (aes_spec (replicate 32 7) (replicate 16 1))"
proof -
  obtain k where "rijndael_setup (replicate 32 7) 32 14 zero_key = Inr k"
    by (auto simp: rijndael_setup_def Let_def)
  with rijndael_encrypt_fips [OF this] show ?thesis by simp
qed

text \<open>
  C2: decryption under the scheduled key inverts encryption: for every accepted key
  and every 16-byte block, encryption succeeds with a 16-byte ciphertext, and
  decrypting that ciphertext returns the block.
\<close>

theorem rijndael_decrypt_encrypt:
  assumes "rijndael_setup key keylen num_rounds skey = Inr k" "key_wf skey" "length pt = 16"
  shows "\<exists>ct. rijndael_ecb_encrypt pt k = Inr ct \<and> length ct = 16 \<and> rijndael_ecb_decrypt ct k = Inr pt"
  using assms by (rule block_round_trip)

theorem rijndael_decrypt_encrypt_witness:
  "\<exists>k ct. rijndael_setup (replicate 32 7) 32 0 zero_key = Inr k \<and>
     rijndael_ecb_encrypt (replicate 16 1) k = Inr ct \<and> rijndael_ecb_decrypt ct k = Inr (replicate 16 1)"
proof -
  obtain k where k: "rijndael_setup (replicate 32 7) 32 0 zero_key = Inr k"
    using rijndael_setup_succeeds [of 32] by auto
  with rijndael_decrypt_encrypt [OF k, of "replicate 16 1"] show ?thesis by auto
qed

text \<open>
  Key setup accepts exactly the key sizes 16, 24 and 32 with 0 or the standard
  number of rounds, reports the size error before the rounds error, and sets the
  round count to 10, 12 or 14; \<open>rijndael_keysize\<close> rounds a request down to one of
  the sizes that setup accepts and refuses requests below 16.
\<close>

theorem rijndael_setup_outcome:
  "(rijndael_setup key keylen num_rounds skey = Inl CRYPT_INVALID_KEYSIZE \<longleftrightarrow> keylen \<notin> {16, 24, 32}) \<and>
   (rijndael_setup key keylen num_rounds skey = Inl CRYPT_INVALID_ROUNDS \<longleftrightarrow>
     keylen \<in> {16, 24, 32} \<and> num_rounds \<notin> {0, keylen div 4 + 6}) \<and>
   ((\<exists>k. rijndael_setup key keylen num_rounds skey = Inr k \<and> int (Nr k) = keylen div 4 + 6) \<longleftrightarrow>
     keylen \<in> {16, 24, 32} \<and> num_rounds \<in> {0, keylen div 4 + 6}) \<and>
   ((\<exists>size. rijndael_keysize keylen = (CRYPT_OK, size) \<and> size \<le> keylen \<and>
     (\<exists>k. rijndael_setup key size 0 skey = Inr k)) \<longleftrightarrow> 16 \<le> keylen) \<and>
   (rijndael_keysize keylen = (CRYPT_INVALID_KEYSIZE, keylen) \<longleftrightarrow> keylen < 16)"
  by (intro conjI) (auto simp: rijndael_setup_def rijndael_keysize_def Let_def)

end
