(* ===== verification/AesTest.thy ===== *)
theory AesTest
  imports AesSpec
begin

text \<open>
  The self-test \<open>rijndael_test\<close> of \<open>aes.c\<close>, with \<open>compare_testvector.c\<close>, and the
  proof that it succeeds: its three vectors are evaluated through the FIPS-197
  specification, and the 1000 encryptions and decryptions cancel by the round trip.
\<close>

unbundle bit_operations_syntax

section \<open>Evaluation rules\<close>

lemma sub_list: "map (\<lambda>x. SBOX ! unat x) ALL_BYTES = SBOX"
  by (rule nth_equalityI) (simp_all add: ALL_BYTES_upt unsigned_of_nat take_bit_nat_eq_self)

lemmas sub_eval = trans [OF sub_list SBOX_def, unfolded ALL_BYTES_def list.map list.inject, simplified]

lemma fips_rounds_numeral:
  "fips_rounds rk (numeral m) s =
     AddRoundKey (MixColumns (ShiftRows (SubBytes (fips_rounds rk (pred_numeral m) s)))) (rk (numeral m))"
  by (simp add: numeral_eq_Suc)

lemmas fips_eval = fips_rounds_numeral AddRoundKey_def MixColumns_def ShiftRows_def SubBytes_def upt_4_16
  Let_def xor_bytes_def xtime_def sub_eval

text \<open>The expansion as a list, last word first.\<close>
definition fips_next :: "nat \<Rightarrow> nat \<Rightarrow> u32 list \<Rightarrow> u32 list" where
  "fips_next nk i ws = (ws ! (nk - 1) XOR (let temp = hd ws in
      if i mod nk = 0 then SubWord (RotWord temp) XOR Rcon (i div nk)
         else if nk > 6 \<and> i mod nk = 4 then SubWord temp else temp)) # ws"

lemma Rcon_numeral: "Rcon (Suc 0) = 0x1000000" "Rcon 3 = 0x4000000" "Rcon 4 = 0x8000000"
  "Rcon 5 = 0x10000000" "Rcon 6 = 0x20000000" "Rcon 7 = 0x40000000" "Rcon 8 = 0x80000000"
  using rcon_spec [of 0] rcon_spec [of 2] rcon_spec [of 3] rcon_spec [of 4] rcon_spec [of 5]
    rcon_spec [of 6] rcon_spec [of 7] by (simp_all add: rcon_def)

lemma Rcon_2: "Rcon 2 = 0x2000000"
  using rcon_spec [of 1] by (simp add: rcon_def numeral_2_eq_2)

lemma Rcon_9_10: "Rcon 9 = 0x1b000000" "Rcon 10 = 0x36000000"
  using rcon_spec [of 8] rcon_spec [of 9] by (simp_all add: rcon_def)

lemma fips_next_word:
  assumes "0 < nk" "nk \<le> i"
  shows "fips_next nk i (rev (map (fips_word nk key) [0..<i])) = rev (map (fips_word nk key) [0..<Suc i])"
proof -
  have "rev (map (fips_word nk key) [0..<i]) ! (nk - 1) = fips_word nk key (i - nk)"
    using assms by (simp add: rev_nth)
  moreover have "hd (rev (map (fips_word nk key) [0..<i])) = fips_word nk key (i - 1)"
    using assms by (simp add: hd_rev last_map)
  ultimately show ?thesis
    using assms by (simp add: fips_next_def Let_def fips_word.simps [of nk key i])
qed

lemma fips_words_fold:
  "0 < nk \<Longrightarrow> fold (fips_next nk) [nk..<nk + n] (rev (map (fips_word nk key) [0..<nk])) =
     rev (map (fips_word nk key) [0..<nk + n])"
  by (induction n) (simp_all del: upt_Suc map_append, simp add: fips_next_word)

definition key_words :: "u32 list \<Rightarrow> nat \<Rightarrow> bytes" where
  "key_words ks r = concat (map STORE32H (take 4 (drop (4 * r) ks)))"

lemma fips_cipher_cong:
  "(\<And>r. r \<le> nr \<Longrightarrow> rk r = rk' r) \<Longrightarrow> fips_cipher nr rk pt = fips_cipher nr rk' pt"
proof -
  have "(\<And>r. r \<le> n \<Longrightarrow> rk r = rk' r) \<Longrightarrow> fips_rounds rk n s = fips_rounds rk' n s" for n s
    by (induction n) simp_all
  moreover assume "\<And>r. r \<le> nr \<Longrightarrow> rk r = rk' r"
  ultimately show ?thesis by (simp add: fips_cipher_def)
qed

lemma aes_spec_words:
  assumes "length key = 4 * nk" "0 < nk"
    "rev ks = fold (fips_next nk) [nk..<4 * (nk + 7)] (rev (map (\<lambda>i. LOAD32H (take 4 (drop (4 * i) key))) [0..<nk]))"
  shows "aes_spec key pt = fips_cipher (nk + 6) (key_words ks) pt"
proof -
  have n: "nk + (3 * nk + 28) = 4 * (nk + 7)" by simp
  have m: "map (\<lambda>i. LOAD32H (take 4 (drop (4 * i) key))) [0..<nk] = map (fips_word nk key) [0..<nk]"
    by (simp add: fips_word_key)
  from assms(3) have "rev ks = rev (map (fips_word nk key) [0..<4 * (nk + 7)])"
    unfolding m using fips_words_fold [OF assms(2), of "3 * nk + 28" key] unfolding n by simp
  then have "fips_round_key nk key r = key_words ks r" if "r \<le> nk + 6" for r
    using that by (simp add: fips_round_key_def key_words_def drop_map take_map take_upt comp_def)
      (simp add: upt_conv_Cons upt_4_16 numeral_eq_Suc)
  then show ?thesis using assms by (simp add: aes_spec_def Let_def cong: fips_cipher_cong)
qed

section \<open>The self-test\<close>

text \<open>\<open>compare_testvector.c\<close>, with \<open>memcmp\<close> returning the difference at the first mismatch.\<close>

fun XMEMCMP :: "bytes \<Rightarrow> bytes \<Rightarrow> int" where
  "XMEMCMP (x # xs) (y # ys) = (if x = y then XMEMCMP xs ys else uint x - uint y)"
| "XMEMCMP _ _ = 0"

definition compare_testvector :: "bytes \<Rightarrow> bytes \<Rightarrow> int" where
  "compare_testvector is should =
     (if length is \<noteq> length should then (if length is > length should then -1 else 1)
      else XMEMCMP is should)"

text \<open>The test vectors of \<open>rijndael_test\<close>: key length, key, plaintext, ciphertext.\<close>

definition rijndael_tests :: "(int \<times> bytes \<times> bytes \<times> bytes) list" where
  "rijndael_tests =
    [(16,
      [0x00, 0x01, 0x02, 0x03, 0x04, 0x05, 0x06, 0x07,
       0x08, 0x09, 0x0a, 0x0b, 0x0c, 0x0d, 0x0e, 0x0f],
      [0x00, 0x11, 0x22, 0x33, 0x44, 0x55, 0x66, 0x77,
       0x88, 0x99, 0xaa, 0xbb, 0xcc, 0xdd, 0xee, 0xff],
      [0x69, 0xc4, 0xe0, 0xd8, 0x6a, 0x7b, 0x04, 0x30,
       0xd8, 0xcd, 0xb7, 0x80, 0x70, 0xb4, 0xc5, 0x5a]),
     (24,
      [0x00, 0x01, 0x02, 0x03, 0x04, 0x05, 0x06, 0x07,
       0x08, 0x09, 0x0a, 0x0b, 0x0c, 0x0d, 0x0e, 0x0f,
       0x10, 0x11, 0x12, 0x13, 0x14, 0x15, 0x16, 0x17],
      [0x00, 0x11, 0x22, 0x33, 0x44, 0x55, 0x66, 0x77,
       0x88, 0x99, 0xaa, 0xbb, 0xcc, 0xdd, 0xee, 0xff],
      [0xdd, 0xa9, 0x7c, 0xa4, 0x86, 0x4c, 0xdf, 0xe0,
       0x6e, 0xaf, 0x70, 0xa0, 0xec, 0x0d, 0x71, 0x91]),
     (32,
      [0x00, 0x01, 0x02, 0x03, 0x04, 0x05, 0x06, 0x07,
       0x08, 0x09, 0x0a, 0x0b, 0x0c, 0x0d, 0x0e, 0x0f,
       0x10, 0x11, 0x12, 0x13, 0x14, 0x15, 0x16, 0x17,
       0x18, 0x19, 0x1a, 0x1b, 0x1c, 0x1d, 0x1e, 0x1f],
      [0x00, 0x11, 0x22, 0x33, 0x44, 0x55, 0x66, 0x77,
       0x88, 0x99, 0xaa, 0xbb, 0xcc, 0xdd, 0xee, 0xff],
      [0x8e, 0xa2, 0xb7, 0xca, 0x51, 0x67, 0x45, 0xbf,
       0xea, 0xfc, 0x49, 0x90, 0x4b, 0x49, 0x60, 0x89])]"

text \<open>A call whose status the test ignores: the output buffer is unchanged on an error.\<close>

definition into :: "crypt_rc + bytes \<Rightarrow> bytes \<Rightarrow> bytes" where
  "into r buf = (case r of Inl _ \<Rightarrow> buf | Inr out \<Rightarrow> out)"

definition rijndael_test_one :: "bytes \<Rightarrow> bytes \<Rightarrow> int \<times> bytes \<times> bytes \<times> bytes \<Rightarrow> crypt_rc" where
  "rijndael_test_one tmp0 tmp1 = (\<lambda>(keylen, key, pt, ct).
     case rijndael_setup key keylen 0 zero_key of
       Inl err \<Rightarrow> err
     | Inr k \<Rightarrow>
        (let tmp0 = into (rijndael_ecb_encrypt pt k) tmp0;
             tmp1 = into (rijndael_ecb_decrypt tmp0 k) tmp1 in
         if compare_testvector tmp0 ct \<noteq> 0 \<or> compare_testvector tmp1 pt \<noteq> 0
         then CRYPT_FAIL_TESTVECTOR
         else let tmp0 = replicate 16 0;
                  tmp0 = ((\<lambda>b. into (rijndael_ecb_encrypt b k) b) ^^ 1000) tmp0;
                  tmp0 = ((\<lambda>b. into (rijndael_ecb_decrypt b k) b) ^^ 1000) tmp0
              in if \<exists>y < 16. tmp0 ! y \<noteq> 0 then CRYPT_FAIL_TESTVECTOR else CRYPT_OK))"

primrec rijndael_test_all :: "bytes \<Rightarrow> bytes \<Rightarrow> (int \<times> bytes \<times> bytes \<times> bytes) list \<Rightarrow> crypt_rc" where
  "rijndael_test_all tmp0 tmp1 [] = CRYPT_OK"
| "rijndael_test_all tmp0 tmp1 (t # ts) =
     (case rijndael_test_one tmp0 tmp1 t of CRYPT_OK \<Rightarrow> rijndael_test_all tmp0 tmp1 ts | err \<Rightarrow> err)"

text \<open>The two buffers are uninitialised stack arrays, hence parameters.\<close>

definition rijndael_test :: "bytes \<Rightarrow> bytes \<Rightarrow> crypt_rc" where
  "rijndael_test tmp0 tmp1 = rijndael_test_all tmp0 tmp1 rijndael_tests"

subsection \<open>The vectors\<close>

lemmas expansion_eval = fips_next_def Rcon_numeral Rcon_2 Rcon_9_10 SubWord_def RotWord_def LTC_BYTE_def
  LOAD32H_def sub_eval

lemma expansion_128:
  "fold (fips_next 4) [4..<44] [0xc0d0e0f, 0x8090a0b, 0x4050607, 0x10203] =
    [0x4d2b30c5, 0xf307a78b, 0xe3944a17, 0x13111d7f, 0xbe2c974e, 0x1093ed9c, 0xf0855768, 0x549932d1,
    0xaebf7ad2, 0xe016baf4, 0xa41c65b9, 0x47438735, 0x4ea9c026, 0x440adf4d, 0xe35fe28c, 0x14f9701a,
    0xaa31f6b, 0xa7553dc1, 0xf7a69296, 0x5e390f7d, 0xadf622aa, 0x50f3af57, 0xa99f9deb, 0x3caaa3e8,
    0xfd058dfd, 0xf96c32bc, 0x95353e03, 0x47f7f7bc, 0x469bf41, 0x6c590cbf, 0xd2c2c9bf, 0xb6ff744e,
    0x6830b3fe, 0xbe9bc500, 0x643dbdf1, 0xb692cf0b, 0xd6ab76fe, 0xdaa678f1, 0xd2af72fa, 0xd6aa74fd,
    0xc0d0e0f, 0x8090a0b, 0x4050607, 0x10203]"
  by (simp add: expansion_eval)

lemma cipher_128:
  "fips_cipher 10 (key_words
    [0x10203, 0x4050607, 0x8090a0b, 0xc0d0e0f, 0xd6aa74fd, 0xd2af72fa, 0xdaa678f1, 0xd6ab76fe, 0xb692cf0b,
    0x643dbdf1, 0xbe9bc500, 0x6830b3fe, 0xb6ff744e, 0xd2c2c9bf, 0x6c590cbf, 0x469bf41, 0x47f7f7bc,
    0x95353e03, 0xf96c32bc, 0xfd058dfd, 0x3caaa3e8, 0xa99f9deb, 0x50f3af57, 0xadf622aa, 0x5e390f7d,
    0xf7a69296, 0xa7553dc1, 0xaa31f6b, 0x14f9701a, 0xe35fe28c, 0x440adf4d, 0x4ea9c026, 0x47438735,
    0xa41c65b9, 0xe016baf4, 0xaebf7ad2, 0x549932d1, 0xf0855768, 0x1093ed9c, 0xbe2c974e, 0x13111d7f,
    0xe3944a17, 0xf307a78b, 0x4d2b30c5])
    [0x00, 0x11, 0x22, 0x33, 0x44, 0x55, 0x66, 0x77, 0x88, 0x99, 0xaa, 0xbb, 0xcc, 0xdd, 0xee, 0xff] =
    [0x69, 0xc4, 0xe0, 0xd8, 0x6a, 0x7b, 0x04, 0x30, 0xd8, 0xcd, 0xb7, 0x80, 0x70, 0xb4, 0xc5, 0x5a]"
  by (simp add: fips_cipher_def fips_eval key_words_def STORE32H_def)

lemma expansion_192:
  "fold (fips_next 6) [6..<52] [0x14151617, 0x10111213, 0xc0d0e0f, 0x8090a0b, 0x4050607, 0x10203] =
    [0xe3a41d5d, 0xc418c271, 0x1a78dc09, 0xa4970a33, 0xd8aeda32, 0xa223800f, 0x27bcdf2c, 0xde601e78,
    0xbeefd63a, 0xc0c02952, 0x7a8d5a3d, 0x859f5f23, 0xf9dcc154, 0x608fc842, 0x7e2fff68, 0xdd7e0e88,
    0xff12051e, 0x7c439e77, 0x99530916, 0x1ea0372a, 0xa351f1e0, 0x34157c9e, 0x83519b69, 0xe5109761,
    0x87f33e3c, 0xbdf1c6ca, 0x97448d7e, 0xf5018572, 0x66410c08, 0x62e3a95d, 0x3a02f8f6, 0x2ab54bb4,
    0x6245080c, 0x7effb541, 0x4a2a555, 0x58e151ab, 0x10b7b342, 0x48f043b8, 0x1cbabd4d, 0x40f949b3,
    0x5c43f4fe, 0x4856e2e9, 0x5847f0fa, 0x544afef5, 0x5c43f4fe, 0x5846f2f9, 0x14151617, 0x10111213,
    0xc0d0e0f, 0x8090a0b, 0x4050607, 0x10203]"
  by (simp add: expansion_eval)

lemma cipher_192:
  "fips_cipher 12 (key_words
    [0x10203, 0x4050607, 0x8090a0b, 0xc0d0e0f, 0x10111213, 0x14151617, 0x5846f2f9, 0x5c43f4fe, 0x544afef5,
    0x5847f0fa, 0x4856e2e9, 0x5c43f4fe, 0x40f949b3, 0x1cbabd4d, 0x48f043b8, 0x10b7b342, 0x58e151ab,
    0x4a2a555, 0x7effb541, 0x6245080c, 0x2ab54bb4, 0x3a02f8f6, 0x62e3a95d, 0x66410c08, 0xf5018572,
    0x97448d7e, 0xbdf1c6ca, 0x87f33e3c, 0xe5109761, 0x83519b69, 0x34157c9e, 0xa351f1e0, 0x1ea0372a,
    0x99530916, 0x7c439e77, 0xff12051e, 0xdd7e0e88, 0x7e2fff68, 0x608fc842, 0xf9dcc154, 0x859f5f23,
    0x7a8d5a3d, 0xc0c02952, 0xbeefd63a, 0xde601e78, 0x27bcdf2c, 0xa223800f, 0xd8aeda32, 0xa4970a33,
    0x1a78dc09, 0xc418c271, 0xe3a41d5d])
    [0x00, 0x11, 0x22, 0x33, 0x44, 0x55, 0x66, 0x77, 0x88, 0x99, 0xaa, 0xbb, 0xcc, 0xdd, 0xee, 0xff] =
    [0xdd, 0xa9, 0x7c, 0xa4, 0x86, 0x4c, 0xdf, 0xe0, 0x6e, 0xaf, 0x70, 0xa0, 0xec, 0x0d, 0x71, 0x91]"
  by (simp add: fips_cipher_def fips_eval key_words_def STORE32H_def)

lemma expansion_256:
  "fold (fips_next 8) [8..<60] [0x1c1d1e1f, 0x18191a1b, 0x14151617, 0x10111213, 0xc0d0e0f, 0x8090a0b, 0x4050607, 0x10203] =
    [0x6d68de36, 0x371ac23c, 0xbf0979e9, 0x24fc79cc, 0xcdf8cdea, 0x7e572baa, 0xa9f24fe0, 0x4e5a6699,
    0x5a721c0a, 0x8813bbd5, 0x9bf50025, 0x2541fe71, 0xb3afe640, 0xd7a5644a, 0xe7a82979, 0xf01afafe,
    0xd261a7df, 0x13e6bbf0, 0xbeb4fe54, 0x7ccff71c, 0x640a820a, 0x300d4d33, 0x17b2d387, 0x45f5a660,
    0xc1871c2f, 0xad5245a4, 0xc27b0948, 0xbdc905f, 0x5407cf39, 0x27bf9eb4, 0x524775e7, 0x3de23a75,
    0x6cd5598b, 0x6f294cec, 0xc9a79917, 0xc656827f, 0x73b8518d, 0x75f8eb53, 0x6fa54f92, 0x6de1f148,
    0x3fc1567, 0xa68ed5fb, 0xff11b68, 0xae87dff0, 0x640bade, 0x1a5da4c1, 0x244beda, 0x1651a8cd, 0xa572c09c,
    0xa97fce93, 0xa176c498, 0xa573c29f, 0x1c1d1e1f, 0x18191a1b, 0x14151617, 0x10111213, 0xc0d0e0f, 0x8090a0b,
    0x4050607, 0x10203]"
  by (simp add: expansion_eval)

lemma cipher_256:
  "fips_cipher 14 (key_words
    [0x10203, 0x4050607, 0x8090a0b, 0xc0d0e0f, 0x10111213, 0x14151617, 0x18191a1b, 0x1c1d1e1f, 0xa573c29f,
    0xa176c498, 0xa97fce93, 0xa572c09c, 0x1651a8cd, 0x244beda, 0x1a5da4c1, 0x640bade, 0xae87dff0, 0xff11b68,
    0xa68ed5fb, 0x3fc1567, 0x6de1f148, 0x6fa54f92, 0x75f8eb53, 0x73b8518d, 0xc656827f, 0xc9a79917,
    0x6f294cec, 0x6cd5598b, 0x3de23a75, 0x524775e7, 0x27bf9eb4, 0x5407cf39, 0xbdc905f, 0xc27b0948,
    0xad5245a4, 0xc1871c2f, 0x45f5a660, 0x17b2d387, 0x300d4d33, 0x640a820a, 0x7ccff71c, 0xbeb4fe54,
    0x13e6bbf0, 0xd261a7df, 0xf01afafe, 0xe7a82979, 0xd7a5644a, 0xb3afe640, 0x2541fe71, 0x9bf50025,
    0x8813bbd5, 0x5a721c0a, 0x4e5a6699, 0xa9f24fe0, 0x7e572baa, 0xcdf8cdea, 0x24fc79cc, 0xbf0979e9,
    0x371ac23c, 0x6d68de36])
    [0x00, 0x11, 0x22, 0x33, 0x44, 0x55, 0x66, 0x77, 0x88, 0x99, 0xaa, 0xbb, 0xcc, 0xdd, 0xee, 0xff] =
    [0x8e, 0xa2, 0xb7, 0xca, 0x51, 0x67, 0x45, 0xbf, 0xea, 0xfc, 0x49, 0x90, 0x4b, 0x49, 0x60, 0x89]"
  by (simp add: fips_cipher_def fips_eval key_words_def STORE32H_def)

subsection \<open>The test passes\<close>

lemma XMEMCMP_same [simp]: "XMEMCMP xs xs = 0"
  by (induction xs) simp_all

lemma compare_testvector_same [simp]: "compare_testvector xs xs = 0"
  by (simp add: compare_testvector_def)

lemma iterated_round_trip:
  assumes "\<And>b. P b \<Longrightarrow> P (f b) \<and> g (f b) = b" "P b"
  shows "(g ^^ n) ((f ^^ n) b) = b"
proof -
  have "P ((f ^^ n) b) \<and> (g ^^ n) ((f ^^ n) b) = b" for n
  proof (induction n)
    case (Suc n)
    then have "(g ^^ Suc n) ((f ^^ Suc n) b) = (g ^^ n) (g (f ((f ^^ n) b)))"
      by (simp add: funpow_swap1)
    with Suc assms(1) show ?case by simp
  qed (simp add: assms(2))
  then show ?thesis by blast
qed

lemma rijndael_test_one_ok:
  assumes "keylen \<in> {16, 24, 32}" "length key = nat keylen" "length pt = 16" "aes_spec key pt = ct"
  shows "rijndael_test_one tmp0 tmp1 (keylen, key, pt, ct) = CRYPT_OK"
proof -
  obtain k where k: "rijndael_setup key keylen 0 zero_key = Inr k"
    using assms(1) by (auto simp: rijndael_setup_def Let_def)
  have enc: "\<exists>c. rijndael_ecb_encrypt b k = Inr c \<and> length c = 16 \<and> rijndael_ecb_decrypt c k = Inr b"
    if "length b = 16" for b by (rule block_round_trip [OF k]) (simp_all add: that)
  have e: "rijndael_ecb_encrypt pt k = Inr ct" "rijndael_ecb_decrypt ct k = Inr pt"
    using encrypt_is_fips [OF k key_wf_zero assms(2,3)] enc [OF assms(3)] assms(4) by auto
  let ?e = "\<lambda>b. into (rijndael_ecb_encrypt b k) b" and ?d = "\<lambda>b. into (rijndael_ecb_decrypt b k) b"
  have "(?d ^^ n) ((?e ^^ n) (replicate 16 0)) = replicate 16 0" for n
    by (rule iterated_round_trip [where P = "\<lambda>b. length b = 16"]) (use enc in \<open>force simp: into_def\<close>, simp)
  then show ?thesis by (simp add: rijndael_test_one_def k e into_def [of "Inr _"] Let_def)
qed

lemma vector_128:
  "aes_spec [0x0, 0x1, 0x2, 0x3, 0x4, 0x5, 0x6, 0x7, 0x8, 0x9, 0xa, 0xb, 0xc, 0xd, 0xe, 0xf]
    [0x00, 0x11, 0x22, 0x33, 0x44, 0x55, 0x66, 0x77, 0x88, 0x99, 0xaa, 0xbb, 0xcc, 0xdd, 0xee, 0xff] =
    [0x69, 0xc4, 0xe0, 0xd8, 0x6a, 0x7b, 0x04, 0x30, 0xd8, 0xcd, 0xb7, 0x80, 0x70, 0xb4, 0xc5, 0x5a]"
  (is "aes_spec ?key ?pt = ?ct")
proof -
  have k: "rev (map (\<lambda>i. LOAD32H (take 4 (drop (4 * i) ?key))) [0..<4]) =
      [0xc0d0e0f, 0x8090a0b, 0x4050607, 0x10203]"
    by (simp add: LOAD32H_def upt_rec)
  have "aes_spec ?key ?pt = fips_cipher (4 + 6) (key_words (rev (fold (fips_next 4) [4..<4 * (4 + 7)]
      (rev (map (\<lambda>i. LOAD32H (take 4 (drop (4 * i) ?key))) [0..<4]))))) ?pt"
    by (rule aes_spec_words) simp_all
  also have "4 * (4 + 7) = (44 :: nat)" by simp
  also note k
  also note expansion_128
  finally show ?thesis using cipher_128 by simp
qed

lemma vector_192:
  "aes_spec [0x0, 0x1, 0x2, 0x3, 0x4, 0x5, 0x6, 0x7, 0x8, 0x9, 0xa, 0xb, 0xc, 0xd, 0xe, 0xf, 0x10, 0x11, 0x12, 0x13,
    0x14, 0x15, 0x16, 0x17]
    [0x00, 0x11, 0x22, 0x33, 0x44, 0x55, 0x66, 0x77, 0x88, 0x99, 0xaa, 0xbb, 0xcc, 0xdd, 0xee, 0xff] =
    [0xdd, 0xa9, 0x7c, 0xa4, 0x86, 0x4c, 0xdf, 0xe0, 0x6e, 0xaf, 0x70, 0xa0, 0xec, 0x0d, 0x71, 0x91]"
  (is "aes_spec ?key ?pt = ?ct")
proof -
  have k: "rev (map (\<lambda>i. LOAD32H (take 4 (drop (4 * i) ?key))) [0..<6]) =
      [0x14151617, 0x10111213, 0xc0d0e0f, 0x8090a0b, 0x4050607, 0x10203]"
    by (simp add: LOAD32H_def upt_rec)
  have "aes_spec ?key ?pt = fips_cipher (6 + 6) (key_words (rev (fold (fips_next 6) [6..<4 * (6 + 7)]
      (rev (map (\<lambda>i. LOAD32H (take 4 (drop (4 * i) ?key))) [0..<6]))))) ?pt"
    by (rule aes_spec_words) simp_all
  also have "4 * (6 + 7) = (52 :: nat)" by simp
  also note k
  also note expansion_192
  finally show ?thesis using cipher_192 by simp
qed

lemma vector_256:
  "aes_spec [0x0, 0x1, 0x2, 0x3, 0x4, 0x5, 0x6, 0x7, 0x8, 0x9, 0xa, 0xb, 0xc, 0xd, 0xe, 0xf, 0x10, 0x11, 0x12, 0x13,
    0x14, 0x15, 0x16, 0x17, 0x18, 0x19, 0x1a, 0x1b, 0x1c, 0x1d, 0x1e, 0x1f]
    [0x00, 0x11, 0x22, 0x33, 0x44, 0x55, 0x66, 0x77, 0x88, 0x99, 0xaa, 0xbb, 0xcc, 0xdd, 0xee, 0xff] =
    [0x8e, 0xa2, 0xb7, 0xca, 0x51, 0x67, 0x45, 0xbf, 0xea, 0xfc, 0x49, 0x90, 0x4b, 0x49, 0x60, 0x89]"
  (is "aes_spec ?key ?pt = ?ct")
proof -
  have k: "rev (map (\<lambda>i. LOAD32H (take 4 (drop (4 * i) ?key))) [0..<8]) =
      [0x1c1d1e1f, 0x18191a1b, 0x14151617, 0x10111213, 0xc0d0e0f, 0x8090a0b, 0x4050607, 0x10203]"
    by (simp add: LOAD32H_def upt_rec)
  have "aes_spec ?key ?pt = fips_cipher (8 + 6) (key_words (rev (fold (fips_next 8) [8..<4 * (8 + 7)]
      (rev (map (\<lambda>i. LOAD32H (take 4 (drop (4 * i) ?key))) [0..<8]))))) ?pt"
    by (rule aes_spec_words) simp_all
  also have "4 * (8 + 7) = (60 :: nat)" by simp
  also note k
  also note expansion_256
  finally show ?thesis using cipher_256 by simp
qed

lemma aes_vectors: "(keylen, key, pt, ct) \<in> set rijndael_tests \<Longrightarrow>
    keylen \<in> {16, 24, 32} \<and> length key = nat keylen \<and> length pt = 16 \<and> aes_spec key pt = ct"
  using vector_128 vector_192 vector_256 by (auto simp: rijndael_tests_def)

lemma rijndael_test_all_ok:
  "(\<And>t. t \<in> set ts \<Longrightarrow> rijndael_test_one tmp0 tmp1 t = CRYPT_OK) \<Longrightarrow>
   rijndael_test_all tmp0 tmp1 ts = CRYPT_OK"
  by (induction ts) simp_all

lemma rijndael_test_ok: "rijndael_test tmp0 tmp1 = CRYPT_OK"
  unfolding rijndael_test_def
proof (rule rijndael_test_all_ok)
  fix t assume t: "t \<in> set rijndael_tests"
  obtain keylen key pt ct where eq: "t = (keylen, key, pt, ct)" by (cases t)
  from aes_vectors [OF t [unfolded eq]] show "rijndael_test_one tmp0 tmp1 t = CRYPT_OK"
    unfolding eq by (intro rijndael_test_one_ok) simp_all
qed

section \<open>Properties\<close>

text \<open>
  The self-test of the cipher reports success whatever its uninitialised buffers
  hold: the three FIPS-197 vectors encrypt and decrypt as listed, and 1000
  encryptions followed by 1000 decryptions of the zero block return the zero block.
\<close>

theorem rijndael_test_passes: "rijndael_test tmp0 tmp1 = CRYPT_OK"
  by (rule rijndael_test_ok)

end
