(* ===== verification/Registry.thy ===== *)
theory Registry
  imports Aes
begin

text \<open>
  The descriptor tables of LibTomCrypt (\<open>crypt_register_*.c\<close>, \<open>crypt_find_*.c\<close>,
  \<open>crypt_*_is_valid.c\<close>, \<open>crypt_*_descriptor.c\<close>): arrays of \<open>TAB_SIZE\<close> descriptors in
  which a slot whose name is \<open>NULL\<close> is free.  A slot is an option, the function
  pointers of a descriptor are a tag of a datatype, dispatched by the code that
  calls through the table.  The mutexes around the scans are not modelled: each
  operation is atomic.
\<close>

section \<open>Descriptors\<close>

datatype cipher_functions = Rijndael

record cipher_descriptor =
  cipher_name :: string
  cipher_ID :: byte
  min_key_length :: int
  max_key_length :: int
  block_length :: int
  default_rounds :: int
  cipher_calls :: cipher_functions

datatype hash_functions = SHA1 | SHA256 | SHA512

record hash_descriptor =
  hash_name :: string
  hash_ID :: byte
  hashsize :: nat
  hash_blocksize :: nat
  hash_OID :: "nat list"
  hash_calls :: hash_functions

datatype prng_functions = Fortuna

record prng_descriptor =
  prng_name :: string
  export_size :: nat
  prng_calls :: prng_functions

definition rijndael_desc :: cipher_descriptor where
  "rijndael_desc = \<lparr>cipher_name = ''rijndael'', cipher_ID = 6, min_key_length = 16,
     max_key_length = 32, block_length = 16, default_rounds = 10, cipher_calls = Rijndael\<rparr>"

definition aes_desc :: cipher_descriptor where
  "aes_desc = \<lparr>cipher_name = ''aes'', cipher_ID = 6, min_key_length = 16,
     max_key_length = 32, block_length = 16, default_rounds = 10, cipher_calls = Rijndael\<rparr>"

definition sha1_desc :: hash_descriptor where
  "sha1_desc = \<lparr>hash_name = ''sha1'', hash_ID = 2, hashsize = 20, hash_blocksize = 64,
     hash_OID = [1, 3, 14, 3, 2, 26], hash_calls = SHA1\<rparr>"

definition sha256_desc :: hash_descriptor where
  "sha256_desc = \<lparr>hash_name = ''sha256'', hash_ID = 0, hashsize = 32, hash_blocksize = 64,
     hash_OID = [2, 16, 840, 1, 101, 3, 4, 2, 1], hash_calls = SHA256\<rparr>"

definition sha512_desc :: hash_descriptor where
  "sha512_desc = \<lparr>hash_name = ''sha512'', hash_ID = 5, hashsize = 64, hash_blocksize = 128,
     hash_OID = [2, 16, 840, 1, 101, 3, 4, 2, 3], hash_calls = SHA512\<rparr>"

definition fortuna_desc :: prng_descriptor where
  "fortuna_desc = \<lparr>prng_name = ''fortuna'', export_size = 64, prng_calls = Fortuna\<rparr>"

section \<open>The tables\<close>

type_synonym 'd table = "'d option list"

definition TAB_SIZE :: nat where "TAB_SIZE = 34"

text \<open>The initial tables: one explicit empty descriptor, the rest zero by C.\<close>

definition cipher_descriptor0 :: "cipher_descriptor table" where
  "cipher_descriptor0 = replicate TAB_SIZE None"

definition hash_descriptor0 :: "hash_descriptor table" where
  "hash_descriptor0 = replicate TAB_SIZE None"

definition prng_descriptor0 :: "prng_descriptor table" where
  "prng_descriptor0 = replicate TAB_SIZE None"

text \<open>The loop \<open>for (x = 0; x < TAB_SIZE; x++) if (...) return x;\<close>, and -1 after it.\<close>

fun scan :: "('d option \<Rightarrow> bool) \<Rightarrow> nat \<Rightarrow> 'd table \<Rightarrow> int" where
  "scan p x [] = -1"
| "scan p x (d # ds) = (if p d then int x else scan p (Suc x) ds)"

definition put_blank :: "'d \<Rightarrow> 'd table \<Rightarrow> int \<times> 'd table" where
  "put_blank d tab = (let x = scan (\<lambda>s. s = None) 0 tab in
     if x \<noteq> -1 then (x, tab[nat x := Some d]) else (-1, tab))"

definition register_cipher :: "cipher_descriptor \<Rightarrow> cipher_descriptor table \<Rightarrow> int \<times> cipher_descriptor table" where
  "register_cipher d tab =
     (let x = scan (\<lambda>s. case s of None \<Rightarrow> False | Some c \<Rightarrow> cipher_ID c = cipher_ID d) 0 tab in
      if x \<noteq> -1 then (x, tab) else put_blank d tab)"

definition register_hash :: "hash_descriptor \<Rightarrow> hash_descriptor table \<Rightarrow> int \<times> hash_descriptor table" where
  "register_hash d tab =
     (let x = scan (\<lambda>s. s = Some d) 0 tab in
      if x \<noteq> -1 then (x, tab) else put_blank d tab)"

definition register_prng :: "prng_descriptor \<Rightarrow> prng_descriptor table \<Rightarrow> int \<times> prng_descriptor table" where
  "register_prng d tab =
     (let x = scan (\<lambda>s. s = Some d) 0 tab in
      if x \<noteq> -1 then (x, tab) else put_blank d tab)"

definition find_cipher :: "string \<Rightarrow> cipher_descriptor table \<Rightarrow> int" where
  "find_cipher name tab =
     scan (\<lambda>s. case s of None \<Rightarrow> False | Some c \<Rightarrow> cipher_name c = name) 0 tab"

definition find_hash :: "string \<Rightarrow> hash_descriptor table \<Rightarrow> int" where
  "find_hash name tab =
     scan (\<lambda>s. case s of None \<Rightarrow> False | Some c \<Rightarrow> hash_name c = name) 0 tab"

definition cipher_is_valid :: "int \<Rightarrow> cipher_descriptor table \<Rightarrow> crypt_rc" where
  "cipher_is_valid idx tab =
     (if idx < 0 \<or> idx \<ge> int TAB_SIZE \<or> tab ! nat idx = None then CRYPT_INVALID_CIPHER else CRYPT_OK)"

definition hash_is_valid :: "int \<Rightarrow> hash_descriptor table \<Rightarrow> crypt_rc" where
  "hash_is_valid idx tab =
     (if idx < 0 \<or> idx \<ge> int TAB_SIZE \<or> tab ! nat idx = None then CRYPT_INVALID_HASH else CRYPT_OK)"

section \<open>Scanning\<close>

lemma scan_range: "scan p x ds = -1 \<or> (int x \<le> scan p x ds \<and> scan p x ds < int x + int (length ds))"
  by (induction p x ds rule: scan.induct) auto

lemma scan_found: "scan p x ds = int y \<Longrightarrow> x \<le> y \<and> y - x < length ds \<and> p (ds ! (y - x))"
proof (induction p x ds rule: scan.induct)
  case (2 p x d ds)
  then show ?case by (cases "p d") (auto simp: nth_Cons' Suc_diff_le)
qed simp

lemma scan_first: "scan p x ds = int y \<Longrightarrow> i < y - x \<Longrightarrow> \<not> p (ds ! i)"
proof (induction p x ds arbitrary: i rule: scan.induct)
  case (2 p x d ds)
  then show ?case by (cases i) (auto split: if_splits)
qed simp

lemma scan_none_iff: "scan p x ds = -1 \<longleftrightarrow> (\<forall>d \<in> set ds. \<not> p d)"
  by (induction p x ds rule: scan.induct) auto

lemma scan_cases:
  obtains "scan p 0 ds = -1" "\<forall>d \<in> set ds. \<not> p d"
  | y where "scan p 0 ds = int y" "y < length ds" "p (ds ! y)" "\<forall>i < y. \<not> p (ds ! i)"
proof (cases "scan p 0 ds = -1")
  case True then show ?thesis using that(1) scan_none_iff [of p 0 ds] by blast
next
  case False
  then have "0 \<le> scan p 0 ds" using scan_range [of p 0 ds] by auto
  then obtain y where y: "scan p 0 ds = int y" by (rule zero_le_imp_eq_int [THEN exE])
  show ?thesis using that(2) [OF y] scan_found [OF y] scan_first [OF y] by simp
qed

section \<open>Registries\<close>

text \<open>
  What the three register functions share: \<open>reg d\<close> returns the first slot that
  \<open>matches\<close> the descriptor and changes nothing, or stores it in the first free slot.
\<close>

locale registry =
  fixes reg :: "'d \<Rightarrow> 'd table \<Rightarrow> int \<times> 'd table"
    and matches :: "'d \<Rightarrow> 'd \<Rightarrow> bool"
  assumes reg_eq: "reg d tab =
      (let x = scan (\<lambda>s. case s of None \<Rightarrow> False | Some c \<Rightarrow> matches c d) 0 tab in
       if x \<noteq> -1 then (x, tab) else put_blank d tab)"
    and matches_self: "matches d d"
begin

lemma reg_cases:
  obtains (present) y c where "reg d tab = (int y, tab)" "y < length tab" "tab ! y = Some c" "matches c d"
      "\<forall>i < y. \<forall>c. tab ! i = Some c \<longrightarrow> \<not> matches c d"
  | (added) y where "reg d tab = (int y, tab[y := Some d])" "y < length tab" "tab ! y = None"
      "\<forall>c. Some c \<in> set tab \<longrightarrow> \<not> matches c d"
  | (full) "reg d tab = (-1, tab)" "None \<notin> set tab" "\<forall>c. Some c \<in> set tab \<longrightarrow> \<not> matches c d"
proof (cases rule: scan_cases [of "\<lambda>s. case s of None \<Rightarrow> False | Some c \<Rightarrow> matches c d" tab])
  case none: 1
  then have n: "\<forall>c. Some c \<in> set tab \<longrightarrow> \<not> matches c d" by (fastforce split: option.splits)
  show ?thesis
  proof (cases rule: scan_cases [of "\<lambda>s. s = None" tab])
    case 1 with none n show ?thesis by (intro full) (auto simp: reg_eq put_blank_def)
  next
    case (2 y) with none n show ?thesis by (intro added) (auto simp: reg_eq put_blank_def)
  qed
next
  case (2 y)
  then obtain c where c: "tab ! y = Some c" "matches c d" by (auto split: option.splits)
  have "reg d tab = (int y, tab)" using 2(1) by (simp add: reg_eq)
  moreover have "\<forall>i < y. \<forall>c. tab ! i = Some c \<longrightarrow> \<not> matches c d" using 2(4) by fastforce
  ultimately show ?thesis using 2(2) c by (intro present)
qed

lemma reg_length: "length (snd (reg d tab)) = length tab"
  by (cases rule: reg_cases [of d tab]) simp_all

lemma reg_keeps: "tab ! i = Some c \<Longrightarrow> snd (reg d tab) ! i = Some c"
  by (cases rule: reg_cases [of d tab]) (auto simp: nth_list_update)

lemma reg_present:
  "fst (reg d tab) \<noteq> -1 \<Longrightarrow> \<exists>y c. fst (reg d tab) = int y \<and> y < length tab \<and>
     snd (reg d tab) ! y = Some c \<and> matches c d"
  by (cases rule: reg_cases [of d tab]) (auto simp: matches_self)

lemma reg_fails_iff:
  "fst (reg d tab) = -1 \<longleftrightarrow> None \<notin> set tab \<and> (\<forall>c. Some c \<in> set tab \<longrightarrow> \<not> matches c d)"
proof (cases rule: reg_cases [of d tab])
  case (present y c)
  then have "Some c \<in> set tab" by (metis nth_mem)
  with present show ?thesis by auto
next
  case (added y)
  then have "None \<in> set tab" by (metis nth_mem)
  with added show ?thesis by auto
qed simp_all

lemma reg_again: "fst (reg d tab) \<noteq> -1 \<Longrightarrow> reg d (snd (reg d tab)) = (fst (reg d tab), snd (reg d tab))"
proof (cases rule: reg_cases [of d tab])
  case (added y)
  let ?p = "\<lambda>s. case s of None \<Rightarrow> False | Some c \<Rightarrow> matches c d"
  have "scan ?p 0 (tab[y := Some d]) = int y"
  proof (cases rule: scan_cases [of ?p "tab[y := Some d]"])
    case 1
    then have "\<not> ?p (Some d)" using set_update_memI [OF added(2)] by blast
    then show ?thesis by (simp add: matches_self)
  next
    case (2 z)
    have "z = y"
    proof (rule ccontr)
      assume "z \<noteq> y"
      then have "?p (tab ! z)" "z < length tab" using 2 by simp_all
      then show False using added(4) by (cases "tab ! z") (auto dest: nth_mem)
    qed
    with 2 show ?thesis by simp
  qed
  then show ?thesis using added by (simp add: reg_eq)
qed auto

end

interpretation ciphers: registry register_cipher "\<lambda>c d. cipher_ID c = cipher_ID d"
  by unfold_locales (simp_all add: register_cipher_def)

lemma scan_eq_Some:
  "scan (\<lambda>s. s = Some d) x tab = scan (\<lambda>s. case s of None \<Rightarrow> False | Some c \<Rightarrow> c = d) x tab"
  by (rule arg_cong [where f = "\<lambda>p. scan p x tab"]) (auto split: option.splits)

interpretation hashes: registry register_hash "(=)"
  by unfold_locales (simp_all add: register_hash_def scan_eq_Some)

interpretation prngs: registry register_prng "(=)"
  by unfold_locales (simp_all add: register_prng_def scan_eq_Some)

section \<open>Lookup\<close>

lemma find_cipher_cases:
  "find_cipher name tab = int y \<Longrightarrow> y < length tab \<and> (\<exists>c. tab ! y = Some c \<and> cipher_name c = name)"
  unfolding find_cipher_def by (drule scan_found) (auto split: option.splits)

lemma find_cipher_range: "find_cipher name tab = -1 \<or> 0 \<le> find_cipher name tab"
  unfolding find_cipher_def using scan_range [of _ 0 tab] by force

lemma cipher_is_valid_iff:
  "length tab = TAB_SIZE \<Longrightarrow> cipher_is_valid (int i) tab = CRYPT_OK \<longleftrightarrow> (\<exists>c. i < TAB_SIZE \<and> tab ! i = Some c)"
  by (auto simp: cipher_is_valid_def)

lemma hash_is_valid_iff:
  "length tab = TAB_SIZE \<Longrightarrow> hash_is_valid (int i) tab = CRYPT_OK \<longleftrightarrow> (\<exists>c. i < TAB_SIZE \<and> tab ! i = Some c)"
  by (auto simp: hash_is_valid_def)

section \<open>Properties\<close>

text \<open>
  Registering a hash in a table of \<open>TAB_SIZE\<close> slots either returns an index that is
  valid for \<open>hash_is_valid\<close> and holds that very descriptor, so that registering again
  returns the same index and leaves the table alone, or it returns -1, exactly when
  the table is full of other descriptors; no registered descriptor ever moves.
\<close>

theorem register_hash_contract:
  assumes "length tab = TAB_SIZE"
  shows "(case register_hash d tab of (x, tab') \<Rightarrow>
     (if x = -1 then tab' = tab \<and> None \<notin> set tab \<and> Some d \<notin> set tab
      else hash_is_valid x tab' = CRYPT_OK \<and> tab' ! nat x = Some d \<and> register_hash d tab' = (x, tab'))
     \<and> length tab' = TAB_SIZE \<and> (\<forall>i c. tab ! i = Some c \<longrightarrow> tab' ! i = Some c))"
proof (cases "fst (register_hash d tab) = -1")
  case True
  then show ?thesis using assms
    by (cases rule: hashes.reg_cases [of d tab]) auto
next
  case False
  obtain x tab' where r: "register_hash d tab = (x, tab')" by (cases "register_hash d tab")
  with hashes.reg_present [OF False] obtain y where "x = int y" "y < length tab" "tab' ! y = Some d" by auto
  with r assms hashes.reg_again [OF False] hashes.reg_length [of d tab] hashes.reg_keeps [of tab _ _ d]
  show ?thesis by (simp add: hash_is_valid_def)
qed

theorem register_hash_contract_witness:
  "register_hash sha1_desc hash_descriptor0 = (0, hash_descriptor0[0 := Some sha1_desc]) \<and>
   hash_is_valid 0 (hash_descriptor0[0 := Some sha1_desc]) = CRYPT_OK"
proof -
  have *: "register_hash sha1_desc hash_descriptor0 = (0, hash_descriptor0[0 := Some sha1_desc])"
    by (simp add: register_hash_def put_blank_def hash_descriptor0_def TAB_SIZE_def numeral_eq_Suc)
  show ?thesis using register_hash_contract [of hash_descriptor0 sha1_desc] *
    by (simp add: hash_descriptor0_def)
qed

text \<open>
  \<open>register_cipher\<close> identifies ciphers by their ID, not their name: once \<open>rijndael\<close> is
  registered, registering its alias \<open>aes\<close> succeeds with the slot of \<open>rijndael\<close> and
  leaves the table unchanged, so that \<open>find_cipher\<close> still finds no cipher of that name.
\<close>

theorem register_aes_alias:
  "let (x, tab) = register_cipher rijndael_desc cipher_descriptor0 in
     register_cipher aes_desc tab = (x, tab) \<and> find_cipher ''rijndael'' tab = x \<and>
     cipher_is_valid x tab = CRYPT_OK \<and> find_cipher ''aes'' tab = -1"
  by (simp add: register_cipher_def put_blank_def cipher_descriptor0_def TAB_SIZE_def find_cipher_def
      cipher_is_valid_def rijndael_desc_def aes_desc_def numeral_eq_Suc Let_def)

end
