(* ===== verification/HashCore.thy ===== *)
theory HashCore
  imports Prelude "HOL-Library.While_Combinator"
begin

text \<open>
  What the three hash functions share: the buffered state (\<open>sha1_state\<close>,
  \<open>sha256_state\<close>, \<open>sha512_state\<close> of \<open>tomcrypt_hash.h\<close>), the \<open>HASH_PROCESS\<close> macro of
  \<open>tomcrypt_private.h\<close> and the padding and output of the \<open>_done\<close> functions.  The locale
  \<open>merkle_damgard\<close> proves once that streaming a message through them yields the
  digest of the padded message; \<open>stream_hash\<close> is the interface their clients use.
  The compression functions of the library return \<open>CRYPT_OK\<close> on every path, so the
  model of a compression function is its effect on the chaining words.
\<close>

unbundle bit_operations_syntax

lemma unat_of_nat_small: "n < 2 ^ LENGTH('a) \<Longrightarrow> unat (of_nat n :: 'a::len word) = n"
  by (simp add: unsigned_of_nat take_bit_nat_eq_self)

section \<open>The code\<close>

record 'w md_state =
  md_length :: u64
  md_words :: "'w list"
  md_curlen :: nat
  md_buf :: bytes

text \<open>One turn of the \<open>while (inlen > 0)\<close> loop of \<open>HASH_PROCESS\<close>, on \<open>md\<close> and \<open>in\<close>.\<close>

definition hash_process_turn :: "('w list \<Rightarrow> bytes \<Rightarrow> 'w list) \<Rightarrow> nat \<Rightarrow>
    'w md_state \<times> bytes \<Rightarrow> 'w md_state \<times> bytes" where
  "hash_process_turn compress block_size = (\<lambda>(md, inp).
     if md_curlen md = 0 \<and> length inp \<ge> block_size
     then (md\<lparr>md_words := compress (md_words md) (take block_size inp),
              md_length := md_length md + of_nat (block_size * 8)\<rparr>, drop block_size inp)
     else
       let n = min (length inp) (block_size - md_curlen md);
           md = md\<lparr>md_buf := buf_write (md_buf md) (md_curlen md) (take n inp),
                   md_curlen := md_curlen md + n\<rparr> in
       (if md_curlen md = block_size
        then md\<lparr>md_words := compress (md_words md) (md_buf md),
                md_length := md_length md + of_nat (8 * block_size), md_curlen := 0\<rparr>
        else md, drop n inp))"

definition HASH_PROCESS :: "('w list \<Rightarrow> bytes \<Rightarrow> 'w list) \<Rightarrow> nat \<Rightarrow>
    'w md_state \<Rightarrow> bytes \<Rightarrow> crypt_rc \<times> 'w md_state" where
  "HASH_PROCESS compress block_size md inp =
     (if md_curlen md > length (md_buf md) then (CRYPT_INVALID_ARG, md)
      else if md_length md + of_nat (length inp) * 8 < md_length md then (CRYPT_HASH_OVERFLOW, md)
      else (CRYPT_OK, fst (while (\<lambda>(md, inp). inp \<noteq> []) (hash_process_turn compress block_size) (md, inp))))"

text \<open>\<open>while (curlen < n) buf[curlen++] = 0;\<close>\<close>

function pad_zeros :: "nat \<Rightarrow> 'w md_state \<Rightarrow> 'w md_state" where
  "pad_zeros n md =
     (if md_curlen md < n
      then pad_zeros n (md\<lparr>md_buf := (md_buf md)[md_curlen md := 0], md_curlen := md_curlen md + 1\<rparr>)
      else md)"
  by pat_completeness auto
termination by (relation "measure (\<lambda>(n, md). n - md_curlen md)") auto

declare pad_zeros.simps [simp del]

definition hash_done :: "('w list \<Rightarrow> bytes \<Rightarrow> 'w list) \<Rightarrow> nat \<Rightarrow> nat \<Rightarrow> nat \<Rightarrow> ('w list \<Rightarrow> bytes) \<Rightarrow>
    'w md_state \<Rightarrow> crypt_rc \<times> 'w md_state \<times> bytes" where
  "hash_done compress block_size limit pos out md =
     (if md_curlen md \<ge> length (md_buf md) then (CRYPT_INVALID_ARG, md, [])
      else
        let md = md\<lparr>md_length := md_length md + of_nat (md_curlen md) * 8\<rparr>;
            md = md\<lparr>md_buf := (md_buf md)[md_curlen md := 0x80], md_curlen := md_curlen md + 1\<rparr>;
            md = (if md_curlen md > limit
                  then let md = pad_zeros block_size md
                       in md\<lparr>md_words := compress (md_words md) (md_buf md), md_curlen := 0\<rparr>
                  else md);
            md = pad_zeros pos md;
            md = md\<lparr>md_buf := buf_write (md_buf md) pos (STORE64H (md_length md))\<rparr>;
            md = md\<lparr>md_words := compress (md_words md) (md_buf md)\<rparr>
        in (CRYPT_OK, md, out (md_words md)))"

section \<open>Message schedules\<close>

text \<open>
  The array \<open>W\<close> of a compression function is filled index by index; each entry
  depends on the filled prefix.
\<close>

lemma fill_map:
  assumes "n \<le> m" "\<And>i. n \<le> i \<Longrightarrow> i < m \<Longrightarrow> f (map w [0..<i]) i = w i"
  shows "fold (\<lambda>i W. W @ [f W i]) [n..<m] (map w [0..<n]) = map w [0..<m]"
  using assms
proof (induction m)
  case (Suc m)
  show ?case
  proof (cases "n = Suc m")
    case False
    with Suc show ?thesis by simp
  qed simp
qed simp

section \<open>Chaining over whole blocks\<close>

text \<open>The chaining value after the whole blocks of a message; a partial block is ignored.\<close>

function md_blocks :: "('w list \<Rightarrow> bytes \<Rightarrow> 'w list) \<Rightarrow> nat \<Rightarrow> 'w list \<Rightarrow> bytes \<Rightarrow> 'w list" where
  "md_blocks compress bs h m =
     (if bs = 0 \<or> length m < bs then h
      else md_blocks compress bs (compress h (take bs m)) (drop bs m))"
  by pat_completeness auto
termination by (relation "measure (\<lambda>(c, bs, h, m). length m)") auto

declare md_blocks.simps [simp del]

lemma md_blocks_short [simp]: "length m < bs \<Longrightarrow> md_blocks compress bs h m = h"
  by (simp add: md_blocks.simps)

lemma md_blocks_one: "length m = bs \<Longrightarrow> 0 < bs \<Longrightarrow> md_blocks compress bs h m = compress h m"
  by (simp add: md_blocks.simps [of compress bs h m])

lemma md_blocks_append:
  "length a mod bs = 0 \<Longrightarrow> md_blocks compress bs h (a @ b) = md_blocks compress bs (md_blocks compress bs h a) b"
proof (induction compress bs h a rule: md_blocks.induct)
  case (1 compress bs h a)
  show ?case
  proof (cases "bs = 0 \<or> length a < bs")
    case True
    then have "bs = 0 \<or> a = []" using 1(2) by auto
    then show ?thesis by (auto simp: md_blocks.simps [of _ 0] md_blocks.simps [of _ _ h "[]"])
  next
    case False
    moreover from False 1(2) have "length (drop bs a) mod bs = 0" by (simp add: mod_if [of "length a"])
    ultimately show ?thesis
      using 1(1) by (simp add: md_blocks.simps [of _ _ h])
  qed
qed

lemma pad_zeros_eq:
  "md_curlen md \<le> n \<Longrightarrow> n \<le> length (md_buf md) \<Longrightarrow>
   pad_zeros n md = md\<lparr>md_buf := buf_write (md_buf md) (md_curlen md) (replicate (n - md_curlen md) 0), md_curlen := n\<rparr>"
proof (induction n md rule: pad_zeros.induct)
  case (1 n md)
  show ?case
  proof (cases "md_curlen md < n")
    case True
    then have "n - md_curlen md = Suc (n - Suc (md_curlen md))" by simp
    moreover have "take (Suc c) (b[c := x]) = take c b @ [x]" if "c < length b" for c b and x :: byte
      using that by (simp add: take_Suc_conv_app_nth)
    ultimately show ?thesis
      using True 1 by (simp add: pad_zeros.simps [of n md] buf_write_def)
  next
    case False
    with 1 have "n = md_curlen md" by simp
    then show ?thesis by (simp add: pad_zeros.simps buf_write_def)
  qed
qed

section \<open>Streaming a message\<close>

text \<open>The padding of FIPS 180: a one bit, zeros, and the length in bits.\<close>

definition md_pad :: "nat \<Rightarrow> nat \<Rightarrow> nat \<Rightarrow> nat \<Rightarrow> bytes" where
  "md_pad bs limit pos n =
     0x80 # replicate ((limit + bs - (n + 1) mod bs) mod bs) 0 @ replicate (pos - limit) 0 @
     STORE64H (of_nat (8 * n))"

definition md_digest :: "('w list \<Rightarrow> bytes \<Rightarrow> 'w list) \<Rightarrow> nat \<Rightarrow> nat \<Rightarrow> nat \<Rightarrow> ('w list \<Rightarrow> bytes) \<Rightarrow>
    'w list \<Rightarrow> bytes \<Rightarrow> bytes" where
  "md_digest compress bs limit pos out iv m =
     out (md_blocks compress bs iv (m @ md_pad bs limit pos (length m)))"

text \<open>The state after the message \<open>m\<close>: its whole blocks are in the chaining words, its tail in the buffer.\<close>

definition md_absorbed :: "('w list \<Rightarrow> bytes \<Rightarrow> 'w list) \<Rightarrow> nat \<Rightarrow> 'w list \<Rightarrow> 'w md_state \<Rightarrow> bytes \<Rightarrow> bool" where
  "md_absorbed compress bs iv md m \<longleftrightarrow>
     (let q = length m div bs * bs in
      length (md_buf md) = bs \<and> md_curlen md = length m - q \<and>
      take (md_curlen md) (md_buf md) = drop q m \<and>
      md_words md = md_blocks compress bs iv (take q m) \<and> md_length md = of_nat (8 * q))"

locale merkle_damgard =
  fixes compress :: "'w list \<Rightarrow> bytes \<Rightarrow> 'w list"
    and bs limit pos :: nat
    and out :: "'w list \<Rightarrow> bytes"
    and iv :: "'w list"
  assumes sizes: "0 < limit" "limit \<le> pos" "pos + 8 = bs"
begin

abbreviation "absorbed \<equiv> md_absorbed compress bs iv"

lemma bs_pos: "0 < bs" using sizes by simp

lemma absorbedI:
  assumes "k * bs \<le> length m" "length m < k * bs + bs" "length (md_buf md) = bs"
    "md_curlen md = length m - k * bs" "take (md_curlen md) (md_buf md) = drop (k * bs) m"
    "md_words md = md_blocks compress bs iv (take (k * bs) m)" "md_length md = of_nat (8 * (k * bs))"
  shows "absorbed md m"
proof -
  have "length m div bs = k" using assms(1,2) by (simp add: div_nat_eqI algebra_simps)
  then show ?thesis using assms by (simp add: md_absorbed_def)
qed

lemma absorbedE:
  assumes "absorbed md m"
  obtains k where "k * bs \<le> length m" "length m < k * bs + bs" "length (md_buf md) = bs"
    "md_curlen md = length m - k * bs" "take (md_curlen md) (md_buf md) = drop (k * bs) m"
    "md_words md = md_blocks compress bs iv (take (k * bs) m)" "md_length md = of_nat (8 * (k * bs))"
proof (rule that [of "length m div bs"])
  show "length m div bs * bs \<le> length m" by simp
  show "length m < length m div bs * bs + bs"
    using div_mult_mod_eq [of "length m" bs] mod_less_divisor [OF bs_pos, of "length m"] by linarith
qed (use assms in \<open>auto simp: md_absorbed_def Let_def\<close>)

text \<open>A turn of the loop absorbs a non-empty chunk of the input.\<close>

lemma turn_direct:
  assumes "absorbed md m" "md_curlen md = 0" "bs \<le> length inp"
  shows "absorbed (md\<lparr>md_words := compress (md_words md) (take bs inp),
      md_length := md_length md + of_nat (bs * 8)\<rparr>) (m @ take bs inp)"
  using assms(1)
proof (rule absorbedE)
  fix k
  assume k: "k * bs \<le> length m" "length m < k * bs + bs" "length (md_buf md) = bs"
    "md_curlen md = length m - k * bs" "take (md_curlen md) (md_buf md) = drop (k * bs) m"
    "md_words md = md_blocks compress bs iv (take (k * bs) m)" "md_length md = of_nat (8 * (k * bs))"
  then have m: "length m = k * bs" using assms(2) by simp
  then have "md_blocks compress bs iv (m @ take bs inp) = compress (md_words md) (take bs inp)"
    using assms(3) bs_pos k(6) by (simp add: md_blocks_append md_blocks_one)
  then show ?thesis
    by (intro absorbedI [of "Suc k"]) (use m k(3,7) assms(2,3) bs_pos in \<open>auto simp: algebra_simps\<close>)
qed

lemma turn_buffer:
  assumes "absorbed md m" "n = min (length inp) (bs - md_curlen md)" "inp \<noteq> []"
    and md': "md' = md\<lparr>md_buf := buf_write (md_buf md) (md_curlen md) (take n inp), md_curlen := md_curlen md + n\<rparr>"
  shows "0 < n \<and> absorbed (if md_curlen md' = bs
        then md'\<lparr>md_words := compress (md_words md') (md_buf md'),
                md_length := md_length md' + of_nat (8 * bs), md_curlen := 0\<rparr>
        else md') (m @ take n inp)"
  using assms(1)
proof (rule absorbedE)
  fix k
  assume k: "k * bs \<le> length m" "length m < k * bs + bs" "length (md_buf md) = bs"
    "md_curlen md = length m - k * bs" "take (md_curlen md) (md_buf md) = drop (k * bs) m"
    "md_words md = md_blocks compress bs iv (take (k * bs) m)" "md_length md = of_nat (8 * (k * bs))"
  define q where "q = k * bs"
  define c where "c = md_curlen md"
  have c: "c < bs" "length m = q + c" using k by (auto simp: c_def q_def)
  then have n: "0 < n" "n \<le> length inp" "c + n \<le> bs" using assms(2,3) by (auto simp: c_def)
  have "length (md_buf md') = bs" using n c k(3) by (simp add: md' length_buf_write c_def)
  moreover have "take (c + n) (md_buf md') = drop q m @ take n inp"
    using n c k(3,5) take_buf_write [of c "md_buf md" "take n inp"] by (simp add: md' c_def q_def)
  ultimately have buf': "length (md_buf md') = bs" "take (c + n) (md_buf md') = drop q m @ take n inp"
    by simp_all
  have split: "m @ take n inp = take q m @ (drop q m @ take n inp)" by simp
  have l: "length (m @ take n inp) = q + (c + n)" using c n by simp
  show ?thesis
  proof (cases "c + n = bs")
    case True
    have "md_blocks compress bs iv (m @ take n inp) = compress (md_words md) (md_buf md')"
      using buf' True k(6) c(2) bs_pos q_def unfolding split
      by (simp add: md_blocks_append md_blocks_one del: append_take_drop_id append_assoc)
    moreover have len: "length (m @ take n inp) = Suc k * bs" using l True q_def by simp
    moreover have "take (Suc k * bs) (m @ take n inp) = m @ take n inp"
      by (rule take_all) (simp only: len)
    moreover have "md_words md' = md_words md" "md_length md' = of_nat (8 * (k * bs))"
      by (simp_all add: md' k(7))
    ultimately have "absorbed (md'\<lparr>md_words := compress (md_words md') (md_buf md'),
                md_length := md_length md' + of_nat (8 * bs), md_curlen := 0\<rparr>) (m @ take n inp)"
      by (intro absorbedI [of "Suc k"])
        (simp_all add: buf'(1) bs_pos algebra_simps del: length_append take_append drop_append)
    then show ?thesis using True n(1) by (simp add: md' c_def)
  next
    case False
    have "absorbed md' (m @ take n inp)"
      by (rule absorbedI [of k])
        (use buf' False l n(3) k(6,7) c(2) in \<open>auto simp: md' q_def c_def\<close>)
    then show ?thesis using False n(1) by (simp add: md' c_def)
  qed
qed

lemma turn:
  assumes "absorbed md m" "inp \<noteq> []"
  obtains n md' where "hash_process_turn compress bs (md, inp) = (md', drop n inp)" "0 < n"
    "absorbed md' (m @ take n inp)"
proof (cases "md_curlen md = 0 \<and> bs \<le> length inp")
  case True
  with that [OF _ bs_pos turn_direct [OF assms(1)]] show ?thesis
    by (simp add: hash_process_turn_def)
next
  case False
  then show ?thesis
    using that turn_buffer [OF assms(1) refl assms(2) refl]
    by (auto simp: hash_process_turn_def Let_def)
qed

lemma loop:
  "absorbed md m \<Longrightarrow>
   \<exists>md'. while (\<lambda>(md, inp). inp \<noteq> []) (hash_process_turn compress bs) (md, inp) = (md', []) \<and>
     absorbed md' (m @ inp)"
proof (induction "length inp" arbitrary: md m inp rule: less_induct)
  case less
  show ?case
  proof (cases "inp = []")
    case True with less.prems show ?thesis by (simp add: while_unfold)
  next
    case False
    from turn [OF less.prems False] obtain n md' where n: "0 < n" "absorbed md' (m @ take n inp)"
      "hash_process_turn compress bs (md, inp) = (md', drop n inp)" by blast
    have "length (drop n inp) < length inp" using n(1) False by simp
    from less.hyps [OF this n(2)] n(3) False show ?thesis
      by (subst while_unfold) simp
  qed
qed

lemma process:
  assumes "absorbed md m" "8 * (length m + length inp) < 2 ^ 64"
  shows "\<exists>md'. HASH_PROCESS compress bs md inp = (CRYPT_OK, md') \<and> absorbed md' (m @ inp)"
  using assms(1)
proof (rule absorbedE)
  fix k
  assume k: "k * bs \<le> length m" "length m < k * bs + bs" "length (md_buf md) = bs"
    "md_curlen md = length m - k * bs" "md_length md = of_nat (8 * (k * bs))"
  define q where "q = 8 * (k * bs)"
  have l: "md_length md = of_nat q" "md_length md + of_nat (length inp) * 8 = of_nat (q + 8 * length inp)"
    by (simp_all add: k(5) q_def)
  have "q + 8 * length inp < 2 ^ 64" using k(1) assms(2) by (simp add: q_def)
  then have "unat (of_nat q :: u64) = q" "unat (of_nat (q + 8 * length inp) :: u64) = q + 8 * length inp"
    by - (rule unat_of_nat_small, simp)+
  then have "unat (md_length md) \<le> unat (md_length md + of_nat (length inp) * 8)"
    unfolding l(2) unfolding l(1) by simp
  then have "\<not> md_length md + of_nat (length inp) * 8 < md_length md"
    by (simp add: word_less_nat_alt)
  moreover have "\<not> md_curlen md > length (md_buf md)" using k by linarith
  ultimately show ?thesis using loop [OF assms(1), of inp] by (auto simp: HASH_PROCESS_def)
qed

lemma done_ok:
  assumes "absorbed md m"
  shows "\<exists>md'. hash_done compress bs limit pos out md = (CRYPT_OK, md', md_digest compress bs limit pos out iv m) \<and>
    length (md_buf md') = bs"
  using assms
proof (rule absorbedE)
  fix k
  assume k: "k * bs \<le> length m" "length m < k * bs + bs" "length (md_buf md) = bs"
    "md_curlen md = length m - k * bs" "take (md_curlen md) (md_buf md) = drop (k * bs) m"
    "md_words md = md_blocks compress bs iv (take (k * bs) m)" "md_length md = of_nat (8 * (k * bs))"
  define q where "q = k * bs"
  define c where "c = md_curlen md"
  define L where "L = STORE64H (of_nat (8 * length m))"
  have c: "c < bs" "length m = q + c" using k by (auto simp: c_def q_def)
  have L: "STORE64H (md_length md + of_nat c * 8) = L"
    using k(7) c(2) by (simp add: L_def q_def algebra_simps)
  have lenL: "length L = 8" by (simp add: L_def)
  define t where "t = drop q m"
  have t: "length t = c" "take c (md_buf md) = t" using c k(5) by (simp_all add: t_def c_def q_def)
  have buf: "take (Suc c) ((md_buf md)[c := 0x80]) = t @ [0x80]"
    using c(1) k(3) t(2) by (simp add: take_Suc_conv_app_nth)
  have digest: "md_digest compress bs limit pos out iv m =
      out (md_blocks compress bs (md_words md) (t @ md_pad bs limit pos (length m)))"
    using k(6) c(2) md_blocks_append [of "take q m" bs compress iv "t @ md_pad bs limit pos (length m)"]
    by (simp add: md_digest_def t_def q_def flip: append_assoc)
  have n: "(length m + 1) mod bs = (c + 1) mod bs" using c(2) by (simp add: q_def mod_simps)
  show ?thesis
  proof (cases "Suc c \<le> limit")
    case True
    then have "limit + bs - (c + 1) mod bs = bs + (limit - Suc c)" using sizes by simp
    moreover have "(bs + (limit - Suc c)) mod bs = limit - Suc c" using sizes by simp
    ultimately have "(limit + bs - (c + 1) mod bs) mod bs = limit - Suc c" by simp
    then have pad: "t @ md_pad bs limit pos (length m) = (t @ [0x80]) @ replicate (pos - Suc c) 0 @ L"
      using True sizes c(1) unfolding md_pad_def n L_def [symmetric]
      by (simp flip: replicate_add append_assoc)
    have "md_blocks compress bs (md_words md) ((t @ [0x80]) @ replicate (pos - Suc c) 0 @ L) =
        compress (md_words md) ((t @ [0x80]) @ replicate (pos - Suc c) 0 @ L)"
      by (rule md_blocks_one) (use t lenL sizes True in auto)
    moreover have "pos - c = Suc (pos - Suc c)" using True sizes by simp
    ultimately show ?thesis
      using True sizes c(1) k(3) lenL t buf L unfolding digest pad
      by (simp add: hash_done_def pad_zeros_eq Let_def buf_write_def flip: c_def)
  next
    case False
    then have "(limit + bs - (c + 1) mod bs) mod bs = (bs - Suc c) + limit"
      using sizes c(1) by (cases "Suc c = bs") (auto simp: mod_if add.commute)
    then have pad: "t @ md_pad bs limit pos (length m) =
        ((t @ [0x80]) @ replicate (bs - Suc c) 0) @ (replicate pos 0 @ L)"
      using sizes unfolding md_pad_def n L_def [symmetric]
      by (simp add: replicate_add flip: append_assoc) (simp flip: replicate_add)
    have "length ((t @ [0x80]) @ replicate (bs - Suc c) 0) = bs" using t c(1) by simp
    then have "md_blocks compress bs (md_words md) (((t @ [0x80]) @ replicate (bs - Suc c) 0) @ (replicate pos 0 @ L)) =
        compress (compress (md_words md) ((t @ [0x80]) @ replicate (bs - Suc c) 0)) (replicate pos 0 @ L)"
      using sizes lenL bs_pos by (simp add: md_blocks_append md_blocks_one del: append_assoc)
    then show ?thesis
      using False sizes c(1) k(3) lenL t buf L unfolding digest pad
      by (simp add: hash_done_def pad_zeros_eq Let_def buf_write_def flip: c_def)
  qed
qed

lemma init_absorbed:
  "length (md_buf md) = bs \<Longrightarrow> md_curlen md = 0 \<Longrightarrow> md_length md = 0 \<Longrightarrow> md_words md = iv \<Longrightarrow> absorbed md []"
  by (rule absorbedI [of 0]) (simp_all add: bs_pos)

lemma absorbed_buf: "absorbed md m \<Longrightarrow> length (md_buf md) = bs"
  by (simp add: md_absorbed_def Let_def)

end

section \<open>The interface of a hash\<close>

text \<open>
  What a client of a hash relies on: an initial state, a step that absorbs bytes, a
  final step that returns the digest of everything absorbed.  \<open>valid\<close> says that the
  buffer of a state has its declared size, which is all an initialisation needs.
\<close>

locale stream_hash =
  fixes init :: "'s \<Rightarrow> 's" and process :: "'s \<Rightarrow> bytes \<Rightarrow> crypt_rc \<times> 's" and finish :: "'s \<Rightarrow> crypt_rc \<times> 's \<times> bytes"
    and valid :: "'s \<Rightarrow> bool" and state_of :: "'s \<Rightarrow> bytes \<Rightarrow> bool"
    and digest :: "bytes \<Rightarrow> bytes" and size :: nat
  assumes init: "valid s \<Longrightarrow> state_of (init s) []"
    and process: "state_of s m \<Longrightarrow> 8 * (length m + length x) < 2 ^ 64 \<Longrightarrow>
      \<exists>s'. process s x = (CRYPT_OK, s') \<and> state_of s' (m @ x)"
    and finish: "state_of s m \<Longrightarrow> \<exists>s'. finish s = (CRYPT_OK, s', digest m) \<and> valid s'"
    and state_valid: "state_of s m \<Longrightarrow> valid s"
    and digest_length: "length (digest m) = size"
begin

text \<open>Any way to cut a message into pieces gives the digest of the message.\<close>

lemma process_pieces:
  "8 * (length m + length (concat xs)) < 2 ^ 64 \<Longrightarrow> state_of s m \<Longrightarrow>
   state_of (fold (\<lambda>x s. snd (process s x)) xs s) (m @ concat xs)"
proof (induction xs arbitrary: s m)
  case (Cons x xs)
  then obtain s' where s': "process s x = (CRYPT_OK, s')" "state_of s' (m @ x)"
    using process [of s m x] by auto
  from Cons.IH [OF _ s'(2)] Cons.prems s'(1) show ?case by simp
qed simp

lemma digest_pieces:
  assumes "8 * length (concat xs) < 2 ^ 64" "valid s"
  shows "\<exists>s'. finish (fold (\<lambda>x s. snd (process s x)) xs (init s)) = (CRYPT_OK, s', digest (concat xs)) \<and> valid s'"
  using process_pieces [of "[]" xs "init s"] finish assms init by simp

end

end
