(* ===== verification/Sha1.thy ===== *)
theory Sha1
  imports HashCore
begin

text \<open>
  SHA-1 of \<open>sha1.c\<close> (the unrolled build): compression, init, process, done.  The
  specification is the round function of FIPS 180 with one step per round and
  the variables shifted; the code keeps the variables in place and rotates their
  names through five steps.
\<close>

unbundle bit_operations_syntax

section \<open>The code\<close>

definition F0 :: "u32 \<Rightarrow> u32 \<Rightarrow> u32 \<Rightarrow> u32" where "F0 x y z = z XOR (x AND (y XOR z))"
definition F1 :: "u32 \<Rightarrow> u32 \<Rightarrow> u32 \<Rightarrow> u32" where "F1 x y z = x XOR y XOR z"
definition F2 :: "u32 \<Rightarrow> u32 \<Rightarrow> u32 \<Rightarrow> u32" where "F2 x y z = (x AND y) OR (z AND (x OR y))"
definition F3 :: "u32 \<Rightarrow> u32 \<Rightarrow> u32 \<Rightarrow> u32" where "F3 x y z = x XOR y XOR z"

text \<open>The macros \<open>FF0\<close> to \<open>FF3\<close>: the new values of their arguments \<open>e\<close> and \<open>b\<close>.\<close>

definition FF :: "(u32 \<Rightarrow> u32 \<Rightarrow> u32 \<Rightarrow> u32) \<Rightarrow> u32 \<Rightarrow> u32 list \<Rightarrow>
    u32 \<Rightarrow> u32 \<Rightarrow> u32 \<Rightarrow> u32 \<Rightarrow> u32 \<Rightarrow> nat \<Rightarrow> u32 \<times> u32" where
  "FF f k W a b c d e i = (ROLc a 5 + f b c d + e + W ! i + k, ROLc b 30)"

type_synonym sha1_vars = "u32 \<times> u32 \<times> u32 \<times> u32 \<times> u32"

text \<open>The body of one of the four loops, and the loop from \<open>lo\<close> in steps of five.\<close>

definition sha1_five :: "(u32 \<Rightarrow> u32 \<Rightarrow> u32 \<Rightarrow> u32) \<Rightarrow> u32 \<Rightarrow> u32 list \<Rightarrow> nat \<Rightarrow> sha1_vars \<Rightarrow> sha1_vars" where
  "sha1_five f k W i = (\<lambda>(a, b, c, d, e).
     let (e, b) = FF f k W a b c d e i;
         (d, a) = FF f k W e a b c d (i + 1);
         (c, e) = FF f k W d e a b c (i + 2);
         (b, d) = FF f k W c d e a b (i + 3);
         (a, c) = FF f k W b c d e a (i + 4)
     in (a, b, c, d, e))"

definition sha1_twenty :: "(u32 \<Rightarrow> u32 \<Rightarrow> u32 \<Rightarrow> u32) \<Rightarrow> u32 \<Rightarrow> u32 list \<Rightarrow> nat \<Rightarrow> sha1_vars \<Rightarrow> sha1_vars" where
  "sha1_twenty f k W lo s = fold (\<lambda>j. sha1_five f k W (lo + 5 * j)) [0..<4] s"

definition sha1_schedule :: "bytes \<Rightarrow> u32 list" where
  "sha1_schedule buf =
     fold (\<lambda>i W. W @ [ROL (W ! (i - 3) XOR W ! (i - 8) XOR W ! (i - 14) XOR W ! (i - 16)) 1]) [16..<80]
       (map (\<lambda>i. LOAD32H (take 4 (drop (4 * i) buf))) [0..<16])"

definition s_sha1_compress :: "u32 list \<Rightarrow> bytes \<Rightarrow> u32 list" where
  "s_sha1_compress st buf =
     (let W = sha1_schedule buf;
          s = (st ! 0, st ! 1, st ! 2, st ! 3, st ! 4);
          s = sha1_twenty F0 0x5a827999 W 0 s;
          s = sha1_twenty F1 0x6ed9eba1 W 20 s;
          s = sha1_twenty F2 0x8f1bbcdc W 40 s;
          (a, b, c, d, e) = sha1_twenty F3 0xca62c1d6 W 60 s
      in [st ! 0 + a, st ! 1 + b, st ! 2 + c, st ! 3 + d, st ! 4 + e])"

definition sha1_iv :: "u32 list" where
  "sha1_iv = [0x67452301, 0xefcdab89, 0x98badcfe, 0x10325476, 0xc3d2e1f0]"

definition sha1_init :: "u32 md_state \<Rightarrow> u32 md_state" where
  "sha1_init md = md\<lparr>md_words := sha1_iv, md_curlen := 0, md_length := 0\<rparr>"

definition sha1_process :: "u32 md_state \<Rightarrow> bytes \<Rightarrow> crypt_rc \<times> u32 md_state" where
  "sha1_process = HASH_PROCESS s_sha1_compress 64"

definition sha1_out :: "u32 list \<Rightarrow> bytes" where
  "sha1_out st = concat (map (\<lambda>i. STORE32H (st ! i)) [0..<5])"

definition sha1_done :: "u32 md_state \<Rightarrow> crypt_rc \<times> u32 md_state \<times> bytes" where
  "sha1_done = hash_done s_sha1_compress 64 56 56 sha1_out"

section \<open>FIPS 180 SHA-1\<close>

definition Ch :: "'a::len word \<Rightarrow> 'a word \<Rightarrow> 'a word \<Rightarrow> 'a word" where
  "Ch x y z = (x AND y) XOR (NOT x AND z)"

definition Parity :: "'a::len word \<Rightarrow> 'a word \<Rightarrow> 'a word \<Rightarrow> 'a word" where
  "Parity x y z = x XOR y XOR z"

definition Maj :: "'a::len word \<Rightarrow> 'a word \<Rightarrow> 'a word \<Rightarrow> 'a word" where
  "Maj x y z = (x AND y) XOR (x AND z) XOR (y AND z)"

definition sha1_f :: "nat \<Rightarrow> u32 \<Rightarrow> u32 \<Rightarrow> u32 \<Rightarrow> u32" where
  "sha1_f t = (if t < 20 then Ch else if t < 40 then Parity else if t < 60 then Maj else Parity)"

definition sha1_K :: "nat \<Rightarrow> u32" where
  "sha1_K t = (if t < 20 then 0x5a827999 else if t < 40 then 0x6ed9eba1
     else if t < 60 then 0x8f1bbcdc else 0xca62c1d6)"

fun sha1_W :: "bytes \<Rightarrow> nat \<Rightarrow> u32" where
  "sha1_W M t = (if t < 16 then LOAD32H (take 4 (drop (4 * t) M))
     else ROL (sha1_W M (t - 3) XOR sha1_W M (t - 8) XOR sha1_W M (t - 14) XOR sha1_W M (t - 16)) 1)"

declare sha1_W.simps [simp del]

definition sha1_round :: "(nat \<Rightarrow> u32) \<Rightarrow> nat \<Rightarrow> sha1_vars \<Rightarrow> sha1_vars" where
  "sha1_round W t = (\<lambda>(a, b, c, d, e).
     (ROL a 5 + sha1_f t b c d + e + sha1_K t + W t, a, ROL b 30, c, d))"

definition sha1_block :: "u32 list \<Rightarrow> bytes \<Rightarrow> u32 list" where
  "sha1_block H M = (case fold (sha1_round (sha1_W M)) [0..<80] (H ! 0, H ! 1, H ! 2, H ! 3, H ! 4) of
     (a, b, c, d, e) \<Rightarrow> [a + H ! 0, b + H ! 1, c + H ! 2, d + H ! 3, e + H ! 4])"

section \<open>The unrolled code computes it\<close>

lemma choice_functions:
  "F0 = Ch" "F1 = Parity" "F2 = Maj" "F3 = Parity"
  by (intro ext bit_word_eqI; auto simp: F0_def F1_def F2_def F3_def Ch_def Parity_def Maj_def bit_simps)+

lemma sha1_schedule_eq: "sha1_schedule buf = map (sha1_W buf) [0..<80]"
proof -
  have "map (\<lambda>i. LOAD32H (take 4 (drop (4 * i) buf))) [0..<16] = map (sha1_W buf) [0..<16]"
    by (rule map_cong) (simp_all add: sha1_W.simps)
  moreover have "ROL (W ! (i - 3) XOR W ! (i - 8) XOR W ! (i - 14) XOR W ! (i - 16)) 1 = sha1_W buf i"
    if "16 \<le> i" "W = map (sha1_W buf) [0..<i]" for i W
    using that(1) by (simp add: that(2) sha1_W.simps [of buf i])
  ultimately show ?thesis unfolding sha1_schedule_def by (simp only:) (rule fill_map; simp)
qed

lemma upt_5: "[x..<x + 5] = [x, x + 1, x + 2, x + 3, x + 4 :: nat]"
  by (simp add: upt_rec)

lemma sha1_five_rounds:
  assumes "i + 4 < 80" "\<And>j. j < 5 \<Longrightarrow> sha1_f (i + j) = f" "\<And>j. j < 5 \<Longrightarrow> sha1_K (i + j) = k"
  shows "sha1_five f k (map W [0..<80]) i s = fold (sha1_round W) [i..<i + 5] s"
proof -
  have f: "sha1_f i = f" "sha1_f (Suc i) = f" "sha1_f (Suc (Suc i)) = f" "sha1_f (i + 2) = f" "sha1_f (i + 3) = f" "sha1_f (i + 4) = f"
    using assms(2) [of 0] assms(2) [of 1] assms(2) [of 2] assms(2) [of 3] assms(2) [of 4] by simp_all
  have k: "sha1_K i = k" "sha1_K (Suc i) = k" "sha1_K (Suc (Suc i)) = k" "sha1_K (i + 2) = k" "sha1_K (i + 3) = k" "sha1_K (i + 4) = k"
    using assms(3) [of 0] assms(3) [of 1] assms(3) [of 2] assms(3) [of 3] assms(3) [of 4] by simp_all
  show ?thesis using assms(1)
    by (cases s) (simp add: upt_5 sha1_five_def sha1_round_def FF_def Let_def f k ac_simps del: upt_rec_numeral)
qed

lemma sha1_twenty_rounds:
  assumes "lo \<le> 60" "\<And>j. j < 20 \<Longrightarrow> sha1_f (lo + j) = f" "\<And>j. j < 20 \<Longrightarrow> sha1_K (lo + j) = k"
  shows "sha1_twenty f k (map W [0..<80]) lo s = fold (sha1_round W) [lo..<lo + 20] s"
proof -
  have "fold (\<lambda>j. sha1_five f k (map W [0..<80]) (lo + 5 * j)) [0..<n] s =
      fold (sha1_round W) [lo..<lo + 5 * n] s" if "n \<le> 4" for n
    using that
  proof (induction n)
    case (Suc n)
    have "sha1_five f k (map W [0..<80]) (lo + 5 * n) s' =
        fold (sha1_round W) [lo + 5 * n..<lo + 5 * n + 5] s'" for s'
      by (rule sha1_five_rounds) (use assms Suc.prems in \<open>simp_all add: add.assoc\<close>)
    moreover have "[lo..<lo + 5 * n + 5] = [lo..<lo + 5 * n] @ [lo + 5 * n..<lo + 5 * n + 5]"
      by (rule upt_add_eq_append) simp
    moreover have e: "lo + 5 * Suc n = lo + 5 * n + 5" by simp
    ultimately show ?case using Suc unfolding e by (simp del: upt_rec_numeral)
  qed simp
  from this [of 4] show ?thesis by (simp add: sha1_twenty_def)
qed

lemma s_sha1_compress_eq: "s_sha1_compress st buf = sha1_block st buf"
proof -
  let ?W = "sha1_W buf" and ?r = "sha1_round (sha1_W buf)"
  have l: "[0..<80] = [0..<20] @ [20..<40] @ [40..<60] @ [60..<(80 :: nat)]"
    using upt_add_eq_append [of 0 20 60] upt_add_eq_append [of 20 40 40] upt_add_eq_append [of 40 60 20]
    by (simp del: upt_rec_numeral)
  have "sha1_twenty F0 0x5a827999 (map ?W [0..<80]) 0 s = fold ?r [0..<20] s"
    "sha1_twenty F1 0x6ed9eba1 (map ?W [0..<80]) 20 s = fold ?r [20..<40] s"
    "sha1_twenty F2 0x8f1bbcdc (map ?W [0..<80]) 40 s = fold ?r [40..<60] s"
    "sha1_twenty F3 0xca62c1d6 (map ?W [0..<80]) 60 s = fold ?r [60..<80] s" for s
    using sha1_twenty_rounds [of 0 F0 "0x5a827999" ?W s] sha1_twenty_rounds [of 20 F1 "0x6ed9eba1" ?W s]
      sha1_twenty_rounds [of 40 F2 "0x8f1bbcdc" ?W s] sha1_twenty_rounds [of 60 F3 "0xca62c1d6" ?W s]
    by (simp_all add: choice_functions sha1_f_def sha1_K_def del: upt_rec_numeral)
  then show ?thesis
    by (simp add: s_sha1_compress_def sha1_block_def sha1_schedule_eq Let_def l add.commute split_beta
        del: upt_rec_numeral)
qed

end
