(* ===== verification/Sha2.thy ===== *)
theory Sha2
  imports Sha1
begin

text \<open>
  What SHA-256 and SHA-512 share: the round of FIPS 180-4 on eight working
  variables, and the relation between the specification, which shifts the
  variables, and the code, which keeps them in the array \<open>S\<close> and rotates the
  indices of its macro \<open>RND\<close>.
\<close>

unbundle bit_operations_syntax

section \<open>FIPS 180-4 rounds\<close>

definition sha2_round :: "('a::len word \<Rightarrow> 'a word) \<Rightarrow> ('a word \<Rightarrow> 'a word) \<Rightarrow> 'a word \<Rightarrow> 'a word list \<Rightarrow> 'a word list" where
  "sha2_round S0 S1 kw v =
     (let T1 = v ! 7 + S1 (v ! 4) + Ch (v ! 4) (v ! 5) (v ! 6) + kw;
          T2 = S0 (v ! 0) + Maj (v ! 0) (v ! 1) (v ! 2)
      in [T1 + T2, v ! 0, v ! 1, v ! 2, v ! 3 + T1, v ! 4, v ! 5, v ! 6])"

definition sha2_block :: "('a::len word \<Rightarrow> 'a word) \<Rightarrow> ('a word \<Rightarrow> 'a word) \<Rightarrow> (nat \<Rightarrow> 'a word) \<Rightarrow>
    (bytes \<Rightarrow> nat \<Rightarrow> 'a word) \<Rightarrow> nat \<Rightarrow> 'a word list \<Rightarrow> bytes \<Rightarrow> 'a word list" where
  "sha2_block S0 S1 K W n H M =
     (let v = fold (\<lambda>t. sha2_round S0 S1 (K t + W M t)) [0..<n] (take 8 H)
      in map (\<lambda>i. H ! i + v ! i) [0..<8])"

section \<open>Rotated variables\<close>

text \<open>The variables as the specification sees them when the code has made \<open>r\<close> rounds.\<close>

definition unrotate :: "nat \<Rightarrow> 'a list \<Rightarrow> 'a list" where
  "unrotate r S = map (\<lambda>k. S ! ((k + 8 - r mod 8) mod 8)) [0..<8]"

definition RND :: "('a::len word \<Rightarrow> 'a word) \<Rightarrow> ('a word \<Rightarrow> 'a word) \<Rightarrow> 'a word \<Rightarrow>
    nat \<Rightarrow> nat \<Rightarrow> nat \<Rightarrow> nat \<Rightarrow> nat \<Rightarrow> nat \<Rightarrow> nat \<Rightarrow> nat \<Rightarrow> 'a word list \<Rightarrow> 'a word list" where
  "RND S0 S1 kw a b c d e f g h S =
     (let t0 = S ! h + S1 (S ! e) + Ch (S ! e) (S ! f) (S ! g) + kw;
          t1 = S0 (S ! a) + Maj (S ! a) (S ! b) (S ! c);
          S = S[d := S ! d + t0]
      in S[h := t0 + t1])"

lemma upt_8: "[0..<8] = [0, 1, 2, 3, 4, 5, 6, 7 :: nat]"
  by (simp add: upt_rec)

lemma length_RND [simp]: "length (RND S0 S1 kw a b c d e f g h S) = length S"
  by (simp add: RND_def Let_def)

lemma unrotate_RND:
  assumes "length S = 8"
  shows
    "unrotate 1 (RND S0 S1 kw 0 1 2 3 4 5 6 7 S) = sha2_round S0 S1 kw (unrotate 0 S)"
    "unrotate 2 (RND S0 S1 kw 7 0 1 2 3 4 5 6 S) = sha2_round S0 S1 kw (unrotate 1 S)"
    "unrotate 3 (RND S0 S1 kw 6 7 0 1 2 3 4 5 S) = sha2_round S0 S1 kw (unrotate 2 S)"
    "unrotate 4 (RND S0 S1 kw 5 6 7 0 1 2 3 4 S) = sha2_round S0 S1 kw (unrotate 3 S)"
    "unrotate 5 (RND S0 S1 kw 4 5 6 7 0 1 2 3 S) = sha2_round S0 S1 kw (unrotate 4 S)"
    "unrotate 6 (RND S0 S1 kw 3 4 5 6 7 0 1 2 S) = sha2_round S0 S1 kw (unrotate 5 S)"
    "unrotate 7 (RND S0 S1 kw 2 3 4 5 6 7 0 1 S) = sha2_round S0 S1 kw (unrotate 6 S)"
    "unrotate 0 (RND S0 S1 kw 1 2 3 4 5 6 7 0 S) = sha2_round S0 S1 kw (unrotate 7 S)"
proof -
  obtain a b c d e f g h where S: "S = [a, b, c, d, e, f, g, h]"
    using assms by (auto simp: length_Suc_conv numeral_eq_Suc)
  note defs = S upt_8 unrotate_def RND_def sha2_round_def Let_def
  show
    "unrotate 1 (RND S0 S1 kw 0 1 2 3 4 5 6 7 S) = sha2_round S0 S1 kw (unrotate 0 S)"
    "unrotate 2 (RND S0 S1 kw 7 0 1 2 3 4 5 6 S) = sha2_round S0 S1 kw (unrotate 1 S)"
    "unrotate 3 (RND S0 S1 kw 6 7 0 1 2 3 4 5 S) = sha2_round S0 S1 kw (unrotate 2 S)"
    "unrotate 4 (RND S0 S1 kw 5 6 7 0 1 2 3 4 S) = sha2_round S0 S1 kw (unrotate 3 S)"
    "unrotate 5 (RND S0 S1 kw 4 5 6 7 0 1 2 3 S) = sha2_round S0 S1 kw (unrotate 4 S)"
    "unrotate 6 (RND S0 S1 kw 3 4 5 6 7 0 1 2 S) = sha2_round S0 S1 kw (unrotate 5 S)"
    "unrotate 7 (RND S0 S1 kw 2 3 4 5 6 7 0 1 S) = sha2_round S0 S1 kw (unrotate 6 S)"
    "unrotate 0 (RND S0 S1 kw 1 2 3 4 5 6 7 0 S) = sha2_round S0 S1 kw (unrotate 7 S)"
    by (simp_all add: defs)
qed

lemma unrotate_0 [simp]: "length S = 8 \<Longrightarrow> unrotate 0 S = S"
  by (rule nth_equalityI) (auto simp: unrotate_def)

text \<open>Eight rounds bring the names back to where they started.\<close>

lemma RND_eight:
  assumes "length S = 8"
  shows "RND S0 S1 k7 1 2 3 4 5 6 7 0 (RND S0 S1 k6 2 3 4 5 6 7 0 1 (RND S0 S1 k5 3 4 5 6 7 0 1 2
      (RND S0 S1 k4 4 5 6 7 0 1 2 3 (RND S0 S1 k3 5 6 7 0 1 2 3 4 (RND S0 S1 k2 6 7 0 1 2 3 4 5
      (RND S0 S1 k1 7 0 1 2 3 4 5 6 (RND S0 S1 k0 0 1 2 3 4 5 6 7 S))))))) =
    fold (sha2_round S0 S1) [k0, k1, k2, k3, k4, k5, k6, k7] S" (is "?E = _")
proof -
  have "?E = unrotate 0 ?E" using assms by simp
  also have "\<dots> = fold (sha2_round S0 S1) [k0, k1, k2, k3, k4, k5, k6, k7] (unrotate 0 S)"
    using assms by (simp only: unrotate_RND length_RND fold_simps)
  finally show ?thesis using assms by simp
qed

lemma length_sha2_round [simp]: "length (sha2_round S0 S1 kw v) = 8"
  by (simp add: sha2_round_def Let_def)

lemma length_sha2_fold: "length v = 8 \<Longrightarrow> length (fold (\<lambda>t. sha2_round S0 S1 (g t)) ts v) = 8"
  by (induction ts arbitrary: v) simp_all

text \<open>Groups of eight rounds.\<close>

lemma upt_plus_8: "[x..<x + 8] = [x, x + 1, x + 2, x + 3, x + 4, x + 5, x + 6, x + 7 :: nat]"
  by (simp add: upt_rec)

lemma fold_eights:
  assumes "\<And>j v. j < n \<Longrightarrow> length v = 8 \<Longrightarrow>
     grp j v = fold (sha2_round S0 S1) (map kw [8 * j..<8 * j + 8]) v" "length v = 8"
  shows "fold grp [0..<n] v = fold (\<lambda>t. sha2_round S0 S1 (kw t)) [0..<8 * n] v"
  using assms(1)
proof (induction n)
  case (Suc n)
  let ?r = "\<lambda>t. sha2_round S0 S1 (kw t)"
  have "fold grp [0..<Suc n] v = grp n (fold ?r [0..<8 * n] v)" using Suc by simp
  also have "\<dots> = fold (sha2_round S0 S1) (map kw [8 * n..<8 * n + 8]) (fold ?r [0..<8 * n] v)"
    by (rule Suc.prems) (simp_all add: length_sha2_fold assms(2))
  also have "\<dots> = fold ?r [8 * n..<8 * n + 8] (fold ?r [0..<8 * n] v)" by (simp add: fold_map comp_def)
  also have "\<dots> = fold ?r ([0..<8 * n] @ [8 * n..<8 * n + 8]) v" by simp
  also have "[0..<8 * n] @ [8 * n..<8 * n + 8] = [0..<8 * Suc n]"
    using upt_add_eq_append [of 0 "8 * n" 8] by (simp add: add.commute)
  finally show ?case .
qed simp

end
