(* ===== verification/Sha256.thy ===== *)
theory Sha256
  imports Sha2
begin

text \<open>
  SHA-256 of \<open>sha256.c\<close> (the unrolled build): compression, init, process, done, and
  the proof that the compression is the round function of FIPS 180-4.
\<close>

unbundle bit_operations_syntax

section \<open>The code\<close>

definition Ch_256 :: "u32 \<Rightarrow> u32 \<Rightarrow> u32 \<Rightarrow> u32" where "Ch_256 x y z = z XOR (x AND (y XOR z))"
definition Maj_256 :: "u32 \<Rightarrow> u32 \<Rightarrow> u32 \<Rightarrow> u32" where "Maj_256 x y z = ((x OR y) AND z) OR (x AND y)"
definition Sigma0_256 :: "u32 \<Rightarrow> u32" where "Sigma0_256 x = RORc x 2 XOR RORc x 13 XOR RORc x 22"
definition Sigma1_256 :: "u32 \<Rightarrow> u32" where "Sigma1_256 x = RORc x 6 XOR RORc x 11 XOR RORc x 25"
definition Gamma0_256 :: "u32 \<Rightarrow> u32" where "Gamma0_256 x = RORc x 7 XOR RORc x 18 XOR drop_bit 3 x"
definition Gamma1_256 :: "u32 \<Rightarrow> u32" where "Gamma1_256 x = RORc x 17 XOR RORc x 19 XOR drop_bit 10 x"

text \<open>
  The macro \<open>RND(S[a], ..., S[h], i, ki)\<close>, with its arguments given by their indices in
  \<open>S\<close>, and its 64 uses.
\<close>

definition RND256 :: "nat \<Rightarrow> nat \<Rightarrow> nat \<Rightarrow> nat \<Rightarrow> nat \<Rightarrow> nat \<Rightarrow> nat \<Rightarrow> nat \<Rightarrow> nat \<Rightarrow> u32 \<Rightarrow> u32 list \<Rightarrow> u32 list \<Rightarrow> u32 list" where
  "RND256 a b c d e f g h i ki W S =
     (let t0 = S ! h + Sigma1_256 (S ! e) + Ch_256 (S ! e) (S ! f) (S ! g) + ki + W ! i;
          t1 = Sigma0_256 (S ! a) + Maj_256 (S ! a) (S ! b) (S ! c);
          S = S[d := S ! d + t0]
      in S[h := t0 + t1])"

definition sha256_rounds :: "(u32 list \<Rightarrow> u32 list \<Rightarrow> u32 list) list" where
  "sha256_rounds =
    [RND256 0 1 2 3 4 5 6 7 0 0x428a2f98,
     RND256 7 0 1 2 3 4 5 6 1 0x71374491,
     RND256 6 7 0 1 2 3 4 5 2 0xb5c0fbcf,
     RND256 5 6 7 0 1 2 3 4 3 0xe9b5dba5,
     RND256 4 5 6 7 0 1 2 3 4 0x3956c25b,
     RND256 3 4 5 6 7 0 1 2 5 0x59f111f1,
     RND256 2 3 4 5 6 7 0 1 6 0x923f82a4,
     RND256 1 2 3 4 5 6 7 0 7 0xab1c5ed5,
     RND256 0 1 2 3 4 5 6 7 8 0xd807aa98,
     RND256 7 0 1 2 3 4 5 6 9 0x12835b01,
     RND256 6 7 0 1 2 3 4 5 10 0x243185be,
     RND256 5 6 7 0 1 2 3 4 11 0x550c7dc3,
     RND256 4 5 6 7 0 1 2 3 12 0x72be5d74,
     RND256 3 4 5 6 7 0 1 2 13 0x80deb1fe,
     RND256 2 3 4 5 6 7 0 1 14 0x9bdc06a7,
     RND256 1 2 3 4 5 6 7 0 15 0xc19bf174,
     RND256 0 1 2 3 4 5 6 7 16 0xe49b69c1,
     RND256 7 0 1 2 3 4 5 6 17 0xefbe4786,
     RND256 6 7 0 1 2 3 4 5 18 0x0fc19dc6,
     RND256 5 6 7 0 1 2 3 4 19 0x240ca1cc,
     RND256 4 5 6 7 0 1 2 3 20 0x2de92c6f,
     RND256 3 4 5 6 7 0 1 2 21 0x4a7484aa,
     RND256 2 3 4 5 6 7 0 1 22 0x5cb0a9dc,
     RND256 1 2 3 4 5 6 7 0 23 0x76f988da,
     RND256 0 1 2 3 4 5 6 7 24 0x983e5152,
     RND256 7 0 1 2 3 4 5 6 25 0xa831c66d,
     RND256 6 7 0 1 2 3 4 5 26 0xb00327c8,
     RND256 5 6 7 0 1 2 3 4 27 0xbf597fc7,
     RND256 4 5 6 7 0 1 2 3 28 0xc6e00bf3,
     RND256 3 4 5 6 7 0 1 2 29 0xd5a79147,
     RND256 2 3 4 5 6 7 0 1 30 0x06ca6351,
     RND256 1 2 3 4 5 6 7 0 31 0x14292967,
     RND256 0 1 2 3 4 5 6 7 32 0x27b70a85,
     RND256 7 0 1 2 3 4 5 6 33 0x2e1b2138,
     RND256 6 7 0 1 2 3 4 5 34 0x4d2c6dfc,
     RND256 5 6 7 0 1 2 3 4 35 0x53380d13,
     RND256 4 5 6 7 0 1 2 3 36 0x650a7354,
     RND256 3 4 5 6 7 0 1 2 37 0x766a0abb,
     RND256 2 3 4 5 6 7 0 1 38 0x81c2c92e,
     RND256 1 2 3 4 5 6 7 0 39 0x92722c85,
     RND256 0 1 2 3 4 5 6 7 40 0xa2bfe8a1,
     RND256 7 0 1 2 3 4 5 6 41 0xa81a664b,
     RND256 6 7 0 1 2 3 4 5 42 0xc24b8b70,
     RND256 5 6 7 0 1 2 3 4 43 0xc76c51a3,
     RND256 4 5 6 7 0 1 2 3 44 0xd192e819,
     RND256 3 4 5 6 7 0 1 2 45 0xd6990624,
     RND256 2 3 4 5 6 7 0 1 46 0xf40e3585,
     RND256 1 2 3 4 5 6 7 0 47 0x106aa070,
     RND256 0 1 2 3 4 5 6 7 48 0x19a4c116,
     RND256 7 0 1 2 3 4 5 6 49 0x1e376c08,
     RND256 6 7 0 1 2 3 4 5 50 0x2748774c,
     RND256 5 6 7 0 1 2 3 4 51 0x34b0bcb5,
     RND256 4 5 6 7 0 1 2 3 52 0x391c0cb3,
     RND256 3 4 5 6 7 0 1 2 53 0x4ed8aa4a,
     RND256 2 3 4 5 6 7 0 1 54 0x5b9cca4f,
     RND256 1 2 3 4 5 6 7 0 55 0x682e6ff3,
     RND256 0 1 2 3 4 5 6 7 56 0x748f82ee,
     RND256 7 0 1 2 3 4 5 6 57 0x78a5636f,
     RND256 6 7 0 1 2 3 4 5 58 0x84c87814,
     RND256 5 6 7 0 1 2 3 4 59 0x8cc70208,
     RND256 4 5 6 7 0 1 2 3 60 0x90befffa,
     RND256 3 4 5 6 7 0 1 2 61 0xa4506ceb,
     RND256 2 3 4 5 6 7 0 1 62 0xbef9a3f7,
     RND256 1 2 3 4 5 6 7 0 63 0xc67178f2]"

definition sha256_schedule :: "bytes \<Rightarrow> u32 list" where
  "sha256_schedule buf =
     fold (\<lambda>i W. W @ [Gamma1_256 (W ! (i - 2)) + W ! (i - 7) + Gamma0_256 (W ! (i - 15)) + W ! (i - 16)]) [16..<64]
       (map (\<lambda>i. LOAD32H (take 4 (drop (4 * i) buf))) [0..<16])"

definition s_sha256_compress :: "u32 list \<Rightarrow> bytes \<Rightarrow> u32 list" where
  "s_sha256_compress st buf =
     (let W = sha256_schedule buf;
          S = map (\<lambda>i. st ! i) [0..<8];
          S = fold (\<lambda>r. r W) sha256_rounds S
      in map (\<lambda>i. st ! i + S ! i) [0..<8])"

definition sha256_iv :: "u32 list" where
  "sha256_iv =
    [0x6A09E667, 0xBB67AE85, 0x3C6EF372, 0xA54FF53A,
     0x510E527F, 0x9B05688C, 0x1F83D9AB, 0x5BE0CD19]"

definition sha256_init :: "u32 md_state \<Rightarrow> u32 md_state" where
  "sha256_init md = md\<lparr>md_curlen := 0, md_length := 0, md_words := sha256_iv\<rparr>"

definition sha256_process :: "u32 md_state \<Rightarrow> bytes \<Rightarrow> crypt_rc \<times> u32 md_state" where
  "sha256_process = HASH_PROCESS s_sha256_compress 64"

definition sha256_out :: "u32 list \<Rightarrow> bytes" where
  "sha256_out st = concat (map (\<lambda>i. STORE32H (st ! i)) [0..<8])"

definition sha256_done :: "u32 md_state \<Rightarrow> crypt_rc \<times> u32 md_state \<times> bytes" where
  "sha256_done = hash_done s_sha256_compress 64 56 56 sha256_out"

section \<open>FIPS 180-4\<close>

definition K_256 :: "u32 list" where
  "K_256 =
    [0x428a2f98, 0x71374491, 0xb5c0fbcf, 0xe9b5dba5, 0x3956c25b, 0x59f111f1, 0x923f82a4, 0xab1c5ed5] @
    [0xd807aa98, 0x12835b01, 0x243185be, 0x550c7dc3, 0x72be5d74, 0x80deb1fe, 0x9bdc06a7, 0xc19bf174] @
    [0xe49b69c1, 0xefbe4786, 0x0fc19dc6, 0x240ca1cc, 0x2de92c6f, 0x4a7484aa, 0x5cb0a9dc, 0x76f988da] @
    [0x983e5152, 0xa831c66d, 0xb00327c8, 0xbf597fc7, 0xc6e00bf3, 0xd5a79147, 0x06ca6351, 0x14292967] @
    [0x27b70a85, 0x2e1b2138, 0x4d2c6dfc, 0x53380d13, 0x650a7354, 0x766a0abb, 0x81c2c92e, 0x92722c85] @
    [0xa2bfe8a1, 0xa81a664b, 0xc24b8b70, 0xc76c51a3, 0xd192e819, 0xd6990624, 0xf40e3585, 0x106aa070] @
    [0x19a4c116, 0x1e376c08, 0x2748774c, 0x34b0bcb5, 0x391c0cb3, 0x4ed8aa4a, 0x5b9cca4f, 0x682e6ff3] @
    [0x748f82ee, 0x78a5636f, 0x84c87814, 0x8cc70208, 0x90befffa, 0xa4506ceb, 0xbef9a3f7, 0xc67178f2]"

fun sha256_W :: "bytes \<Rightarrow> nat \<Rightarrow> u32" where
  "sha256_W M t = (if t < 16 then LOAD32H (take 4 (drop (4 * t) M))
     else Gamma1_256 (sha256_W M (t - 2)) + sha256_W M (t - 7) + Gamma0_256 (sha256_W M (t - 15)) + sha256_W M (t - 16))"

declare sha256_W.simps [simp del]

definition sha256_block :: "u32 list \<Rightarrow> bytes \<Rightarrow> u32 list" where
  "sha256_block = sha2_block Sigma0_256 Sigma1_256 ((!) K_256) sha256_W 64"

section \<open>The unrolled code computes it\<close>

lemma choice_functions_256: "Ch_256 = Ch" "Maj_256 = Maj"
  by (intro ext bit_word_eqI; auto simp: Ch_256_def Maj_256_def Ch_def Maj_def bit_simps)+

lemma sha256_schedule_eq: "sha256_schedule buf = map (sha256_W buf) [0..<64]"
proof -
  have "map (\<lambda>i. LOAD32H (take 4 (drop (4 * i) buf))) [0..<16] = map (sha256_W buf) [0..<16]"
    by (rule map_cong) (simp_all add: sha256_W.simps)
  moreover have "Gamma1_256 (W ! (i - 2)) + W ! (i - 7) + Gamma0_256 (W ! (i - 15)) + W ! (i - 16) = sha256_W buf i"
    if "16 \<le> i" "W = map (sha256_W buf) [0..<i]" for i W
    using that(1) by (simp add: that(2) sha256_W.simps [of buf i])
  ultimately show ?thesis unfolding sha256_schedule_def by (simp only:) (rule fill_map; simp)
qed

lemma RND256_eq:
  "RND256 a b c d e f g h i ki W S = RND Sigma0_256 Sigma1_256 (ki + W ! i) a b c d e f g h S"
  by (simp add: RND256_def RND_def choice_functions_256 ac_simps)

text \<open>The 64 lines of the source, as eight groups of eight.\<close>

definition sha256_group :: "nat \<Rightarrow> (u32 list \<Rightarrow> u32 list \<Rightarrow> u32 list) list" where
  "sha256_group j =
    [RND256 0 1 2 3 4 5 6 7 (8 * j + 0) (K_256 ! (8 * j + 0)),
     RND256 7 0 1 2 3 4 5 6 (8 * j + 1) (K_256 ! (8 * j + 1)),
     RND256 6 7 0 1 2 3 4 5 (8 * j + 2) (K_256 ! (8 * j + 2)),
     RND256 5 6 7 0 1 2 3 4 (8 * j + 3) (K_256 ! (8 * j + 3)),
     RND256 4 5 6 7 0 1 2 3 (8 * j + 4) (K_256 ! (8 * j + 4)),
     RND256 3 4 5 6 7 0 1 2 (8 * j + 5) (K_256 ! (8 * j + 5)),
     RND256 2 3 4 5 6 7 0 1 (8 * j + 6) (K_256 ! (8 * j + 6)),
     RND256 1 2 3 4 5 6 7 0 (8 * j + 7) (K_256 ! (8 * j + 7))]"

lemma sha256_rounds_groups: "sha256_rounds = concat (map sha256_group [0..<8])"
  unfolding upt_8 by (simp add: sha256_rounds_def sha256_group_def K_256_def numeral_2_eq_2)

lemma fold_concat_map: "fold f (concat (map g js)) s = fold (\<lambda>j. fold f (g j)) js s"
  by (induction js arbitrary: s) simp_all

lemma sha256_group_rounds:
  assumes "length v = 8"
  shows "fold (\<lambda>r. r W) (sha256_group j) v =
    fold (sha2_round Sigma0_256 Sigma1_256) (map (\<lambda>t. K_256 ! t + W ! t) [8 * j..<8 * j + 8]) v"
  unfolding upt_plus_8 list.map RND_eight [OF assms, symmetric]
  by (simp add: sha256_group_def RND256_eq)

lemma s_sha256_compress_eq:
  assumes "length st = 8"
  shows "s_sha256_compress st buf = sha256_block st buf"
proof -
  let ?W = "sha256_W buf"
  have K: "map (\<lambda>t. K_256 ! t + map ?W [0..<64] ! t) [8 * j..<8 * j + 8] =
      map (\<lambda>t. K_256 ! t + ?W t) [8 * j..<8 * j + 8]" if "j < 8" for j
    by (rule map_cong) (use that in auto)
  have st: "map (\<lambda>i. st ! i) [0..<8] = st" "take 8 st = st" using assms map_nth [of st] by simp_all
  have "fold (\<lambda>j. fold (\<lambda>r. r (map ?W [0..<64])) (sha256_group j)) [0..<8] st =
      fold (\<lambda>t. sha2_round Sigma0_256 Sigma1_256 (K_256 ! t + ?W t)) [0..<8 * 8] st"
    by (rule fold_eights) (simp_all only: sha256_group_rounds assms K)
  then have "fold (\<lambda>r. r (map ?W [0..<64])) sha256_rounds st =
      fold (\<lambda>t. sha2_round Sigma0_256 Sigma1_256 (K_256 ! t + ?W t)) [0..<64] st"
    unfolding sha256_rounds_groups fold_concat_map by simp
  then show ?thesis
    by (simp only: s_sha256_compress_def sha256_block_def sha2_block_def sha256_schedule_eq Let_def st)
qed

end
