(* ===== verification/Sha512.thy ===== *)
theory Sha512
  imports Sha2
begin

text \<open>
  SHA-512 of \<open>sha512.c\<close> (the unrolled build): compression, init, process, done, and
  the proof that the compression is the round function of FIPS 180-4.
\<close>

unbundle bit_operations_syntax

section \<open>The code\<close>

definition Ch_512 :: "u64 \<Rightarrow> u64 \<Rightarrow> u64 \<Rightarrow> u64" where "Ch_512 x y z = z XOR (x AND (y XOR z))"
definition Maj_512 :: "u64 \<Rightarrow> u64 \<Rightarrow> u64 \<Rightarrow> u64" where "Maj_512 x y z = ((x OR y) AND z) OR (x AND y)"
definition Sigma0_512 :: "u64 \<Rightarrow> u64" where "Sigma0_512 x = ROR64c x 28 XOR ROR64c x 34 XOR ROR64c x 39"
definition Sigma1_512 :: "u64 \<Rightarrow> u64" where "Sigma1_512 x = ROR64c x 14 XOR ROR64c x 18 XOR ROR64c x 41"
definition Gamma0_512 :: "u64 \<Rightarrow> u64" where "Gamma0_512 x = ROR64c x 1 XOR ROR64c x 8 XOR drop_bit 7 x"
definition Gamma1_512 :: "u64 \<Rightarrow> u64" where "Gamma1_512 x = ROR64c x 19 XOR ROR64c x 61 XOR drop_bit 6 x"

text \<open>The array \<open>K\<close>.\<close>

abbreviation (input) CONST64 :: "u64 \<Rightarrow> u64" where "CONST64 x \<equiv> x"

definition K_512 :: "u64 list" where
  "K_512 =
    [CONST64 0x428a2f98d728ae22, CONST64 0x7137449123ef65cd,
     CONST64 0xb5c0fbcfec4d3b2f, CONST64 0xe9b5dba58189dbbc,
     CONST64 0x3956c25bf348b538, CONST64 0x59f111f1b605d019,
     CONST64 0x923f82a4af194f9b, CONST64 0xab1c5ed5da6d8118,
     CONST64 0xd807aa98a3030242, CONST64 0x12835b0145706fbe,
     CONST64 0x243185be4ee4b28c, CONST64 0x550c7dc3d5ffb4e2,
     CONST64 0x72be5d74f27b896f, CONST64 0x80deb1fe3b1696b1,
     CONST64 0x9bdc06a725c71235, CONST64 0xc19bf174cf692694,
     CONST64 0xe49b69c19ef14ad2, CONST64 0xefbe4786384f25e3,
     CONST64 0x0fc19dc68b8cd5b5, CONST64 0x240ca1cc77ac9c65,
     CONST64 0x2de92c6f592b0275, CONST64 0x4a7484aa6ea6e483,
     CONST64 0x5cb0a9dcbd41fbd4, CONST64 0x76f988da831153b5,
     CONST64 0x983e5152ee66dfab, CONST64 0xa831c66d2db43210,
     CONST64 0xb00327c898fb213f, CONST64 0xbf597fc7beef0ee4,
     CONST64 0xc6e00bf33da88fc2, CONST64 0xd5a79147930aa725,
     CONST64 0x06ca6351e003826f, CONST64 0x142929670a0e6e70,
     CONST64 0x27b70a8546d22ffc, CONST64 0x2e1b21385c26c926,
     CONST64 0x4d2c6dfc5ac42aed, CONST64 0x53380d139d95b3df,
     CONST64 0x650a73548baf63de, CONST64 0x766a0abb3c77b2a8,
     CONST64 0x81c2c92e47edaee6, CONST64 0x92722c851482353b,
     CONST64 0xa2bfe8a14cf10364, CONST64 0xa81a664bbc423001,
     CONST64 0xc24b8b70d0f89791, CONST64 0xc76c51a30654be30,
     CONST64 0xd192e819d6ef5218, CONST64 0xd69906245565a910,
     CONST64 0xf40e35855771202a, CONST64 0x106aa07032bbd1b8,
     CONST64 0x19a4c116b8d2d0c8, CONST64 0x1e376c085141ab53,
     CONST64 0x2748774cdf8eeb99, CONST64 0x34b0bcb5e19b48a8,
     CONST64 0x391c0cb3c5c95a63, CONST64 0x4ed8aa4ae3418acb,
     CONST64 0x5b9cca4f7763e373, CONST64 0x682e6ff3d6b2b8a3,
     CONST64 0x748f82ee5defb2fc, CONST64 0x78a5636f43172f60,
     CONST64 0x84c87814a1f0ab72, CONST64 0x8cc702081a6439ec,
     CONST64 0x90befffa23631e28, CONST64 0xa4506cebde82bde9,
     CONST64 0xbef9a3f7b2c67915, CONST64 0xc67178f2e372532b,
     CONST64 0xca273eceea26619c, CONST64 0xd186b8c721c0c207,
     CONST64 0xeada7dd6cde0eb1e, CONST64 0xf57d4f7fee6ed178,
     CONST64 0x06f067aa72176fba, CONST64 0x0a637dc5a2c898a6,
     CONST64 0x113f9804bef90dae, CONST64 0x1b710b35131c471b,
     CONST64 0x28db77f523047d84, CONST64 0x32caab7b40c72493,
     CONST64 0x3c9ebe0a15c9bebc, CONST64 0x431d67c49c100d4c,
     CONST64 0x4cc5d4becb3e42b6, CONST64 0x597f299cfc657e2a,
     CONST64 0x5fcb6fab3ad6faec, CONST64 0x6c44198c4a475817]"

text \<open>
  The macro \<open>RND(S[a], ..., S[h], i)\<close>, with its arguments given by their indices in \<open>S\<close>.
\<close>

definition RND512 :: "u64 list \<Rightarrow> nat \<Rightarrow> nat \<Rightarrow> nat \<Rightarrow> nat \<Rightarrow> nat \<Rightarrow> nat \<Rightarrow> nat \<Rightarrow> nat \<Rightarrow> nat \<Rightarrow> u64 list \<Rightarrow> u64 list" where
  "RND512 W a b c d e f g h i S =
     (let t0 = S ! h + Sigma1_512 (S ! e) + Ch_512 (S ! e) (S ! f) (S ! g) + K_512 ! i + W ! i;
          t1 = Sigma0_512 (S ! a) + Maj_512 (S ! a) (S ! b) (S ! c);
          S = S[d := S ! d + t0]
      in S[h := t0 + t1])"

text \<open>The body of the loop \<open>for (i = 0; i < 80; i += 8)\<close>.\<close>

definition sha512_eight :: "u64 list \<Rightarrow> nat \<Rightarrow> u64 list \<Rightarrow> u64 list" where
  "sha512_eight W i S =
     (let S = RND512 W 0 1 2 3 4 5 6 7 (i + 0) S;
          S = RND512 W 7 0 1 2 3 4 5 6 (i + 1) S;
          S = RND512 W 6 7 0 1 2 3 4 5 (i + 2) S;
          S = RND512 W 5 6 7 0 1 2 3 4 (i + 3) S;
          S = RND512 W 4 5 6 7 0 1 2 3 (i + 4) S;
          S = RND512 W 3 4 5 6 7 0 1 2 (i + 5) S;
          S = RND512 W 2 3 4 5 6 7 0 1 (i + 6) S
      in RND512 W 1 2 3 4 5 6 7 0 (i + 7) S)"

definition sha512_schedule :: "bytes \<Rightarrow> u64 list" where
  "sha512_schedule buf =
     fold (\<lambda>i W. W @ [Gamma1_512 (W ! (i - 2)) + W ! (i - 7) + Gamma0_512 (W ! (i - 15)) + W ! (i - 16)]) [16..<80]
       (map (\<lambda>i. LOAD64H (take 8 (drop (8 * i) buf))) [0..<16])"

definition s_sha512_compress :: "u64 list \<Rightarrow> bytes \<Rightarrow> u64 list" where
  "s_sha512_compress st buf =
     (let W = sha512_schedule buf;
          S = map (\<lambda>i. st ! i) [0..<8];
          S = fold (\<lambda>j. sha512_eight W (8 * j)) [0..<10] S
      in map (\<lambda>i. st ! i + S ! i) [0..<8])"

definition sha512_iv :: "u64 list" where
  "sha512_iv =
    [0x6a09e667f3bcc908, 0xbb67ae8584caa73b, 0x3c6ef372fe94f82b, 0xa54ff53a5f1d36f1,
     0x510e527fade682d1, 0x9b05688c2b3e6c1f, 0x1f83d9abfb41bd6b, 0x5be0cd19137e2179]"

definition sha512_init :: "u64 md_state \<Rightarrow> u64 md_state" where
  "sha512_init md = md\<lparr>md_curlen := 0, md_length := 0, md_words := sha512_iv\<rparr>"

definition sha512_process :: "u64 md_state \<Rightarrow> bytes \<Rightarrow> crypt_rc \<times> u64 md_state" where
  "sha512_process = HASH_PROCESS s_sha512_compress 128"

definition sha512_out :: "u64 list \<Rightarrow> bytes" where
  "sha512_out st = concat (map (\<lambda>i. STORE64H (st ! i)) [0..<8])"

definition sha512_done :: "u64 md_state \<Rightarrow> crypt_rc \<times> u64 md_state \<times> bytes" where
  "sha512_done = hash_done s_sha512_compress 128 112 120 sha512_out"

section \<open>FIPS 180-4\<close>

fun sha512_W :: "bytes \<Rightarrow> nat \<Rightarrow> u64" where
  "sha512_W M t = (if t < 16 then LOAD64H (take 8 (drop (8 * t) M))
     else Gamma1_512 (sha512_W M (t - 2)) + sha512_W M (t - 7) + Gamma0_512 (sha512_W M (t - 15)) + sha512_W M (t - 16))"

declare sha512_W.simps [simp del]

definition sha512_block :: "u64 list \<Rightarrow> bytes \<Rightarrow> u64 list" where
  "sha512_block = sha2_block Sigma0_512 Sigma1_512 ((!) K_512) sha512_W 80"

section \<open>The unrolled code computes it\<close>

lemma choice_functions_512: "Ch_512 = Ch" "Maj_512 = Maj"
  by (intro ext bit_word_eqI; auto simp: Ch_512_def Maj_512_def Ch_def Maj_def bit_simps)+

lemma sha512_schedule_eq: "sha512_schedule buf = map (sha512_W buf) [0..<80]"
proof -
  have "map (\<lambda>i. LOAD64H (take 8 (drop (8 * i) buf))) [0..<16] = map (sha512_W buf) [0..<16]"
    by (rule map_cong) (simp_all add: sha512_W.simps)
  moreover have "Gamma1_512 (W ! (i - 2)) + W ! (i - 7) + Gamma0_512 (W ! (i - 15)) + W ! (i - 16) = sha512_W buf i"
    if "16 \<le> i" "W = map (sha512_W buf) [0..<i]" for i W
    using that(1) by (simp add: that(2) sha512_W.simps [of buf i])
  ultimately show ?thesis unfolding sha512_schedule_def by (simp only:) (rule fill_map; simp)
qed

lemma RND512_eq:
  "RND512 W a b c d e f g h i S = RND Sigma0_512 Sigma1_512 (K_512 ! i + W ! i) a b c d e f g h S"
  by (simp add: RND512_def RND_def choice_functions_512 ac_simps)

lemma sha512_eight_rounds:
  assumes "length v = 8"
  shows "sha512_eight W (8 * j) v =
    fold (sha2_round Sigma0_512 Sigma1_512) (map (\<lambda>t. K_512 ! t + W ! t) [8 * j..<8 * j + 8]) v"
  unfolding upt_plus_8 list.map RND_eight [OF assms, symmetric]
  by (simp add: sha512_eight_def RND512_eq)

lemma s_sha512_compress_eq:
  assumes "length st = 8"
  shows "s_sha512_compress st buf = sha512_block st buf"
proof -
  let ?W = "sha512_W buf"
  have K: "map (\<lambda>t. K_512 ! t + map ?W [0..<80] ! t) [8 * j..<8 * j + 8] =
      map (\<lambda>t. K_512 ! t + ?W t) [8 * j..<8 * j + 8]" if "j < 10" for j
    by (rule map_cong) (use that in auto)
  have st: "map (\<lambda>i. st ! i) [0..<8] = st" "take 8 st = st" using assms map_nth [of st] by simp_all
  have "fold (\<lambda>j. sha512_eight (map ?W [0..<80]) (8 * j)) [0..<10] st =
      fold (\<lambda>t. sha2_round Sigma0_512 Sigma1_512 (K_512 ! t + ?W t)) [0..<8 * 10] st"
    by (rule fold_eights) (simp_all only: sha512_eight_rounds assms K)
  then have "fold (\<lambda>j. sha512_eight (map ?W [0..<80]) (8 * j)) [0..<10] st =
      fold (\<lambda>t. sha2_round Sigma0_512 Sigma1_512 (K_512 ! t + ?W t)) [0..<80] st" by simp
  then show ?thesis
    by (simp only: s_sha512_compress_def sha512_block_def sha2_block_def sha512_schedule_eq Let_def st)
qed

end
