(* ===== verification/Hashes.thy ===== *)
theory Hashes
  imports Registry Sha256 Sha512
begin

text \<open>
  The hash functions behind the descriptor table: the union \<open>hash_state\<close>, the calls
  through the function pointers of a descriptor, and the proof that each of the
  three hashes is a \<open>stream_hash\<close> whose digest is the one of FIPS 180-4.
\<close>

section \<open>Calls through a descriptor\<close>

text \<open>
  The union \<open>hash_state\<close>: the code only reads the member it initialised last, so the
  members are separate fields; SHA-1 and SHA-256 have the same layout.
\<close>

record hash_state =
  st32 :: "u32 md_state"
  st64 :: "u64 md_state"

fun call_hash_init :: "hash_functions \<Rightarrow> hash_state \<Rightarrow> hash_state" where
  "call_hash_init SHA1 md = md\<lparr>st32 := sha1_init (st32 md)\<rparr>"
| "call_hash_init SHA256 md = md\<lparr>st32 := sha256_init (st32 md)\<rparr>"
| "call_hash_init SHA512 md = md\<lparr>st64 := sha512_init (st64 md)\<rparr>"

fun call_hash_process :: "hash_functions \<Rightarrow> hash_state \<Rightarrow> bytes \<Rightarrow> crypt_rc \<times> hash_state" where
  "call_hash_process SHA1 md inp = (let (err, s) = sha1_process (st32 md) inp in (err, md\<lparr>st32 := s\<rparr>))"
| "call_hash_process SHA256 md inp = (let (err, s) = sha256_process (st32 md) inp in (err, md\<lparr>st32 := s\<rparr>))"
| "call_hash_process SHA512 md inp = (let (err, s) = sha512_process (st64 md) inp in (err, md\<lparr>st64 := s\<rparr>))"

fun call_hash_done :: "hash_functions \<Rightarrow> hash_state \<Rightarrow> crypt_rc \<times> hash_state \<times> bytes" where
  "call_hash_done SHA1 md = (let (err, s, out) = sha1_done (st32 md) in (err, md\<lparr>st32 := s\<rparr>, out))"
| "call_hash_done SHA256 md = (let (err, s, out) = sha256_done (st32 md) in (err, md\<lparr>st32 := s\<rparr>, out))"
| "call_hash_done SHA512 md = (let (err, s, out) = sha512_done (st64 md) in (err, md\<lparr>st64 := s\<rparr>, out))"

fun descriptor_of :: "hash_functions \<Rightarrow> hash_descriptor" where
  "descriptor_of SHA1 = sha1_desc"
| "descriptor_of SHA256 = sha256_desc"
| "descriptor_of SHA512 = sha512_desc"

section \<open>The digests of FIPS 180-4\<close>

definition fips_sha1 :: "bytes \<Rightarrow> bytes" where
  "fips_sha1 = md_digest sha1_block 64 56 56 sha1_out sha1_iv"

definition fips_sha256 :: "bytes \<Rightarrow> bytes" where
  "fips_sha256 = md_digest sha256_block 64 56 56 sha256_out sha256_iv"

definition fips_sha512 :: "bytes \<Rightarrow> bytes" where
  "fips_sha512 = md_digest sha512_block 128 112 120 sha512_out sha512_iv"

fun fips_digest :: "hash_functions \<Rightarrow> bytes \<Rightarrow> bytes" where
  "fips_digest SHA1 = fips_sha1"
| "fips_digest SHA256 = fips_sha256"
| "fips_digest SHA512 = fips_sha512"

fun hash_absorbed :: "hash_functions \<Rightarrow> hash_state \<Rightarrow> bytes \<Rightarrow> bool" where
  "hash_absorbed SHA1 md m = (md_absorbed s_sha1_compress 64 sha1_iv (st32 md) m \<and> length (md_buf (st64 md)) = 128)"
| "hash_absorbed SHA256 md m = (md_absorbed s_sha256_compress 64 sha256_iv (st32 md) m \<and> length (md_buf (st64 md)) = 128)"
| "hash_absorbed SHA512 md m = (md_absorbed s_sha512_compress 128 sha512_iv (st64 md) m \<and> length (md_buf (st32 md)) = 64)"

text \<open>The buffers of the union have the sizes the C structures declare.\<close>

definition hash_state_wf :: "hash_state \<Rightarrow> bool" where
  "hash_state_wf md \<longleftrightarrow> length (md_buf (st32 md)) = 64 \<and> length (md_buf (st64 md)) = 128"

interpretation sha1: merkle_damgard s_sha1_compress 64 56 56 sha1_out sha1_iv
  by unfold_locales simp_all

interpretation sha256: merkle_damgard s_sha256_compress 64 56 56 sha256_out sha256_iv
  by unfold_locales simp_all

interpretation sha512: merkle_damgard s_sha512_compress 128 112 120 sha512_out sha512_iv
  by unfold_locales simp_all

lemma md_blocks_cong:
  assumes "\<And>h b. P h \<Longrightarrow> c h b = c' h b \<and> P (c h b)" "P h"
  shows "md_blocks c bs h m = md_blocks c' bs h m"
  using assms(2)
proof (induction "length m" arbitrary: h m rule: less_induct)
  case less
  show ?case
  proof (cases "bs = 0 \<or> length m < bs")
    case False
    then have "length (drop bs m) < length m" by auto
    from less.hyps [OF this] assms(1) [OF less.prems]
    have "md_blocks c bs (c h (take bs m)) (drop bs m) = md_blocks c' bs (c h (take bs m)) (drop bs m)" by blast
    with False show ?thesis
      using assms(1) [OF less.prems] by (simp add: md_blocks.simps [of _ bs h])
  qed (auto simp: md_blocks.simps [of _ bs h])
qed

lemma length_blocks: "length (sha256_block h b) = 8" "length (sha512_block h' b) = 8"
  by (simp_all add: sha256_block_def sha512_block_def sha2_block_def Let_def)

lemma length_ivs: "length sha256_iv = 8" "length sha512_iv = 8"
  by (simp_all add: sha256_iv_def sha512_iv_def)

lemma code_digests:
  "md_digest s_sha1_compress 64 56 56 sha1_out sha1_iv m = fips_sha1 m"
  "md_digest s_sha256_compress 64 56 56 sha256_out sha256_iv m = fips_sha256 m"
  "md_digest s_sha512_compress 128 112 120 sha512_out sha512_iv m = fips_sha512 m"
proof -
  show "md_digest s_sha1_compress 64 56 56 sha1_out sha1_iv m = fips_sha1 m"
    using md_blocks_cong [of "\<lambda>_. True" s_sha1_compress sha1_block]
    by (simp add: md_digest_def fips_sha1_def s_sha1_compress_eq)
  show "md_digest s_sha256_compress 64 56 56 sha256_out sha256_iv m = fips_sha256 m"
    using md_blocks_cong [of "\<lambda>h. length h = 8" s_sha256_compress sha256_block sha256_iv]
    by (simp add: md_digest_def fips_sha256_def s_sha256_compress_eq length_blocks length_ivs)
  show "md_digest s_sha512_compress 128 112 120 sha512_out sha512_iv m = fips_sha512 m"
    using md_blocks_cong [of "\<lambda>h. length h = 8" s_sha512_compress sha512_block sha512_iv]
    by (simp add: md_digest_def fips_sha512_def s_sha512_compress_eq length_blocks length_ivs)
qed

lemma length_outs [simp]: "length (sha1_out h) = 20" "length (sha256_out h) = 32" "length (sha512_out h') = 64"
  by (simp_all add: sha1_out_def sha256_out_def sha512_out_def length_concat upt_rec)

section \<open>Every hash of the table is a streaming hash\<close>

interpretation hash: stream_hash "call_hash_init alg" "call_hash_process alg" "call_hash_done alg"
  hash_state_wf "hash_absorbed alg" "fips_digest alg" "hashsize (descriptor_of alg)" for alg
proof unfold_locales
  fix s m x
  show "hash_state_wf s \<Longrightarrow> hash_absorbed alg (call_hash_init alg s) []"
    by (cases alg) (auto simp: hash_state_wf_def sha1_init_def sha256_init_def sha512_init_def
        intro!: sha1.init_absorbed sha256.init_absorbed sha512.init_absorbed)
  show "\<exists>s'. call_hash_process alg s x = (CRYPT_OK, s') \<and> hash_absorbed alg s' (m @ x)"
    if "hash_absorbed alg s m" "8 * (length m + length x) < 2 ^ 64"
  proof (cases alg)
    case SHA1 with that sha1.process [of "st32 s" m x] show ?thesis by (auto simp: sha1_process_def)
  next
    case SHA256 with that sha256.process [of "st32 s" m x] show ?thesis by (auto simp: sha256_process_def)
  next
    case SHA512 with that sha512.process [of "st64 s" m x] show ?thesis by (auto simp: sha512_process_def)
  qed
  show "\<exists>s'. call_hash_done alg s = (CRYPT_OK, s', fips_digest alg m) \<and> hash_state_wf s'"
    if "hash_absorbed alg s m"
  proof (cases alg)
    case SHA1 with that sha1.done_ok [of "st32 s" m] show ?thesis
      by (auto simp: sha1_done_def code_digests hash_state_wf_def)
  next
    case SHA256 with that sha256.done_ok [of "st32 s" m] show ?thesis
      by (auto simp: sha256_done_def code_digests hash_state_wf_def)
  next
    case SHA512 with that sha512.done_ok [of "st64 s" m] show ?thesis
      by (auto simp: sha512_done_def code_digests hash_state_wf_def)
  qed
  show "hash_absorbed alg s m \<Longrightarrow> hash_state_wf s"
    by (cases alg) (auto simp: hash_state_wf_def md_absorbed_def Let_def)
  show "length (fips_digest alg m) = hashsize (descriptor_of alg)"
    by (cases alg) (simp_all add: fips_sha1_def fips_sha256_def fips_sha512_def md_digest_def
        sha1_desc_def sha256_desc_def sha512_desc_def)
qed

section \<open>Properties\<close>

text \<open>
  C4: for each of SHA-1, SHA-256 and SHA-512, initialising a state, feeding it the
  pieces of any message of less than \<open>2^61\<close> bytes in any division, and finishing
  reports \<open>CRYPT_OK\<close> and outputs the FIPS 180-4 digest of the whole message (padding,
  length field and rounds), of the size the descriptor announces.
\<close>

theorem hash_streams_fips:
  assumes "hash_state_wf s" "8 * length (concat pieces) < 2 ^ 64"
  shows "\<exists>s'. call_hash_done alg (fold (\<lambda>x s. snd (call_hash_process alg s x)) pieces (call_hash_init alg s)) =
      (CRYPT_OK, s', fips_digest alg (concat pieces)) \<and>
    length (fips_digest alg (concat pieces)) = hashsize (descriptor_of alg)"
  using hash.digest_pieces [OF assms(2,1)] hash.digest_length by blast

definition blank_hash_state :: hash_state where
  "blank_hash_state =
     \<lparr>st32 = \<lparr>md_length = 0, md_words = replicate 8 0, md_curlen = 0, md_buf = replicate 64 0\<rparr>,
      st64 = \<lparr>md_length = 0, md_words = replicate 8 0, md_curlen = 0, md_buf = replicate 128 0\<rparr>\<rparr>"

lemma blank_hash_state_wf [simp]: "hash_state_wf blank_hash_state"
  by (simp add: hash_state_wf_def blank_hash_state_def)

theorem hash_streams_fips_witness:
  "\<exists>s'. call_hash_done SHA512 (fold (\<lambda>x s. snd (call_hash_process SHA512 s x)) [replicate 100 1, replicate 200 2]
      (call_hash_init SHA512 blank_hash_state)) = (CRYPT_OK, s', fips_digest SHA512 (replicate 100 1 @ replicate 200 2))"
  using hash_streams_fips [of blank_hash_state "[replicate 100 1, replicate 200 2]" SHA512] by auto

lemma wrapped_sum_less:
  assumes "(a :: nat) < n" "l < n" "n \<le> a + l"
  shows "(a + l) mod n < a"
proof -
  have "(a + l) mod n = a + l - n" using assms by (simp add: le_mod_geq)
  with assms show ?thesis by simp
qed

text \<open>
  The overflow guard of \<open>HASH_PROCESS\<close>: input that would carry the 64-bit bit
  counter past its range is refused with \<open>CRYPT_HASH_OVERFLOW\<close> and leaves the state
  unchanged; a buffer index outside the buffer is refused with \<open>CRYPT_INVALID_ARG\<close>.
\<close>

theorem hash_process_guards:
  "(md_curlen md > length (md_buf md) \<longrightarrow> sha512_process md inp = (CRYPT_INVALID_ARG, md)) \<and>
   (md_curlen md \<le> length (md_buf md) \<and> 8 * length inp < 2 ^ 64 \<and> unat (md_length md) + 8 * length inp \<ge> 2 ^ 64
     \<longrightarrow> sha512_process md inp = (CRYPT_HASH_OVERFLOW, md))"
proof -
  have "md_length md + of_nat (length inp) * 8 < md_length md"
    if "8 * length inp < 2 ^ 64" "unat (md_length md) + 8 * length inp \<ge> 2 ^ 64"
  proof -
    have l: "of_nat (length inp) * 8 = (of_nat (8 * length inp) :: u64)" by simp
    have u: "unat (of_nat (8 * length inp) :: u64) = 8 * length inp"
      by (rule unat_of_nat_small) (use that in simp)
    have "unat (md_length md + of_nat (8 * length inp)) < unat (md_length md)"
      unfolding unat_word_ariths u
      by (rule wrapped_sum_less) (use that unsigned_less [of "md_length md"] in simp_all)
    then show ?thesis unfolding l by (simp add: word_less_nat_alt)
  qed
  then show ?thesis by (auto simp: sha512_process_def HASH_PROCESS_def)
qed

theorem hash_process_guards_witness:
  "sha512_process \<lparr>md_length = -8, md_words = sha512_iv, md_curlen = 0, md_buf = replicate 128 0\<rparr> [1] =
     (CRYPT_HASH_OVERFLOW, \<lparr>md_length = -8, md_words = sha512_iv, md_curlen = 0, md_buf = replicate 128 0\<rparr>)"
  using hash_process_guards [of "\<lparr>md_length = -8, md_words = sha512_iv, md_curlen = 0, md_buf = replicate 128 0\<rparr>" "[1]"]
  by simp

end
