(* ===== verification/HashTest.thy ===== *)
theory HashTest
  imports AesTest Hashes
begin

text \<open>
  The self-tests of the hashes, which the descriptors point to: they succeed exactly when the FIPS 180-4 digests of their
  messages are the vectors in the code.
\<close>

section \<open>The tests\<close>

text \<open>The characters of a message in a string literal.\<close>

definition test_msg :: "string \<Rightarrow> bytes" where "test_msg s = map of_char s"

definition sha1_tests :: "(bytes \<times> bytes) list" where
  "sha1_tests =
     [(test_msg ''abc'',
       [0xa9, 0x99, 0x3e, 0x36, 0x47, 0x06, 0x81, 0x6a, 0xba, 0x3e, 0x25, 0x71, 0x78, 0x50, 0xc2, 0x6c,
        0x9c, 0xd0, 0xd8, 0x9d]),
      (test_msg ''abcdbcdecdefdefgefghfghighijhijkijkljklmklmnlmnomnopnopq'',
       [0x84, 0x98, 0x3E, 0x44, 0x1C, 0x3B, 0xD2, 0x6E, 0xBA, 0xAE, 0x4A, 0xA1, 0xF9, 0x51, 0x29, 0xE5,
        0xE5, 0x46, 0x70, 0xF1])]"

definition sha256_tests :: "(bytes \<times> bytes) list" where
  "sha256_tests =
     [(test_msg ''abc'',
       [0xba, 0x78, 0x16, 0xbf, 0x8f, 0x01, 0xcf, 0xea, 0x41, 0x41, 0x40, 0xde, 0x5d, 0xae, 0x22, 0x23,
        0xb0, 0x03, 0x61, 0xa3, 0x96, 0x17, 0x7a, 0x9c, 0xb4, 0x10, 0xff, 0x61, 0xf2, 0x00, 0x15, 0xad]),
      (test_msg ''abcdbcdecdefdefgefghfghighijhijkijkljklmklmnlmnomnopnopq'',
       [0x24, 0x8d, 0x6a, 0x61, 0xd2, 0x06, 0x38, 0xb8, 0xe5, 0xc0, 0x26, 0x93, 0x0c, 0x3e, 0x60, 0x39,
        0xa3, 0x3c, 0xe4, 0x59, 0x64, 0xff, 0x21, 0x67, 0xf6, 0xec, 0xed, 0xd4, 0x19, 0xdb, 0x06, 0xc1])]"

definition sha512_tests :: "(bytes \<times> bytes) list" where
  "sha512_tests =
     [(test_msg ''abc'',
       [0xdd, 0xaf, 0x35, 0xa1, 0x93, 0x61, 0x7a, 0xba, 0xcc, 0x41, 0x73, 0x49, 0xae, 0x20, 0x41, 0x31,
        0x12, 0xe6, 0xfa, 0x4e, 0x89, 0xa9, 0x7e, 0xa2, 0x0a, 0x9e, 0xee, 0xe6, 0x4b, 0x55, 0xd3, 0x9a,
        0x21, 0x92, 0x99, 0x2a, 0x27, 0x4f, 0xc1, 0xa8, 0x36, 0xba, 0x3c, 0x23, 0xa3, 0xfe, 0xeb, 0xbd,
        0x45, 0x4d, 0x44, 0x23, 0x64, 0x3c, 0xe8, 0x0e, 0x2a, 0x9a, 0xc9, 0x4f, 0xa5, 0x4c, 0xa4, 0x9f]),
      (test_msg ''abcdefghbcdefghicdefghijdefghijkefghijklfghijklmghijklmnhijklmnoijklmnopjklmnopqklmnopqrlmnopqrsmnopqrstnopqrstu'',
       [0x8e, 0x95, 0x9b, 0x75, 0xda, 0xe3, 0x13, 0xda, 0x8c, 0xf4, 0xf7, 0x28, 0x14, 0xfc, 0x14, 0x3f,
        0x8f, 0x77, 0x79, 0xc6, 0xeb, 0x9f, 0x7f, 0xa1, 0x72, 0x99, 0xae, 0xad, 0xb6, 0x88, 0x90, 0x18,
        0x50, 0x1d, 0x28, 0x9e, 0x49, 0x00, 0xf7, 0xe4, 0x33, 0x1b, 0x99, 0xde, 0xc4, 0xb5, 0x43, 0x3a,
        0xc7, 0xd3, 0x29, 0xee, 0xb6, 0xdd, 0x26, 0x54, 0x5e, 0x96, 0xe5, 0x5b, 0x87, 0x4b, 0xe9, 0x09])]"

text \<open>The loop, with the state and the buffer of the digest as they are on the stack.\<close>

primrec hash_test_loop :: "hash_functions \<Rightarrow> (bytes \<times> bytes) list \<Rightarrow> hash_state \<Rightarrow> crypt_rc" where
  "hash_test_loop alg [] md = CRYPT_OK"
| "hash_test_loop alg (t # ts) md =
     (let md = call_hash_init alg md;
          md = snd (call_hash_process alg md (fst t));
          (_, md, tmp) = call_hash_done alg md
      in if compare_testvector tmp (snd t) \<noteq> 0 then CRYPT_FAIL_TESTVECTOR else hash_test_loop alg ts md)"

definition sha1_test :: "hash_state \<Rightarrow> crypt_rc" where "sha1_test md = hash_test_loop SHA1 sha1_tests md"

definition sha256_test :: "hash_state \<Rightarrow> crypt_rc" where "sha256_test md = hash_test_loop SHA256 sha256_tests md"

definition sha512_test :: "hash_state \<Rightarrow> crypt_rc" where "sha512_test md = hash_test_loop SHA512 sha512_tests md"

section \<open>What they decide\<close>

lemma XMEMCMP_iff: "length xs = length ys \<Longrightarrow> XMEMCMP xs ys = 0 \<longleftrightarrow> xs = ys"
  by (induction xs ys rule: XMEMCMP.induct) (auto simp: word_uint_eq_iff)

lemma compare_testvector_iff: "compare_testvector xs ys = 0 \<longleftrightarrow> xs = ys"
  by (auto simp: compare_testvector_def XMEMCMP_iff)

lemma hash_test_loop_iff:
  assumes "hash_state_wf md" "\<forall>t \<in> set ts. 8 * length (fst t) < 2 ^ 64"
  shows "hash_test_loop alg ts md = CRYPT_OK \<longleftrightarrow> (\<forall>(m, d) \<in> set ts. fips_digest alg m = d)"
  using assms
proof (induction ts arbitrary: md)
  case (Cons t ts)
  have a: "hash_absorbed alg (call_hash_init alg md) []" using Cons.prems(1) hash.init by blast
  obtain s1 where s1: "call_hash_process alg (call_hash_init alg md) (fst t) = (CRYPT_OK, s1)" "hash_absorbed alg s1 (fst t)"
    using hash.process [OF a, of "fst t"] Cons.prems(2) by auto
  obtain s2 where s2: "call_hash_done alg s1 = (CRYPT_OK, s2, fips_digest alg (fst t))" "hash_state_wf s2"
    using hash.finish [OF s1(2)] by blast
  then show ?case using s1(1) Cons.IH [OF s2(2)] Cons.prems(2) by (auto simp: compare_testvector_iff Let_def)
qed simp

lemma hash_tests_iff:
  assumes "hash_state_wf md"
  shows "sha1_test md = CRYPT_OK \<longleftrightarrow> (\<forall>(m, d) \<in> set sha1_tests. fips_sha1 m = d)"
    "sha256_test md = CRYPT_OK \<longleftrightarrow> (\<forall>(m, d) \<in> set sha256_tests. fips_sha256 m = d)"
    "sha512_test md = CRYPT_OK \<longleftrightarrow> (\<forall>(m, d) \<in> set sha512_tests. fips_sha512 m = d)"
  using hash_test_loop_iff [OF assms, of sha1_tests SHA1] hash_test_loop_iff [OF assms, of sha256_tests SHA256]
    hash_test_loop_iff [OF assms, of sha512_tests SHA512]
  by (simp_all add: sha1_test_def sha256_test_def sha512_test_def sha1_tests_def sha256_tests_def sha512_tests_def test_msg_def)

end
