(* ===== verification/Cbc.thy ===== *)
theory Cbc
  imports AesSpec Registry
begin

text \<open>
  CBC mode over the cipher table: \<open>cbc_start.c\<close>, \<open>cbc_encrypt.c\<close>, \<open>cbc_decrypt.c\<close> and
  \<open>cbc_done.c\<close>.  The build defines \<open>LTC_NO_ASM\<close>, which takes \<open>LTC_FAST\<close> away, so the
  loops over single bytes are the ones compiled and the block length need not be a
  multiple of a word.  The block loops take
  the block function that the descriptor holds; what they need of it is the
  locale \<open>block_cipher\<close>, which AES provides.  The accelerated CBC entries of the
  descriptors are \<open>NULL\<close> for every cipher of the repository.
\<close>

section \<open>The code\<close>

definition MAXBLOCKSIZE :: nat where "MAXBLOCKSIZE = 144"

record 'k symmetric_CBC =
  cbc_cipher :: int
  cbc_blocklen :: int
  cbc_IV :: bytes
  cbc_key :: 'k

text \<open>Calls through the function pointers of a descriptor.\<close>

fun call_setup :: "cipher_functions \<Rightarrow> bytes \<Rightarrow> int \<Rightarrow> int \<Rightarrow> rijndael_key \<Rightarrow> crypt_rc + rijndael_key" where
  "call_setup Rijndael = rijndael_setup"

fun call_ecb_encrypt :: "cipher_functions \<Rightarrow> bytes \<Rightarrow> rijndael_key \<Rightarrow> crypt_rc + bytes" where
  "call_ecb_encrypt Rijndael = rijndael_ecb_encrypt"

fun call_ecb_decrypt :: "cipher_functions \<Rightarrow> bytes \<Rightarrow> rijndael_key \<Rightarrow> crypt_rc + bytes" where
  "call_ecb_decrypt Rijndael = rijndael_ecb_decrypt"

fun call_done :: "cipher_functions \<Rightarrow> rijndael_key \<Rightarrow> rijndael_key" where
  "call_done Rijndael = rijndael_done"

definition cbc_start :: "cipher_descriptor table \<Rightarrow> int \<Rightarrow> bytes \<Rightarrow> bytes \<Rightarrow> int \<Rightarrow> int \<Rightarrow>
    rijndael_key symmetric_CBC \<Rightarrow> crypt_rc \<times> rijndael_key symmetric_CBC" where
  "cbc_start tab cipher IV key keylen num_rounds cbc =
     (if cipher_is_valid cipher tab \<noteq> CRYPT_OK then (cipher_is_valid cipher tab, cbc)
      else let d = the (tab ! nat cipher) in
        case call_setup (cipher_calls d) key keylen num_rounds (cbc_key cbc) of
          Inl err \<Rightarrow> (err, cbc)
        | Inr k \<Rightarrow> (CRYPT_OK,
            cbc\<lparr>cbc_key := k, cbc_blocklen := block_length d, cbc_cipher := cipher,
                cbc_IV := buf_write (cbc_IV cbc) 0 (take (nat (block_length d)) IV)\<rparr>))"

text \<open>
  The loop \<open>while (len)\<close>, \<open>len\<close> a multiple of the block length: \<open>n\<close> blocks remain.
  The result is the status, the bytes stored in \<open>ct\<close>, and the updated state.
\<close>

primrec cbc_encrypt_blocks :: "(bytes \<Rightarrow> 'k \<Rightarrow> crypt_rc + bytes) \<Rightarrow> nat \<Rightarrow> bytes \<Rightarrow>
    'k symmetric_CBC \<Rightarrow> crypt_rc \<times> bytes \<times> 'k symmetric_CBC" where
  "cbc_encrypt_blocks E 0 pt cbc = (CRYPT_OK, [], cbc)"
| "cbc_encrypt_blocks E (Suc n) pt cbc =
     (let b = nat (cbc_blocklen cbc);
          iv = buf_write (cbc_IV cbc) 0 (xor_bytes (take b (cbc_IV cbc)) (take b pt)) in
      case E (take b iv) (cbc_key cbc) of
        Inl err \<Rightarrow> (err, [], cbc\<lparr>cbc_IV := iv\<rparr>)
      | Inr ct \<Rightarrow>
          (let (rc, out, cbc') =
             cbc_encrypt_blocks E n (drop b pt) (cbc\<lparr>cbc_IV := buf_write iv 0 ct\<rparr>)
           in (rc, ct @ out, cbc')))"

definition cbc_encrypt :: "cipher_descriptor table \<Rightarrow> bytes \<Rightarrow> nat \<Rightarrow>
    rijndael_key symmetric_CBC \<Rightarrow> crypt_rc \<times> bytes \<times> rijndael_key symmetric_CBC" where
  "cbc_encrypt tab pt len cbc =
     (if cipher_is_valid (cbc_cipher cbc) tab \<noteq> CRYPT_OK
      then (cipher_is_valid (cbc_cipher cbc) tab, [], cbc)
      else if cbc_blocklen cbc < 1 \<or> cbc_blocklen cbc > int MAXBLOCKSIZE then (CRYPT_INVALID_ARG, [], cbc)
      else if len mod nat (cbc_blocklen cbc) \<noteq> 0 then (CRYPT_INVALID_ARG, [], cbc)
      else cbc_encrypt_blocks (call_ecb_encrypt (cipher_calls (the (tab ! nat (cbc_cipher cbc)))))
             (len div nat (cbc_blocklen cbc)) pt cbc)"

text \<open>Decryption stores \<open>tmp XOR IV\<close> in \<open>pt\<close> and the ciphertext block in \<open>IV\<close>.\<close>

primrec cbc_decrypt_blocks :: "(bytes \<Rightarrow> 'k \<Rightarrow> crypt_rc + bytes) \<Rightarrow> nat \<Rightarrow> bytes \<Rightarrow>
    'k symmetric_CBC \<Rightarrow> crypt_rc \<times> bytes \<times> 'k symmetric_CBC" where
  "cbc_decrypt_blocks D 0 ct cbc = (CRYPT_OK, [], cbc)"
| "cbc_decrypt_blocks D (Suc n) ct cbc =
     (let b = nat (cbc_blocklen cbc) in
      case D (take b ct) (cbc_key cbc) of
        Inl err \<Rightarrow> (err, [], cbc)
      | Inr tmp \<Rightarrow>
          (let pt = xor_bytes (take b (cbc_IV cbc)) tmp;
               (rc, out, cbc') =
                 cbc_decrypt_blocks D n (drop b ct) (cbc\<lparr>cbc_IV := buf_write (cbc_IV cbc) 0 (take b ct)\<rparr>)
           in (rc, pt @ out, cbc')))"

definition cbc_decrypt :: "cipher_descriptor table \<Rightarrow> bytes \<Rightarrow> nat \<Rightarrow>
    rijndael_key symmetric_CBC \<Rightarrow> crypt_rc \<times> bytes \<times> rijndael_key symmetric_CBC" where
  "cbc_decrypt tab ct len cbc =
     (if cipher_is_valid (cbc_cipher cbc) tab \<noteq> CRYPT_OK
      then (cipher_is_valid (cbc_cipher cbc) tab, [], cbc)
      else if cbc_blocklen cbc < 1 \<or> cbc_blocklen cbc > int MAXBLOCKSIZE \<or> cbc_blocklen cbc > 16
      then (CRYPT_INVALID_ARG, [], cbc)
      else if len mod nat (cbc_blocklen cbc) \<noteq> 0 then (CRYPT_INVALID_ARG, [], cbc)
      else cbc_decrypt_blocks (call_ecb_decrypt (cipher_calls (the (tab ! nat (cbc_cipher cbc)))))
             (len div nat (cbc_blocklen cbc)) ct cbc)"

definition cbc_done :: "cipher_descriptor table \<Rightarrow> rijndael_key symmetric_CBC \<Rightarrow>
    crypt_rc \<times> rijndael_key symmetric_CBC" where
  "cbc_done tab cbc =
     (if cipher_is_valid (cbc_cipher cbc) tab \<noteq> CRYPT_OK then (cipher_is_valid (cbc_cipher cbc) tab, cbc)
      else (CRYPT_OK, cbc\<lparr>cbc_key := call_done (cipher_calls (the (tab ! nat (cbc_cipher cbc)))) (cbc_key cbc)\<rparr>))"

section \<open>The mode over any block cipher\<close>

text \<open>Textbook CBC: each block is encrypted after exclusive or with the previous ciphertext.\<close>

primrec cbc_chain :: "(bytes \<Rightarrow> bytes) \<Rightarrow> nat \<Rightarrow> bytes \<Rightarrow> nat \<Rightarrow> bytes \<Rightarrow> bytes" where
  "cbc_chain e b iv 0 pt = []"
| "cbc_chain e b iv (Suc n) pt =
     (let c = e (xor_bytes iv (take b pt)) in c @ cbc_chain e b c n (drop b pt))"

text \<open>The state of a chain: usable key, block length of the cipher, IV buffer large enough.\<close>

locale block_cipher =
  fixes E D :: "bytes \<Rightarrow> 'k \<Rightarrow> crypt_rc + bytes"
    and ok :: "'k \<Rightarrow> bool"
    and bl :: nat
  assumes E_D: "ok k \<Longrightarrow> length x = bl \<Longrightarrow> \<exists>c. E x k = Inr c \<and> length c = bl \<and> D c k = Inr x"
    and bl_pos: "0 < bl"
begin

definition ready :: "'k symmetric_CBC \<Rightarrow> bool" where
  "ready cbc \<longleftrightarrow> ok (cbc_key cbc) \<and> cbc_blocklen cbc = int bl \<and> bl \<le> length (cbc_IV cbc)"

lemma buf_write_take: "length x = bl \<Longrightarrow> bl \<le> length iv \<Longrightarrow> take bl (buf_write iv 0 x) = x"
  by (simp add: buf_write_def)

lemma ready_step: "ready cbc \<Longrightarrow> length c = bl \<Longrightarrow> ready (cbc\<lparr>cbc_IV := buf_write (cbc_IV cbc) 0 c\<rparr>)"
  by (simp add: ready_def len_simps)

lemma buf_write_twice: "length x = length y \<Longrightarrow> buf_write (buf_write iv 0 x) 0 y = buf_write iv 0 y"
  by (simp add: buf_write_def)

text \<open>One turn of either loop in a ready state.\<close>

lemma encrypt_step:
  assumes "ready cbc" "bl \<le> length pt" "E (xor_bytes (take bl (cbc_IV cbc)) (take bl pt)) (cbc_key cbc) = Inr c"
    "length c = bl"
    and r: "cbc_encrypt_blocks E n (drop bl pt) (cbc\<lparr>cbc_IV := buf_write (cbc_IV cbc) 0 c\<rparr>) = (rc, out, cbc')"
  shows "cbc_encrypt_blocks E (Suc n) pt cbc = (rc, c @ out, cbc')"
  using assms by (simp add: ready_def buf_write_take buf_write_twice Let_def)

lemma length_chain:
  "ok k \<Longrightarrow> length pt = n * bl \<Longrightarrow> length iv = bl \<Longrightarrow>
   length (cbc_chain (\<lambda>x. projr (E x k)) bl iv n pt) = n * bl"
proof (induction n arbitrary: pt iv)
  case (Suc n)
  then obtain c where "E (xor_bytes iv (take bl pt)) k = Inr c" "length c = bl"
    using E_D [of k "xor_bytes iv (take bl pt)"] by auto
  with Suc show ?case by (simp add: Let_def)
qed simp

text \<open>The loop produces the chain and leaves its last block, or the old IV when there is none, as the IV.\<close>

lemma encrypt_blocks_chain:
  assumes "ready cbc" "length pt = n * bl"
  defines "out \<equiv> cbc_chain (\<lambda>x. projr (E x (cbc_key cbc))) bl (take bl (cbc_IV cbc)) n pt"
  shows "cbc_encrypt_blocks E n pt cbc =
      (CRYPT_OK, out, cbc\<lparr>cbc_IV := buf_write (cbc_IV cbc) 0 (drop (n * bl) (take bl (cbc_IV cbc) @ out))\<rparr>)"
  using assms(1,2) unfolding out_def
proof (induction n arbitrary: pt cbc)
  case 0
  then show ?case by (simp add: ready_def buf_write_def)
next
  case (Suc n)
  let ?x = "xor_bytes (take bl (cbc_IV cbc)) (take bl pt)" and ?k = "cbc_key cbc"
  have x: "length ?x = bl" "bl \<le> length pt" using Suc.prems by (simp_all add: ready_def)
  obtain c where c: "E ?x ?k = Inr c" "length c = bl"
    using E_D [OF _ x(1)] Suc.prems(1) by (auto simp: ready_def)
  let ?cbc = "cbc\<lparr>cbc_IV := buf_write (cbc_IV cbc) 0 c\<rparr>"
  let ?rest = "cbc_chain (\<lambda>x. projr (E x ?k)) bl c n (drop bl pt)"
  have t: "take bl (buf_write (cbc_IV cbc) 0 c) = c"
    using c(2) Suc.prems(1) by (simp add: buf_write_take ready_def)
  have l: "length (drop (n * bl) (c @ ?rest)) = length c"
    using length_chain [of ?k "drop bl pt" n c] Suc.prems c(2) by (simp add: ready_def)
  have "cbc_encrypt_blocks E n (drop bl pt) ?cbc =
      (CRYPT_OK, ?rest, cbc\<lparr>cbc_IV := buf_write (cbc_IV cbc) 0 (drop (n * bl) (c @ ?rest))\<rparr>)"
    using Suc.IH [OF ready_step [OF Suc.prems(1) c(2)], of "drop bl pt"] Suc.prems(2) l
    by (simp add: t buf_write_twice)
  moreover have "drop (Suc n * bl) (take bl (cbc_IV cbc) @ c @ ?rest) = drop (n * bl) (c @ ?rest)"
    using Suc.prems(1) by (simp add: ready_def)
  ultimately show ?case
    using encrypt_step [OF Suc.prems(1) x(2) c] c(1) by (simp add: Let_def)
qed

lemma decrypt_chain:
  assumes "ready cbc" "length pt = n * bl" "take bl (cbc_IV cbc) = iv"
  shows "\<exists>cbc'. cbc_decrypt_blocks D n (cbc_chain (\<lambda>x. projr (E x (cbc_key cbc))) bl iv n pt) cbc =
      (CRYPT_OK, pt, cbc')"
  using assms
proof (induction n arbitrary: pt cbc iv)
  case (Suc n)
  let ?x = "xor_bytes iv (take bl pt)" and ?k = "cbc_key cbc"
  have x: "length ?x = bl" using Suc.prems by (auto simp: ready_def)
  obtain c where c: "E ?x ?k = Inr c" "length c = bl" "D c ?k = Inr ?x"
    using E_D [OF _ x] Suc.prems(1) by (auto simp: ready_def)
  let ?cbc = "cbc\<lparr>cbc_IV := buf_write (cbc_IV cbc) 0 c\<rparr>"
  let ?rest = "cbc_chain (\<lambda>x. projr (E x ?k)) bl c n (drop bl pt)"
  have t: "take bl (cbc_IV ?cbc) = c"
    using c(2) Suc.prems(1) by (simp add: buf_write_take ready_def)
  from Suc.IH [OF ready_step [OF Suc.prems(1) c(2)] _ t, of "drop bl pt"] Suc.prems(2)
  obtain cbc' where "cbc_decrypt_blocks D n ?rest ?cbc = (CRYPT_OK, drop bl pt, cbc')" by auto
  moreover have "xor_bytes iv ?x = take bl pt"
    using Suc.prems by (auto simp: ready_def)
  ultimately show ?case
    using c Suc.prems by (simp add: ready_def Let_def)
qed simp

text \<open>Two calls in a row are one call on the concatenation.\<close>

lemma encrypt_blocks_append:
  assumes "ready cbc" "length a = m * bl"
    and "cbc_encrypt_blocks E m a cbc = (CRYPT_OK, ca, cbc1)"
  shows "cbc_encrypt_blocks E (m + n) (a @ b) cbc =
    (case cbc_encrypt_blocks E n b cbc1 of (rc, cb, cbc2) \<Rightarrow> (rc, ca @ cb, cbc2))"
  using assms
proof (induction m arbitrary: a cbc ca)
  case (Suc m)
  let ?x = "xor_bytes (take bl (cbc_IV cbc)) (take bl a)"
  have x: "length ?x = bl" "bl \<le> length a" using Suc.prems(1,2) by (simp_all add: ready_def)
  obtain c where c: "E ?x (cbc_key cbc) = Inr c" "length c = bl"
    using E_D [OF _ x(1)] Suc.prems(1) by (auto simp: ready_def)
  let ?cbc = "cbc\<lparr>cbc_IV := buf_write (cbc_IV cbc) 0 c\<rparr>"
  obtain rc out cbc' where r: "cbc_encrypt_blocks E m (drop bl a) ?cbc = (rc, out, cbc')"
    by (cases "cbc_encrypt_blocks E m (drop bl a) ?cbc")
  have 1: "rc = CRYPT_OK" "ca = c @ out" "cbc' = cbc1"
    using encrypt_step [OF Suc.prems(1) x(2) c r] Suc.prems(3) by auto
  have 2: "cbc_encrypt_blocks E (m + n) (drop bl (a @ b)) ?cbc =
      (case cbc_encrypt_blocks E n b cbc1 of (rc, cb, cbc2) \<Rightarrow> (rc, out @ cb, cbc2))"
    using Suc.IH [OF ready_step [OF Suc.prems(1) c(2)], of "drop bl a" out] r 1 Suc.prems(2) x(2) by simp
  obtain rc3 out3 cbc3 where 3: "cbc_encrypt_blocks E n b cbc1 = (rc3, out3, cbc3)"
    by (cases "cbc_encrypt_blocks E n b cbc1")
  have "cbc_encrypt_blocks E (Suc (m + n)) (a @ b) cbc = (rc3, c @ (out @ out3), cbc3)"
    by (rule encrypt_step [OF Suc.prems(1)]) (use x c 2 3 in simp_all)
  then show ?case using 3 1 by simp
qed (auto split: prod.splits)

end

text \<open>AES with the key of a successful \<open>rijndael_setup\<close>.\<close>

definition aes_key_ok :: "rijndael_key \<Rightarrow> bool" where
  "aes_key_ok k \<longleftrightarrow> key_wf k \<and> (\<exists>key keylen num_rounds skey.
     key_wf skey \<and> rijndael_setup key keylen num_rounds skey = Inr k)"

lemma aes_key_okI: "rijndael_setup key keylen num_rounds skey = Inr k \<Longrightarrow> key_wf skey \<Longrightarrow> aes_key_ok k"
  using setup_wf(1) by (auto simp: aes_key_ok_def)

interpretation aes: block_cipher rijndael_ecb_encrypt rijndael_ecb_decrypt aes_key_ok 16
  by unfold_locales (auto simp: aes_key_ok_def intro: block_round_trip)

section \<open>CBC with AES through the cipher table\<close>

lemma rijndael_setup_not_ok: "rijndael_setup key keylen nr skey \<noteq> Inl CRYPT_OK"
  by (simp add: rijndael_setup_def Let_def)

lemma cbc_start_ready:
  assumes "cbc_start tab (int i) IV key keylen nr c0 = (CRYPT_OK, c)" "tab ! i = Some d"
    "cipher_calls d = Rijndael" "block_length d = 16" "key_wf (cbc_key c0)"
    "length (cbc_IV c0) = MAXBLOCKSIZE" "length IV = 16"
  obtains "aes.ready c" "take 16 (cbc_IV c) = IV" "cbc_cipher c = int i"
    "rijndael_setup key keylen nr (cbc_key c0) = Inr (cbc_key c)" "i < TAB_SIZE"
proof -
  from assms(1-4) obtain k where k: "rijndael_setup key keylen nr (cbc_key c0) = Inr k" "i < TAB_SIZE"
    and c: "c = c0\<lparr>cbc_key := k, cbc_blocklen := 16, cbc_cipher := int i,
                cbc_IV := buf_write (cbc_IV c0) 0 (take 16 IV)\<rparr>"
    by (auto simp: cbc_start_def cipher_is_valid_def rijndael_setup_not_ok split: if_splits sum.splits)
  show thesis
    by (rule that)
      (use k c assms(5-7) in \<open>auto simp: aes.ready_def aes_key_okI MAXBLOCKSIZE_def len_simps aes.buf_write_take\<close>)
qed

lemma cbc_encrypt_aes:
  assumes "aes.ready c" "cbc_cipher c = int i" "i < TAB_SIZE" "tab ! i = Some d" "cipher_calls d = Rijndael"
    "length pt = 16 * n"
  shows "cbc_encrypt tab pt (length pt) c = cbc_encrypt_blocks rijndael_ecb_encrypt n pt c"
  using assms by (simp add: cbc_encrypt_def cipher_is_valid_def aes.ready_def MAXBLOCKSIZE_def)

lemma cbc_decrypt_aes:
  assumes "aes.ready c" "cbc_cipher c = int i" "i < TAB_SIZE" "tab ! i = Some d" "cipher_calls d = Rijndael"
    "length ct = 16 * n"
  shows "cbc_decrypt tab ct (length ct) c = cbc_decrypt_blocks rijndael_ecb_decrypt n ct c"
  using assms by (simp add: cbc_decrypt_def cipher_is_valid_def aes.ready_def MAXBLOCKSIZE_def)

lemma cbc_chain_cong:
  "(\<And>x. length x = b \<Longrightarrow> length (e x) = b \<and> e x = e' x) \<Longrightarrow> length pt = n * b \<Longrightarrow> length iv = b \<Longrightarrow>
   cbc_chain e b iv n pt = cbc_chain e' b iv n pt"
proof (induction n arbitrary: iv pt)
  case (Suc n)
  let ?x = "xor_bytes iv (take b pt)"
  have "length ?x = b" using Suc.prems(2,3) by simp
  then have x: "length (e ?x) = b" "e ?x = e' ?x" using Suc.prems(1) by blast+
  have "cbc_chain e b (e ?x) n (drop b pt) = cbc_chain e' b (e ?x) n (drop b pt)"
    by (rule Suc.IH [OF Suc.prems(1)]) (use Suc.prems(2,3) x(1) in simp_all)
  then show ?case by (simp add: Let_def x(2))
qed simp

lemma cbc_encrypt_spec:
  assumes "aes.ready c" "take 16 (cbc_IV c) = IV" "cbc_cipher c = int i" "i < TAB_SIZE"
    "tab ! i = Some d" "cipher_calls d = Rijndael"
    "rijndael_setup key keylen nr skey = Inr (cbc_key c)" "key_wf skey" "length key = nat keylen"
    "length pt = 16 * n"
  shows "cbc_encrypt tab pt (length pt) c =
    (let ct = cbc_chain (aes_spec key) 16 IV n pt
     in (CRYPT_OK, ct, c\<lparr>cbc_IV := drop (length pt) (IV @ ct) @ drop 16 (cbc_IV c)\<rparr>))"
proof -
  have eq: "projr (rijndael_ecb_encrypt x (cbc_key c)) = aes_spec key x" if "length x = 16" for x
    using encrypt_is_fips [OF assms(7-9) that] by simp
  have len: "length (aes_spec key x) = 16" if "length x = 16" for x
    using aes.E_D [of "cbc_key c" x] encrypt_is_fips [OF assms(7-9) that] that assms(1)
    by (auto simp: aes.ready_def)
  have iv: "length IV = 16" using assms(1,2) by (auto simp: aes.ready_def)
  then have ch: "cbc_chain (\<lambda>x. projr (rijndael_ecb_encrypt x (cbc_key c))) 16 IV n pt =
      cbc_chain (aes_spec key) 16 IV n pt"
    by (intro cbc_chain_cong) (simp_all add: eq len assms(10))
  have l: "length (cbc_chain (aes_spec key) 16 IV n pt) = n * 16"
    using aes.length_chain [of "cbc_key c" pt n IV] assms(1,10) iv by (simp add: ch aes.ready_def)
  have "length (drop (n * 16) (IV @ cbc_chain (aes_spec key) 16 IV n pt)) = 16"
    using l iv by simp
  then have "buf_write (cbc_IV c) 0 (drop (n * 16) (IV @ cbc_chain (aes_spec key) 16 IV n pt)) =
      drop (n * 16) (IV @ cbc_chain (aes_spec key) 16 IV n pt) @ drop 16 (cbc_IV c)"
    by (simp only: buf_write_0)
  moreover have "length pt = n * 16" using assms(10) by simp
  ultimately show ?thesis
    using aes.encrypt_blocks_chain [OF assms(1), of pt n] assms(2)
    unfolding cbc_encrypt_aes [OF assms(1,3-6,10)] by (simp only: ch Let_def)
qed

section \<open>Properties\<close>

text \<open>
  C3: CBC encryption started with an AES key and a 16-byte IV turns a plaintext of
  \<open>n\<close> blocks into the textbook CBC chain of the FIPS-197 cipher and leaves the last
  16 bytes of IV and ciphertext as the IV of the next call, so that encrypting in parts is
  encrypting the whole; a plaintext whose
  length is not a multiple of 16 is refused with \<open>CRYPT_INVALID_ARG\<close>, no output and no change.
\<close>

theorem cbc_encrypt_is_chain:
  assumes "cbc_start tab (int i) IV key keylen nr c0 = (CRYPT_OK, c)" "tab ! i = Some rijndael_desc"
    "key_wf (cbc_key c0)" "length (cbc_IV c0) = MAXBLOCKSIZE" "length IV = 16" "length key = nat keylen"
  shows "cbc_encrypt tab pt (length pt) c =
    (if length pt mod 16 = 0
     then let ct = cbc_chain (aes_spec key) 16 IV (length pt div 16) pt
          in (CRYPT_OK, ct, c\<lparr>cbc_IV := drop (length pt) (IV @ ct) @ drop 16 (cbc_IV c)\<rparr>)
     else (CRYPT_INVALID_ARG, [], c))"
proof -
  have d: "cipher_calls rijndael_desc = Rijndael" "block_length rijndael_desc = 16"
    by (simp_all add: rijndael_desc_def)
  from cbc_start_ready [OF assms(1,2) d assms(3-5)]
  have r: "aes.ready c" "take 16 (cbc_IV c) = IV" "cbc_cipher c = int i"
    "rijndael_setup key keylen nr (cbc_key c0) = Inr (cbc_key c)" "i < TAB_SIZE" by auto
  show ?thesis
  proof (cases "length pt mod 16 = 0")
    case True
    then have "length pt = 16 * (length pt div 16)" by auto
    from cbc_encrypt_spec [OF r(1-3,5) assms(2) d(1) r(4) assms(3,6) this] True show ?thesis by simp
  next
    case False
    with r assms(2) show ?thesis
      by (simp add: cbc_encrypt_def cipher_is_valid_def aes.ready_def MAXBLOCKSIZE_def)
  qed
qed

definition fresh_cbc :: "rijndael_key symmetric_CBC" where
  "fresh_cbc = \<lparr>cbc_cipher = 0, cbc_blocklen = 0, cbc_IV = replicate 144 0, cbc_key = zero_key\<rparr>"

lemma cbc_start_fresh:
  "keylen \<in> {16, 24, 32} \<Longrightarrow>
   \<exists>c. cbc_start (cipher_descriptor0[0 := Some rijndael_desc]) 0 IV key keylen 0 fresh_cbc = (CRYPT_OK, c)"
  using rijndael_setup_succeeds [of keylen key zero_key]
  by (auto simp: cbc_start_def cipher_is_valid_def TAB_SIZE_def cipher_descriptor0_def rijndael_desc_def fresh_cbc_def)

lemma slot0 [simp]: "cipher_descriptor0[0 := Some d] ! 0 = Some d"
  by (simp add: cipher_descriptor0_def TAB_SIZE_def)

theorem cbc_encrypt_is_chain_witness:
  "\<exists>c. cbc_start (cipher_descriptor0[0 := Some rijndael_desc]) 0 (replicate 16 3) (replicate 32 1) 32 0 fresh_cbc
       = (CRYPT_OK, c) \<and>
     (let ct = cbc_chain (aes_spec (replicate 32 1)) 16 (replicate 16 3) 3 (replicate 48 5)
      in cbc_encrypt (cipher_descriptor0[0 := Some rijndael_desc]) (replicate 48 5) 48 c =
        (CRYPT_OK, ct, c\<lparr>cbc_IV := drop 48 (replicate 16 3 @ ct) @ drop 16 (cbc_IV c)\<rparr>))"
proof -
  obtain c where c: "cbc_start (cipher_descriptor0[0 := Some rijndael_desc]) (int 0) (replicate 16 3)
      (replicate 32 1) 32 0 fresh_cbc = (CRYPT_OK, c)" using cbc_start_fresh [of 32] by auto
  show ?thesis using c cbc_encrypt_is_chain [OF c, where pt = "replicate 48 5"]
    by (auto simp: fresh_cbc_def MAXBLOCKSIZE_def Let_def)
qed

text \<open>
  CBC decryption inverts CBC encryption: two contexts started with the same AES
  key and IV, whatever they held before, encrypt and decrypt any whole number of
  blocks back to the plaintext, and the ciphertext is as long as the plaintext.
\<close>

theorem cbc_decrypt_encrypt:
  assumes "cbc_start tab (int i) IV key keylen nr c0 = (CRYPT_OK, c)"
    "cbc_start tab (int i) IV key keylen nr d0 = (CRYPT_OK, d)" "tab ! i = Some rijndael_desc"
    "key_wf (cbc_key c0)" "cbc_key d0 = cbc_key c0" "length (cbc_IV c0) = MAXBLOCKSIZE" "length (cbc_IV d0) = MAXBLOCKSIZE"
    "length IV = 16" "length pt mod 16 = 0"
  shows "\<exists>ct c' d'. cbc_encrypt tab pt (length pt) c = (CRYPT_OK, ct, c') \<and> length ct = length pt \<and>
    cbc_decrypt tab ct (length ct) d = (CRYPT_OK, pt, d')"
proof -
  have d: "cipher_calls rijndael_desc = Rijndael" "block_length rijndael_desc = 16"
    by (simp_all add: rijndael_desc_def)
  obtain n where n: "length pt = 16 * n" using assms(9) by (auto simp: mod_eq_0_iff_dvd)
  from cbc_start_ready [OF assms(1,3) d assms(4,6,8)]
  have c: "aes.ready c" "take 16 (cbc_IV c) = IV" "cbc_cipher c = int i" "i < TAB_SIZE"
    "rijndael_setup key keylen nr (cbc_key c0) = Inr (cbc_key c)" by auto
  from cbc_start_ready [OF assms(2,3) d _ assms(7,8)] assms(4,5)
  have d': "aes.ready d" "take 16 (cbc_IV d) = IV" "cbc_cipher d = int i"
    "rijndael_setup key keylen nr (cbc_key c0) = Inr (cbc_key d)" by auto
  then have k: "cbc_key d = cbc_key c" using c(5) by simp
  let ?ct = "cbc_chain (\<lambda>x. projr (rijndael_ecb_encrypt x (cbc_key d))) 16 IV n pt"
  have "length ?ct = 16 * n"
    using aes.length_chain [of "cbc_key d" pt n IV] n assms(8) d'(1) by (simp add: aes.ready_def)
  moreover obtain c' where "cbc_encrypt tab pt (length pt) c = (CRYPT_OK, ?ct, c')"
    using aes.encrypt_blocks_chain [OF c(1), of pt n] c n cbc_encrypt_aes [OF c(1,3,4) assms(3) _ n] d(1)
    by (auto simp: k)
  moreover obtain d'' where "cbc_decrypt_blocks rijndael_ecb_decrypt n ?ct d = (CRYPT_OK, pt, d'')"
    using aes.decrypt_chain [OF d'(1) _ d'(2), of pt n] n by auto
  ultimately show ?thesis
    using n cbc_decrypt_aes [OF d'(1,3) c(4) assms(3) d(1), of ?ct n] by auto
qed

theorem cbc_decrypt_encrypt_witness:
  "\<exists>c ct c' d'. cbc_start (cipher_descriptor0[0 := Some rijndael_desc]) 0 (replicate 16 3) (replicate 32 1) 32 0 fresh_cbc
       = (CRYPT_OK, c) \<and>
     cbc_encrypt (cipher_descriptor0[0 := Some rijndael_desc]) (replicate 48 5) 48 c = (CRYPT_OK, ct, c') \<and>
     cbc_decrypt (cipher_descriptor0[0 := Some rijndael_desc]) ct 48 c = (CRYPT_OK, replicate 48 5, d')"
proof -
  obtain c where c: "cbc_start (cipher_descriptor0[0 := Some rijndael_desc]) (int 0) (replicate 16 3)
      (replicate 32 1) 32 0 fresh_cbc = (CRYPT_OK, c)" using cbc_start_fresh [of 32] by auto
  show ?thesis using c cbc_decrypt_encrypt [OF c c, where pt = "replicate 48 5"]
    by (auto simp: fresh_cbc_def MAXBLOCKSIZE_def)
qed

end
