(* ===== verification/Hmac.thy ===== *)
theory Hmac
  imports Hashes Cbc
begin

text \<open>
  \<open>hash_memory.c\<close> and HMAC (\<open>hmac_init.c\<close>, \<open>hmac_process.c\<close>, \<open>hmac_done.c\<close>,
  \<open>hmac_memory.c\<close>) over the hash table.  Each \<open>XMALLOC\<close> takes the next answer of a
  supply of allocation outcomes; \<open>u\<close> is what uninitialised heap memory holds.
  The specification is RFC 2104.  The \<open>hmac_block\<close> entry is \<open>NULL\<close> in every
  descriptor of the repository.
\<close>

unbundle bit_operations_syntax

section \<open>The code\<close>

type_synonym heap = "nat \<Rightarrow> bool"

definition xmalloc :: "heap \<Rightarrow> bool \<times> heap" where
  "xmalloc m = (m 0, \<lambda>n. m (Suc n))"

record hmac_state =
  hmac_md :: hash_state
  hmac_hash :: int
  hmac_key :: bytes

definition hash_memory :: "hash_descriptor table \<Rightarrow> hash_state \<Rightarrow> heap \<Rightarrow> int \<Rightarrow> bytes \<Rightarrow> bytes \<Rightarrow> nat \<Rightarrow>
    crypt_rc \<times> heap \<times> bytes \<times> nat" where
  "hash_memory tab u m hash inp out outlen =
     (if hash_is_valid hash tab \<noteq> CRYPT_OK then (hash_is_valid hash tab, m, out, outlen)
      else let d = the (tab ! nat hash) in
        if outlen < hashsize d then (CRYPT_BUFFER_OVERFLOW, m, out, hashsize d)
        else let (md_ok, m) = xmalloc m in
          if \<not> md_ok then (CRYPT_MEM, m, out, outlen)
          else let md = call_hash_init (hash_calls d) u;
                   (err, md) = call_hash_process (hash_calls d) md inp in
            if err \<noteq> CRYPT_OK then (err, m, out, outlen)
            else let (err, md, dg) = call_hash_done (hash_calls d) md
                 in (err, m, buf_write out 0 dg, hashsize d))"

definition hmac_init :: "hash_descriptor table \<Rightarrow> hash_state \<Rightarrow> heap \<Rightarrow> hmac_state \<Rightarrow> int \<Rightarrow> bytes \<Rightarrow>
    crypt_rc \<times> heap \<times> hmac_state" where
  "hmac_init tab u m hmac hash key =
     (if hash_is_valid hash tab \<noteq> CRYPT_OK then (hash_is_valid hash tab, m, hmac)
      else let d = the (tab ! nat hash);
               bs = hash_blocksize d;
               hmac = hmac\<lparr>hmac_hash := hash\<rparr> in
        if length key = 0 then (CRYPT_INVALID_KEYSIZE, m, hmac)
        else let (buf_ok, m) = xmalloc m in
          if \<not> buf_ok then (CRYPT_MEM, m, hmac)
          else if MAXBLOCKSIZE < bs then (CRYPT_BUFFER_OVERFLOW, m, hmac)
          else let (err, m, kbuf, keylen) =
                 (if length key > bs
                  then let (err, m, kbuf, z) = hash_memory tab u m hash key (hmac_key hmac) bs
                       in (err, m, kbuf, hashsize d)
                  else (CRYPT_OK, m, buf_write (hmac_key hmac) 0 key, length key)) in
            if err \<noteq> CRYPT_OK then (err, m, hmac\<lparr>hmac_key := kbuf\<rparr>)
            else let kbuf = (if keylen < bs then buf_write kbuf keylen (replicate (bs - keylen) 0) else kbuf);
                     hmac = hmac\<lparr>hmac_key := kbuf\<rparr>;
                     buf = map (\<lambda>i. kbuf ! i XOR 0x36) [0..<bs];
                     md = call_hash_init (hash_calls d) (hmac_md hmac);
                     (err, md) = call_hash_process (hash_calls d) md buf
                 in (err, m, hmac\<lparr>hmac_md := md\<rparr>))"

definition hmac_process :: "hash_descriptor table \<Rightarrow> hmac_state \<Rightarrow> bytes \<Rightarrow> crypt_rc \<times> hmac_state" where
  "hmac_process tab hmac inp =
     (if hash_is_valid (hmac_hash hmac) tab \<noteq> CRYPT_OK then (hash_is_valid (hmac_hash hmac) tab, hmac)
      else let (err, md) = call_hash_process (hash_calls (the (tab ! nat (hmac_hash hmac)))) (hmac_md hmac) inp
           in (err, hmac\<lparr>hmac_md := md\<rparr>))"

definition hmac_done :: "hash_descriptor table \<Rightarrow> heap \<Rightarrow> hmac_state \<Rightarrow> bytes \<Rightarrow> nat \<Rightarrow>
    crypt_rc \<times> heap \<times> hmac_state \<times> bytes \<times> nat" where
  "hmac_done tab m hmac out outlen =
     (if hash_is_valid (hmac_hash hmac) tab \<noteq> CRYPT_OK
      then (hash_is_valid (hmac_hash hmac) tab, m, hmac, out, outlen)
      else let d = the (tab ! nat (hmac_hash hmac));
               (buf_ok, m) = xmalloc m;
               (isha_ok, m) = xmalloc m in
        if \<not> buf_ok \<or> \<not> isha_ok then (CRYPT_MEM, m, hmac, out, outlen)
        else let (err, md, isha) = call_hash_done (hash_calls d) (hmac_md hmac);
                 hmac = hmac\<lparr>hmac_md := md\<rparr> in
          if err \<noteq> CRYPT_OK then (err, m, hmac, out, outlen)
          else let buf = map (\<lambda>i. hmac_key hmac ! i XOR 0x5C) [0..<hash_blocksize d];
                   md = call_hash_init (hash_calls d) md;
                   (err, md) = call_hash_process (hash_calls d) md buf in
            if err \<noteq> CRYPT_OK then (err, m, hmac\<lparr>hmac_md := md\<rparr>, out, outlen)
            else let (err, md) = call_hash_process (hash_calls d) md isha in
              if err \<noteq> CRYPT_OK then (err, m, hmac\<lparr>hmac_md := md\<rparr>, out, outlen)
              else let (err, md, dg) = call_hash_done (hash_calls d) md;
                       hmac = hmac\<lparr>hmac_md := md\<rparr> in
                if err \<noteq> CRYPT_OK then (err, m, hmac, out, outlen)
                else let n = min (hashsize d) outlen
                     in (CRYPT_OK, m, hmac, buf_write out 0 (take n dg), n))"

definition hmac_memory :: "hash_descriptor table \<Rightarrow> hmac_state \<Rightarrow> heap \<Rightarrow> int \<Rightarrow> bytes \<Rightarrow> bytes \<Rightarrow> bytes \<Rightarrow> nat \<Rightarrow>
    crypt_rc \<times> heap \<times> bytes \<times> nat" where
  "hmac_memory tab u m hash key inp out outlen =
     (if hash_is_valid hash tab \<noteq> CRYPT_OK then (hash_is_valid hash tab, m, out, outlen)
      else let (hmac_ok, m) = xmalloc m in
        if \<not> hmac_ok then (CRYPT_MEM, m, out, outlen)
        else let (err, m, hmac) = hmac_init tab (hmac_md u) m u hash key in
          if err \<noteq> CRYPT_OK then (err, m, out, outlen)
          else let (err, hmac) = hmac_process tab hmac inp in
            if err \<noteq> CRYPT_OK then (err, m, out, outlen)
            else let (err, m, hmac, out, outlen) = hmac_done tab m hmac out outlen
                 in (err, m, out, outlen))"

section \<open>RFC 2104\<close>

definition hmac_block_key :: "(bytes \<Rightarrow> bytes) \<Rightarrow> nat \<Rightarrow> bytes \<Rightarrow> bytes" where
  "hmac_block_key H B key =
     (let k = (if length key > B then H key else key) in k @ replicate (B - length k) 0)"

definition hmac_spec :: "(bytes \<Rightarrow> bytes) \<Rightarrow> nat \<Rightarrow> bytes \<Rightarrow> bytes \<Rightarrow> bytes" where
  "hmac_spec H B key text =
     (let k0 = hmac_block_key H B key in
      H (map (\<lambda>b. b XOR 0x5C) k0 @ H (map (\<lambda>b. b XOR 0x36) k0 @ text)))"

section \<open>Allocation outcomes\<close>

text \<open>A supply that never fails; a call that succeeds, or fails for lack of memory.\<close>

definition plenty :: "heap \<Rightarrow> bool" where
  "plenty m \<longleftrightarrow> (\<forall>n. m n)"

definition ok_or_mem :: "heap \<Rightarrow> heap \<Rightarrow> crypt_rc \<Rightarrow> bool \<Rightarrow> bool" where
  "ok_or_mem m m' err P \<longleftrightarrow>
     (err = CRYPT_OK \<and> P \<or> err = CRYPT_MEM \<and> \<not> plenty m) \<and> (plenty m \<longrightarrow> plenty m')"

lemma xmalloc_cases:
  obtains (ok) m' where "xmalloc m = (True, m')" "plenty m \<longleftrightarrow> plenty m'"
  | (fail) m' where "xmalloc m = (False, m')" "\<not> plenty m"
proof (cases "m 0")
  case True
  have "plenty m \<longleftrightarrow> plenty (\<lambda>n. m (Suc n))"
    using True unfolding plenty_def by (metis not0_implies_Suc)
  with ok True show ?thesis by (simp add: xmalloc_def)
next
  case False with fail show ?thesis by (auto simp: xmalloc_def plenty_def)
qed

section \<open>The code computes the specification\<close>

text \<open>The table holds a hash of the library at index \<open>i\<close>.\<close>

definition holds :: "hash_descriptor table \<Rightarrow> nat \<Rightarrow> hash_functions \<Rightarrow> bool" where
  "holds tab i alg \<longleftrightarrow> i < TAB_SIZE \<and> tab ! i = Some (descriptor_of alg)"

lemma holds_valid: "holds tab i alg \<Longrightarrow> hash_is_valid (int i) tab = CRYPT_OK"
  by (simp add: holds_def hash_is_valid_def)

lemma holds_desc: "holds tab i alg \<Longrightarrow> the (tab ! i) = descriptor_of alg"
  by (simp add: holds_def)

lemma descriptor_facts [simp]:
  "hash_calls (descriptor_of alg) = alg"
  "hashsize (descriptor_of alg) \<le> hash_blocksize (descriptor_of alg)"
  "hash_blocksize (descriptor_of alg) \<le> MAXBLOCKSIZE"
  "hashsize (descriptor_of alg) \<le> MAXBLOCKSIZE"
  "0 < hashsize (descriptor_of alg)" "0 < hash_blocksize (descriptor_of alg)"
  by (cases alg; simp add: sha1_desc_def sha256_desc_def sha512_desc_def MAXBLOCKSIZE_def)+

lemma blocksize_le: "hash_blocksize (descriptor_of alg) \<le> 128"
  by (cases alg) (simp_all add: sha1_desc_def sha256_desc_def sha512_desc_def)

lemma hash_memory_ok:
  assumes "holds tab i alg" "hash_state_wf u" "8 * length inp < 2 ^ 64" "hashsize (descriptor_of alg) \<le> outlen"
  shows "case hash_memory tab u m (int i) inp out outlen of (err, m', out', outlen') \<Rightarrow>
    ok_or_mem m m' err (out' = buf_write out 0 (fips_digest alg inp) \<and> outlen' = hashsize (descriptor_of alg))"
proof -
  obtain s where s: "call_hash_process alg (call_hash_init alg u) inp = (CRYPT_OK, s)" "hash_absorbed alg s inp"
    using hash.process [OF hash.init [OF assms(2)], of inp alg] assms(3) by auto
  obtain s' where s': "call_hash_done alg s = (CRYPT_OK, s', fips_digest alg inp)"
    using hash.finish [OF s(2)] by auto
  show ?thesis
    by (cases rule: xmalloc_cases [of m])
      (use assms(1,4) s(1) s' in \<open>simp_all add: hash_memory_def holds_valid holds_desc Let_def ok_or_mem_def\<close>)
qed

text \<open>The state of an HMAC in progress over the text \<open>t\<close>.\<close>

abbreviation hmac_of :: "hash_functions \<Rightarrow> bytes \<Rightarrow> bytes \<Rightarrow> bytes" where
  "hmac_of alg \<equiv> hmac_spec (fips_digest alg) (hash_blocksize (descriptor_of alg))"

definition hmac_absorbed :: "nat \<Rightarrow> hash_functions \<Rightarrow> bytes \<Rightarrow> hmac_state \<Rightarrow> bytes \<Rightarrow> bool" where
  "hmac_absorbed i alg key hmac t \<longleftrightarrow>
     (let B = hash_blocksize (descriptor_of alg); k0 = hmac_block_key (fips_digest alg) B key in
      hmac_hash hmac = int i \<and> length (hmac_key hmac) = MAXBLOCKSIZE \<and> take B (hmac_key hmac) = k0 \<and>
      hash_absorbed alg (hmac_md hmac) (map (\<lambda>b. b XOR 0x36) k0 @ t))"

definition hmac_state_wf :: "hmac_state \<Rightarrow> bool" where
  "hmac_state_wf h \<longleftrightarrow> hash_state_wf (hmac_md h) \<and> length (hmac_key h) = MAXBLOCKSIZE"

lemma map_xor_nth: "n \<le> length k \<Longrightarrow> map (\<lambda>i. k ! i XOR c) [0..<n] = map (\<lambda>b. b XOR c) (take n k)"
  by (rule nth_equalityI) simp_all

lemma length_hmac_block_key: "length (hmac_block_key (fips_digest alg) (hash_blocksize (descriptor_of alg)) key) =
    hash_blocksize (descriptor_of alg)"
  by (simp add: hmac_block_key_def hash.digest_length Let_def)

lemma hash_blocksize_bound: "8 * (hash_blocksize (descriptor_of alg) + n) < 2 ^ 64" if "n < 2 ^ 60"
  using blocksize_le [of alg] that by simp

lemma ok_or_memI:
  "(plenty m \<Longrightarrow> plenty m') \<Longrightarrow> err = CRYPT_OK \<and> P \<or> err = CRYPT_MEM \<and> \<not> plenty m \<Longrightarrow> ok_or_mem m m' err P"
  by (auto simp: ok_or_mem_def)

lemma hmac_key_block:
  assumes "length kbuf = MAXBLOCKSIZE" "length k \<le> B" "B \<le> MAXBLOCKSIZE"
  shows "take B (if length k < B then buf_write (buf_write kbuf 0 k) (length k) (replicate (B - length k) 0)
      else buf_write kbuf 0 k) = k @ replicate (B - length k) 0"
    "length (if length k < B then buf_write (buf_write kbuf 0 k) (length k) (replicate (B - length k) 0)
      else buf_write kbuf 0 k) = MAXBLOCKSIZE"
  using assms by (auto simp: buf_write_def)

text \<open>Keying the state, with the key block already in the key buffer.\<close>

lemma hmac_keyed:
  assumes "length kbuf = MAXBLOCKSIZE" "take B kbuf = hmac_block_key (fips_digest alg) B key"
    "B = hash_blocksize (descriptor_of alg)" "hash_state_wf md"
  shows "\<exists>s. call_hash_process alg (call_hash_init alg md) (map (\<lambda>i. kbuf ! i XOR 0x36) [0..<B]) = (CRYPT_OK, s) \<and>
    hmac_absorbed i alg key (h\<lparr>hmac_hash := int i, hmac_key := kbuf, hmac_md := s\<rparr>) []"
proof -
  have B: "B \<le> length kbuf" using assms(1,3) by simp
  have "8 * (length [] + length (map (\<lambda>i. kbuf ! i XOR 0x36) [0..<B])) < 2 ^ 64"
    using blocksize_le [of alg] assms(3) by simp
  from hash.process [OF hash.init [OF assms(4)] this]
  show ?thesis using assms map_xor_nth [OF B, of "0x36"] by (auto simp: hmac_absorbed_def Let_def)
qed

lemma hmac_init_ok:
  assumes "holds tab i alg" "hash_state_wf u" "hmac_state_wf h" "0 < length key" "length key < 2 ^ 60"
  shows "case hmac_init tab u m h (int i) key of (err, m', h') \<Rightarrow>
    ok_or_mem m m' err (hmac_absorbed i alg key h' [])"
proof (cases rule: xmalloc_cases [of m])
  case (fail m')
  with assms show ?thesis
    by (simp add: hmac_init_def holds_valid ok_or_mem_def Let_def)
next
  case (ok m1)
  let ?d = "descriptor_of alg"
  let ?B = "hash_blocksize ?d"
  have h: "length (hmac_key h) = MAXBLOCKSIZE" "hash_state_wf (hmac_md h)"
    using assms(3) by (simp_all add: hmac_state_wf_def)
  define fill where "fill k = (if length k < ?B
      then buf_write (buf_write (hmac_key h) 0 k) (length k) (replicate (?B - length k) 0)
      else buf_write (hmac_key h) 0 k)" for k
  have fill: "\<exists>s. call_hash_process alg (call_hash_init alg (hmac_md h)) (map (\<lambda>i. fill k ! i XOR 0x36) [0..<?B]) = (CRYPT_OK, s) \<and>
      hmac_absorbed i alg key (h\<lparr>hmac_hash := int i, hmac_key := fill k, hmac_md := s\<rparr>) []"
    if "length k \<le> ?B" "hmac_block_key (fips_digest alg) ?B key = k @ replicate (?B - length k) 0" for k
    by (rule hmac_keyed) (use hmac_key_block [OF h(1) that(1)] that(2) h(2) in \<open>simp_all add: fill_def\<close>)
  show ?thesis
  proof (cases "length key > ?B")
    case False
    with fill [of key] obtain s where
      "call_hash_process alg (call_hash_init alg (hmac_md h)) (map (\<lambda>i. fill key ! i XOR 0x36) [0..<?B]) = (CRYPT_OK, s)"
      "hmac_absorbed i alg key (h\<lparr>hmac_hash := int i, hmac_key := fill key, hmac_md := s\<rparr>) []"
      by (auto simp: hmac_block_key_def)
    with False ok assms(1,4) show ?thesis
      by (simp add: hmac_init_def holds_valid holds_desc Let_def ok_or_mem_def linorder_not_less flip: fill_def)
  next
    case True
    obtain err m2 kb z where r: "hash_memory tab u m1 (int i) key (hmac_key h) ?B = (err, m2, kb, z)"
      by (cases "hash_memory tab u m1 (int i) key (hmac_key h) ?B")
    have res: "ok_or_mem m1 m2 err (kb = buf_write (hmac_key h) 0 (fips_digest alg key) \<and> z = hashsize ?d)"
      using hash_memory_ok [OF assms(1,2), where inp = key and outlen = ?B and m = m1 and out = "hmac_key h"] assms(5) r by simp
    from fill [of "fips_digest alg key"] True obtain s where
      "call_hash_process alg (call_hash_init alg (hmac_md h)) (map (\<lambda>i. fill (fips_digest alg key) ! i XOR 0x36) [0..<?B]) = (CRYPT_OK, s)"
      "hmac_absorbed i alg key (h\<lparr>hmac_hash := int i, hmac_key := fill (fips_digest alg key), hmac_md := s\<rparr>) []"
      by (auto simp: hmac_block_key_def hash.digest_length)
    with True ok assms(1,4) r res show ?thesis
      by (auto simp: hmac_init_def holds_valid holds_desc Let_def ok_or_mem_def fill_def hash.digest_length
          linorder_not_less)
  qed
qed

lemma hmac_process_ok:
  assumes "holds tab i alg" "hmac_absorbed i alg key h t" "length t + length x < 2 ^ 60"
  shows "\<exists>h'. hmac_process tab h x = (CRYPT_OK, h') \<and> hmac_absorbed i alg key h' (t @ x)"
proof -
  let ?k0 = "hmac_block_key (fips_digest alg) (hash_blocksize (descriptor_of alg)) key"
  have a: "hash_absorbed alg (hmac_md h) (map (\<lambda>b. b XOR 0x36) ?k0 @ t)" "hmac_hash h = int i"
    using assms(2) by (simp_all add: hmac_absorbed_def Let_def)
  have "8 * (length (map (\<lambda>b. b XOR 0x36) ?k0 @ t) + length x) < 2 ^ 64"
    using blocksize_le [of alg] assms(3) by (simp add: length_hmac_block_key)
  from hash.process [OF a(1) this] show ?thesis
    using assms(1,2) a(2) by (auto simp: hmac_process_def holds_valid holds_desc hmac_absorbed_def Let_def)
qed

lemma hmac_done_ok:
  assumes "holds tab i alg" "hmac_absorbed i alg key h t"
  shows "case hmac_done tab m h out outlen of (err, m', h', out', outlen') \<Rightarrow>
    ok_or_mem m m' err (outlen' = min (hashsize (descriptor_of alg)) outlen \<and>
      out' = buf_write out 0 (take outlen' (hmac_of alg key t)) \<and> hmac_state_wf h')"
proof -
  let ?B = "hash_blocksize (descriptor_of alg)"
  let ?k0 = "hmac_block_key (fips_digest alg) ?B key"
  let ?i = "fips_digest alg (map (\<lambda>b. b XOR 0x36) ?k0 @ t)" and ?o = "map (\<lambda>b. b XOR 0x5C) ?k0"
  have a: "hash_absorbed alg (hmac_md h) (map (\<lambda>b. b XOR 0x36) ?k0 @ t)" "hmac_hash h = int i"
    "length (hmac_key h) = MAXBLOCKSIZE" "take ?B (hmac_key h) = ?k0"
    using assms(2) by (simp_all add: hmac_absorbed_def Let_def)
  have buf: "map (\<lambda>i. hmac_key h ! i XOR 0x5C) [0..<?B] = ?o"
    using map_xor_nth [of ?B "hmac_key h" "0x5C"] a(3,4) by simp
  obtain s1 where s1: "call_hash_done alg (hmac_md h) = (CRYPT_OK, s1, ?i)" "hash_state_wf s1"
    using hash.finish [OF a(1)] by auto
  obtain s2 where s2: "call_hash_process alg (call_hash_init alg s1) ?o = (CRYPT_OK, s2)" "hash_absorbed alg s2 ?o"
    using hash.process [OF hash.init [OF s1(2)], of ?o alg] blocksize_le [of alg]
    by (auto simp: length_hmac_block_key)
  obtain s3 where s3: "call_hash_process alg s2 ?i = (CRYPT_OK, s3)" "hash_absorbed alg s3 (?o @ ?i)"
    using hash.process [OF s2(2), of ?i] blocksize_le [of alg] descriptor_facts(2) [of alg]
    by (auto simp: length_hmac_block_key hash.digest_length)
  obtain s4 where s4: "call_hash_done alg s3 = (CRYPT_OK, s4, hmac_of alg key t)" "hash_state_wf s4"
    using hash.finish [OF s3(2)] by (auto simp: hmac_spec_def Let_def)
  show ?thesis
  proof (cases rule: xmalloc_cases [of m])
    case (ok m1)
    then show ?thesis
      by (cases rule: xmalloc_cases [of m1])
        (use assms(1) a s1(1) s2(1) s3(1) s4 buf in
          \<open>simp_all add: hmac_done_def holds_valid holds_desc Let_def ok_or_mem_def hmac_state_wf_def\<close>)
  next
    case (fail m1)
    obtain b m2 where "xmalloc m1 = (b, m2)" by (cases "xmalloc m1")
    with fail assms(1) a(2) show ?thesis
      by (simp add: hmac_done_def holds_valid Let_def ok_or_mem_def)
  qed
qed

lemma hmac_memory_ok:
  assumes "holds tab i alg" "hmac_state_wf u" "0 < length key" "length key < 2 ^ 60" "length inp < 2 ^ 60"
  shows "case hmac_memory tab u m (int i) key inp out outlen of (err, m', out', outlen') \<Rightarrow>
    ok_or_mem m m' err (outlen' = min (hashsize (descriptor_of alg)) outlen \<and>
      out' = buf_write out 0 (take outlen' (hmac_of alg key inp)))"
proof (cases rule: xmalloc_cases [of m])
  case (fail m1)
  with assms(1) show ?thesis by (simp add: hmac_memory_def holds_valid ok_or_mem_def)
next
  case (ok m1)
  obtain err m2 h where i: "hmac_init tab (hmac_md u) m1 u (int i) key = (err, m2, h)"
    by (cases "hmac_init tab (hmac_md u) m1 u (int i) key")
  have 1: "ok_or_mem m1 m2 err (hmac_absorbed i alg key h [])"
    using hmac_init_ok [OF assms(1) _ assms(2,3,4), where u = "hmac_md u" and m = m1] assms(2) i by (simp add: hmac_state_wf_def)
  show ?thesis
  proof (cases "err = CRYPT_OK")
    case False
    with 1 i ok assms(1) show ?thesis by (auto simp: hmac_memory_def holds_valid ok_or_mem_def)
  next
    case True
    then obtain h' where p: "hmac_process tab h inp = (CRYPT_OK, h')" "hmac_absorbed i alg key h' inp"
      using hmac_process_ok [OF assms(1), of key h "[]" inp] 1 assms(5) by (auto simp: ok_or_mem_def)
    obtain err' m3 h'' out' outlen' where d: "hmac_done tab m2 h' out outlen = (err', m3, h'', out', outlen')"
      by (cases "hmac_done tab m2 h' out outlen")
    have "ok_or_mem m2 m3 err' (outlen' = min (hashsize (descriptor_of alg)) outlen \<and>
      out' = buf_write out 0 (take outlen' (hmac_of alg key inp)) \<and> hmac_state_wf h'')"
      using hmac_done_ok [OF assms(1) p(2), where m = m2 and out = out and outlen = outlen] d by simp
    with 1 True i p d ok assms(1) show ?thesis
      by (auto simp: hmac_memory_def holds_valid ok_or_mem_def)
  qed
qed

lemma ok_or_mem_mono: "ok_or_mem m m' err P \<Longrightarrow> (P \<Longrightarrow> Q) \<Longrightarrow> ok_or_mem m m' err Q"
  by (auto simp: ok_or_mem_def)

lemma length_hmac_of [simp]: "length (hmac_of alg key t) = hashsize (descriptor_of alg)"
  by (simp add: hmac_spec_def hash.digest_length Let_def)

text \<open>With room for a whole code.\<close>

lemma hmac_memory_full:
  assumes "holds tab i alg" "hmac_state_wf u" "0 < length key" "length key < 2 ^ 60" "length inp < 2 ^ 60"
    "hashsize (descriptor_of alg) \<le> outlen" "hmac_memory tab u m (int i) key inp out outlen = (err, m', out', outlen')"
  shows "ok_or_mem m m' err (outlen' = hashsize (descriptor_of alg) \<and> out' = buf_write out 0 (hmac_of alg key inp))"
  using hmac_memory_ok [OF assms(1-5), where m = m and out = out and outlen = outlen]
  unfolding assms(7) prod.case by (rule ok_or_mem_mono) (simp add: assms(6))

lemma hmac_done_full:
  assumes "holds tab i alg" "hmac_absorbed i alg key h t"
    "hashsize (descriptor_of alg) \<le> outlen" "hmac_done tab m h out outlen = (err, m', h', out', outlen')"
  shows "ok_or_mem m m' err (outlen' = hashsize (descriptor_of alg) \<and> out' = buf_write out 0 (hmac_of alg key t) \<and>
    hmac_state_wf h')"
  using hmac_done_ok [OF assms(1,2), where m = m and out = out and outlen = outlen]
  unfolding assms(4) prod.case by (rule ok_or_mem_mono) (simp add: assms(3))

section \<open>Properties\<close>

text \<open>
  C5: for every hash of the library in the table, every non-empty key and every text
  (both below \<open>2^60\<close> bytes), \<open>hmac_memory\<close> either writes the RFC 2104 code of the text,
  cut to the room the caller gave, with the count of the bytes written, or reports
  \<open>CRYPT_MEM\<close>, which happens only when an allocation fails.
\<close>

theorem hmac_memory_rfc2104:
  assumes "holds tab i alg" "hmac_state_wf u" "0 < length key" "length key < 2 ^ 60" "length inp < 2 ^ 60"
    "hmac_memory tab u m (int i) key inp out outlen = (err, m', out', outlen')"
  shows "(err = CRYPT_OK \<and> outlen' = min (hashsize (descriptor_of alg)) outlen \<and>
      out' = buf_write out 0 (take outlen' (hmac_of alg key inp))) \<or> (err = CRYPT_MEM \<and> (\<exists>n. \<not> m n))"
  using hmac_memory_ok [OF assms(1-5), where m = m and out = out and outlen = outlen] assms(6)
  by (auto simp: ok_or_mem_def plenty_def)

definition blank_hmac :: hmac_state where
  "blank_hmac = \<lparr>hmac_md = blank_hash_state, hmac_hash = 0, hmac_key = replicate MAXBLOCKSIZE 0\<rparr>"

lemma blank_hmac_wf [simp]: "hmac_state_wf blank_hmac" "hash_state_wf (hmac_md blank_hmac)"
  by (simp_all add: hmac_state_wf_def blank_hmac_def)

lemma holds_slot0 [simp]: "holds (hash_descriptor0[0 := Some (descriptor_of alg)]) 0 alg"
  by (simp add: holds_def hash_descriptor0_def TAB_SIZE_def)

theorem hmac_memory_rfc2104_witness:
  "\<exists>m'. hmac_memory (hash_descriptor0[0 := Some sha256_desc]) blank_hmac (\<lambda>_. True) 0 [1, 2, 3] [4] (replicate 32 0) 32 =
     (CRYPT_OK, m', hmac_of SHA256 [1, 2, 3] [4], 32)"
proof -
  obtain err m' out' outlen' where
    r: "hmac_memory (hash_descriptor0[0 := Some (descriptor_of SHA256)]) blank_hmac (\<lambda>_. True) (int 0) [1, 2, 3] [4]
      (replicate 32 0) 32 = (err, m', out', outlen')" by (metis prod_cases4)
  have l: "length (hmac_of SHA256 [1, 2, 3] [4]) = 32"
    using hash.digest_length [of SHA256] by (simp add: hmac_spec_def Let_def sha256_desc_def)
  from hmac_memory_rfc2104 [OF holds_slot0 blank_hmac_wf(1) _ _ _ r] l r show ?thesis
    by (auto simp: sha256_desc_def buf_write_def)
qed

end
