(* ===== verification/Pbkdf2.thy ===== *)
theory Pbkdf2
  imports Hmac
begin

text \<open>
  PBKDF2 of \<open>pkcs_5_2.c\<close> over the HMAC of the library, against RFC 2898.
\<close>

unbundle bit_operations_syntax

section \<open>The code\<close>

text \<open>\<open>for (itts = 1; itts < iteration_count; ++itts)\<close>: \<open>n\<close> turns are left.\<close>

primrec pkcs5_iterate :: "hash_descriptor table \<Rightarrow> hmac_state \<Rightarrow> bytes \<Rightarrow> int \<Rightarrow> nat \<Rightarrow>
    heap \<Rightarrow> bytes \<Rightarrow> bytes \<Rightarrow> nat \<Rightarrow> crypt_rc \<times> heap \<times> bytes \<times> bytes \<times> nat" where
  "pkcs5_iterate tab u password hash_idx 0 m buf0 buf1 x = (CRYPT_OK, m, buf0, buf1, x)"
| "pkcs5_iterate tab u password hash_idx (Suc n) m buf0 buf1 x =
     (let (err, m, buf0, x) = hmac_memory tab u m hash_idx password (take x buf0) buf0 x in
      if err \<noteq> CRYPT_OK then (err, m, buf0, buf1, x)
      else pkcs5_iterate tab u password hash_idx n m buf0
             (buf_write buf1 0 (xor_bytes (take x buf1) (take x buf0))) x)"

text \<open>The block number \<open>blkno\<close>: the status, and the block in \<open>buf[1]\<close> with its length \<open>x\<close>.\<close>

definition pkcs5_block :: "hash_descriptor table \<Rightarrow> hmac_state \<Rightarrow> bytes \<Rightarrow> bytes \<Rightarrow> int \<Rightarrow> int \<Rightarrow>
    heap \<Rightarrow> hmac_state \<Rightarrow> u32 \<Rightarrow> crypt_rc \<times> heap \<times> hmac_state \<times> bytes \<times> nat" where
  "pkcs5_block tab u password salt iteration_count hash_idx m hmac blkno =
     (let buf0 = replicate MAXBLOCKSIZE 0;
          buf1 = buf_write (replicate MAXBLOCKSIZE 0) 0 (STORE32H blkno);
          (err, m, hmac) = hmac_init tab (hmac_md u) m hmac hash_idx password in
      if err \<noteq> CRYPT_OK then (err, m, hmac, buf1, 0)
      else let (err, hmac) = hmac_process tab hmac salt in
        if err \<noteq> CRYPT_OK then (err, m, hmac, buf1, 0)
        else let (err, hmac) = hmac_process tab hmac (take 4 buf1) in
          if err \<noteq> CRYPT_OK then (err, m, hmac, buf1, 0)
          else let (err, m, hmac, buf0, x) = hmac_done tab m hmac buf0 MAXBLOCKSIZE in
            if err \<noteq> CRYPT_OK then (err, m, hmac, buf1, x)
            else let buf1 = buf_write buf1 0 (take x buf0);
                     (err, m, buf0, buf1, x) =
                       pkcs5_iterate tab u password hash_idx (nat (iteration_count - 1)) m buf0 buf1 x
                 in (err, m, hmac, buf1, x))"

text \<open>The loop \<open>while (left != 0)\<close>; an error leaves it.\<close>

type_synonym pkcs5_state = "crypt_rc \<times> heap \<times> hmac_state \<times> bytes \<times> nat \<times> nat \<times> u32"

definition pkcs5_turn :: "hash_descriptor table \<Rightarrow> hmac_state \<Rightarrow> bytes \<Rightarrow> bytes \<Rightarrow> int \<Rightarrow> int \<Rightarrow>
    pkcs5_state \<Rightarrow> pkcs5_state" where
  "pkcs5_turn tab u password salt iteration_count hash_idx = (\<lambda>(err, m, hmac, out, stored, left, blkno).
     let (err, m, hmac, buf1, x) = pkcs5_block tab u password salt iteration_count hash_idx m hmac blkno;
         blkno = blkno + 1 in
     if err \<noteq> CRYPT_OK then (err, m, hmac, out, stored, left, blkno)
     else let n = min x left
          in (CRYPT_OK, m, hmac, buf_write out stored (take n buf1), stored + n, left - n, blkno))"

definition pkcs5_go :: "pkcs5_state \<Rightarrow> bool" where
  "pkcs5_go = (\<lambda>(err, m, hmac, out, stored, left, blkno). err = CRYPT_OK \<and> left \<noteq> 0)"

definition pkcs_5_alg2 :: "hash_descriptor table \<Rightarrow> hmac_state \<Rightarrow> heap \<Rightarrow> bytes \<Rightarrow> bytes \<Rightarrow> int \<Rightarrow> int \<Rightarrow>
    bytes \<Rightarrow> nat \<Rightarrow> crypt_rc \<times> heap \<times> bytes \<times> nat" where
  "pkcs_5_alg2 tab u m password salt iteration_count hash_idx out outlen =
     (if hash_is_valid hash_idx tab \<noteq> CRYPT_OK then (hash_is_valid hash_idx tab, m, out, outlen)
      else let (buf_ok, m) = xmalloc m;
               (hmac_ok, m) = xmalloc m in
        if \<not> hmac_ok \<or> \<not> buf_ok then (CRYPT_MEM, m, out, outlen)
        else let (err, m, hmac, out, stored, left, blkno) =
               while pkcs5_go (pkcs5_turn tab u password salt iteration_count hash_idx)
                 (CRYPT_OK, m, u, out, 0, outlen, 1)
             in if err \<noteq> CRYPT_OK then (err, m, out, outlen) else (CRYPT_OK, m, out, stored))"

section \<open>RFC 2898\<close>

primrec pbkdf2_U :: "(bytes \<Rightarrow> bytes \<Rightarrow> bytes) \<Rightarrow> bytes \<Rightarrow> bytes \<Rightarrow> nat \<Rightarrow> bytes" where
  "pbkdf2_U prf P S 0 = prf P S"
| "pbkdf2_U prf P S (Suc j) = prf P (pbkdf2_U prf P S j)"

primrec pbkdf2_xor :: "(bytes \<Rightarrow> bytes \<Rightarrow> bytes) \<Rightarrow> bytes \<Rightarrow> bytes \<Rightarrow> nat \<Rightarrow> bytes" where
  "pbkdf2_xor prf P S 0 = pbkdf2_U prf P S 0"
| "pbkdf2_xor prf P S (Suc j) = xor_bytes (pbkdf2_xor prf P S j) (pbkdf2_U prf P S (Suc j))"

text \<open>\<open>F(P, S, c, i)\<close> for \<open>c\<close> iterations, and the derived key of \<open>len\<close> bytes.\<close>

definition pbkdf2_F :: "(bytes \<Rightarrow> bytes \<Rightarrow> bytes) \<Rightarrow> bytes \<Rightarrow> bytes \<Rightarrow> nat \<Rightarrow> nat \<Rightarrow> bytes" where
  "pbkdf2_F prf P S c i = pbkdf2_xor prf P (S @ STORE32H (of_nat i)) (c - 1)"

definition pbkdf2 :: "(bytes \<Rightarrow> bytes \<Rightarrow> bytes) \<Rightarrow> nat \<Rightarrow> bytes \<Rightarrow> bytes \<Rightarrow> nat \<Rightarrow> nat \<Rightarrow> bytes" where
  "pbkdf2 prf hLen P S c len =
     take len (concat (map (pbkdf2_F prf P S c) [1..<len div hLen + 2]))"

section \<open>The code computes it\<close>

lemma length_pbkdf2_xor:
  "(\<And>x. length (prf P x) = h) \<Longrightarrow> length (pbkdf2_U prf P S n) = h \<and> length (pbkdf2_xor prf P S n) = h"
  by (induction n) simp_all

lemma buf_write_prefix: "length x = n \<Longrightarrow> take n (buf_write b 0 x) = x"
  by (simp add: buf_write_def)

lemma buf_write_prefix_twice: "length x = length y \<Longrightarrow> buf_write (buf_write b 0 x) 0 y = buf_write b 0 y"
  by (simp add: buf_write_def)

lemma pkcs5_iterate_ok:
  assumes "holds tab i alg" "hmac_state_wf u" "0 < length P" "length P < 2 ^ 60" "x = hashsize (descriptor_of alg)"
    "take x buf0 = pbkdf2_U (hmac_of alg) P S k" "take x buf1 = pbkdf2_xor (hmac_of alg) P S k" "x \<le> length buf0"
  shows "case pkcs5_iterate tab u P (int i) n m buf0 buf1 x of (err, m', buf0', buf1', x') \<Rightarrow>
    ok_or_mem m m' err (x' = x \<and> take x buf1' = pbkdf2_xor (hmac_of alg) P S (k + n))"
  using assms(6-8)
proof (induction n arbitrary: m buf0 buf1 k)
  case 0
  then show ?case by (simp add: ok_or_mem_def)
next
  case (Suc n)
  let ?U = "pbkdf2_U (hmac_of alg) P S" and ?X = "pbkdf2_xor (hmac_of alg) P S"
  have len: "length (?U j) = x" "length (?X j) = x" for j
    using length_pbkdf2_xor [of "hmac_of alg" P x S j] assms(5) by simp_all
  have x: "x < 2 ^ 60" using descriptor_facts(4) [of alg] by (simp add: assms(5) MAXBLOCKSIZE_def)
  obtain err m1 b0 x1 where r: "hmac_memory tab u m (int i) P (take x buf0) buf0 x = (err, m1, b0, x1)"
    by (metis prod_cases4)
  have 1: "ok_or_mem m m1 err (x1 = x \<and> b0 = buf_write buf0 0 (?U (Suc k)))"
    using hmac_memory_full [OF assms(1-4) _ _ r] x Suc.prems(1) by (simp add: assms(5))
  show ?case
  proof (cases "err = CRYPT_OK")
    case False with 1 r show ?thesis by (auto simp: ok_or_mem_def)
  next
    case True
    with 1 have b0: "x1 = x" "b0 = buf_write buf0 0 (?U (Suc k))" "plenty m \<longrightarrow> plenty m1"
      by (auto simp: ok_or_mem_def)
    have t0: "take x b0 = ?U (Suc k)" "x \<le> length b0"
      using Suc.prems(3) len [of "Suc k"] by (simp_all add: b0 buf_write_prefix del: pbkdf2_U.simps) (simp add: buf_write_def)
    let ?b1 = "buf_write buf1 0 (xor_bytes (take x buf1) (take x b0))"
    have t1: "take x ?b1 = ?X (Suc k)"
      using Suc.prems(2) t0 len [of k] len [of "Suc k"] by (simp add: buf_write_prefix del: pbkdf2_U.simps)
    from Suc.IH [OF t0(1) t1 t0(2), of m1] b0(3) True r show ?thesis
      by (auto simp: b0(1) ok_or_mem_def)
  qed
qed

lemma pkcs5_block_ok:
  assumes "holds tab i alg" "hmac_state_wf u" "hmac_state_wf h" "0 < length P" "length P < 2 ^ 60" "length S < 2 ^ 59"
  shows "case pkcs5_block tab u P S c (int i) m h (of_nat b) of (err, m', h', buf1, x) \<Rightarrow>
    ok_or_mem m m' err (x = hashsize (descriptor_of alg) \<and> take x buf1 = pbkdf2_F (hmac_of alg) P S (nat c) b \<and>
      hmac_state_wf h')"
proof -
  let ?h = "hashsize (descriptor_of alg)" and ?S = "S @ STORE32H (of_nat b)"
  let ?b1 = "buf_write (replicate MAXBLOCKSIZE 0) 0 (STORE32H (of_nat b))"
  have b1: "take 4 ?b1 = STORE32H (of_nat b)" "length ?b1 = MAXBLOCKSIZE" by (simp_all add: buf_write_def MAXBLOCKSIZE_def)
  obtain err m1 h1 where i: "hmac_init tab (hmac_md u) m h (int i) P = (err, m1, h1)" by (metis prod_cases3)
  have 1: "ok_or_mem m m1 err (hmac_absorbed i alg P h1 [])"
    using hmac_init_ok [OF assms(1) _ assms(3-5), where u = "hmac_md u" and m = m] assms(2) i by (simp add: hmac_state_wf_def)
  show ?thesis
  proof (cases "err = CRYPT_OK")
    case False with 1 i show ?thesis by (auto simp: pkcs5_block_def Let_def ok_or_mem_def)
  next
    case True
    obtain h2 where 2: "hmac_process tab h1 S = (CRYPT_OK, h2)" "hmac_absorbed i alg P h2 S"
      using hmac_process_ok [OF assms(1), of P h1 "[]" S] 1 True assms(6) by (auto simp: ok_or_mem_def)
    obtain h3 where 3: "hmac_process tab h2 (take 4 ?b1) = (CRYPT_OK, h3)" "hmac_absorbed i alg P h3 ?S"
      using hmac_process_ok [OF assms(1) 2(2), of "take 4 ?b1"] assms(6) unfolding b1 by auto
    obtain err4 m4 h4 b0 x where 4: "hmac_done tab m1 h3 (replicate MAXBLOCKSIZE 0) MAXBLOCKSIZE = (err4, m4, h4, b0, x)"
      by (metis prod_cases5)
    have d: "ok_or_mem m1 m4 err4 (x = ?h \<and> b0 = buf_write (replicate MAXBLOCKSIZE 0) 0 (hmac_of alg P ?S) \<and> hmac_state_wf h4)"
      using hmac_done_full [OF assms(1) 3(2) _ 4] by simp
    show ?thesis
    proof (cases "err4 = CRYPT_OK")
      case False with 1 True d i 2(1) 3(1) 4 show ?thesis
        by (auto simp: pkcs5_block_def Let_def ok_or_mem_def)
    next
      case ok: True
      then have x: "x = ?h" "b0 = buf_write (replicate MAXBLOCKSIZE 0) 0 (hmac_of alg P ?S)" "hmac_state_wf h4"
        using d by (auto simp: ok_or_mem_def)
      have t: "take x b0 = pbkdf2_U (hmac_of alg) P ?S 0" "x \<le> length b0"
        by (simp_all add: x buf_write_prefix) (simp add: buf_write_def)
      obtain err5 m5 c0 c1 y where 5: "pkcs5_iterate tab u P (int i) (nat (c - 1)) m4 b0 (buf_write ?b1 0 (take x b0)) x =
          (err5, m5, c0, c1, y)" by (metis prod_cases5)
      have t1: "take x (buf_write ?b1 0 (take x b0)) = pbkdf2_xor (hmac_of alg) P ?S 0"
        unfolding t(1) by (simp add: buf_write_prefix x(1))
      have "ok_or_mem m4 m5 err5 (y = x \<and> take x c1 = pbkdf2_xor (hmac_of alg) P ?S (nat (c - 1)))"
        using pkcs5_iterate_ok [OF assms(1,2,4,5) x(1) t(1) t1 t(2), where n = "nat (c - 1)" and m = m4] 5 by simp
      moreover have "nat (c - 1) = nat c - 1" by simp
      ultimately show ?thesis
        using 1 True d ok i 2(1) 3(1) 4 5 x by (auto simp: pkcs5_block_def Let_def ok_or_mem_def pbkdf2_F_def)
    qed
  qed
qed

text \<open>The blocks written so far, and one more turn of the outer loop.\<close>

definition pkcs5_at :: "hash_functions \<Rightarrow> bytes \<Rightarrow> bytes \<Rightarrow> int \<Rightarrow> bytes \<Rightarrow> nat \<Rightarrow> heap \<Rightarrow> nat \<Rightarrow> pkcs5_state \<Rightarrow> bool" where
  "pkcs5_at alg P S c out0 L m0 n = (\<lambda>(err, m, h, out, stored, left, blkno).
     err = CRYPT_OK \<and> hmac_state_wf h \<and> blkno = of_nat (Suc n) \<and> stored + left = L \<and>
     stored = n * hashsize (descriptor_of alg) \<and> (plenty m0 \<longrightarrow> plenty m) \<and>
     out = buf_write out0 0 (concat (map (pbkdf2_F (hmac_of alg) P S (nat c)) [1..<Suc n])))"

definition pkcs5_result :: "hash_functions \<Rightarrow> bytes \<Rightarrow> bytes \<Rightarrow> int \<Rightarrow> bytes \<Rightarrow> nat \<Rightarrow> heap \<Rightarrow> pkcs5_state \<Rightarrow> bool" where
  "pkcs5_result alg P S c out0 L m0 = (\<lambda>(err, m, h, out, stored, left, blkno).
     ok_or_mem m0 m err (stored = L \<and> left = 0 \<and>
       out = buf_write out0 0 (pbkdf2 (hmac_of alg) (hashsize (descriptor_of alg)) P S (nat c) L)) \<and>
     (length out0 = L \<longrightarrow> length out = L))"

lemma length_F [simp]: "length (pbkdf2_F (hmac_of alg) P S c b) = hashsize (descriptor_of alg)"
  using length_pbkdf2_xor [of "hmac_of alg" P "hashsize (descriptor_of alg)"] by (simp add: pbkdf2_F_def)

lemma length_blocks_F [simp]:
  "length (concat (map (pbkdf2_F (hmac_of alg) P S c) bs)) = length bs * hashsize (descriptor_of alg)"
  by (induction bs) simp_all

lemma length_pbkdf2 [simp]:
  "length (pbkdf2 (hmac_of alg) (hashsize (descriptor_of alg)) P S c n) = n"
proof -
  let ?h = "hashsize (descriptor_of alg)"
  have "n = n div ?h * ?h + n mod ?h" "n mod ?h < ?h" by simp_all
  then have "n \<le> (n div ?h + 1) * ?h" by (metis add_mult_distrib add_le_cancel_left less_imp_le mult_1)
  then show ?thesis by (simp add: pbkdf2_def del: upt_Suc)
qed

lemma pbkdf2_cut:
  assumes "n * hashsize (descriptor_of alg) \<le> L" "L \<le> Suc n * hashsize (descriptor_of alg)"
  shows "pbkdf2 (hmac_of alg) (hashsize (descriptor_of alg)) P S c L =
    concat (map (pbkdf2_F (hmac_of alg) P S c) [1..<Suc n]) @
    take (L - n * hashsize (descriptor_of alg)) (pbkdf2_F (hmac_of alg) P S c (Suc n))"
proof -
  let ?F = "pbkdf2_F (hmac_of alg) P S c" and ?h = "hashsize (descriptor_of alg)"
  have "n \<le> L div ?h"
    using assms(1) by (metis descriptor_facts(5) div_le_mono nonzero_mult_div_cancel_right less_numeral_extra(3))
  then have "[1..<L div ?h + 2] = [1..<Suc n] @ [Suc n..<L div ?h + 2]"
    using upt_add_eq_append [of 1 "Suc n" "L div ?h + 1 - n"] by (simp del: upt_Suc)
  moreover have "[Suc n..<L div ?h + 2] = Suc n # [Suc (Suc n)..<L div ?h + 2]"
    using \<open>n \<le> L div ?h\<close> by (intro upt_conv_Cons) simp
  ultimately have e: "[1..<L div ?h + 2] = [1..<Suc n] @ Suc n # [Suc (Suc n)..<L div ?h + 2]"
    by simp
  show ?thesis
    using assms unfolding pbkdf2_def e by (simp del: upt_Suc)
qed

lemma buf_write_append:
  "buf_write (buf_write b 0 x) (length x) y = buf_write b 0 (x @ y)"
  by (simp add: buf_write_def add.commute)

lemma pkcs5_turn_ok:
  assumes "holds tab i alg" "hmac_state_wf u" "0 < length P" "length P < 2 ^ 60" "length S < 2 ^ 59"
    "pkcs5_at alg P S c out0 L m0 n st" "st = (err, m, h, out, stored, left, blkno)" "left \<noteq> 0"
  shows "let st' = pkcs5_turn tab u P S c (int i) st; left' = fst (snd (snd (snd (snd (snd st'))))) in
    (fst st' \<noteq> CRYPT_OK \<or> left' = 0) \<and> pkcs5_result alg P S c out0 L m0 st' \<or>
    left' < left \<and> fst st' = CRYPT_OK \<and> left' \<noteq> 0 \<and> pkcs5_at alg P S c out0 L m0 (Suc n) st'"
proof -
  let ?h = "hashsize (descriptor_of alg)" and ?F = "pbkdf2_F (hmac_of alg) P S (nat c)"
  have st: "hmac_state_wf h" "blkno = of_nat (Suc n)" "stored = n * ?h" "L = stored + left" "plenty m0 \<longrightarrow> plenty m"
    "out = buf_write out0 0 (concat (map ?F [1..<Suc n]))"
    using assms(6) by (auto simp: pkcs5_at_def assms(7))
  obtain err1 m1 h1 buf1 x where b: "pkcs5_block tab u P S c (int i) m h blkno = (err1, m1, h1, buf1, x)"
    by (metis prod_cases5)
  have 1: "ok_or_mem m m1 err1 (x = ?h \<and> take x buf1 = ?F (Suc n) \<and> hmac_state_wf h1)"
    using pkcs5_block_ok [OF assms(1,2) st(1) assms(3-5), where c = c and m = m and b = "Suc n"] b
    unfolding st(2) by simp
  have w: "buf_write out (n * ?h) y = buf_write out0 0 (concat (map ?F [1..<Suc n]) @ y)" for y
    unfolding st(6) using buf_write_append [of out0 "concat (map ?F [1..<Suc n])" y] by (simp del: upt_Suc)
  show ?thesis
  proof (cases "err1 = CRYPT_OK")
    case False
    have "length out = L" if "length out0 = L" using st(3,4) that by (simp add: st(6) length_buf_write del: upt_Suc)
    with False 1 b st(5) show ?thesis
      by (auto simp: pkcs5_turn_def assms(7) pkcs5_result_def ok_or_mem_def)
  next
    case True
    with 1 have x: "x = ?h" "take ?h buf1 = ?F (Suc n)" "hmac_state_wf h1" "plenty m0 \<longrightarrow> plenty m1"
      using st(5) by (auto simp: ok_or_mem_def)
    show ?thesis
    proof (cases "left \<le> ?h")
      case le: True
      then have "take left buf1 = take left (?F (Suc n))"
        by (simp flip: x(2))
      then show ?thesis
        using le True b st(3,4) x(4) pbkdf2_cut [of n alg L P S "nat c", symmetric]
        by (simp add: pkcs5_turn_def assms(7) pkcs5_result_def ok_or_mem_def x(1) w length_buf_write del: upt_Suc)
    next
      case gt: False
      then show ?thesis
        using True b st(2-4) x
        by (simp add: pkcs5_turn_def assms(7) pkcs5_at_def w Let_def)
    qed
  qed
qed

lemma pkcs5_loop:
  assumes "holds tab i alg" "hmac_state_wf u" "0 < length P" "length P < 2 ^ 60" "length S < 2 ^ 59"
    "pkcs5_at alg P S c out0 L m0 n (err, m, h, out, stored, left, blkno)" "left \<noteq> 0"
  shows "pkcs5_result alg P S c out0 L m0
    (while pkcs5_go (pkcs5_turn tab u P S c (int i)) (err, m, h, out, stored, left, blkno))"
  using assms(6,7)
proof (induction left arbitrary: n err m h out stored blkno rule: less_induct)
  case (less left)
  let ?st = "(err, m, h, out, stored, left, blkno)"
  obtain err' m' h' out' stored' left' blkno' where
    t: "pkcs5_turn tab u P S c (int i) ?st = (err', m', h', out', stored', left', blkno')" by (metis prod_cases7)
  have go: "pkcs5_go ?st" using less.prems by (simp add: pkcs5_at_def pkcs5_go_def)
  have w: "while pkcs5_go (pkcs5_turn tab u P S c (int i)) ?st =
      while pkcs5_go (pkcs5_turn tab u P S c (int i)) (err', m', h', out', stored', left', blkno')"
    using go t by (subst while_unfold) simp
  from pkcs5_turn_ok [OF assms(1-5) less.prems(1) refl less.prems(2)] t
  consider "err' \<noteq> CRYPT_OK \<or> left' = 0" "pkcs5_result alg P S c out0 L m0 (err', m', h', out', stored', left', blkno')"
    | "left' < left" "left' \<noteq> 0" "pkcs5_at alg P S c out0 L m0 (Suc n) (err', m', h', out', stored', left', blkno')"
    by (auto simp: Let_def)
  then show ?case
  proof cases
    case 1 then show ?thesis unfolding w by (subst while_unfold) (auto simp: pkcs5_go_def)
  next
    case 2 then show ?thesis unfolding w by (intro less.IH)
  qed
qed

lemma pkcs_5_alg2_ok:
  assumes "holds tab i alg" "hmac_state_wf u" "0 < length P" "length P < 2 ^ 60" "length S < 2 ^ 59"
  shows "case pkcs_5_alg2 tab u m P S c (int i) out outlen of (err, m', out', outlen') \<Rightarrow>
    ok_or_mem m m' err (outlen' = outlen \<and>
      out' = buf_write out 0 (pbkdf2 (hmac_of alg) (hashsize (descriptor_of alg)) P S (nat c) outlen)) \<and>
    (length out = outlen \<longrightarrow> length out' = outlen)"
proof (cases rule: xmalloc_cases [of m])
  case (fail m1)
  obtain b m2 where "xmalloc m1 = (b, m2)" by (cases "xmalloc m1")
  with fail assms(1) show ?thesis by (simp add: pkcs_5_alg2_def holds_valid ok_or_mem_def Let_def)
next
  case (ok m1)
  show ?thesis
  proof (cases rule: xmalloc_cases [of m1])
    case (fail m2)
    with ok assms(1) show ?thesis by (simp add: pkcs_5_alg2_def holds_valid ok_or_mem_def Let_def)
  next
    case ok2: (ok m2)
    let ?st = "(CRYPT_OK, m2, u, out, 0, outlen, 1)"
    have at: "pkcs5_at alg P S c out outlen m 0 ?st"
      using ok(2) ok2(2) assms(2) by (simp add: pkcs5_at_def buf_write_def)
    have "pkcs5_result alg P S c out outlen m (while pkcs5_go (pkcs5_turn tab u P S c (int i)) ?st)"
    proof (cases "outlen = 0")
      case True
      then show ?thesis using ok(2) ok2(2)
        by (subst while_unfold) (simp add: pkcs5_go_def pkcs5_result_def ok_or_mem_def pbkdf2_def buf_write_def)
    next
      case False
      then show ?thesis using pkcs5_loop [OF assms at] by simp
    qed
    moreover obtain err m' h out' stored left blkno where
      "while pkcs5_go (pkcs5_turn tab u P S c (int i)) ?st = (err, m', h, out', stored, left, blkno)"
      by (metis prod_cases7)
    ultimately show ?thesis
      using ok ok2 assms(1) by (auto simp: pkcs_5_alg2_def holds_valid pkcs5_result_def ok_or_mem_def)
  qed
qed

section \<open>Properties\<close>

text \<open>
  C6: \<open>pkcs_5_alg2\<close> over any hash of the library terminates for every iteration count
  and output size, and either writes exactly the PBKDF2 key of RFC 2898 (iteration
  counts below 1 count as 1) of the size asked for, or reports \<open>CRYPT_MEM\<close>, which
  happens only when an allocation fails.
\<close>

theorem pkcs_5_alg2_rfc2898:
  assumes "holds tab i alg" "hmac_state_wf u" "0 < length P" "length P < 2 ^ 60" "length S < 2 ^ 59"
    "pkcs_5_alg2 tab u m P S c (int i) out outlen = (err, m', out', outlen')"
  shows "(err = CRYPT_OK \<and> outlen' = outlen \<and>
      out' = buf_write out 0 (pbkdf2 (hmac_of alg) (hashsize (descriptor_of alg)) P S (nat c) outlen))
    \<or> (err = CRYPT_MEM \<and> (\<exists>n. \<not> m n))"
  using pkcs_5_alg2_ok [OF assms(1-5), where m = m and c = c and out = out and outlen = outlen] assms(6)
  by (auto simp: ok_or_mem_def plenty_def)

theorem pkcs_5_alg2_rfc2898_witness:
  "\<exists>m'. pkcs_5_alg2 (hash_descriptor0[0 := Some sha512_desc]) blank_hmac (\<lambda>_. True) [7] [8, 9] 256000 0 (replicate 32 0) 32 =
     (CRYPT_OK, m', buf_write (replicate 32 0) 0 (pbkdf2 (hmac_of SHA512) 64 [7] [8, 9] 256000 32), 32)"
proof -
  obtain err m' out' outlen' where
    r: "pkcs_5_alg2 (hash_descriptor0[0 := Some (descriptor_of SHA512)]) blank_hmac (\<lambda>_. True) [7] [8, 9] 256000 (int 0)
      (replicate 32 0) 32 = (err, m', out', outlen')" by (metis prod_cases4)
  from pkcs_5_alg2_rfc2898 [OF holds_slot0 blank_hmac_wf(1) _ _ _ r] r show ?thesis
    by (auto simp: sha512_desc_def)
qed

end
