(* ===== verification/Fortuna.thy ===== *)
theory Fortuna
  imports AesTest Hashes
begin

text \<open>
  The Fortuna generator of \<open>fortuna.c\<close>: 32 SHA-256 pools, an AES-256 counter
  generator, reseeding, export and import.  \<open>timed\<close> says whether
  \<open>LTC_FORTUNA_RESEED_RATELIMIT_TIMED\<close> is defined, \<open>now\<close> is the value of
  \<open>s_fortuna_current_time\<close> at the call; \<open>u\<close> and \<open>tmp0\<close> are uninitialised locals.  The
  mutex of the state is not modelled: each operation is atomic.
\<close>

unbundle bit_operations_syntax

section \<open>The code\<close>

definition LTC_FORTUNA_POOLS :: nat where "LTC_FORTUNA_POOLS = 32"
definition LTC_FORTUNA_WD :: u64 where "LTC_FORTUNA_WD = 10"

record prng_state =
  pool :: "u32 md_state list"
  skey :: rijndael_key
  fK :: bytes
  fIV :: bytes
  pool_idx :: nat
  pool0_len :: nat
  wd :: u64
  reset_cnt :: u64
  ready :: bool

text \<open>The loop of \<open>s_fortuna_update_iv\<close> over the bytes of the IV.\<close>

fun update_iv :: "bytes \<Rightarrow> bytes" where
  "update_iv [] = []"
| "update_iv (b # iv) = (let b = (b + 1) AND 255 in if b \<noteq> 0 then b # iv else b # update_iv iv)"

definition s_fortuna_update_iv :: "prng_state \<Rightarrow> prng_state" where
  "s_fortuna_update_iv prng = prng\<lparr>fIV := update_iv (fIV prng)\<rparr>"

text \<open>The loop over the pools in \<open>s_fortuna_reseed\<close>: \<open>k\<close> pools are left from \<open>x\<close> on.\<close>

primrec reseed_pools :: "nat \<Rightarrow> nat \<Rightarrow> u64 \<Rightarrow> u32 md_state list \<Rightarrow> u32 md_state \<Rightarrow>
    crypt_rc \<times> u32 md_state list \<times> u32 md_state" where
  "reseed_pools 0 x cnt ps md = (CRYPT_OK, ps, md)"
| "reseed_pools (Suc k) x cnt ps md =
     (if x = 0 \<or> drop_bit (x - 1) cnt AND 1 = 0
      then let (err, p, tmp) = sha256_done (ps ! x) in
        if err \<noteq> CRYPT_OK then (err, ps[x := p], md)
        else let (err, md) = sha256_process md tmp in
          if err \<noteq> CRYPT_OK then (err, ps[x := p], md)
          else reseed_pools k (x + 1) cnt (ps[x := sha256_init p]) md
      else (CRYPT_OK, ps, md))"

definition s_fortuna_reseed :: "bool \<Rightarrow> u64 \<Rightarrow> u32 md_state \<Rightarrow> prng_state \<Rightarrow> crypt_rc \<times> prng_state" where
  "s_fortuna_reseed timed now u prng =
     (if timed \<and> now = wd prng then (CRYPT_OK, prng)
      else let prng = (if timed then prng else prng\<lparr>wd := wd prng + 1\<rparr>) in
        if \<not> timed \<and> wd prng < LTC_FORTUNA_WD then (CRYPT_OK, prng)
        else let md = sha256_init u;
                 (err, md) = sha256_process md (fK prng) in
          if err \<noteq> CRYPT_OK then (err, prng)
          else let cnt = reset_cnt prng + 1;
                   (err, ps, md) = reseed_pools LTC_FORTUNA_POOLS 0 cnt (pool prng) md;
                   prng = prng\<lparr>pool := ps\<rparr> in
            if err \<noteq> CRYPT_OK then (err, prng)
            else let (err, md, K) = sha256_done md in
              if err \<noteq> CRYPT_OK then (err, prng)
              else let prng = prng\<lparr>fK := K\<rparr> in
                case rijndael_setup (fK prng) 32 0 (skey prng) of
                  Inl err \<Rightarrow> (err, prng)
                | Inr k \<Rightarrow>
                   (CRYPT_OK, (s_fortuna_update_iv (prng\<lparr>skey := k\<rparr>))
                      \<lparr>pool0_len := 0, wd := (if timed then now else 0), reset_cnt := cnt\<rparr>))"

definition fortuna_update_seed :: "u32 md_state \<Rightarrow> bytes \<Rightarrow> prng_state \<Rightarrow> crypt_rc \<times> prng_state" where
  "fortuna_update_seed u inp prng =
     (let md = sha256_init u;
          (err, md) = sha256_process md (fK prng) in
      if err \<noteq> CRYPT_OK then (err, prng)
      else let (err, md) = sha256_process md inp in
        if err \<noteq> CRYPT_OK then (err, prng)
        else let (err, md, K) = sha256_done md in
          if err \<noteq> CRYPT_OK then (err, prng)
          else (CRYPT_OK, s_fortuna_update_iv (prng\<lparr>fK := K\<rparr>)))"

definition fortuna_start :: "prng_state \<Rightarrow> crypt_rc \<times> prng_state" where
  "fortuna_start prng =
     (let prng = prng\<lparr>ready := False, pool := map sha256_init (pool prng), pool_idx := 0, pool0_len := 0,
                      reset_cnt := 0, wd := 0, fK := replicate 32 0\<rparr> in
      case rijndael_setup (fK prng) 32 0 (skey prng) of
        Inl err \<Rightarrow> (err, prng)
      | Inr k \<Rightarrow> (CRYPT_OK, prng\<lparr>skey := k, fIV := replicate 16 0\<rparr>))"

definition s_fortuna_add :: "nat \<Rightarrow> nat \<Rightarrow> bytes \<Rightarrow> nat \<Rightarrow> prng_state \<Rightarrow> crypt_rc \<times> prng_state" where
  "s_fortuna_add source p inp inlen prng =
     (let inlen = (if inlen > 32 then 32 else inlen);
          tmp = [of_nat source, of_nat inlen];
          (err, h) = sha256_process (pool prng ! p) tmp;
          prng = prng\<lparr>pool := (pool prng)[p := h]\<rparr> in
      if err \<noteq> CRYPT_OK then (err, prng)
      else let (err, h) = sha256_process (pool prng ! p) (take inlen inp);
               prng = prng\<lparr>pool := (pool prng)[p := h]\<rparr> in
        if err \<noteq> CRYPT_OK then (err, prng)
        else (CRYPT_OK, if p = 0 then prng\<lparr>pool0_len := pool0_len prng + inlen\<rparr> else prng))"

definition fortuna_add_random_event :: "nat \<Rightarrow> nat \<Rightarrow> bytes \<Rightarrow> nat \<Rightarrow> prng_state \<Rightarrow> crypt_rc \<times> prng_state" where
  "fortuna_add_random_event source p inp inlen prng = s_fortuna_add source p inp inlen prng"

definition fortuna_add_entropy :: "bytes \<Rightarrow> nat \<Rightarrow> prng_state \<Rightarrow> crypt_rc \<times> prng_state" where
  "fortuna_add_entropy inp inlen prng =
     (let (err, prng) = s_fortuna_add 0 (pool_idx prng) inp inlen prng in
      if err = CRYPT_OK
      then (err, prng\<lparr>pool_idx := (pool_idx prng + 1) mod LTC_FORTUNA_POOLS\<rparr>)
      else (err, prng))"

text \<open>\<open>now0\<close> and \<open>now\<close> are the times at the two readings of the clock.\<close>

definition fortuna_ready :: "bool \<Rightarrow> u64 \<Rightarrow> u64 \<Rightarrow> u32 md_state \<Rightarrow> prng_state \<Rightarrow> crypt_rc \<times> prng_state" where
  "fortuna_ready timed now0 now u prng =
     (let prng = prng\<lparr>wd := (if timed then now0 - 1 else LTC_FORTUNA_WD)\<rparr>;
          (err, prng) = s_fortuna_reseed timed now u prng
      in (err, prng\<lparr>ready := (err = CRYPT_OK)\<rparr>))"

text \<open>One block: the IV is encrypted into the 16 bytes at \<open>dst\<close>, whose status is ignored.\<close>

definition fortuna_block :: "prng_state \<Rightarrow> bytes \<Rightarrow> bytes" where
  "fortuna_block prng dst = into (rijndael_ecb_encrypt (fIV prng) (skey prng)) dst"

primrec fortuna_whole :: "nat \<Rightarrow> nat \<Rightarrow> bytes \<Rightarrow> prng_state \<Rightarrow> bytes \<times> prng_state" where
  "fortuna_whole 0 pos out prng = (out, prng)"
| "fortuna_whole (Suc n) pos out prng =
     fortuna_whole n (pos + 16) (buf_write out pos (fortuna_block prng (take 16 (drop pos out))))
       (s_fortuna_update_iv prng)"

definition fortuna_output :: "bytes \<Rightarrow> bytes \<Rightarrow> nat \<Rightarrow> prng_state \<Rightarrow> bytes \<times> prng_state" where
  "fortuna_output tmp0 out outlen prng =
     (let (out, prng) = fortuna_whole (outlen div 16) 0 out prng;
          left = outlen mod 16 in
      if left > 0
      then (buf_write out (outlen - left) (take left (fortuna_block prng tmp0)), s_fortuna_update_iv prng)
      else (out, prng))"

text \<open>The new key; the flag says whether \<open>rijndael_setup\<close> accepted it.\<close>

definition fortuna_rekey :: "prng_state \<Rightarrow> bool \<times> prng_state" where
  "fortuna_rekey prng =
     (let prng = prng\<lparr>fK := buf_write (fK prng) 0 (fortuna_block prng (take 16 (fK prng)))\<rparr>;
          prng = s_fortuna_update_iv prng;
          prng = prng\<lparr>fK := buf_write (fK prng) 16 (fortuna_block prng (drop 16 (fK prng)))\<rparr>;
          prng = s_fortuna_update_iv prng
      in case rijndael_setup (fK prng) 32 0 (skey prng) of
           Inl _ \<Rightarrow> (False, prng)
         | Inr k \<Rightarrow> (True, prng\<lparr>skey := k\<rparr>))"

definition fortuna_generate :: "bytes \<Rightarrow> bytes \<Rightarrow> nat \<Rightarrow> prng_state \<Rightarrow> nat \<times> bytes \<times> prng_state" where
  "fortuna_generate tmp0 out outlen prng =
     (let (out, prng) = fortuna_output tmp0 out outlen prng;
          (accepted, prng) = fortuna_rekey prng
      in (if accepted then outlen else 0, out, prng))"

definition fortuna_read :: "bool \<Rightarrow> u64 \<Rightarrow> u32 md_state \<Rightarrow> bytes \<Rightarrow> bytes \<Rightarrow> nat \<Rightarrow> prng_state \<Rightarrow>
    nat \<times> bytes \<times> prng_state" where
  "fortuna_read timed now u tmp0 out outlen prng =
     (if outlen = 0 then (0, out, prng)
      else if \<not> ready prng then (0, out, prng)
      else let (err, prng) = (if pool0_len prng \<ge> 64 then s_fortuna_reseed timed now u prng else (CRYPT_OK, prng)) in
        if err \<noteq> CRYPT_OK then (0, out, prng)
        else if reset_cnt prng = 0 then (0, out, prng)
        else fortuna_generate tmp0 out outlen prng)"

primrec done_pools :: "nat \<Rightarrow> nat \<Rightarrow> u32 md_state list \<Rightarrow> crypt_rc \<times> u32 md_state list" where
  "done_pools 0 x ps = (CRYPT_OK, ps)"
| "done_pools (Suc k) x ps =
     (let (err, p, tmp) = sha256_done (ps ! x) in
      if err \<noteq> CRYPT_OK then (err, ps[x := p]) else done_pools k (x + 1) (ps[x := p]))"

definition fortuna_done :: "prng_state \<Rightarrow> crypt_rc \<times> prng_state" where
  "fortuna_done prng =
     (let (err, ps) = done_pools LTC_FORTUNA_POOLS 0 (pool prng)
      in (err, prng\<lparr>ready := False, pool := ps\<rparr>))"

definition fortuna_export :: "bool \<Rightarrow> u64 \<Rightarrow> u32 md_state \<Rightarrow> bytes \<Rightarrow> bytes \<Rightarrow> nat \<Rightarrow> prng_state \<Rightarrow>
    crypt_rc \<times> bytes \<times> nat \<times> prng_state" where
  "fortuna_export timed now u tmp0 out outlen prng =
     (let len = export_size fortuna_desc in
      if outlen < len then (CRYPT_BUFFER_OVERFLOW, out, len, prng)
      else let (n, out, prng) = fortuna_read timed now u tmp0 out len prng in
        if n \<noteq> len then (CRYPT_ERROR_READPRNG, out, outlen, prng)
        else (CRYPT_OK, out, len, prng))"

definition fortuna_import :: "u32 md_state \<Rightarrow> bytes \<Rightarrow> prng_state \<Rightarrow> crypt_rc \<times> prng_state" where
  "fortuna_import u inp prng =
     (if length inp < export_size fortuna_desc then (CRYPT_INVALID_ARG, prng)
      else let (err, prng) = fortuna_start prng in
        if err \<noteq> CRYPT_OK then (err, prng) else fortuna_update_seed u inp prng)"

section \<open>The counter\<close>

fun le_value :: "bytes \<Rightarrow> nat" where
  "le_value [] = 0"
| "le_value (b # bs) = unat b + 256 * le_value bs"

lemma le_value_less: "le_value bs < 256 ^ length bs"
proof (induction bs)
  case (Cons b bs)
  have "unat b + 256 * le_value bs < 256 * (le_value bs + 1)" by (simp add: unat_byte_less)
  also have "\<dots> \<le> 256 * 256 ^ length bs" using Cons by (intro mult_le_mono2) simp
  finally show ?case by simp
qed simp

lemma length_update_iv [simp]: "length (update_iv iv) = length iv"
  by (induction iv) (auto simp: Let_def)

lemma update_iv_value: "le_value (update_iv iv) = (le_value iv + 1) mod 256 ^ length iv"
proof (induction iv)
  case (Cons b iv)
  show ?case
  proof (cases "b + 1 = 0")
    case True
    then have "b = - 1" by (simp add: eq_neg_iff_add_eq_0)
    then have "unat b = 255" by (simp add: unsigned_minus_1_eq_mask mask_eq_exp_minus_1)
    then have "unat b + 256 * le_value iv + 1 = 256 * (le_value iv + 1)" by simp
    then show ?thesis
      using True Cons by (simp add: mult_mod_right)
  next
    case False
    have u: "unat (b + 1) = (unat b + 1) mod 256" by (simp add: unat_word_ariths)
    have "unat b + 1 < 256"
    proof (rule ccontr)
      assume "\<not> unat b + 1 < 256"
      then have "unat b + 1 = 256" using unat_byte_less [of b] by linarith
      then show False using u False by (simp add: unsigned_eq_0_iff)
    qed
    moreover from this u have "unat (b + 1) = unat b + 1" by simp
    moreover have "unat b + 1 + 256 * le_value iv < 256 * 256 ^ length iv"
    proof -
      have "unat b + 1 + 256 * le_value iv < 256 * (le_value iv + 1)" using calculation by simp
      also have "\<dots> \<le> 256 * 256 ^ length iv"
        using le_value_less [of iv] by (intro mult_le_mono2) simp
      finally show ?thesis .
    qed
    ultimately show ?thesis using False by (simp add: Let_def)
  qed
qed simp

section \<open>The pools\<close>

abbreviation absorbed256 :: "u32 md_state \<Rightarrow> bytes \<Rightarrow> bool" where
  "absorbed256 \<equiv> md_absorbed s_sha256_compress 64 sha256_iv"

interpretation sha256_stream: stream_hash sha256_init sha256_process sha256_done
  "\<lambda>md. length (md_buf md) = 64" absorbed256 fips_sha256 32
proof unfold_locales
  fix s m x
  show "length (md_buf s) = 64 \<Longrightarrow> absorbed256 (sha256_init s) []"
    by (rule sha256.init_absorbed) (simp_all add: sha256_init_def)
  show "absorbed256 s m \<Longrightarrow> 8 * (length m + length x) < 2 ^ 64 \<Longrightarrow>
      \<exists>s'. sha256_process s x = (CRYPT_OK, s') \<and> absorbed256 s' (m @ x)"
    unfolding sha256_process_def by (rule sha256.process)
  show "absorbed256 s m \<Longrightarrow> \<exists>s'. sha256_done s = (CRYPT_OK, s', fips_sha256 m) \<and> length (md_buf s') = 64"
    unfolding sha256_done_def code_digests(2) [symmetric] by (rule sha256.done_ok)
  show "absorbed256 s m \<Longrightarrow> length (md_buf s) = 64" by (rule sha256.absorbed_buf)
  show "length (fips_sha256 m) = 32" using hash.digest_length [of SHA256 m] by (simp add: sha256_desc_def)
qed

definition pools_rep :: "u32 md_state list \<Rightarrow> bytes list \<Rightarrow> bool" where
  "pools_rep ps cs \<longleftrightarrow> length ps = LTC_FORTUNA_POOLS \<and> length cs = LTC_FORTUNA_POOLS \<and>
     (\<forall>x < LTC_FORTUNA_POOLS. absorbed256 (ps ! x) (cs ! x))"

lemma pools_rep_update:
  "pools_rep ps cs \<Longrightarrow> x < LTC_FORTUNA_POOLS \<Longrightarrow> absorbed256 p c \<Longrightarrow> pools_rep (ps[x := p]) (cs[x := c])"
  by (auto simp: pools_rep_def nth_list_update)

text \<open>Pool \<open>x\<close> takes part in reseed number \<open>cnt\<close> when \<open>2^x\<close> divides \<open>cnt\<close>.\<close>

definition drained :: "u64 \<Rightarrow> nat \<Rightarrow> bool" where
  "drained cnt x \<longleftrightarrow> 2 ^ x dvd unat cnt"

lemma drained_take_bit: "drained cnt x \<longleftrightarrow> take_bit x cnt = 0"
proof -
  have "take_bit x cnt = 0 \<longleftrightarrow> unat (take_bit x cnt) = 0" by (simp add: unsigned_eq_0_iff)
  also have "\<dots> \<longleftrightarrow> take_bit x (unat cnt) = 0" by (simp add: unsigned_take_bit_eq)
  finally show ?thesis by (simp add: drained_def take_bit_eq_0_iff)
qed

lemma drained_step:
  assumes "x = 0 \<or> drained cnt (x - 1)"
  shows "(x = 0 \<or> drop_bit (x - 1) cnt AND 1 = 0) \<longleftrightarrow> drained cnt x"
proof (cases x)
  case 0 then show ?thesis by (simp add: drained_def)
next
  case (Suc n)
  have "drop_bit n cnt AND 1 = 0 \<longleftrightarrow> \<not> bit cnt n" by (simp add: and_one_eq odd_iff_mod_2_eq_one [symmetric] bit_iff_odd_drop_bit even_iff_mod_2_eq_zero [symmetric])
  moreover have "take_bit (Suc n) cnt = 0 \<longleftrightarrow> \<not> bit cnt n" if z: "take_bit n cnt = 0"
  proof
    assume "take_bit (Suc n) cnt = 0"
    then show "\<not> bit cnt n" by (metis bit_0_eq bit_take_bit_iff bot_apply bot_bool_def lessI)
  next
    assume "\<not> bit cnt n"
    moreover have "\<not> bit cnt i" if "i < n" for i
      using z that by (metis bit_0_eq bit_take_bit_iff bot_apply bot_bool_def)
    ultimately show "take_bit (Suc n) cnt = 0"
      by (intro bit_word_eqI) (auto simp: bit_take_bit_iff less_Suc_eq)
  qed
  ultimately show ?thesis using assms Suc by (simp add: drained_take_bit)
qed

lemma drained_mono: "drained cnt y \<Longrightarrow> x \<le> y \<Longrightarrow> drained cnt x"
  unfolding drained_def by (meson dvd_trans le_imp_power_dvd)

text \<open>What a reseed hashes after the key, and what it leaves in the pools.\<close>

definition seed_string :: "u64 \<Rightarrow> bytes list \<Rightarrow> nat \<Rightarrow> bytes" where
  "seed_string cnt cs x = concat (map (\<lambda>y. fips_sha256 (cs ! y)) (filter (drained cnt) [x..<LTC_FORTUNA_POOLS]))"

definition pools_after :: "u64 \<Rightarrow> bytes list \<Rightarrow> nat \<Rightarrow> bytes list" where
  "pools_after cnt cs x =
     map (\<lambda>y. if x \<le> y \<and> drained cnt y then [] else cs ! y) [0..<LTC_FORTUNA_POOLS]"

lemma none_drained:
  assumes "\<not> drained cnt x" "length cs = LTC_FORTUNA_POOLS"
  shows "seed_string cnt cs x = []" "pools_after cnt cs x = cs"
proof -
  have n: "\<not> drained cnt y" if "x \<le> y" for y using drained_mono assms(1) that by blast
  then show "seed_string cnt cs x = []" by (auto simp: seed_string_def filter_empty_conv)
  show "pools_after cnt cs x = cs" using n assms(2)
    by (intro nth_equalityI) (auto simp: pools_after_def)
qed

lemma reseed_pools_ok:
  assumes "x + k = LTC_FORTUNA_POOLS" "x = 0 \<or> drained cnt (x - 1)" "pools_rep ps cs" "absorbed256 md m"
    "length m + 32 * k < 2 ^ 60"
  shows "\<exists>ps' md'. reseed_pools k x cnt ps md = (CRYPT_OK, ps', md') \<and>
    pools_rep ps' (pools_after cnt cs x) \<and> absorbed256 md' (m @ seed_string cnt cs x)"
  using assms
proof (induction k arbitrary: x ps cs md m)
  case 0
  have "pools_after cnt cs x = cs" using 0 by (intro nth_equalityI) (auto simp: pools_after_def pools_rep_def)
  with 0 show ?case by (simp add: seed_string_def)
next
  case (Suc k)
  have len: "length cs = LTC_FORTUNA_POOLS" "x < LTC_FORTUNA_POOLS" using Suc.prems by (auto simp: pools_rep_def)
  show ?case
  proof (cases "drained cnt x")
    case False
    with Suc.prems drained_step [OF Suc.prems(2)] none_drained [OF False len(1)] show ?thesis by simp
  next
    case True
    have px: "absorbed256 (ps ! x) (cs ! x)" using Suc.prems(3) len(2) by (simp add: pools_rep_def)
    obtain p where p: "sha256_done (ps ! x) = (CRYPT_OK, p, fips_sha256 (cs ! x))" "length (md_buf p) = 64"
      using sha256_stream.finish [OF px] by auto
    obtain md1 where md1: "sha256_process md (fips_sha256 (cs ! x)) = (CRYPT_OK, md1)"
      "absorbed256 md1 (m @ fips_sha256 (cs ! x))"
      using sha256_stream.process [OF Suc.prems(4), of "fips_sha256 (cs ! x)"] Suc.prems(5)
      by (auto simp: sha256_stream.digest_length)
    let ?cs = "cs[x := []]"
    have rep: "pools_rep (ps[x := sha256_init p]) ?cs"
      using Suc.prems(3) len(2) sha256_stream.init [OF p(2)] by (rule pools_rep_update)
    have "seed_string cnt cs x = fips_sha256 (cs ! x) @ seed_string cnt ?cs (x + 1)"
      using True len by (simp add: seed_string_def upt_conv_Cons) (rule arg_cong [where f = concat], auto)
    moreover have "pools_after cnt ?cs (x + 1) = pools_after cnt cs x"
      using True len by (intro nth_equalityI) (auto simp: pools_after_def nth_list_update)
    moreover have "\<exists>ps' md'. reseed_pools k (x + 1) cnt (ps[x := sha256_init p]) md1 = (CRYPT_OK, ps', md') \<and>
        pools_rep ps' (pools_after cnt ?cs (x + 1)) \<and>
        absorbed256 md' ((m @ fips_sha256 (cs ! x)) @ seed_string cnt ?cs (x + 1))"
      by (rule Suc.IH [OF _ _ rep md1(2)]) (use Suc.prems(1,5) True in \<open>simp_all add: sha256_stream.digest_length\<close>)
    ultimately show ?thesis
      using drained_step [OF Suc.prems(2)] True p(1) md1(1) by simp
  qed
qed

section \<open>The state of the generator\<close>

text \<open>
  \<open>fortuna_rep prng cs ck\<close>: the pools have absorbed the byte strings \<open>cs\<close>, the buffers
  have their sizes, and the scheduled key is that of the 32 bytes \<open>ck\<close>.
\<close>

definition fortuna_rep :: "prng_state \<Rightarrow> bytes list \<Rightarrow> bytes \<Rightarrow> bool" where
  "fortuna_rep prng cs ck \<longleftrightarrow>
     pools_rep (pool prng) cs \<and> length (fK prng) = 32 \<and> length (fIV prng) = 16 \<and> length ck = 32 \<and>
     key_wf (skey prng) \<and> (\<exists>s0. key_wf s0 \<and> rijndael_setup ck 32 0 s0 = Inr (skey prng)) \<and>
     pool_idx prng < LTC_FORTUNA_POOLS"

lemma setup32:
  assumes "key_wf s0" "length K = 32"
  obtains k where "rijndael_setup K 32 0 s0 = Inr k" "key_wf k"
proof -
  obtain k where k: "rijndael_setup K 32 0 s0 = Inr k" using rijndael_setup_succeeds [of 32 K s0] by auto
  show ?thesis by (rule that [OF k setup_wf(1) [OF k assms(1)]])
qed

lemma reseed_ok:
  assumes "fortuna_rep prng cs ck" "length (md_buf u) = 64" "timed \<Longrightarrow> now \<noteq> wd prng"
    "\<not> timed \<Longrightarrow> wd prng + 1 \<ge> LTC_FORTUNA_WD"
  shows "\<exists>prng'. s_fortuna_reseed timed now u prng = (CRYPT_OK, prng') \<and>
    (let cnt = reset_cnt prng + 1; K = fips_sha256 (fK prng @ seed_string cnt cs 0) in
     fortuna_rep prng' (pools_after cnt cs 0) K \<and> fK prng' = K \<and> reset_cnt prng' = cnt \<and>
     pool0_len prng' = 0 \<and> fIV prng' = update_iv (fIV prng) \<and> ready prng' = ready prng \<and>
     pool_idx prng' = pool_idx prng)"
proof -
  let ?cnt = "reset_cnt prng + 1"
  let ?K = "fips_sha256 (fK prng @ seed_string ?cnt cs 0)"
  have r: "pools_rep (pool prng) cs" "length (fK prng) = 32" "length (fIV prng) = 16" "key_wf (skey prng)"
    "pool_idx prng < LTC_FORTUNA_POOLS" using assms(1) by (simp_all add: fortuna_rep_def)
  obtain md1 where md1: "sha256_process (sha256_init u) (fK prng) = (CRYPT_OK, md1)" "absorbed256 md1 (fK prng)"
    using sha256_stream.process [OF sha256_stream.init [OF assms(2)], of "fK prng"] r(2) by auto
  obtain ps md2 where ps: "reseed_pools LTC_FORTUNA_POOLS 0 ?cnt (pool prng) md1 = (CRYPT_OK, ps, md2)"
    "pools_rep ps (pools_after ?cnt cs 0)" "absorbed256 md2 (fK prng @ seed_string ?cnt cs 0)"
    using reseed_pools_ok [of 0 LTC_FORTUNA_POOLS ?cnt "pool prng" cs md1 "fK prng"] r(1,2) md1(2)
    by (auto simp: LTC_FORTUNA_POOLS_def)
  obtain md3 where md3: "sha256_done md2 = (CRYPT_OK, md3, ?K)" using sha256_stream.finish [OF ps(3)] by auto
  have lK: "length ?K = 32" by (rule sha256_stream.digest_length)
  obtain k where k: "rijndael_setup ?K 32 0 (skey prng) = Inr k" "key_wf k" by (rule setup32 [OF r(4) lK])
  have g: "\<not> (timed \<and> now = wd prng)" "\<not> (\<not> timed \<and> wd prng + 1 < LTC_FORTUNA_WD)"
    using assms(3,4) by auto
  let ?wd = "if timed then now else 0"
  have "s_fortuna_reseed timed now u prng = (CRYPT_OK, (s_fortuna_update_iv (prng\<lparr>pool := ps, fK := ?K, skey := k\<rparr>))
      \<lparr>pool0_len := 0, wd := ?wd, reset_cnt := ?cnt\<rparr>)"
    using g md1(1) ps(1) md3 k(1)
    by (cases timed) (simp_all add: s_fortuna_reseed_def s_fortuna_update_iv_def Let_def)
  moreover have "fortuna_rep ((s_fortuna_update_iv (prng\<lparr>pool := ps, fK := ?K, skey := k\<rparr>))
      \<lparr>pool0_len := 0, wd := ?wd, reset_cnt := ?cnt\<rparr>) (pools_after ?cnt cs 0) ?K"
    using ps(2) lK k r(3-5) by (auto simp: fortuna_rep_def s_fortuna_update_iv_def)
  ultimately show ?thesis by (simp add: Let_def s_fortuna_update_iv_def)
qed

lemma add_ok:
  assumes "fortuna_rep prng cs ck" "p < LTC_FORTUNA_POOLS" "length (cs ! p) < 2 ^ 59" "inlen \<le> length inp"
  shows "\<exists>prng'. s_fortuna_add source p inp inlen prng = (CRYPT_OK, prng') \<and>
    fortuna_rep prng' (cs[p := cs ! p @ of_nat source # of_nat (min inlen 32) # take (min inlen 32) inp]) ck \<and>
    prng' = prng\<lparr>pool := pool prng', pool0_len := pool0_len prng + (if p = 0 then min inlen 32 else 0)\<rparr>"
proof -
  let ?n = "min inlen 32"
  have n: "(if inlen > 32 then 32 else inlen) = ?n" by simp
  have r: "pools_rep (pool prng) cs" using assms(1) by (simp add: fortuna_rep_def)
  then have l: "length (pool prng) = LTC_FORTUNA_POOLS" by (simp add: pools_rep_def)
  have a: "absorbed256 (pool prng ! p) (cs ! p)" using r assms(2) by (simp add: pools_rep_def)
  obtain h1 where h1: "sha256_process (pool prng ! p) [of_nat source, of_nat ?n] = (CRYPT_OK, h1)"
    "absorbed256 h1 (cs ! p @ [of_nat source, of_nat ?n])"
    using sha256_stream.process [OF a, of "[of_nat source, of_nat ?n]"] assms(3) by auto
  have b: "8 * (length (cs ! p @ [of_nat source :: 8 word, of_nat ?n]) + length (take ?n inp)) < 2 ^ 64"
    using assms(3) by (simp add: min_def)
  obtain h2 where h2: "sha256_process h1 (take ?n inp) = (CRYPT_OK, h2)"
    "absorbed256 h2 ((cs ! p @ [of_nat source, of_nat ?n]) @ take ?n inp)"
    using sha256_stream.process [OF h1(2), of "take ?n inp"] b by auto
  let ?ps = "(pool prng)[p := h2]"
  have rep: "pools_rep ?ps (cs[p := cs ! p @ of_nat source # of_nat ?n # take ?n inp])"
    using pools_rep_update [OF r assms(2) h2(2)] by simp
  have "s_fortuna_add source p inp inlen prng =
      (CRYPT_OK, prng\<lparr>pool := ?ps, pool0_len := pool0_len prng + (if p = 0 then ?n else 0)\<rparr>)"
    unfolding s_fortuna_add_def n using h1(1) h2(1) assms(2) l by (auto simp: Let_def)
  then show ?thesis using rep assms(1) by (simp add: fortuna_rep_def)
qed

section \<open>The output\<close>

text \<open>The counter-mode key stream of the generator: \<open>n\<close> blocks from the counter \<open>iv\<close>.\<close>

definition ctr_stream :: "bytes \<Rightarrow> bytes \<Rightarrow> nat \<Rightarrow> bytes" where
  "ctr_stream ck iv n = concat (map (\<lambda>i. aes_spec ck ((update_iv ^^ i) iv)) [0..<n])"

lemma length_iter_iv [simp]: "length ((update_iv ^^ i) iv) = length iv"
  by (induction i) simp_all

lemma fortuna_block_eq:
  assumes "key_wf s0" "rijndael_setup ck 32 0 s0 = Inr (skey prng)" "length ck = 32" "length (fIV prng) = 16"
  shows "fortuna_block prng dst = aes_spec ck (fIV prng)" "length (aes_spec ck (fIV prng)) = 16"
proof -
  have e: "rijndael_ecb_encrypt (fIV prng) (skey prng) = Inr (aes_spec ck (fIV prng))"
    using encrypt_is_fips [OF assms(2,1)] assms(3,4) by simp
  then show "fortuna_block prng dst = aes_spec ck (fIV prng)" by (simp add: fortuna_block_def into_def)
  show "length (aes_spec ck (fIV prng)) = 16"
    using block_round_trip [OF assms(2,1,4)] e by auto
qed

lemma ctr_stream_Suc: "ctr_stream ck iv (Suc n) = aes_spec ck iv @ ctr_stream ck (update_iv iv) n"
proof -
  have "[0..<Suc n] = 0 # map Suc [0..<n]" by (simp add: upt_conv_Cons map_Suc_upt del: upt_Suc)
  then show ?thesis by (simp add: ctr_stream_def comp_def funpow_swap1 del: upt_Suc)
qed

lemma fortuna_whole_ok:
  assumes "key_wf s0" "rijndael_setup ck 32 0 s0 = Inr (skey prng)" "length ck = 32" "length (fIV prng) = 16"
    "pos + 16 * n \<le> length out"
  shows "fortuna_whole n pos out prng =
    (take pos out @ ctr_stream ck (fIV prng) n @ drop (pos + 16 * n) out, prng\<lparr>fIV := (update_iv ^^ n) (fIV prng)\<rparr>) \<and>
    length (ctr_stream ck (fIV prng) n) = 16 * n"
  using assms
proof (induction n arbitrary: pos out prng)
  case (Suc n)
  let ?b = "aes_spec ck (fIV prng)"
  have b: "fortuna_block prng dst = ?b" "length ?b = 16" for dst
    using fortuna_block_eq [OF Suc.prems(1-4)] by simp_all
  have "fortuna_whole n (pos + 16) (buf_write out pos ?b) (s_fortuna_update_iv prng) =
      (take (pos + 16) (buf_write out pos ?b) @ ctr_stream ck (update_iv (fIV prng)) n @
       drop (pos + 16 + 16 * n) (buf_write out pos ?b), prng\<lparr>fIV := (update_iv ^^ n) (update_iv (fIV prng))\<rparr>) \<and>
      length (ctr_stream ck (update_iv (fIV prng)) n) = 16 * n"
    using Suc.IH [of "s_fortuna_update_iv prng" "pos + 16" "buf_write out pos ?b"] Suc.prems b(2)
    by (simp add: s_fortuna_update_iv_def length_buf_write)
  moreover have "take (pos + 16) (buf_write out pos ?b) = take pos out @ ?b"
    "drop (pos + 16 + 16 * n) (buf_write out pos ?b) = drop (pos + 16 * Suc n) out"
    using Suc.prems(5) b(2) by (simp_all add: buf_write_def ac_simps)
  ultimately show ?case by (simp add: b ctr_stream_Suc funpow_swap1)
qed (simp add: ctr_stream_def)

lemma ctr_stream_add: "ctr_stream ck iv (m + n) = ctr_stream ck iv m @ ctr_stream ck ((update_iv ^^ m) iv) n"
proof (induction m arbitrary: iv)
  case (Suc m)
  then show ?case by (simp add: ctr_stream_Suc funpow_swap1)
qed (simp add: ctr_stream_def)

definition blocks_of :: "nat \<Rightarrow> nat" where
  "blocks_of outlen = (outlen + 15) div 16"

lemma blocks_of_split: "blocks_of n = n div 16 + (if n mod 16 > 0 then 1 else 0)"
proof -
  have "n + 15 = 16 * (n div 16) + (n mod 16 + 15)" by simp
  then have "blocks_of n = n div 16 + (n mod 16 + 15) div 16"
    unfolding blocks_of_def by (metis div_mult_self4 zero_neq_numeral)
  moreover have "(n mod 16 + 15) div 16 = (if n mod 16 > 0 then 1 else 0)"
    using mod_less_divisor [of 16 n] by (auto simp: div_eq_dividend_iff le_div_geq)
  ultimately show ?thesis by simp
qed

text \<open>All the output blocks of one read, the last one cut to what is asked for.\<close>

lemma fortuna_output_ok:
  assumes "key_wf s0" "rijndael_setup ck 32 0 s0 = Inr (skey prng)" "length ck = 32" "length (fIV prng) = 16"
    "outlen \<le> length out"
  shows "fortuna_output tmp0 out outlen prng =
    (take outlen (ctr_stream ck (fIV prng) (blocks_of outlen)) @ drop outlen out,
     prng\<lparr>fIV := (update_iv ^^ blocks_of outlen) (fIV prng)\<rparr>)"
proof -
  let ?q = "outlen div 16" and ?r = "outlen mod 16" and ?iv = "fIV prng"
  let ?p = "prng\<lparr>fIV := (update_iv ^^ ?q) ?iv\<rparr>"
  have q: "16 * ?q + ?r = outlen" by simp
  have "16 * ?q \<le> length out" using assms(5) q by linarith
  then have w: "fortuna_whole ?q 0 out prng = (ctr_stream ck ?iv ?q @ drop (16 * ?q) out, ?p)"
    and l: "length (ctr_stream ck ?iv ?q) = 16 * ?q"
    using fortuna_whole_ok [OF assms(1-4), of 0 ?q out] by simp_all
  have b: "fortuna_block ?p tmp0 = aes_spec ck ((update_iv ^^ ?q) ?iv)"
    "length (aes_spec ck ((update_iv ^^ ?q) ?iv)) = 16"
    using fortuna_block_eq [of s0 ck ?p] assms(1-4) by simp_all
  show ?thesis
  proof (cases "?r > 0")
    case False
    then have "blocks_of outlen = ?q" "16 * ?q = outlen" using q by (simp_all add: blocks_of_split)
    with False w l show ?thesis by (simp add: fortuna_output_def)
  next
    case True
    have s: "ctr_stream ck ?iv (?q + 1) = ctr_stream ck ?iv ?q @ aes_spec ck ((update_iv ^^ ?q) ?iv)"
      unfolding ctr_stream_add by (simp add: ctr_stream_def)
    have n: "blocks_of outlen = ?q + 1" "outlen - ?r = 16 * ?q" "?r \<le> 16" "outlen - 16 * ?q = ?r"
      using True by (simp_all add: blocks_of_split minus_mod_eq_mult_div minus_mult_div_eq_mod)
    have t: "take outlen (ctr_stream ck ?iv (?q + 1)) = ctr_stream ck ?iv ?q @ take ?r (aes_spec ck ((update_iv ^^ ?q) ?iv))"
      unfolding s using l n(4) q by simp
    have q': "?r + 16 * ?q = outlen" using q by simp
    show ?thesis
      unfolding fortuna_output_def w n(1) t Let_def prod.case using True l b n(2,3) q'
      by (simp add: buf_write_def s_fortuna_update_iv_def)
  qed
qed

lemma fortuna_rekey_ok:
  assumes "key_wf s0" "rijndael_setup ck 32 0 s0 = Inr (skey prng)" "length ck = 32" "length (fIV prng) = 16"
    "length (fK prng) = 32" "key_wf (skey prng)"
  shows "\<exists>k. key_wf k \<and> rijndael_setup (ctr_stream ck (fIV prng) 2) 32 0 (skey prng) = Inr k \<and>
    length (ctr_stream ck (fIV prng) 2) = 32 \<and>
    fortuna_rekey prng = (True, prng\<lparr>fK := ctr_stream ck (fIV prng) 2, skey := k, fIV := (update_iv ^^ 2) (fIV prng)\<rparr>)"
proof -
  let ?k1 = "aes_spec ck (fIV prng)" and ?k2 = "aes_spec ck (update_iv (fIV prng))"
  let ?p1 = "prng\<lparr>fK := ?k1 @ drop 16 (fK prng), fIV := update_iv (fIV prng)\<rparr>"
  have b1: "fortuna_block prng dst = ?k1" "length ?k1 = 16" for dst
    using fortuna_block_eq [OF assms(1-4)] by simp_all
  have b2: "fortuna_block ?p1 dst = ?k2" "length ?k2 = 16" for dst
    using fortuna_block_eq [of s0 ck ?p1] assms(1-4) by simp_all
  obtain k where k: "rijndael_setup (?k1 @ ?k2) 32 0 (skey prng) = Inr k" "key_wf k"
    by (rule setup32 [OF assms(6), of "?k1 @ ?k2"]) (simp add: b1 b2)
  have c: "ctr_stream ck (fIV prng) 2 = ?k1 @ ?k2" by (simp add: ctr_stream_def numeral_2_eq_2)
  have "fortuna_rekey prng =
      (True, prng\<lparr>fK := ?k1 @ ?k2, fIV := update_iv (update_iv (fIV prng)), skey := k\<rparr>)"
    using b1 b2 assms(5) k(1) by (simp add: fortuna_rekey_def s_fortuna_update_iv_def Let_def buf_write_def)
  then show ?thesis using k b1(2) b2(2) by (simp add: c [unfolded numeral_2_eq_2] numeral_2_eq_2)
qed

lemma generate_ok:
  assumes "fortuna_rep prng cs ck" "outlen \<le> length out"
  shows "\<exists>prng'. fortuna_generate tmp0 out outlen prng =
      (outlen, take outlen (ctr_stream ck (fIV prng) (blocks_of outlen)) @ drop outlen out, prng') \<and>
    fortuna_rep prng' cs (fK prng') \<and>
    fK prng' = ctr_stream ck ((update_iv ^^ blocks_of outlen) (fIV prng)) 2 \<and>
    prng' = prng\<lparr>fK := fK prng', skey := skey prng', fIV := (update_iv ^^ (blocks_of outlen + 2)) (fIV prng)\<rparr>"
proof -
  obtain s0 where r: "pools_rep (pool prng) cs" "length (fK prng) = 32" "length (fIV prng) = 16" "length ck = 32"
    "key_wf (skey prng)" "key_wf s0" "rijndael_setup ck 32 0 s0 = Inr (skey prng)" "pool_idx prng < LTC_FORTUNA_POOLS"
    using assms(1) by (auto simp: fortuna_rep_def)
  let ?iv = "(update_iv ^^ blocks_of outlen) (fIV prng)"
  let ?p = "prng\<lparr>fIV := ?iv\<rparr>"
  obtain k where k: "key_wf k" "rijndael_setup (ctr_stream ck ?iv 2) 32 0 (skey prng) = Inr k"
    "length (ctr_stream ck ?iv 2) = 32"
    "fortuna_rekey ?p = (True, ?p\<lparr>fK := ctr_stream ck ?iv 2, skey := k, fIV := (update_iv ^^ 2) ?iv\<rparr>)"
    using fortuna_rekey_ok [of s0 ck ?p] r by auto
  let ?prng = "prng\<lparr>fK := ctr_stream ck ?iv 2, skey := k, fIV := (update_iv ^^ (blocks_of outlen + 2)) (fIV prng)\<rparr>"
  have iv: "(update_iv ^^ 2) ?iv = (update_iv ^^ (blocks_of outlen + 2)) (fIV prng)"
    by (simp only: funpow_add add.commute [of "blocks_of outlen"] comp_apply)
  have "fortuna_generate tmp0 out outlen prng =
      (outlen, take outlen (ctr_stream ck (fIV prng) (blocks_of outlen)) @ drop outlen out, ?prng)"
    unfolding fortuna_generate_def fortuna_output_ok [OF r(6,7,4,3) assms(2)] k(4)
    by (simp add: Let_def k(4) numeral_2_eq_2)
  moreover have "fortuna_rep ?prng cs (ctr_stream ck ?iv 2)"
    using r k by (auto simp: fortuna_rep_def)
  ultimately show ?thesis by (intro exI [of _ ?prng]) simp
qed

section \<open>Operations on a state in use\<close>

lemma start_ok:
  assumes "length (pool prng) = LTC_FORTUNA_POOLS" "\<forall>p \<in> set (pool prng). length (md_buf p) = 64" "key_wf (skey prng)"
  shows "\<exists>prng'. fortuna_start prng = (CRYPT_OK, prng') \<and>
    fortuna_rep prng' (replicate LTC_FORTUNA_POOLS []) (replicate 32 0) \<and> fK prng' = replicate 32 0 \<and>
    fIV prng' = replicate 16 0 \<and> \<not> ready prng' \<and> reset_cnt prng' = 0 \<and> wd prng' = 0 \<and> pool_idx prng' = 0 \<and>
    pool0_len prng' = 0"
proof -
  obtain k where k: "rijndael_setup (replicate 32 0) 32 0 (skey prng) = Inr k" "key_wf k"
    by (rule setup32 [OF assms(3), of "replicate 32 0"]) simp
  have "pools_rep (map sha256_init (pool prng)) (replicate LTC_FORTUNA_POOLS [])"
    using assms(1,2) sha256_stream.init by (auto simp: pools_rep_def)
  with k assms(3) show ?thesis
    by (auto simp: fortuna_start_def fortuna_rep_def Let_def LTC_FORTUNA_POOLS_def)
qed

lemma add_entropy_ok:
  assumes "fortuna_rep prng cs ck" "length (cs ! pool_idx prng) < 2 ^ 59" "inlen \<le> length inp"
  shows "\<exists>prng'. fortuna_add_entropy inp inlen prng = (CRYPT_OK, prng') \<and>
    fortuna_rep prng' (cs[pool_idx prng := cs ! pool_idx prng @ 0 # of_nat (min inlen 32) # take (min inlen 32) inp]) ck \<and>
    prng' = prng\<lparr>pool := pool prng', pool_idx := (pool_idx prng + 1) mod LTC_FORTUNA_POOLS,
      pool0_len := pool0_len prng + (if pool_idx prng = 0 then min inlen 32 else 0)\<rparr>"
proof -
  let ?p = "pool_idx prng"
  have i: "?p < LTC_FORTUNA_POOLS" using assms(1) by (simp add: fortuna_rep_def)
  from add_ok [OF assms(1) i assms(2,3), of 0] obtain q where q: "s_fortuna_add 0 ?p inp inlen prng = (CRYPT_OK, q)"
    "fortuna_rep q (cs[?p := cs ! ?p @ 0 # of_nat (min inlen 32) # take (min inlen 32) inp]) ck"
    "q = prng\<lparr>pool := pool q, pool0_len := pool0_len prng + (if ?p = 0 then min inlen 32 else 0)\<rparr>" by auto
  have pi: "pool_idx q = ?p" using q(3) by (metis prng_state.select_convs(5) prng_state.surjective prng_state.update_convs(1,6))
  have "fortuna_add_entropy inp inlen prng = (CRYPT_OK, q\<lparr>pool_idx := (?p + 1) mod LTC_FORTUNA_POOLS\<rparr>)"
    by (simp add: fortuna_add_entropy_def q(1) pi)
  moreover have "fortuna_rep (q\<lparr>pool_idx := (?p + 1) mod LTC_FORTUNA_POOLS\<rparr>)
      (cs[?p := cs ! ?p @ 0 # of_nat (min inlen 32) # take (min inlen 32) inp]) ck"
    using q(2) by (simp add: fortuna_rep_def LTC_FORTUNA_POOLS_def)
  moreover have "q\<lparr>pool_idx := (?p + 1) mod LTC_FORTUNA_POOLS\<rparr> =
      prng\<lparr>pool := pool q, pool_idx := (?p + 1) mod LTC_FORTUNA_POOLS,
        pool0_len := pool0_len prng + (if ?p = 0 then min inlen 32 else 0)\<rparr>"
    by (subst q(3)) simp
  ultimately show ?thesis by simp
qed

text \<open>A reseed is let through by the rate limit.\<close>

definition reseed_due :: "bool \<Rightarrow> u64 \<Rightarrow> prng_state \<Rightarrow> bool" where
  "reseed_due timed now prng \<longleftrightarrow> (if timed then now \<noteq> wd prng else wd prng + 1 \<ge> LTC_FORTUNA_WD)"

lemma reseed_not_due:
  "\<not> reseed_due timed now prng \<Longrightarrow>
    s_fortuna_reseed timed now u prng = (CRYPT_OK, if timed then prng else prng\<lparr>wd := wd prng + 1\<rparr>)"
  by (auto simp: reseed_due_def s_fortuna_reseed_def Let_def)

lemma ready_ok:
  assumes "fortuna_rep prng cs ck" "length (md_buf u) = 64" "timed \<Longrightarrow> now \<noteq> now0 - 1"
  shows "\<exists>prng'. fortuna_ready timed now0 now u prng = (CRYPT_OK, prng') \<and>
    (let cnt = reset_cnt prng + 1; K = fips_sha256 (fK prng @ seed_string cnt cs 0) in
     fortuna_rep prng' (pools_after cnt cs 0) K \<and> fK prng' = K \<and> reset_cnt prng' = cnt \<and>
     pool0_len prng' = 0 \<and> fIV prng' = update_iv (fIV prng) \<and> ready prng' \<and> pool_idx prng' = pool_idx prng)"
proof -
  let ?p = "prng\<lparr>wd := (if timed then now0 - 1 else LTC_FORTUNA_WD)\<rparr>"
  let ?cnt = "reset_cnt prng + 1"
  let ?K = "fips_sha256 (fK prng @ seed_string ?cnt cs 0)"
  have rep: "fortuna_rep ?p cs ck" using assms(1) by (simp add: fortuna_rep_def)
  obtain q where q: "s_fortuna_reseed timed now u ?p = (CRYPT_OK, q)"
    "fortuna_rep q (pools_after ?cnt cs 0) ?K" "fK q = ?K" "reset_cnt q = ?cnt" "pool0_len q = 0"
    "fIV q = update_iv (fIV prng)" "pool_idx q = pool_idx prng"
    using reseed_ok [OF rep assms(2), of timed now] assms(3)
    by (auto simp: Let_def LTC_FORTUNA_WD_def)
  have "fortuna_ready timed now0 now u prng = (CRYPT_OK, q\<lparr>ready := True\<rparr>)"
    by (simp add: fortuna_ready_def Let_def q(1))
  moreover have "fortuna_rep (q\<lparr>ready := True\<rparr>) (pools_after ?cnt cs 0) ?K"
    using q(2) by (simp add: fortuna_rep_def)
  ultimately show ?thesis using q(3-) by (simp add: Let_def)
qed

lemma read_ok:
  assumes "fortuna_rep prng cs ck" "length (md_buf u) = 64" "ready prng" "reset_cnt prng + 1 \<noteq> 0"
    "0 < outlen" "outlen \<le> length out"
    "reseeded \<longleftrightarrow> pool0_len prng \<ge> 64 \<and> reseed_due timed now prng" "reset_cnt prng \<noteq> 0 \<or> reseeded"
    "cnt = reset_cnt prng + (if reseeded then 1 else 0)"
    "key = (if reseeded then fips_sha256 (fK prng @ seed_string cnt cs 0) else ck)"
    "iv = (if reseeded then update_iv (fIV prng) else fIV prng)"
    "cs' = (if reseeded then pools_after cnt cs 0 else cs)"
  shows "\<exists>prng'. fortuna_read timed now u tmp0 out outlen prng =
      (outlen, take outlen (ctr_stream key iv (blocks_of outlen)) @ drop outlen out, prng') \<and>
    fortuna_rep prng' cs' (fK prng') \<and> fK prng' = ctr_stream key ((update_iv ^^ blocks_of outlen) iv) 2 \<and>
    fIV prng' = (update_iv ^^ (blocks_of outlen + 2)) iv \<and> reset_cnt prng' = cnt \<and> ready prng'"
proof -
  obtain q where q: "(if pool0_len prng \<ge> 64 then s_fortuna_reseed timed now u prng else (CRYPT_OK, prng)) = (CRYPT_OK, q)"
    "fortuna_rep q cs' key" "fIV q = iv" "reset_cnt q = cnt" "ready q"
  proof (cases reseeded)
    case True
    then have "\<exists>q. s_fortuna_reseed timed now u prng = (CRYPT_OK, q) \<and> fortuna_rep q cs' key \<and> fIV q = iv \<and>
        reset_cnt q = cnt \<and> ready q"
      using reseed_ok [OF assms(1,2), of timed now] assms(3,7,9-12)
      by (auto simp: Let_def reseed_due_def linorder_not_less)
    with True assms(7) show thesis by (auto intro: that)
  next
    case False
    let ?q = "if pool0_len prng \<ge> 64 \<and> \<not> timed then prng\<lparr>wd := wd prng + 1\<rparr> else prng"
    have "fortuna_rep ?q cs ck" using assms(1) by (simp add: fortuna_rep_def)
    moreover have "(if pool0_len prng \<ge> 64 then s_fortuna_reseed timed now u prng else (CRYPT_OK, prng)) = (CRYPT_OK, ?q)"
      using False assms(7) reseed_not_due by auto
    ultimately show thesis using False assms(3,9-12) by (intro that [of ?q]) auto
  qed
  have c: "cnt \<noteq> 0" using assms(4,8,9) by auto
  obtain r where r: "fortuna_generate tmp0 out outlen q =
      (outlen, take outlen (ctr_stream key iv (blocks_of outlen)) @ drop outlen out, r)"
    "fortuna_rep r cs' (fK r)" "fK r = ctr_stream key ((update_iv ^^ blocks_of outlen) iv) 2"
    "r = q\<lparr>fK := fK r, skey := skey r, fIV := (update_iv ^^ (blocks_of outlen + 2)) iv\<rparr>"
    using generate_ok [OF q(2) assms(6), of tmp0] q(3) by auto
  have "fIV r = (update_iv ^^ (blocks_of outlen + 2)) iv" "reset_cnt r = cnt" "ready r"
    by (subst r(4), simp add: q(4,5))+
  moreover have "fortuna_read timed now u tmp0 out outlen prng = fortuna_generate tmp0 out outlen q"
    using assms(3,5) c q(4) by (simp add: fortuna_read_def q(1))
  ultimately show ?thesis using r(1-3) by simp
qed

section \<open>Sequences of events\<close>

text \<open>What an event of source 0 adds to its pool.\<close>

definition event_bytes :: "bytes \<Rightarrow> bytes" where
  "event_bytes e = 0 # of_nat (min (length e) 32) # take 32 e"

lemma length_event_bytes: "length (event_bytes e) \<le> 34"
  by (simp add: event_bytes_def)

text \<open>A client that adds a list of events, stopping at the first error.\<close>

primrec add_events :: "bytes list \<Rightarrow> prng_state \<Rightarrow> crypt_rc \<times> prng_state" where
  "add_events [] prng = (CRYPT_OK, prng)"
| "add_events (e # es) prng =
     (let (err, prng) = fortuna_add_entropy e (length e) prng in
      if err \<noteq> CRYPT_OK then (err, prng) else add_events es prng)"

text \<open>The bytes that events dealt out from pool \<open>i\<close> on leave in pool \<open>p\<close>.\<close>

definition dealt :: "nat \<Rightarrow> bytes list \<Rightarrow> nat \<Rightarrow> bytes" where
  "dealt i es p = concat (map (\<lambda>j. event_bytes (es ! j)) (filter (\<lambda>j. (i + j) mod LTC_FORTUNA_POOLS = p) [0..<length es]))"

lemma dealt_Cons:
  assumes "i < LTC_FORTUNA_POOLS"
  shows "dealt i (e # es) p = (if i = p then event_bytes e else []) @ dealt ((i + 1) mod LTC_FORTUNA_POOLS) es p"
proof -
  have "[0..<Suc (length es)] = 0 # map Suc [0..<length es]" by (simp add: upt_conv_Cons map_Suc_upt del: upt_Suc)
  then show ?thesis using assms by (simp add: dealt_def filter_map comp_def mod_add_left_eq del: upt_Suc)
qed

lemma add_events_ok:
  assumes "fortuna_rep prng cs ck" "\<forall>p < LTC_FORTUNA_POOLS. length (cs ! p) + 34 * length es < 2 ^ 59"
  shows "\<exists>prng'. add_events es prng = (CRYPT_OK, prng') \<and>
    fortuna_rep prng' (map (\<lambda>p. cs ! p @ dealt (pool_idx prng) es p) [0..<LTC_FORTUNA_POOLS]) ck \<and>
    pool_idx prng' = (pool_idx prng + length es) mod LTC_FORTUNA_POOLS \<and> fK prng' = fK prng \<and>
    fIV prng' = fIV prng \<and> reset_cnt prng' = reset_cnt prng \<and> ready prng' = ready prng"
  using assms
proof (induction es arbitrary: prng cs)
  case Nil
  have "map (\<lambda>p. cs ! p @ dealt (pool_idx prng) [] p) [0..<LTC_FORTUNA_POOLS] = cs"
    using Nil by (intro nth_equalityI) (auto simp: fortuna_rep_def pools_rep_def dealt_def)
  with Nil show ?case by (simp add: fortuna_rep_def)
next
  case (Cons e es)
  let ?i = "pool_idx prng"
  let ?cs = "cs[?i := cs ! ?i @ event_bytes e]"
  have i: "?i < LTC_FORTUNA_POOLS" "length cs = LTC_FORTUNA_POOLS"
    using Cons.prems(1) by (simp_all add: fortuna_rep_def pools_rep_def)
  have "length (cs ! ?i) + 34 * length (e # es) < 2 ^ 59" using Cons.prems(2) i(1) by blast
  then have b: "length (cs ! ?i) < 2 ^ 59" by simp
  have t: "take (min (length e) 32) e = take 32 e" by (simp add: min_def)
  obtain q where q: "fortuna_add_entropy e (length e) prng = (CRYPT_OK, q)" "fortuna_rep q ?cs ck"
    "q = prng\<lparr>pool := pool q, pool_idx := (?i + 1) mod LTC_FORTUNA_POOLS,
      pool0_len := pool0_len prng + (if ?i = 0 then min (length e) 32 else 0)\<rparr>"
    using add_entropy_ok [OF Cons.prems(1) b, of "length e" e] by (auto simp: event_bytes_def t)
  have f: "pool_idx q = (?i + 1) mod LTC_FORTUNA_POOLS" "fK q = fK prng" "fIV q = fIV prng"
    "reset_cnt q = reset_cnt prng" "ready q = ready prng" by (subst q(3), simp)+
  have "length (?cs ! p) + 34 * length es < 2 ^ 59" if "p < LTC_FORTUNA_POOLS" for p
    using Cons.prems(2) that i length_event_bytes [of e] by (cases "p = ?i") (fastforce+)
  then obtain r where r: "add_events es q = (CRYPT_OK, r)"
    "fortuna_rep r (map (\<lambda>p. ?cs ! p @ dealt (pool_idx q) es p) [0..<LTC_FORTUNA_POOLS]) ck"
    "pool_idx r = (pool_idx q + length es) mod LTC_FORTUNA_POOLS" "fK r = fK q" "fIV r = fIV q"
    "reset_cnt r = reset_cnt q" "ready r = ready q"
    using Cons.IH [OF q(2)] by blast
  have m: "map (\<lambda>p. ?cs ! p @ dealt (pool_idx q) es p) [0..<LTC_FORTUNA_POOLS] =
      map (\<lambda>p. cs ! p @ dealt ?i (e # es) p) [0..<LTC_FORTUNA_POOLS]"
    using i by (intro map_cong) (auto simp: dealt_Cons f(1) nth_list_update)
  show ?case using r(2) [unfolded m] r(1,3-) f q(1) by (simp add: mod_add_left_eq)
qed

section \<open>Properties\<close>

text \<open>
  The pools are filled in turn: after any sequence of \<open>fortuna_add_entropy\<close> calls event
  \<open>j\<close> has been appended, with its source and length bytes and cut to 32 bytes, to pool
  \<open>(pool_idx + j) mod 32\<close> and to no other, and key, counter and reseed count are untouched.
\<close>

theorem fortuna_round_robin:
  assumes "fortuna_rep prng cs ck" "\<forall>p < LTC_FORTUNA_POOLS. length (cs ! p) + 34 * length es < 2 ^ 59"
  shows "\<exists>prng'. add_events es prng = (CRYPT_OK, prng') \<and>
    fortuna_rep prng' (map (\<lambda>p. cs ! p @ dealt (pool_idx prng) es p) [0..<LTC_FORTUNA_POOLS]) ck \<and>
    pool_idx prng' = (pool_idx prng + length es) mod LTC_FORTUNA_POOLS \<and> fK prng' = fK prng \<and>
    fIV prng' = fIV prng \<and> reset_cnt prng' = reset_cnt prng \<and> ready prng' = ready prng"
  by (rule add_events_ok [OF assms])

text \<open>
  C7: the reseed schedule: \<open>fortuna_ready\<close> makes the new key the SHA-256 of the old one and of
  the digests of exactly the pools \<open>x\<close> with \<open>2^x\<close> dividing the reseed number, empties those
  pools and no others, and advances the counter.
\<close>

theorem fortuna_reseed_schedule:
  assumes "fortuna_rep prng cs ck" "length (md_buf u) = 64" "timed \<Longrightarrow> now \<noteq> now0 - 1"
  shows "\<exists>prng'. fortuna_ready timed now0 now u prng = (CRYPT_OK, prng') \<and>
    (let cnt = reset_cnt prng + 1;
         used = filter (\<lambda>x. 2 ^ x dvd unat cnt) [0..<LTC_FORTUNA_POOLS];
         K = fips_sha256 (fK prng @ concat (map (\<lambda>x. fips_sha256 (cs ! x)) used)) in
     fortuna_rep prng' (map (\<lambda>x. if 2 ^ x dvd unat cnt then [] else cs ! x) [0..<LTC_FORTUNA_POOLS]) K \<and>
     fK prng' = K \<and> reset_cnt prng' = cnt \<and> pool0_len prng' = 0 \<and> ready prng' \<and>
     le_value (fIV prng') = (le_value (fIV prng) + 1) mod 2 ^ 128)"
proof -
  have "length (fIV prng) = 16" using assms(1) by (simp add: fortuna_rep_def)
  then have "le_value (update_iv (fIV prng)) = (le_value (fIV prng) + 1) mod 2 ^ 128"
    by (simp add: update_iv_value)
  then show ?thesis using ready_ok [OF assms]
    by (fastforce simp: Let_def seed_string_def pools_after_def drained_def [abs_def])
qed

text \<open>
  \<open>fortuna_read\<close> of a ready generator fills the buffer with the AES-256 counter-mode stream
  of the current key (reseeded first when pool 0 has 64 bytes and the rate limit allows it), then
  replaces the key by the next two blocks of the same stream, so that the key that made the
  output is gone.
\<close>

theorem fortuna_read_stream:
  assumes "fortuna_rep prng cs ck" "length (md_buf u) = 64" "ready prng" "reset_cnt prng + 1 \<noteq> 0"
    "0 < outlen" "outlen \<le> length out"
    "reseeded \<longleftrightarrow> pool0_len prng \<ge> 64 \<and> reseed_due timed now prng" "reset_cnt prng \<noteq> 0 \<or> reseeded"
    "cnt = reset_cnt prng + (if reseeded then 1 else 0)"
    "key = (if reseeded then fips_sha256 (fK prng @ seed_string cnt cs 0) else ck)"
    "iv = (if reseeded then update_iv (fIV prng) else fIV prng)"
    "cs' = (if reseeded then pools_after cnt cs 0 else cs)"
  shows "\<exists>prng'. fortuna_read timed now u tmp0 out outlen prng =
      (outlen, take outlen (ctr_stream key iv (blocks_of outlen)) @ drop outlen out, prng') \<and>
    fortuna_rep prng' cs' (fK prng') \<and> fK prng' = ctr_stream key ((update_iv ^^ blocks_of outlen) iv) 2 \<and>
    fIV prng' = (update_iv ^^ (blocks_of outlen + 2)) iv \<and> reset_cnt prng' = cnt \<and> ready prng'"
  by (rule read_ok [OF assms])

text \<open>
  \<open>fortuna_read\<close> delivers nothing and changes nothing when nothing is asked for, when the
  generator is not ready, or when it has never been reseeded and pool 0 is below 64 bytes;
  \<open>fortuna_export\<close> then fails with \<open>CRYPT_ERROR_READPRNG\<close>, and with
  \<open>CRYPT_BUFFER_OVERFLOW\<close> and the size it needs before anything else when the buffer is short.
\<close>

theorem fortuna_read_guards:
  "(outlen = 0 \<or> \<not> ready prng \<or> (reset_cnt prng = 0 \<and> pool0_len prng < 64) \<longrightarrow>
      fortuna_read timed now u tmp0 out outlen prng = (0, out, prng)) \<and>
   (outlen < 64 \<longrightarrow> fortuna_export timed now u tmp0 out outlen prng = (CRYPT_BUFFER_OVERFLOW, out, 64, prng)) \<and>
   (64 \<le> outlen \<and> (\<not> ready prng \<or> (reset_cnt prng = 0 \<and> pool0_len prng < 64)) \<longrightarrow>
      fortuna_export timed now u tmp0 out outlen prng = (CRYPT_ERROR_READPRNG, out, outlen, prng))"
  by (auto simp: fortuna_read_def fortuna_export_def fortuna_desc_def Let_def)

section \<open>Witnesses\<close>

definition blank_prng :: prng_state where
  "blank_prng = \<lparr>pool = replicate 32 (st32 blank_hash_state), skey = zero_key, fK = replicate 32 0, fIV = replicate 16 0,
     pool_idx = 0, pool0_len = 0, wd = 0, reset_cnt = 0, ready = False\<rparr>"

lemma blank_md [simp]: "length (md_buf (st32 blank_hash_state)) = 64"
  by (simp add: blank_hash_state_def)

lemma first_reseed: "filter (\<lambda>x. x = 0) [0..<LTC_FORTUNA_POOLS] = [0]"
  by (simp add: LTC_FORTUNA_POOLS_def upt_rec [of 0 32] filter_empty_conv del: upt_rec_numeral)

lemma first_reseed_drained: "filter (drained 1) [0..<LTC_FORTUNA_POOLS] = [0]"
  using first_reseed by (simp add: drained_def [abs_def])

lemma started:
  obtains prng where "fortuna_start blank_prng = (CRYPT_OK, prng)"
    "fortuna_rep prng (replicate LTC_FORTUNA_POOLS []) (replicate 32 0)"
    "fK prng = replicate 32 0" "fIV prng = replicate 16 0" "\<not> ready prng" "reset_cnt prng = 0" "pool_idx prng = 0"
    "pool0_len prng = 0"
  using start_ok [of blank_prng] by (auto simp: blank_prng_def LTC_FORTUNA_POOLS_def key_wf_def zero_key_def)

theorem fortuna_round_robin_witness:
  "\<exists>prng cs. fst (add_events [[5], [6, 7]] (snd (fortuna_start blank_prng))) = CRYPT_OK \<and>
     prng = snd (add_events [[5], [6, 7]] (snd (fortuna_start blank_prng))) \<and> pool_idx prng = 2 \<and>
     fortuna_rep prng cs (replicate 32 0) \<and> cs ! 0 = [0, 1, 5] \<and> cs ! 1 = [0, 2, 6, 7] \<and> cs ! 2 = []"
proof -
  obtain p where p: "fortuna_start blank_prng = (CRYPT_OK, p)"
    "fortuna_rep p (replicate LTC_FORTUNA_POOLS []) (replicate 32 0)" "pool_idx p = 0" by (rule started)
  let ?cs = "map (\<lambda>x. replicate LTC_FORTUNA_POOLS [] ! x @ dealt 0 [[5], [6, 7]] x) [0..<LTC_FORTUNA_POOLS]"
  have "?cs ! 0 = [0, 1, 5] \<and> ?cs ! 1 = [0, 2, 6, 7] \<and> ?cs ! 2 = []"
    by (simp add: dealt_def event_bytes_def LTC_FORTUNA_POOLS_def)
  then show ?thesis
    using fortuna_round_robin [OF p(2), of "[[5], [6, 7]]"] p(1,3) by (auto simp: LTC_FORTUNA_POOLS_def)
qed

theorem fortuna_reseed_schedule_witness:
  "\<exists>prng'. fortuna_ready False 0 0 (st32 blank_hash_state) (snd (fortuna_start blank_prng)) = (CRYPT_OK, prng') \<and>
     reset_cnt prng' = 1 \<and> ready prng' \<and> fK prng' = fips_sha256 (replicate 32 0 @ fips_sha256 [])"
proof -
  obtain p where p: "fortuna_start blank_prng = (CRYPT_OK, p)" "fK p = replicate 32 0" "reset_cnt p = 0"
    "fortuna_rep p (replicate LTC_FORTUNA_POOLS []) (replicate 32 0)" by (rule started)
show ?thesis
    using fortuna_reseed_schedule [OF p(4), of "st32 blank_hash_state" False 0 0] p first_reseed
    by (auto simp: Let_def LTC_FORTUNA_POOLS_def simp del: upt_rec_numeral)
qed

theorem fortuna_read_stream_witness:
  "\<exists>prng'. fortuna_read False 0 (st32 blank_hash_state) (replicate 16 0) (replicate 20 0) 20
      (snd (fortuna_ready False 0 0 (st32 blank_hash_state) (snd (fortuna_start blank_prng)))) =
    (20, take 20 (ctr_stream (fips_sha256 (replicate 32 0 @ fips_sha256 [])) (1 # replicate 15 0) 2), prng')"
proof -
  obtain p where p: "fortuna_start blank_prng = (CRYPT_OK, p)" "fK p = replicate 32 0" "reset_cnt p = 0"
    "fIV p = replicate 16 0" "fortuna_rep p (replicate LTC_FORTUNA_POOLS []) (replicate 32 0)" by (rule started)
  let ?K = "fips_sha256 (replicate 32 0 @ fips_sha256 [])"
  let ?cs = "pools_after 1 (replicate LTC_FORTUNA_POOLS []) 0"
have s: "seed_string 1 (replicate LTC_FORTUNA_POOLS []) 0 = fips_sha256 []"
    by (simp add: seed_string_def first_reseed_drained) (simp add: LTC_FORTUNA_POOLS_def)
  obtain q where q: "fortuna_ready False 0 0 (st32 blank_hash_state) p = (CRYPT_OK, q)" "fortuna_rep q ?cs ?K"
    "reset_cnt q = 1" "pool0_len q = 0" "fIV q = update_iv (replicate 16 0)" "ready q"
    using ready_ok [OF p(5), of "st32 blank_hash_state" False 0 0] p s by (auto simp: Let_def)
  have iv: "update_iv (replicate 16 0) = 1 # replicate 15 0" by code_simp
  have b: "blocks_of 20 = 2" by (simp add: blocks_of_def)
  from fortuna_read_stream [OF q(2) blank_md q(6), of 20 "replicate 20 0" False False 0 1 ?K "1 # replicate 15 0" ?cs "replicate 16 0"]
  show ?thesis using p(1) q iv b by auto
qed

theorem fortuna_read_guards_witness:
  "fortuna_read False 0 (st32 blank_hash_state) [] [7] 1 blank_prng = (0, [7], blank_prng) \<and>
   fortuna_export False 0 (st32 blank_hash_state) [] [7] 1 blank_prng = (CRYPT_BUFFER_OVERFLOW, [7], 64, blank_prng)"
  using fortuna_read_guards [of 1 blank_prng False 0 "st32 blank_hash_state" "[]" "[7]"] by (simp add: blank_prng_def)

end
