(* ===== verification/CipherUtil.thy ===== *)
theory CipherUtil
  imports Prelude
begin

text \<open>
  The small routines at the head of \<open>sqlcipher.c\<close> (in \<open>sqlite3.c\<close>): status codes, the
  xoshiro256++ generator that overwrites freed memory, hexadecimal conversion, the key
  shield, and the comparison and fill loops that replace \<open>memcmp\<close> and \<open>memset\<close>; and the
  case-insensitive comparisons of SQLite they use.  \<open>char\<close> values are bytes; words are
  stored in memory in little-endian order, as on the platforms the build supports.
\<close>

unbundle bit_operations_syntax

section \<open>Status codes\<close>

abbreviation (input) SQLITE_OK :: int where "SQLITE_OK \<equiv> 0"
abbreviation (input) SQLITE_ERROR :: int where "SQLITE_ERROR \<equiv> 1"
abbreviation (input) SQLITE_NOMEM :: int where "SQLITE_NOMEM \<equiv> 7"
abbreviation (input) SQLITE_MISUSE :: int where "SQLITE_MISUSE \<equiv> 21"

section \<open>xoshiro256++\<close>

type_synonym xoshiro = "u64 \<times> u64 \<times> u64 \<times> u64"

definition xoshiro_rotl :: "u64 \<Rightarrow> nat \<Rightarrow> u64" where
  "xoshiro_rotl x k = push_bit k x OR drop_bit (64 - k) x"

definition xoshiro_next :: "xoshiro \<Rightarrow> u64 \<times> xoshiro" where
  "xoshiro_next = (\<lambda>(s0, s1, s2, s3).
     let result = xoshiro_rotl (s0 + s3) 23 + s0;
         t = push_bit 17 s1;
         s2 = s2 XOR s0;
         s3 = s3 XOR s1;
         s1 = s1 XOR s2;
         s0 = s0 XOR s3;
         s2 = s2 XOR t;
         s3 = xoshiro_rotl s3 45
     in (result, (s0, s1, s2, s3)))"

text \<open>The bytes of a 64-bit word in memory.\<close>

definition word_bytes :: "u64 \<Rightarrow> bytes" where
  "word_bytes v = map (\<lambda>i. ucast (drop_bit (8 * i) v)) [0..<8]"

function xoshiro_randomness :: "nat \<Rightarrow> xoshiro \<Rightarrow> bytes \<times> xoshiro" where
  "xoshiro_randomness sz s =
     (if sz > 0
      then let (val, s) = xoshiro_next s;
               to_copy = (if sz \<ge> 8 then 8 else sz);
               (rest, s) = xoshiro_randomness (sz - to_copy) s
           in (take to_copy (word_bytes val) @ rest, s)
      else ([], s))"
  by pat_completeness auto
termination by (relation "measure fst") auto

declare xoshiro_randomness.simps [simp del]

section \<open>Hexadecimal\<close>

definition cipher_hex2int :: "byte \<Rightarrow> byte" where
  "cipher_hex2int c =
     (if 48 \<le> c \<and> c \<le> 57 then c - 48
      else if 65 \<le> c \<and> c \<le> 70 then c - 65 + 10
      else if 97 \<le> c \<and> c \<le> 102 then c - 97 + 10 else 0)"

text \<open>\<open>hex\<close> is the memory from the pointer on; an odd \<open>sz\<close> reads one byte past it.\<close>

definition cipher_hex2bin :: "bytes \<Rightarrow> nat \<Rightarrow> bytes" where
  "cipher_hex2bin hex sz =
     map (\<lambda>j. push_bit 4 (cipher_hex2int (hex ! (2 * j))) OR cipher_hex2int (hex ! (2 * j + 1))) [0..<(sz + 1) div 2]"

definition hex_digit :: "byte \<Rightarrow> byte" where
  "hex_digit n = (if n < 10 then 48 + n else 87 + n)"

text \<open>\<open>sqlite3_snprintf(3, out, "%02x", b)\<close> writes two digits and a NUL, which the next turn overwrites.\<close>

definition cipher_bin2hex :: "bytes \<Rightarrow> bytes" where
  "cipher_bin2hex bs = concat (map (\<lambda>b. [hex_digit (drop_bit 4 b), hex_digit (b AND 15)]) bs) @ (if bs = [] then [] else [0])"

definition cipher_isHex :: "bytes \<Rightarrow> nat \<Rightarrow> bool" where
  "cipher_isHex hex sz \<longleftrightarrow>
     (\<forall>c \<in> set (take sz hex). \<not> ((c < 48 \<or> c > 57) \<and> (c < 65 \<or> c > 70) \<and> (c < 97 \<or> c > 102)))"

section \<open>Shield, fill and comparison\<close>

definition sqlcipher_shield :: "bytes \<Rightarrow> bytes \<Rightarrow> bytes" where
  "sqlcipher_shield shield_mask inp = map (\<lambda>i. inp ! i XOR shield_mask ! (i mod length shield_mask)) [0..<length inp]"

definition sqlcipher_memset :: "bytes \<Rightarrow> byte \<Rightarrow> nat \<Rightarrow> bytes" where
  "sqlcipher_memset v val n = fold (\<lambda>i a. a[i := val]) [0..<n] v"

definition sqlcipher_ismemset :: "bytes \<Rightarrow> byte \<Rightarrow> nat \<Rightarrow> int" where
  "sqlcipher_ismemset v val n =
     (let result = fold (\<lambda>i result. result OR (v ! i XOR val)) [0..<n] 0 in if result \<noteq> 0 then 1 else 0)"

definition sqlcipher_memcmp :: "bytes \<Rightarrow> bytes \<Rightarrow> nat \<Rightarrow> int" where
  "sqlcipher_memcmp v0 v1 n =
     (let result = fold (\<lambda>i result. result OR (v0 ! i XOR v1 ! i)) [0..<n] 0 in if result \<noteq> 0 then 1 else 0)"

section \<open>Comparison without case\<close>

text \<open>Strings are lists of bytes without their terminating NUL; \<open>ch s\<close> is the byte a pointer to \<open>s\<close> reads.\<close>

definition ch :: "bytes \<Rightarrow> byte" where
  "ch s = (case s of [] \<Rightarrow> 0 | c # _ \<Rightarrow> c)"

definition UpperToLower :: "byte \<Rightarrow> byte" where
  "UpperToLower c = (if 65 \<le> c \<and> c \<le> 90 then c + 32 else c)"

fun sqlite3StrICmp :: "bytes \<Rightarrow> bytes \<Rightarrow> int" where
  "sqlite3StrICmp a b =
     (let c = ch a; x = ch b in
      if c = x
      then (if c = 0 then 0 else case a of [] \<Rightarrow> 0 | _ # a \<Rightarrow> sqlite3StrICmp a (tl b))
      else let c = uint (UpperToLower c) - uint (UpperToLower x) in
        if c \<noteq> 0 then c else case a of [] \<Rightarrow> 0 | _ # a \<Rightarrow> sqlite3StrICmp a (tl b))"

fun sqlite3StrNICmp :: "bytes \<Rightarrow> bytes \<Rightarrow> nat \<Rightarrow> int" where
  "sqlite3StrNICmp a b 0 = 0"
| "sqlite3StrNICmp a b (Suc n) =
     (if ch a \<noteq> 0 \<and> UpperToLower (ch a) = UpperToLower (ch b) then sqlite3StrNICmp (tl a) (tl b) n
      else uint (UpperToLower (ch a)) - uint (UpperToLower (ch b)))"

section \<open>Comparison loops\<close>

lemma fold_or_eq_0:
  fixes f :: "nat \<Rightarrow> byte"
  shows "fold (\<lambda>i r. r OR f i) [0..<n] r = 0 \<longleftrightarrow> r = 0 \<and> (\<forall>i < n. f i = 0)"
  by (induction n) (auto simp: or_eq_0_iff less_Suc_eq)

lemma sqlcipher_memcmp_iff:
  "sqlcipher_memcmp v0 v1 n = 0 \<longleftrightarrow> (\<forall>i < n. v0 ! i = v1 ! i)"
  by (simp add: sqlcipher_memcmp_def Let_def fold_or_eq_0 xor_eq_zero_word)

lemma sqlcipher_memcmp_take:
  "n \<le> length v0 \<Longrightarrow> n \<le> length v1 \<Longrightarrow> sqlcipher_memcmp v0 v1 n = 0 \<longleftrightarrow> take n v0 = take n v1"
  by (auto simp: sqlcipher_memcmp_iff list_eq_iff_nth_eq)

lemma sqlcipher_ismemset_iff:
  "sqlcipher_ismemset v x n = 0 \<longleftrightarrow> (\<forall>i < n. v ! i = x)"
  by (simp add: sqlcipher_ismemset_def Let_def fold_or_eq_0 xor_eq_zero_word)

lemma sqlcipher_ismemset_replicate:
  "n \<le> length v \<Longrightarrow> sqlcipher_ismemset v x n = 0 \<longleftrightarrow> take n v = replicate n x"
  by (auto simp: sqlcipher_ismemset_iff list_eq_iff_nth_eq)

lemma sqlcipher_memset_eq:
  "n \<le> length v \<Longrightarrow> sqlcipher_memset v x n = replicate n x @ drop n v"
proof (induction n)
  case (Suc n)
  then show ?case
    by (simp add: sqlcipher_memset_def list_update_append Cons_nth_drop_Suc [symmetric] replicate_append_same)
qed (simp add: sqlcipher_memset_def)

lemma length_sqlcipher_memset [simp]: "length (sqlcipher_memset v x n) = length v"
  by (induction n) (simp_all add: sqlcipher_memset_def)

section \<open>Shield\<close>

lemma length_sqlcipher_shield [simp]: "length (sqlcipher_shield m bs) = length bs"
  by (simp add: sqlcipher_shield_def)

lemma sqlcipher_shield_twice [simp]: "sqlcipher_shield m (sqlcipher_shield m bs) = bs"
  by (rule nth_equalityI) (simp_all add: sqlcipher_shield_def)

section \<open>Hexadecimal round trip\<close>

lemma hex_digit_facts:
  assumes "n < 16"
  shows "cipher_hex2int (hex_digit n) = n" "cipher_isHex [hex_digit n] (Suc 0)" "hex_digit n \<noteq> 0"
proof -
  have n: "unat n < 16" using assms by (simp add: word_less_nat_alt)
  have "cipher_hex2int (hex_digit n) = n \<and> cipher_isHex [hex_digit n] (Suc 0) \<and> hex_digit n \<noteq> 0"
  proof (cases "n < 10")
    case True
    then have "unat n < 10" by (simp add: word_less_nat_alt)
    then have u: "unat (48 + n) = 48 + unat n" by (simp add: unat_word_ariths)
    then have "48 \<le> 48 + n" "48 + n \<le> 57" "48 + n \<noteq> 0"
      using \<open>unat n < 10\<close> by (auto simp: word_le_nat_alt simp del: unat_eq_zero)
    with True show ?thesis by (simp add: hex_digit_def cipher_hex2int_def cipher_isHex_def word_less_nat_alt word_le_nat_alt)
  next
    case False
    then have "10 \<le> unat n" by (simp add: word_less_nat_alt)
    then have u: "unat (87 + n) = 87 + unat n" using n by (simp add: unat_word_ariths)
    then have "\<not> 87 + n \<le> 57" "\<not> 87 + n \<le> 70" "97 \<le> 87 + n" "87 + n \<le> 102" "87 + n \<noteq> 0"
      using \<open>10 \<le> unat n\<close> n by (auto simp: word_le_nat_alt)
    moreover have "hex_digit n = 87 + n" using False by (simp add: hex_digit_def)
    ultimately show ?thesis by (simp add: cipher_hex2int_def cipher_isHex_def linorder_not_le linorder_not_less)
  qed
  then show "cipher_hex2int (hex_digit n) = n" "cipher_isHex [hex_digit n] (Suc 0)" "hex_digit n \<noteq> 0" by simp_all
qed

lemma nibbles:
  fixes b :: byte
  shows "drop_bit 4 b < 16" "b AND 15 < 16" "push_bit 4 (drop_bit 4 b) OR (b AND 15) = b"
proof -
  have m: "b AND 15 = take_bit 4 b" by (simp add: take_bit_eq_mask mask_numeral)
  have "unat b < 2 ^ LENGTH(8)" by (rule unsigned_less)
  then have "unat b div 16 < 16" by simp
  moreover have "unat (drop_bit 4 b) = unat b div 16" by (simp add: drop_bit_eq_div unat_div_distrib)
  ultimately show "drop_bit 4 b < 16" by (simp only: word_less_nat_alt) simp
  have "unat (take_bit 4 b) = take_bit 4 (unat b)" by (rule unsigned_take_bit_eq)
  moreover have "take_bit 4 (unat b) < 2 ^ 4" by (rule take_bit_nat_less_exp)
  ultimately show "b AND 15 < 16" unfolding m by (simp only: word_less_nat_alt) simp
  show "push_bit 4 (drop_bit 4 b) OR (b AND 15) = b"
    unfolding m by (intro bit_word_eqI) (auto simp: bit_simps)
qed

lemma concat_pairs_nth:
  "j < length xs \<Longrightarrow> concat (map (\<lambda>b. [f b, g b]) xs) ! (2 * j) = f (xs ! j) \<and>
     concat (map (\<lambda>b. [f b, g b]) xs) ! (2 * j + 1) = g (xs ! j)"
proof (induction xs arbitrary: j)
  case (Cons a xs)
  then show ?case by (cases j) simp_all
qed simp

lemma length_concat_pairs [simp]: "length (concat (map (\<lambda>b. [f b, g b]) xs)) = 2 * length xs"
  by (induction xs) simp_all

text \<open>The digits without the NUL that ends them.\<close>

definition hex_of :: "bytes \<Rightarrow> bytes" where
  "hex_of bs = concat (map (\<lambda>b. [hex_digit (drop_bit 4 b), hex_digit (b AND 15)]) bs)"

lemma cipher_bin2hex_eq: "cipher_bin2hex bs = hex_of bs @ (if bs = [] then [] else [0])"
  by (simp add: cipher_bin2hex_def hex_of_def)

lemma length_hex_of [simp]: "length (hex_of bs) = 2 * length bs"
  by (simp add: hex_of_def)

lemma hex2bin_hex_of: "cipher_hex2bin (hex_of bs @ rest) (2 * length bs) = bs"
proof (rule nth_equalityI)
  fix j assume "j < length (cipher_hex2bin (hex_of bs @ rest) (2 * length bs))"
  then have j: "j < length bs" by (simp add: cipher_hex2bin_def)
  then show "cipher_hex2bin (hex_of bs @ rest) (2 * length bs) ! j = bs ! j"
    using concat_pairs_nth [OF j, of "\<lambda>b. hex_digit (drop_bit 4 b)" "\<lambda>b. hex_digit (b AND 15)"]
    by (simp add: cipher_hex2bin_def nth_append hex_of_def [symmetric] hex_digit_facts nibbles)
qed (simp add: cipher_hex2bin_def)

lemma cipher_isHex_set: "cipher_isHex hex n \<longleftrightarrow> (\<forall>c \<in> set (take n hex). cipher_isHex [c] 1)"
  by (simp add: cipher_isHex_def)

lemma isHex_hex_of: "\<forall>c \<in> set (hex_of bs). cipher_isHex [c] 1"
  by (induction bs) (simp_all add: hex_of_def hex_digit_facts nibbles)

lemma hex_of_append: "hex_of (a @ b) = hex_of a @ hex_of b"
  by (simp add: hex_of_def)

section \<open>xoshiro\<close>

lemma length_word_bytes [simp]: "length (word_bytes v) = 8"
  by (simp add: word_bytes_def)

lemma length_xoshiro [simp]: "length (fst (xoshiro_randomness n s)) = n"
proof (induction n arbitrary: s rule: less_induct)
  case (less n)
  show ?case
  proof (cases "n = 0")
    case False
    let ?c = "if n \<ge> 8 then 8 else n"
    have "length (fst (xoshiro_randomness (n - ?c) s')) = n - ?c" for s'
      using False by (intro less) auto
    then show ?thesis using False
      by (subst xoshiro_randomness.simps) (simp add: Let_def case_prod_unfold)
  qed (simp add: xoshiro_randomness.simps)
qed

lemma xoshiro_next_zero: "xoshiro_next (0, 0, 0, 0) = (0, (0, 0, 0, 0))"
  by (simp add: xoshiro_next_def xoshiro_rotl_def)

lemma xoshiro_unseeded: "xoshiro_randomness n (0, 0, 0, 0) = (replicate n 0, (0, 0, 0, 0))"
proof (induction n rule: less_induct)
  case (less n)
  have w: "word_bytes 0 = replicate 8 0" by (simp add: word_bytes_def map_replicate_const)
  show ?case
  proof (cases "n = 0")
    case False
    let ?c = "if n \<ge> 8 then 8 else n"
    have "xoshiro_randomness (n - ?c) (0, 0, 0, 0) = (replicate (n - ?c) 0, (0, 0, 0, 0))"
      using False by (intro less.IH) auto
    then show ?thesis using False
      by (subst xoshiro_randomness.simps) (auto simp: xoshiro_next_zero w Let_def replicate_add [symmetric])
  qed (simp add: xoshiro_randomness.simps)
qed

lemma rotl_zero:
  assumes "0 < k" "k < 64" "xoshiro_rotl x k = 0"
  shows "x = 0"
proof (rule bit_word_eqI)
  fix n assume n: "n < LENGTH(64)"
  have z: "\<not> bit (xoshiro_rotl x k) m" for m using assms(3) by simp
  show "bit x n = bit 0 n"
  proof (cases "n + k < 64")
    case True
    with z [of "n + k"] show ?thesis by (auto simp: xoshiro_rotl_def bit_simps)
  next
    case False
    with z [of "n + k - 64"] n assms(1,2) show ?thesis by (auto simp: xoshiro_rotl_def bit_simps)
  qed
qed

lemma xoshiro_next_nonzero:
  assumes "s \<noteq> (0, 0, 0, 0)"
  shows "snd (xoshiro_next s) \<noteq> (0, 0, 0, 0)"
proof
  obtain a b c d where s: "s = (a, b, c, d)" by (cases s)
  assume z: "snd (xoshiro_next s) = (0, 0, 0, 0)"
  then have e: "a XOR (d XOR b) = 0" "b XOR (c XOR a) = 0" "(c XOR a) XOR push_bit 17 b = 0" "xoshiro_rotl (d XOR b) 45 = 0"
    by (simp_all add: s xoshiro_next_def Let_def)
  have db: "d XOR b = 0" using e(4) by (rule rotl_zero [rotated 2]) simp_all
  then have a: "a = 0" using e(1) by simp
  then have bc: "b = c" using e(2) by (simp add: xor_eq_zero_word)
  then have "c XOR push_bit 17 c = 0" using e(3) a by simp
  then have p: "c = push_bit 17 c" by (simp add: xor_eq_zero_word)
  have "\<not> bit c n" for n
  proof (induction n rule: less_induct)
    case (less n)
    show ?case
    proof
      assume "bit c n"
      then have "bit (push_bit 17 c) n" using p by simp
      then have "17 \<le> n" "bit c (n - 17)" by (simp_all add: bit_simps)
      with less [of "n - 17"] show False by simp
    qed
  qed
  then have "c = 0" by (intro bit_word_eqI) simp
  with a bc db show False using assms s by (simp add: xor_eq_zero_word)
qed

section \<open>Strings\<close>

lemma UpperToLower_0 [simp]: "UpperToLower c = 0 \<longleftrightarrow> c = 0"
proof
  assume u: "UpperToLower c = 0"
  show "c = 0"
  proof (cases "65 \<le> c \<and> c \<le> 90")
    case True
    then have "65 \<le> unat c" "unat c \<le> 90" by (simp_all add: word_le_nat_alt)
    moreover have "unat (c + 32) = 0" using u True by (simp add: UpperToLower_def)
    ultimately show ?thesis by (simp add: unat_word_ariths)
  qed (use u in \<open>auto simp: UpperToLower_def split: if_splits\<close>)
qed (simp add: UpperToLower_def)

lemma uint_eq [simp]: "uint (a :: byte) = uint b \<longleftrightarrow> a = b"
  by (rule word_uint_eq_iff [symmetric])

lemma UpperToLower_of_0 [simp]: "UpperToLower 0 = 0"
  by simp

lemma uint_eq_0 [simp]: "uint (a :: byte) = 0 \<longleftrightarrow> a = 0"
  by (simp add: unsigned_eq_0_iff)

lemma ch_simps [simp]: "ch [] = 0" "ch (c # s) = c"
  by (simp_all add: ch_def)

lemma sqlite3StrICmp_iff:
  "0 \<notin> set a \<Longrightarrow> 0 \<notin> set b \<Longrightarrow> sqlite3StrICmp a b = 0 \<longleftrightarrow> map UpperToLower a = map UpperToLower b"
proof (induction a arbitrary: b)
  case Nil
  then show ?case by (cases b) (auto simp: Let_def)
next
  case (Cons c a)
  then show ?case by (cases b) (auto simp: Let_def)
qed

declare sqlite3StrICmp.simps [simp del]

lemma sqlite3StrNICmp_iff:
  "0 \<notin> set b \<Longrightarrow> n \<le> length b \<Longrightarrow> sqlite3StrNICmp a b n = 0 \<longleftrightarrow>
     n \<le> length a \<and> map UpperToLower (take n a) = map UpperToLower (take n b)"
proof (induction a b n rule: sqlite3StrNICmp.induct)
  case (2 a b n)
  then obtain x bs where b: "b = x # bs" "x \<noteq> 0" by (cases b) auto
  show ?case using 2 b by (cases a) (auto simp: Let_def)
qed simp

section \<open>Properties\<close>

text \<open>
  \<open>sqlcipher_memcmp\<close> returns 0 when the first \<open>n\<close> bytes agree and 1 when they do not,
  \<open>sqlcipher_ismemset\<close> 0 when the first \<open>n\<close> bytes all have the value and 1 otherwise, and
  \<open>sqlcipher_memset\<close> overwrites exactly the first \<open>n\<close> bytes.
\<close>

theorem compare_and_fill:
  assumes "n \<le> length v" "n \<le> length w"
  shows "sqlcipher_memcmp v w n = (if take n v = take n w then 0 else 1) \<and>
    sqlcipher_ismemset v x n = (if take n v = replicate n x then 0 else 1) \<and>
    sqlcipher_memset v x n = replicate n x @ drop n v"
proof -
  have "sqlcipher_memcmp v w n \<in> {0, 1}" "sqlcipher_ismemset v x n \<in> {0, 1}"
    by (simp_all add: sqlcipher_memcmp_def sqlcipher_ismemset_def Let_def)
  then show ?thesis
    using sqlcipher_memcmp_take [OF assms] sqlcipher_ismemset_replicate [OF assms(1), of x]
      sqlcipher_memset_eq [OF assms(1), of x] by auto
qed

theorem compare_and_fill_witness:
  "sqlcipher_memcmp [1, 2, 3] [1, 2, 4] 2 = 0 \<and> sqlcipher_ismemset [1, 2, 3] 1 2 = 1 \<and>
   sqlcipher_memset [1, 2, 3] 7 2 = [7, 7, 3]"
  using compare_and_fill [of 2 "[1, 2, 3]" "[1, 2, 4]" 1] compare_and_fill [of 2 "[1, 2, 3]" "[1, 2, 4]" 7]
  by (simp add: numeral_2_eq_2)

text \<open>
  \<open>cipher_bin2hex\<close> writes hexadecimal digits only, and \<open>cipher_hex2bin\<close> turns them back
  into the same bytes.
\<close>

theorem hex_round_trip:
  "cipher_hex2bin (cipher_bin2hex bs) (2 * length bs) = bs \<and> cipher_isHex (cipher_bin2hex bs) (2 * length bs)"
  using hex2bin_hex_of [of bs] isHex_hex_of [of bs]
  by (subst cipher_isHex_set) (simp add: cipher_bin2hex_eq)

text \<open>
  The generator that overwrites freed memory never falls into the all-zero state from
  another state, but before it is seeded it is in that state and every byte it writes is zero.
\<close>

theorem xoshiro_zero_state:
  "(snd (xoshiro_next s) = (0, 0, 0, 0) \<longleftrightarrow> s = (0, 0, 0, 0)) \<and>
   xoshiro_randomness n (0, 0, 0, 0) = (replicate n 0, (0, 0, 0, 0))"
  using xoshiro_next_nonzero [of s] xoshiro_next_zero xoshiro_unseeded by auto

end
