(* ===== verification/Provider.thy ===== *)
theory Provider
  imports CipherUtil
begin

text \<open>
  The interface between the codec and a cryptographic library: the structure
  \<open>sqlcipher_provider\<close> as a record of functions over the state \<open>'s\<close> of the library, the list
  of registered providers, and the contract of a provider as the locale
  \<open>crypto_provider\<close>, on which the lemmas about the codec rest.
\<close>

section \<open>The structure\<close>

definition SQLCIPHER_DECRYPT :: int where "SQLCIPHER_DECRYPT = 0"
definition SQLCIPHER_ENCRYPT :: int where "SQLCIPHER_ENCRYPT = 1"

definition SQLCIPHER_HMAC_SHA1 :: int where "SQLCIPHER_HMAC_SHA1 = 0"
definition SQLCIPHER_HMAC_SHA256 :: int where "SQLCIPHER_HMAC_SHA256 = 1"
definition SQLCIPHER_HMAC_SHA512 :: int where "SQLCIPHER_HMAC_SHA512 = 2"

definition SQLCIPHER_PBKDF2_HMAC_SHA1 :: int where "SQLCIPHER_PBKDF2_HMAC_SHA1 = 0"
definition SQLCIPHER_PBKDF2_HMAC_SHA256 :: int where "SQLCIPHER_PBKDF2_HMAC_SHA256 = 1"
definition SQLCIPHER_PBKDF2_HMAC_SHA512 :: int where "SQLCIPHER_PBKDF2_HMAC_SHA512 = 2"

lemmas algorithm_defs = SQLCIPHER_HMAC_SHA1_def SQLCIPHER_HMAC_SHA256_def SQLCIPHER_HMAC_SHA512_def
  SQLCIPHER_PBKDF2_HMAC_SHA1_def SQLCIPHER_PBKDF2_HMAC_SHA256_def SQLCIPHER_PBKDF2_HMAC_SHA512_def

text \<open>
  Output buffers: \<open>p_random\<close> and \<open>p_kdf\<close> take the buffer and return it updated; \<open>p_hmac\<close> and
  \<open>p_cipher\<close> return the bytes written from the start of the output buffer.  \<open>p_hmac\<close> takes
  the first input and the second, which may be absent.  The activation of a context may
  block for ever, which is \<open>None\<close>.
\<close>

record 's provider =
  p_init :: "('s \<Rightarrow> int \<times> 's) option"
  p_shutdown :: "('s \<Rightarrow> 's) option"
  p_name :: string
  p_add_random :: "'s \<Rightarrow> bytes \<Rightarrow> int \<times> 's"
  p_random :: "'s \<Rightarrow> bytes \<Rightarrow> int \<times> 's \<times> bytes"
  p_hmac :: "'s \<Rightarrow> int \<Rightarrow> bytes \<Rightarrow> bytes \<Rightarrow> bytes option \<Rightarrow> int \<times> 's \<times> bytes"
  p_kdf :: "'s \<Rightarrow> int \<Rightarrow> bytes \<Rightarrow> bytes \<Rightarrow> int \<Rightarrow> bytes \<Rightarrow> int \<times> 's \<times> bytes"
  p_cipher :: "'s \<Rightarrow> int \<Rightarrow> bytes \<Rightarrow> bytes \<Rightarrow> bytes \<Rightarrow> int \<times> 's \<times> bytes"
  p_get_cipher :: string
  p_key_sz :: "'s \<Rightarrow> int"
  p_iv_sz :: "'s \<Rightarrow> int"
  p_block_sz :: "'s \<Rightarrow> int"
  p_hmac_sz :: "'s \<Rightarrow> int \<Rightarrow> int"
  p_ctx_init :: "'s \<Rightarrow> (int \<times> 's) option"
  p_ctx_free :: "'s \<Rightarrow> (int \<times> 's) option"
  p_fips_status :: int
  p_version :: string

section \<open>The list of providers\<close>

text \<open>
  A provider is identified by its address; the list holds the default provider first and
  then the others in the order of their \<open>next\<close> pointers.
\<close>

definition sqlcipher_register_provider ::
    "(nat \<Rightarrow> ('s \<Rightarrow> int \<times> 's) option) \<Rightarrow> nat option \<Rightarrow> nat list \<Rightarrow> 's \<Rightarrow> int \<times> nat list \<times> 's" where
  "sqlcipher_register_provider init p ps s =
     (case p of None \<Rightarrow> (SQLITE_OK, ps, s)
      | Some p \<Rightarrow>
          if ps \<noteq> [] \<and> hd ps = p then (SQLITE_OK, ps, s)
          else let preexisting = (ps \<noteq> [] \<and> p \<in> set (tl ps));
                   rest = (if preexisting then hd ps # remove1 p (tl ps) else ps);
                   (rc, s) = (if \<not> preexisting then (case init p of None \<Rightarrow> (SQLITE_OK, s) | Some f \<Rightarrow> f s)
                              else (SQLITE_OK, s))
               in if rc = SQLITE_OK then (rc, p # rest, s) else (rc, rest, s))"

definition sqlcipher_get_provider :: "nat list \<Rightarrow> nat option" where
  "sqlcipher_get_provider ps = (case ps of [] \<Rightarrow> None | p # _ \<Rightarrow> Some p)"

section \<open>The contract\<close>

text \<open>
  What the codec expects: while the provider is \<open>up\<close>, every operation keeps it up and
  either succeeds with the result of the mathematical function or reports \<open>SQLITE_ERROR\<close>, and
  the latter never happens while memory is \<open>roomy\<close>.
\<close>

definition served :: "('s \<Rightarrow> bool) \<Rightarrow> ('s \<Rightarrow> bool) \<Rightarrow> 's \<Rightarrow> 's \<Rightarrow> int \<Rightarrow> bool \<Rightarrow> bool" where
  "served up roomy s s' rc Q \<longleftrightarrow>
     up s' \<and> (roomy s \<longrightarrow> roomy s') \<and> (rc = SQLITE_OK \<and> Q \<or> rc = SQLITE_ERROR \<and> \<not> roomy s)"

lemma servedD:
  assumes "served up roomy s s' rc Q"
  shows "up s'" "roomy s \<Longrightarrow> roomy s'" "roomy s \<Longrightarrow> rc = SQLITE_OK" "rc = SQLITE_OK \<Longrightarrow> Q"
    "rc \<noteq> SQLITE_OK \<Longrightarrow> rc = SQLITE_ERROR"
  using assms by (auto simp: served_def)

lemma served_mono: "served up roomy s s' rc P \<Longrightarrow> (P \<Longrightarrow> Q) \<Longrightarrow> served up roomy s s' rc Q"
  by (auto simp: served_def)

locale crypto_provider =
  fixes P :: "'s provider"
    and up roomy :: "'s \<Rightarrow> bool"
    and key_size iv_size block_size :: nat
    and mac_size :: "int \<Rightarrow> nat"
    and MAC :: "int \<Rightarrow> bytes \<Rightarrow> bytes \<Rightarrow> bytes"
    and KDF :: "int \<Rightarrow> bytes \<Rightarrow> bytes \<Rightarrow> int \<Rightarrow> nat \<Rightarrow> bytes"
    and ENC DEC :: "bytes \<Rightarrow> bytes \<Rightarrow> bytes \<Rightarrow> bytes"
  assumes sizes: "up s \<Longrightarrow> p_key_sz P s = int key_size \<and> p_iv_sz P s = int iv_size \<and> p_block_sz P s = int block_size"
    and sizes_pos: "0 < key_size \<and> key_size < 2 ^ 20 \<and> 0 < iv_size \<and> 0 < block_size"
    and mac_sz: "up s \<Longrightarrow> a \<in> {0, 1, 2} \<Longrightarrow> p_hmac_sz P s a = int (mac_size a)"
    and random: "up s \<Longrightarrow> p_random P s buf = (rc, s', out) \<Longrightarrow>
      served up roomy s s' rc True \<and> length out = length buf"
    and hmac: "up s \<Longrightarrow> a \<in> {0, 1, 2} \<Longrightarrow> length key = key_size \<Longrightarrow> length x < 2 ^ 32 \<Longrightarrow> length y < 2 ^ 32 \<Longrightarrow>
      p_hmac P s a key x (Some y) = (rc, s', out) \<Longrightarrow>
      served up roomy s s' rc (out = MAC a key (x @ y)) \<and> length out \<le> mac_size a"
    and mac_length: "a \<in> {0, 1, 2} \<Longrightarrow> length (MAC a key x) = mac_size a"
    and kdf: "up s \<Longrightarrow> a \<in> {0, 1, 2} \<Longrightarrow> 0 < length pass \<Longrightarrow> length pass < 2 ^ 32 \<Longrightarrow> length salt < 2 ^ 32 \<Longrightarrow>
      p_kdf P s a pass salt c buf = (rc, s', out) \<Longrightarrow>
      served up roomy s s' rc (out = KDF a pass salt c (length buf)) \<and> length out = length buf"
    and kdf_length: "length (KDF a pass salt c n) = n"
    and encrypt: "up s \<Longrightarrow> length key = key_size \<Longrightarrow> length iv = iv_size \<Longrightarrow> block_size dvd length x \<Longrightarrow>
      p_cipher P s SQLCIPHER_ENCRYPT key iv x = (rc, s', out) \<Longrightarrow>
      served up roomy s s' rc (out = ENC key iv x) \<and> length out \<le> length x"
    and decrypt: "up s \<Longrightarrow> length key = key_size \<Longrightarrow> length iv = iv_size \<Longrightarrow> block_size dvd length x \<Longrightarrow>
      p_cipher P s SQLCIPHER_DECRYPT key iv x = (rc, s', out) \<Longrightarrow>
      served up roomy s s' rc (out = DEC key iv x) \<and> length out \<le> length x"
    and cipher_length: "length key = key_size \<Longrightarrow> length iv = iv_size \<Longrightarrow> block_size dvd length x \<Longrightarrow>
      length (ENC key iv x) = length x \<and> length (DEC key iv x) = length x"
    and decrypt_encrypt: "length key = key_size \<Longrightarrow> length iv = iv_size \<Longrightarrow> block_size dvd length x \<Longrightarrow>
      DEC key iv (ENC key iv x) = x"

section \<open>Properties\<close>

lemma register_cases:
  assumes "sqlcipher_register_provider init (Some p) ps s = (rc, ps', s')" "distinct ps"
  shows "distinct ps' \<and> (rc = SQLITE_OK \<longrightarrow> sqlcipher_get_provider ps' = Some p \<and> set ps' = insert p (set ps)) \<and>
    (rc \<noteq> SQLITE_OK \<longrightarrow> ps' = ps \<and> p \<notin> set ps) \<and> (p \<in> set ps \<longrightarrow> rc = SQLITE_OK \<and> s' = s) \<and>
    filter (\<lambda>q. q \<noteq> p) ps' = filter (\<lambda>q. q \<noteq> p) ps"
proof (cases "ps \<noteq> [] \<and> hd ps = p")
  case True
  then show ?thesis using assms by (cases ps) (auto simp: sqlcipher_register_provider_def sqlcipher_get_provider_def)
next
  case head: False
  show ?thesis
  proof (cases "ps \<noteq> [] \<and> p \<in> set (tl ps)")
    case True
    then obtain q qs where ps: "ps = q # qs" "p \<in> set qs" "q \<noteq> p" using head by (cases ps) auto
    then have "ps' = p # q # remove1 p qs" "rc = SQLITE_OK" "s' = s"
      using assms(1) by (simp_all add: sqlcipher_register_provider_def Let_def)
    moreover have "filter (\<lambda>r. r \<noteq> p) (remove1 p qs) = filter (\<lambda>r. r \<noteq> p) qs"
      using filter_remove1 [of "\<lambda>r. r \<noteq> p" p qs] by (simp add: remove1_idem)
    ultimately show ?thesis using ps assms(2) by (auto simp: sqlcipher_get_provider_def)
  next
    case False
    then have "p \<notin> set ps" using head by (cases ps) auto
    then show ?thesis using assms head False
      by (auto simp: sqlcipher_register_provider_def sqlcipher_get_provider_def Let_def filter_id_conv
          split: prod.splits if_splits option.splits)
  qed
qed

text \<open>
  Registering a provider makes it the default unless its initialiser fails, keeps the list
  free of duplicates and every other provider in its order, and never runs the initialiser
  of a provider that is on the list already; when the initialiser fails the list is unchanged.
\<close>

theorem register_provider_list:
  assumes "sqlcipher_register_provider init (Some p) ps s = (rc, ps', s')" "distinct ps"
  shows "distinct ps' \<and> (rc = SQLITE_OK \<longrightarrow> sqlcipher_get_provider ps' = Some p \<and> set ps' = insert p (set ps)) \<and>
    (rc \<noteq> SQLITE_OK \<longrightarrow> ps' = ps \<and> p \<notin> set ps) \<and> (p \<in> set ps \<longrightarrow> rc = SQLITE_OK \<and> s' = s) \<and>
    filter (\<lambda>q. q \<noteq> p) ps' = filter (\<lambda>q. q \<noteq> p) ps"
  by (rule register_cases [OF assms])

theorem register_provider_list_witness:
  "sqlcipher_register_provider (\<lambda>_. Some (\<lambda>s. (SQLITE_ERROR, s))) (Some 7) [5, 7, 9] () = (SQLITE_OK, [7, 5, 9], ()) \<and>
   sqlcipher_get_provider [7, 5, 9] = Some 7"
proof -
  have "sqlcipher_register_provider (\<lambda>_. Some (\<lambda>s. (SQLITE_ERROR, s))) (Some 7) [5, 7, 9] () = (SQLITE_OK, [7, 5, 9], ())"
    by (simp add: sqlcipher_register_provider_def Let_def)
  with register_provider_list [OF this] show ?thesis by simp
qed

end
