(* ===== verification/LtcProvider.thy ===== *)
theory LtcProvider
  imports Provider Fortuna Pbkdf2
begin

text \<open>
  The provider of the build: \<open>crypto_libtomcrypt.c\<close> in \<open>sqlite3.c\<close>, with \<open>rng_get_bytes.c\<close>.
  The global tables, the generator \<open>prng\<close>, \<open>ltc_init\<close> and \<open>ltc_ref_count\<close> are a record.
  Each allocation takes the next answer of \<open>l_heap\<close>, each call that looks at the outside
  world the next entry of \<open>l_env\<close>.  Each function holds its mutex throughout and is atomic, except
  that the early returns of \<open>sqlcipher_ltc_activate\<close> keep \<open>SQLCIPHER_MUTEX_PROVIDER_ACTIVATE\<close>:
  \<open>l_held\<close> says that it is held, and entering it again blocks for ever.
\<close>

section \<open>Random bytes of the system\<close>

text \<open>
  \<open>en_files\<close>: for the path of a device that opens, whether \<open>setvbuf\<close> succeeds and what can be
  read; \<open>en_jitter\<close>: the bytes that \<open>s_rng_ansic\<close> collects from the clock; \<open>en_now0\<close>,
  \<open>en_now\<close>: readings of the clock; \<open>en_md\<close>, \<open>en_tmp\<close>: uninitialised locals of \<open>fortuna.c\<close>.
\<close>

record ltc_env =
  en_files :: "string \<Rightarrow> (bool \<times> bytes) option"
  en_jitter :: bytes
  en_now0 :: u64
  en_now :: u64
  en_md :: "u32 md_state"
  en_tmp :: bytes

definition s_rng_nix :: "(string \<Rightarrow> (bool \<times> bytes) option) \<Rightarrow> bytes \<Rightarrow> nat \<Rightarrow> nat \<times> bytes" where
  "s_rng_nix files buf len =
     (let f = files ''/dev/urandom'';
          f = (if f = None then files ''/dev/random'' else f) in
      case f of None \<Rightarrow> (0, buf)
      | Some (vbuf, content) \<Rightarrow>
          if \<not> vbuf then (0, buf)
          else let x = take len content in (length x, buf_write buf 0 x))"

definition rng_get_bytes :: "ltc_env \<Rightarrow> bytes \<Rightarrow> nat \<Rightarrow> nat \<times> bytes" where
  "rng_get_bytes env out outlen =
     (let (x, out) = s_rng_nix (en_files env) out outlen in
      if x \<noteq> 0 then (x, out)
      else let x = outlen; out = buf_write out 0 (take outlen (en_jitter env)) in
        if x \<noteq> 0 then (x, out) else (0, out))"

section \<open>The state\<close>

record ltc_state =
  l_ciphers :: "cipher_descriptor table"
  l_hashes :: "hash_descriptor table"
  l_prngs :: "prng_descriptor table"
  l_prng :: prng_state
  ltc_init :: u32
  ltc_ref_count :: u32
  l_held :: bool
  l_heap :: heap
  l_junk :: hmac_state
  l_timed :: bool
  l_env :: "nat \<Rightarrow> ltc_env"

definition next_env :: "ltc_state \<Rightarrow> ltc_env \<times> ltc_state" where
  "next_env s = (l_env s 0, s\<lparr>l_env := (\<lambda>n. l_env s (Suc n))\<rparr>)"

definition FORTUNA_MAX_SZ :: nat where "FORTUNA_MAX_SZ = 32"
definition LTC_CIPHER :: string where "LTC_CIPHER = ''aes''"

section \<open>Entropy and activation\<close>

function feed_fortuna :: "bytes \<Rightarrow> prng_state \<Rightarrow> int \<times> prng_state" where
  "feed_fortuna data prng =
     (if data = [] then (0, prng)
      else let block_sz = (if length data < FORTUNA_MAX_SZ then length data else FORTUNA_MAX_SZ);
               (rc, prng) = fortuna_add_entropy data block_sz prng in
        if rc \<noteq> CRYPT_OK then (SQLITE_ERROR, prng) else feed_fortuna (drop block_sz data) prng)"
  by pat_completeness auto
termination by (relation "measure (length \<circ> fst)") (auto simp: FORTUNA_MAX_SZ_def)

declare feed_fortuna.simps [simp del]

definition sqlcipher_ltc_add_random :: "ltc_state \<Rightarrow> bytes \<Rightarrow> int \<times> ltc_state" where
  "sqlcipher_ltc_add_random s data =
     (let (env, s) = next_env s;
          (rc, prng) = feed_fortuna data (l_prng s);
          (_, prng) = fortuna_ready (l_timed s) (en_now0 env) (en_now env) (en_md env) prng
      in (rc, s\<lparr>l_prng := prng\<rparr>))"

text \<open>The registrations and the start of the generator; the flag is \<open>False\<close> for an early return.\<close>

definition ltc_first_use :: "ltc_state \<Rightarrow> bool \<times> ltc_state" where
  "ltc_first_use s =
     (let (i, t) = register_prng fortuna_desc (l_prngs s); s = s\<lparr>l_prngs := t\<rparr> in
      if i < 0 then (False, s)
      else let (i, t) = register_cipher aes_desc (l_ciphers s); s = s\<lparr>l_ciphers := t\<rparr> in
        if i < 0 then (False, s)
        else let (i, t) = register_hash sha512_desc (l_hashes s); s = s\<lparr>l_hashes := t\<rparr> in
          if i < 0 then (False, s)
          else let (i, t) = register_hash sha256_desc (l_hashes s); s = s\<lparr>l_hashes := t\<rparr> in
            if i < 0 then (False, s)
            else let (i, t) = register_hash sha1_desc (l_hashes s); s = s\<lparr>l_hashes := t\<rparr> in
              if i < 0 then (False, s)
              else let (rc, prng) = fortuna_start (l_prng s); s = s\<lparr>l_prng := prng\<rparr> in
                if rc \<noteq> CRYPT_OK then (False, s) else (True, s\<lparr>ltc_init := 1\<rparr>))"

definition sqlcipher_ltc_activate :: "ltc_state \<Rightarrow> (int \<times> ltc_state) option" where
  "sqlcipher_ltc_activate s =
     (if l_held s then None
      else let s = s\<lparr>l_held := True\<rparr>;
               random_buffer = replicate FORTUNA_MAX_SZ 0;
               (continue, s) = (if ltc_init s = 0 then ltc_first_use s else (True, s)) in
        if \<not> continue then Some (SQLITE_ERROR, s)
        else let s = s\<lparr>ltc_ref_count := ltc_ref_count s + 1\<rparr>;
                 (env, s) = next_env s;
                 (_, random_buffer) = rng_get_bytes env random_buffer FORTUNA_MAX_SZ;
                 (rc, s) = sqlcipher_ltc_add_random s random_buffer in
          if rc \<noteq> SQLITE_OK then Some (SQLITE_ERROR, s)
          else Some (SQLITE_OK, s\<lparr>l_held := False\<rparr>))"

text \<open>The generator after \<open>sqlcipher_memset(&prng, 0, sizeof(prng))\<close>.\<close>

definition zero_prng :: prng_state where
  "zero_prng = \<lparr>pool = replicate LTC_FORTUNA_POOLS (st32 blank_hash_state), skey = zero_key, fK = replicate 32 0,
     fIV = replicate 16 0, pool_idx = 0, pool0_len = 0, wd = 0, reset_cnt = 0, ready = False\<rparr>"

definition sqlcipher_ltc_deactivate :: "ltc_state \<Rightarrow> (int \<times> ltc_state) option" where
  "sqlcipher_ltc_deactivate s =
     (if l_held s then None
      else let s = s\<lparr>ltc_ref_count := ltc_ref_count s - 1\<rparr> in
        if ltc_ref_count s = 0
        then let (_, prng) = fortuna_done (l_prng s) in Some (SQLITE_OK, s\<lparr>l_prng := zero_prng\<rparr>)
        else Some (SQLITE_OK, s))"

definition sqlcipher_ltc_random :: "ltc_state \<Rightarrow> bytes \<Rightarrow> int \<times> ltc_state \<times> bytes" where
  "sqlcipher_ltc_random s buffer =
     (let (env, s) = next_env s;
          (_, out, prng) = fortuna_read (l_timed s) (en_now env) (en_md env) (en_tmp env) buffer (length buffer) (l_prng s)
      in (SQLITE_OK, s\<lparr>l_prng := prng\<rparr>, out))"

section \<open>The primitives\<close>

definition hash_of_algorithm :: "int \<Rightarrow> string option" where
  "hash_of_algorithm a =
     (if a = SQLCIPHER_HMAC_SHA1 then Some ''sha1''
      else if a = SQLCIPHER_HMAC_SHA256 then Some ''sha256''
      else if a = SQLCIPHER_HMAC_SHA512 then Some ''sha512'' else None)"

definition sqlcipher_ltc_hmac ::
    "ltc_state \<Rightarrow> int \<Rightarrow> bytes \<Rightarrow> bytes option \<Rightarrow> bytes option \<Rightarrow> int \<times> ltc_state \<times> bytes" where
  "sqlcipher_ltc_hmac s algorithm key inp in2 =
     (case inp of None \<Rightarrow> (SQLITE_ERROR, s, [])
      | Some inp \<Rightarrow>
       (case hash_of_algorithm algorithm of None \<Rightarrow> (SQLITE_ERROR, s, [])
        | Some name \<Rightarrow>
           let tab = l_hashes s; hash_idx = find_hash name tab in
           if hash_idx < 0 then (SQLITE_ERROR, s, [])
           else let outlen = hashsize (the (tab ! nat hash_idx));
                    (hmac_ok, m) = xmalloc (l_heap s) in
             if \<not> hmac_ok then (SQLITE_ERROR, s\<lparr>l_heap := m\<rparr>, [])
             else let (rc, m, hmac) = hmac_init tab (hmac_md (l_junk s)) m blank_hmac hash_idx key in
               if rc \<noteq> CRYPT_OK then (SQLITE_ERROR, s\<lparr>l_heap := m\<rparr>, [])
               else let (rc, hmac) = hmac_process tab hmac inp in
                 if rc \<noteq> CRYPT_OK then (SQLITE_ERROR, s\<lparr>l_heap := m\<rparr>, [])
                 else let (rc, hmac) = (case in2 of None \<Rightarrow> (CRYPT_OK, hmac) | Some y \<Rightarrow> hmac_process tab hmac y) in
                   if rc \<noteq> CRYPT_OK then (SQLITE_ERROR, s\<lparr>l_heap := m\<rparr>, [])
                   else let (rc, m, hmac, out, outlen) = hmac_done tab m hmac (replicate outlen 0) outlen in
                     if rc \<noteq> CRYPT_OK then (SQLITE_ERROR, s\<lparr>l_heap := m\<rparr>, [])
                     else (SQLITE_OK, s\<lparr>l_heap := m\<rparr>, take outlen out)))"

definition sqlcipher_ltc_kdf ::
    "ltc_state \<Rightarrow> int \<Rightarrow> bytes \<Rightarrow> bytes \<Rightarrow> int \<Rightarrow> bytes \<Rightarrow> int \<times> ltc_state \<times> bytes" where
  "sqlcipher_ltc_kdf s algorithm pass salt workfactor key =
     (case hash_of_algorithm algorithm of None \<Rightarrow> (SQLITE_ERROR, s, key)
      | Some name \<Rightarrow>
         let hash_idx = find_hash name (l_hashes s) in
         if hash_idx < 0 then (SQLITE_ERROR, s, key)
         else let (rc, m, key, outlen) =
                pkcs_5_alg2 (l_hashes s) (l_junk s) (l_heap s) pass salt workfactor hash_idx key (length key) in
           (if rc \<noteq> CRYPT_OK then SQLITE_ERROR else SQLITE_OK, s\<lparr>l_heap := m\<rparr>, key))"

definition sqlcipher_ltc_cipher ::
    "ltc_state \<Rightarrow> int \<Rightarrow> bytes \<Rightarrow> bytes \<Rightarrow> bytes \<Rightarrow> int \<times> ltc_state \<times> bytes" where
  "sqlcipher_ltc_cipher s mode key iv inp =
     (let tab = l_ciphers s; cipher_idx = find_cipher LTC_CIPHER tab in
      if cipher_idx = -1 then (SQLITE_ERROR, s, [])
      else let (cbc_ok, m) = xmalloc (l_heap s); s = s\<lparr>l_heap := m\<rparr> in
        if \<not> cbc_ok then (SQLITE_ERROR, s, [])
        else let (rc, cbc) = cbc_start tab cipher_idx iv key (int (length key)) 0 fresh_cbc in
          if rc \<noteq> CRYPT_OK then (SQLITE_ERROR, s, [])
          else let (rc, out, cbc) = (if mode = SQLCIPHER_ENCRYPT then cbc_encrypt tab inp (length inp) cbc
                                     else cbc_decrypt tab inp (length inp) cbc) in
            if rc \<noteq> CRYPT_OK then (SQLITE_ERROR, s, out)
            else let (rc, cbc) = cbc_done tab cbc in
              (if rc \<noteq> CRYPT_OK then SQLITE_ERROR else SQLITE_OK, s, out))"

text \<open>The sizes; they use the result of the lookup as an index unchecked.\<close>

definition sqlcipher_ltc_get_key_sz :: "ltc_state \<Rightarrow> int" where
  "sqlcipher_ltc_get_key_sz s = max_key_length (the (l_ciphers s ! nat (find_cipher LTC_CIPHER (l_ciphers s))))"

definition sqlcipher_ltc_get_iv_sz :: "ltc_state \<Rightarrow> int" where
  "sqlcipher_ltc_get_iv_sz s = block_length (the (l_ciphers s ! nat (find_cipher LTC_CIPHER (l_ciphers s))))"

definition sqlcipher_ltc_get_block_sz :: "ltc_state \<Rightarrow> int" where
  "sqlcipher_ltc_get_block_sz s = block_length (the (l_ciphers s ! nat (find_cipher LTC_CIPHER (l_ciphers s))))"

definition sqlcipher_ltc_get_hmac_sz :: "ltc_state \<Rightarrow> int \<Rightarrow> int" where
  "sqlcipher_ltc_get_hmac_sz s algorithm =
     (case hash_of_algorithm algorithm of None \<Rightarrow> 0
      | Some name \<Rightarrow>
         let hash_idx = find_hash name (l_hashes s) in
         if hash_idx < 0 then 0 else int (hashsize (the (l_hashes s ! nat hash_idx))))"

definition sqlcipher_ltc_ctx_init :: "ltc_state \<Rightarrow> (int \<times> ltc_state) option" where
  "sqlcipher_ltc_ctx_init s = (case sqlcipher_ltc_activate s of None \<Rightarrow> None | Some (_, s) \<Rightarrow> Some (SQLITE_OK, s))"

definition sqlcipher_ltc_ctx_free :: "ltc_state \<Rightarrow> (int \<times> ltc_state) option" where
  "sqlcipher_ltc_ctx_free s = (case sqlcipher_ltc_deactivate s of None \<Rightarrow> None | Some (_, s) \<Rightarrow> Some (SQLITE_OK, s))"

definition sqlcipher_ltc_setup :: "ltc_state provider" where
  "sqlcipher_ltc_setup =
     \<lparr>p_init = None, p_shutdown = None, p_name = ''libtomcrypt'', p_add_random = sqlcipher_ltc_add_random,
      p_random = sqlcipher_ltc_random, p_hmac = (\<lambda>s a key x y. sqlcipher_ltc_hmac s a key (Some x) y),
      p_kdf = sqlcipher_ltc_kdf, p_cipher = sqlcipher_ltc_cipher, p_get_cipher = ''aes-256-cbc'',
      p_key_sz = sqlcipher_ltc_get_key_sz, p_iv_sz = sqlcipher_ltc_get_iv_sz,
      p_block_sz = sqlcipher_ltc_get_block_sz, p_hmac_sz = sqlcipher_ltc_get_hmac_sz,
      p_ctx_init = sqlcipher_ltc_ctx_init, p_ctx_free = sqlcipher_ltc_ctx_free,
      p_fips_status = 0, p_version = ''1.18.2-develop''\<rparr>"


section \<open>An active provider\<close>

definition ltc_up :: "ltc_state \<Rightarrow> bool" where
  "ltc_up s \<longleftrightarrow>
     (\<exists>i < TAB_SIZE. find_cipher LTC_CIPHER (l_ciphers s) = int i \<and> l_ciphers s ! i = Some aes_desc) \<and>
     (\<forall>alg. \<exists>j. find_hash (hash_name (descriptor_of alg)) (l_hashes s) = int j \<and> holds (l_hashes s) j alg) \<and>
     hmac_state_wf (l_junk s)"

definition ltc_roomy :: "ltc_state \<Rightarrow> bool" where
  "ltc_roomy s \<longleftrightarrow> plenty (l_heap s)"

definition alg_of :: "int \<Rightarrow> hash_functions" where
  "alg_of a = (if a = 0 then SHA1 else if a = 1 then SHA256 else SHA512)"

lemma hash_of_algorithm_simps:
  "a \<in> {0, 1, 2} \<Longrightarrow> hash_of_algorithm a = Some (hash_name (descriptor_of (alg_of a)))"
  by (auto simp: hash_of_algorithm_def algorithm_defs alg_of_def sha1_desc_def sha256_desc_def sha512_desc_def)

lemma ltc_up_hash:
  assumes "ltc_up s" "a \<in> {0, 1, 2}"
  obtains j where "find_hash (hash_name (descriptor_of (alg_of a))) (l_hashes s) = int j" "holds (l_hashes s) j (alg_of a)"
  using assms unfolding ltc_up_def by blast

lemma ltc_up_cong: "l_ciphers s' = l_ciphers s \<Longrightarrow> l_hashes s' = l_hashes s \<Longrightarrow> l_junk s' = l_junk s \<Longrightarrow> ltc_up s' = ltc_up s"
  by (simp add: ltc_up_def)

lemma ltc_up_heap [simp]: "ltc_up (s\<lparr>l_heap := m\<rparr>) = ltc_up s" "ltc_up (s\<lparr>l_prng := p\<rparr>) = ltc_up s" "ltc_up (s\<lparr>l_env := e\<rparr>) = ltc_up s"
  by (rule ltc_up_cong; simp)+

subsection \<open>HMAC and PBKDF2\<close>

definition ltc_mac :: "int \<Rightarrow> bytes \<Rightarrow> bytes \<Rightarrow> bytes" where
  "ltc_mac a = hmac_of (alg_of a)"

definition ltc_kdf :: "int \<Rightarrow> bytes \<Rightarrow> bytes \<Rightarrow> int \<Rightarrow> nat \<Rightarrow> bytes" where
  "ltc_kdf a pass salt c n = pbkdf2 (hmac_of (alg_of a)) (hashsize (descriptor_of (alg_of a))) pass salt (nat c) n"

lemma ltc_hmac_ok:
  assumes up: "ltc_up s" and a: "a \<in> {0, 1, 2}" and key: "0 < length key" "length key < 2 ^ 32"
    and x: "length x < 2 ^ 32" "length y < 2 ^ 32"
    and r: "sqlcipher_ltc_hmac s a key (Some x) (Some y) = (rc, s', out)"
  shows "served ltc_up ltc_roomy s s' rc (out = ltc_mac a key (x @ y)) \<and> length out \<le> hashsize (descriptor_of (alg_of a))"
proof -
  let ?alg = "alg_of a"
  obtain j where j: "find_hash (hash_name (descriptor_of ?alg)) (l_hashes s) = int j" "holds (l_hashes s) j ?alg"
    using ltc_up_hash [OF up a] .
  have junk: "hmac_state_wf (l_junk s)" using up by (simp add: ltc_up_def)
  show ?thesis
  proof (cases rule: xmalloc_cases [of "l_heap s"])
    case (fail m1)
    with r up j show ?thesis
      by (auto simp: sqlcipher_ltc_hmac_def hash_of_algorithm_simps [OF a] Let_def served_def ltc_roomy_def)
  next
    case (ok m1)
    obtain e1 m2 h where i: "hmac_init (l_hashes s) (hmac_md (l_junk s)) m1 blank_hmac (int j) key = (e1, m2, h)"
      by (rule prod_cases3)
    have 1: "ok_or_mem m1 m2 e1 (hmac_absorbed j ?alg key h [])"
      using hmac_init_ok [OF j(2), where u = "hmac_md (l_junk s)" and h = blank_hmac and key = key and m = m1] junk key i
      by (simp add: hmac_state_wf_def [of "l_junk s"])
    show ?thesis
    proof (cases "e1 = CRYPT_OK")
      case False
      with r up j ok 1 i show ?thesis
        by (auto simp: sqlcipher_ltc_hmac_def hash_of_algorithm_simps [OF a] Let_def served_def ltc_roomy_def ok_or_mem_def)
    next
      case True
      then obtain h1 where p1: "hmac_process (l_hashes s) h x = (CRYPT_OK, h1)" "hmac_absorbed j ?alg key h1 x"
        using hmac_process_ok [OF j(2), of key h "[]" x] 1 x by (auto simp: ok_or_mem_def)
      obtain h2 where p2: "hmac_process (l_hashes s) h1 y = (CRYPT_OK, h2)" "hmac_absorbed j ?alg key h2 (x @ y)"
        using hmac_process_ok [OF j(2) p1(2), of y] x by auto
      define n where "n = hashsize (descriptor_of ?alg)"
      obtain e2 m3 h3 out' n' where d: "hmac_done (l_hashes s) m2 h2 (replicate n 0) n = (e2, m3, h3, out', n')"
        by (metis prod_cases5)
      have 2: "ok_or_mem m2 m3 e2 (n' = n \<and> out' = hmac_of ?alg key (x @ y))"
        using hmac_done_full [OF j(2) p2(2) _ d] by (auto simp: n_def ok_or_mem_def buf_write_full)
      from r up j ok i p1(1) p2(1) d 1 2 True show ?thesis
        by (auto simp: sqlcipher_ltc_hmac_def hash_of_algorithm_simps [OF a] Let_def served_def ltc_roomy_def
            ok_or_mem_def holds_desc ltc_mac_def n_def split: if_splits)
    qed
  qed
qed

lemma ltc_kdf_ok:
  assumes up: "ltc_up s" and a: "a \<in> {0, 1, 2}" and pass: "0 < length pass" "length pass < 2 ^ 32"
    and salt: "length salt < 2 ^ 32" and r: "sqlcipher_ltc_kdf s a pass salt c buf = (rc, s', out)"
  shows "served ltc_up ltc_roomy s s' rc (out = ltc_kdf a pass salt c (length buf)) \<and> length out = length buf"
proof -
  let ?alg = "alg_of a"
  obtain j where j: "find_hash (hash_name (descriptor_of ?alg)) (l_hashes s) = int j" "holds (l_hashes s) j ?alg"
    using ltc_up_hash [OF up a] .
  have junk: "hmac_state_wf (l_junk s)" using up by (simp add: ltc_up_def)
  obtain e m out' n' where p: "pkcs_5_alg2 (l_hashes s) (l_junk s) (l_heap s) pass salt c (int j) buf (length buf) = (e, m, out', n')"
    by (metis prod_cases4)
  have "ok_or_mem (l_heap s) m e (out' = ltc_kdf a pass salt c (length buf)) \<and> length out' = length buf"
    using pkcs_5_alg2_ok [OF j(2) junk pass(1), where m = "l_heap s" and c = c and out = buf and outlen = "length buf" and S = salt]
      pass(2) salt p by (auto simp: ok_or_mem_def ltc_kdf_def buf_write_full)
  with r up j(1) p show ?thesis
    by (auto simp: sqlcipher_ltc_kdf_def hash_of_algorithm_simps [OF a] Let_def served_def ltc_roomy_def ok_or_mem_def)
qed

subsection \<open>CBC\<close>

primrec cbc_unchain :: "(bytes \<Rightarrow> bytes) \<Rightarrow> nat \<Rightarrow> bytes \<Rightarrow> nat \<Rightarrow> bytes \<Rightarrow> bytes" where
  "cbc_unchain d b iv 0 ct = []"
| "cbc_unchain d b iv (Suc n) ct = xor_bytes iv (d (take b ct)) @ cbc_unchain d b (take b ct) n (drop b ct)"

definition aes_key :: "bytes \<Rightarrow> rijndael_key" where
  "aes_key key = projr (rijndael_setup key 32 0 zero_key)"

definition ltc_enc :: "bytes \<Rightarrow> bytes \<Rightarrow> bytes \<Rightarrow> bytes" where
  "ltc_enc key iv x = cbc_chain (aes_spec key) 16 iv (length x div 16) x"

definition ltc_dec :: "bytes \<Rightarrow> bytes \<Rightarrow> bytes \<Rightarrow> bytes" where
  "ltc_dec key iv x = cbc_unchain (\<lambda>y. projr (rijndael_ecb_decrypt y (aes_key key))) 16 iv (length x div 16) x"

lemma aes_key_setup:
  assumes "length key = 32"
  shows "rijndael_setup key 32 0 zero_key = Inr (aes_key key)" "aes_key_ok (aes_key key)"
proof -
  obtain k where k: "rijndael_setup key 32 0 zero_key = Inr k" using rijndael_setup_succeeds [of 32 key zero_key] by auto
  then show "rijndael_setup key 32 0 zero_key = Inr (aes_key key)" by (simp add: aes_key_def)
  with aes_key_okI show "aes_key_ok (aes_key key)" by simp
qed

lemma decrypt_total:
  assumes "aes_key_ok k"
  shows "\<exists>x. rijndael_ecb_decrypt ct k = Inr x \<and> length x = 16"
proof -
  have "\<not> (Nr k < 2 \<or> Nr k > 16)" using assms setup_wf(4,5) by (auto simp: aes_key_ok_def not_less)
  then show ?thesis
    by (cases "td_loop (dK k) (Nr k div 2 - 1) 0 (load_block ct (dK k))") (simp add: rijndael_ecb_decrypt_def Let_def)
qed

lemma decrypt_blocks_unchain:
  assumes "aes.ready c" "length ct = n * 16" "take 16 (cbc_IV c) = iv"
  shows "\<exists>c'. cbc_decrypt_blocks rijndael_ecb_decrypt n ct c =
      (CRYPT_OK, cbc_unchain (\<lambda>y. projr (rijndael_ecb_decrypt y (cbc_key c))) 16 iv n ct, c') \<and> cbc_cipher c' = cbc_cipher c"
  using assms
proof (induction n arbitrary: ct c iv)
  case (Suc n)
  let ?c = "c\<lparr>cbc_IV := buf_write (cbc_IV c) 0 (take 16 ct)\<rparr>"
  have len: "length (take 16 ct) = 16" using Suc.prems(2) by simp
  have iv: "take 16 (cbc_IV ?c) = take 16 ct"
    using aes.buf_write_take [OF len] Suc.prems(1) by (simp add: aes.ready_def)
  obtain x where x: "rijndael_ecb_decrypt (take 16 ct) (cbc_key c) = Inr x"
    using decrypt_total Suc.prems(1) by (auto simp: aes.ready_def)
  obtain c' where "cbc_decrypt_blocks rijndael_ecb_decrypt n (drop 16 ct) ?c =
      (CRYPT_OK, cbc_unchain (\<lambda>y. projr (rijndael_ecb_decrypt y (cbc_key c))) 16 (take 16 ct) n (drop 16 ct), c')"
    "cbc_cipher c' = cbc_cipher c"
    using Suc.IH [OF aes.ready_step [OF Suc.prems(1) len] _ iv, of "drop 16 ct"] Suc.prems(2) by auto
  with x Suc.prems(1,3) show ?case by (simp add: aes.ready_def Let_def)
qed simp

lemma length_unchain:
  "(\<And>y. length (d y) = 16) \<Longrightarrow> length iv = 16 \<Longrightarrow> length ct = n * 16 \<Longrightarrow> length (cbc_unchain d 16 iv n ct) = n * 16"
  by (induction n arbitrary: iv ct) auto

text \<open>A context started on fresh memory.\<close>

lemma fresh_start:
  assumes "tab ! i = Some aes_desc" "i < TAB_SIZE" "length key = 32" "length iv = 16"
  obtains c where "cbc_start tab (int i) iv key (int (length key)) 0 fresh_cbc = (CRYPT_OK, c)"
    "aes.ready c" "take 16 (cbc_IV c) = iv" "cbc_cipher c = int i" "cbc_key c = aes_key key"
proof -
  define c where "c = fresh_cbc\<lparr>cbc_key := aes_key key, cbc_blocklen := 16, cbc_cipher := int i,
      cbc_IV := buf_write (cbc_IV fresh_cbc) 0 iv\<rparr>"
  have st: "cbc_start tab (int i) iv key (int (length key)) 0 fresh_cbc = (CRYPT_OK, c)"
    using assms aes_key_setup(1) [OF assms(3)]
    by (simp add: cbc_start_def cipher_is_valid_def aes_desc_def c_def fresh_cbc_def)
  have "aes.ready c" "take 16 (cbc_IV c) = iv"
    using assms aes_key_setup(2) by (auto simp: aes.ready_def c_def fresh_cbc_def buf_write_def)
  moreover have "cbc_cipher c = int i" "cbc_key c = aes_key key" by (simp_all add: c_def)
  ultimately show thesis using that st by blast
qed

lemma aes_spec_length: "length key = 32 \<Longrightarrow> length x = 16 \<Longrightarrow> length (aes_spec key x) = 16"
  using encrypt_is_fips [OF aes_key_setup(1), of key x] aes.E_D [OF aes_key_setup(2), of key x] by auto

lemma chain_aes_spec:
  assumes "length key = 32" "length iv = 16" "length x = n * 16"
  shows "cbc_chain (\<lambda>y. projr (rijndael_ecb_encrypt y (aes_key key))) 16 iv n x = cbc_chain (aes_spec key) 16 iv n x"
  using encrypt_is_fips [OF aes_key_setup(1) [OF assms(1)]] aes_spec_length assms
  by (intro cbc_chain_cong) simp_all

lemma ltc_enc_dec:
  assumes "length key = 32" "length iv = 16" "16 dvd length x"
  shows "length (ltc_enc key iv x) = length x" "length (ltc_dec key iv x) = length x" "ltc_dec key iv (ltc_enc key iv x) = x"
proof -
  obtain n where n: "length x = n * 16" using assms(3) by (auto simp: dvd_def mult.commute)
  note ok = aes_key_setup(2) [OF assms(1)]
  show len: "length (ltc_enc key iv x) = length x"
    using aes.length_chain [OF ok n assms(2)] n by (simp add: ltc_enc_def chain_aes_spec [OF assms(1,2) n])
  have "length (projr (rijndael_ecb_decrypt y (aes_key key))) = 16" for y using decrypt_total [OF ok, of y] by auto
  then show "length (ltc_dec key iv x) = length x" using length_unchain n assms(2) by (simp add: ltc_dec_def)
  obtain tab :: "cipher_descriptor table" and i where t: "tab ! i = Some aes_desc" "i < TAB_SIZE"
    using slot0 [of aes_desc] by (metis TAB_SIZE_def zero_less_numeral)
  obtain c where c: "aes.ready c" "take 16 (cbc_IV c) = iv" "cbc_key c = aes_key key"
    using fresh_start [OF t assms(1,2)] by metis
  let ?ct = "cbc_chain (\<lambda>y. projr (rijndael_ecb_encrypt y (cbc_key c))) 16 iv n x"
  have ct: "ltc_enc key iv x = ?ct" using n by (simp add: ltc_enc_def c(3) chain_aes_spec [OF assms(1,2) n])
  obtain c' where 1: "cbc_decrypt_blocks rijndael_ecb_decrypt n ?ct c = (CRYPT_OK, x, c')"
    using aes.decrypt_chain [OF c(1) n c(2)] by auto
  have "length ?ct = n * 16" using len n ct by simp
  from decrypt_blocks_unchain [OF c(1) this c(2)] 1 show "ltc_dec key iv (ltc_enc key iv x) = x"
    using len n by (simp add: ltc_dec_def ct c(3))
qed

lemma ltc_cipher_ok:
  assumes up: "ltc_up s" and key: "length key = 32" "length iv = 16" "16 dvd length x"
    and r: "sqlcipher_ltc_cipher s mode key iv x = (rc, s', out)"
  shows "served ltc_up ltc_roomy s s' rc (out = (if mode = SQLCIPHER_ENCRYPT then ltc_enc key iv x else ltc_dec key iv x)) \<and>
    length out \<le> length x"
proof -
  obtain i where i: "find_cipher LTC_CIPHER (l_ciphers s) = int i" "l_ciphers s ! i = Some aes_desc" "i < TAB_SIZE"
    using up by (auto simp: ltc_up_def)
  have d: "cipher_calls aes_desc = Rijndael" by (simp add: aes_desc_def)
  obtain n where n: "length x = n * 16" using key(3) by (auto simp: dvd_def mult.commute)
  show ?thesis
  proof (cases rule: xmalloc_cases [of "l_heap s"])
    case (fail m1)
    with r up i show ?thesis by (auto simp: sqlcipher_ltc_cipher_def Let_def served_def ltc_roomy_def)
  next
    case (ok m1)
    obtain c where c: "cbc_start (l_ciphers s) (int i) iv key (int (length key)) 0 fresh_cbc = (CRYPT_OK, c)"
      "aes.ready c" "take 16 (cbc_IV c) = iv" "cbc_cipher c = int i" "cbc_key c = aes_key key"
      using fresh_start [OF i(2,3) key(1,2)] .
    have "length x = 16 * n" using n by simp
    note run = cbc_encrypt_aes [OF c(2,4) i(3,2) d this] cbc_decrypt_aes [OF c(2,4) i(3,2) d this]
    have fin: "fst (cbc_done (l_ciphers s) c') = CRYPT_OK" if "cbc_cipher c' = int i" for c'
      using that i by (simp add: cbc_done_def cipher_is_valid_def)
    obtain c' where enc: "cbc_encrypt (l_ciphers s) x (length x) c = (CRYPT_OK, ltc_enc key iv x, c')" "cbc_cipher c' = int i"
      using aes.encrypt_blocks_chain [OF c(2) n] run(1) n chain_aes_spec [OF key(1,2) n] c(3,4,5)
      by (auto simp: ltc_enc_def)
    obtain c'' where dec: "cbc_decrypt (l_ciphers s) x (length x) c = (CRYPT_OK, ltc_dec key iv x, c'')" "cbc_cipher c'' = int i"
      using decrypt_blocks_unchain [OF c(2) n c(3)] run(2) n c(4,5) by (auto simp: ltc_dec_def)
    obtain rc1 rc2 e1 e2 where "cbc_done (l_ciphers s) c' = (rc1, e1)" "cbc_done (l_ciphers s) c'' = (rc2, e2)"
      by (metis surj_pair)
    then show ?thesis using r up i ok c(1) enc dec fin [of c'] fin [of c''] ltc_enc_dec(1,2) [OF key]
      by (auto simp: sqlcipher_ltc_cipher_def Let_def served_def ltc_roomy_def split: if_splits)
  qed
qed


subsection \<open>Random bytes\<close>

lemma length_fortuna_block: "length (fortuna_block prng dst) = 16 \<or> fortuna_block prng dst = dst"
  by (cases "te_loop (eK (skey prng)) (Nr (skey prng) div 2 - 1) 0 (load_block (fIV prng) (eK (skey prng)))")
    (auto simp: fortuna_block_def into_def rijndael_ecb_encrypt_def Let_def)

lemma length_fortuna_whole: "pos + 16 * n \<le> length out \<Longrightarrow> length (fst (fortuna_whole n pos out prng)) = length out"
proof (induction n arbitrary: pos out prng)
  case (Suc n)
  let ?b = "fortuna_block prng (take 16 (drop pos out))"
  have "length ?b = 16" using length_fortuna_block [of prng "take 16 (drop pos out)"] Suc.prems by auto
  then have "length (buf_write out pos ?b) = length out" using Suc.prems by (simp add: length_buf_write)
  then show ?case using Suc by simp
qed simp

lemma length_fortuna_read:
  assumes "fortuna_read timed now u tmp0 out (length out) prng = (n, out', prng')"
  shows "length out' = length out"
proof -
  have "length (fst (fortuna_output tmp0 out (length out) prng)) = length out" for prng
  proof -
    obtain o1 p1 where w: "fortuna_whole (length out div 16) 0 out prng = (o1, p1)" by (rule prod.exhaust)
    have "length o1 = length out" using length_fortuna_whole [of 0 "length out div 16" out prng] w by simp
    then show ?thesis by (simp add: fortuna_output_def w Let_def length_buf_write)
  qed
  then show ?thesis using assms
    by (auto simp: fortuna_read_def fortuna_generate_def Let_def split: if_splits prod.splits) (metis fst_conv)+
qed

lemma ltc_random_ok:
  assumes "ltc_up s" "sqlcipher_ltc_random s buf = (rc, s', out)"
  shows "served ltc_up ltc_roomy s s' rc True \<and> length out = length buf"
proof -
  obtain n out' prng where r: "fortuna_read (l_timed s) (en_now (l_env s 0)) (en_md (l_env s 0)) (en_tmp (l_env s 0)) buf (length buf)
      (l_prng s) = (n, out', prng)" by (rule prod_cases3)
  then show ?thesis using assms length_fortuna_read [OF r]
    by (auto simp: sqlcipher_ltc_random_def next_env_def served_def ltc_roomy_def)
qed

section \<open>The provider meets the contract\<close>

lemma ltc_setup_simps:
  "p_init sqlcipher_ltc_setup = None" "p_shutdown sqlcipher_ltc_setup = None"
  "p_random sqlcipher_ltc_setup = sqlcipher_ltc_random"
  "p_hmac sqlcipher_ltc_setup = (\<lambda>s a key x y. sqlcipher_ltc_hmac s a key (Some x) y)"
  "p_kdf sqlcipher_ltc_setup = sqlcipher_ltc_kdf" "p_cipher sqlcipher_ltc_setup = sqlcipher_ltc_cipher"
  "p_ctx_init sqlcipher_ltc_setup = sqlcipher_ltc_ctx_init" "p_ctx_free sqlcipher_ltc_setup = sqlcipher_ltc_ctx_free"
  by (simp_all add: sqlcipher_ltc_setup_def)

lemma length_ltc_kdf: "length (ltc_kdf a pass salt c n) = n"
  by (simp add: ltc_kdf_def)

interpretation ltc: crypto_provider sqlcipher_ltc_setup ltc_up ltc_roomy 32 16 16
  "\<lambda>a. hashsize (descriptor_of (alg_of a))" ltc_mac ltc_kdf ltc_enc ltc_dec
proof unfold_locales
  fix s assume up: "ltc_up s"
  then obtain i where "find_cipher LTC_CIPHER (l_ciphers s) = int i" "l_ciphers s ! i = Some aes_desc"
    by (auto simp: ltc_up_def)
  then show "p_key_sz sqlcipher_ltc_setup s = int 32 \<and> p_iv_sz sqlcipher_ltc_setup s = int 16 \<and> p_block_sz sqlcipher_ltc_setup s = int 16"
    by (simp add: sqlcipher_ltc_setup_def sqlcipher_ltc_get_key_sz_def sqlcipher_ltc_get_iv_sz_def
        sqlcipher_ltc_get_block_sz_def aes_desc_def)
next
  fix s a assume up: "ltc_up s" and a: "a \<in> {0, 1, 2 :: int}"
  then obtain j where "find_hash (hash_name (descriptor_of (alg_of a))) (l_hashes s) = int j" "holds (l_hashes s) j (alg_of a)"
    using ltc_up_hash by blast
  then show "p_hmac_sz sqlcipher_ltc_setup s a = int (hashsize (descriptor_of (alg_of a)))"
    by (simp add: sqlcipher_ltc_setup_def sqlcipher_ltc_get_hmac_sz_def hash_of_algorithm_simps [OF a] holds_desc Let_def)
next
  fix s a key x y rc s' out
  assume "ltc_up s" "a \<in> {0, 1, 2 :: int}" "length key = 32" "length x < 2 ^ 32" "length y < 2 ^ 32"
    "p_hmac sqlcipher_ltc_setup s a key x (Some y) = (rc, s', out)"
  then show "served ltc_up ltc_roomy s s' rc (out = ltc_mac a key (x @ y)) \<and> length out \<le> hashsize (descriptor_of (alg_of a))"
    using ltc_hmac_ok [of s a key x y rc s' out] by (simp add: ltc_setup_simps)
next
  fix s a pass salt c buf rc s' out
  assume "ltc_up s" "a \<in> {0, 1, 2 :: int}" "0 < length pass" "length pass < 2 ^ 32" "length salt < 2 ^ 32"
    "p_kdf sqlcipher_ltc_setup s a pass salt c buf = (rc, s', out)"
  then show "served ltc_up ltc_roomy s s' rc (out = ltc_kdf a pass salt c (length buf)) \<and> length out = length buf"
    using ltc_kdf_ok [of s a pass salt c buf rc s' out] by (simp add: ltc_setup_simps)
next
  fix s :: ltc_state and key iv x :: bytes and rc s' out
  assume *: "ltc_up s" "length key = 32" "length iv = 16" "16 dvd length x"
  show "p_cipher sqlcipher_ltc_setup s SQLCIPHER_ENCRYPT key iv x = (rc, s', out) \<Longrightarrow>
      served ltc_up ltc_roomy s s' rc (out = ltc_enc key iv x) \<and> length out \<le> length x"
    using ltc_cipher_ok [OF *, of SQLCIPHER_ENCRYPT rc s' out] by (simp add: ltc_setup_simps)
  show "p_cipher sqlcipher_ltc_setup s SQLCIPHER_DECRYPT key iv x = (rc, s', out) \<Longrightarrow>
      served ltc_up ltc_roomy s s' rc (out = ltc_dec key iv x) \<and> length out \<le> length x"
    using ltc_cipher_ok [OF *, of SQLCIPHER_DECRYPT rc s' out]
    by (simp add: ltc_setup_simps SQLCIPHER_ENCRYPT_def SQLCIPHER_DECRYPT_def)
qed (simp_all add: ltc_setup_simps ltc_random_ok ltc_mac_def length_ltc_kdf ltc_enc_dec)


section \<open>Activation\<close>

text \<open>The process before the first activation.\<close>

definition ltc_cold :: "ltc_state \<Rightarrow> bool" where
  "ltc_cold s \<longleftrightarrow> l_ciphers s = cipher_descriptor0 \<and> l_hashes s = hash_descriptor0 \<and> l_prngs s = prng_descriptor0 \<and>
     l_prng s = zero_prng \<and> ltc_init s = 0 \<and> ltc_ref_count s = 0 \<and> \<not> l_held s \<and> hmac_state_wf (l_junk s)"

definition ltc_hash_table :: "hash_descriptor table" where
  "ltc_hash_table = Some sha512_desc # Some sha256_desc # Some sha1_desc # replicate 31 None"

lemma scan_replicate: "scan p x (replicate n d) = (if n = 0 \<or> \<not> p d then -1 else int x)"
  by (induction n arbitrary: x) auto

lemma ltc_registrations:
  "register_prng fortuna_desc prng_descriptor0 = (0, Some fortuna_desc # replicate 33 None)"
  "register_cipher aes_desc cipher_descriptor0 = (0, Some aes_desc # replicate 33 None)"
  "\<exists>t1 t2. register_hash sha512_desc hash_descriptor0 = (0, t1) \<and> register_hash sha256_desc t1 = (1, t2) \<and>
     register_hash sha1_desc t2 = (2, ltc_hash_table)"
  by (simp_all add: register_prng_def register_cipher_def register_hash_def put_blank_def prng_descriptor0_def
      cipher_descriptor0_def hash_descriptor0_def TAB_SIZE_def scan_replicate Let_def ltc_hash_table_def
      sha512_desc_def sha256_desc_def sha1_desc_def numeral_eq_Suc)

lemma ltc_tables_up:
  assumes "l_ciphers s = Some aes_desc # replicate 33 None" "l_hashes s = ltc_hash_table" "hmac_state_wf (l_junk s)"
  shows "ltc_up s"
proof -
  have "find_cipher LTC_CIPHER (l_ciphers s) = int 0" "l_ciphers s ! 0 = Some aes_desc"
    by (simp_all add: assms(1) find_cipher_def LTC_CIPHER_def aes_desc_def)
  moreover have "\<exists>j. find_hash (hash_name (descriptor_of alg)) (l_hashes s) = int j \<and> holds (l_hashes s) j alg" for alg
    by (cases alg) (auto simp: assms(2) ltc_hash_table_def find_hash_def holds_def TAB_SIZE_def
        sha512_desc_def sha256_desc_def sha1_desc_def intro: exI [of _ 0] exI [of _ 1] exI [of _ 2])
  ultimately show ?thesis using assms(3) unfolding ltc_up_def TAB_SIZE_def
    by (metis zero_less_numeral)
qed

definition seed_of :: "ltc_env \<Rightarrow> bytes" where
  "seed_of env = snd (rng_get_bytes env (replicate FORTUNA_MAX_SZ 0) FORTUNA_MAX_SZ)"

lemma length_buf_write_le: "length src \<le> length buf \<Longrightarrow> length (buf_write buf 0 src) = length buf"
  by (simp add: length_buf_write)

lemma length_seed_of [simp]: "length (seed_of env) = 32"
proof -
  obtain x out where n: "s_rng_nix (en_files env) (replicate 32 0) 32 = (x, out)" by (rule prod.exhaust)
  then have "length out = 32"
    by (auto simp: s_rng_nix_def Let_def length_buf_write_le split: if_splits option.splits)
  with n show ?thesis by (simp add: seed_of_def rng_get_bytes_def FORTUNA_MAX_SZ_def Let_def length_buf_write_le)
qed

lemma zero_prng_ok:
  "length (pool zero_prng) = LTC_FORTUNA_POOLS" "\<forall>p \<in> set (pool zero_prng). length (md_buf p) = 64" "key_wf (skey zero_prng)"
  by (simp_all add: zero_prng_def blank_hash_state_def)

lemma feed_one: "length data = 32 \<Longrightarrow> feed_fortuna data prng =
    (let (rc, prng) = fortuna_add_entropy data 32 prng in (if rc \<noteq> CRYPT_OK then SQLITE_ERROR else 0, prng))"
  by (auto simp: feed_fortuna.simps [of data prng] feed_fortuna.simps [of "[]"] FORTUNA_MAX_SZ_def Let_def split: prod.splits)

lemma filter_drained_first: "filter (drained 1) [0..<LTC_FORTUNA_POOLS] = [0]"
  by (rule first_reseed_drained)

text \<open>The generator between \<open>fortuna_start\<close> and the end of the first activation.\<close>

lemma first_seeding:
  assumes "fortuna_start zero_prng = (CRYPT_OK, prng)" "length seed = 32" "length (md_buf u) = 64" "timed \<Longrightarrow> now \<noteq> now0 - 1"
  shows "\<exists>p q. fortuna_add_entropy seed 32 prng = (CRYPT_OK, p) \<and> fortuna_ready timed now0 now u p = (CRYPT_OK, q) \<and>
    ready q \<and> reset_cnt q = 1 \<and> pool0_len q = 0 \<and> pool_idx q = 1 \<and>
    fK q = fips_sha256 (replicate 32 0 @ fips_sha256 (0 # 32 # seed)) \<and>
    fortuna_rep q (replicate LTC_FORTUNA_POOLS []) (fK q)"
proof -
  have st: "fortuna_rep prng (replicate LTC_FORTUNA_POOLS []) (replicate 32 0)" "fK prng = replicate 32 0"
    "reset_cnt prng = 0" "pool_idx prng = 0"
    using start_ok [OF zero_prng_ok] assms(1) by auto
  obtain p where p: "fortuna_add_entropy seed 32 prng = (CRYPT_OK, p)"
    "fortuna_rep p ((replicate LTC_FORTUNA_POOLS [])[0 := 0 # 32 # seed]) (replicate 32 0)"
    "p = prng\<lparr>pool := pool p, pool_idx := 1, pool0_len := pool0_len prng + 32\<rparr>"
    using add_entropy_ok [OF st(1), of 32 seed] assms(2) st(4) by (auto simp: LTC_FORTUNA_POOLS_def)
  have pf: "fK p = replicate 32 0" "reset_cnt p = 0" "pool_idx p = 1" by (subst p(3), simp add: st)+
  let ?cs = "(replicate LTC_FORTUNA_POOLS [])[0 := 0 # 32 # seed]"
  have "seed_string 1 ?cs 0 = fips_sha256 (0 # 32 # seed)"
    using first_reseed_drained by (simp add: seed_string_def LTC_FORTUNA_POOLS_def del: upt_rec_numeral)
  moreover have "pools_after 1 ?cs 0 = replicate LTC_FORTUNA_POOLS []"
    by (rule nth_equalityI) (auto simp: pools_after_def nth_list_update drained_def)
  ultimately show ?thesis
    using ready_ok [OF p(2) assms(3), of timed now now0] assms(4) pf p(1) by (auto simp: Let_def)
qed


lemma activate_cold:
  assumes "ltc_cold s" "length (md_buf (en_md (l_env s 1))) = 64" "l_timed s \<Longrightarrow> en_now (l_env s 1) \<noteq> en_now0 (l_env s 1) - 1"
  shows "\<exists>s'. sqlcipher_ltc_activate s = Some (SQLITE_OK, s') \<and> ltc_up s' \<and> ltc_init s' = 1 \<and> ltc_ref_count s' = 1 \<and>
    \<not> l_held s' \<and> l_heap s' = l_heap s \<and> ready (l_prng s') \<and>
    fK (l_prng s') = fips_sha256 (replicate 32 0 @ fips_sha256 (0 # 32 # seed_of (l_env s 0)))"
proof -
  obtain prng where st: "fortuna_start zero_prng = (CRYPT_OK, prng)" using start_ok [OF zero_prng_ok] by auto
  obtain p q where pq: "fortuna_add_entropy (seed_of (l_env s 0)) 32 prng = (CRYPT_OK, p)"
    "fortuna_ready (l_timed s) (en_now0 (l_env s 1)) (en_now (l_env s 1)) (en_md (l_env s 1)) p = (CRYPT_OK, q)" "ready q"
    "fK q = fips_sha256 (replicate 32 0 @ fips_sha256 (0 # 32 # seed_of (l_env s 0)))"
    using first_seeding [OF st length_seed_of assms(2,3)] by blast
  obtain t1 t2 where t: "register_hash sha512_desc hash_descriptor0 = (0, t1)" "register_hash sha256_desc t1 = (1, t2)"
    "register_hash sha1_desc t2 = (2, ltc_hash_table)" using ltc_registrations(3) by blast
  obtain x seed where rng: "rng_get_bytes (l_env s 0) (replicate FORTUNA_MAX_SZ 0) FORTUNA_MAX_SZ = (x, seed)"
    by (rule prod.exhaust)
  then have seed: "seed = seed_of (l_env s 0)" by (simp add: seed_of_def)
  define s1 where "s1 = s\<lparr>l_held := True, l_prngs := Some fortuna_desc # replicate 33 None,
      l_ciphers := Some aes_desc # replicate 33 None, l_hashes := ltc_hash_table, l_prng := prng, ltc_init := 1\<rparr>"
  have first: "ltc_first_use (s\<lparr>l_held := True\<rparr>) = (True, s1)"
    using assms(1) by (simp add: ltc_first_use_def ltc_cold_def ltc_registrations(1,2) t st s1_def Let_def)
  define s2 where "s2 = s1\<lparr>l_held := False, ltc_ref_count := 1, l_env := (\<lambda>n. l_env s (Suc (Suc n))), l_prng := q\<rparr>"
  have add: "sqlcipher_ltc_add_random (s1\<lparr>ltc_ref_count := 1, l_env := (\<lambda>n. l_env s (Suc n))\<rparr>) seed = (0, s2\<lparr>l_held := True\<rparr>)"
    using pq(1,2) by (simp add: sqlcipher_ltc_add_random_def next_env_def feed_one seed Let_def s1_def s2_def)
  have "sqlcipher_ltc_activate s = Some (SQLITE_OK, s2)"
  proof -
    have "ltc_ref_count s1 = 0" "l_env s1 = l_env s" "s2\<lparr>l_held := False\<rparr> = s2"
      using assms(1) by (simp_all add: s1_def s2_def ltc_cold_def)
    then show ?thesis using assms(1) add
      by (simp add: sqlcipher_ltc_activate_def ltc_cold_def first rng next_env_def Let_def)
  qed
  moreover have "ltc_up s2"
    by (rule ltc_tables_up) (use assms(1) in \<open>simp_all add: s2_def s1_def ltc_cold_def\<close>)
  ultimately show ?thesis using pq(3,4) by (simp add: s2_def s1_def)
qed


subsection \<open>Reactivation\<close>

lemma add_entropy_pools:
  assumes "x \<noteq> pool_idx prng"
  shows "pool (snd (fortuna_add_entropy inp n prng)) ! x = pool prng ! x"
    "reset_cnt (snd (fortuna_add_entropy inp n prng)) = reset_cnt prng"
  using assms by (simp_all add: fortuna_add_entropy_def s_fortuna_add_def Let_def split: prod.splits)

lemma reseed_pools_first:
  assumes "0 < x"
  shows "fst (snd (reseed_pools LTC_FORTUNA_POOLS 0 1 ps md)) ! x = ps ! x"
proof -
  have "(1 :: u64) AND 1 = 1" by simp
  then show ?thesis using assms by (simp add: LTC_FORTUNA_POOLS_def numeral_eq_Suc Let_def split: prod.split)
qed

lemma fortuna_ready_pools:
  assumes "0 < x" "reset_cnt prng = 0"
  shows "pool (snd (fortuna_ready timed now0 now u prng)) ! x = pool prng ! x"
  using reseed_pools_first [OF assms(1)] assms(2)
  by (auto simp: fortuna_ready_def s_fortuna_reseed_def s_fortuna_update_iv_def Let_def split: prod.splits sum.splits)
     (metis fst_conv snd_conv)+

lemma add_random_pools:
  assumes "0 < x" "reset_cnt (l_prng s) = 0" "pool_idx (l_prng s) = 0" "length data = 32"
  shows "pool (l_prng (snd (sqlcipher_ltc_add_random s data))) ! x = pool (l_prng s) ! x"
  using add_entropy_pools [of x "l_prng s" data 32] fortuna_ready_pools [OF assms(1)] assms
  by (auto simp: sqlcipher_ltc_add_random_def next_env_def feed_one Let_def split: prod.splits) (metis snd_conv)+

section \<open>Properties\<close>

text \<open>
  An active provider computes HMAC of the concatenated inputs with the hash of the algorithm code and
  PBKDF2 with that HMAC, or reports \<open>SQLITE_ERROR\<close> when an allocation fails; an unknown
  algorithm code is refused.
\<close>

theorem ltc_mac_and_kdf:
  assumes "ltc_up s" "length key < 2 ^ 32" "key \<noteq> []" "length x < 2 ^ 32" "length y < 2 ^ 32" "length salt < 2 ^ 32"
  shows "(a \<in> {0, 1, 2} \<longrightarrow> sqlcipher_ltc_hmac s a key (Some x) (Some y) = (rc, s', out) \<longrightarrow>
      rc = SQLITE_OK \<and> out = hmac_spec (fips_digest (alg_of a)) (hash_blocksize (descriptor_of (alg_of a))) key (x @ y) \<or>
      rc = SQLITE_ERROR \<and> (\<exists>n. \<not> l_heap s n)) \<and>
    (a \<in> {0, 1, 2} \<longrightarrow> sqlcipher_ltc_kdf s a key salt c buf = (rc, s', out) \<longrightarrow>
      rc = SQLITE_OK \<and> out = pbkdf2 (hmac_of (alg_of a)) (hashsize (descriptor_of (alg_of a))) key salt (nat c) (length buf) \<or>
      rc = SQLITE_ERROR \<and> (\<exists>n. \<not> l_heap s n)) \<and>
    (a \<notin> {0, 1, 2} \<longrightarrow> sqlcipher_ltc_hmac s a key (Some x) (Some y) = (SQLITE_ERROR, s, []) \<and>
      sqlcipher_ltc_kdf s a key salt c buf = (SQLITE_ERROR, s, buf))"
proof -
  have "served ltc_up ltc_roomy s s' rc (out = ltc_mac a key (x @ y))"
    if "a \<in> {0, 1, 2}" "sqlcipher_ltc_hmac s a key (Some x) (Some y) = (rc, s', out)"
    using ltc_hmac_ok [OF assms(1) that(1) _ assms(2,4,5) that(2)] assms(3) by simp
  moreover have "served ltc_up ltc_roomy s s' rc (out = ltc_kdf a key salt c (length buf))"
    if "a \<in> {0, 1, 2}" "sqlcipher_ltc_kdf s a key salt c buf = (rc, s', out)"
    using ltc_kdf_ok [OF assms(1) that(1) _ assms(2,6) that(2)] assms(3) by simp
  moreover have "hash_of_algorithm a = None" if "a \<notin> {0, 1, 2}"
    using that by (simp add: hash_of_algorithm_def algorithm_defs)
  ultimately show ?thesis
    by (auto simp: served_def ltc_roomy_def plenty_def ltc_mac_def ltc_kdf_def sqlcipher_ltc_hmac_def sqlcipher_ltc_kdf_def)
qed

definition warm_ltc :: ltc_state where
  "warm_ltc = \<lparr>l_ciphers = Some aes_desc # replicate 33 None, l_hashes = ltc_hash_table, l_prngs = prng_descriptor0,
     l_prng = zero_prng, ltc_init = 1, ltc_ref_count = 1, l_held = False, l_heap = (\<lambda>_. True), l_junk = blank_hmac,
     l_timed = False, l_env = (\<lambda>_. \<lparr>en_files = (\<lambda>_. None), en_jitter = replicate 32 7, en_now0 = 0, en_now = 5,
       en_md = st32 blank_hash_state, en_tmp = replicate 16 0\<rparr>)\<rparr>"

lemma warm_ltc_up: "ltc_up warm_ltc" "ltc_roomy warm_ltc"
  by (rule ltc_tables_up) (simp_all add: warm_ltc_def ltc_roomy_def plenty_def)

theorem ltc_mac_and_kdf_witness:
  "\<exists>s' out. sqlcipher_ltc_hmac warm_ltc 2 [1] (Some [2]) (Some [3]) = (SQLITE_OK, s', out) \<and>
     out = hmac_spec fips_sha512 128 [1] [2, 3]"
proof -
  obtain rc s' out where r: "sqlcipher_ltc_hmac warm_ltc 2 [1] (Some [2]) (Some [3]) = (rc, s', out)" by (rule prod_cases3)
  show ?thesis using ltc_mac_and_kdf [OF warm_ltc_up(1), of "[1]" "[2]" "[3]" "[]" 2 rc s' out] r
    by (auto simp: warm_ltc_def alg_of_def sha512_desc_def)
qed

text \<open>
  C10: for a 32-byte key, a 16-byte IV and whole blocks, encryption by an active provider is CBC with
  the FIPS-197 cipher, and decrypting the result gives the data back; each call either
  does this or reports \<open>SQLITE_ERROR\<close> when the context cannot be allocated.
\<close>

theorem ltc_cipher_round_trip:
  assumes "ltc_up s" "ltc_up t" "length key = 32" "length iv = 16" "16 dvd length x"
    and "sqlcipher_ltc_cipher s SQLCIPHER_ENCRYPT key iv x = (rc, s', ct)"
    and "sqlcipher_ltc_cipher t SQLCIPHER_DECRYPT key iv (ltc_enc key iv x) = (rc', t', pt)"
  shows "(rc = SQLITE_OK \<and> ct = cbc_chain (aes_spec key) 16 iv (length x div 16) x \<and> ct = ltc_enc key iv x \<and>
      length ct = length x \<or> rc = SQLITE_ERROR \<and> (\<exists>n. \<not> l_heap s n)) \<and>
    (rc' = SQLITE_OK \<and> pt = x \<or> rc' = SQLITE_ERROR \<and> (\<exists>n. \<not> l_heap t n))"
proof -
  have "16 dvd length (ltc_enc key iv x)" using ltc_enc_dec(1) [OF assms(3-5)] assms(5) by simp
  from ltc_cipher_ok [OF assms(1,3-6)] ltc_cipher_ok [OF assms(2,3,4) this assms(7)] ltc_enc_dec [OF assms(3-5)]
  show ?thesis
    by (auto simp: served_def ltc_roomy_def plenty_def SQLCIPHER_ENCRYPT_def SQLCIPHER_DECRYPT_def ltc_enc_def [of key iv x])
qed

theorem ltc_cipher_round_trip_witness:
  "\<exists>s' ct t'. sqlcipher_ltc_cipher warm_ltc SQLCIPHER_ENCRYPT (replicate 32 1) (replicate 16 2) (replicate 48 3) = (SQLITE_OK, s', ct) \<and>
     sqlcipher_ltc_cipher warm_ltc SQLCIPHER_DECRYPT (replicate 32 1) (replicate 16 2) ct = (SQLITE_OK, t', replicate 48 3)"
proof -
  let ?k = "replicate 32 1 :: bytes" and ?iv = "replicate 16 2 :: bytes" and ?x = "replicate 48 3 :: bytes"
  obtain rc s' ct where e: "sqlcipher_ltc_cipher warm_ltc SQLCIPHER_ENCRYPT ?k ?iv ?x = (rc, s', ct)" by (rule prod_cases3)
  obtain rc' t' pt where d: "sqlcipher_ltc_cipher warm_ltc SQLCIPHER_DECRYPT ?k ?iv (ltc_enc ?k ?iv ?x) = (rc', t', pt)"
    by (rule prod_cases3)
  have "l_heap warm_ltc n" for n by (simp add: warm_ltc_def)
  with ltc_cipher_round_trip [OF warm_ltc_up(1) warm_ltc_up(1) _ _ _ e d] e d show ?thesis by auto
qed

text \<open>
  The first activation registers the cipher, the hashes and the generator, leaves one reference and the
  mutex free, and keys the ready generator with SHA-256 of the zero key and the digest of the one event that carries the
  seed of the system.
\<close>

theorem ltc_first_activation:
  assumes "ltc_cold s" "length (md_buf (en_md (l_env s 1))) = 64" "l_timed s \<Longrightarrow> en_now (l_env s 1) \<noteq> en_now0 (l_env s 1) - 1"
  shows "\<exists>s'. sqlcipher_ltc_activate s = Some (SQLITE_OK, s') \<and> ltc_up s' \<and> ltc_init s' = 1 \<and> ltc_ref_count s' = 1 \<and>
    \<not> l_held s' \<and> l_heap s' = l_heap s \<and> ready (l_prng s') \<and>
    fK (l_prng s') = fips_sha256 (replicate 32 0 @ fips_sha256 (0 # 32 # seed_of (l_env s 0)))"
  using assms by (rule activate_cold)

definition cold_ltc :: ltc_state where
  "cold_ltc = warm_ltc\<lparr>l_ciphers := cipher_descriptor0, l_hashes := hash_descriptor0, ltc_init := 0, ltc_ref_count := 0\<rparr>"

theorem ltc_first_activation_witness:
  "\<exists>s'. sqlcipher_ltc_activate cold_ltc = Some (SQLITE_OK, s') \<and> ready (l_prng s')"
  using ltc_first_activation [of cold_ltc] by (auto simp: cold_ltc_def warm_ltc_def ltc_cold_def)

text \<open>
  C11: an activation that fails returns with its mutex held: \<open>sqlcipher_ltc_ctx_init\<close> hides the failure,
  and every later activation or deactivation blocks for ever.
\<close>

theorem ltc_failed_activation_blocks:
  assumes "sqlcipher_ltc_activate s = Some (rc, s')" "rc \<noteq> SQLITE_OK"
  shows "sqlcipher_ltc_ctx_init s = Some (SQLITE_OK, s') \<and> sqlcipher_ltc_activate s' = None \<and> sqlcipher_ltc_deactivate s' = None"
proof -
  have first: "l_held t = l_held s" if "ltc_first_use s = (b, t)" for s b t
    using that by (auto simp: ltc_first_use_def Let_def split: if_splits prod.splits)
  have add: "l_held t = l_held s" if "sqlcipher_ltc_add_random s d = (c, t)" for s d c t
    using that by (auto simp: sqlcipher_ltc_add_random_def next_env_def Let_def split: prod.splits)
  have "l_held s'" using assms
    by (auto simp: sqlcipher_ltc_activate_def next_env_def Let_def split: if_splits prod.splits dest!: first add)
  then show ?thesis using assms by (simp add: sqlcipher_ltc_ctx_init_def sqlcipher_ltc_activate_def sqlcipher_ltc_deactivate_def)
qed

definition full_ltc :: ltc_state where
  "full_ltc = cold_ltc\<lparr>l_hashes := replicate 34 (Some (sha1_desc\<lparr>hash_name := ''md5''\<rparr>))\<rparr>"

theorem ltc_failed_activation_blocks_witness:
  "\<exists>s'. sqlcipher_ltc_ctx_init full_ltc = Some (SQLITE_OK, s') \<and> sqlcipher_ltc_activate s' = None"
proof -
  have "register_hash sha512_desc (l_hashes full_ltc) = (-1, l_hashes full_ltc)"
    by (simp add: full_ltc_def register_hash_def put_blank_def scan_replicate sha512_desc_def sha1_desc_def Let_def)
  then have "\<exists>s'. sqlcipher_ltc_activate full_ltc = Some (SQLITE_ERROR, s')"
    by (simp add: sqlcipher_ltc_activate_def ltc_first_use_def full_ltc_def cold_ltc_def warm_ltc_def ltc_registrations(1,2) Let_def)
  then show ?thesis using ltc_failed_activation_blocks by fastforce
qed

text \<open>
  C12: when the last reference goes the generator is zeroed but \<open>ltc_init\<close> stays set, so the next
  activation does not start it again: every pool but the first then works from an all-zero chaining value and not from
  the initial value of SHA-256.
\<close>

theorem ltc_reactivation_skips_start:
  assumes "\<not> l_held s" "ltc_ref_count s = 1" "ltc_init s \<noteq> 0" "0 < x" "x < LTC_FORTUNA_POOLS"
  shows "\<exists>s1 rc s2. sqlcipher_ltc_deactivate s = Some (SQLITE_OK, s1) \<and> sqlcipher_ltc_activate s1 = Some (rc, s2) \<and>
    md_words (pool (l_prng s2) ! x) = replicate 8 0 \<and> replicate 8 0 \<noteq> sha256_iv"
proof -
  define s1 where "s1 = s\<lparr>ltc_ref_count := 0, l_prng := zero_prng\<rparr>"
  have 1: "sqlcipher_ltc_deactivate s = Some (SQLITE_OK, s1)"
    using assms(1,2) by (simp add: sqlcipher_ltc_deactivate_def s1_def Let_def split: prod.split)
  define s1' where "s1' = s1\<lparr>l_held := True, ltc_ref_count := 1, l_env := (\<lambda>n. l_env s (Suc n))\<rparr>"
  obtain y seed where rng: "rng_get_bytes (l_env s 0) (replicate FORTUNA_MAX_SZ 0) FORTUNA_MAX_SZ = (y, seed)"
    by (rule prod.exhaust)
  then have seed: "length seed = 32" using length_seed_of [of "l_env s 0"] by (simp add: seed_of_def)
  obtain rc t where add: "sqlcipher_ltc_add_random s1' seed = (rc, t)" by (rule prod.exhaust)
  have "sqlcipher_ltc_activate s1 = Some (if rc = SQLITE_OK then (SQLITE_OK, t\<lparr>l_held := False\<rparr>) else (SQLITE_ERROR, t))"
    using assms(1,3) rng add by (simp add: sqlcipher_ltc_activate_def next_env_def s1_def s1'_def Let_def)
  moreover have "pool (l_prng t) ! x = pool zero_prng ! x"
    using add_random_pools [OF assms(4), of s1' seed] seed add by (simp add: s1'_def s1_def zero_prng_def)
  moreover have "md_words (pool zero_prng ! x) = replicate 8 0"
    using assms(5) by (simp add: zero_prng_def blank_hash_state_def)
  moreover have "replicate 8 0 \<noteq> sha256_iv"
  proof -
    have "hd (replicate 8 0) \<noteq> hd sha256_iv" by (simp add: sha256_iv_def)
    then show ?thesis by metis
  qed
  ultimately show ?thesis using 1 by (cases "rc = SQLITE_OK") auto
qed

theorem ltc_reactivation_skips_start_witness:
  "\<exists>s1 rc s2. sqlcipher_ltc_deactivate warm_ltc = Some (SQLITE_OK, s1) \<and> sqlcipher_ltc_activate s1 = Some (rc, s2) \<and>
     md_words (pool (l_prng s2) ! 3) = replicate 8 0"
  using ltc_reactivation_skips_start [of warm_ltc 3] by (auto simp: warm_ltc_def LTC_FORTUNA_POOLS_def)

end
