(* ===== verification/CodecCtx.thy ===== *)
theory CodecCtx
  imports LtcProvider
begin

text \<open>
  The codec context of SQLCipher: \<open>cipher_ctx\<close>, \<open>codec_ctx\<close>, their construction, copying and
  comparison, the settings that the pragmas change, and the key specification.  Memory
  that \<open>sqlcipher_malloc\<close> returns is zeroed; whether it returns any is the next answer of
  \<open>w_heap\<close> (the allocator itself is \<open>PrivHeap\<close>).  Keys are given with their length, which is
  not negative.
\<close>

unbundle bit_operations_syntax

section \<open>State\<close>

text \<open>The defaults that pragmas change, in the order of the code.\<close>

record codec_defaults =
  default_flags :: u32
  hmac_salt_mask :: byte
  default_kdf_iter :: int
  default_page_size :: int
  default_plaintext_header_size :: int
  default_hmac_algorithm :: int
  default_kdf_algorithm :: int

text \<open>
  What the codec shares with the rest of the process: the state of the provider, the supply
  of allocation outcomes, the state of xoshiro, the shield mask and the defaults.
\<close>

record 's world =
  w_prov :: 's
  w_heap :: heap
  w_xo :: xoshiro
  w_mask :: bytes
  w_defaults :: codec_defaults

text \<open>
  What the codec uses of a B-tree and its pager: whether the file is open, the answer of
  \<open>sqlite3OsRead\<close> at offset 0 to a buffer, the auto-vacuum mode, whether the tree is in shared
  cache, and the error codes of the pager and the connection.
\<close>

record btree =
  bt_open :: bool
  bt_read :: "bytes \<Rightarrow> int \<times> bytes"
  bt_autovacuum :: int
  bt_sharable :: bool
  bt_pager_err :: int
  bt_db_err :: int

record cipher_ctx =
  derive_key :: int
  pass_sz :: int
  ck_key :: bytes
  ck_hmac_key :: bytes
  pass :: "bytes option"

record codec_ctx =
  store_pass :: int
  kdf_iter :: int
  fast_kdf_iter :: int
  kdf_salt_sz :: int
  key_sz :: int
  iv_sz :: int
  block_sz :: int
  page_sz :: int
  reserve_sz :: int
  hmac_sz :: int
  plaintext_header_sz :: int
  hmac_algorithm :: int
  kdf_algorithm :: int
  cc_error :: int
  cc_flags :: u32
  kdf_salt :: bytes
  hmac_kdf_salt :: bytes
  cc_buffer :: "bytes option"
  pBt :: btree
  read_ctx :: cipher_ctx
  write_ctx :: cipher_ctx

definition FILE_HEADER_SZ :: int where "FILE_HEADER_SZ = 16"
definition PBKDF2_ITER :: int where "PBKDF2_ITER = 256000"
definition FAST_PBKDF2_ITER :: int where "FAST_PBKDF2_ITER = 2"
definition HMAC_SALT_MASK :: byte where "HMAC_SALT_MASK = 0x3a"

definition CIPHER_FLAG_HMAC :: u32 where "CIPHER_FLAG_HMAC = push_bit 0 1"
definition CIPHER_FLAG_LE_PGNO :: u32 where "CIPHER_FLAG_LE_PGNO = push_bit 1 1"
definition CIPHER_FLAG_BE_PGNO :: u32 where "CIPHER_FLAG_BE_PGNO = push_bit 2 1"
definition CIPHER_FLAG_KEY_USED :: u32 where "CIPHER_FLAG_KEY_USED = push_bit 3 1"
definition CIPHER_FLAG_HAS_KDF_SALT :: u32 where "CIPHER_FLAG_HAS_KDF_SALT = push_bit 4 1"

definition DEFAULT_CIPHER_FLAGS :: u32 where
  "DEFAULT_CIPHER_FLAGS = CIPHER_FLAG_HMAC OR CIPHER_FLAG_LE_PGNO"

definition FLAG_GET :: "u32 \<Rightarrow> u32 \<Rightarrow> bool" where "FLAG_GET f b \<longleftrightarrow> f AND b \<noteq> 0"
definition FLAG_SET :: "u32 \<Rightarrow> u32 \<Rightarrow> u32" where "FLAG_SET f b = f OR b"
definition FLAG_UNSET :: "u32 \<Rightarrow> u32 \<Rightarrow> u32" where "FLAG_UNSET f b = f AND NOT b"

definition initial_defaults :: codec_defaults where
  "initial_defaults = \<lparr>default_flags = DEFAULT_CIPHER_FLAGS, hmac_salt_mask = HMAC_SALT_MASK,
     default_kdf_iter = PBKDF2_ITER, default_page_size = 4096, default_plaintext_header_size = 0,
     default_hmac_algorithm = SQLCIPHER_HMAC_SHA512, default_kdf_algorithm = SQLCIPHER_PBKDF2_HMAC_SHA512\<rparr>"

text \<open>\<open>sqlcipher_malloc(sz)\<close>: whether it returned memory.\<close>

definition w_malloc :: "int \<Rightarrow> 's world \<Rightarrow> bool \<times> 's world" where
  "w_malloc sz w = (if sz < 1 then (False, w) else let (ok, m) = xmalloc (w_heap w) in (ok, w\<lparr>w_heap := m\<rparr>))"

section \<open>Cipher contexts\<close>

definition sqlcipher_cipher_ctx_init :: "codec_ctx \<Rightarrow> 's world \<Rightarrow> int \<times> cipher_ctx option \<times> 's world" where
  "sqlcipher_cipher_ctx_init ctx w =
     (let (ok, w) = w_malloc 32 w in
      if \<not> ok then (SQLITE_NOMEM, None, w)
      else let (key_ok, w) = w_malloc (key_sz ctx) w;
               (hmac_key_ok, w) = w_malloc (key_sz ctx) w in
        if \<not> key_ok \<or> \<not> hmac_key_ok then (SQLITE_NOMEM, None, w)
        else (SQLITE_OK, Some \<lparr>derive_key = 0, pass_sz = 0, ck_key = replicate (nat (key_sz ctx)) 0,
                ck_hmac_key = replicate (nat (key_sz ctx)) 0, pass = None\<rparr>, w))"

definition sqlcipher_cipher_ctx_cmp :: "cipher_ctx \<Rightarrow> cipher_ctx \<Rightarrow> int" where
  "sqlcipher_cipher_ctx_cmp c1 c2 =
     (let are_equal = (pass_sz c1 = pass_sz c2 \<and>
            (pass c1 = None \<and> pass c2 = None \<or>
             sqlcipher_memcmp (case pass c1 of None \<Rightarrow> [] | Some p \<Rightarrow> p)
               (case pass c2 of None \<Rightarrow> [] | Some p \<Rightarrow> p) (nat (pass_sz c1)) = 0))
      in if are_equal then 0 else 1)"

text \<open>The key buffers of the target stay in place and receive \<open>key_sz\<close> bytes.\<close>

definition sqlcipher_cipher_ctx_copy :: "codec_ctx \<Rightarrow> cipher_ctx \<Rightarrow> cipher_ctx \<Rightarrow> 's world \<Rightarrow> int \<times> cipher_ctx \<times> 's world" where
  "sqlcipher_cipher_ctx_copy ctx target source w =
     (let n = nat (key_sz ctx);
          t = source\<lparr>ck_key := buf_write (ck_key target) 0 (take n (ck_key source)),
                     ck_hmac_key := buf_write (ck_hmac_key target) 0 (take n (ck_hmac_key source))\<rparr> in
      case pass source of
        Some p \<Rightarrow>
          if pass_sz source \<noteq> 0
          then let (ok, w) = w_malloc (pass_sz source) w in
            if \<not> ok then (SQLITE_NOMEM, t\<lparr>pass := None\<rparr>, w) else (SQLITE_OK, t\<lparr>pass := Some p\<rparr>, w)
          else (SQLITE_OK, t, w)
      | None \<Rightarrow> (SQLITE_OK, t, w))"

definition sqlcipher_cipher_ctx_set_pass :: "cipher_ctx \<Rightarrow> bytes option \<Rightarrow> 's world \<Rightarrow> int \<times> cipher_ctx \<times> 's world" where
  "sqlcipher_cipher_ctx_set_pass c zKey w =
     (let c = c\<lparr>pass := None, pass_sz := 0\<rparr> in
      case zKey of None \<Rightarrow> (SQLITE_OK, c, w)
      | Some k \<Rightarrow>
          if length k = 0 then (SQLITE_OK, c, w)
          else let c = c\<lparr>pass_sz := int (length k)\<rparr>;
                   (ok, w) = w_malloc (int (length k)) w in
            if \<not> ok then (SQLITE_NOMEM, c, w) else (SQLITE_OK, c\<lparr>pass := Some k\<rparr>, w))"

text \<open>\<open>for_ctx\<close>: 0 the read context, 1 the write context, 2 the write context and then a copy to the read context.\<close>

definition get_cctx :: "int \<Rightarrow> codec_ctx \<Rightarrow> cipher_ctx" where
  "get_cctx for_ctx ctx = (if for_ctx \<noteq> 0 then write_ctx ctx else read_ctx ctx)"

definition set_cctx :: "int \<Rightarrow> cipher_ctx \<Rightarrow> codec_ctx \<Rightarrow> codec_ctx" where
  "set_cctx for_ctx c ctx = (if for_ctx \<noteq> 0 then ctx\<lparr>write_ctx := c\<rparr> else ctx\<lparr>read_ctx := c\<rparr>)"

definition sqlcipher_codec_ctx_set_pass :: "codec_ctx \<Rightarrow> bytes option \<Rightarrow> int \<Rightarrow> 's world \<Rightarrow> int \<times> codec_ctx \<times> 's world" where
  "sqlcipher_codec_ctx_set_pass ctx zKey for_ctx w =
     (let (rc, c, w) = sqlcipher_cipher_ctx_set_pass (get_cctx for_ctx ctx) zKey w in
      if rc \<noteq> SQLITE_OK then (rc, set_cctx for_ctx c ctx, w)
      else let c = c\<lparr>derive_key := 1\<rparr>; ctx = set_cctx for_ctx c ctx in
        if for_ctx = 2
        then let (rc, r, w) = sqlcipher_cipher_ctx_copy ctx (read_ctx ctx) c w in (rc, ctx\<lparr>read_ctx := r\<rparr>, w)
        else (SQLITE_OK, ctx, w))"

definition sqlcipher_codec_key_copy :: "codec_ctx \<Rightarrow> int \<Rightarrow> 's world \<Rightarrow> int \<times> codec_ctx \<times> 's world" where
  "sqlcipher_codec_key_copy ctx source w =
     (if source = 0
      then let (rc, c, w) = sqlcipher_cipher_ctx_copy ctx (write_ctx ctx) (read_ctx ctx) w in (rc, ctx\<lparr>write_ctx := c\<rparr>, w)
      else let (rc, c, w) = sqlcipher_cipher_ctx_copy ctx (read_ctx ctx) (write_ctx ctx) w in (rc, ctx\<lparr>read_ctx := c\<rparr>, w))"

section \<open>Settings\<close>

definition sqlcipher_codec_ctx_reserve_setup :: "'s provider \<Rightarrow> codec_ctx \<Rightarrow> 's world \<Rightarrow> int \<times> codec_ctx" where
  "sqlcipher_codec_ctx_reserve_setup P ctx w =
     (let reserve = iv_sz ctx;
          ctx = ctx\<lparr>hmac_sz := p_hmac_sz P (w_prov w) (hmac_algorithm ctx)\<rparr>;
          reserve = (if FLAG_GET (cc_flags ctx) CIPHER_FLAG_HMAC then reserve + hmac_sz ctx else reserve);
          reserve = (if block_sz ctx > 0
            then if reserve mod block_sz ctx = 0 then reserve else (reserve div block_sz ctx + 1) * block_sz ctx
            else reserve)
      in (SQLITE_OK, ctx\<lparr>reserve_sz := reserve\<rparr>))"

definition sqlcipher_set_derive_key :: "codec_ctx \<Rightarrow> int \<Rightarrow> codec_ctx" where
  "sqlcipher_set_derive_key ctx derive =
     ctx\<lparr>read_ctx := (read_ctx ctx)\<lparr>derive_key := derive\<rparr>, write_ctx := (write_ctx ctx)\<lparr>derive_key := derive\<rparr>\<rparr>"

definition sqlcipher_codec_ctx_set_kdf_iter :: "codec_ctx \<Rightarrow> int \<Rightarrow> int \<times> codec_ctx" where
  "sqlcipher_codec_ctx_set_kdf_iter ctx n =
     (if FLAG_GET (cc_flags ctx) CIPHER_FLAG_KEY_USED then (SQLITE_OK, ctx)
      else (SQLITE_OK, sqlcipher_set_derive_key (ctx\<lparr>kdf_iter := n\<rparr>) 1))"

definition sqlcipher_codec_ctx_set_fast_kdf_iter :: "codec_ctx \<Rightarrow> int \<Rightarrow> int \<times> codec_ctx" where
  "sqlcipher_codec_ctx_set_fast_kdf_iter ctx n =
     (if FLAG_GET (cc_flags ctx) CIPHER_FLAG_KEY_USED then (SQLITE_OK, ctx)
      else (SQLITE_OK, sqlcipher_set_derive_key (ctx\<lparr>fast_kdf_iter := n\<rparr>) 1))"

definition sqlcipher_set_default_use_hmac :: "bool \<Rightarrow> codec_defaults \<Rightarrow> codec_defaults" where
  "sqlcipher_set_default_use_hmac use_it d =
     d\<lparr>default_flags := (if use_it then FLAG_SET (default_flags d) CIPHER_FLAG_HMAC
                         else FLAG_UNSET (default_flags d) CIPHER_FLAG_HMAC)\<rparr>"

definition sqlcipher_codec_ctx_set_use_hmac :: "'s provider \<Rightarrow> codec_ctx \<Rightarrow> bool \<Rightarrow> 's world \<Rightarrow> int \<times> codec_ctx" where
  "sqlcipher_codec_ctx_set_use_hmac P ctx use_it w =
     (if FLAG_GET (cc_flags ctx) CIPHER_FLAG_KEY_USED then (SQLITE_OK, ctx)
      else sqlcipher_codec_ctx_reserve_setup P
             (ctx\<lparr>cc_flags := (if use_it then FLAG_SET (cc_flags ctx) CIPHER_FLAG_HMAC
                               else FLAG_UNSET (cc_flags ctx) CIPHER_FLAG_HMAC)\<rparr>) w)"

definition sqlcipher_codec_ctx_set_plaintext_header_size :: "codec_ctx \<Rightarrow> int \<Rightarrow> int \<times> codec_ctx" where
  "sqlcipher_codec_ctx_set_plaintext_header_size ctx sz =
     (if sz \<ge> 0 \<and> block_sz ctx > 0 \<and> sz mod block_sz ctx = 0 \<and> sz \<le> page_sz ctx - reserve_sz ctx
      then (SQLITE_OK, ctx\<lparr>plaintext_header_sz := sz\<rparr>)
      else (SQLITE_ERROR, ctx\<lparr>plaintext_header_sz := -1\<rparr>))"

definition sqlcipher_codec_ctx_set_hmac_algorithm :: "'s provider \<Rightarrow> codec_ctx \<Rightarrow> int \<Rightarrow> 's world \<Rightarrow> int \<times> codec_ctx" where
  "sqlcipher_codec_ctx_set_hmac_algorithm P ctx algorithm w =
     (if FLAG_GET (cc_flags ctx) CIPHER_FLAG_KEY_USED then (SQLITE_OK, ctx)
      else sqlcipher_codec_ctx_reserve_setup P (ctx\<lparr>hmac_algorithm := algorithm\<rparr>) w)"

definition sqlcipher_codec_ctx_set_kdf_algorithm :: "codec_ctx \<Rightarrow> int \<Rightarrow> int \<times> codec_ctx" where
  "sqlcipher_codec_ctx_set_kdf_algorithm ctx algorithm =
     (if FLAG_GET (cc_flags ctx) CIPHER_FLAG_KEY_USED then (SQLITE_OK, ctx)
      else (SQLITE_OK, ctx\<lparr>kdf_algorithm := algorithm\<rparr>))"

definition sqlcipher_codec_ctx_set_error :: "codec_ctx \<Rightarrow> int \<Rightarrow> codec_ctx" where
  "sqlcipher_codec_ctx_set_error ctx err =
     ctx\<lparr>pBt := (pBt ctx)\<lparr>bt_pager_err := err, bt_db_err := err\<rparr>, cc_error := err\<rparr>"

text \<open>A value of type \<open>int\<close> is a power of two when \<open>size & (size - 1)\<close> is zero.\<close>

definition sqlcipher_codec_ctx_set_pagesize :: "codec_ctx \<Rightarrow> int \<Rightarrow> 's world \<Rightarrow> int \<times> codec_ctx \<times> 's world" where
  "sqlcipher_codec_ctx_set_pagesize ctx sz w =
     (if FLAG_GET (cc_flags ctx) CIPHER_FLAG_KEY_USED then (SQLITE_OK, ctx, w)
      else if \<not> (sz \<noteq> 0 \<and> (sz AND (sz - 1)) = 0) \<or> sz < 512 \<or> sz > 65536 then (SQLITE_ERROR, ctx, w)
      else let ctx = ctx\<lparr>page_sz := sz\<rparr>;
               (ok, w) = w_malloc sz w in
        if \<not> ok then (SQLITE_NOMEM, ctx\<lparr>cc_buffer := None\<rparr>, w)
        else (SQLITE_OK, ctx\<lparr>cc_buffer := Some (replicate (nat sz) 0)\<rparr>, w))"

section \<open>The salt\<close>

definition sqlcipher_codec_ctx_init_kdf_salt :: "'s provider \<Rightarrow> codec_ctx \<Rightarrow> 's world \<Rightarrow> int \<times> codec_ctx \<times> 's world" where
  "sqlcipher_codec_ctx_init_kdf_salt P ctx w =
     (if FLAG_GET (cc_flags ctx) CIPHER_FLAG_HAS_KDF_SALT then (SQLITE_OK, ctx, w)
      else let n = nat (kdf_salt_sz ctx);
               (rd, salt) = (if bt_open (pBt ctx)
                 then let (rd, s) = bt_read (pBt ctx) (take n (kdf_salt ctx)) in (rd, buf_write (kdf_salt ctx) 0 s)
                 else (SQLITE_ERROR, kdf_salt ctx));
               (rc, salt, w) = (if rd \<noteq> SQLITE_OK
                 then let (rc, s, r) = p_random P (w_prov w) (take n salt) in (rc, buf_write salt 0 r, w\<lparr>w_prov := s\<rparr>)
                 else (SQLITE_OK, salt, w));
               ctx = ctx\<lparr>kdf_salt := salt\<rparr> in
        if rc \<noteq> SQLITE_OK then (SQLITE_ERROR, ctx, w)
        else (SQLITE_OK, ctx\<lparr>cc_flags := FLAG_SET (cc_flags ctx) CIPHER_FLAG_HAS_KDF_SALT\<rparr>, w))"

definition sqlcipher_codec_ctx_set_kdf_salt :: "codec_ctx \<Rightarrow> bytes \<Rightarrow> int \<Rightarrow> int \<times> codec_ctx" where
  "sqlcipher_codec_ctx_set_kdf_salt ctx salt sz =
     (if FLAG_GET (cc_flags ctx) CIPHER_FLAG_KEY_USED then (SQLITE_OK, ctx)
      else if sz \<ge> kdf_salt_sz ctx
      then (SQLITE_OK, ctx\<lparr>kdf_salt := buf_write (kdf_salt ctx) 0 (take (nat (kdf_salt_sz ctx)) salt),
                           cc_flags := FLAG_SET (cc_flags ctx) CIPHER_FLAG_HAS_KDF_SALT\<rparr>)
      else (SQLITE_ERROR, ctx))"

definition sqlcipher_codec_ctx_get_kdf_salt :: "'s provider \<Rightarrow> codec_ctx \<Rightarrow> 's world \<Rightarrow> int \<times> bytes \<times> codec_ctx \<times> 's world" where
  "sqlcipher_codec_ctx_get_kdf_salt P ctx w =
     (let (rc, ctx, w) = (if \<not> FLAG_GET (cc_flags ctx) CIPHER_FLAG_HAS_KDF_SALT
                          then sqlcipher_codec_ctx_init_kdf_salt P ctx w else (SQLITE_OK, ctx, w))
      in (rc, kdf_salt ctx, ctx, w))"


section \<open>The key specification\<close>

definition sqlcipher_cipher_ctx_get_keyspec :: "codec_ctx \<Rightarrow> cipher_ctx \<Rightarrow> 's world \<Rightarrow> int \<times> bytes option \<times> 's world" where
  "sqlcipher_cipher_ctx_get_keyspec ctx c w =
     (let use_hmac = FLAG_GET (cc_flags ctx) CIPHER_FLAG_HMAC;
          sz = (if use_hmac then (key_sz ctx + key_sz ctx + kdf_salt_sz ctx) * 2 + 3
                else (key_sz ctx + kdf_salt_sz ctx) * 2 + 3);
          (ok, w) = w_malloc sz w in
      if \<not> ok then (SQLITE_NOMEM, None, w)
      else let n = nat (key_sz ctx);
               keyspec = replicate (nat sz) 0;
               keyspec = buf_write keyspec 0 [120, 39];
               out = 2;
               keyspec = buf_write keyspec out (cipher_bin2hex (sqlcipher_shield (w_mask w) (take n (ck_key c))));
               out = out + n * 2;
               (keyspec, out) = (if use_hmac
                 then (buf_write keyspec out (cipher_bin2hex (sqlcipher_shield (w_mask w) (take n (ck_hmac_key c)))), out + n * 2)
                 else (keyspec, out));
               keyspec = buf_write keyspec out (cipher_bin2hex (take (nat (kdf_salt_sz ctx)) (kdf_salt ctx)));
               keyspec = keyspec[nat sz - 1 := 39]
           in (SQLITE_OK, Some keyspec, w))"

section \<open>Construction and release\<close>

text \<open>
  The steps of \<open>sqlcipher_codec_ctx_init\<close> run one after another and the first that fails ends
  it; the unfinished context is then lost to the caller.  \<open>db_tree\<close> is the B-tree of the
  database.  The result is \<open>None\<close> when the activation of the provider blocks.
\<close>

definition blank_cipher_ctx :: cipher_ctx where
  "blank_cipher_ctx = \<lparr>derive_key = 0, pass_sz = 0, ck_key = [], ck_hmac_key = [], pass = None\<rparr>"

definition blank_codec_ctx :: "btree \<Rightarrow> codec_ctx" where
  "blank_codec_ctx db_tree =
     \<lparr>store_pass = 0, kdf_iter = 0, fast_kdf_iter = 0, kdf_salt_sz = FILE_HEADER_SZ, key_sz = 0, iv_sz = 0,
      block_sz = 0, page_sz = 0, reserve_sz = 0, hmac_sz = 0, plaintext_header_sz = 0, hmac_algorithm = 0,
      kdf_algorithm = 0, cc_error = 0, cc_flags = 0, kdf_salt = replicate 16 0, hmac_kdf_salt = replicate 16 0,
      cc_buffer = None, pBt = db_tree, read_ctx = blank_cipher_ctx, write_ctx = blank_cipher_ctx\<rparr>"

definition init_settings :: "'s provider \<Rightarrow> codec_ctx \<Rightarrow> 's world \<Rightarrow> int \<times> codec_ctx \<times> 's world" where
  "init_settings P ctx w =
     (let d = w_defaults w;
          (rc, ctx, w) = sqlcipher_codec_ctx_set_pagesize ctx (default_page_size d) w in
      if rc \<noteq> SQLITE_OK then (rc, ctx, w) else
      let (rc, ctx) = sqlcipher_codec_ctx_set_kdf_iter ctx (default_kdf_iter d) in
      if rc \<noteq> SQLITE_OK then (rc, ctx, w) else
      let (rc, ctx) = sqlcipher_codec_ctx_set_fast_kdf_iter ctx FAST_PBKDF2_ITER in
      if rc \<noteq> SQLITE_OK then (rc, ctx, w) else
      let (rc, ctx) = sqlcipher_codec_ctx_set_hmac_algorithm P ctx (default_hmac_algorithm d) w in
      if rc \<noteq> SQLITE_OK then (rc, ctx, w) else
      let (rc, ctx) = sqlcipher_codec_ctx_set_use_hmac P ctx (FLAG_GET (default_flags d) CIPHER_FLAG_HMAC) w in
      if rc \<noteq> SQLITE_OK then (rc, ctx, w) else
      let (rc, ctx) = sqlcipher_codec_ctx_set_kdf_algorithm ctx (default_kdf_algorithm d) in
      if rc \<noteq> SQLITE_OK then (rc, ctx, w) else
      let (rc, ctx) = sqlcipher_codec_ctx_set_plaintext_header_size ctx (default_plaintext_header_size d) in
      (rc, ctx, w))"

definition init_keys :: "codec_ctx \<Rightarrow> bytes option \<Rightarrow> 's world \<Rightarrow> int \<times> codec_ctx \<times> 's world" where
  "init_keys ctx zKey w =
     (let (rc, r, w) = sqlcipher_cipher_ctx_init ctx w in
      if rc \<noteq> SQLITE_OK then (rc, ctx, w) else
      let ctx = ctx\<lparr>read_ctx := the r\<rparr>;
          (rc, c, w) = sqlcipher_cipher_ctx_init ctx w in
      if rc \<noteq> SQLITE_OK then (rc, ctx, w) else
      let ctx = ctx\<lparr>write_ctx := the c\<rparr>;
          (rc, ctx, w) = sqlcipher_codec_ctx_set_pass ctx zKey 0 w in
      if rc \<noteq> SQLITE_OK then (rc, ctx, w) else
      let (rc, c, w) = sqlcipher_cipher_ctx_copy ctx (write_ctx ctx) (read_ctx ctx) w in
      (rc, ctx\<lparr>write_ctx := c\<rparr>, w))"

definition sqlcipher_codec_ctx_init ::
    "'s provider \<Rightarrow> btree \<Rightarrow> bytes option \<Rightarrow> 's world \<Rightarrow> (int \<times> codec_ctx option \<times> 's world) option" where
  "sqlcipher_codec_ctx_init P db_tree zKey w =
     (let (ok, w) = w_malloc 128 w in
      if \<not> ok then Some (SQLITE_NOMEM, None, w) else
      let ctx = blank_codec_ctx db_tree;
          (ok, w) = w_malloc (kdf_salt_sz ctx) w in
      if \<not> ok then Some (SQLITE_NOMEM, None, w) else
      let (ok, w) = w_malloc (kdf_salt_sz ctx) w in
      if \<not> ok then Some (SQLITE_NOMEM, None, w) else
      let ctx = ctx\<lparr>cc_flags := default_flags (w_defaults w)\<rparr> in
      case p_ctx_init P (w_prov w) of
        None \<Rightarrow> None
      | Some (rc, s) \<Rightarrow>
          let w = w\<lparr>w_prov := s\<rparr> in
          if rc \<noteq> SQLITE_OK then Some (rc, None, w) else
          let ctx = ctx\<lparr>key_sz := p_key_sz P s, iv_sz := p_iv_sz P s, block_sz := p_block_sz P s\<rparr>;
              (rc, ctx, w) = init_settings P ctx w in
          if rc \<noteq> SQLITE_OK then Some (rc, None, w) else
          let (rc, ctx, w) = init_keys ctx zKey w in
          if rc \<noteq> SQLITE_OK then Some (rc, None, w) else Some (SQLITE_OK, Some ctx, w))"

text \<open>Releasing a context only returns memory and the reference to the provider.\<close>

definition sqlcipher_codec_ctx_free :: "'s provider \<Rightarrow> 's world \<Rightarrow> 's world option" where
  "sqlcipher_codec_ctx_free P w =
     (case p_ctx_free P (w_prov w) of None \<Rightarrow> None | Some (_, s) \<Rightarrow> Some (w\<lparr>w_prov := s\<rparr>))"


section \<open>Well-formed contexts\<close>

definition round_up :: "int \<Rightarrow> int \<Rightarrow> int" where
  "round_up b n = (if n mod b = 0 then n else (n div b + 1) * b)"

lemma round_up_least:
  assumes "0 < b" "0 \<le> n"
  shows "b dvd round_up b n" "n \<le> round_up b n" "round_up b n < n + b"
proof -
  have e: "n div b * b = n - n mod b" by (simp add: minus_mod_eq_div_mult)
  have "0 \<le> n mod b" "n mod b < b" using assms by simp_all
  then have 2: "n < (n div b + 1) * b" "n mod b \<noteq> 0 \<longrightarrow> (n div b + 1) * b < n + b"
    by (simp_all add: distrib_right e)
  then show "b dvd round_up b n" "n \<le> round_up b n" "round_up b n < n + b"
    using assms by (auto simp: round_up_def)
qed

text \<open>The reserve of a page: the IV and, with HMAC, the code, in whole blocks.\<close>

definition page_ok :: "int \<Rightarrow> bool" where "page_ok n \<longleftrightarrow> (\<exists>k. 9 \<le> k \<and> k \<le> 16 \<and> n = 2 ^ k)"
definition alg_ok :: "int \<Rightarrow> bool" where "alg_ok a \<longleftrightarrow> a \<in> {0, 1, 2}"

definition reserve_of :: "nat \<Rightarrow> nat \<Rightarrow> (int \<Rightarrow> nat) \<Rightarrow> codec_ctx \<Rightarrow> int" where
  "reserve_of ivs bs ms ctx =
     round_up (int bs) (int ivs + (if FLAG_GET (cc_flags ctx) CIPHER_FLAG_HMAC then int (ms (hmac_algorithm ctx)) else 0))"

definition cipher_ctx_wf :: "nat \<Rightarrow> cipher_ctx \<Rightarrow> bool" where
  "cipher_ctx_wf ks c \<longleftrightarrow> length (ck_key c) = ks \<and> length (ck_hmac_key c) = ks \<and>
     (\<forall>p. pass c = Some p \<longrightarrow> pass_sz c = int (length p) \<and> 0 < length p \<and> length p < 2 ^ 31)"

text \<open>The sizes and buffers; and with them the reserve.\<close>

definition sizes_wf :: "nat \<Rightarrow> nat \<Rightarrow> nat \<Rightarrow> codec_ctx \<Rightarrow> bool" where
  "sizes_wf ks ivs bs ctx \<longleftrightarrow>
     key_sz ctx = int ks \<and> iv_sz ctx = int ivs \<and> block_sz ctx = int bs \<and>
     kdf_salt_sz ctx = 16 \<and> length (kdf_salt ctx) = 16 \<and> length (hmac_kdf_salt ctx) = 16 \<and>
     page_ok (page_sz ctx) \<and>
     (\<exists>buf. cc_buffer ctx = Some buf \<and> length buf = nat (page_sz ctx))"

definition layout_wf :: "nat \<Rightarrow> nat \<Rightarrow> nat \<Rightarrow> (int \<Rightarrow> nat) \<Rightarrow> codec_ctx \<Rightarrow> bool" where
  "layout_wf ks ivs bs ms ctx \<longleftrightarrow>
     sizes_wf ks ivs bs ctx \<and> alg_ok (hmac_algorithm ctx) \<and> alg_ok (kdf_algorithm ctx) \<and>
     hmac_sz ctx = int (ms (hmac_algorithm ctx)) \<and> reserve_sz ctx = reserve_of ivs bs ms ctx"

definition codec_wf :: "nat \<Rightarrow> nat \<Rightarrow> nat \<Rightarrow> (int \<Rightarrow> nat) \<Rightarrow> codec_ctx \<Rightarrow> bool" where
  "codec_wf ks ivs bs ms ctx \<longleftrightarrow>
     layout_wf ks ivs bs ms ctx \<and> cipher_ctx_wf ks (read_ctx ctx) \<and> cipher_ctx_wf ks (write_ctx ctx)"

lemma power_of_two:
  fixes n :: int
  assumes "0 < n" "n AND (n - 1) = 0"
  shows "\<exists>k. n = 2 ^ k"
  using assms
proof (induction "nat n" arbitrary: n rule: less_induct)
  case less
  show ?case
  proof (cases "even n")
    case True
    then obtain m where m: "n = 2 * m" by (rule evenE)
    have "(2 * m - 1) div 2 = m - 1" by presburger
    then have "n AND (n - 1) = 2 * (m AND (m - 1))"
      using and_rec [of n "n - 1"] by (simp add: m)
    then have "m AND (m - 1) = 0" "0 < m" "nat m < nat n" using less.prems m by auto
    then obtain k where "m = 2 ^ k" using less.hyps [of m] by blast
    then show ?thesis using m by (intro exI [of _ "Suc k"]) simp
  next
    case False
    then obtain m where m: "n = 2 * m + 1" by (rule oddE)
    have "n AND (n - 1) = 2 * m"
      using and_rec [of n "n - 1"] by (simp add: m)
    then show ?thesis using less.prems m by (intro exI [of _ 0]) simp
  qed
qed

lemma page_size_power:
  fixes n :: int
  assumes "n AND (n - 1) = 0" "512 \<le> n" "n \<le> 65536"
  shows "\<exists>k. 9 \<le> k \<and> k \<le> 16 \<and> n = 2 ^ k"
proof -
  obtain k where k: "n = 2 ^ k" using power_of_two [of n] assms by auto
  have "(2 :: int) ^ 9 \<le> 2 ^ k" "(2 :: int) ^ k \<le> 2 ^ 16" using assms k by simp_all
  have two_gt_1: "(1 :: int) < 2" by simp
  from \<open>(2 :: int) ^ 9 \<le> 2 ^ k\<close> \<open>(2 :: int) ^ k \<le> 2 ^ 16\<close> have "9 \<le> k" "k \<le> 16" by (blast intro: power_le_imp_le_exp [OF two_gt_1])+
  then show ?thesis using k by blast
qed


section \<open>The settings keep contexts well-formed\<close>

text \<open>A read of the header returns as many bytes as it was asked for.\<close>

definition btree_ok :: "btree \<Rightarrow> bool" where
  "btree_ok t \<longleftrightarrow> (\<forall>b. length (snd (bt_read t b)) = length b)"

lemma sizes_wf_cong:
  "key_sz c' = key_sz c \<Longrightarrow> iv_sz c' = iv_sz c \<Longrightarrow> block_sz c' = block_sz c \<Longrightarrow> kdf_salt_sz c' = kdf_salt_sz c \<Longrightarrow>
   length (kdf_salt c') = length (kdf_salt c) \<Longrightarrow> length (hmac_kdf_salt c') = length (hmac_kdf_salt c) \<Longrightarrow>
   page_sz c' = page_sz c \<Longrightarrow> cc_buffer c' = cc_buffer c \<Longrightarrow> sizes_wf ks ivs bs c' = sizes_wf ks ivs bs c"
  by (simp add: sizes_wf_def)

lemma sizes_wf_simps [simp]:
  "sizes_wf ks ivs bs (c\<lparr>hmac_sz := i\<rparr>) = sizes_wf ks ivs bs c"
  "sizes_wf ks ivs bs (c\<lparr>reserve_sz := i\<rparr>) = sizes_wf ks ivs bs c"
  "sizes_wf ks ivs bs (c\<lparr>hmac_algorithm := i\<rparr>) = sizes_wf ks ivs bs c"
  "sizes_wf ks ivs bs (c\<lparr>kdf_algorithm := i\<rparr>) = sizes_wf ks ivs bs c"
  "sizes_wf ks ivs bs (c\<lparr>kdf_iter := i\<rparr>) = sizes_wf ks ivs bs c"
  "sizes_wf ks ivs bs (c\<lparr>fast_kdf_iter := i\<rparr>) = sizes_wf ks ivs bs c"
  "sizes_wf ks ivs bs (c\<lparr>plaintext_header_sz := i\<rparr>) = sizes_wf ks ivs bs c"
  "sizes_wf ks ivs bs (c\<lparr>cc_error := i\<rparr>) = sizes_wf ks ivs bs c"
  "sizes_wf ks ivs bs (c\<lparr>cc_flags := f\<rparr>) = sizes_wf ks ivs bs c"
  "sizes_wf ks ivs bs (c\<lparr>pBt := t\<rparr>) = sizes_wf ks ivs bs c"
  "sizes_wf ks ivs bs (c\<lparr>read_ctx := r\<rparr>) = sizes_wf ks ivs bs c"
  "sizes_wf ks ivs bs (c\<lparr>write_ctx := r\<rparr>) = sizes_wf ks ivs bs c"
  by (rule sizes_wf_cong; simp)+

lemma reserve_of_simps [simp]:
  "reserve_of ivs bs ms (c\<lparr>hmac_sz := i\<rparr>) = reserve_of ivs bs ms c"
  "reserve_of ivs bs ms (c\<lparr>reserve_sz := i\<rparr>) = reserve_of ivs bs ms c"
  "reserve_of ivs bs ms (c\<lparr>kdf_algorithm := i\<rparr>) = reserve_of ivs bs ms c"
  "reserve_of ivs bs ms (c\<lparr>kdf_iter := i\<rparr>) = reserve_of ivs bs ms c"
  "reserve_of ivs bs ms (c\<lparr>fast_kdf_iter := i\<rparr>) = reserve_of ivs bs ms c"
  "reserve_of ivs bs ms (c\<lparr>plaintext_header_sz := i\<rparr>) = reserve_of ivs bs ms c"
  "reserve_of ivs bs ms (c\<lparr>cc_error := i\<rparr>) = reserve_of ivs bs ms c"
  "reserve_of ivs bs ms (c\<lparr>pBt := t\<rparr>) = reserve_of ivs bs ms c"
  "reserve_of ivs bs ms (c\<lparr>read_ctx := r\<rparr>) = reserve_of ivs bs ms c"
  "reserve_of ivs bs ms (c\<lparr>write_ctx := r\<rparr>) = reserve_of ivs bs ms c"
  "reserve_of ivs bs ms (c\<lparr>page_sz := i\<rparr>) = reserve_of ivs bs ms c"
  "reserve_of ivs bs ms (c\<lparr>cc_buffer := buf\<rparr>) = reserve_of ivs bs ms c"
  "reserve_of ivs bs ms (c\<lparr>kdf_salt := salt\<rparr>) = reserve_of ivs bs ms c"
  "reserve_of ivs bs ms (c\<lparr>hmac_kdf_salt := salt\<rparr>) = reserve_of ivs bs ms c"
  "reserve_of ivs bs ms (c\<lparr>store_pass := i\<rparr>) = reserve_of ivs bs ms c"
  by (simp_all add: reserve_of_def)

lemma codec_wf_iff:
  "codec_wf ks ivs bs ms ctx \<longleftrightarrow> sizes_wf ks ivs bs ctx \<and> alg_ok (hmac_algorithm ctx) \<and> alg_ok (kdf_algorithm ctx) \<and>
     hmac_sz ctx = int (ms (hmac_algorithm ctx)) \<and> reserve_sz ctx = reserve_of ivs bs ms ctx \<and>
     cipher_ctx_wf ks (read_ctx ctx) \<and> cipher_ctx_wf ks (write_ctx ctx)"
  by (auto simp: codec_wf_def layout_wf_def)

text \<open>The flags as bits.\<close>

lemma FLAG_GET_bit [simp]:
  "FLAG_GET f CIPHER_FLAG_HMAC = bit f 0" "FLAG_GET f CIPHER_FLAG_LE_PGNO = bit f 1"
  "FLAG_GET f CIPHER_FLAG_BE_PGNO = bit f 2" "FLAG_GET f CIPHER_FLAG_KEY_USED = bit f 3"
  "FLAG_GET f CIPHER_FLAG_HAS_KDF_SALT = bit f 4"
  unfolding FLAG_GET_def CIPHER_FLAG_HMAC_def CIPHER_FLAG_LE_PGNO_def CIPHER_FLAG_BE_PGNO_def
    CIPHER_FLAG_KEY_USED_def CIPHER_FLAG_HAS_KDF_SALT_def
  by (simp_all only: bit_iff_and_push_bit_not_eq_0)

lemma bit_FLAG_SET [simp]:
  "n < 32 \<Longrightarrow> bit (FLAG_SET f CIPHER_FLAG_HMAC) n \<longleftrightarrow> bit f n \<or> n = 0"
  "n < 32 \<Longrightarrow> bit (FLAG_SET f CIPHER_FLAG_KEY_USED) n \<longleftrightarrow> bit f n \<or> n = 3"
  "n < 32 \<Longrightarrow> bit (FLAG_SET f CIPHER_FLAG_HAS_KDF_SALT) n \<longleftrightarrow> bit f n \<or> n = 4"
  unfolding FLAG_SET_def CIPHER_FLAG_HMAC_def CIPHER_FLAG_KEY_USED_def CIPHER_FLAG_HAS_KDF_SALT_def
  by (auto simp only: bit_simps) auto

lemma bit_FLAG_UNSET [simp]:
  "n < 32 \<Longrightarrow> bit (FLAG_UNSET f CIPHER_FLAG_HMAC) n \<longleftrightarrow> bit f n \<and> n \<noteq> 0"
  unfolding FLAG_UNSET_def CIPHER_FLAG_HMAC_def by (auto simp: bit_simps)

lemma cipher_ctx_wf_simps [simp]:
  "cipher_ctx_wf ks (c\<lparr>derive_key := i\<rparr>) = cipher_ctx_wf ks c"
  by (simp add: cipher_ctx_wf_def)

context crypto_provider
begin

abbreviation wf :: "codec_ctx \<Rightarrow> bool" where
  "wf \<equiv> codec_wf key_size iv_size block_size mac_size"

lemma reserve_setup_eq:
  assumes "up (w_prov w)" "sizes_wf key_size iv_size block_size ctx" "alg_ok (hmac_algorithm ctx)"
  shows "sqlcipher_codec_ctx_reserve_setup P ctx w =
    (SQLITE_OK, ctx\<lparr>hmac_sz := int (mac_size (hmac_algorithm ctx)), reserve_sz := reserve_of iv_size block_size mac_size ctx\<rparr>)"
proof -
  have "p_hmac_sz P (w_prov w) (hmac_algorithm ctx) = int (mac_size (hmac_algorithm ctx))"
    using mac_sz assms(1,3) by (simp add: alg_ok_def)
  moreover have "iv_sz ctx = int iv_size" "block_sz ctx = int block_size" using assms(2) by (simp_all add: sizes_wf_def)
  ultimately show ?thesis using sizes_pos
    by (simp add: sqlcipher_codec_ctx_reserve_setup_def Let_def reserve_of_def round_up_def)
qed

lemma reserve_setup_wf:
  assumes "up (w_prov w)" "sizes_wf key_size iv_size block_size ctx" "alg_ok (hmac_algorithm ctx)"
    "alg_ok (kdf_algorithm ctx)" "cipher_ctx_wf key_size (read_ctx ctx)" "cipher_ctx_wf key_size (write_ctx ctx)"
    "sqlcipher_codec_ctx_reserve_setup P ctx w = (rc, ctx')"
  shows "rc = SQLITE_OK \<and> wf ctx'"
  using assms(2-7) reserve_setup_eq [OF assms(1-3)]
  by (auto simp: codec_wf_iff)

lemma wf_fields:
  assumes "wf ctx"
  shows "sizes_wf key_size iv_size block_size ctx" "alg_ok (hmac_algorithm ctx)" "alg_ok (kdf_algorithm ctx)"
    "cipher_ctx_wf key_size (read_ctx ctx)" "cipher_ctx_wf key_size (write_ctx ctx)"
    "hmac_sz ctx = int (mac_size (hmac_algorithm ctx))" "reserve_sz ctx = reserve_of iv_size block_size mac_size ctx"
  using assms unfolding codec_wf_iff by blast+

lemma use_hmac_wf:
  assumes "up (w_prov w)" "wf ctx" "sqlcipher_codec_ctx_set_use_hmac P ctx b w = (rc, ctx')"
  shows "rc = SQLITE_OK \<and> wf ctx'"
  using assms(3) wf_fields [OF assms(2)] assms(2)
    reserve_setup_wf [OF assms(1), of "ctx\<lparr>cc_flags := (if b then FLAG_SET (cc_flags ctx) CIPHER_FLAG_HMAC else FLAG_UNSET (cc_flags ctx) CIPHER_FLAG_HMAC)\<rparr>" rc ctx']
  by (auto simp: sqlcipher_codec_ctx_set_use_hmac_def split: if_splits)

lemma hmac_algorithm_wf:
  assumes "up (w_prov w)" "wf ctx" "alg_ok a" "sqlcipher_codec_ctx_set_hmac_algorithm P ctx a w = (rc, ctx')"
  shows "rc = SQLITE_OK \<and> wf ctx'"
  using assms(3,4) wf_fields [OF assms(2)] assms(2) reserve_setup_wf [OF assms(1), of "ctx\<lparr>hmac_algorithm := a\<rparr>" rc ctx']
  by (auto simp: sqlcipher_codec_ctx_set_hmac_algorithm_def split: if_splits)

lemma other_settings_wf:
  assumes "wf ctx"
  shows "alg_ok a \<Longrightarrow> sqlcipher_codec_ctx_set_kdf_algorithm ctx a = (rc, ctx') \<Longrightarrow> rc = SQLITE_OK \<and> wf ctx'"
    and "sqlcipher_codec_ctx_set_kdf_iter ctx n = (rc, ctx') \<Longrightarrow> rc = SQLITE_OK \<and> wf ctx'"
    and "sqlcipher_codec_ctx_set_fast_kdf_iter ctx n = (rc, ctx') \<Longrightarrow> rc = SQLITE_OK \<and> wf ctx'"
    and "sqlcipher_codec_ctx_set_plaintext_header_size ctx n = (rc, ctx') \<Longrightarrow> wf ctx'"
    and "wf (sqlcipher_codec_ctx_set_error ctx e)"
proof -
  show "alg_ok a \<Longrightarrow> sqlcipher_codec_ctx_set_kdf_algorithm ctx a = (rc, ctx') \<Longrightarrow> rc = SQLITE_OK \<and> wf ctx'"
    using assms by (cases "bit (cc_flags ctx) 3") (auto simp: codec_wf_iff sqlcipher_codec_ctx_set_kdf_algorithm_def)
  show "sqlcipher_codec_ctx_set_kdf_iter ctx n = (rc, ctx') \<Longrightarrow> rc = SQLITE_OK \<and> wf ctx'"
    using assms by (cases "bit (cc_flags ctx) 3")
      (auto simp: codec_wf_iff sqlcipher_codec_ctx_set_kdf_iter_def sqlcipher_set_derive_key_def)
  show "sqlcipher_codec_ctx_set_fast_kdf_iter ctx n = (rc, ctx') \<Longrightarrow> rc = SQLITE_OK \<and> wf ctx'"
    using assms by (cases "bit (cc_flags ctx) 3")
      (auto simp: codec_wf_iff sqlcipher_codec_ctx_set_fast_kdf_iter_def sqlcipher_set_derive_key_def)
  have "wf (ctx\<lparr>plaintext_header_sz := m\<rparr>)" for m using assms by (simp add: codec_wf_iff)
  then show "sqlcipher_codec_ctx_set_plaintext_header_size ctx n = (rc, ctx') \<Longrightarrow> wf ctx'"
    by (auto simp: sqlcipher_codec_ctx_set_plaintext_header_size_def split: if_splits)
  show "wf (sqlcipher_codec_ctx_set_error ctx e)"
    using assms by (simp add: codec_wf_iff sqlcipher_codec_ctx_set_error_def)
qed

lemma pagesize_cases:
  assumes "\<not> bit (cc_flags ctx) 3" "sqlcipher_codec_ctx_set_pagesize ctx n w = (rc, ctx', w')"
  obtains (bad) "rc = SQLITE_ERROR" "ctx' = ctx" "w' = w"
  | (nomem) "rc = SQLITE_NOMEM"
  | (ok) "rc = SQLITE_OK" "page_ok n"
      "ctx' = ctx\<lparr>page_sz := n, cc_buffer := Some (replicate (nat n) 0)\<rparr>"
proof (cases "(n \<noteq> 0 \<and> (n AND (n - 1)) = 0) \<and> 512 \<le> n \<and> n \<le> 65536")
  case False
  then show thesis using assms by (intro bad) (auto simp: sqlcipher_codec_ctx_set_pagesize_def)
next
  case True
  obtain b v where b: "w_malloc n w = (b, v)" by (rule prod.exhaust)
  have "page_ok n" using page_size_power True unfolding page_ok_def by blast
  then show thesis using True assms b ok nomem
    by (cases b) (auto simp: sqlcipher_codec_ctx_set_pagesize_def)
qed

lemma sizes_wf_page:
  assumes "sizes_wf ks ivs bs ctx" "page_ok n"
  shows "sizes_wf ks ivs bs (ctx\<lparr>page_sz := n, cc_buffer := Some (replicate (nat n) 0)\<rparr>)"
  using assms by (simp add: sizes_wf_def)

lemma pagesize_wf:
  assumes "wf ctx" "sqlcipher_codec_ctx_set_pagesize ctx n w = (rc, ctx', w')" "rc \<noteq> SQLITE_NOMEM"
  shows "wf ctx'"
proof (cases "bit (cc_flags ctx) 3")
  case True
  then show ?thesis using assms by (simp add: sqlcipher_codec_ctx_set_pagesize_def)
next
  case False
  from False assms(2) show ?thesis
  proof (cases rule: pagesize_cases)
    case ok
    then show ?thesis using assms(1) sizes_wf_page [of key_size iv_size block_size ctx n]
      by (simp add: codec_wf_iff)
  qed (use assms in simp_all)
qed

lemma sizes_wf_salt:
  "sizes_wf ks ivs bs ctx \<Longrightarrow> length salt = 16 \<Longrightarrow> sizes_wf ks ivs bs (ctx\<lparr>kdf_salt := salt\<rparr>)"
  by (simp add: sizes_wf_def)

lemma kdf_salt_wf:
  assumes "wf ctx" "sqlcipher_codec_ctx_set_kdf_salt ctx salt n = (rc, ctx')" "n \<le> int (length salt)"
  shows "wf ctx'"
proof -
  have s: "kdf_salt_sz ctx = 16" "length (kdf_salt ctx) = 16" using assms(1) by (simp_all add: codec_wf_iff sizes_wf_def)
  have "wf (ctx\<lparr>kdf_salt := buf_write (kdf_salt ctx) 0 (take 16 salt), cc_flags := FLAG_SET (cc_flags ctx) CIPHER_FLAG_HAS_KDF_SALT\<rparr>)"
    if "16 \<le> n"
    using assms(1,3) that s by (simp add: codec_wf_iff sizes_wf_salt length_buf_write reserve_of_def)
  then show ?thesis using assms(1,2) s by (auto simp: sqlcipher_codec_ctx_set_kdf_salt_def split: if_splits)
qed

lemma init_kdf_salt_result:
  assumes "up (w_prov w)" "wf ctx" "btree_ok (pBt ctx)" "sqlcipher_codec_ctx_init_kdf_salt P ctx w = (rc, ctx', w')"
  shows "\<exists>salt. ctx' = ctx\<lparr>kdf_salt := salt, cc_flags := cc_flags ctx'\<rparr> \<and> length salt = 16 \<and>
      cc_flags ctx' = (if rc = SQLITE_OK then FLAG_SET (cc_flags ctx) CIPHER_FLAG_HAS_KDF_SALT else cc_flags ctx)"
    and "w' = w\<lparr>w_prov := w_prov w'\<rparr>" "up (w_prov w')" "rc = SQLITE_OK \<or> rc = SQLITE_ERROR"
    and "roomy (w_prov w) \<Longrightarrow> roomy (w_prov w') \<and> rc = SQLITE_OK"
    and "bit (cc_flags ctx) 4 \<Longrightarrow> ctx' = ctx \<and> w' = w \<and> rc = SQLITE_OK"
proof -
  have s: "nat (kdf_salt_sz ctx) = 16" "length (kdf_salt ctx) = 16" using assms(2) by (simp_all add: codec_wf_iff sizes_wf_def)
  let ?S = "\<lambda>rc ctx' w'. (\<exists>salt. ctx' = ctx\<lparr>kdf_salt := salt, cc_flags := cc_flags ctx'\<rparr> \<and> length salt = 16 \<and>
      cc_flags ctx' = (if rc = SQLITE_OK then FLAG_SET (cc_flags ctx) CIPHER_FLAG_HAS_KDF_SALT else cc_flags ctx)) \<and>
      w' = w\<lparr>w_prov := w_prov w'\<rparr> \<and> up (w_prov w') \<and> (rc = SQLITE_OK \<or> rc = SQLITE_ERROR) \<and>
      (roomy (w_prov w) \<longrightarrow> roomy (w_prov w') \<and> rc = SQLITE_OK) \<and> (bit (cc_flags ctx) 4 \<longrightarrow> ctx' = ctx \<and> w' = w \<and> rc = SQLITE_OK)"
  have "?S rc ctx' w'"
  proof (cases "bit (cc_flags ctx) 4")
    case True
    then have "FLAG_SET (cc_flags ctx) CIPHER_FLAG_HAS_KDF_SALT = cc_flags ctx"
      by (intro bit_word_eqI) auto
    then show ?thesis using True assms(1,4) s
      by (auto simp: sqlcipher_codec_ctx_init_kdf_salt_def intro!: exI [of _ "kdf_salt ctx"])
  next
    case False
    define rd salt where "rd = (if bt_open (pBt ctx) then fst (bt_read (pBt ctx) (kdf_salt ctx)) else SQLITE_ERROR)"
      and "salt = (if bt_open (pBt ctx) then snd (bt_read (pBt ctx) (kdf_salt ctx)) else kdf_salt ctx)"
    have ls: "length salt = 16" using assms(3) s(2) by (simp add: salt_def btree_ok_def)
    have step: "(if bt_open (pBt ctx) then let (rd, s) = bt_read (pBt ctx) (take 16 (kdf_salt ctx)) in (rd, buf_write (kdf_salt ctx) 0 s)
         else (SQLITE_ERROR, kdf_salt ctx)) = (rd, salt)"
      using s(2) ls by (cases "bt_read (pBt ctx) (kdf_salt ctx)") (auto simp: rd_def salt_def buf_write_full)
    show ?thesis
    proof (cases "rd = SQLITE_OK")
      case True
      then show ?thesis using False assms(1,4) step s ls
        by (auto simp: sqlcipher_codec_ctx_init_kdf_salt_def Let_def)
    next
      case notread: False
      obtain rc1 s1 r where r: "p_random P (w_prov w) salt = (rc1, s1, r)" by (rule prod_cases3)
      note sv = random [OF assms(1) r]
      have "sqlcipher_codec_ctx_init_kdf_salt P ctx w =
        (if rc1 = SQLITE_OK then SQLITE_OK else SQLITE_ERROR,
         ctx\<lparr>kdf_salt := r, cc_flags := (if rc1 = SQLITE_OK then FLAG_SET (cc_flags ctx) CIPHER_FLAG_HAS_KDF_SALT else cc_flags ctx)\<rparr>,
         w\<lparr>w_prov := s1\<rparr>)"
        using False notread step s(1) ls r sv by (simp add: sqlcipher_codec_ctx_init_kdf_salt_def Let_def buf_write_full)
      then show ?thesis using assms(4) ls sv False by (auto simp: served_def)
    qed
  qed
  then show "\<exists>salt. ctx' = ctx\<lparr>kdf_salt := salt, cc_flags := cc_flags ctx'\<rparr> \<and> length salt = 16 \<and>
      cc_flags ctx' = (if rc = SQLITE_OK then FLAG_SET (cc_flags ctx) CIPHER_FLAG_HAS_KDF_SALT else cc_flags ctx)"
    "w' = w\<lparr>w_prov := w_prov w'\<rparr>" "up (w_prov w')" "rc = SQLITE_OK \<or> rc = SQLITE_ERROR"
    "roomy (w_prov w) \<Longrightarrow> roomy (w_prov w') \<and> rc = SQLITE_OK" "bit (cc_flags ctx) 4 \<Longrightarrow> ctx' = ctx \<and> w' = w \<and> rc = SQLITE_OK"
    by blast+
qed

end

section \<open>Copies, passphrases, construction\<close>

text \<open>The only effect on the world is on the supply of memory, which stays plentiful.\<close>

definition heap_only :: "'s world \<Rightarrow> 's world \<Rightarrow> bool" where
  "heap_only w w' \<longleftrightarrow> (\<exists>m. w' = w\<lparr>w_heap := m\<rparr>) \<and> (plenty (w_heap w) \<longrightarrow> plenty (w_heap w'))"

lemma heap_only_refl [simp]: "heap_only w w"
  by (simp add: heap_only_def) (metis world.surjective world.update_convs(2))

lemma heap_only_trans [trans]: "heap_only u v \<Longrightarrow> heap_only v w \<Longrightarrow> heap_only u w"
  by (auto simp: heap_only_def)

lemma heap_only_prov:
  assumes "heap_only w w'"
  shows "heap_only (w\<lparr>w_prov := s\<rparr>) (w'\<lparr>w_prov := s\<rparr>)"
proof -
  obtain m where m: "w' = w\<lparr>w_heap := m\<rparr>" using assms by (auto simp: heap_only_def)
  then have "w'\<lparr>w_prov := s\<rparr> = w\<lparr>w_prov := s, w_heap := m\<rparr>" by simp
  then show ?thesis using assms m unfolding heap_only_def by (intro conjI exI [of _ m]) auto
qed

lemma heap_onlyD:
  assumes "heap_only w w'"
  shows "w_prov w' = w_prov w" "w_xo w' = w_xo w" "w_mask w' = w_mask w" "w_defaults w' = w_defaults w"
    "plenty (w_heap w) \<Longrightarrow> plenty (w_heap w')"
  using assms by (auto simp: heap_only_def)

lemma w_malloc_result:
  assumes "w_malloc n w = (b, w')"
  shows "heap_only w w'" "plenty (w_heap w) \<Longrightarrow> 0 < n \<Longrightarrow> b"
proof -
  have "heap_only w (w\<lparr>w_heap := m\<rparr>)" if "xmalloc (w_heap w) = (ok, m)" for ok m
    using that by (auto simp: heap_only_def xmalloc_def plenty_def)
  then show "heap_only w w'" using assms by (auto simp: w_malloc_def Let_def split: if_splits prod.splits)
  show "plenty (w_heap w) \<Longrightarrow> 0 < n \<Longrightarrow> b"
    using assms by (auto simp: w_malloc_def xmalloc_def plenty_def Let_def split: if_splits)
qed

lemma copy_result:
  assumes "cipher_ctx_wf ks target" "cipher_ctx_wf ks source" "key_sz ctx = int ks"
    "sqlcipher_cipher_ctx_copy ctx target source w = (rc, t, w')"
  shows "rc = SQLITE_OK \<and> t = source \<or> rc = SQLITE_NOMEM \<and> t = source\<lparr>pass := None\<rparr> \<and> \<not> plenty (w_heap w)"
    "heap_only w w'" "cipher_ctx_wf ks t"
proof -
  have eq: "source\<lparr>ck_key := buf_write (ck_key target) 0 (take ks (ck_key source)),
      ck_hmac_key := buf_write (ck_hmac_key target) 0 (take ks (ck_hmac_key source))\<rparr> = source"
    using assms(1,2) by (simp add: cipher_ctx_wf_def buf_write_full)
  have "(rc = SQLITE_OK \<and> t = source \<or> rc = SQLITE_NOMEM \<and> t = source\<lparr>pass := None\<rparr> \<and> \<not> plenty (w_heap w)) \<and> heap_only w w'"
  proof (cases "pass source")
    case None
    then show ?thesis using assms(3,4) eq by (simp add: sqlcipher_cipher_ctx_copy_def)
  next
    case (Some p)
    then have "0 < pass_sz source" using assms(2) by (simp add: cipher_ctx_wf_def)
    moreover obtain b v where b: "w_malloc (pass_sz source) w = (b, v)" by (rule prod.exhaust)
    moreover have "source\<lparr>pass := Some p\<rparr> = source" using Some by simp
    ultimately show ?thesis
      using Some assms(3,4) eq w_malloc_result [OF b] by (auto simp: sqlcipher_cipher_ctx_copy_def Let_def split: if_splits)
  qed
  then show "rc = SQLITE_OK \<and> t = source \<or> rc = SQLITE_NOMEM \<and> t = source\<lparr>pass := None\<rparr> \<and> \<not> plenty (w_heap w)"
    "heap_only w w'" "cipher_ctx_wf ks t" using assms(2) by (auto simp: cipher_ctx_wf_def)
qed

definition pass_of :: "bytes option \<Rightarrow> bytes option" where
  "pass_of zKey = (if zKey = Some [] then None else zKey)"

lemma cipher_set_pass_result:
  assumes "cipher_ctx_wf ks c" "\<And>k. zKey = Some k \<Longrightarrow> length k < 2 ^ 31"
    "sqlcipher_cipher_ctx_set_pass c zKey w = (rc, c', w')"
  shows "rc = SQLITE_OK \<and> pass c' = pass_of zKey \<or> rc = SQLITE_NOMEM \<and> \<not> plenty (w_heap w)"
    "heap_only w w'" "cipher_ctx_wf ks c'"
proof -
  have "(rc = SQLITE_OK \<and> pass c' = pass_of zKey \<or> rc = SQLITE_NOMEM \<and> \<not> plenty (w_heap w)) \<and>
    heap_only w w' \<and> cipher_ctx_wf ks c'"
  proof (cases "zKey = None \<or> zKey = Some []")
    case True
    then show ?thesis
      using assms(1,3) by (auto simp: sqlcipher_cipher_ctx_set_pass_def pass_of_def cipher_ctx_wf_def)
  next
    case False
    then obtain k where k: "zKey = Some k" "0 < length k" by auto
    obtain b v where b: "w_malloc (int (length k)) w = (b, v)" by (rule prod.exhaust)
    show ?thesis
      using assms(1,3) assms(2) [OF k(1)] k b w_malloc_result [OF b]
      by (cases b) (auto simp: sqlcipher_cipher_ctx_set_pass_def pass_of_def cipher_ctx_wf_def Let_def)
  qed
  then show "rc = SQLITE_OK \<and> pass c' = pass_of zKey \<or> rc = SQLITE_NOMEM \<and> \<not> plenty (w_heap w)"
    "heap_only w w'" "cipher_ctx_wf ks c'"
    by blast+
qed

lemma cctx_simps [simp]:
  "get_cctx i (set_cctx i c ctx) = c"
  "codec_wf ks ivs bs ms ctx \<Longrightarrow> cipher_ctx_wf ks (get_cctx i ctx)"
  "codec_wf ks ivs bs ms ctx \<Longrightarrow> cipher_ctx_wf ks c \<Longrightarrow> codec_wf ks ivs bs ms (set_cctx i c ctx)"
  "key_sz (set_cctx i c ctx) = key_sz ctx"
  by (simp_all add: get_cctx_def set_cctx_def codec_wf_iff)

lemma key_sz_wf: "codec_wf ks ivs bs ms ctx \<Longrightarrow> key_sz ctx = int ks"
  by (simp add: codec_wf_iff sizes_wf_def)

text \<open>What setting a passphrase does: the keys of the contexts concerned must be derived anew.\<close>

definition pass_set :: "bytes option \<Rightarrow> int \<Rightarrow> codec_ctx \<Rightarrow> codec_ctx \<Rightarrow> bool" where
  "pass_set zKey i ctx ctx' \<longleftrightarrow> pass (get_cctx i ctx') = pass_of zKey \<and> derive_key (get_cctx i ctx') = 1 \<and>
     (if i = 2 then read_ctx ctx' = write_ctx ctx' \<and> ctx' = ctx\<lparr>read_ctx := read_ctx ctx', write_ctx := write_ctx ctx'\<rparr>
      else ctx' = set_cctx i (get_cctx i ctx') ctx)"

lemma codec_set_pass_result:
  assumes wf: "codec_wf ks ivs bs ms ctx" and len: "\<And>k. zKey = Some k \<Longrightarrow> length k < 2 ^ 31"
    and r: "sqlcipher_codec_ctx_set_pass ctx zKey i w = (rc, ctx', w')"
  shows "codec_wf ks ivs bs ms ctx' \<and> heap_only w w' \<and> (plenty (w_heap w) \<longrightarrow> rc = SQLITE_OK) \<and>
    (rc = SQLITE_OK \<and> pass_set zKey i ctx ctx' \<or> rc = SQLITE_NOMEM)"
proof -
  obtain rc1 c w1 where 1: "sqlcipher_cipher_ctx_set_pass (get_cctx i ctx) zKey w = (rc1, c, w1)" by (rule prod_cases3)
  note r1 = cipher_set_pass_result [OF cctx_simps(2) [OF wf] len 1]
  show ?thesis
  proof (cases "rc1 = SQLITE_OK")
    case False
    then have "rc = rc1" "ctx' = set_cctx i c ctx" "w' = w1" using r 1 by (simp_all add: sqlcipher_codec_ctx_set_pass_def)
    then show ?thesis using r1 wf False by simp
  next
    case ok: True
    let ?c = "c\<lparr>derive_key := 1\<rparr>"
    let ?ctx = "set_cctx i ?c ctx"
    have c: "cipher_ctx_wf ks ?c" "pass ?c = pass_of zKey" using r1 ok by simp_all
    have wf1: "codec_wf ks ivs bs ms ?ctx" using c(1) wf by simp
    show ?thesis
    proof (cases "i = 2")
      case False
      then have "rc = SQLITE_OK" "ctx' = ?ctx" "w' = w1" using r 1 ok by (simp_all add: sqlcipher_codec_ctx_set_pass_def)
      moreover have "pass_set zKey i ctx ?ctx" using False c(2) by (simp add: pass_set_def)
      ultimately show ?thesis using r1 wf1 by simp
    next
      case True
      obtain rc2 t w2 where 2: "sqlcipher_cipher_ctx_copy ?ctx (read_ctx ?ctx) ?c w1 = (rc2, t, w2)" by (rule prod_cases3)
      have "cipher_ctx_wf ks (read_ctx ?ctx)" using wf1 by (simp add: codec_wf_iff)
      note r2 = copy_result [OF this c(1) key_sz_wf [OF wf1] 2]
      have e: "rc = rc2" "ctx' = ?ctx\<lparr>read_ctx := t\<rparr>" "w' = w2"
        using r 1 2 ok True by (simp_all add: sqlcipher_codec_ctx_set_pass_def)
      have "codec_wf ks ivs bs ms ctx'" using wf1 r2(3) e(2) by (simp add: codec_wf_iff)
      moreover have "pass_set zKey i ctx (?ctx\<lparr>read_ctx := ?c\<rparr>)"
        using True c(2) by (simp add: pass_set_def get_cctx_def set_cctx_def)
      ultimately show ?thesis using e r1(2) r2(1,2) heap_only_trans [OF r1(2) r2(2)] heap_onlyD(5) [OF r1(2)] by auto
    qed
  qed
qed

lemma cipher_ctx_init_result:
  assumes "key_sz ctx = int ks" "sqlcipher_cipher_ctx_init ctx w = (rc, r, w')"
  shows "heap_only w w'" "rc = SQLITE_OK \<and> (\<exists>c. r = Some c \<and> cipher_ctx_wf ks c \<and> pass c = None) \<or> rc = SQLITE_NOMEM \<and> r = None"
    "plenty (w_heap w) \<Longrightarrow> 0 < ks \<Longrightarrow> rc = SQLITE_OK"
proof -
  obtain b1 w1 where b1: "w_malloc 32 w = (b1, w1)" by (rule prod.exhaust)
  obtain b2 w2 where b2: "w_malloc (key_sz ctx) w1 = (b2, w2)" by (rule prod.exhaust)
  obtain b3 w3 where b3: "w_malloc (key_sz ctx) w2 = (b3, w3)" by (rule prod.exhaust)
  note m = w_malloc_result [OF b1] w_malloc_result [OF b2] w_malloc_result [OF b3]
  have h2: "heap_only w w2" and h3: "heap_only w w3"
    using heap_only_trans [OF m(1,3)] heap_only_trans [OF heap_only_trans [OF m(1,3)] m(5)] by auto
  show "heap_only w w'"
    using assms b1 b2 b3 m(1) h3 by (cases b1) (auto simp: sqlcipher_cipher_ctx_init_def split: if_splits)
  show "rc = SQLITE_OK \<and> (\<exists>c. r = Some c \<and> cipher_ctx_wf ks c \<and> pass c = None) \<or> rc = SQLITE_NOMEM \<and> r = None"
    using assms b1 b2 b3
    by (cases b1; cases b2; cases b3) (auto simp: sqlcipher_cipher_ctx_init_def cipher_ctx_wf_def)
  show "rc = SQLITE_OK" if "plenty (w_heap w)" "0 < ks"
  proof -
    have "plenty (w_heap w1)" "plenty (w_heap w2)" using heap_onlyD(5) [OF m(1)] heap_onlyD(5) [OF h2] that(1) by auto
    then have "b1" "b2" "b3" using m(2,4,6) that assms(1) by auto
    then show ?thesis using assms b1 b2 b3 by (simp add: sqlcipher_cipher_ctx_init_def)
  qed
qed

lemma init_keys_result:
  assumes layout: "layout_wf ks ivs bs ms ctx" and len: "\<And>k. zKey = Some k \<Longrightarrow> length k < 2 ^ 31"
    and r: "init_keys ctx zKey w = (rc, ctx', w')"
  shows "heap_only w w'" "plenty (w_heap w) \<Longrightarrow> 0 < ks \<Longrightarrow> rc = SQLITE_OK"
    "rc = SQLITE_OK \<Longrightarrow> codec_wf ks ivs bs ms ctx' \<and> pass (read_ctx ctx') = pass_of zKey \<and> derive_key (read_ctx ctx') = 1 \<and>
      ctx' = ctx\<lparr>read_ctx := read_ctx ctx', write_ctx := read_ctx ctx'\<rparr>"
    "rc = SQLITE_OK \<or> rc = SQLITE_NOMEM"
proof -
  have ks: "key_sz ctx = int ks" using layout by (simp add: layout_wf_def sizes_wf_def)
  let ?G = "heap_only w w' \<and> (plenty (w_heap w) \<longrightarrow> 0 < ks \<longrightarrow> rc = SQLITE_OK) \<and>
    (rc = SQLITE_OK \<longrightarrow> codec_wf ks ivs bs ms ctx' \<and> pass (read_ctx ctx') = pass_of zKey \<and> derive_key (read_ctx ctx') = 1 \<and>
      ctx' = ctx\<lparr>read_ctx := read_ctx ctx', write_ctx := read_ctx ctx'\<rparr>) \<and> (rc = SQLITE_OK \<or> rc = SQLITE_NOMEM)"
  obtain rc1 r1 w1 where 1: "sqlcipher_cipher_ctx_init ctx w = (rc1, r1, w1)" by (rule prod_cases3)
  note i1 = cipher_ctx_init_result [OF ks 1]
  have ?G
  proof (cases "rc1 = SQLITE_OK")
    case False
    then have "rc = rc1" "w' = w1" using r 1 by (simp_all add: init_keys_def)
    then show ?thesis using False i1 by auto
  next
    case ok1: True
    then obtain c1 where c1: "r1 = Some c1" "cipher_ctx_wf ks c1" "pass c1 = None" using i1(2) by auto
    define x1 where "x1 = ctx\<lparr>read_ctx := c1\<rparr>"
    have "key_sz x1 = int ks" using ks by (simp add: x1_def)
    obtain rc2 r2 w2 where 2: "sqlcipher_cipher_ctx_init x1 w1 = (rc2, r2, w2)" by (rule prod_cases3)
    note i2 = cipher_ctx_init_result [OF \<open>key_sz x1 = int ks\<close> 2]
    have h2: "heap_only w w2" using heap_only_trans [OF i1(1) i2(1)] .
    show ?thesis
    proof (cases "rc2 = SQLITE_OK")
      case False
      then have "rc = rc2" "w' = w2" using r 1 2 ok1 c1 by (simp_all add: init_keys_def x1_def [symmetric])
      then show ?thesis using False i2 h2 heap_onlyD(5) [OF i1(1)] by auto
    next
      case ok2: True
      then obtain c2 where c2: "r2 = Some c2" "cipher_ctx_wf ks c2" "pass c2 = None" using i2(2) by auto
      define x2 where "x2 = x1\<lparr>write_ctx := c2\<rparr>"
      have wf2: "codec_wf ks ivs bs ms x2" using layout c1(2) c2(2) by (simp add: codec_wf_iff layout_wf_def x2_def x1_def)
      obtain rc3 x3 w3 where 3: "sqlcipher_codec_ctx_set_pass x2 zKey 0 w2 = (rc3, x3, w3)" by (rule prod_cases3)
      note i3 = codec_set_pass_result [OF wf2 len 3]
      have h3: "heap_only w w3" using heap_only_trans [OF h2] i3 by auto
      have step: "init_keys ctx zKey w = (if rc3 \<noteq> SQLITE_OK then (rc3, x3, w3) else
          (let (rc, c, w) = sqlcipher_cipher_ctx_copy x3 (write_ctx x3) (read_ctx x3) w3 in (rc, x3\<lparr>write_ctx := c\<rparr>, w)))"
        using 1 2 3 ok1 ok2 c1 c2 by (simp add: init_keys_def x1_def [symmetric] x2_def [symmetric])
      show ?thesis
      proof (cases "rc3 = SQLITE_OK")
        case False
        then have "rc = rc3" "w' = w3" using r step by simp_all
        then show ?thesis using False i3 h3 heap_onlyD(5) [OF h2] by auto
      next
        case ok3: True
        obtain rc4 c w4 where 4: "sqlcipher_cipher_ctx_copy x3 (write_ctx x3) (read_ctx x3) w3 = (rc4, c, w4)" by (rule prod_cases3)
        have wf3: "codec_wf ks ivs bs ms x3" using i3 len by auto
        then have "cipher_ctx_wf ks (write_ctx x3)" "cipher_ctx_wf ks (read_ctx x3)" by (simp_all add: codec_wf_iff)
        note i4 = copy_result [OF this key_sz_wf [OF wf3] 4]
        have h4: "heap_only w w4" using heap_only_trans [OF h3 i4(2)] .
        have e: "rc = rc4" "ctx' = x3\<lparr>write_ctx := c\<rparr>" "w' = w4" using r step ok3 4 by simp_all
        have "pass_set zKey 0 x2 x3" using i3 ok3 by auto
        then have p: "pass (read_ctx x3) = pass_of zKey" "derive_key (read_ctx x3) = 1" "x3 = x2\<lparr>read_ctx := read_ctx x3\<rparr>"
          by (simp_all add: pass_set_def get_cctx_def set_cctx_def)
        have eq: "ctx' = ctx\<lparr>read_ctx := read_ctx ctx', write_ctx := read_ctx ctx'\<rparr>" if "rc4 = SQLITE_OK"
        proof -
          have c: "c = read_ctx x3" using i4(1) that by auto
          obtain r3 where r3: "x3 = x2\<lparr>read_ctx := r3\<rparr>" using p(3) by blast
          then have "read_ctx x3 = r3" by simp
          then have "ctx' = ctx\<lparr>read_ctx := r3, write_ctx := r3\<rparr>" by (simp add: e(2) c r3 x2_def x1_def)
          then show ?thesis by simp
        qed
        have "codec_wf ks ivs bs ms (x3\<lparr>write_ctx := c\<rparr>)" using wf3 i4(3) by (simp add: codec_wf_iff)
        then show ?thesis using e eq p h4 i4(1) heap_onlyD(5) [OF h3] by auto
      qed
    qed
  qed
  then show "heap_only w w'" "plenty (w_heap w) \<Longrightarrow> 0 < ks \<Longrightarrow> rc = SQLITE_OK"
    "rc = SQLITE_OK \<Longrightarrow> codec_wf ks ivs bs ms ctx' \<and> pass (read_ctx ctx') = pass_of zKey \<and> derive_key (read_ctx ctx') = 1 \<and>
      ctx' = ctx\<lparr>read_ctx := read_ctx ctx', write_ctx := read_ctx ctx'\<rparr>" "rc = SQLITE_OK \<or> rc = SQLITE_NOMEM" by blast+
qed

lemma pagesize_heap:
  assumes "sqlcipher_codec_ctx_set_pagesize ctx n w = (rc, ctx', w')"
  shows "heap_only w w'" "plenty (w_heap w) \<Longrightarrow> rc \<noteq> SQLITE_NOMEM"
proof -
  obtain b v where b: "w_malloc n w = (b, v)" by (rule prod.exhaust)
  show "heap_only w w'" using assms b w_malloc_result(1) [OF b]
    by (auto simp: sqlcipher_codec_ctx_set_pagesize_def Let_def split: if_splits)
  show "plenty (w_heap w) \<Longrightarrow> rc \<noteq> SQLITE_NOMEM" using assms b w_malloc_result(2) [OF b]
    by (auto simp: sqlcipher_codec_ctx_set_pagesize_def Let_def split: if_splits)
qed

lemma page_ok_accepted:
  assumes "page_ok n"
  shows "(n AND (n - 1)) = 0" "512 \<le> n" "n \<le> 65536"
proof -
  obtain k where k: "9 \<le> k" "k \<le> 16" "n = 2 ^ k" using assms unfolding page_ok_def by blast
  have "(2 :: int) ^ 9 \<le> 2 ^ k" "(2 :: int) ^ k \<le> 2 ^ 16" using k(1,2) by (simp_all only: power_increasing_iff)
  then show "512 \<le> n" "n \<le> 65536" using k(3) by simp_all
  have "n AND (n - 1) = n AND (2 ^ k - 1)" by (simp add: k(3))
  also have "\<dots> = take_bit k n" by (simp add: take_bit_eq_mask mask_eq_exp_minus_1)
  also have "\<dots> = 0" by (simp add: k(3) take_bit_eq_mod)
  finally show "(n AND (n - 1)) = 0" .
qed

lemma pagesize_accepted:
  assumes "\<not> bit (cc_flags ctx) 3" "page_ok n" "plenty (w_heap w)" "sqlcipher_codec_ctx_set_pagesize ctx n w = (rc, ctx', w')"
  shows "rc = SQLITE_OK"
proof -
  obtain b v where b: "w_malloc n w = (b, v)" by (rule prod.exhaust)
  show ?thesis using assms page_ok_accepted [OF assms(2)] b w_malloc_result(2) [OF b]
    by (simp add: sqlcipher_codec_ctx_set_pagesize_def)
qed

lemma hmac_flag_same: "(if bit f 0 then FLAG_SET f CIPHER_FLAG_HMAC else FLAG_UNSET f CIPHER_FLAG_HMAC) = f"
  by (rule bit_word_eqI, rename_tac n, case_tac "n = 0") auto

text \<open>
  The defaults that \<open>sqlcipher_codec_ctx_init\<close> accepts, and a context that has them.
\<close>

definition defaults_ok :: "nat \<Rightarrow> nat \<Rightarrow> (int \<Rightarrow> nat) \<Rightarrow> codec_defaults \<Rightarrow> bool" where
  "defaults_ok ivs bs ms d \<longleftrightarrow> page_ok (default_page_size d) \<and> alg_ok (default_hmac_algorithm d) \<and>
     alg_ok (default_kdf_algorithm d) \<and> \<not> FLAG_GET (default_flags d) CIPHER_FLAG_KEY_USED \<and>
     0 \<le> default_plaintext_header_size d \<and> int bs dvd default_plaintext_header_size d \<and>
     default_plaintext_header_size d \<le> default_page_size d -
       round_up (int bs) (int ivs + (if FLAG_GET (default_flags d) CIPHER_FLAG_HMAC then int (ms (default_hmac_algorithm d)) else 0))"

text \<open>The part that the pragmas for defaults cannot break: the algorithms have names and no key is in use.\<close>

definition defaults_set :: "codec_defaults \<Rightarrow> bool" where
  "defaults_set d \<longleftrightarrow> alg_ok (default_hmac_algorithm d) \<and> alg_ok (default_kdf_algorithm d) \<and>
     \<not> FLAG_GET (default_flags d) CIPHER_FLAG_KEY_USED"

lemma defaults_ok_set: "defaults_ok ivs bs ms d \<Longrightarrow> defaults_set d"
  by (simp add: defaults_ok_def defaults_set_def)

definition settled :: "codec_defaults \<Rightarrow> codec_ctx \<Rightarrow> bool" where
  "settled d ctx \<longleftrightarrow> page_sz ctx = default_page_size d \<and> kdf_iter ctx = default_kdf_iter d \<and> fast_kdf_iter ctx = FAST_PBKDF2_ITER \<and>
     hmac_algorithm ctx = default_hmac_algorithm d \<and> kdf_algorithm ctx = default_kdf_algorithm d \<and>
     cc_flags ctx = default_flags d \<and> plaintext_header_sz ctx = default_plaintext_header_size d"

context crypto_provider
begin

abbreviation layout :: "codec_ctx \<Rightarrow> bool" where
  "layout \<equiv> layout_wf key_size iv_size block_size mac_size"

lemma init_settings_run:
  assumes up: "up (w_prov w)" and d: "defaults_set (w_defaults w)"
    and sz: "key_sz ctx = int key_size" "iv_sz ctx = int iv_size" "block_sz ctx = int block_size" "kdf_salt_sz ctx = 16"
      "length (kdf_salt ctx) = 16" "length (hmac_kdf_salt ctx) = 16" "cc_flags ctx = default_flags (w_defaults w)"
    and r: "init_settings P ctx w = (rc, ctx', w')"
  shows "heap_only w w' \<and> (rc = SQLITE_NOMEM \<and> \<not> plenty (w_heap w) \<or>
    rc = SQLITE_ERROR \<and> \<not> defaults_ok iv_size block_size mac_size (w_defaults w) \<or>
    rc = SQLITE_OK \<and> defaults_ok iv_size block_size mac_size (w_defaults w) \<and>
      layout ctx' \<and> settled (w_defaults w) ctx' \<and> pBt ctx' = pBt ctx)"
proof -
  let ?d = "w_defaults w"
  have nk: "\<not> bit (cc_flags ctx) 3" using d sz by (simp add: defaults_set_def)
  obtain rc1 x1 w1 where 1: "sqlcipher_codec_ctx_set_pagesize ctx (default_page_size ?d) w = (rc1, x1, w1)" by (rule prod_cases3)
  have alg: "alg_ok (default_hmac_algorithm ?d)" "alg_ok (default_kdf_algorithm ?d)" using d by (simp_all add: defaults_set_def)
  note h = pagesize_heap [OF 1]
  show ?thesis
  proof (cases "rc1 = SQLITE_OK")
    case False
    then have e: "rc = rc1" "w' = w1" using r 1 by (simp_all add: init_settings_def)
    have "rc1 = SQLITE_NOMEM \<and> \<not> plenty (w_heap w) \<or> rc1 = SQLITE_ERROR \<and> \<not> page_ok (default_page_size ?d)"
    proof (cases "page_ok (default_page_size ?d)")
      case ok: True
      then have "\<not> plenty (w_heap w)" using pagesize_accepted [OF nk ok _ 1] False by blast
      moreover have "rc1 = SQLITE_NOMEM"
        using False 1 nk page_ok_accepted [OF ok]
        by (auto simp: sqlcipher_codec_ctx_set_pagesize_def Let_def split: if_splits prod.splits)
      ultimately show ?thesis by simp
    next
      case bad: False
      from nk 1 have "rc1 = SQLITE_ERROR \<or> rc1 = SQLITE_NOMEM" using False by (auto elim: pagesize_cases)
      then show ?thesis using h bad by auto
    qed
    then show ?thesis using h(1) e by (auto simp: defaults_ok_def)
  next
    case True
    with nk 1 have x1: "x1 = ctx\<lparr>page_sz := default_page_size ?d, cc_buffer := Some (replicate (nat (default_page_size ?d)) 0)\<rparr>"
      "page_ok (default_page_size ?d)" by (auto elim: pagesize_cases)
    have s1: "sizes_wf key_size iv_size block_size x1" using sz x1 by (simp add: sizes_wf_def)
    have up1: "up (w_prov w1)" using up h(1) by (simp add: heap_onlyD)
    define x2 where "x2 = sqlcipher_set_derive_key ((sqlcipher_set_derive_key (x1\<lparr>kdf_iter := default_kdf_iter ?d\<rparr>) 1)\<lparr>fast_kdf_iter := FAST_PBKDF2_ITER\<rparr>) 1"
    have x2: "sizes_wf key_size iv_size block_size x2" "cc_flags x2 = default_flags ?d" "page_sz x2 = default_page_size ?d"
      "kdf_iter x2 = default_kdf_iter ?d" "fast_kdf_iter x2 = FAST_PBKDF2_ITER" "block_sz x2 = int block_size" "pBt x2 = pBt ctx"
      using s1 sz x1 by (simp_all add: x2_def sqlcipher_set_derive_key_def)
    define R where "R = round_up (int block_size) (int iv_size + (if bit (default_flags ?d) 0 then int (mac_size (default_hmac_algorithm ?d)) else 0))"
    define x3 where "x3 = x2\<lparr>hmac_algorithm := default_hmac_algorithm ?d, hmac_sz := int (mac_size (default_hmac_algorithm ?d)), reserve_sz := R\<rparr>"
    have R: "reserve_of iv_size block_size mac_size (x2\<lparr>hmac_algorithm := default_hmac_algorithm ?d\<rparr>) = R"
      using x2(2) by (simp add: reserve_of_def R_def)
    have 2: "sqlcipher_codec_ctx_set_hmac_algorithm P x2 (default_hmac_algorithm ?d) w1 = (SQLITE_OK, x3)"
      using reserve_setup_eq [OF up1, of "x2\<lparr>hmac_algorithm := default_hmac_algorithm ?d\<rparr>"] x2(1,2) alg nk sz(7)
      by (simp add: sqlcipher_codec_ctx_set_hmac_algorithm_def R x3_def)
    have f3: "x3\<lparr>cc_flags := default_flags ?d\<rparr> = x3" using x2(2) by (simp add: x3_def)
    have c3: "cc_flags x3 = default_flags ?d" using x2(2) by (simp add: x3_def)
    have same: "x3\<lparr>cc_flags := (if bit (default_flags ?d) 0 then FLAG_SET (default_flags ?d) CIPHER_FLAG_HMAC
        else FLAG_UNSET (default_flags ?d) CIPHER_FLAG_HMAC)\<rparr> = x3" by (simp only: hmac_flag_same f3)
    have "reserve_of iv_size block_size mac_size x3 = R" using c3 by (simp add: reserve_of_def R_def x3_def)
    then have "sqlcipher_codec_ctx_reserve_setup P x3 w1 = (SQLITE_OK, x3)"
      using reserve_setup_eq [OF up1, of x3] x2(1) alg by (simp add: x3_def)
    then have 3: "sqlcipher_codec_ctx_set_use_hmac P x3 (bit (default_flags ?d) 0) w1 = (SQLITE_OK, x3)"
      using nk sz(7) by (simp only: sqlcipher_codec_ctx_set_use_hmac_def c3 same FLAG_GET_bit if_False)
    let ?H = "defaults_ok iv_size block_size mac_size ?d"
    have H: "?H = (0 \<le> default_plaintext_header_size ?d \<and> int block_size dvd default_plaintext_header_size ?d \<and>
        default_plaintext_header_size ?d \<le> default_page_size ?d - R)"
      using x1(2) d by (auto simp: defaults_ok_def defaults_set_def R_def)
    have 4: "sqlcipher_codec_ctx_set_plaintext_header_size (x3\<lparr>kdf_algorithm := default_kdf_algorithm ?d\<rparr>) (default_plaintext_header_size ?d)
      = (if ?H then SQLITE_OK else SQLITE_ERROR, x3\<lparr>kdf_algorithm := default_kdf_algorithm ?d,
          plaintext_header_sz := (if ?H then default_plaintext_header_size ?d else -1)\<rparr>)"
      using sizes_pos x2(3,6) unfolding sqlcipher_codec_ctx_set_plaintext_header_size_def H
      by (auto simp: x3_def dvd_eq_mod_eq_0)
    have derive: "cc_flags (sqlcipher_set_derive_key c 1) = cc_flags c" for c by (simp add: sqlcipher_set_derive_key_def)
    have fl: "\<not> bit (cc_flags x1) 3" "\<not> bit (cc_flags x3) 3" using nk x1 x2(2) sz(7) by (simp_all add: x3_def)
    have "init_settings P ctx w = (if ?H then SQLITE_OK else SQLITE_ERROR, x3\<lparr>kdf_algorithm := default_kdf_algorithm ?d,
          plaintext_header_sz := (if ?H then default_plaintext_header_size ?d else -1)\<rparr>, w1)"
      using 1 True 2 3 4 fl unfolding init_settings_def sqlcipher_codec_ctx_set_kdf_iter_def sqlcipher_codec_ctx_set_fast_kdf_iter_def
        sqlcipher_codec_ctx_set_kdf_algorithm_def
      by (simp add: derive x2_def [symmetric] Let_def)
    then have e: "rc = (if ?H then SQLITE_OK else SQLITE_ERROR)" "w' = w1"
      "ctx' = x3\<lparr>kdf_algorithm := default_kdf_algorithm ?d, plaintext_header_sz := (if ?H then default_plaintext_header_size ?d else -1)\<rparr>"
      using r by simp_all
    have "layout ctx'" using x2 alg R by (simp add: e(3) layout_wf_def x3_def)
    moreover have "?H \<Longrightarrow> settled ?d ctx'" "pBt ctx' = pBt ctx" using x2 by (simp_all add: settled_def e(3) x3_def)
    ultimately show ?thesis using e h by simp
  qed
qed

lemma codec_ctx_init_run:
  assumes ci: "p_ctx_init P (w_prov w) = Some (SQLITE_OK, s)" and up: "up s"
    and d: "defaults_set (w_defaults w)" and len: "\<And>k. zKey = Some k \<Longrightarrow> length k < 2 ^ 31"
    and r: "sqlcipher_codec_ctx_init P t zKey w = Some (rc, r, w')"
  shows "rc = SQLITE_NOMEM \<and> \<not> plenty (w_heap w) \<and> r = None \<or>
    rc = SQLITE_ERROR \<and> \<not> defaults_ok iv_size block_size mac_size (w_defaults w) \<and> r = None \<or>
    rc = SQLITE_OK \<and> defaults_ok iv_size block_size mac_size (w_defaults w) \<and> heap_only (w\<lparr>w_prov := s\<rparr>) w' \<and>
      (\<exists>ctx. r = Some ctx \<and> wf ctx \<and> settled (w_defaults w) ctx \<and> pBt ctx = t \<and>
        pass (read_ctx ctx) = pass_of zKey \<and> derive_key (read_ctx ctx) = 1 \<and> write_ctx ctx = read_ctx ctx)"
proof -
  obtain b1 w1 where b1: "w_malloc 128 w = (b1, w1)" by (rule prod.exhaust)
  obtain b2 w2 where b2: "w_malloc 16 w1 = (b2, w2)" by (rule prod.exhaust)
  obtain b3 w3 where b3: "w_malloc 16 w2 = (b3, w3)" by (rule prod.exhaust)
  note m = w_malloc_result [OF b1] w_malloc_result [OF b2] w_malloc_result [OF b3]
  have h: "heap_only w w3" using heap_only_trans [OF heap_only_trans [OF m(1,3)] m(5)] .
  have ok: "b1 \<and> b2 \<and> b3" if "plenty (w_heap w)"
    using that m heap_onlyD(5) by (metis zero_less_numeral)
  define v where "v = w3\<lparr>w_prov := s\<rparr>"
  have v: "heap_only (w\<lparr>w_prov := s\<rparr>) v" "up (w_prov v)" "w_defaults v = w_defaults w" "plenty (w_heap w) \<Longrightarrow> plenty (w_heap v)"
    using heap_only_prov [OF h, of s] h up by (auto simp: v_def heap_onlyD)
  define x where "x = (blank_codec_ctx t)\<lparr>cc_flags := default_flags (w_defaults w),
    key_sz := p_key_sz P s, iv_sz := p_iv_sz P s, block_sz := p_block_sz P s\<rparr>"
  have x: "key_sz x = int key_size" "iv_sz x = int iv_size" "block_sz x = int block_size" "kdf_salt_sz x = 16"
    "length (kdf_salt x) = 16" "length (hmac_kdf_salt x) = 16" "cc_flags x = default_flags (w_defaults v)" "pBt x = t"
    using sizes [OF up] v(3) by (simp_all add: x_def blank_codec_ctx_def FILE_HEADER_SZ_def)
  obtain rc1 x1 v1 where 1: "init_settings P x v = (rc1, x1, v1)" by (rule prod_cases3)
  have d': "defaults_set (w_defaults v)" using d v(3) by simp
  note i1 = init_settings_run [OF v(2) d' x(1-7) 1]
  obtain rc2 x2 v2 where 2: "init_keys x1 zKey v1 = (rc2, x2, v2)" by (rule prod_cases3)
  have step: "sqlcipher_codec_ctx_init P t zKey w = (if \<not> b1 then Some (SQLITE_NOMEM, None, w1)
      else if \<not> b2 then Some (SQLITE_NOMEM, None, w2) else if \<not> b3 then Some (SQLITE_NOMEM, None, w3)
      else if rc1 \<noteq> SQLITE_OK then Some (rc1, None, v1) else if rc2 \<noteq> SQLITE_OK then Some (rc2, None, v2)
      else Some (SQLITE_OK, Some x2, v2))"
    using b1 b2 b3 ci 1 2 heap_onlyD [OF h] unfolding x_def v_def
    by (simp add: sqlcipher_codec_ctx_init_def blank_codec_ctx_def FILE_HEADER_SZ_def)
  show ?thesis
  proof (cases "(b1 \<and> b2 \<and> b3) \<and> rc1 = SQLITE_OK")
    case False
    then have "rc \<noteq> SQLITE_OK \<and> rc = (if \<not> (b1 \<and> b2 \<and> b3) then SQLITE_NOMEM else rc1) \<and> r = None"
      using r step by (auto split: if_splits)
    then show ?thesis using i1 False ok v(3,4) by (auto split: if_splits)
  next
    case True
    then have e: "rc = rc2" "r = (if rc2 = SQLITE_OK then Some x2 else None)" "w' = v2" using r step by (auto split: if_splits)
    have l: "layout x1" "settled (w_defaults w) x1" "pBt x1 = t" using i1 True v(3) x(8) by auto
    have dok: "defaults_ok iv_size block_size mac_size (w_defaults w)" using i1 True v(3) by auto
    have i1h: "heap_only v v1" using i1 by blast
    note i2 = init_keys_result [OF l(1) len 2]
    have "heap_only (w\<lparr>w_prov := s\<rparr>) v2" using heap_only_trans [OF heap_only_trans [OF v(1) i1h] i2(1)] .
    moreover have "rc2 = SQLITE_OK" if "plenty (w_heap w)" using i2(2) heap_onlyD(5) [OF i1h] v(4) that sizes_pos by auto
    moreover have "rc2 = SQLITE_OK \<longrightarrow> wf x2 \<and> settled (w_defaults w) x2 \<and> pBt x2 = t \<and> pass (read_ctx x2) = pass_of zKey \<and>
        derive_key (read_ctx x2) = 1 \<and> write_ctx x2 = read_ctx x2" (is "_ \<longrightarrow> ?W")
    proof
      assume ok2: "rc2 = SQLITE_OK"
      obtain c where c: "x2 = x1\<lparr>read_ctx := c, write_ctx := c\<rparr>" using i2(3) [OF _ ok2] by blast
      have "settled (w_defaults w) x2" "pBt x2 = t" "write_ctx x2 = read_ctx x2" using l(2,3) by (simp_all add: c settled_def)
      then show ?W using i2(3) [OF _ ok2] by blast
    qed
    moreover have "rc2 = SQLITE_OK \<or> rc2 = SQLITE_NOMEM" using i2(4) .
    ultimately show ?thesis using e dok by auto
  qed
qed

lemma codec_ctx_init_result:
  assumes ci: "p_ctx_init P (w_prov w) = Some (SQLITE_OK, s)" and up: "up s"
    and d: "defaults_ok iv_size block_size mac_size (w_defaults w)" and len: "\<And>k. zKey = Some k \<Longrightarrow> length k < 2 ^ 31"
    and r: "sqlcipher_codec_ctx_init P t zKey w = Some (rc, r, w')"
  shows "plenty (w_heap w) \<Longrightarrow> rc = SQLITE_OK" "rc \<noteq> SQLITE_OK \<Longrightarrow> rc = SQLITE_NOMEM \<and> r = None"
    "rc = SQLITE_OK \<Longrightarrow> heap_only (w\<lparr>w_prov := s\<rparr>) w' \<and> (\<exists>ctx. r = Some ctx \<and> wf ctx \<and> settled (w_defaults w) ctx \<and> pBt ctx = t \<and>
      pass (read_ctx ctx) = pass_of zKey \<and> derive_key (read_ctx ctx) = 1 \<and> write_ctx ctx = read_ctx ctx)"
  using codec_ctx_init_run [OF ci up defaults_ok_set [OF d] len r] d by auto

end

lemma codec_ctx_init_returns:
  assumes "p_ctx_init P (w_prov w) = Some (e, s)"
  shows "sqlcipher_codec_ctx_init P t zKey w \<noteq> None"
proof -
  obtain b1 w1 where b1: "w_malloc 128 w = (b1, w1)" by (rule prod.exhaust)
  obtain b2 w2 where b2: "w_malloc 16 w1 = (b2, w2)" by (rule prod.exhaust)
  obtain b3 w3 where b3: "w_malloc 16 w2 = (b3, w3)" by (rule prod.exhaust)
  have "w_prov w3 = w_prov w"
    using w_malloc_result(1) [OF b1] w_malloc_result(1) [OF b2] w_malloc_result(1) [OF b3] by (simp add: heap_onlyD(1))
  moreover have "kdf_salt_sz (blank_codec_ctx t) = 16" by (simp add: blank_codec_ctx_def FILE_HEADER_SZ_def)
  ultimately show ?thesis using b1 b2 b3 assms
    by (auto simp: sqlcipher_codec_ctx_init_def Let_def split: prod.split)
qed

section \<open>Contexts over LibTomCrypt\<close>

abbreviation ltc_mac_size :: "int \<Rightarrow> nat" where "ltc_mac_size \<equiv> \<lambda>a. hashsize (descriptor_of (alg_of a))"
abbreviation ltc_wf :: "codec_ctx \<Rightarrow> bool" where "ltc_wf \<equiv> codec_wf 32 16 16 ltc_mac_size"

text \<open>A later activation keeps the tables.\<close>

lemma activate_warm:
  assumes "ltc_up s" "ltc_init s \<noteq> 0" "\<not> l_held s"
  shows "\<exists>s'. sqlcipher_ltc_ctx_init s = Some (SQLITE_OK, s') \<and> ltc_up s' \<and> l_heap s' = l_heap s"
proof -
  let ?t = "\<lambda>s'. l_ciphers s' = l_ciphers s \<and> l_hashes s' = l_hashes s \<and> l_junk s' = l_junk s \<and> l_heap s' = l_heap s"
  have add: "l_ciphers u = l_ciphers t \<and> l_hashes u = l_hashes t \<and> l_junk u = l_junk t \<and> l_heap u = l_heap t"
    if "sqlcipher_ltc_add_random t d = (rc, u)" for t d rc u
    using that by (auto simp: sqlcipher_ltc_add_random_def next_env_def Let_def split: prod.splits)
  define v where "v = s\<lparr>l_held := True, ltc_ref_count := ltc_ref_count s + 1, l_env := (\<lambda>n. l_env s (Suc n))\<rparr>"
  obtain y seed where rng: "rng_get_bytes (l_env s 0) (replicate FORTUNA_MAX_SZ 0) FORTUNA_MAX_SZ = (y, seed)" by (rule prod.exhaust)
  obtain rc t where t: "sqlcipher_ltc_add_random v seed = (rc, t)" by (rule prod.exhaust)
  have "sqlcipher_ltc_activate s = Some (if rc = SQLITE_OK then (SQLITE_OK, t\<lparr>l_held := False\<rparr>) else (SQLITE_ERROR, t))"
    using assms(2,3) rng t by (simp add: sqlcipher_ltc_activate_def next_env_def v_def Let_def)
  moreover have "?t t" "?t (t\<lparr>l_held := False\<rparr>)" using add [OF t] by (simp_all add: v_def)
  ultimately obtain rc s' where "sqlcipher_ltc_activate s = Some (rc, s')" "?t s'" by (metis (full_types))
  then show ?thesis using assms(1) ltc_up_cong [of s' s] by (auto simp: sqlcipher_ltc_ctx_init_def)
qed

text \<open>An example.\<close>

definition sample_world :: "ltc_state world" where
  "sample_world = \<lparr>w_prov = warm_ltc, w_heap = (\<lambda>_. True), w_xo = (1, 2, 3, 4), w_mask = replicate 32 90, w_defaults = initial_defaults\<rparr>"

definition sample_btree :: btree where
  "sample_btree = \<lparr>bt_open = False, bt_read = (\<lambda>b. (SQLITE_ERROR, b)), bt_autovacuum = 0, bt_sharable = False, bt_pager_err = 0, bt_db_err = 0\<rparr>"

definition sample_cipher_ctx :: cipher_ctx where
  "sample_cipher_ctx = \<lparr>derive_key = 1, pass_sz = 3, ck_key = replicate 32 0, ck_hmac_key = replicate 32 0, pass = Some [97, 98, 99]\<rparr>"

definition sample_ctx :: codec_ctx where
  "sample_ctx = \<lparr>store_pass = 0, kdf_iter = 256000, fast_kdf_iter = 2, kdf_salt_sz = 16, key_sz = 32, iv_sz = 16,
      block_sz = 16, page_sz = 512, reserve_sz = 80, hmac_sz = 64, plaintext_header_sz = 0, hmac_algorithm = 2,
      kdf_algorithm = 2, cc_error = 0, cc_flags = DEFAULT_CIPHER_FLAGS, kdf_salt = replicate 16 0, hmac_kdf_salt = replicate 16 0,
      cc_buffer = Some (replicate 512 0), pBt = sample_btree, read_ctx = sample_cipher_ctx, write_ctx = sample_cipher_ctx\<rparr>"

lemma bit_default_flags [simp]:
  "bit DEFAULT_CIPHER_FLAGS n \<longleftrightarrow> n = 0 \<or> n = 1"
  unfolding DEFAULT_CIPHER_FLAGS_def CIPHER_FLAG_HMAC_def CIPHER_FLAG_LE_PGNO_def bit_or_iff bit_push_bit_iff
  by (auto simp: bit_1_iff)

lemma ltc_mac_size_simps [simp]:
  "ltc_mac_size 0 = 20" "ltc_mac_size 1 = 32" "ltc_mac_size 2 = 64"
  by (simp_all add: alg_of_def sha1_desc_def sha256_desc_def sha512_desc_def)

lemma page_ok_simps [simp]: "page_ok 512" "page_ok 4096"
  unfolding page_ok_def by (rule exI [of _ 9], simp) (rule exI [of _ 12], simp)

lemma sample_wf: "ltc_wf sample_ctx"
  by (simp add: codec_wf_iff sizes_wf_def sample_ctx_def alg_ok_def reserve_of_def round_up_def cipher_ctx_wf_def sample_cipher_ctx_def)

lemma sample_defaults: "defaults_ok 16 16 ltc_mac_size initial_defaults"
  by (simp add: defaults_ok_def initial_defaults_def alg_ok_def round_up_def algorithm_defs)

section \<open>Sequences of settings\<close>

text \<open>
  One setting changed by a pragma, whatever it answers.  The algorithms are those the pragmas have names for, and
  the length given for a salt is not more than its bytes.
\<close>

inductive setting :: "'s provider \<Rightarrow> codec_ctx \<times> 's world \<Rightarrow> codec_ctx \<times> 's world \<Rightarrow> bool" for P where
  "sqlcipher_codec_ctx_set_kdf_iter ctx n = (rc, ctx') \<Longrightarrow> setting P (ctx, w) (ctx', w)"
| "sqlcipher_codec_ctx_set_fast_kdf_iter ctx n = (rc, ctx') \<Longrightarrow> setting P (ctx, w) (ctx', w)"
| "sqlcipher_codec_ctx_set_use_hmac P ctx b w = (rc, ctx') \<Longrightarrow> setting P (ctx, w) (ctx', w)"
| "alg_ok a \<Longrightarrow> sqlcipher_codec_ctx_set_hmac_algorithm P ctx a w = (rc, ctx') \<Longrightarrow> setting P (ctx, w) (ctx', w)"
| "alg_ok a \<Longrightarrow> sqlcipher_codec_ctx_set_kdf_algorithm ctx a = (rc, ctx') \<Longrightarrow> setting P (ctx, w) (ctx', w)"
| "sqlcipher_codec_ctx_set_plaintext_header_size ctx n = (rc, ctx') \<Longrightarrow> setting P (ctx, w) (ctx', w)"
| "sqlcipher_codec_ctx_set_pagesize ctx n w = (rc, ctx', w') \<Longrightarrow> setting P (ctx, w) (ctx', w')"
| "sqlcipher_codec_ctx_set_kdf_salt ctx salt n = (rc, ctx') \<Longrightarrow> n \<le> int (length salt) \<Longrightarrow> setting P (ctx, w) (ctx', w)"

lemmas setting_defs = sqlcipher_codec_ctx_set_kdf_iter_def sqlcipher_codec_ctx_set_fast_kdf_iter_def
  sqlcipher_codec_ctx_set_use_hmac_def sqlcipher_codec_ctx_set_hmac_algorithm_def sqlcipher_codec_ctx_set_kdf_algorithm_def
  sqlcipher_codec_ctx_set_plaintext_header_size_def sqlcipher_codec_ctx_set_kdf_salt_def
  sqlcipher_codec_ctx_reserve_setup_def sqlcipher_set_derive_key_def Let_def

lemma setting_locked:
  assumes "setting P (ctx, w) (ctx', w')" "bit (cc_flags ctx) 3"
  shows "ctx' = ctx\<lparr>plaintext_header_sz := plaintext_header_sz ctx'\<rparr>"
  using assms(1)
proof cases
  case (6 n rc)
  then show ?thesis by (auto simp: sqlcipher_codec_ctx_set_plaintext_header_size_def split: if_splits)
qed (use assms(2) in \<open>simp_all add: sqlcipher_codec_ctx_set_kdf_iter_def sqlcipher_codec_ctx_set_fast_kdf_iter_def
  sqlcipher_codec_ctx_set_use_hmac_def sqlcipher_codec_ctx_set_hmac_algorithm_def sqlcipher_codec_ctx_set_kdf_algorithm_def
  sqlcipher_codec_ctx_set_pagesize_def sqlcipher_codec_ctx_set_kdf_salt_def\<close>)

text \<open>The context with a buffer of the size of a page; without memory for one the context has none.\<close>

definition with_buffer :: "codec_ctx \<Rightarrow> codec_ctx" where
  "with_buffer ctx = ctx\<lparr>cc_buffer := Some (replicate (nat (page_sz ctx)) 0)\<rparr>"

context crypto_provider
begin

text \<open>Only \<open>sqlcipher_codec_ctx_set_pagesize\<close> looks at the buffer or the size of a page.\<close>

lemma setting_frame:
  assumes "setting P (ctx, w) (ctx', w')" and up: "up (w_prov w)"
  shows "(\<exists>n rc. sqlcipher_codec_ctx_set_pagesize ctx n w = (rc, ctx', w')) \<or>
    w' = w \<and> page_sz ctx' = page_sz ctx \<and> cc_buffer ctx' = cc_buffer ctx \<and>
      (wf (ctx\<lparr>cc_buffer := b\<rparr>) \<longrightarrow> wf (ctx'\<lparr>cc_buffer := b\<rparr>))"
proof -
  let ?x = "ctx\<lparr>cc_buffer := b\<rparr>" and ?y = "ctx'\<lparr>cc_buffer := b\<rparr>"
  from assms(1) show ?thesis
  proof cases
    case (1 n rc)
    then have "sqlcipher_codec_ctx_set_kdf_iter ?x n = (rc, ?y)"
      by (auto simp: setting_defs split: if_splits)
    from other_settings_wf(2) [OF _ this] 1 show ?thesis
      by (auto simp: setting_defs split: if_splits)
  next
    case (2 n rc)
    then have "sqlcipher_codec_ctx_set_fast_kdf_iter ?x n = (rc, ?y)"
      by (auto simp: setting_defs split: if_splits)
    from other_settings_wf(3) [OF _ this] 2 show ?thesis
      by (auto simp: setting_defs split: if_splits)
  next
    case (3 u rc)
    then have "sqlcipher_codec_ctx_set_use_hmac P ?x u w = (rc, ?y)"
      by (auto simp: setting_defs split: if_splits)
    from use_hmac_wf [OF up _ this] 3 show ?thesis
      by (auto simp: setting_defs split: if_splits)
  next
    case (4 a rc)
    then have "sqlcipher_codec_ctx_set_hmac_algorithm P ?x a w = (rc, ?y)"
      by (auto simp: setting_defs split: if_splits)
    from hmac_algorithm_wf [OF up _ \<open>alg_ok a\<close> this] 4 show ?thesis
      by (auto simp: setting_defs split: if_splits)
  next
    case (5 a rc)
    then have "sqlcipher_codec_ctx_set_kdf_algorithm ?x a = (rc, ?y)"
      by (auto simp: setting_defs split: if_splits)
    from other_settings_wf(1) [OF _ \<open>alg_ok a\<close> this] 5 show ?thesis
      by (auto simp: setting_defs split: if_splits)
  next
    case (6 n rc)
    then have "sqlcipher_codec_ctx_set_plaintext_header_size ?x n = (rc, ?y)"
      by (auto simp: setting_defs split: if_splits)
    from other_settings_wf(4) [OF _ this] 6 show ?thesis
      by (auto simp: setting_defs split: if_splits)
  next
    case (7 n rc)
    then show ?thesis by blast
  next
    case (8 salt n rc)
    then have "sqlcipher_codec_ctx_set_kdf_salt ?x salt n = (rc, ?y)"
      by (auto simp: setting_defs split: if_splits)
    from kdf_salt_wf [OF _ this \<open>n \<le> int (length salt)\<close>] 8 show ?thesis
      by (auto simp: setting_defs split: if_splits)
  qed
qed

lemma with_buffer_wf: "wf ctx \<Longrightarrow> wf (with_buffer ctx)"
  using sizes_wf_page [of key_size iv_size block_size ctx "page_sz ctx"]
  by (simp add: with_buffer_def codec_wf_iff sizes_wf_def)

lemma setting_wf:
  assumes "setting P (ctx, w) (ctx', w')" "up (w_prov w)" "wf (with_buffer ctx)"
    and b: "\<And>buf. cc_buffer ctx = Some buf \<Longrightarrow> length buf = nat (page_sz ctx)"
  shows "wf (with_buffer ctx') \<and> heap_only w w' \<and> (\<forall>buf. cc_buffer ctx' = Some buf \<longrightarrow> length buf = nat (page_sz ctx')) \<and>
    (cc_buffer ctx' = None \<longrightarrow> cc_buffer ctx = None \<or> \<not> plenty (w_heap w))"
proof -
  consider (page) n rc where "sqlcipher_codec_ctx_set_pagesize ctx n w = (rc, ctx', w')"
    | (other) "w' = w" "page_sz ctx' = page_sz ctx" "cc_buffer ctx' = cc_buffer ctx" "wf (with_buffer ctx')"
    using setting_frame [OF assms(1,2), of "Some (replicate (nat (page_sz ctx)) 0)"] assms(3) unfolding with_buffer_def by metis
  then show ?thesis
  proof cases
    case page
    show ?thesis
    proof (cases "bit (cc_flags ctx) 3 \<or> rc = SQLITE_ERROR")
      case True
      then have "ctx' = ctx" "w' = w" using page by (auto simp: sqlcipher_codec_ctx_set_pagesize_def Let_def split: if_splits prod.splits)
      then show ?thesis using assms(3) b by simp
    next
      case False
      obtain ok v where m: "w_malloc n w = (ok, v)" by (rule prod.exhaust)
      have n: "page_ok n" "ctx' = ctx\<lparr>page_sz := n, cc_buffer := (if ok then Some (replicate (nat n) 0) else None)\<rparr>"
        using page False m page_size_power [of n] unfolding page_ok_def
        by (auto simp: sqlcipher_codec_ctx_set_pagesize_def Let_def split: if_splits)
      have "0 < n" using page_ok_accepted(2) [OF n(1)] by simp
      then have "ok \<or> \<not> plenty (w_heap w)" using w_malloc_result(2) [OF m] by blast
      moreover have "with_buffer ctx' = (with_buffer ctx)\<lparr>page_sz := n, cc_buffer := Some (replicate (nat n) 0)\<rparr>"
        by (simp add: with_buffer_def n(2))
      then have "wf (with_buffer ctx')"
        using assms(3) sizes_wf_page [of key_size iv_size block_size "with_buffer ctx" n] n(1) by (simp add: codec_wf_iff)
      ultimately show ?thesis using n(2) pagesize_heap(1) [OF page] by auto
    qed
  next
    case other
    then show ?thesis using b by simp
  qed
qed

lemma settings_wf:
  assumes "(setting P)\<^sup>*\<^sup>* (ctx, w) (ctx', w')" "up (w_prov w)" "wf ctx"
  shows "wf (with_buffer ctx') \<and> heap_only w w' \<and> (\<forall>buf. cc_buffer ctx' = Some buf \<longrightarrow> length buf = nat (page_sz ctx')) \<and>
    (cc_buffer ctx' = None \<longrightarrow> \<not> plenty (w_heap w)) \<and>
    (bit (cc_flags ctx) 3 \<longrightarrow> ctx' = ctx\<lparr>plaintext_header_sz := plaintext_header_sz ctx'\<rparr>)"
  using assms(1)
proof (induction "(ctx', w')" arbitrary: ctx' w' rule: rtranclp_induct)
  case base
  have "cc_buffer ctx \<noteq> None" "\<And>buf. cc_buffer ctx = Some buf \<Longrightarrow> length buf = nat (page_sz ctx)"
    using assms(3) by (auto simp: codec_wf_iff sizes_wf_def)
  then show ?case using with_buffer_wf [OF assms(3)] by auto
next
  case (step y)
  obtain c v where y: "y = (c, v)" by (rule prod.exhaust)
  have IH: "wf (with_buffer c)" "heap_only w v" "\<And>buf. cc_buffer c = Some buf \<Longrightarrow> length buf = nat (page_sz c)"
    "cc_buffer c = None \<longrightarrow> \<not> plenty (w_heap w)"
    "bit (cc_flags ctx) 3 \<longrightarrow> c = ctx\<lparr>plaintext_header_sz := plaintext_header_sz c\<rparr>"
    using step(3) y by auto
  have "up (w_prov v)" using IH(2) assms(2) by (simp add: heap_onlyD)
  from setting_wf [OF _ this IH(1,3)] step(2) y
  have s: "wf (with_buffer ctx') \<and> heap_only v w' \<and> (\<forall>buf. cc_buffer ctx' = Some buf \<longrightarrow> length buf = nat (page_sz ctx')) \<and>
    (cc_buffer ctx' = None \<longrightarrow> cc_buffer c = None \<or> \<not> plenty (w_heap v))" by blast
  have "ctx' = ctx\<lparr>plaintext_header_sz := plaintext_header_sz ctx'\<rparr>" if lock: "bit (cc_flags ctx) 3"
  proof -
    obtain h where h: "c = ctx\<lparr>plaintext_header_sz := h\<rparr>" using IH(5) lock by blast
    then have "bit (cc_flags c) 3" using lock by simp
    then obtain h' where "ctx' = c\<lparr>plaintext_header_sz := h'\<rparr>" using setting_locked step(2) y by blast
    then show ?thesis by (simp add: h)
  qed
  moreover have "cc_buffer ctx' = None \<longrightarrow> \<not> plenty (w_heap w)" using s IH(2,4) heap_onlyD(5) by blast
  ultimately show ?case using s heap_only_trans [OF IH(2)] by blast
qed

text \<open>With its buffer such a context is well-formed itself.\<close>

lemma wf_of_buffer:
  assumes "wf (with_buffer ctx)" "cc_buffer ctx = Some buf" "length buf = nat (page_sz ctx)"
  shows "wf ctx"
  using assms by (simp add: with_buffer_def codec_wf_iff sizes_wf_def)

end

section \<open>Properties\<close>

text \<open>
  C13: attaching a context to a provider that has been started, with defaults whose algorithms have names as the
  pragmas ensure, has three outcomes.  It succeeds, which needs default sizes that
  are accepted (a page size that is a power of two from 512 to 65536, a plaintext header in whole blocks that
  leaves room for the reserve), and leaves a
  well-formed context with the default settings, room in each page for the IV and the code in whole blocks, the given
  passphrase, its keys still to be derived and both cipher contexts alike.  It answers \<open>SQLITE_ERROR\<close> and gives no
  context, which happens only if the default sizes are not accepted: the pragmas that set them do not check them.
  Or it answers \<open>SQLITE_NOMEM\<close> and gives no context, which happens only when memory runs out.
\<close>

theorem codec_ctx_init_wf:
  assumes "ltc_up (w_prov w)" "ltc_init (w_prov w) \<noteq> 0" "\<not> l_held (w_prov w)"
    "defaults_set (w_defaults w)" "length key < 2 ^ 31"
  shows "\<exists>rc r w'. sqlcipher_codec_ctx_init sqlcipher_ltc_setup t (Some key) w = Some (rc, r, w') \<and>
    (rc = SQLITE_NOMEM \<and> \<not> plenty (w_heap w) \<and> r = None \<or>
     rc = SQLITE_ERROR \<and> \<not> defaults_ok 16 16 ltc_mac_size (w_defaults w) \<and> r = None \<or>
     rc = SQLITE_OK \<and> defaults_ok 16 16 ltc_mac_size (w_defaults w) \<and>
      (\<exists>ctx. r = Some ctx \<and> ltc_wf ctx \<and> settled (w_defaults w) ctx \<and> pBt ctx = t \<and>
       pass (read_ctx ctx) = pass_of (Some key) \<and> derive_key (read_ctx ctx) = 1 \<and> write_ctx ctx = read_ctx ctx \<and>
       16 dvd reserve_sz ctx \<and> iv_sz ctx + (if FLAG_GET (cc_flags ctx) CIPHER_FLAG_HMAC then hmac_sz ctx else 0) \<le> reserve_sz ctx))"
proof -
  obtain s where s: "p_ctx_init sqlcipher_ltc_setup (w_prov w) = Some (SQLITE_OK, s)" "ltc_up s"
    using activate_warm [OF assms(1-3)] by (auto simp: sqlcipher_ltc_setup_def)
  have "sqlcipher_codec_ctx_init sqlcipher_ltc_setup t (Some key) w \<noteq> None"
    by (rule codec_ctx_init_returns [OF s(1)])
  then obtain rc r w' where r: "sqlcipher_codec_ctx_init sqlcipher_ltc_setup t (Some key) w = Some (rc, r, w')" by auto
  have len: "length k < 2 ^ 31" if "Some key = Some k" for k using assms(5) that by simp
  note i = ltc.codec_ctx_init_run [OF s assms(4) len r]
  have "16 dvd reserve_sz ctx \<and> iv_sz ctx + (if FLAG_GET (cc_flags ctx) CIPHER_FLAG_HMAC then hmac_sz ctx else 0) \<le> reserve_sz ctx"
    if "ltc_wf ctx" for ctx
    using that round_up_least [of "16" "int 16 + (if FLAG_GET (cc_flags ctx) CIPHER_FLAG_HMAC then int (ltc_mac_size (hmac_algorithm ctx)) else 0)"]
    by (auto simp: codec_wf_iff sizes_wf_def reserve_of_def)
  then show ?thesis using r i by blast
qed

theorem codec_ctx_init_wf_witness:
  "\<exists>ctx w'. sqlcipher_codec_ctx_init sqlcipher_ltc_setup sample_btree (Some [97, 98, 99]) sample_world = Some (SQLITE_OK, Some ctx, w') \<and>
     ltc_wf ctx \<and> page_sz ctx = 4096"
proof -
  have "ltc_up (w_prov sample_world)" "ltc_init (w_prov sample_world) \<noteq> 0" "\<not> l_held (w_prov sample_world)" "plenty (w_heap sample_world)"
    "w_defaults sample_world = initial_defaults"
    using warm_ltc_up by (simp_all add: sample_world_def warm_ltc_def plenty_def)
  with codec_ctx_init_wf [of sample_world "[97, 98, 99]" sample_btree] sample_defaults defaults_ok_set [OF sample_defaults] show ?thesis
    by (auto simp: settled_def initial_defaults_def)
qed

text \<open>
  C14: whatever settings are changed in whatever order, a context stays well-formed, with the reserve of its current
  algorithm and flags, unless there was no memory for the buffer of a new page size: then it is
  well-formed but for that buffer, which it lacks until another page size is set.  Once a key has been used no
  setting changes anything but the size of the plaintext header.
\<close>

theorem settings_keep_wf:
  assumes "ltc_up (w_prov w)" "ltc_wf ctx" "(setting sqlcipher_ltc_setup)\<^sup>*\<^sup>* (ctx, w) (ctx', w')"
  shows "(ltc_wf ctx' \<or> cc_buffer ctx' = None \<and> \<not> plenty (w_heap w) \<and>
       ltc_wf (ctx'\<lparr>cc_buffer := Some (replicate (nat (page_sz ctx')) 0)\<rparr>)) \<and>
    (FLAG_GET (cc_flags ctx) CIPHER_FLAG_KEY_USED \<longrightarrow> ctx' = ctx\<lparr>plaintext_header_sz := plaintext_header_sz ctx'\<rparr>)"
  using ltc.settings_wf [OF assms(3,1,2)] ltc.wf_of_buffer [of ctx']
  by (cases "cc_buffer ctx'") (auto simp: with_buffer_def)

theorem settings_keep_wf_witness:
  "ltc_wf (snd (sqlcipher_codec_ctx_set_hmac_algorithm sqlcipher_ltc_setup (snd (sqlcipher_codec_ctx_set_kdf_iter sample_ctx 4000)) 0 sample_world))"
proof -
  let ?c = "snd (sqlcipher_codec_ctx_set_kdf_iter sample_ctx 4000)"
  let ?d = "snd (sqlcipher_codec_ctx_set_hmac_algorithm sqlcipher_ltc_setup ?c 0 sample_world)"
  have "setting sqlcipher_ltc_setup (sample_ctx, sample_world) (?c, sample_world)"
    by (rule setting.intros(1)) (rule prod.collapse [symmetric])
  moreover have "setting sqlcipher_ltc_setup (?c, sample_world) (?d, sample_world)"
    by (rule setting.intros(4) [of 0]) (simp add: alg_ok_def, rule prod.collapse [symmetric])
  ultimately have "(setting sqlcipher_ltc_setup)\<^sup>*\<^sup>* (sample_ctx, sample_world) (?d, sample_world)" by auto
  moreover have "ltc_up (w_prov sample_world)" "plenty (w_heap sample_world)"
    using warm_ltc_up by (simp_all add: sample_world_def plenty_def)
  ultimately show ?thesis using settings_keep_wf [OF _ sample_wf] by blast
qed

end
