(* ===== verification/KeyDerive.thy ===== *)
theory KeyDerive
  imports CodecCtx
begin

text \<open>
  The derivation of the keys of a context from its passphrase: raw keys in hexadecimal,
  PBKDF2 otherwise, and the separate key for HMAC.  Derived keys are kept under the shield mask.
\<close>

unbundle bit_operations_syntax

section \<open>The code\<close>

definition raw_key_blob :: "bytes \<Rightarrow> int \<Rightarrow> bool" where
  "raw_key_blob p sz \<longleftrightarrow>
     sz \<ge> 5 \<and> sqlite3StrNICmp p [120, 39] 2 = 0 \<and> p ! nat (sz - 1) = 39 \<and> (sz - 3) mod 2 = 0 \<and>
     cipher_isHex (drop 2 p) (nat (sz - 3))"

text \<open>The four ways to obtain the key; the flag says whether the HMAC key is still to be derived.\<close>

definition derive_key_material ::
    "'s provider \<Rightarrow> codec_ctx \<Rightarrow> cipher_ctx \<Rightarrow> bytes \<Rightarrow> 's world \<Rightarrow> int \<times> bool \<times> codec_ctx \<times> cipher_ctx \<times> 's world" where
  "derive_key_material P ctx c p w =
     (let raw_key_sz = key_sz ctx * 2;
          raw_salt_sz = kdf_salt_sz ctx * 2;
          blob_format = raw_key_blob p (pass_sz c);
          z = drop 2 p in
      if blob_format \<and> pass_sz c = raw_key_sz + 3
      then (SQLITE_OK, True, ctx, c\<lparr>ck_key := buf_write (ck_key c) 0 (cipher_hex2bin z (nat raw_key_sz))\<rparr>, w)
      else if blob_format \<and> pass_sz c = raw_key_sz + raw_salt_sz + 3
      then (SQLITE_OK, True,
            ctx\<lparr>kdf_salt := buf_write (kdf_salt ctx) 0 (cipher_hex2bin (drop (nat raw_key_sz) z) (nat raw_salt_sz))\<rparr>,
            c\<lparr>ck_key := buf_write (ck_key c) 0 (cipher_hex2bin z (nat raw_key_sz))\<rparr>, w)
      else if blob_format \<and> pass_sz c = raw_key_sz + raw_key_sz + raw_salt_sz + 3
      then (SQLITE_OK, False,
            ctx\<lparr>kdf_salt := buf_write (kdf_salt ctx) 0
                  (cipher_hex2bin (drop (nat (raw_key_sz + raw_key_sz)) z) (nat raw_salt_sz))\<rparr>,
            c\<lparr>ck_key := buf_write (ck_key c) 0 (cipher_hex2bin z (nat raw_key_sz)),
              ck_hmac_key := buf_write (ck_hmac_key c) 0 (cipher_hex2bin (drop (nat raw_key_sz) z) (nat raw_key_sz))\<rparr>, w)
      else let (rc, s, k) = p_kdf P (w_prov w) (kdf_algorithm ctx) (take (nat (pass_sz c)) p)
                 (take (nat (kdf_salt_sz ctx)) (kdf_salt ctx)) (kdf_iter ctx) (take (nat (key_sz ctx)) (ck_key c))
        in (rc, True, ctx, c\<lparr>ck_key := buf_write (ck_key c) 0 k\<rparr>, w\<lparr>w_prov := s\<rparr>))"

definition derive_hmac_key_material ::
    "'s provider \<Rightarrow> codec_ctx \<Rightarrow> cipher_ctx \<Rightarrow> 's world \<Rightarrow> int \<times> codec_ctx \<times> cipher_ctx \<times> 's world" where
  "derive_hmac_key_material P ctx c w =
     (let n = nat (kdf_salt_sz ctx);
          ctx = ctx\<lparr>hmac_kdf_salt := buf_write (hmac_kdf_salt ctx) 0 (take n (kdf_salt ctx))\<rparr>;
          ctx = ctx\<lparr>hmac_kdf_salt := fold (\<lambda>i s. s[i := s ! i XOR hmac_salt_mask (w_defaults w)]) [0..<n] (hmac_kdf_salt ctx)\<rparr>;
          (rc, s, k) = p_kdf P (w_prov w) (kdf_algorithm ctx) (take (nat (key_sz ctx)) (ck_key c))
                 (take n (hmac_kdf_salt ctx)) (fast_kdf_iter ctx) (take (nat (key_sz ctx)) (ck_hmac_key c))
      in (rc, ctx, c\<lparr>ck_hmac_key := buf_write (ck_hmac_key c) 0 k\<rparr>, w\<lparr>w_prov := s\<rparr>))"

text \<open>The label \<open>error\<close>: any derived key material is overwritten.\<close>

definition scrub_keys :: "codec_ctx \<Rightarrow> cipher_ctx \<Rightarrow> 's world \<Rightarrow> int \<times> codec_ctx \<times> cipher_ctx \<times> 's world" where
  "scrub_keys ctx c w =
     (let (k, x) = xoshiro_randomness (nat (key_sz ctx)) (w_xo w);
          (h, x) = xoshiro_randomness (nat (key_sz ctx)) x
      in (SQLITE_ERROR, ctx, c\<lparr>ck_key := buf_write (ck_key c) 0 k, ck_hmac_key := buf_write (ck_hmac_key c) 0 h\<rparr>, w\<lparr>w_xo := x\<rparr>))"

definition sqlcipher_cipher_ctx_key_derive ::
    "'s provider \<Rightarrow> codec_ctx \<Rightarrow> cipher_ctx \<Rightarrow> 's world \<Rightarrow> int \<times> codec_ctx \<times> cipher_ctx \<times> 's world" where
  "sqlcipher_cipher_ctx_key_derive P ctx c w =
     (if pass c = None \<or> pass_sz c = 0 then (SQLITE_ERROR, ctx, c, w)
      else let p = the (pass c);
               (rc, ctx, w) = (if \<not> FLAG_GET (cc_flags ctx) CIPHER_FLAG_HAS_KDF_SALT
                               then sqlcipher_codec_ctx_init_kdf_salt P ctx w else (SQLITE_OK, ctx, w)) in
        if rc \<noteq> SQLITE_OK then scrub_keys ctx c w
        else let (rc, derive_hmac_key, ctx, c, w) = derive_key_material P ctx c p w in
          if rc \<noteq> SQLITE_OK then scrub_keys ctx c w
          else let (rc, ctx, c, w) = (if FLAG_GET (cc_flags ctx) CIPHER_FLAG_HMAC \<and> derive_hmac_key
                                      then derive_hmac_key_material P ctx c w else (SQLITE_OK, ctx, c, w)) in
            if rc \<noteq> SQLITE_OK then scrub_keys ctx c w
            else let n = nat (key_sz ctx) in
              (SQLITE_OK, ctx,
               c\<lparr>ck_key := buf_write (ck_key c) 0 (sqlcipher_shield (w_mask w) (take n (ck_key c))),
                 ck_hmac_key := buf_write (ck_hmac_key c) 0 (sqlcipher_shield (w_mask w) (take n (ck_hmac_key c))),
                 derive_key := 0\<rparr>, w))"

text \<open>The derivation for both contexts: the write context, when its passphrase is the same, receives a copy.\<close>

definition derive_read_ctx :: "'s provider \<Rightarrow> codec_ctx \<Rightarrow> 's world \<Rightarrow> int \<times> codec_ctx \<times> 's world" where
  "derive_read_ctx P ctx w =
     (if derive_key (read_ctx ctx) \<noteq> 0
      then let (rc, ctx, c, w) = sqlcipher_cipher_ctx_key_derive P ctx (read_ctx ctx) w in (rc, ctx\<lparr>read_ctx := c\<rparr>, w)
      else (SQLITE_OK, ctx, w))"

definition derive_write_ctx :: "'s provider \<Rightarrow> codec_ctx \<Rightarrow> 's world \<Rightarrow> int \<times> codec_ctx \<times> 's world" where
  "derive_write_ctx P ctx w =
     (if derive_key (write_ctx ctx) \<noteq> 0
      then if sqlcipher_cipher_ctx_cmp (write_ctx ctx) (read_ctx ctx) = 0
           then let (rc, c, w) = sqlcipher_cipher_ctx_copy ctx (write_ctx ctx) (read_ctx ctx) w in (rc, ctx\<lparr>write_ctx := c\<rparr>, w)
           else let (rc, ctx, c, w) = sqlcipher_cipher_ctx_key_derive P ctx (write_ctx ctx) w in (rc, ctx\<lparr>write_ctx := c\<rparr>, w)
      else (SQLITE_OK, ctx, w))"

definition sqlcipher_codec_key_derive :: "'s provider \<Rightarrow> codec_ctx \<Rightarrow> 's world \<Rightarrow> int \<times> codec_ctx \<times> 's world" where
  "sqlcipher_codec_key_derive P ctx w =
     (let (rc, ctx, w) = derive_read_ctx P ctx w in
      if rc \<noteq> SQLITE_OK then (SQLITE_ERROR, ctx, w)
      else let (rc, ctx, w) = derive_write_ctx P ctx w in
        if rc \<noteq> SQLITE_OK then (SQLITE_ERROR, ctx, w)
        else if store_pass ctx \<noteq> 1
        then let (_, r, w) = sqlcipher_cipher_ctx_set_pass (read_ctx ctx) None w;
                 (_, t, w) = sqlcipher_cipher_ctx_set_pass (write_ctx ctx) None w
             in (SQLITE_OK, ctx\<lparr>read_ctx := r, write_ctx := t\<rparr>, w)
        else (SQLITE_OK, ctx, w))"

section \<open>What is derived\<close>

text \<open>
  The key, the key for HMAC when there is one, and the salt of the database, as functions of the passphrase,
  the salt found and the settings; \<open>F\<close> is PBKDF2 with the algorithm of the context.
\<close>

definition raw_material :: "(bytes \<Rightarrow> bytes \<Rightarrow> int \<Rightarrow> nat \<Rightarrow> bytes) \<Rightarrow> nat \<Rightarrow> int \<Rightarrow> bytes \<Rightarrow> bytes \<Rightarrow> bytes \<times> bytes option \<times> bytes" where
  "raw_material F ks iter p salt =
     (let blob = raw_key_blob p (int (length p));
          hex = (\<lambda>i n. cipher_hex2bin (drop (2 + 2 * i) p) (2 * n)) in
      if blob \<and> length p = 2 * ks + 3 then (hex 0 ks, None, salt)
      else if blob \<and> length p = 2 * (ks + 16) + 3 then (hex 0 ks, None, hex ks 16)
      else if blob \<and> length p = 2 * (ks + ks + 16) + 3 then (hex 0 ks, Some (hex ks ks), hex (ks + ks) 16)
      else (F p salt iter ks, None, salt))"

definition key_material ::
    "(bytes \<Rightarrow> bytes \<Rightarrow> int \<Rightarrow> nat \<Rightarrow> bytes) \<Rightarrow> nat \<Rightarrow> bool \<Rightarrow> int \<Rightarrow> int \<Rightarrow> byte \<Rightarrow> bytes \<Rightarrow> bytes \<Rightarrow> bytes \<times> bytes option \<times> bytes" where
  "key_material F ks use_hmac iter fast msk p salt =
     (let (K, H, S) = raw_material F ks iter p salt in
      (K, if H = None \<and> use_hmac then Some (F K (map (\<lambda>b. b XOR msk) S) fast ks) else H, S))"

lemma length_hex2bin [simp]: "length (cipher_hex2bin h n) = (n + 1) div 2"
  by (simp add: cipher_hex2bin_def)

lemma fold_xor_mask:
  "n \<le> length s \<Longrightarrow> fold (\<lambda>i s. s[i := s ! i XOR m]) [0..<n] s = map (\<lambda>b. b XOR m) (take n s) @ drop n s"
proof (induction n)
  case (Suc n)
  then show ?case
    by (simp add: nth_append list_update_append take_Suc_conv_app_nth Cons_nth_drop_Suc [symmetric])
qed simp

context crypto_provider
begin

abbreviation raw_of :: "codec_ctx \<Rightarrow> bytes \<Rightarrow> bytes \<times> bytes option \<times> bytes" where
  "raw_of ctx p \<equiv> raw_material (KDF (kdf_algorithm ctx)) key_size (kdf_iter ctx) p (kdf_salt ctx)"

lemma derive_key_material_result:
  assumes up: "up (w_prov w)" and wf: "wf ctx" and c: "cipher_ctx_wf key_size c" "pass c = Some p"
    and r: "derive_key_material P ctx c p w = (rc, d, ctx', c', w')"
  shows "served up roomy (w_prov w) (w_prov w') rc (raw_of ctx p = (ck_key c', if d then None else Some (ck_hmac_key c'), kdf_salt ctx'))"
    "w' = w\<lparr>w_prov := w_prov w'\<rparr>" "ctx' = ctx\<lparr>kdf_salt := kdf_salt ctx'\<rparr>" "length (kdf_salt ctx') = 16"
    "c' = c\<lparr>ck_key := ck_key c', ck_hmac_key := ck_hmac_key c'\<rparr>" "cipher_ctx_wf key_size c'"
proof -
  have sz: "key_sz ctx = int key_size" "kdf_salt_sz ctx = 16" "length (kdf_salt ctx) = 16" "alg_ok (kdf_algorithm ctx)"
    using wf by (simp_all add: codec_wf_iff sizes_wf_def)
  have p: "pass_sz c = int (length p)" "0 < length p" "length p < 2 ^ 31" "length (ck_key c) = key_size" "length (ck_hmac_key c) = key_size"
    using c by (simp_all add: cipher_ctx_wf_def)
  have n: "nat (int key_size * 2) = 2 * key_size" "nat (int key_size * 2 + int key_size * 2) = 2 * (key_size + key_size)"
    "nat (16 * 2) = 2 * 16" "nat (int key_size) = key_size" "nat 16 = 16" "nat (int (length p)) = length p" by simp_all
  have cond: "(int (length p) = int key_size * 2 + 3) = (length p = 2 * key_size + 3)"
    "(int (length p) = int key_size * 2 + 16 * 2 + 3) = (length p = 2 * (key_size + 16) + 3)"
    "(int (length p) = int key_size * 2 + int key_size * 2 + 16 * 2 + 3) = (length p = 2 * (key_size + key_size + 16) + 3)"
    by presburger+
  have bw: "buf_write (ck_key c) 0 (cipher_hex2bin z (2 * key_size)) = cipher_hex2bin z (2 * key_size)"
    "buf_write (ck_hmac_key c) 0 (cipher_hex2bin z (2 * key_size)) = cipher_hex2bin z (2 * key_size)"
    "buf_write (kdf_salt ctx) 0 (cipher_hex2bin z (2 * 16)) = cipher_hex2bin z (2 * 16)" for z
    using sz p by (simp_all add: buf_write_full)
  have dr: "drop (2 * key_size) (drop (2 + 2 * 0) p) = drop (2 + 2 * key_size) p" "drop 2 p = drop (2 + 2 * 0) p"
    "drop (2 * (key_size + key_size)) (drop (2 + 2 * 0) p) = drop (2 + 2 * (key_size + key_size)) p"
    by (simp_all only: drop_drop mult_0_right add_0_right add.commute [of _ 2])
  obtain rk sk k where k: "p_kdf P (w_prov w) (kdf_algorithm ctx) p (kdf_salt ctx) (kdf_iter ctx) (ck_key c) = (rk, sk, k)"
    by (rule prod_cases3)
  have kd: "served up roomy (w_prov w) sk rk (k = KDF (kdf_algorithm ctx) p (kdf_salt ctx) (kdf_iter ctx) key_size)" "length k = key_size"
    using kdf [OF up _ p(2) _ _ k] p sz by (auto simp: alg_ok_def)
  let ?hex = "\<lambda>i n. cipher_hex2bin (drop (2 + 2 * i) p) (2 * n)"
  let ?blob = "raw_key_blob p (int (length p))"
  have wfh: "cipher_ctx_wf key_size (c\<lparr>ck_key := a, ck_hmac_key := b\<rparr>)" if "length a = key_size" "length b = key_size" for a b
    using c(1) that by (simp add: cipher_ctx_wf_def)
  have eq: "derive_key_material P ctx c p w =
     (if ?blob \<and> length p = 2 * key_size + 3 then (SQLITE_OK, True, ctx, c\<lparr>ck_key := ?hex 0 key_size\<rparr>, w)
      else if ?blob \<and> length p = 2 * (key_size + 16) + 3
      then (SQLITE_OK, True, ctx\<lparr>kdf_salt := ?hex key_size 16\<rparr>, c\<lparr>ck_key := ?hex 0 key_size\<rparr>, w)
      else if ?blob \<and> length p = 2 * (key_size + key_size + 16) + 3
      then (SQLITE_OK, False, ctx\<lparr>kdf_salt := ?hex (key_size + key_size) 16\<rparr>,
            c\<lparr>ck_key := ?hex 0 key_size, ck_hmac_key := ?hex key_size key_size\<rparr>, w)
      else (rk, True, ctx, c\<lparr>ck_key := k\<rparr>, w\<lparr>w_prov := sk\<rparr>))"
  proof -
    have "take (length p) p = p" "take 16 (kdf_salt ctx) = kdf_salt ctx" "take key_size (ck_key c) = ck_key c" "buf_write (ck_key c) 0 k = k"
      using sz p kd(2) by (simp_all add: buf_write_full)
    then show ?thesis unfolding derive_key_material_def Let_def sz(1,2) p(1) n cond bw dr
      by (simp only: k prod.case)
  qed
  let ?G = "\<lambda>rc d ctx' c' w'. served up roomy (w_prov w) (w_prov w') rc (raw_of ctx p = (ck_key c', if d then None else Some (ck_hmac_key c'), kdf_salt ctx')) \<and>
    w' = w\<lparr>w_prov := w_prov w'\<rparr> \<and> ctx' = ctx\<lparr>kdf_salt := kdf_salt ctx'\<rparr> \<and> length (kdf_salt ctx') = 16 \<and>
    c' = c\<lparr>ck_key := ck_key c', ck_hmac_key := ck_hmac_key c'\<rparr> \<and> cipher_ctx_wf key_size c'"
  have sv: "served up roomy (w_prov w) (w_prov w) SQLITE_OK Q \<longleftrightarrow> Q" for Q using up by (auto simp: served_def)
  have l: "length (?hex i key_size) = key_size" "length (?hex i 16) = 16" for i by simp_all
  have cs: "cipher_ctx_wf key_size (c\<lparr>ck_key := a\<rparr>)" if "length a = key_size" for a
    using c(1) that by (simp add: cipher_ctx_wf_def)
  consider (b1) "?blob \<and> length p = 2 * key_size + 3" | (b2) "\<not> (?blob \<and> length p = 2 * key_size + 3)" "?blob \<and> length p = 2 * (key_size + 16) + 3"
    | (b3) "\<not> (?blob \<and> length p = 2 * key_size + 3)" "\<not> (?blob \<and> length p = 2 * (key_size + 16) + 3)" "?blob \<and> length p = 2 * (key_size + key_size + 16) + 3"
    | (b4) "\<not> (?blob \<and> length p = 2 * key_size + 3)" "\<not> (?blob \<and> length p = 2 * (key_size + 16) + 3)" "\<not> (?blob \<and> length p = 2 * (key_size + key_size + 16) + 3)"
    by blast
  then have "?G rc d ctx' c' w'"
  proof cases
    case b1
    then have "raw_of ctx p = (?hex 0 key_size, None, kdf_salt ctx)" unfolding raw_material_def Let_def by (rule if_P)
    moreover have "(rc, d, ctx', c', w') = (SQLITE_OK, True, ctx, c\<lparr>ck_key := ?hex 0 key_size\<rparr>, w)"
      using r unfolding eq if_P [OF b1] by (rule sym)
    ultimately show ?thesis using sv sz(3) cs by simp
  next
    case b2
    then have "raw_of ctx p = (?hex 0 key_size, None, ?hex key_size 16)" unfolding raw_material_def Let_def if_not_P [OF b2(1)] by (intro if_P)
    moreover have "(rc, d, ctx', c', w') = (SQLITE_OK, True, ctx\<lparr>kdf_salt := ?hex key_size 16\<rparr>, c\<lparr>ck_key := ?hex 0 key_size\<rparr>, w)"
      using r unfolding eq if_not_P [OF b2(1)] if_P [OF b2(2)] by (rule sym)
    ultimately show ?thesis using sv cs by simp
  next
    case b3
    then have "raw_of ctx p = (?hex 0 key_size, Some (?hex key_size key_size), ?hex (key_size + key_size) 16)"
      unfolding raw_material_def Let_def if_not_P [OF b3(1)] if_not_P [OF b3(2)] by (intro if_P)
    moreover have "(rc, d, ctx', c', w') = (SQLITE_OK, False, ctx\<lparr>kdf_salt := ?hex (key_size + key_size) 16\<rparr>,
        c\<lparr>ck_key := ?hex 0 key_size, ck_hmac_key := ?hex key_size key_size\<rparr>, w)"
      using r unfolding eq if_not_P [OF b3(1)] if_not_P [OF b3(2)] if_P [OF b3(3)] by (rule sym)
    ultimately show ?thesis using sv wfh by simp
  next
    case b4
    then have "raw_of ctx p = (KDF (kdf_algorithm ctx) p (kdf_salt ctx) (kdf_iter ctx) key_size, None, kdf_salt ctx)"
      unfolding raw_material_def Let_def if_not_P [OF b4(1)] if_not_P [OF b4(2)] by (intro if_not_P)
    then have "served up roomy (w_prov w) sk rk (raw_of ctx p = (k, None, kdf_salt ctx))" using kd(1) by (auto simp: served_def)
    moreover have "(rc, d, ctx', c', w') = (rk, True, ctx, c\<lparr>ck_key := k\<rparr>, w\<lparr>w_prov := sk\<rparr>)"
      using r unfolding eq if_not_P [OF b4(1)] if_not_P [OF b4(2)] if_not_P [OF b4(3)] by (rule sym)
    ultimately show ?thesis using sz(3) cs [OF kd(2)] by simp
  qed
  then show "served up roomy (w_prov w) (w_prov w') rc (raw_of ctx p = (ck_key c', if d then None else Some (ck_hmac_key c'), kdf_salt ctx'))"
    "w' = w\<lparr>w_prov := w_prov w'\<rparr>" "ctx' = ctx\<lparr>kdf_salt := kdf_salt ctx'\<rparr>" "length (kdf_salt ctx') = 16"
    "c' = c\<lparr>ck_key := ck_key c', ck_hmac_key := ck_hmac_key c'\<rparr>" "cipher_ctx_wf key_size c'" by blast+
qed

lemma derive_hmac_key_material_result:
  assumes up: "up (w_prov w)" and wf: "wf ctx" and c: "cipher_ctx_wf key_size c" and r: "derive_hmac_key_material P ctx c w = (rc, ctx', c', w')"
  shows "served up roomy (w_prov w) (w_prov w') rc
      (ck_hmac_key c' = KDF (kdf_algorithm ctx) (ck_key c) (map (\<lambda>b. b XOR hmac_salt_mask (w_defaults w)) (kdf_salt ctx)) (fast_kdf_iter ctx) key_size)"
    "w' = w\<lparr>w_prov := w_prov w'\<rparr>" "ctx' = ctx\<lparr>hmac_kdf_salt := hmac_kdf_salt ctx'\<rparr>" "length (hmac_kdf_salt ctx') = 16"
    "c' = c\<lparr>ck_hmac_key := ck_hmac_key c'\<rparr>" "cipher_ctx_wf key_size c'"
proof -
  have sz: "key_sz ctx = int key_size" "kdf_salt_sz ctx = 16" "length (kdf_salt ctx) = 16" "length (hmac_kdf_salt ctx) = 16" "alg_ok (kdf_algorithm ctx)"
    using wf by (simp_all add: codec_wf_iff sizes_wf_def)
  have l: "length (ck_key c) = key_size" "length (ck_hmac_key c) = key_size" using c by (simp_all add: cipher_ctx_wf_def)
  let ?m = "map (\<lambda>b. b XOR hmac_salt_mask (w_defaults w)) (kdf_salt ctx)"
  obtain rk sk k where k: "p_kdf P (w_prov w) (kdf_algorithm ctx) (ck_key c) ?m (fast_kdf_iter ctx) (ck_hmac_key c) = (rk, sk, k)"
    by (rule prod_cases3)
  have kd: "served up roomy (w_prov w) sk rk (k = KDF (kdf_algorithm ctx) (ck_key c) ?m (fast_kdf_iter ctx) key_size)" "length k = key_size"
    using kdf [OF up _ _ _ _ k] l sz sizes_pos by (auto simp: alg_ok_def)
  have m: "fold (\<lambda>i s. s[i := s ! i XOR hmac_salt_mask (w_defaults w)]) [0..<16] (kdf_salt ctx) = ?m"
    using fold_xor_mask [of 16 "kdf_salt ctx"] sz by simp
  have "derive_hmac_key_material P ctx c w = (rk, ctx\<lparr>hmac_kdf_salt := ?m\<rparr>, c\<lparr>ck_hmac_key := k\<rparr>, w\<lparr>w_prov := sk\<rparr>)"
  proof -
    have "nat 16 = 16" "nat (int key_size) = key_size" "take 16 (kdf_salt ctx) = kdf_salt ctx" "take 16 ?m = ?m"
      "buf_write (hmac_kdf_salt ctx) 0 (kdf_salt ctx) = kdf_salt ctx" "take key_size (ck_key c) = ck_key c"
      "take key_size (ck_hmac_key c) = ck_hmac_key c" "buf_write (ck_hmac_key c) 0 k = k"
      using sz l kd(2) by (simp_all add: buf_write_full)
    then show ?thesis unfolding derive_hmac_key_material_def Let_def sz(1,2)
      by (simp add: k m sz del: upt_rec_numeral)
  qed
  then have e: "rc = rk" "ctx' = ctx\<lparr>hmac_kdf_salt := ?m\<rparr>" "c' = c\<lparr>ck_hmac_key := k\<rparr>" "w' = w\<lparr>w_prov := sk\<rparr>" using r by auto
  show "served up roomy (w_prov w) (w_prov w') rc
      (ck_hmac_key c' = KDF (kdf_algorithm ctx) (ck_key c) ?m (fast_kdf_iter ctx) key_size)" using kd by (simp add: e)
  show "w' = w\<lparr>w_prov := w_prov w'\<rparr>" "ctx' = ctx\<lparr>hmac_kdf_salt := hmac_kdf_salt ctx'\<rparr>" "length (hmac_kdf_salt ctx') = 16"
    "c' = c\<lparr>ck_hmac_key := ck_hmac_key c'\<rparr>" using sz by (simp_all add: e)
  show "cipher_ctx_wf key_size c'" using c kd(2) by (simp add: e cipher_ctx_wf_def)
qed

end

text \<open>A cipher context holds a key and a key for HMAC under the mask.\<close>

definition holds_keys :: "bytes \<Rightarrow> bytes \<times> bytes option \<Rightarrow> cipher_ctx \<Rightarrow> bool" where
  "holds_keys msk KH c \<longleftrightarrow> derive_key c = 0 \<and> sqlcipher_shield msk (ck_key c) = fst KH \<and>
     (\<forall>h. snd KH = Some h \<longrightarrow> sqlcipher_shield msk (ck_hmac_key c) = h)"

text \<open>Both keys overwritten from xoshiro.\<close>

definition scrubbed :: "nat \<Rightarrow> xoshiro \<Rightarrow> cipher_ctx \<Rightarrow> bool" where
  "scrubbed ks x c \<longleftrightarrow> (let (k, x) = xoshiro_randomness ks x; (h, _) = xoshiro_randomness ks x in ck_key c = k \<and> ck_hmac_key c = h)"

lemma scrub_result:
  assumes "key_sz ctx = int ks" "cipher_ctx_wf ks c" "scrub_keys ctx c w = (rc, ctx', c', w')"
  shows "rc = SQLITE_ERROR \<and> ctx' = ctx \<and> cipher_ctx_wf ks c' \<and> scrubbed ks (w_xo w) c' \<and> derive_key c' = derive_key c \<and>
    pass c' = pass c \<and> w' = w\<lparr>w_xo := w_xo w'\<rparr>"
proof -
  obtain k x where k: "xoshiro_randomness ks (w_xo w) = (k, x)" by (rule prod.exhaust)
  obtain h y where h: "xoshiro_randomness ks x = (h, y)" by (rule prod.exhaust)
  have "length k = ks" "length h = ks" using length_xoshiro [of ks "w_xo w"] length_xoshiro [of ks x] k h by simp_all
  then show ?thesis using assms k h by (auto simp: scrub_keys_def scrubbed_def cipher_ctx_wf_def buf_write_full)
qed

text \<open>Only the salts and the flag of the salt change.\<close>

definition salts_only :: "codec_ctx \<Rightarrow> codec_ctx \<Rightarrow> bool" where
  "salts_only ctx ctx' \<longleftrightarrow> (\<exists>s h f. ctx' = ctx\<lparr>kdf_salt := s, hmac_kdf_salt := h, cc_flags := f\<rparr> \<and> length s = 16 \<and> length h = 16 \<and>
     (f = cc_flags ctx \<or> f = FLAG_SET (cc_flags ctx) CIPHER_FLAG_HAS_KDF_SALT))"

lemma FLAG_SET_twice [simp]: "FLAG_SET (FLAG_SET f b) b = FLAG_SET f b"
  by (simp add: FLAG_SET_def or.assoc)

lemma salts_only_trans [trans]: "salts_only a b \<Longrightarrow> salts_only b c \<Longrightarrow> salts_only a c"
  unfolding salts_only_def by (elim exE conjE) (rule exI, rule exI, rule exI, auto)

lemma salts_only_upd:
  assumes "length (kdf_salt ctx) = 16" "length (hmac_kdf_salt ctx) = 16"
  shows "salts_only ctx ctx" "length s = 16 \<Longrightarrow> salts_only ctx (ctx\<lparr>kdf_salt := s\<rparr>)" "length s = 16 \<Longrightarrow> salts_only ctx (ctx\<lparr>hmac_kdf_salt := s\<rparr>)"
    "length s = 16 \<Longrightarrow> salts_only ctx (ctx\<lparr>kdf_salt := s, cc_flags := FLAG_SET (cc_flags ctx) CIPHER_FLAG_HAS_KDF_SALT\<rparr>)"
proof -
  have i: "salts_only ctx (ctx\<lparr>kdf_salt := s, hmac_kdf_salt := h, cc_flags := f\<rparr>)"
    if "length s = 16" "length h = 16" "f = cc_flags ctx \<or> f = FLAG_SET (cc_flags ctx) CIPHER_FLAG_HAS_KDF_SALT" for s h f
    using that unfolding salts_only_def by blast
  show "salts_only ctx ctx" using i [OF assms, of "cc_flags ctx"] by simp
  show "length s = 16 \<Longrightarrow> salts_only ctx (ctx\<lparr>kdf_salt := s\<rparr>)" using i [OF _ assms(2), of s "cc_flags ctx"] by simp
  show "length s = 16 \<Longrightarrow> salts_only ctx (ctx\<lparr>hmac_kdf_salt := s\<rparr>)" using i [OF assms(1), of s "cc_flags ctx"] by simp
  show "length s = 16 \<Longrightarrow> salts_only ctx (ctx\<lparr>kdf_salt := s, cc_flags := FLAG_SET (cc_flags ctx) CIPHER_FLAG_HAS_KDF_SALT\<rparr>)"
    using i [OF _ assms(2), of s "FLAG_SET (cc_flags ctx) CIPHER_FLAG_HAS_KDF_SALT"] by simp
qed

lemma salts_onlyD:
  assumes "salts_only ctx ctx'"
  shows "codec_wf ks ivs bs ms ctx \<Longrightarrow> codec_wf ks ivs bs ms ctx'" "kdf_algorithm ctx' = kdf_algorithm ctx" "kdf_iter ctx' = kdf_iter ctx"
    "fast_kdf_iter ctx' = fast_kdf_iter ctx" "store_pass ctx' = store_pass ctx" "pBt ctx' = pBt ctx" "cc_error ctx' = cc_error ctx"
    "read_ctx ctx' = read_ctx ctx" "write_ctx ctx' = write_ctx ctx" "n < 32 \<Longrightarrow> n \<noteq> 4 \<Longrightarrow> bit (cc_flags ctx') n = bit (cc_flags ctx) n"
    "n < 32 \<Longrightarrow> bit (cc_flags ctx) n \<Longrightarrow> bit (cc_flags ctx') n"
  using assms by (auto simp: salts_only_def codec_wf_iff sizes_wf_def reserve_of_def)

text \<open>What one derivation achieves; \<open>KDF\<close> is PBKDF2 by algorithm, \<open>ks\<close> the size of keys.\<close>

abbreviation material_of :: "(int \<Rightarrow> bytes \<Rightarrow> bytes \<Rightarrow> int \<Rightarrow> nat \<Rightarrow> bytes) \<Rightarrow> nat \<Rightarrow> byte \<Rightarrow> codec_ctx \<Rightarrow> bytes \<Rightarrow> bytes \<Rightarrow> bytes \<times> bytes option \<times> bytes" where
  "material_of KDF ks msk ctx p salt \<equiv> key_material (KDF (kdf_algorithm ctx)) ks (FLAG_GET (cc_flags ctx) CIPHER_FLAG_HMAC)
     (kdf_iter ctx) (fast_kdf_iter ctx) msk p salt"

text \<open>The salt is the one the context has, or else the one at the start of the file when it can be read.\<close>

definition salt_source :: "codec_ctx \<Rightarrow> bytes \<Rightarrow> bool" where
  "salt_source ctx salt \<longleftrightarrow> length salt = 16 \<and>
     (if FLAG_GET (cc_flags ctx) CIPHER_FLAG_HAS_KDF_SALT then salt = kdf_salt ctx
      else bt_open (pBt ctx) \<and> fst (bt_read (pBt ctx) (kdf_salt ctx)) = SQLITE_OK \<longrightarrow> salt = snd (bt_read (pBt ctx) (kdf_salt ctx)))"

definition derived :: "(int \<Rightarrow> bytes \<Rightarrow> bytes \<Rightarrow> int \<Rightarrow> nat \<Rightarrow> bytes) \<Rightarrow> nat \<Rightarrow> 's world \<Rightarrow> codec_ctx \<Rightarrow> bytes \<Rightarrow> codec_ctx \<Rightarrow> cipher_ctx \<Rightarrow> bool" where
  "derived KDF ks w ctx p ctx' c' \<longleftrightarrow> (\<exists>salt K H. salt_source ctx salt \<and>
     material_of KDF ks (hmac_salt_mask (w_defaults w)) ctx p salt = (K, H, kdf_salt ctx') \<and> holds_keys (w_mask w) (K, H) c' \<and>
     FLAG_GET (cc_flags ctx') CIPHER_FLAG_HAS_KDF_SALT)"

text \<open>Only the state of the provider and of xoshiro change.\<close>

definition prov_only :: "'s world \<Rightarrow> 's world \<Rightarrow> bool" where
  "prov_only w w' \<longleftrightarrow> (\<exists>s x. w' = w\<lparr>w_prov := s, w_xo := x\<rparr>)"

lemma prov_only_trans [trans]: "prov_only u v \<Longrightarrow> prov_only v w \<Longrightarrow> prov_only u w"
  unfolding prov_only_def by (elim exE) (rule exI, rule exI, simp)

lemma prov_only_upd: "prov_only w w" "prov_only w (w\<lparr>w_prov := s\<rparr>)" "prov_only w (w\<lparr>w_xo := x\<rparr>)"
proof -
  have i: "prov_only w (w\<lparr>w_prov := s, w_xo := x\<rparr>)" for s x unfolding prov_only_def by blast
  show "prov_only w w" using i [of "w_xo w" "w_prov w"] by simp
  show "prov_only w (w\<lparr>w_prov := s\<rparr>)" using i [of "w_xo w" s] by simp
  show "prov_only w (w\<lparr>w_xo := x\<rparr>)" using i [of x "w_prov w"] by simp
qed

lemma prov_onlyD:
  assumes "prov_only w w'"
  shows "w_heap w' = w_heap w" "w_mask w' = w_mask w" "w_defaults w' = w_defaults w"
  using assms by (auto simp: prov_only_def)

context crypto_provider
begin

lemma init_kdf_salt_read:
  assumes "wf ctx" "btree_ok (pBt ctx)" "\<not> bit (cc_flags ctx) 4" "bt_open (pBt ctx)" "fst (bt_read (pBt ctx) (kdf_salt ctx)) = SQLITE_OK"
  shows "sqlcipher_codec_ctx_init_kdf_salt P ctx w =
    (SQLITE_OK, ctx\<lparr>kdf_salt := snd (bt_read (pBt ctx) (kdf_salt ctx)), cc_flags := FLAG_SET (cc_flags ctx) CIPHER_FLAG_HAS_KDF_SALT\<rparr>, w)"
proof -
  have l: "nat (kdf_salt_sz ctx) = 16" "length (kdf_salt ctx) = 16" using assms(1) by (simp_all add: codec_wf_iff sizes_wf_def)
  obtain salt where r: "bt_read (pBt ctx) (kdf_salt ctx) = (SQLITE_OK, salt)" using assms(5) by (metis prod.collapse)
  have "length salt = 16" using assms(2) r l(2) unfolding btree_ok_def by (metis snd_conv)
  then show ?thesis using assms(3,4) r l by (simp add: sqlcipher_codec_ctx_init_kdf_salt_def buf_write_full)
qed

lemma find_salt_result:
  assumes up: "up (w_prov w)" and wf: "wf ctx" "btree_ok (pBt ctx)"
    and r: "(if \<not> FLAG_GET (cc_flags ctx) CIPHER_FLAG_HAS_KDF_SALT then sqlcipher_codec_ctx_init_kdf_salt P ctx w
      else (SQLITE_OK, ctx, w)) = (rc, ctx', w')"
  shows "salts_only ctx ctx'" "up (w_prov w')" "prov_only w w'" "w_xo w' = w_xo w" "roomy (w_prov w) \<Longrightarrow> roomy (w_prov w') \<and> rc = SQLITE_OK"
    "rc = SQLITE_OK \<Longrightarrow> salt_source ctx (kdf_salt ctx')" "rc = SQLITE_OK \<Longrightarrow> bit (cc_flags ctx') 4"
proof -
  have l: "length (kdf_salt ctx) = 16" "length (hmac_kdf_salt ctx) = 16" using wf(1) by (simp_all add: codec_wf_iff sizes_wf_def)
  have "salts_only ctx ctx' \<and> up (w_prov w') \<and> prov_only w w' \<and> w_xo w' = w_xo w \<and> (roomy (w_prov w) \<longrightarrow> roomy (w_prov w') \<and> rc = SQLITE_OK) \<and>
    (rc = SQLITE_OK \<longrightarrow> salt_source ctx (kdf_salt ctx')) \<and> (rc = SQLITE_OK \<longrightarrow> bit (cc_flags ctx') 4)"
  proof (cases "bit (cc_flags ctx) 4")
    case True
    then show ?thesis using r up salts_only_upd(1) [OF l] prov_only_upd(1) [of w] l(1) by (auto simp: salt_source_def)
  next
    case False
    then have i: "sqlcipher_codec_ctx_init_kdf_salt P ctx w = (rc, ctx', w')" using r by simp
    note res = init_kdf_salt_result [OF up wf i]
    obtain salt where salt: "ctx' = ctx\<lparr>kdf_salt := salt, cc_flags := cc_flags ctx'\<rparr>" "length salt = 16"
      "cc_flags ctx' = (if rc = SQLITE_OK then FLAG_SET (cc_flags ctx) CIPHER_FLAG_HAS_KDF_SALT else cc_flags ctx)" using res(1) by blast
    have "salts_only ctx ctx'"
    proof (cases "rc = SQLITE_OK")
      case True
      then have "ctx' = ctx\<lparr>kdf_salt := salt, cc_flags := FLAG_SET (cc_flags ctx) CIPHER_FLAG_HAS_KDF_SALT\<rparr>" using salt by simp
      then show ?thesis using salts_only_upd(4) [OF l salt(2)] by simp
    next
      case False
      then have "cc_flags ctx' = cc_flags ctx" using salt(3) by simp
      with salt(1) have "ctx' = ctx\<lparr>kdf_salt := salt\<rparr>" by simp
      then show ?thesis using salts_only_upd(2) [OF l salt(2)] by simp
    qed
    moreover have "prov_only w w'" by (subst res(2)) (rule prov_only_upd)
    moreover have "w_xo w' = w_xo w" by (subst res(2)) simp
    moreover have "salt_source ctx (kdf_salt ctx')"
    proof -
      have "length (kdf_salt ctx') = 16" by (subst salt(1)) (simp add: salt(2))
      moreover have "kdf_salt ctx' = snd (bt_read (pBt ctx) (kdf_salt ctx))" if "bt_open (pBt ctx)" "fst (bt_read (pBt ctx) (kdf_salt ctx)) = SQLITE_OK"
        using init_kdf_salt_read [OF wf False that, of w] i by auto
      ultimately show ?thesis using False by (simp add: salt_source_def)
    qed
    ultimately show ?thesis using res(3,5) salt(3) False by simp
  qed
  then show "salts_only ctx ctx'" "up (w_prov w')" "prov_only w w'" "w_xo w' = w_xo w" "roomy (w_prov w) \<Longrightarrow> roomy (w_prov w') \<and> rc = SQLITE_OK"
    "rc = SQLITE_OK \<Longrightarrow> salt_source ctx (kdf_salt ctx')" "rc = SQLITE_OK \<Longrightarrow> bit (cc_flags ctx') 4" by blast+
qed

lemma key_derive_result:
  assumes up: "up (w_prov w)" and wf: "wf ctx" "btree_ok (pBt ctx)" and c: "cipher_ctx_wf key_size c" "pass c = Some p"
    and r: "sqlcipher_cipher_ctx_key_derive P ctx c w = (rc, ctx', c', w')"
  shows "salts_only ctx ctx' \<and> cipher_ctx_wf key_size c' \<and> pass c' = pass c \<and> up (w_prov w') \<and> prov_only w w' \<and>
    (roomy (w_prov w) \<longrightarrow> roomy (w_prov w') \<and> rc = SQLITE_OK) \<and>
    (rc = SQLITE_OK \<and> derived KDF key_size w ctx p ctx' c' \<or> rc = SQLITE_ERROR \<and> scrubbed key_size (w_xo w) c' \<and> derive_key c' = derive_key c)"
proof -
  have pz: "pass_sz c \<noteq> 0" "the (pass c) = p" "pass c \<noteq> None" using c by (auto simp: cipher_ctx_wf_def)
  obtain rc1 x1 w1 where 1: "(if \<not> FLAG_GET (cc_flags ctx) CIPHER_FLAG_HAS_KDF_SALT then sqlcipher_codec_ctx_init_kdf_salt P ctx w
    else (SQLITE_OK, ctx, w)) = (rc1, x1, w1)" by (rule prod_cases3)
  note s1 = find_salt_result [OF up wf 1]
  have wf1: "wf x1" using salts_onlyD(1) [OF s1(1) wf(1)] .
  obtain rc2 d x2 c2 w2 where 2: "derive_key_material P x1 c p w1 = (rc2, d, x2, c2, w2)" by (metis prod_cases5)
  note m = derive_key_material_result [OF s1(2) wf1 c 2]
  have l1: "length (kdf_salt x1) = 16" "length (hmac_kdf_salt x1) = 16" using wf1 by (simp_all add: codec_wf_iff sizes_wf_def)
  have so2: "salts_only x1 x2" by (subst m(3)) (rule salts_only_upd(2) [OF l1 m(4)])
  have wf2: "wf x2" using salts_onlyD(1) [OF so2 wf1] .
  have up2: "up (w_prov w2)" using m(1) by (simp add: served_def)
  have po2: "prov_only w w2" "w_xo w2 = w_xo w" "w_mask w2 = w_mask w" "w_defaults w2 = w_defaults w"
  proof -
    have "prov_only w1 w2" by (subst m(2)) (rule prov_only_upd)
    then show po: "prov_only w w2" using prov_only_trans [OF s1(3)] by blast
    have "w_xo w2 = w_xo w1" by (subst m(2)) simp
    then show "w_xo w2 = w_xo w" using s1(4) by simp
    show "w_mask w2 = w_mask w" "w_defaults w2 = w_defaults w" using prov_onlyD [OF po] by auto
  qed
  obtain rc3 x3 c3 w3 where 3: "(if FLAG_GET (cc_flags x2) CIPHER_FLAG_HMAC \<and> d then derive_hmac_key_material P x2 c2 w2
    else (SQLITE_OK, x2, c2, w2)) = (rc3, x3, c3, w3)" by (metis prod_cases4)
  have s3: "salts_only x2 x3 \<and> up (w_prov w3) \<and> prov_only w w3 \<and> w_xo w3 = w_xo w \<and> (roomy (w_prov w2) \<longrightarrow> roomy (w_prov w3) \<and> rc3 = SQLITE_OK) \<and>
      kdf_salt x3 = kdf_salt x2 \<and> cc_flags x3 = cc_flags x2 \<and> c3 = c2\<lparr>ck_hmac_key := ck_hmac_key c3\<rparr> \<and> cipher_ctx_wf key_size c3 \<and>
      (rc3 = SQLITE_OK \<longrightarrow> ck_hmac_key c3 = (if bit (cc_flags x2) 0 \<and> d then KDF (kdf_algorithm x2) (ck_key c2)
        (map (\<lambda>b. b XOR hmac_salt_mask (w_defaults w)) (kdf_salt x2)) (fast_kdf_iter x2) key_size else ck_hmac_key c2))"
  proof (cases "bit (cc_flags x2) 0 \<and> d")
    case False
    have l2: "length (kdf_salt x2) = 16" "length (hmac_kdf_salt x2) = 16" using wf2 by (simp_all add: codec_wf_iff sizes_wf_def)
    have "(SQLITE_OK, x2, c2, w2) = (rc3, x3, c3, w3)" using 3 False by (simp only: FLAG_GET_bit if_False)
    then show ?thesis using False up2 po2 m(6) salts_only_upd(1) [OF l2] by auto
  next
    case True
    have l2: "length (kdf_salt x2) = 16" "length (hmac_kdf_salt x2) = 16" using wf2 by (simp_all add: codec_wf_iff sizes_wf_def)
    have h: "derive_hmac_key_material P x2 c2 w2 = (rc3, x3, c3, w3)" using 3 True by simp
    note hm = derive_hmac_key_material_result [OF up2 wf2 m(6) h]
    have "salts_only x2 x3" by (subst hm(3)) (rule salts_only_upd(3) [OF l2 hm(4)])
    moreover have "kdf_salt x3 = kdf_salt x2" "cc_flags x3 = cc_flags x2" by (subst hm(3), simp)+
    moreover have "prov_only w2 w3" by (subst hm(2)) (rule prov_only_upd)
    moreover have "w_xo w3 = w_xo w2" by (subst hm(2)) simp
    ultimately show ?thesis using hm(1,5,6) True po2 prov_only_trans [OF po2(1)] by (auto simp: served_def)
  qed
  have step: "sqlcipher_cipher_ctx_key_derive P ctx c w = (if rc1 \<noteq> SQLITE_OK then scrub_keys x1 c w1 else if rc2 \<noteq> SQLITE_OK then scrub_keys x2 c2 w2
    else if rc3 \<noteq> SQLITE_OK then scrub_keys x3 c3 w3 else let n = nat (key_sz x3) in
              (SQLITE_OK, x3,
               c3\<lparr>ck_key := buf_write (ck_key c3) 0 (sqlcipher_shield (w_mask w3) (take n (ck_key c3))),
                 ck_hmac_key := buf_write (ck_hmac_key c3) 0 (sqlcipher_shield (w_mask w3) (take n (ck_hmac_key c3))),
                 derive_key := 0\<rparr>, w3))"
    using pz(1,3) unfolding sqlcipher_cipher_ctx_key_derive_def pz(2) by (simp only: 1 2 3 Let_def prod.case if_False de_Morgan_disj simp_thms)
  let ?G = "salts_only ctx ctx' \<and> cipher_ctx_wf key_size c' \<and> pass c' = pass c \<and> up (w_prov w') \<and> prov_only w w' \<and>
    (roomy (w_prov w) \<longrightarrow> roomy (w_prov w') \<and> rc = SQLITE_OK) \<and>
    (rc = SQLITE_OK \<and> derived KDF key_size w ctx p ctx' c' \<or> rc = SQLITE_ERROR \<and> scrubbed key_size (w_xo w) c' \<and> derive_key c' = derive_key c)"
  have so: "salts_only ctx x2" "salts_only ctx x3" using salts_only_trans [OF s1(1) so2] s3 salts_only_trans by blast+
  have wf3: "wf x3" using salts_onlyD(1) [OF so(2) wf(1)] .
  have cc: "pass c2 = pass c" "derive_key c2 = derive_key c" "pass c3 = pass c" "derive_key c3 = derive_key c" "ck_key c3 = ck_key c2"
  proof -
    show c2: "pass c2 = pass c" "derive_key c2 = derive_key c" by (subst m(5), simp)+
    have "c3 = c2\<lparr>ck_hmac_key := ck_hmac_key c3\<rparr>" using s3 by blast
    then obtain h where "c3 = c2\<lparr>ck_hmac_key := h\<rparr>" by blast
    then show "pass c3 = pass c" "derive_key c3 = derive_key c" "ck_key c3 = ck_key c2" using c2 by simp_all
  qed
  have fail: ?G if "scrub_keys x k v = (rc, ctx', c', w')" "salts_only ctx x" "wf x" "cipher_ctx_wf key_size k" "pass k = pass c"
    "derive_key k = derive_key c" "up (w_prov v)" "prov_only w v" "w_xo v = w_xo w" "\<not> roomy (w_prov w)" for x k v
  proof -
    note sc = scrub_result [OF key_sz_wf [OF that(3)] that(4,1)]
    have w': "w' = v\<lparr>w_xo := w_xo w'\<rparr>" using sc by blast
    have "prov_only v w'" by (subst w') (rule prov_only_upd)
    moreover have "w_prov w' = w_prov v" by (subst w') simp
    ultimately show ?thesis using sc that prov_only_trans [OF that(8)] by auto
  qed
  consider "rc1 \<noteq> SQLITE_OK" | "rc1 = SQLITE_OK" "rc2 \<noteq> SQLITE_OK" | "rc1 = SQLITE_OK" "rc2 = SQLITE_OK" "rc3 \<noteq> SQLITE_OK"
    | "rc1 = SQLITE_OK" "rc2 = SQLITE_OK" "rc3 = SQLITE_OK" by blast
  then show ?thesis
  proof cases
    case 1
    then show ?thesis using step r s1 wf1 c by (intro fail [of x1 c w1]) auto
  next
    case 2
    then show ?thesis using step r s1 m(1,6) so wf2 cc up2 po2 by (intro fail [of x2 c2 w2]) (auto simp: served_def)
  next
    case 3
    then show ?thesis using step r s1 m(1) s3 so wf3 cc by (intro fail [of x3 c3 w3]) (auto simp: served_def)
  next
    case 4
    have mk: "w_mask w3 = w_mask w" using s3 prov_onlyD by blast
    have l3: "length (ck_key c3) = key_size" "length (ck_hmac_key c3) = key_size" using s3 by (simp_all add: cipher_ctx_wf_def)
    define k where "k = c3\<lparr>ck_key := sqlcipher_shield (w_mask w) (ck_key c3), ck_hmac_key := sqlcipher_shield (w_mask w) (ck_hmac_key c3), derive_key := 0\<rparr>"
    have e: "rc = SQLITE_OK" "ctx' = x3" "c' = k" "w' = w3"
      using r 4 step key_sz_wf [OF wf3] l3 mk by (simp_all add: k_def buf_write_full)
    have kw: "cipher_ctx_wf key_size k" "pass k = pass c" using s3 l3 cc by (simp_all add: cipher_ctx_wf_def k_def)
    have eqs: "kdf_algorithm x1 = kdf_algorithm ctx" "kdf_iter x1 = kdf_iter ctx" "kdf_algorithm x2 = kdf_algorithm ctx"
      "fast_kdf_iter x2 = fast_kdf_iter ctx" "bit (cc_flags x2) 0 = bit (cc_flags ctx) 0"
      using salts_onlyD [OF s1(1)] salts_onlyD [OF so(1)] by simp_all
    have raw: "raw_of x1 p = (ck_key c2, if d then None else Some (ck_hmac_key c2), kdf_salt x2)" using m(1) 4 by (simp add: served_def)
    define H where "H = (if d then if bit (cc_flags ctx) 0 then Some (ck_hmac_key c3) else None else Some (ck_hmac_key c3))"
    have "material_of KDF key_size (hmac_salt_mask (w_defaults w)) ctx p (kdf_salt x1) = (ck_key c3, H, kdf_salt x3)"
      using raw s3 4 eqs cc unfolding key_material_def H_def by (simp split: if_splits)
    moreover have "holds_keys (w_mask w) (ck_key c3, H) k" by (simp add: holds_keys_def k_def H_def)
    moreover have "bit (cc_flags x3) 4" using s1(7) 4 salts_onlyD(11) [OF so2, of 4] s3 by simp
    ultimately have "derived KDF key_size w ctx p x3 k"
      unfolding derived_def using s1(6) 4(1) by (intro exI [of _ "kdf_salt x1"] exI [of _ "ck_key c3"] exI [of _ H]) simp
    then show ?thesis using e kw so s3 m(1) s1(5) by (auto simp: served_def)
  qed
qed

end

section \<open>Both contexts\<close>

text \<open>The salts, the flag of the salt and the cipher contexts may change; and of the world what the operations consume.\<close>

definition keyed :: "codec_ctx \<Rightarrow> codec_ctx \<Rightarrow> bool" where
  "keyed ctx ctx' \<longleftrightarrow> (\<exists>s h f r t. ctx' = ctx\<lparr>kdf_salt := s, hmac_kdf_salt := h, cc_flags := f, read_ctx := r, write_ctx := t\<rparr> \<and>
     (f = cc_flags ctx \<or> f = FLAG_SET (cc_flags ctx) CIPHER_FLAG_HAS_KDF_SALT))"

definition consumed :: "'s world \<Rightarrow> 's world \<Rightarrow> bool" where
  "consumed w w' \<longleftrightarrow> (\<exists>s m x. w' = w\<lparr>w_prov := s, w_heap := m, w_xo := x\<rparr>) \<and> (plenty (w_heap w) \<longrightarrow> plenty (w_heap w'))"

lemma keyed_refl [simp]: "keyed ctx ctx"
proof -
  have "ctx = ctx\<lparr>kdf_salt := kdf_salt ctx, hmac_kdf_salt := hmac_kdf_salt ctx, cc_flags := cc_flags ctx, read_ctx := read_ctx ctx, write_ctx := write_ctx ctx\<rparr>" by simp
  then show ?thesis unfolding keyed_def by blast
qed

lemma keyed_trans [trans]: "keyed a b \<Longrightarrow> keyed b c \<Longrightarrow> keyed a c"
  unfolding keyed_def by (elim exE conjE) (rule exI, rule exI, rule exI, rule exI, rule exI, auto)

lemma keyed_ctx:
  assumes "keyed ctx ctx'"
  shows "keyed ctx (ctx'\<lparr>read_ctx := r\<rparr>)" "keyed ctx (ctx'\<lparr>write_ctx := t\<rparr>)"
proof -
  obtain s h f r' t' where e: "ctx' = ctx\<lparr>kdf_salt := s, hmac_kdf_salt := h, cc_flags := f, read_ctx := r', write_ctx := t'\<rparr>"
    "f = cc_flags ctx \<or> f = FLAG_SET (cc_flags ctx) CIPHER_FLAG_HAS_KDF_SALT" using assms unfolding keyed_def by blast
  have "ctx'\<lparr>read_ctx := r\<rparr> = ctx\<lparr>kdf_salt := s, hmac_kdf_salt := h, cc_flags := f, read_ctx := r, write_ctx := t'\<rparr>"
    "ctx'\<lparr>write_ctx := t\<rparr> = ctx\<lparr>kdf_salt := s, hmac_kdf_salt := h, cc_flags := f, read_ctx := r', write_ctx := t\<rparr>" by (simp_all add: e(1))
  then show "keyed ctx (ctx'\<lparr>read_ctx := r\<rparr>)" "keyed ctx (ctx'\<lparr>write_ctx := t\<rparr>)" unfolding keyed_def using e(2) by blast+
qed

lemma keyed_salts: "salts_only ctx ctx' \<Longrightarrow> keyed ctx ctx'"
proof -
  assume "salts_only ctx ctx'"
  then obtain s h f where e: "ctx' = ctx\<lparr>kdf_salt := s, hmac_kdf_salt := h, cc_flags := f\<rparr>"
    "f = cc_flags ctx \<or> f = FLAG_SET (cc_flags ctx) CIPHER_FLAG_HAS_KDF_SALT" unfolding salts_only_def by blast
  then have "ctx' = ctx\<lparr>kdf_salt := s, hmac_kdf_salt := h, cc_flags := f, read_ctx := read_ctx ctx, write_ctx := write_ctx ctx\<rparr>" by simp
  then show ?thesis unfolding keyed_def using e(2) by blast
qed

lemma keyedD:
  assumes "keyed ctx ctx'"
  shows "page_sz ctx' = page_sz ctx" "reserve_sz ctx' = reserve_sz ctx" "plaintext_header_sz ctx' = plaintext_header_sz ctx"
    "cc_error ctx' = cc_error ctx" "pBt ctx' = pBt ctx" "cc_buffer ctx' = cc_buffer ctx" "store_pass ctx' = store_pass ctx"
    "hmac_algorithm ctx' = hmac_algorithm ctx" "n < 32 \<Longrightarrow> n \<noteq> 4 \<Longrightarrow> bit (cc_flags ctx') n = bit (cc_flags ctx) n"
    "kdf_algorithm ctx' = kdf_algorithm ctx"
  using assms by (auto simp: keyed_def)

lemma consumed_trans [trans]: "consumed a b \<Longrightarrow> consumed b c \<Longrightarrow> consumed a c"
  unfolding consumed_def by (elim exE conjE, intro conjI) (rule exI, rule exI, rule exI, simp_all)

lemma consumed_prov: "prov_only w w' \<Longrightarrow> consumed w w'"
proof -
  assume "prov_only w w'"
  then obtain s x where "w' = w\<lparr>w_prov := s, w_xo := x\<rparr>" unfolding prov_only_def by blast
  then have "w' = w\<lparr>w_prov := s, w_heap := w_heap w, w_xo := x\<rparr>" by simp
  then show ?thesis unfolding consumed_def by fastforce
qed

lemma consumed_heap: "heap_only w w' \<Longrightarrow> consumed w w'"
proof -
  assume h: "heap_only w w'"
  then obtain m where "w' = w\<lparr>w_heap := m\<rparr>" unfolding heap_only_def by blast
  then have "w' = w\<lparr>w_prov := w_prov w, w_heap := m, w_xo := w_xo w\<rparr>" by simp
  then show ?thesis using heap_onlyD(5) [OF h] unfolding consumed_def by blast
qed

lemma consumed_refl [simp]: "consumed w w"
  by (rule consumed_heap) simp

lemma consumedD:
  assumes "consumed w w'"
  shows "w_mask w' = w_mask w" "w_defaults w' = w_defaults w" "plenty (w_heap w) \<Longrightarrow> plenty (w_heap w')"
  using assms by (auto simp: consumed_def)

lemma cmp_same: "pass_sz c = pass_sz d \<Longrightarrow> pass c = pass d \<Longrightarrow> sqlcipher_cipher_ctx_cmp c d = 0"
  by (simp add: sqlcipher_cipher_ctx_cmp_def sqlcipher_memcmp_iff)

lemma key_derive_no_pass: "pass c = None \<Longrightarrow> sqlcipher_cipher_ctx_key_derive P ctx c w = (SQLITE_ERROR, ctx, c, w)"
  by (simp add: sqlcipher_cipher_ctx_key_derive_def)

lemma set_pass_none: "sqlcipher_cipher_ctx_set_pass c None w = (SQLITE_OK, c\<lparr>pass := None, pass_sz := 0\<rparr>, w)"
  by (simp add: sqlcipher_cipher_ctx_set_pass_def)

lemma derived_cong:
  "kdf_salt x' = kdf_salt x \<Longrightarrow> cc_flags x' = cc_flags x \<Longrightarrow> derive_key d = derive_key c \<Longrightarrow> ck_key d = ck_key c \<Longrightarrow> ck_hmac_key d = ck_hmac_key c \<Longrightarrow>
   derived KDF ks w ctx p x' d = derived KDF ks w ctx p x c"
  by (simp add: derived_def holds_keys_def)

context crypto_provider
begin

text \<open>One context of the two, if its key is to be derived.\<close>

definition step_ok :: "codec_ctx \<Rightarrow> 's world \<Rightarrow> codec_ctx \<Rightarrow> 's world \<Rightarrow> bool" where
  "step_ok ctx w ctx' w' \<longleftrightarrow> wf ctx' \<and> keyed ctx ctx' \<and> up (w_prov w') \<and> consumed w w' \<and> (roomy (w_prov w) \<longrightarrow> roomy (w_prov w'))"

lemma derive_one:
  assumes up: "up (w_prov w)" and wf: "wf ctx" "btree_ok (pBt ctx)" and c: "cipher_ctx_wf key_size c"
    and r: "sqlcipher_cipher_ctx_key_derive P ctx c w = (rc, ctx', c', w')"
  shows "step_ok ctx w ctx' w' \<and> cipher_ctx_wf key_size c' \<and> read_ctx ctx' = read_ctx ctx \<and> write_ctx ctx' = write_ctx ctx \<and>
    pass c' = pass c \<and> (rc = SQLITE_OK \<longrightarrow> derive_key c' = 0) \<and> (rc = SQLITE_OK \<or> rc = SQLITE_ERROR) \<and>
    (\<forall>p. pass c = Some p \<longrightarrow> (roomy (w_prov w) \<longrightarrow> rc = SQLITE_OK) \<and> (rc = SQLITE_OK \<longrightarrow> derived KDF key_size w ctx p ctx' c') \<and>
       (rc \<noteq> SQLITE_OK \<longrightarrow> scrubbed key_size (w_xo w) c'))"
proof (cases "pass c")
  case None
  then show ?thesis using r up wf c by (simp add: key_derive_no_pass step_ok_def)
next
  case (Some p)
  note k = key_derive_result [OF up wf c Some r]
  then have so: "salts_only ctx ctx'" by blast
  have "derive_key c' = 0" if "rc = SQLITE_OK" using k that by (auto simp: derived_def holds_keys_def)
  then show ?thesis using k Some salts_onlyD [OF so] wf keyed_salts [OF so] consumed_prov [of w w'] by (auto simp: step_ok_def)
qed

lemma step_ok_trans:
  "step_ok a u b v \<Longrightarrow> step_ok b v c w \<Longrightarrow> step_ok a u c w"
  by (auto simp: step_ok_def intro: keyed_trans consumed_trans)

lemma step_ok_ctx:
  assumes "step_ok ctx w ctx' w'" "cipher_ctx_wf key_size r"
  shows "step_ok ctx w (ctx'\<lparr>read_ctx := r\<rparr>) w'" "step_ok ctx w (ctx'\<lparr>write_ctx := r\<rparr>) w'"
  using assms keyed_ctx by (auto simp: step_ok_def codec_wf_iff)

lemma step_ok_refl: "up (w_prov w) \<Longrightarrow> wf ctx \<Longrightarrow> step_ok ctx w ctx w"
  by (simp add: step_ok_def)

lemma derive_read:
  assumes up: "up (w_prov w)" and wf: "wf ctx" "btree_ok (pBt ctx)"
    and r: "derive_read_ctx P ctx w = (rc, x, v)"
  shows "step_ok ctx w x v" "write_ctx x = write_ctx ctx" "rc = SQLITE_OK \<Longrightarrow> derive_key (read_ctx x) = 0" "pass (read_ctx x) = pass (read_ctx ctx)"
    "derive_key (read_ctx ctx) \<noteq> 0 \<Longrightarrow> pass (read_ctx ctx) = Some p \<Longrightarrow>
      (roomy (w_prov w) \<longrightarrow> rc = SQLITE_OK) \<and> (rc = SQLITE_OK \<longrightarrow> derived KDF key_size w ctx p x (read_ctx x)) \<and>
       (rc \<noteq> SQLITE_OK \<longrightarrow> scrubbed key_size (w_xo w) (read_ctx x))"
proof -
  have "step_ok ctx w x v \<and> write_ctx x = write_ctx ctx \<and> (rc = SQLITE_OK \<longrightarrow> derive_key (read_ctx x) = 0) \<and> pass (read_ctx x) = pass (read_ctx ctx) \<and>
    (derive_key (read_ctx ctx) \<noteq> 0 \<longrightarrow> pass (read_ctx ctx) = Some p \<longrightarrow>
      (roomy (w_prov w) \<longrightarrow> rc = SQLITE_OK) \<and> (rc = SQLITE_OK \<longrightarrow> derived KDF key_size w ctx p x (read_ctx x)) \<and>
       (rc \<noteq> SQLITE_OK \<longrightarrow> scrubbed key_size (w_xo w) (read_ctx x)))"
  proof (cases "derive_key (read_ctx ctx) = 0")
    case True
    then show ?thesis using r up wf step_ok_refl by (auto simp: derive_read_ctx_def)
  next
    case False
    obtain rc1 x1 c w1 where 1: "sqlcipher_cipher_ctx_key_derive P ctx (read_ctx ctx) w = (rc1, x1, c, w1)" by (metis prod_cases4)
    have "cipher_ctx_wf key_size (read_ctx ctx)" using wf(1) by (rule wf_fields)
    note d = derive_one [OF up wf this 1]
    have e: "rc = rc1" "x = x1\<lparr>read_ctx := c\<rparr>" "v = w1" using r False 1 by (simp_all add: derive_read_ctx_def)
    have "step_ok ctx w x v" unfolding e using d by (intro step_ok_ctx) auto
    moreover have "derived KDF key_size w ctx p (x1\<lparr>read_ctx := c\<rparr>) c = derived KDF key_size w ctx p x1 c" by (rule derived_cong) simp_all
    ultimately show ?thesis using d e False by auto
  qed
  then show "step_ok ctx w x v" "write_ctx x = write_ctx ctx" "rc = SQLITE_OK \<Longrightarrow> derive_key (read_ctx x) = 0" "pass (read_ctx x) = pass (read_ctx ctx)"
    "derive_key (read_ctx ctx) \<noteq> 0 \<Longrightarrow> pass (read_ctx ctx) = Some p \<Longrightarrow>
      (roomy (w_prov w) \<longrightarrow> rc = SQLITE_OK) \<and> (rc = SQLITE_OK \<longrightarrow> derived KDF key_size w ctx p x (read_ctx x)) \<and>
       (rc \<noteq> SQLITE_OK \<longrightarrow> scrubbed key_size (w_xo w) (read_ctx x))" by blast+
qed

lemma derive_write:
  assumes up: "up (w_prov w)" and wf: "wf ctx" "btree_ok (pBt ctx)" and rd: "derive_key (read_ctx ctx) = 0"
    and r: "derive_write_ctx P ctx w = (rc, x, v)"
  shows "step_ok ctx w x v" "read_ctx x = read_ctx ctx" "rc = SQLITE_OK \<Longrightarrow> derive_key (write_ctx x) = 0"
    "derive_key (write_ctx ctx) \<noteq> 0 \<Longrightarrow> sqlcipher_cipher_ctx_cmp (write_ctx ctx) (read_ctx ctx) = 0 \<Longrightarrow>
      (plenty (w_heap w) \<longrightarrow> rc = SQLITE_OK) \<and> (rc = SQLITE_OK \<longrightarrow> x = ctx\<lparr>write_ctx := read_ctx ctx\<rparr>) \<and>
      (rc \<noteq> SQLITE_OK \<longrightarrow> x = ctx\<lparr>write_ctx := (read_ctx ctx)\<lparr>pass := None\<rparr>\<rparr>)"
proof -
  have cw: "cipher_ctx_wf key_size (read_ctx ctx)" "cipher_ctx_wf key_size (write_ctx ctx)" using wf_fields [OF wf(1)] by blast+
  have "step_ok ctx w x v \<and> read_ctx x = read_ctx ctx \<and> (rc = SQLITE_OK \<longrightarrow> derive_key (write_ctx x) = 0) \<and>
    (derive_key (write_ctx ctx) \<noteq> 0 \<longrightarrow> sqlcipher_cipher_ctx_cmp (write_ctx ctx) (read_ctx ctx) = 0 \<longrightarrow>
      (plenty (w_heap w) \<longrightarrow> rc = SQLITE_OK) \<and> (rc = SQLITE_OK \<longrightarrow> x = ctx\<lparr>write_ctx := read_ctx ctx\<rparr>) \<and>
      (rc \<noteq> SQLITE_OK \<longrightarrow> x = ctx\<lparr>write_ctx := (read_ctx ctx)\<lparr>pass := None\<rparr>\<rparr>))"
  proof (cases "derive_key (write_ctx ctx) = 0")
    case True
    then have "derive_write_ctx P ctx w = (SQLITE_OK, ctx, w)" by (simp add: derive_write_ctx_def)
    then have e: "rc = SQLITE_OK" "x = ctx" "v = w" using r by simp_all
    show ?thesis unfolding e using True step_ok_refl [OF up wf(1)] by blast
  next
    case False
    show ?thesis
    proof (cases "sqlcipher_cipher_ctx_cmp (write_ctx ctx) (read_ctx ctx) = 0")
      case True
      obtain rc1 c w1 where 1: "sqlcipher_cipher_ctx_copy ctx (write_ctx ctx) (read_ctx ctx) w = (rc1, c, w1)" by (rule prod_cases3)
      note d = copy_result [OF cw(2,1) key_sz_wf [OF wf(1)] 1]
      have e: "rc = rc1" "x = ctx\<lparr>write_ctx := c\<rparr>" "v = w1" using r False True 1 by (simp_all add: derive_write_ctx_def)
      have "step_ok ctx w ctx w1" using wf(1) up consumed_heap [OF d(2)] heap_onlyD(1) [OF d(2)] by (simp add: step_ok_def)
      then have "step_ok ctx w x v" unfolding e using step_ok_ctx(2) [OF _ d(3)] by blast
      moreover have "read_ctx x = read_ctx ctx" by (simp add: e)
      moreover have "x = ctx\<lparr>write_ctx := read_ctx ctx\<rparr>" "derive_key (write_ctx x) = 0" if ok: "rc = SQLITE_OK"
      proof -
        have c: "c = read_ctx ctx" using d(1) e(1) ok by auto
        show "x = ctx\<lparr>write_ctx := read_ctx ctx\<rparr>" "derive_key (write_ctx x) = 0" unfolding e c using rd by simp_all
      qed
      moreover have "plenty (w_heap w) \<longrightarrow> rc = SQLITE_OK" "rc \<noteq> SQLITE_OK \<longrightarrow> x = ctx\<lparr>write_ctx := (read_ctx ctx)\<lparr>pass := None\<rparr>\<rparr>"
        using d(1) e(1,2) by auto
      ultimately show ?thesis by blast
    next
      case neq: False
      obtain rc1 x1 c w1 where 1: "sqlcipher_cipher_ctx_key_derive P ctx (write_ctx ctx) w = (rc1, x1, c, w1)" by (metis prod_cases4)
      note d = derive_one [OF up wf cw(2) 1]
      have e: "rc = rc1" "x = x1\<lparr>write_ctx := c\<rparr>" "v = w1" using r False neq 1 by (simp_all add: derive_write_ctx_def)
      have "step_ok ctx w x v" unfolding e using d by (intro step_ok_ctx) auto
      then show ?thesis using d e neq by auto
    qed
  qed
  then show "step_ok ctx w x v" "read_ctx x = read_ctx ctx" "rc = SQLITE_OK \<Longrightarrow> derive_key (write_ctx x) = 0"
    "derive_key (write_ctx ctx) \<noteq> 0 \<Longrightarrow> sqlcipher_cipher_ctx_cmp (write_ctx ctx) (read_ctx ctx) = 0 \<Longrightarrow>
      (plenty (w_heap w) \<longrightarrow> rc = SQLITE_OK) \<and> (rc = SQLITE_OK \<longrightarrow> x = ctx\<lparr>write_ctx := read_ctx ctx\<rparr>) \<and>
      (rc \<noteq> SQLITE_OK \<longrightarrow> x = ctx\<lparr>write_ctx := (read_ctx ctx)\<lparr>pass := None\<rparr>\<rparr>)" by blast+
qed

lemma codec_key_derive_result:
  assumes up: "up (w_prov w)" and wf: "wf ctx" "btree_ok (pBt ctx)"
    and r: "sqlcipher_codec_key_derive P ctx w = (rc, ctx', w')"
  shows "step_ok ctx w ctx' w' \<and> (rc = SQLITE_OK \<or> rc = SQLITE_ERROR) \<and>
    (rc = SQLITE_OK \<longrightarrow> derive_key (read_ctx ctx') = 0 \<and> derive_key (write_ctx ctx') = 0 \<and>
       (store_pass ctx \<noteq> 1 \<longrightarrow> pass (read_ctx ctx') = None \<and> pass (write_ctx ctx') = None)) \<and>
    (\<forall>p. derive_key (read_ctx ctx) \<noteq> 0 \<longrightarrow> write_ctx ctx = read_ctx ctx \<longrightarrow> pass (read_ctx ctx) = Some p \<longrightarrow>
       (roomy (w_prov w) \<longrightarrow> plenty (w_heap w) \<longrightarrow> rc = SQLITE_OK) \<and>
       (rc = SQLITE_OK \<longrightarrow> write_ctx ctx' = read_ctx ctx' \<and> derived KDF key_size w ctx p ctx' (read_ctx ctx')) \<and>
       (rc \<noteq> SQLITE_OK \<longrightarrow> pass (read_ctx ctx') = Some p \<and>
         (\<not> roomy (w_prov w) \<and> scrubbed key_size (w_xo w) (read_ctx ctx') \<and> write_ctx ctx' = write_ctx ctx \<or>
          \<not> plenty (w_heap w) \<and> derived KDF key_size w ctx p ctx' (read_ctx ctx') \<and> write_ctx ctx' = (read_ctx ctx')\<lparr>pass := None\<rparr>)))"
proof -
  obtain rc1 x1 w1 where 1: "derive_read_ctx P ctx w = (rc1, x1, w1)" by (rule prod_cases3)
  note d1 = derive_read [OF up wf 1]
  obtain rc2 x2 w2 where 2: "derive_write_ctx P x1 w1 = (rc2, x2, w2)" by (rule prod_cases3)
  have wf1: "wf x1" "btree_ok (pBt x1)" "up (w_prov w1)" using d1(1) wf(2) keyedD(5) [of ctx x1] by (auto simp: step_ok_def)
  let ?wipe = "\<lambda>c :: cipher_ctx. c\<lparr>pass := None, pass_sz := 0\<rparr>"
  have step: "sqlcipher_codec_key_derive P ctx w = (if rc1 \<noteq> SQLITE_OK then (SQLITE_ERROR, x1, w1) else if rc2 \<noteq> SQLITE_OK then (SQLITE_ERROR, x2, w2)
    else if store_pass x2 \<noteq> 1 then (SQLITE_OK, x2\<lparr>read_ctx := ?wipe (read_ctx x2), write_ctx := ?wipe (write_ctx x2)\<rparr>, w2) else (SQLITE_OK, x2, w2))"
    unfolding sqlcipher_codec_key_derive_def 1 2 Let_def prod.case set_pass_none by simp
  show ?thesis
  proof (cases "rc1 = SQLITE_OK")
    case False
    then show ?thesis using step r d1 by auto
  next
    case ok1: True
    note d2 = derive_write [OF wf1(3,1,2) d1(3) [OF ok1] 2]
    have so: "step_ok ctx w x2 w2" using step_ok_trans [OF d1(1) d2(1)] .
    have cmp: "sqlcipher_cipher_ctx_cmp (write_ctx x1) (read_ctx x1) = 0 \<and> derive_key (write_ctx x1) \<noteq> 0"
      if "derive_key (read_ctx ctx) \<noteq> 0" "write_ctx ctx = read_ctx ctx" "pass (read_ctx ctx) = Some p" for p
    proof -
      have "pass_sz (write_ctx x1) = pass_sz (read_ctx x1)" "pass (write_ctx x1) = pass (read_ctx x1)"
        using wf_fields(4,5) [OF wf1(1)] wf_fields(5) [OF wf(1)] d1(2,4) that by (auto simp: cipher_ctx_wf_def)
      then show ?thesis using cmp_same d1(2) that by simp
    qed
    show ?thesis
    proof (cases "rc2 = SQLITE_OK")
      case False
      have "pass (read_ctx x2) = Some p \<and> \<not> plenty (w_heap w) \<and> derived KDF key_size w ctx p x2 (read_ctx x2) \<and>
          write_ctx x2 = (read_ctx x2)\<lparr>pass := None\<rparr>"
        if "derive_key (read_ctx ctx) \<noteq> 0" "write_ctx ctx = read_ctx ctx" "pass (read_ctx ctx) = Some p" for p
      proof -
        have x2: "x2 = x1\<lparr>write_ctx := (read_ctx x1)\<lparr>pass := None\<rparr>\<rparr>" "\<not> plenty (w_heap w)"
          using d2(4) cmp [OF that] False d1(1) consumedD(3) by (auto simp: step_ok_def)
        have "derived KDF key_size w ctx p x1 (read_ctx x1)" using d1(5) [OF that(1,3)] ok1 by blast
        then show ?thesis using x2 d1(4) that(3) derived_cong [of x2 x1 "read_ctx x1" "read_ctx x1" KDF key_size w ctx p] by simp
      qed
      then show ?thesis using step r ok1 False so by auto
    next
      case ok2: True
      have eq: "write_ctx x2 = read_ctx x2 \<and> derived KDF key_size w ctx p x2 (read_ctx x2)"
        if "derive_key (read_ctx ctx) \<noteq> 0" "write_ctx ctx = read_ctx ctx" "pass (read_ctx ctx) = Some p" for p
      proof -
        have x2: "x2 = x1\<lparr>write_ctx := read_ctx x1\<rparr>" using d2(4) cmp [OF that] ok2 by blast
        have "derived KDF key_size w ctx p x1 (read_ctx x1)" using d1(5) [OF that(1,3)] ok1 by blast
        then show ?thesis using derived_cong [of x2 x1 "read_ctx x1" "read_ctx x1" KDF key_size w ctx p] by (simp add: x2)
      qed
      have dk: "derive_key (read_ctx x2) = 0" "derive_key (write_ctx x2) = 0" using d1(3) d2(2,3) ok1 ok2 by simp_all
      have sp: "store_pass x2 = store_pass ctx" using so keyedD(7) by (auto simp: step_ok_def)
      show ?thesis
      proof (cases "store_pass ctx = 1")
        case True
        then show ?thesis using step r ok1 ok2 so sp eq dk by auto
      next
        case False
        then have e: "rc = SQLITE_OK" "ctx' = x2\<lparr>read_ctx := ?wipe (read_ctx x2), write_ctx := ?wipe (write_ctx x2)\<rparr>" "w' = w2"
          using step r ok1 ok2 sp by simp_all
        have w: "cipher_ctx_wf key_size (?wipe c)" if "cipher_ctx_wf key_size c" for c using that by (simp add: cipher_ctx_wf_def)
        have "cipher_ctx_wf key_size (read_ctx x2)" "cipher_ctx_wf key_size (write_ctx x2)" using so by (simp_all add: step_ok_def codec_wf_iff)
        then have "step_ok ctx w ctx' w'" unfolding e using so w by (intro step_ok_ctx) auto
        moreover have "derived KDF key_size w ctx p ctx' (read_ctx ctx') = derived KDF key_size w ctx p x2 (read_ctx x2)" for p
          by (rule derived_cong) (simp_all add: e)
        ultimately show ?thesis using eq dk e False by auto
      qed
    qed
  qed
qed

end

section \<open>Key specifications\<close>

lemma buf_write_at: "length pre = i \<Longrightarrow> buf_write (pre @ rest) i src = pre @ src @ drop (length src) rest"
  by (simp add: buf_write_def)

lemma hex_write:
  assumes "length pre = i" "bs \<noteq> []" "2 * length bs + 1 \<le> length rest"
  shows "buf_write (pre @ rest) i (cipher_bin2hex bs) = (pre @ hex_of bs) @ 0 # drop (2 * length bs + 1) rest"
  using assms by (simp add: buf_write_at cipher_bin2hex_eq)

text \<open>The text of a key specification.\<close>

definition keyspec_of :: "bytes \<Rightarrow> bytes option \<Rightarrow> bytes \<Rightarrow> bytes" where
  "keyspec_of K H S = [120, 39] @ hex_of K @ (case H of None \<Rightarrow> [] | Some h \<Rightarrow> hex_of h) @ hex_of S @ [39]"

lemma get_keyspec_result:
  assumes wf: "codec_wf ks ivs bs ms ctx" and ks: "0 < ks" and c: "cipher_ctx_wf ks c"
    and r: "sqlcipher_cipher_ctx_get_keyspec ctx c w = (rc, spec, w')"
  shows "heap_only w w'" "rc = SQLITE_OK \<and> spec = Some (keyspec_of (sqlcipher_shield (w_mask w) (ck_key c))
      (if bit (cc_flags ctx) 0 then Some (sqlcipher_shield (w_mask w) (ck_hmac_key c)) else None) (kdf_salt ctx)) \<or>
    rc = SQLITE_NOMEM \<and> spec = None \<and> \<not> plenty (w_heap w)"
proof -
  have sz: "key_sz ctx = int ks" "kdf_salt_sz ctx = 16" "length (kdf_salt ctx) = 16" using wf by (simp_all add: codec_wf_iff sizes_wf_def)
  have l: "length (ck_key c) = ks" "length (ck_hmac_key c) = ks" using c by (simp_all add: cipher_ctx_wf_def)
  let ?h = "bit (cc_flags ctx) 0"
  define n where "n = (if ?h then (ks + ks + 16) * 2 + 3 else (ks + 16) * 2 + 3)"
  have n: "(if ?h then (int ks + int ks + 16) * 2 + 3 else (int ks + 16) * 2 + 3) = int n" by (simp add: n_def)
  obtain b v where b: "w_malloc (int n) w = (b, v)" by (rule prod.exhaust)
  note m = w_malloc_result [OF b]
  define K H where "K = sqlcipher_shield (w_mask v) (ck_key c)" and "H = sqlcipher_shield (w_mask v) (ck_hmac_key c)"
  have lK: "length K = ks" "length H = ks" "K \<noteq> []" "H \<noteq> []" "kdf_salt ctx \<noteq> []" using l ks sz by (auto simp: K_def H_def length_0_conv [symmetric] simp del: length_0_conv)
  have K': "K = sqlcipher_shield (w_mask w) (ck_key c)" "H = sqlcipher_shield (w_mask w) (ck_hmac_key c)" using m(1) by (simp_all add: K_def H_def heap_onlyD)
  define S where "S = kdf_salt ctx"
  have lS: "length S = 16" "S \<noteq> []" using sz(3) lK(5) by (simp_all add: S_def)
  let ?x = "[120, 39] :: bytes"
  have 1: "buf_write (buf_write (replicate n 0) 0 ?x) 2 (cipher_bin2hex K) = (?x @ hex_of K) @ 0 # replicate (n - (2 * ks + 3)) 0"
  proof -
    have "buf_write (replicate n 0) 0 ?x = ?x @ replicate (n - 2) 0" by (simp add: buf_write_def)
    moreover have "2 * length K + 1 \<le> length (replicate (n - 2) (0 :: byte))" using lK by (simp add: n_def)
    ultimately show ?thesis using hex_write [of ?x 2 K "replicate (n - 2) 0"] lK by (simp add: n_def)
  qed
  have 2: "(if ?h then buf_write ((?x @ hex_of K) @ 0 # replicate (n - (2 * ks + 3)) 0) (2 + ks * 2) (cipher_bin2hex H)
      else (?x @ hex_of K) @ 0 # replicate (n - (2 * ks + 3)) 0) =
    (?x @ hex_of K @ (if ?h then hex_of H else [])) @ replicate 33 0"
  proof (cases ?h)
    case True
    have "2 * length H + 1 \<le> length (0 # replicate (n - (2 * ks + 3)) (0 :: byte))" using True lK by (simp add: n_def)
    then have "buf_write ((?x @ hex_of K) @ 0 # replicate (n - (2 * ks + 3)) 0) (2 + ks * 2) (cipher_bin2hex H) =
        ((?x @ hex_of K) @ hex_of H) @ 0 # drop (2 * length H + 1) (0 # replicate (n - (2 * ks + 3)) 0)"
      using lK by (intro hex_write) auto
    then show ?thesis using True lK by (simp add: n_def replicate_Suc [symmetric] del: replicate_Suc)
  next
    case False
    then show ?thesis by (simp add: n_def replicate_Suc [symmetric] del: replicate_Suc)
  qed
  have 3: "buf_write ((?x @ hex_of K @ (if ?h then hex_of H else [])) @ replicate 33 0) (if ?h then 2 + ks * 2 + ks * 2 else 2 + ks * 2) (cipher_bin2hex S) =
    ((?x @ hex_of K @ (if ?h then hex_of H else [])) @ hex_of S) @ [0]"
    using hex_write [of "?x @ hex_of K @ (if ?h then hex_of H else [])" "if ?h then 2 + ks * 2 + ks * 2 else 2 + ks * 2" S "replicate 33 0"] lK lS
    by simp
  have 4: "(((?x @ hex_of K @ (if ?h then hex_of H else [])) @ hex_of S) @ [0])[n - 1 := 39] =
    keyspec_of K (if ?h then Some H else None) S"
    using lK lS by (simp add: list_update_append n_def keyspec_of_def)
  have t: "take ks (ck_key c) = ck_key c" "take ks (ck_hmac_key c) = ck_hmac_key c" "take 16 (kdf_salt ctx) = S" "nat (int ks) = ks" "nat (int n) = n" "nat 16 = 16"
    using l sz by (simp_all add: S_def)
  have "sqlcipher_cipher_ctx_get_keyspec ctx c w =
    (if b then (SQLITE_OK, Some (keyspec_of K (if ?h then Some H else None) S), v) else (SQLITE_NOMEM, None, v))"
  proof (cases ?h)
    case True
    note 2 = 2 [unfolded if_P [OF True]] and 3 = 3 [unfolded if_P [OF True]] and 4 = 4 [unfolded if_P [OF True]] and n = n [unfolded if_P [OF True]]
    show ?thesis
      unfolding sqlcipher_cipher_ctx_get_keyspec_def Let_def FLAG_GET_bit sz(1,2) if_P [OF True] n b prod.case t K_def [symmetric] H_def [symmetric] 1 2 3 4
      by simp
  next
    case False
    note 2 = 2 [unfolded if_not_P [OF False]] and 3 = 3 [unfolded if_not_P [OF False]] and 4 = 4 [unfolded if_not_P [OF False]] and n = n [unfolded if_not_P [OF False]]
    show ?thesis
      unfolding sqlcipher_cipher_ctx_get_keyspec_def Let_def FLAG_GET_bit sz(1,2) if_not_P [OF False] n b prod.case t K_def [symmetric] H_def [symmetric] 1 2 3 4
      by simp
  qed
  moreover have "plenty (w_heap w) \<Longrightarrow> b" using m(2) by (simp add: n_def)
  ultimately show "heap_only w w'" "rc = SQLITE_OK \<and> spec = Some (keyspec_of (sqlcipher_shield (w_mask w) (ck_key c))
      (if bit (cc_flags ctx) 0 then Some (sqlcipher_shield (w_mask w) (ck_hmac_key c)) else None) (kdf_salt ctx)) \<or>
    rc = SQLITE_NOMEM \<and> spec = None \<and> \<not> plenty (w_heap w)"
    using r m(1) unfolding K' S_def by (cases b; auto)+
qed

lemma keyspec_is_blob:
  "raw_key_blob (keyspec_of K H S) (int (length (keyspec_of K H S))) \<longleftrightarrow> 5 \<le> length (keyspec_of K H S)"
proof -
  define hs where "hs = hex_of (K @ (case H of None \<Rightarrow> [] | Some h \<Rightarrow> h) @ S)"
  have k: "keyspec_of K H S = 120 # 39 # hs @ [39]" by (auto simp: keyspec_of_def hs_def hex_of_append hex_of_def split: option.split)
  have l: "length (keyspec_of K H S) = length hs + 3" "even (length hs)" by (simp_all add: k hs_def)
  have "sqlite3StrNICmp (keyspec_of K H S) [120, 39] 2 = 0" by (subst sqlite3StrNICmp_iff) (simp_all add: k)
  moreover have "nat (int (length (keyspec_of K H S)) - 1) = Suc (Suc (length hs))" by (simp add: l)
  then have "keyspec_of K H S ! nat (int (length (keyspec_of K H S)) - 1) = 39" by (simp add: k)
  moreover have "(int (length (keyspec_of K H S)) - 3) mod 2 = 0" using l(2) unfolding l(1) by (auto elim!: evenE)
  moreover have "cipher_isHex (drop 2 (keyspec_of K H S)) (nat (int (length (keyspec_of K H S)) - 3))"
    using isHex_hex_of [of "K @ (case H of None \<Rightarrow> [] | Some h \<Rightarrow> h) @ S"] unfolding l(1)
    by (subst cipher_isHex_set) (simp add: k hs_def)
  ultimately show ?thesis by (simp add: raw_key_blob_def)
qed

lemma keyspec_material:
  assumes "length K = ks" "length S = 16" "\<And>h. H = Some h \<Longrightarrow> length h = ks" "0 < ks"
  shows "raw_material F ks iter (keyspec_of K H S) salt = (K, H, S)"
proof (cases H)
  case None
  let ?p = "keyspec_of K H S"
  have l: "length ?p = 2 * (ks + 16) + 3" using assms by (simp add: keyspec_of_def None)
  have b: "raw_key_blob ?p (int (length ?p))" using keyspec_is_blob [of K H S] l by simp
  have d: "drop (2 + 2 * 0) ?p = hex_of K @ (hex_of S @ [39])" "drop (2 + 2 * ks) ?p = hex_of S @ [39]" using assms by (simp_all add: keyspec_of_def None)
  have "cipher_hex2bin (drop (2 + 2 * 0) ?p) (2 * ks) = K" "cipher_hex2bin (drop (2 + 2 * ks) ?p) (2 * 16) = S"
    unfolding d using hex2bin_hex_of [of K] hex2bin_hex_of [of S] assms(1,2) by simp_all
  then show ?thesis using b l unfolding raw_material_def Let_def by (simp add: None)
next
  case (Some h)
  let ?p = "keyspec_of K H S"
  have lh: "length h = ks" using assms(3) Some by simp
  have l: "length ?p = 2 * (ks + ks + 16) + 3" using assms lh by (simp add: keyspec_of_def Some)
  have b: "raw_key_blob ?p (int (length ?p))" using keyspec_is_blob [of K H S] l by simp
  have d: "drop (2 + 2 * 0) ?p = hex_of K @ (hex_of h @ hex_of S @ [39])" "drop (2 + 2 * ks) ?p = hex_of h @ (hex_of S @ [39])"
    "drop (2 + 2 * (ks + ks)) ?p = hex_of S @ [39]" using assms lh by (simp_all add: keyspec_of_def Some)
  have "cipher_hex2bin (drop (2 + 2 * 0) ?p) (2 * ks) = K" "cipher_hex2bin (drop (2 + 2 * ks) ?p) (2 * ks) = h"
    "cipher_hex2bin (drop (2 + 2 * (ks + ks)) ?p) (2 * 16) = S"
    unfolding d using hex2bin_hex_of [of K] hex2bin_hex_of [of h] hex2bin_hex_of [of S] assms(1,2) lh by simp_all
  then show ?thesis using b l assms(4) unfolding raw_material_def Let_def by (simp add: Some)
qed

text \<open>A context whose passphrase is the key specification of another derives its keys.\<close>

lemma keyspec_same_keys:
  assumes "ltc_wf ctx" "sqlcipher_cipher_ctx_get_keyspec ctx (read_ctx ctx) w = (SQLITE_OK, Some spec, w')"
    and "ltc_up (w_prov v)" "ltc_wf x" "btree_ok (pBt x)" "derive_key (read_ctx x) \<noteq> 0" "write_ctx x = read_ctx x" "pass (read_ctx x) = Some spec"
      "FLAG_GET (cc_flags x) CIPHER_FLAG_HMAC = FLAG_GET (cc_flags ctx) CIPHER_FLAG_HMAC"
      "sqlcipher_codec_key_derive sqlcipher_ltc_setup x v = (SQLITE_OK, x', v')"
  shows "sqlcipher_shield (w_mask v) (ck_key (read_ctx x')) = sqlcipher_shield (w_mask w) (ck_key (read_ctx ctx)) \<and>
    (FLAG_GET (cc_flags ctx) CIPHER_FLAG_HMAC \<longrightarrow>
       sqlcipher_shield (w_mask v) (ck_hmac_key (read_ctx x')) = sqlcipher_shield (w_mask w) (ck_hmac_key (read_ctx ctx))) \<and>
    kdf_salt x' = kdf_salt ctx"
proof -
  have c: "cipher_ctx_wf 32 (read_ctx ctx)" "length (kdf_salt ctx) = 16" using assms(1) by (simp_all add: codec_wf_iff sizes_wf_def)
  let ?K = "sqlcipher_shield (w_mask w) (ck_key (read_ctx ctx))" and ?H = "sqlcipher_shield (w_mask w) (ck_hmac_key (read_ctx ctx))"
  have spec: "spec = keyspec_of ?K (if bit (cc_flags ctx) 0 then Some ?H else None) (kdf_salt ctx)"
    using get_keyspec_result(2) [OF assms(1) _ c(1) assms(2)] by simp
  have "length ?K = 32" "length ?H = 32" using c(1) by (simp_all add: cipher_ctx_wf_def)
  then have "raw_material F 32 iter spec salt = (?K, if bit (cc_flags ctx) 0 then Some ?H else None, kdf_salt ctx)" for F iter salt
    unfolding spec using c(2) by (intro keyspec_material) (auto split: if_splits)
  moreover have "derived ltc_kdf 32 v x spec x' (read_ctx x')"
    using ltc.codec_key_derive_result [OF assms(3-5,10)] assms(6-8) by auto
  ultimately show ?thesis using assms(9) by (auto simp: derived_def key_material_def holds_keys_def split: if_splits)
qed

section \<open>Properties\<close>

text \<open>
  C15: deriving the keys of a freshly attached context has three outcomes.  It gives both cipher contexts the
  same keys under the mask, those that the passphrase, the salt and the settings determine, and wipes the
  passphrase unless it is to be stored.  Or an allocation of the provider fails: an error, both keys of the read
  context are random data, the passphrase stays and the write context is untouched.  Or there is no memory for the
  copy to the write context: an error, but the read context keeps the true keys and the passphrase, and the write
  context has the keys too and lacks only the passphrase.
\<close>

theorem codec_key_derivation:
  assumes "ltc_up (w_prov w)" "ltc_wf ctx" "btree_ok (pBt ctx)" "derive_key (read_ctx ctx) \<noteq> 0" "write_ctx ctx = read_ctx ctx"
    "pass (read_ctx ctx) = Some p" "sqlcipher_codec_key_derive sqlcipher_ltc_setup ctx w = (rc, ctx', w')"
  shows "ltc_wf ctx' \<and>
    (rc = SQLITE_OK \<and> derived ltc_kdf 32 w ctx p ctx' (read_ctx ctx') \<and> write_ctx ctx' = read_ctx ctx' \<and>
       (store_pass ctx \<noteq> 1 \<longrightarrow> pass (read_ctx ctx') = None) \<or>
     rc = SQLITE_ERROR \<and> pass (read_ctx ctx') = Some p \<and>
       (\<not> ltc_roomy (w_prov w) \<and> scrubbed 32 (w_xo w) (read_ctx ctx') \<and> write_ctx ctx' = write_ctx ctx \<or>
        \<not> plenty (w_heap w) \<and> derived ltc_kdf 32 w ctx p ctx' (read_ctx ctx') \<and>
          write_ctx ctx' = (read_ctx ctx')\<lparr>pass := None\<rparr>))"
  using ltc.codec_key_derive_result [OF assms(1-3,7)] assms(4-6) by (auto simp: ltc.step_ok_def)

lemma sample_btree_ok: "btree_ok (pBt sample_ctx)"
  by (simp add: btree_ok_def sample_ctx_def sample_btree_def)

lemma sample_world_ok: "ltc_up (w_prov sample_world)" "ltc_roomy (w_prov sample_world)" "plenty (w_heap sample_world)"
  using warm_ltc_up by (simp_all add: sample_world_def plenty_def)

theorem codec_key_derivation_witness:
  "\<exists>ctx' w'. sqlcipher_codec_key_derive sqlcipher_ltc_setup sample_ctx sample_world = (SQLITE_OK, ctx', w') \<and>
     derived ltc_kdf 32 sample_world sample_ctx [97, 98, 99] ctx' (write_ctx ctx') \<and> pass (read_ctx ctx') = None"
proof -
  obtain rc ctx' w' where r: "sqlcipher_codec_key_derive sqlcipher_ltc_setup sample_ctx sample_world = (rc, ctx', w')" by (rule prod_cases3)
  have "derive_key (read_ctx sample_ctx) \<noteq> 0" "write_ctx sample_ctx = read_ctx sample_ctx" "pass (read_ctx sample_ctx) = Some [97, 98, 99]"
    "store_pass sample_ctx = 0" by (simp_all add: sample_ctx_def sample_cipher_ctx_def)
  with codec_key_derivation [OF sample_world_ok(1) sample_wf sample_btree_ok _ _ _ r] r sample_world_ok(2,3) show ?thesis by auto
qed

text \<open>
  C16: the key specification of a connection is a passphrase that gives the same keys: a
  context with the same use of HMAC that derives its keys from it ends up with the same key, the same key for
  HMAC and the same salt, whatever the mask and the iterations.
\<close>

theorem keyspec_round_trip:
  assumes "ltc_wf ctx" "sqlcipher_cipher_ctx_get_keyspec ctx (read_ctx ctx) w = (SQLITE_OK, Some spec, w')"
    and "ltc_up (w_prov v)" "ltc_wf x" "btree_ok (pBt x)" "derive_key (read_ctx x) \<noteq> 0" "write_ctx x = read_ctx x" "pass (read_ctx x) = Some spec"
      "FLAG_GET (cc_flags x) CIPHER_FLAG_HMAC = FLAG_GET (cc_flags ctx) CIPHER_FLAG_HMAC"
      "sqlcipher_codec_key_derive sqlcipher_ltc_setup x v = (SQLITE_OK, x', v')"
  shows "sqlcipher_shield (w_mask v) (ck_key (read_ctx x')) = sqlcipher_shield (w_mask w) (ck_key (read_ctx ctx)) \<and>
    (FLAG_GET (cc_flags ctx) CIPHER_FLAG_HMAC \<longrightarrow>
       sqlcipher_shield (w_mask v) (ck_hmac_key (read_ctx x')) = sqlcipher_shield (w_mask w) (ck_hmac_key (read_ctx ctx))) \<and>
    kdf_salt x' = kdf_salt ctx"
  using keyspec_same_keys [OF assms] .

theorem keyspec_round_trip_witness:
  "\<exists>spec w' x' v'. sqlcipher_cipher_ctx_get_keyspec sample_ctx (read_ctx sample_ctx) sample_world = (SQLITE_OK, Some spec, w') \<and>
     sqlcipher_codec_key_derive sqlcipher_ltc_setup (sample_ctx
       \<lparr>read_ctx := sample_cipher_ctx\<lparr>pass := Some spec, pass_sz := int (length spec)\<rparr>,
        write_ctx := sample_cipher_ctx\<lparr>pass := Some spec, pass_sz := int (length spec)\<rparr>\<rparr>) sample_world = (SQLITE_OK, x', v') \<and>
     kdf_salt x' = replicate 16 0"
proof -
  have c: "cipher_ctx_wf 32 (read_ctx sample_ctx)" using sample_wf by (simp add: codec_wf_iff)
  obtain rc r w' where g: "sqlcipher_cipher_ctx_get_keyspec sample_ctx (read_ctx sample_ctx) sample_world = (rc, r, w')" by (rule prod_cases3)
  note res = get_keyspec_result(2) [OF sample_wf _ c g]
  then obtain spec where spec: "rc = SQLITE_OK" "r = Some spec" "0 < length spec" "length spec < 2 ^ 31"
    using sample_world_ok(3) by (auto simp: keyspec_of_def sample_ctx_def sample_cipher_ctx_def split: if_splits)
  let ?c = "sample_cipher_ctx\<lparr>pass := Some spec, pass_sz := int (length spec)\<rparr>"
  let ?x = "sample_ctx\<lparr>read_ctx := ?c, write_ctx := ?c\<rparr>"
  have wf: "ltc_wf ?x" using sample_wf spec(3,4) by (simp add: codec_wf_iff cipher_ctx_wf_def sample_cipher_ctx_def)
  have bt: "btree_ok (pBt ?x)" using sample_btree_ok by simp
  have dk: "derive_key (read_ctx ?x) \<noteq> 0" "write_ctx ?x = read_ctx ?x" "pass (read_ctx ?x) = Some spec"
    "FLAG_GET (cc_flags ?x) CIPHER_FLAG_HMAC = FLAG_GET (cc_flags sample_ctx) CIPHER_FLAG_HMAC" by (simp_all add: sample_cipher_ctx_def)
  obtain rc2 x' v' where d: "sqlcipher_codec_key_derive sqlcipher_ltc_setup ?x sample_world = (rc2, x', v')" by (rule prod_cases3)
  have ok: "rc2 = SQLITE_OK" using ltc.codec_key_derive_result [OF sample_world_ok(1) wf bt d] dk sample_world_ok(2,3) by auto
  have g': "sqlcipher_cipher_ctx_get_keyspec sample_ctx (read_ctx sample_ctx) sample_world = (SQLITE_OK, Some spec, w')" using g spec by simp
  have "kdf_salt x' = kdf_salt sample_ctx"
    using keyspec_round_trip [OF sample_wf g' sample_world_ok(1) wf bt dk d [unfolded ok]] by blast
  then show ?thesis using g' d ok by (auto simp: sample_ctx_def)
qed

end
