(* ===== verification/PageCipher.thy ===== *)
theory PageCipher
  imports KeyDerive
begin

text \<open>
  Encryption and decryption of a page: the bytes of a page are followed by the reserve,
  which holds the initialisation vector, the code that HMAC computes over the ciphertext, the vector and the page
  number, and random bytes.
\<close>

unbundle bit_operations_syntax

section \<open>The code\<close>

definition sqlcipher_put4byte_le :: "u32 \<Rightarrow> bytes" where
  "sqlcipher_put4byte_le v = [ucast v, ucast (drop_bit 8 v), ucast (drop_bit 16 v), ucast (drop_bit 24 v)]"

definition sqlite3Put4byte :: "u32 \<Rightarrow> bytes" where
  "sqlite3Put4byte v = [ucast (drop_bit 24 v), ucast (drop_bit 16 v), ucast (drop_bit 8 v), ucast v]"

text \<open>The native order of the hosts that the build supports is little-endian.\<close>

definition pgno_raw :: "codec_ctx \<Rightarrow> u32 \<Rightarrow> bytes" where
  "pgno_raw ctx pgno =
     (if FLAG_GET (cc_flags ctx) CIPHER_FLAG_LE_PGNO then sqlcipher_put4byte_le pgno
      else if FLAG_GET (cc_flags ctx) CIPHER_FLAG_BE_PGNO then sqlite3Put4byte pgno
      else sqlcipher_put4byte_le pgno)"

text \<open>The key is out of the shield only during the call.\<close>

definition sqlcipher_page_hmac :: "'s provider \<Rightarrow> codec_ctx \<Rightarrow> cipher_ctx \<Rightarrow> u32 \<Rightarrow> bytes \<Rightarrow> 's world \<Rightarrow> int \<times> bytes \<times> 's world" where
  "sqlcipher_page_hmac P ctx c pgno inp w =
     (let (rc, s, out) = p_hmac P (w_prov w) (hmac_algorithm ctx)
            (sqlcipher_shield (w_mask w) (take (nat (key_sz ctx)) (ck_hmac_key c))) inp (Some (pgno_raw ctx pgno))
      in (rc, out, w\<lparr>w_prov := s\<rparr>))"

text \<open>The reserve: random bytes for encryption, the vector of the input for decryption.\<close>

definition page_reserve :: "'s provider \<Rightarrow> codec_ctx \<Rightarrow> int \<Rightarrow> nat \<Rightarrow> bytes \<Rightarrow> bytes \<Rightarrow> 's world \<Rightarrow> int \<times> bytes \<times> 's world" where
  "page_reserve P ctx mode sz inp out w =
     (if mode = SQLCIPHER_ENCRYPT
      then let (rc, s, r) = p_random P (w_prov w) (take (nat (reserve_sz ctx)) (drop sz out))
           in (rc, buf_write out sz r, w\<lparr>w_prov := s\<rparr>)
      else (SQLITE_OK, buf_write out sz (take (nat (iv_sz ctx)) (drop sz inp)), w))"

text \<open>What the check of a page decides.\<close>

datatype verdict = Accept | Short_Read | Reject

definition page_check :: "'s provider \<Rightarrow> codec_ctx \<Rightarrow> cipher_ctx \<Rightarrow> u32 \<Rightarrow> nat \<Rightarrow> nat \<Rightarrow> bytes \<Rightarrow> bytes \<Rightarrow> 's world \<Rightarrow> verdict \<times> bytes \<times> 's world" where
  "page_check P ctx c pgno pg_sz sz inp out w =
     (let iv = nat (iv_sz ctx);
          (rc, mac, w) = sqlcipher_page_hmac P ctx c pgno (take (sz + iv) inp) w;
          out = buf_write out (sz + iv) mac in
      if rc \<noteq> SQLITE_OK then (Reject, out, w)
      else if sqlcipher_memcmp (drop (sz + iv) inp) (drop (sz + iv) out) (nat (hmac_sz ctx)) \<noteq> 0
      then if bt_autovacuum (pBt ctx) \<noteq> 0 \<and> sqlcipher_ismemset inp 0 pg_sz = 0 then (Short_Read, out, w) else (Reject, out, w)
      else (Accept, out, w))"

text \<open>
  \<open>inp\<close> and \<open>out\<close> are the \<open>pg_sz\<close> bytes at the pointers.  When the reserve is larger than what is
  left of the page the code computes with a negative size and reaches outside of both: \<open>None\<close>.
\<close>

definition sqlcipher_page_cipher ::
    "'s provider \<Rightarrow> codec_ctx \<Rightarrow> int \<Rightarrow> u32 \<Rightarrow> int \<Rightarrow> int \<Rightarrow> bytes \<Rightarrow> bytes \<Rightarrow> 's world \<Rightarrow> (int \<times> bytes \<times> 's world) option" where
  "sqlcipher_page_cipher P ctx for_ctx pgno mode pg_sz inp out w =
     (let c = get_cctx for_ctx ctx;
          sz = pg_sz - reserve_sz ctx;
          fail = (\<lambda>out w. Some (SQLITE_ERROR, sqlcipher_memset out 0 (nat pg_sz), w)) in
      if pgno = 1 \<and> sz = 0 then Some (SQLITE_OK, out, w)
      else if key_sz ctx = 0 then fail out w
      else if sz < 0 then None
      else let sz = nat sz; iv = nat (iv_sz ctx);
               (rc, out, w) = page_reserve P ctx mode sz inp out w in
        if rc \<noteq> SQLITE_OK then fail out w
        else let (v, out, w) = (if FLAG_GET (cc_flags ctx) CIPHER_FLAG_HMAC \<and> mode = SQLCIPHER_DECRYPT
                                then page_check P ctx c pgno (nat pg_sz) sz inp out w else (Accept, out, w)) in
          case v of
            Reject \<Rightarrow> fail out w
          | Short_Read \<Rightarrow> Some (SQLITE_OK, sqlcipher_memset out 0 (nat pg_sz), w)
          | Accept \<Rightarrow>
              let (rc, s, x) = p_cipher P (w_prov w) mode (sqlcipher_shield (w_mask w) (take (nat (key_sz ctx)) (ck_key c)))
                                 (take iv (drop sz out)) (take sz inp);
                  w = w\<lparr>w_prov := s\<rparr>; out = buf_write out 0 x in
              if rc \<noteq> SQLITE_OK then fail out w
              else if FLAG_GET (cc_flags ctx) CIPHER_FLAG_HMAC \<and> mode = SQLCIPHER_ENCRYPT
              then let (rc, mac, w) = sqlcipher_page_hmac P ctx c pgno (take (sz + iv) out) w;
                       out = buf_write out (sz + iv) mac in
                if rc \<noteq> SQLITE_OK then fail out w else Some (SQLITE_OK, out, w)
              else Some (SQLITE_OK, out, w))"

section \<open>Pages\<close>

lemma length_pgno_raw [simp]: "length (pgno_raw ctx pgno) = 4"
  by (simp add: pgno_raw_def sqlcipher_put4byte_le_def sqlite3Put4byte_def)

lemma take_before_write: "m \<le> length b \<Longrightarrow> take m (buf_write b m src) = take m b"
  by (simp add: buf_write_def)

lemma drop_write: "m \<le> length b \<Longrightarrow> length src = k \<Longrightarrow> take k (drop m (buf_write b m src)) = src"
  by (simp add: buf_write_def)

text \<open>Ciphertext, vector and code of a page with \<open>n\<close> bytes before the reserve.\<close>

definition page_ct :: "nat \<Rightarrow> bytes \<Rightarrow> bytes" where "page_ct n y = take n y"
definition page_iv :: "nat \<Rightarrow> nat \<Rightarrow> bytes \<Rightarrow> bytes" where "page_iv n ivs y = take ivs (drop n y)"
definition page_mac :: "nat \<Rightarrow> nat \<Rightarrow> nat \<Rightarrow> bytes \<Rightarrow> bytes" where "page_mac n ivs ms y = take ms (drop (n + ivs) y)"

text \<open>The page authenticates its contents and its number.\<close>

definition page_authentic :: "(bytes \<Rightarrow> bytes \<Rightarrow> bytes) \<Rightarrow> nat \<Rightarrow> nat \<Rightarrow> bytes \<Rightarrow> bytes \<Rightarrow> nat \<Rightarrow> bytes \<Rightarrow> bool" where
  "page_authentic mac ivs ms H num n y \<longleftrightarrow> page_mac n ivs ms y = mac H (take (n + ivs) y @ num)"

context crypto_provider
begin

abbreviation ukey :: "'s world \<Rightarrow> cipher_ctx \<Rightarrow> bytes" where "ukey w c \<equiv> sqlcipher_shield (w_mask w) (ck_key c)"
abbreviation uhkey :: "'s world \<Rightarrow> cipher_ctx \<Rightarrow> bytes" where "uhkey w c \<equiv> sqlcipher_shield (w_mask w) (ck_hmac_key c)"
abbreviation auth :: "'s world \<Rightarrow> codec_ctx \<Rightarrow> cipher_ctx \<Rightarrow> u32 \<Rightarrow> nat \<Rightarrow> bytes \<Rightarrow> bool" where
  "auth w ctx c pgno n y \<equiv> page_authentic (MAC (hmac_algorithm ctx)) iv_size (mac_size (hmac_algorithm ctx)) (uhkey w c) (pgno_raw ctx pgno) n y"

lemma page_hmac_result:
  assumes "up (w_prov w)" "wf ctx" "cipher_ctx_wf key_size c" "length x < 2 ^ 31" "sqlcipher_page_hmac P ctx c pgno x w = (rc, m, w')"
  shows "w' = w\<lparr>w_prov := w_prov w'\<rparr>" "served up roomy (w_prov w) (w_prov w') rc (m = MAC (hmac_algorithm ctx) (uhkey w c) (x @ pgno_raw ctx pgno))"
    "length m \<le> mac_size (hmac_algorithm ctx)"
proof -
  have l: "length (ck_hmac_key c) = key_size" "key_sz ctx = int key_size" "hmac_algorithm ctx \<in> {0, 1, 2}"
    using assms(2,3) by (simp_all add: cipher_ctx_wf_def codec_wf_iff sizes_wf_def alg_ok_def)
  obtain r s out where h: "p_hmac P (w_prov w) (hmac_algorithm ctx) (uhkey w c) x (Some (pgno_raw ctx pgno)) = (r, s, out)" by (rule prod_cases3)
  have k: "length (uhkey w c) = key_size" "length x < 2 ^ 32" "length (pgno_raw ctx pgno) < 2 ^ 32" using l assms(4) by simp_all
  have e: "rc = r" "m = out" "w' = w\<lparr>w_prov := s\<rparr>" using assms(5) l h by (simp_all add: sqlcipher_page_hmac_def)
  show "w' = w\<lparr>w_prov := w_prov w'\<rparr>" "served up roomy (w_prov w) (w_prov w') rc (m = MAC (hmac_algorithm ctx) (uhkey w c) (x @ pgno_raw ctx pgno))"
    "length m \<le> mac_size (hmac_algorithm ctx)"
    using hmac [OF assms(1) l(3) k h] by (simp_all add: e)
qed

lemma reserve_room:
  assumes "wf ctx"
  shows "int iv_size + (if bit (cc_flags ctx) 0 then int (mac_size (hmac_algorithm ctx)) else 0) \<le> reserve_sz ctx" "int block_size dvd reserve_sz ctx"
  using assms sizes_pos round_up_least [of "int block_size" "int iv_size + (if bit (cc_flags ctx) 0 then int (mac_size (hmac_algorithm ctx)) else 0)"]
  by (auto simp: codec_wf_iff reserve_of_def)

text \<open>A page of \<open>n\<close> bytes and its reserve.\<close>

definition page_layout :: "codec_ctx \<Rightarrow> int \<Rightarrow> nat \<Rightarrow> bytes \<Rightarrow> bytes \<Rightarrow> bool" where
  "page_layout ctx pg n x y \<longleftrightarrow> pg - reserve_sz ctx = int n \<and> length x = nat pg \<and> length y = nat pg \<and> block_size dvd n \<and> pg < 2 ^ 31"

lemma page_check_result:
  assumes up: "up (w_prov w)" and wf: "wf ctx" "cipher_ctx_wf key_size c" and lay: "page_layout ctx pg n inp out" and h: "bit (cc_flags ctx) 0"
    and r: "page_check P ctx c pgno (nat pg) n inp out w = (v, out', w')"
  shows "w' = w\<lparr>w_prov := w_prov w'\<rparr> \<and> up (w_prov w') \<and> (roomy (w_prov w) \<longrightarrow> roomy (w_prov w')) \<and> length out' = nat pg \<and>
    take (n + iv_size) out' = take (n + iv_size) out \<and>
    (v = (if auth w ctx c pgno n inp then Accept else if bt_autovacuum (pBt ctx) \<noteq> 0 \<and> inp = replicate (nat pg) 0 then Short_Read else Reject) \<or>
     v = Reject \<and> \<not> roomy (w_prov w))"
proof -
  let ?ms = "mac_size (hmac_algorithm ctx)"
  have sz: "nat (iv_sz ctx) = iv_size" "nat (hmac_sz ctx) = ?ms" "alg_ok (hmac_algorithm ctx)" using wf(1) by (simp_all add: codec_wf_iff sizes_wf_def)
  have l: "n + iv_size + ?ms \<le> nat pg" "length inp = nat pg" "length out = nat pg" "nat pg < 2 ^ 31"
    using lay reserve_room(1) [OF wf(1)] h by (auto simp: page_layout_def)
  obtain rc mac w1 where m: "sqlcipher_page_hmac P ctx c pgno (take (n + iv_size) inp) w = (rc, mac, w1)" by (rule prod_cases3)
  have "length (take (n + iv_size) inp) < 2 ^ 31" using l by simp
  note mr = page_hmac_result [OF up wf this m]
  let ?out = "buf_write out (n + iv_size) mac"
  have lo: "length ?out = nat pg" "take (n + iv_size) ?out = take (n + iv_size) out"
    using mr(3) l by (simp_all add: length_buf_write) (simp add: buf_write_def)
  have cmp: "sqlcipher_memcmp (drop (n + iv_size) inp) (drop (n + iv_size) ?out) ?ms = 0 \<longleftrightarrow> auth w ctx c pgno n inp" if "rc = SQLITE_OK"
  proof -
    have mac: "mac = MAC (hmac_algorithm ctx) (uhkey w c) (take (n + iv_size) inp @ pgno_raw ctx pgno)" using mr(2) that by (simp add: served_def)
    have lm: "length mac = ?ms" unfolding mac using mac_length sz(3) by (simp add: alg_ok_def)
    have "take ?ms (drop (n + iv_size) ?out) = mac" using lm l by (simp add: buf_write_def)
    moreover have "sqlcipher_memcmp (drop (n + iv_size) inp) (drop (n + iv_size) ?out) ?ms = 0 \<longleftrightarrow>
        take ?ms (drop (n + iv_size) inp) = take ?ms (drop (n + iv_size) ?out)"
      using l lo by (intro sqlcipher_memcmp_take) simp_all
    ultimately show ?thesis by (simp add: page_authentic_def page_mac_def mac)
  qed
  have zero: "sqlcipher_ismemset inp 0 (nat pg) = 0 \<longleftrightarrow> inp = replicate (nat pg) 0" using sqlcipher_ismemset_replicate [of "nat pg" inp 0] l by simp
  have step: "page_check P ctx c pgno (nat pg) n inp out w = (if rc \<noteq> SQLITE_OK then (Reject, ?out, w1)
      else if \<not> auth w ctx c pgno n inp then if bt_autovacuum (pBt ctx) \<noteq> 0 \<and> inp = replicate (nat pg) 0 then (Short_Read, ?out, w1) else (Reject, ?out, w1)
      else (Accept, ?out, w1))"
    unfolding page_check_def Let_def sz(1,2) m prod.case zero using cmp by simp
  have "out' = ?out" "w' = w1" using r step by (auto split: if_splits)
  moreover have "w1 = w\<lparr>w_prov := w_prov w1\<rparr>" by (rule mr(1))
  moreover have "up (w_prov w1)" "roomy (w_prov w) \<Longrightarrow> roomy (w_prov w1) \<and> rc = SQLITE_OK" using mr(2) by (auto simp: served_def)
  ultimately show ?thesis using r step lo by (auto split: if_splits)
qed

lemma memset_all: "length out = n \<Longrightarrow> sqlcipher_memset out 0 n = replicate n 0"
  by (simp add: sqlcipher_memset_eq)

lemma page_cipher_decrypt:
  assumes up: "up (w_prov w)" and wf: "wf ctx" and lay: "page_layout ctx pg n inp out" and one: "\<not> (pgno = 1 \<and> n = 0)"
  shows "\<exists>rc out' w'. sqlcipher_page_cipher P ctx for_ctx pgno SQLCIPHER_DECRYPT pg inp out w = Some (rc, out', w') \<and>
    w' = w\<lparr>w_prov := w_prov w'\<rparr> \<and> up (w_prov w') \<and> (roomy (w_prov w) \<longrightarrow> roomy (w_prov w')) \<and> length out' = nat pg \<and>
    (let c = get_cctx for_ctx ctx; ok = (bit (cc_flags ctx) 0 \<longrightarrow> auth w ctx c pgno n inp); zero = (bt_autovacuum (pBt ctx) \<noteq> 0 \<and> inp = replicate (nat pg) 0) in
     rc = SQLITE_OK \<and> ok \<and> take n out' = DEC (ukey w c) (page_iv n iv_size inp) (take n inp) \<or>
     rc = SQLITE_OK \<and> \<not> ok \<and> zero \<and> out' = replicate (nat pg) 0 \<or>
     rc = SQLITE_ERROR \<and> out' = replicate (nat pg) 0 \<and> (\<not> roomy (w_prov w) \<or> \<not> ok \<and> \<not> zero))"
proof -
  define c where "c = get_cctx for_ctx ctx"
  have c: "cipher_ctx_wf key_size c" using wf by (simp add: c_def)
  have sz: "key_sz ctx = int key_size" "iv_sz ctx = int iv_size" using wf by (simp_all add: codec_wf_iff sizes_wf_def)
  have n: "pg - reserve_sz ctx = int n" "length inp = nat pg" "length out = nat pg" "block_size dvd n" using lay by (simp_all add: page_layout_def)
  have room: "n + iv_size \<le> nat pg" using reserve_room(1) [OF wf] n(1) by (auto split: if_splits)
  let ?out = "buf_write out n (take iv_size (drop n inp))"
  have lay': "page_layout ctx pg n inp ?out" using lay room n by (simp add: page_layout_def length_buf_write)
  have iv: "take iv_size (drop n ?out) = page_iv n iv_size inp" using room n by (simp add: buf_write_def page_iv_def)
  obtain v out1 w1 where v: "(if FLAG_GET (cc_flags ctx) CIPHER_FLAG_HMAC \<and> SQLCIPHER_DECRYPT = SQLCIPHER_DECRYPT
      then page_check P ctx c pgno (nat pg) n inp ?out w else (Accept, ?out, w)) = (v, out1, w1)" by (rule prod_cases3)
  have ck: "w1 = w\<lparr>w_prov := w_prov w1\<rparr> \<and> up (w_prov w1) \<and> (roomy (w_prov w) \<longrightarrow> roomy (w_prov w1)) \<and> length out1 = nat pg \<and>
    take (n + iv_size) out1 = take (n + iv_size) ?out \<and>
    (v = (if bit (cc_flags ctx) 0 \<longrightarrow> auth w ctx c pgno n inp then Accept else if bt_autovacuum (pBt ctx) \<noteq> 0 \<and> inp = replicate (nat pg) 0 then Short_Read else Reject) \<or>
     v = Reject \<and> \<not> roomy (w_prov w))"
  proof (cases "bit (cc_flags ctx) 0")
    case True
    then have "page_check P ctx c pgno (nat pg) n inp ?out w = (v, out1, w1)" using v by simp
    from page_check_result [OF up wf c lay' True this] True show ?thesis by simp
  next
    case False
    then have "v = Accept" "out1 = ?out" "w1 = w" using v by simp_all
    then show ?thesis using False up lay' by (simp add: page_layout_def)
  qed
  have mk: "w_mask w1 = w_mask w" using ck by (metis world.select_convs(4) world.surjective world.update_convs(1))
  have iv1: "take iv_size (drop n out1) = page_iv n iv_size inp"
  proof -
    have "take iv_size (drop n out1) = drop n (take (n + iv_size) out1)" by (simp add: drop_take)
    also have "\<dots> = drop n (take (n + iv_size) ?out)" using ck by simp
    finally show ?thesis using iv by (simp add: drop_take)
  qed
  obtain rc s x where x: "p_cipher P (w_prov w1) SQLCIPHER_DECRYPT (ukey w c) (page_iv n iv_size inp) (take n inp) = (rc, s, x)" by (rule prod_cases3)
  have l: "length (ukey w c) = key_size" "length (page_iv n iv_size inp) = iv_size" "length (take n inp) = n" "block_size dvd length (take n inp)"
    using c room n by (simp_all add: cipher_ctx_wf_def page_iv_def)
  have up1: "up (w_prov w1)" using ck by blast
  note dr = decrypt [OF up1 l(1,2,4) x]
  have key: "take (nat (int key_size)) (ck_key c) = ck_key c" "sqlcipher_shield (w_mask w1) (ck_key c) = ukey w c" using c mk by (simp_all add: cipher_ctx_wf_def)
  have k0: "key_sz ctx \<noteq> 0" "\<not> int n < 0" "\<not> (pgno = 1 \<and> int n = 0)" using sz sizes_pos one by simp_all
  have nn: "nat (int n) = n" "nat (int iv_size) = iv_size" by simp_all
  have ne: "SQLCIPHER_DECRYPT \<noteq> SQLCIPHER_ENCRYPT" by (simp add: SQLCIPHER_ENCRYPT_def SQLCIPHER_DECRYPT_def)
  have res: "page_reserve P ctx SQLCIPHER_DECRYPT n inp out w = (SQLITE_OK, ?out, w)" using ne sz by (simp add: page_reserve_def)
  have step: "sqlcipher_page_cipher P ctx for_ctx pgno SQLCIPHER_DECRYPT pg inp out w =
     (case v of Reject \<Rightarrow> Some (SQLITE_ERROR, sqlcipher_memset out1 0 (nat pg), w1)
      | Short_Read \<Rightarrow> Some (SQLITE_OK, sqlcipher_memset out1 0 (nat pg), w1)
      | Accept \<Rightarrow> if rc \<noteq> SQLITE_OK then Some (SQLITE_ERROR, sqlcipher_memset (buf_write out1 0 x) 0 (nat pg), w1\<lparr>w_prov := s\<rparr>)
                 else Some (SQLITE_OK, buf_write out1 0 x, w1\<lparr>w_prov := s\<rparr>))"
    unfolding sqlcipher_page_cipher_def Let_def c_def [symmetric] n(1) if_not_P [OF k0(3)] if_not_P [OF k0(1)] if_not_P [OF k0(2)] nn(1) res prod.case v
      sz nn(2) iv1 key x
    using ne sizes_pos by (simp split: verdict.split)
  have w1s: "w1\<lparr>w_prov := s\<rparr> = w\<lparr>w_prov := s\<rparr>"
  proof -
    obtain t where "w1 = w\<lparr>w_prov := t\<rparr>" using ck by blast
    then show ?thesis by simp
  qed
  have lo: "length out1 = nat pg" "length (buf_write out1 0 x) = nat pg"
    using ck dr l(3) n room by (auto simp: length_buf_write)
  note mz = memset_all [OF lo(1)] memset_all [OF lo(2)]
  have acc: "v = Accept \<Longrightarrow> bit (cc_flags ctx) 0 \<longrightarrow> auth w ctx c pgno n inp"
    and sr: "v = Short_Read \<Longrightarrow> \<not> (bit (cc_flags ctx) 0 \<longrightarrow> auth w ctx c pgno n inp) \<and> bt_autovacuum (pBt ctx) \<noteq> 0 \<and> inp = replicate (nat pg) 0"
    and rej: "v = Reject \<Longrightarrow> \<not> roomy (w_prov w) \<or> \<not> (bit (cc_flags ctx) 0 \<longrightarrow> auth w ctx c pgno n inp) \<and>
        \<not> (bt_autovacuum (pBt ctx) \<noteq> 0 \<and> inp = replicate (nat pg) 0)"
    using ck by (auto split: if_splits)
  show ?thesis
  proof (cases v)
    case Accept
    have tk: "take n (buf_write out1 0 x) = DEC (ukey w c) (page_iv n iv_size inp) (take n inp)" if "rc = SQLITE_OK"
    proof -
      have e: "x = DEC (ukey w c) (page_iv n iv_size inp) (take n inp)" using dr that by (simp add: served_def)
      then have "length x = n" using cipher_length [OF l(1,2,4)] l(3) by simp
      then show ?thesis using e by (simp add: buf_write_def)
    qed
    have "up s" "roomy (w_prov w) \<longrightarrow> roomy s" "rc = SQLITE_OK \<or> rc = SQLITE_ERROR \<and> \<not> roomy (w_prov w)" using dr ck by (auto simp: served_def)
    then show ?thesis using step Accept tk lo mz acc w1s unfolding c_def [symmetric] Let_def by (cases "rc = SQLITE_OK") auto
  next
    case Short_Read
    then show ?thesis using step mz ck sr unfolding c_def [symmetric] Let_def by auto
  next
    case Reject
    then show ?thesis using step mz ck rej unfolding c_def [symmetric] Let_def by auto
  qed
qed

lemma page_cipher_encrypt:
  assumes up: "up (w_prov w)" and wf: "wf ctx" and lay: "page_layout ctx pg n inp out" and one: "\<not> (pgno = 1 \<and> n = 0)"
  shows "\<exists>rc out' w'. sqlcipher_page_cipher P ctx for_ctx pgno SQLCIPHER_ENCRYPT pg inp out w = Some (rc, out', w') \<and>
    w' = w\<lparr>w_prov := w_prov w'\<rparr> \<and> up (w_prov w') \<and> (roomy (w_prov w) \<longrightarrow> roomy (w_prov w')) \<and> length out' = nat pg \<and>
    (let c = get_cctx for_ctx ctx in
     rc = SQLITE_OK \<and> take n out' = ENC (ukey w c) (page_iv n iv_size out') (take n inp) \<and> (bit (cc_flags ctx) 0 \<longrightarrow> auth w ctx c pgno n out') \<or>
     rc = SQLITE_ERROR \<and> out' = replicate (nat pg) 0 \<and> \<not> roomy (w_prov w))"
proof -
  define c where "c = get_cctx for_ctx ctx"
  have c: "cipher_ctx_wf key_size c" using wf by (simp add: c_def)
  have sz: "key_sz ctx = int key_size" "iv_sz ctx = int iv_size" using wf by (simp_all add: codec_wf_iff sizes_wf_def)
  have n: "pg - reserve_sz ctx = int n" "length inp = nat pg" "length out = nat pg" "block_size dvd n" "pg < 2 ^ 31" using lay by (simp_all add: page_layout_def)
  let ?ms = "mac_size (hmac_algorithm ctx)"
  have room: "n + iv_size \<le> nat pg" "bit (cc_flags ctx) 0 \<Longrightarrow> n + iv_size + ?ms \<le> nat pg" "n + nat (reserve_sz ctx) = nat pg" "iv_size \<le> nat (reserve_sz ctx)"
    using reserve_room(1) [OF wf] n(1) by (auto split: if_splits)
  obtain rr s0 r where r: "p_random P (w_prov w) (take (nat (reserve_sz ctx)) (drop n out)) = (rr, s0, r)" by (rule prod_cases3)
  have rd: "served up roomy (w_prov w) s0 rr True" "length r = nat (reserve_sz ctx)" using random [OF up r] room(3) n(3) by auto
  define w1 where "w1 = w\<lparr>w_prov := s0\<rparr>"
  have up1: "up (w_prov w1)" using rd(1) by (simp add: w1_def served_def)
  let ?out = "buf_write out n r"
  have lo: "length ?out = nat pg" using rd(2) room(3) n(3) by (simp add: length_buf_write)
  define iv where "iv = take iv_size r"
  have iv: "take iv_size (drop n ?out) = iv" using room n rd(2) by (simp add: buf_write_def iv_def)
  obtain rc s x where x: "p_cipher P s0 SQLCIPHER_ENCRYPT (ukey w c) iv (take n inp) = (rc, s, x)" by (rule prod_cases3)
  have l: "length (ukey w c) = key_size" "length iv = iv_size" "length (take n inp) = n" "block_size dvd length (take n inp)"
    using c room n rd(2) by (simp_all add: cipher_ctx_wf_def iv_def)
  have up0: "up s0" using up1 by (simp add: w1_def)
  note er = encrypt [OF up0 l(1,2,4) x]
  let ?out2 = "buf_write ?out 0 x"
  define w2 where "w2 = w\<lparr>w_prov := s\<rparr>"
  have lo2: "length ?out2 = nat pg" using er l(3) lo room(1) by (simp add: length_buf_write)
  have up2: "up (w_prov w2)" using er by (simp add: w2_def served_def)
  obtain rm mac w3 where m: "sqlcipher_page_hmac P ctx c pgno (take (n + iv_size) ?out2) w2 = (rm, mac, w3)" by (rule prod_cases3)
  have "length (take (n + iv_size) ?out2) < 2 ^ 31" using lo2 room(1) n(5) by simp
  note mr = page_hmac_result [OF up2 wf c this m]
  let ?out3 = "buf_write ?out2 (n + iv_size) mac"
  have key: "take (nat (int key_size)) (ck_key c) = ck_key c" using c by (simp add: cipher_ctx_wf_def)
  have k0: "key_sz ctx \<noteq> 0" "\<not> int n < 0" "\<not> (pgno = 1 \<and> int n = 0)" using sz sizes_pos one by simp_all
  have nn: "nat (int n) = n" "nat (int iv_size) = iv_size" by simp_all
  have ne: "SQLCIPHER_ENCRYPT \<noteq> SQLCIPHER_DECRYPT" by (simp add: SQLCIPHER_ENCRYPT_def SQLCIPHER_DECRYPT_def)
  have res: "page_reserve P ctx SQLCIPHER_ENCRYPT n inp out w = (rr, ?out, w1)" using r by (simp add: page_reserve_def w1_def)
  have w1s: "w_prov w1 = s0" "w_mask w1 = w_mask w" "w1\<lparr>w_prov := s\<rparr> = w2" by (simp_all add: w1_def w2_def)
  have chk: "(if FLAG_GET (cc_flags ctx) CIPHER_FLAG_HMAC \<and> SQLCIPHER_ENCRYPT = SQLCIPHER_DECRYPT
      then page_check P ctx c pgno (nat pg) n inp ?out w1 else (Accept, ?out, w1)) = (Accept, ?out, w1)" using ne by simp
  have step: "sqlcipher_page_cipher P ctx for_ctx pgno SQLCIPHER_ENCRYPT pg inp out w =
     (if rr \<noteq> SQLITE_OK then Some (SQLITE_ERROR, sqlcipher_memset ?out 0 (nat pg), w1)
      else if rc \<noteq> SQLITE_OK then Some (SQLITE_ERROR, sqlcipher_memset ?out2 0 (nat pg), w2)
      else if bit (cc_flags ctx) 0
      then if rm \<noteq> SQLITE_OK then Some (SQLITE_ERROR, sqlcipher_memset ?out3 0 (nat pg), w3) else Some (SQLITE_OK, ?out3, w3)
      else Some (SQLITE_OK, ?out2, w2))"
    unfolding sqlcipher_page_cipher_def Let_def c_def [symmetric] n(1) if_not_P [OF k0(3)] if_not_P [OF k0(1)] if_not_P [OF k0(2)] nn(1) res prod.case chk
      sz nn(2) iv verdict.case key w1s x m
    using sizes_pos ne by simp
  obtain s3 where w3s: "w3 = w\<lparr>w_prov := s3\<rparr>"
  proof -
    obtain t where "w3 = w2\<lparr>w_prov := t\<rparr>" using mr(1) by blast
    then have "w3 = w\<lparr>w_prov := t\<rparr>" by (simp add: w2_def)
    then show thesis by (rule that)
  qed
  have ups: "up s" "up s3" using up2 mr(2) by (simp_all add: w2_def w3s served_def)
  have fin: ?thesis if "sqlcipher_page_cipher P ctx for_ctx pgno SQLCIPHER_ENCRYPT pg inp out w = Some (rc, y, w\<lparr>w_prov := t\<rparr>)"
    "up t" "roomy (w_prov w) \<longrightarrow> roomy t" "length y = nat pg"
    "rc = SQLITE_OK \<and> take n y = ENC (ukey w c) (page_iv n iv_size y) (take n inp) \<and> (bit (cc_flags ctx) 0 \<longrightarrow> auth w ctx c pgno n y) \<or>
     rc = SQLITE_ERROR \<and> y = replicate (nat pg) 0 \<and> \<not> roomy (w_prov w)" for rc y t
    using that unfolding c_def [symmetric] Let_def by (intro exI [of _ rc] exI [of _ y] exI [of _ "w\<lparr>w_prov := t\<rparr>"]) simp
  have tk2: "take n ?out2 = ENC (ukey w c) iv (take n inp)" "page_iv n iv_size ?out2 = iv" if "rc = SQLITE_OK"
  proof -
    have e: "x = ENC (ukey w c) iv (take n inp)" using er that by (simp add: served_def)
    then have lx: "length x = n" using cipher_length [OF l(1,2,4)] l(3) by simp
    then show "take n ?out2 = ENC (ukey w c) iv (take n inp)" using e by (simp add: buf_write_def)
    show "page_iv n iv_size ?out2 = iv" using lx iv by (simp add: page_iv_def buf_write_0)
  qed
  show ?thesis
  proof (cases "rr = SQLITE_OK \<and> rc = SQLITE_OK")
    case False
    define t where "t = (if rr = SQLITE_OK then s else s0)"
    have "sqlcipher_page_cipher P ctx for_ctx pgno SQLCIPHER_ENCRYPT pg inp out w = Some (SQLITE_ERROR, replicate (nat pg) 0, w\<lparr>w_prov := t\<rparr>)"
      using step False memset_all [OF lo] memset_all [OF lo2] by (auto simp: t_def w1_def w2_def)
    moreover have "up t" using up0 ups by (simp add: t_def)
    moreover have "\<not> roomy (w_prov w)" using False rd(1) er by (auto simp: served_def)
    ultimately show ?thesis by (intro fin) auto
  next
    case ok: True
    have rm2: "roomy (w_prov w) \<longrightarrow> roomy (w_prov w2)" using rd(1) er by (auto simp: w2_def served_def)
    show ?thesis
    proof (cases "bit (cc_flags ctx) 0")
      case False
      then have "sqlcipher_page_cipher P ctx for_ctx pgno SQLCIPHER_ENCRYPT pg inp out w = Some (SQLITE_OK, ?out2, w\<lparr>w_prov := s\<rparr>)" using step ok by (simp add: w2_def)
      moreover have "roomy (w_prov w) \<longrightarrow> roomy s" using rm2 by (simp add: w2_def)
      moreover have "take n ?out2 = ENC (ukey w c) (page_iv n iv_size ?out2) (take n inp)" using tk2 ok by (simp only:)
      ultimately show ?thesis using ups(1) lo2 False by (intro fin) blast+
    next
      case h: True
      have lo3: "length ?out3 = nat pg" using mr(3) room(2) [OF h] lo2 by (simp add: length_buf_write)
      have t3: "take (n + iv_size) ?out3 = take (n + iv_size) ?out2" using room(1) unfolding lo2 [symmetric] by (rule take_before_write)
      show ?thesis
      proof (cases "rm = SQLITE_OK")
        case False
        then have "sqlcipher_page_cipher P ctx for_ctx pgno SQLCIPHER_ENCRYPT pg inp out w = Some (SQLITE_ERROR, replicate (nat pg) 0, w3)"
          using step ok h memset_all [OF lo3] by simp
        moreover have "\<not> roomy (w_prov w)" using False mr(2) rm2 by (auto simp: served_def)
        ultimately show ?thesis using ups(2) unfolding w3s by (intro fin) auto
      next
        case True
        have mac: "mac = MAC (hmac_algorithm ctx) (uhkey w c) (take (n + iv_size) ?out2 @ pgno_raw ctx pgno)"
          using mr(2) True by (simp add: served_def w2_def)
        have "alg_ok (hmac_algorithm ctx)" using wf by (simp add: codec_wf_iff)
        then have lm: "length mac = ?ms" unfolding mac using mac_length by (simp add: alg_ok_def)
        have "take n ?out3 = take n (take (n + iv_size) ?out3)" "page_iv n iv_size ?out3 = drop n (take (n + iv_size) ?out3)"
          "page_iv n iv_size ?out2 = drop n (take (n + iv_size) ?out2)" by (simp_all add: page_iv_def drop_take)
        then have p: "take n ?out3 = take n ?out2" "page_iv n iv_size ?out3 = page_iv n iv_size ?out2" by (simp_all only: t3 take_take) simp
        have "page_mac n iv_size ?ms ?out3 = mac" using lm room(1) lo2 by (simp add: page_mac_def drop_write)
        then have "auth w ctx c pgno n ?out3" using mac t3 by (simp add: page_authentic_def)
        moreover have "sqlcipher_page_cipher P ctx for_ctx pgno SQLCIPHER_ENCRYPT pg inp out w = Some (SQLITE_OK, ?out3, w3)" using step ok h True by simp
        moreover have "roomy (w_prov w) \<longrightarrow> roomy s3" using mr(2) rm2 by (auto simp: served_def w3s)
        moreover have "take n ?out3 = ENC (ukey w c) (page_iv n iv_size ?out3) (take n inp)" unfolding p using tk2 ok by (simp only:)
        ultimately show ?thesis using ups(2) lo3 unfolding w3s by (intro fin) blast+
      qed
    qed
  qed
qed

text \<open>Decryption of an encrypted page, by a context with the same keys and the same layout.\<close>

lemma page_round_trip_wf:
  assumes e: "up (w_prov w)" "wf ctx" "page_layout ctx pg n x y0" "0 < n"
      "sqlcipher_page_cipher P ctx f pgno SQLCIPHER_ENCRYPT pg x y0 w = Some (SQLITE_OK, y, w')"
    and d: "up (w_prov v)" "wf ctx2" "length z0 = nat pg"
      "sqlcipher_page_cipher P ctx2 g pgno SQLCIPHER_DECRYPT pg y z0 v = Some (rc, z, v')"
    and same: "reserve_sz ctx2 = reserve_sz ctx" "bit (cc_flags ctx2) 0 = bit (cc_flags ctx) 0" "pgno_raw ctx2 pgno = pgno_raw ctx pgno"
      "hmac_algorithm ctx2 = hmac_algorithm ctx" "ukey v (get_cctx g ctx2) = ukey w (get_cctx f ctx)"
      "bit (cc_flags ctx) 0 \<Longrightarrow> uhkey v (get_cctx g ctx2) = uhkey w (get_cctx f ctx)"
  shows "rc = SQLITE_OK \<and> take n z = take n x \<or> rc = SQLITE_ERROR \<and> z = replicate (nat pg) 0 \<and> \<not> roomy (w_prov v)"
proof -
  let ?c = "get_cctx f ctx" and ?d = "get_cctx g ctx2"
  have one: "\<not> (pgno = 1 \<and> n = 0)" using e(4) by simp
  from page_cipher_encrypt [OF e(1-3) one, of f] e(5)
  have y: "length y = nat pg" "take n y = ENC (ukey w ?c) (page_iv n iv_size y) (take n x)" "bit (cc_flags ctx) 0 \<longrightarrow> auth w ctx ?c pgno n y"
    by (auto simp: Let_def)
  have lay: "page_layout ctx2 pg n y z0" using e(3) y(1) d(3) same(1) by (simp add: page_layout_def)
  have a: "bit (cc_flags ctx2) 0 \<longrightarrow> auth v ctx2 ?d pgno n y" using y(3) same by simp
  from page_cipher_decrypt [OF d(1,2) lay one, of g] d(4) a
  have z: "rc = SQLITE_OK \<and> take n z = DEC (ukey v ?d) (page_iv n iv_size y) (take n y) \<or> rc = SQLITE_ERROR \<and> z = replicate (nat pg) 0 \<and> \<not> roomy (w_prov v)"
    by (auto simp: Let_def)
  have room: "n + iv_size \<le> nat pg" using reserve_room(1) [OF e(2)] e(3) by (auto simp: page_layout_def split: if_splits)
  have "cipher_ctx_wf key_size ?c" using e(2) by simp
  moreover have "length (take n x) = n" using room e(3) by (simp add: page_layout_def)
  ultimately have "length (ukey w ?c) = key_size" "length (page_iv n iv_size y) = iv_size" "block_size dvd length (take n x)"
    using room y(1) e(3) by (simp_all add: cipher_ctx_wf_def page_iv_def page_layout_def)
  then show ?thesis using z y(2) decrypt_encrypt same(5) by simp
qed

end

section \<open>Properties\<close>

text \<open>The context of one connection and that of another, with the same keys and the same format of pages.\<close>

definition same_format :: "u32 \<Rightarrow> codec_ctx \<Rightarrow> codec_ctx \<Rightarrow> bool" where
  "same_format pgno a b \<longleftrightarrow> reserve_sz a = reserve_sz b \<and> FLAG_GET (cc_flags a) CIPHER_FLAG_HMAC = FLAG_GET (cc_flags b) CIPHER_FLAG_HMAC \<and>
     pgno_raw a pgno = pgno_raw b pgno \<and> hmac_algorithm a = hmac_algorithm b"

definition same_keys :: "'s world \<Rightarrow> cipher_ctx \<Rightarrow> 't world \<Rightarrow> cipher_ctx \<Rightarrow> bool" where
  "same_keys w c v d \<longleftrightarrow> sqlcipher_shield (w_mask w) (ck_key c) = sqlcipher_shield (w_mask v) (ck_key d) \<and>
     sqlcipher_shield (w_mask w) (ck_hmac_key c) = sqlcipher_shield (w_mask v) (ck_hmac_key d)"

text \<open>
  A page that one connection has encrypted is decrypted to the same bytes by any connection
  with the same keys and format, whatever its shield mask and whichever of its contexts it uses, unless an allocation
  fails, and then the output is wiped.
\<close>

theorem page_round_trip:
  assumes "ltc_up (w_prov w)" "ltc_wf ctx" "pg - reserve_sz ctx = int n" "0 < n" "16 dvd n" "pg < 2 ^ 31" "length x = nat pg" "length y0 = nat pg"
    and "sqlcipher_page_cipher sqlcipher_ltc_setup ctx f pgno SQLCIPHER_ENCRYPT pg x y0 w = Some (SQLITE_OK, y, w')"
    and "ltc_up (w_prov v)" "ltc_wf ctx2" "length z0 = nat pg" "same_format pgno ctx2 ctx" "same_keys v (get_cctx g ctx2) w (get_cctx f ctx)"
    and "sqlcipher_page_cipher sqlcipher_ltc_setup ctx2 g pgno SQLCIPHER_DECRYPT pg y z0 v = Some (rc, z, v')"
  shows "rc = SQLITE_OK \<and> take n z = take n x \<or> rc = SQLITE_ERROR \<and> z = replicate (nat pg) 0 \<and> \<not> ltc_roomy (w_prov v)"
proof -
  have lay: "ltc.page_layout ctx pg n x y0" using assms(3-8) by (simp add: ltc.page_layout_def)
  show ?thesis
    using ltc.page_round_trip_wf [OF assms(1,2) lay assms(4,9,10,11,12,15)] assms(13,14) by (simp add: same_format_def same_keys_def)
qed

theorem page_round_trip_witness:
  "\<exists>y w' z v'. sqlcipher_page_cipher sqlcipher_ltc_setup sample_ctx 1 7 SQLCIPHER_ENCRYPT 512 (replicate 512 5) (replicate 512 0) sample_world = Some (SQLITE_OK, y, w') \<and>
     sqlcipher_page_cipher sqlcipher_ltc_setup sample_ctx 0 7 SQLCIPHER_DECRYPT 512 y (replicate 512 0) sample_world = Some (SQLITE_OK, z, v') \<and>
     take 432 z = replicate 432 5"
proof -
  let ?x = "replicate 512 5 :: bytes" and ?o = "replicate 512 0 :: bytes"
  have n: "(512 :: int) - reserve_sz sample_ctx = int 432" "16 dvd (432 :: nat)" by (simp_all add: sample_ctx_def)
  have lay: "ltc.page_layout sample_ctx 512 432 x ?o" if "length x = 512" for x using that n by (simp add: ltc.page_layout_def)
  have one: "\<not> ((7 :: u32) = 1 \<and> (432 :: nat) = 0)" by simp
  obtain y w' where e: "sqlcipher_page_cipher sqlcipher_ltc_setup sample_ctx 1 7 SQLCIPHER_ENCRYPT 512 ?x ?o sample_world = Some (SQLITE_OK, y, w')" "length y = 512"
    using ltc.page_cipher_encrypt [OF sample_world_ok(1) sample_wf lay one, of ?x 1] sample_world_ok(2) by (auto simp: Let_def)
  obtain rc z v' where d: "sqlcipher_page_cipher sqlcipher_ltc_setup sample_ctx 0 7 SQLCIPHER_DECRYPT 512 y ?o sample_world = Some (rc, z, v')"
    using ltc.page_cipher_decrypt [OF sample_world_ok(1) sample_wf lay one, of y 0] e(2) by auto
  have "same_format 7 sample_ctx sample_ctx" "same_keys sample_world (get_cctx 0 sample_ctx) sample_world (get_cctx 1 sample_ctx)"
    by (simp_all add: same_format_def same_keys_def get_cctx_def sample_ctx_def)
  with page_round_trip [OF sample_world_ok(1) sample_wf n(1) _ n(2) _ _ _ e(1) sample_world_ok(1) sample_wf _ _ _ d] sample_world_ok(2)
  have "rc = SQLITE_OK \<and> take 432 z = take 432 ?x" by simp
  then show ?thesis using e(1) d by auto
qed

text \<open>
  C17: with HMAC on, decryption accepts a page only if it carries the code of its ciphertext, its vector
  and its number, with two exceptions: under auto-vacuum a page of zeros is accepted as a short read, and a first page
  that is nothing but plaintext header and reserve is passed over unchecked and without touching the output.  What is not
  accepted is refused with an error and, like a short read, leaves nothing but zeros in the output.
\<close>

theorem page_tampering:
  assumes "ltc_up (w_prov w)" "ltc_wf ctx" "pg - reserve_sz ctx = int n" "16 dvd n" "pg < 2 ^ 31" "length x = nat pg" "length y = nat pg"
    and "FLAG_GET (cc_flags ctx) CIPHER_FLAG_HMAC"
  shows "\<exists>rc z w'. sqlcipher_page_cipher sqlcipher_ltc_setup ctx f pgno SQLCIPHER_DECRYPT pg x y w = Some (rc, z, w') \<and>
    (let authentic = page_authentic (ltc_mac (hmac_algorithm ctx)) 16 (ltc_mac_size (hmac_algorithm ctx))
           (sqlcipher_shield (w_mask w) (ck_hmac_key (get_cctx f ctx))) (pgno_raw ctx pgno) n x;
         short_read = bt_autovacuum (pBt ctx) \<noteq> 0 \<and> x = replicate (nat pg) 0 in
     if pgno = 1 \<and> n = 0 then rc = SQLITE_OK \<and> z = y \<and> w' = w
     else (rc = SQLITE_OK \<longrightarrow> authentic \<or> short_read) \<and> (\<not> authentic \<longrightarrow> \<not> short_read \<longrightarrow> rc = SQLITE_ERROR) \<and>
       (rc \<noteq> SQLITE_OK \<or> \<not> authentic \<longrightarrow> z = replicate (nat pg) 0) \<and> (rc \<noteq> SQLITE_OK \<longrightarrow> \<not> authentic \<or> \<not> ltc_roomy (w_prov w)))"
proof (cases "pgno = 1 \<and> n = 0")
  case True
  then show ?thesis using assms(3) by (simp add: sqlcipher_page_cipher_def Let_def)
next
  case False
  have lay: "ltc.page_layout ctx pg n x y" using assms(3-7) by (simp add: ltc.page_layout_def)
  show ?thesis using ltc.page_cipher_decrypt [OF assms(1,2) lay False, of f] assms(8) unfolding Let_def FLAG_GET_bit if_not_P [OF False] by fastforce
qed

theorem page_tampering_witness:
  "\<exists>rc z w'. sqlcipher_page_cipher sqlcipher_ltc_setup sample_ctx 0 7 SQLCIPHER_DECRYPT 512 (replicate 512 5) (replicate 512 0) sample_world = Some (rc, z, w') \<and>
     (rc \<noteq> SQLITE_OK \<longrightarrow> z = replicate 512 0)"
proof -
  have n: "(512 :: int) - reserve_sz sample_ctx = int 432" "16 dvd (432 :: nat)" "FLAG_GET (cc_flags sample_ctx) CIPHER_FLAG_HMAC" by (simp_all add: sample_ctx_def)
  show ?thesis using page_tampering [OF sample_world_ok(1) sample_wf n(1) n(2) _ _ _ n(3), of "replicate 512 5" "replicate 512 0" 0 7] by (auto simp: Let_def)
qed

text \<open>
  The size of a plaintext header is checked when it is set but not when the reserve grows: after
  \<open>cipher_use_hmac\<close> turns HMAC on, a header accepted before may not fit any more, and the first page is then processed with a
  negative size.
\<close>

theorem header_not_checked_again:
  assumes "ltc_up (w_prov w)" "ltc_wf ctx" "\<not> FLAG_GET (cc_flags ctx) CIPHER_FLAG_KEY_USED"
    "sqlcipher_codec_ctx_set_plaintext_header_size ctx h = (SQLITE_OK, ctx1)"
    "sqlcipher_codec_ctx_set_use_hmac sqlcipher_ltc_setup ctx1 True w = (rc, ctx2)"
    "page_sz ctx - 16 - int (ltc_mac_size (hmac_algorithm ctx)) < h"
  shows "rc = SQLITE_OK \<and> ltc_wf ctx2 \<and> plaintext_header_sz ctx2 = h \<and>
    sqlcipher_page_cipher sqlcipher_ltc_setup ctx2 f 1 mode (page_sz ctx2 - h) x y w = None"
proof -
  have c1: "ctx1 = ctx\<lparr>plaintext_header_sz := h\<rparr>" using assms(4) by (auto simp: sqlcipher_codec_ctx_set_plaintext_header_size_def split: if_splits)
  have wf1: "ltc_wf ctx1" using ltc.other_settings_wf(4) [OF assms(2,4)] .
  note w2 = ltc.use_hmac_wf [OF assms(1) wf1 assms(5)]
  let ?c = "ctx1\<lparr>cc_flags := FLAG_SET (cc_flags ctx1) CIPHER_FLAG_HMAC\<rparr>"
  have sz: "sizes_wf 32 16 16 ?c" "alg_ok (hmac_algorithm ?c)" using wf1 by (simp_all add: codec_wf_iff)
  have "ctx2 = ?c\<lparr>hmac_sz := int (ltc_mac_size (hmac_algorithm ?c)), reserve_sz := reserve_of 16 16 ltc_mac_size ?c\<rparr>"
    using assms(3,5) ltc.reserve_setup_eq [OF assms(1) sz] by (simp add: sqlcipher_codec_ctx_set_use_hmac_def c1)
  then have e: "plaintext_header_sz ctx2 = h" "page_sz ctx2 = page_sz ctx" "bit (cc_flags ctx2) 0" "hmac_algorithm ctx2 = hmac_algorithm ctx"
    by (simp_all add: c1)
  have r: "16 + int (ltc_mac_size (hmac_algorithm ctx)) \<le> reserve_sz ctx2" using ltc.reserve_room(1) [of ctx2] w2 e(3,4) by simp
  then have "page_sz ctx2 - h - reserve_sz ctx2 < 0" using assms(6) e(2) by linarith
  moreover have "key_sz ctx2 = 32" using w2 key_sz_wf by fastforce
  ultimately have "sqlcipher_page_cipher sqlcipher_ltc_setup ctx2 f 1 mode (page_sz ctx2 - h) x y w = None"
    unfolding sqlcipher_page_cipher_def Let_def by simp
  then show ?thesis using w2 e(1) by blast
qed

theorem header_not_checked_again_witness:
  "let ctx = snd (sqlcipher_codec_ctx_set_use_hmac sqlcipher_ltc_setup sample_ctx False sample_world);
       (rc1, ctx1) = sqlcipher_codec_ctx_set_plaintext_header_size ctx 448;
       (rc2, ctx2) = sqlcipher_codec_ctx_set_use_hmac sqlcipher_ltc_setup ctx1 True sample_world in
   rc1 = SQLITE_OK \<and> rc2 = SQLITE_OK \<and>
   sqlcipher_page_cipher sqlcipher_ltc_setup ctx2 0 1 SQLCIPHER_ENCRYPT 64 (replicate 64 0) (replicate 64 0) sample_world = None"
proof -
  obtain rc0 ctx where c: "sqlcipher_codec_ctx_set_use_hmac sqlcipher_ltc_setup sample_ctx False sample_world = (rc0, ctx)" by (rule prod.exhaust)
  let ?c = "sample_ctx\<lparr>cc_flags := FLAG_UNSET (cc_flags sample_ctx) CIPHER_FLAG_HMAC\<rparr>"
  have sz: "sizes_wf 32 16 16 ?c" "alg_ok (hmac_algorithm ?c)" using sample_wf by (simp_all add: codec_wf_iff)
  have k: "\<not> bit (cc_flags sample_ctx) 3" by (simp add: sample_ctx_def)
  then have e: "ctx = ?c\<lparr>hmac_sz := int (ltc_mac_size (hmac_algorithm ?c)), reserve_sz := reserve_of 16 16 ltc_mac_size ?c\<rparr>"
    using c ltc.reserve_setup_eq [OF sample_world_ok(1) sz] by (simp add: sqlcipher_codec_ctx_set_use_hmac_def)
  have wf: "ltc_wf ctx" using ltc.use_hmac_wf [OF sample_world_ok(1) sample_wf c] by simp
  have "reserve_of 16 16 ltc_mac_size ?c = 16" by (simp add: reserve_of_def round_up_def)
  then have f: "reserve_sz ctx = 16" "block_sz ctx = 16" "page_sz ctx = 512" "hmac_algorithm ctx = 2" "\<not> bit (cc_flags ctx) 3"
    using k by (simp_all add: e sample_ctx_def)
  obtain rc1 ctx1 where h: "sqlcipher_codec_ctx_set_plaintext_header_size ctx 448 = (rc1, ctx1)" by (rule prod.exhaust)
  have ok: "rc1 = SQLITE_OK" using h f by (simp add: sqlcipher_codec_ctx_set_plaintext_header_size_def)
  obtain rc2 ctx2 where u: "sqlcipher_codec_ctx_set_use_hmac sqlcipher_ltc_setup ctx1 True sample_world = (rc2, ctx2)" by (rule prod.exhaust)
  have "rc2 = SQLITE_OK \<and> ltc_wf ctx2 \<and> plaintext_header_sz ctx2 = 448 \<and>
    sqlcipher_page_cipher sqlcipher_ltc_setup ctx2 0 1 SQLCIPHER_ENCRYPT (page_sz ctx2 - 448) (replicate 64 0) (replicate 64 0) sample_world = None"
    using header_not_checked_again [OF sample_world_ok(1) wf _ h [unfolded ok] u] f by simp
  moreover have "page_sz ctx2 = 512"
    using u h f by (auto simp: sqlcipher_codec_ctx_set_use_hmac_def sqlcipher_codec_ctx_reserve_setup_def sqlcipher_codec_ctx_set_plaintext_header_size_def Let_def
      split: if_splits)
  ultimately show ?thesis using c h u ok by simp
qed

end
