(* ===== verification/Codec.thy ===== *)
theory Codec
  imports PageCipher
begin

text \<open>
  \<open>sqlite3Codec\<close>, the callback through which the pager reads, writes and journals pages: derivation of the
  keys on first use, the header of the first page, encryption and decryption in the buffer of the
  context, and the error that once set disables the codec for good.
\<close>

unbundle bit_operations_syntax

section \<open>The code\<close>

definition CODEC_READ_OP :: int where "CODEC_READ_OP = 3"
definition CODEC_WRITE_OP :: int where "CODEC_WRITE_OP = 6"
definition CODEC_JOURNAL_OP :: int where "CODEC_JOURNAL_OP = 7"

lemmas codec_op_defs = CODEC_READ_OP_def CODEC_WRITE_OP_def CODEC_JOURNAL_OP_def

text \<open>The string \<open>SQLite format 3\<close> with its NUL.\<close>

definition SQLITE_FILE_HEADER :: bytes where
  "SQLITE_FILE_HEADER = [83, 81, 76, 105, 116, 101, 32, 102, 111, 114, 109, 97, 116, 32, 51, 0]"

text \<open>What the callback returns: no page, the page it was given, or the buffer of the context.\<close>

datatype codec_out = Null | Page | Buffer

definition page_offset :: "codec_ctx \<Rightarrow> u32 \<Rightarrow> int" where
  "page_offset ctx pgno =
     (if pgno = 1 then if plaintext_header_sz ctx \<noteq> 0 then plaintext_header_sz ctx else FILE_HEADER_SZ else 0)"

text \<open>
  \<open>pData\<close> is the \<open>page_sz\<close> bytes at the pointer; the result has the page as the operation leaves it.  A context
  without a buffer is dereferenced: \<open>None\<close>.
\<close>

definition codec_read :: "'s provider \<Rightarrow> codec_ctx \<Rightarrow> bytes \<Rightarrow> u32 \<Rightarrow> int \<Rightarrow> 's world \<Rightarrow> (codec_out \<times> bytes \<times> codec_ctx \<times> 's world) option" where
  "codec_read P ctx pData pgno offset w =
     (case cc_buffer ctx of None \<Rightarrow> None
      | Some buffer \<Rightarrow>
          let n = nat offset;
              buffer = (if pgno = 1
                then buf_write buffer 0 (take n (if plaintext_header_sz ctx \<noteq> 0 then pData else SQLITE_FILE_HEADER)) else buffer) in
          case sqlcipher_page_cipher P ctx 0 pgno SQLCIPHER_DECRYPT (page_sz ctx - offset) (drop n pData) (drop n buffer) w of
            None \<Rightarrow> None
          | Some (rc, out, w) \<Rightarrow>
              let buffer = buf_write buffer n out;
                  (buffer, ctx) =
                    (if rc \<noteq> SQLITE_OK
                     then (buf_write buffer n (sqlcipher_memset (drop n buffer) 0 (nat (page_sz ctx - offset))),
                           if plaintext_header_sz ctx = page_sz ctx - reserve_sz ctx then ctx else sqlcipher_codec_ctx_set_error ctx rc)
                     else (buffer, ctx\<lparr>cc_flags := FLAG_SET (cc_flags ctx) CIPHER_FLAG_KEY_USED\<rparr>))
              in Some (Page, buf_write pData 0 (take (nat (page_sz ctx)) buffer), ctx\<lparr>cc_buffer := Some buffer\<rparr>, w))"

text \<open>For the database with the write context, for the journal with the read context.\<close>

definition codec_write :: "'s provider \<Rightarrow> int \<Rightarrow> codec_ctx \<Rightarrow> bytes \<Rightarrow> u32 \<Rightarrow> int \<Rightarrow> 's world \<Rightarrow> (codec_out \<times> bytes \<times> codec_ctx \<times> 's world) option" where
  "codec_write P cctx ctx pData pgno offset w =
     (let n = nat offset;
          (rc, salt, ctx, w) = (if pgno = 1 then sqlcipher_codec_ctx_get_kdf_salt P ctx w else (SQLITE_OK, [], ctx, w)) in
      if rc \<noteq> SQLITE_OK then Some (Null, pData, sqlcipher_codec_ctx_set_error ctx rc, w)
      else case cc_buffer ctx of None \<Rightarrow> None
      | Some buffer \<Rightarrow>
          let buffer = (if pgno = 1 then buf_write buffer 0 (take n (if plaintext_header_sz ctx \<noteq> 0 then pData else salt)) else buffer) in
          case sqlcipher_page_cipher P ctx cctx pgno SQLCIPHER_ENCRYPT (page_sz ctx - offset) (drop n pData) (drop n buffer) w of
            None \<Rightarrow> None
          | Some (rc, out, w) \<Rightarrow>
              let buffer = buf_write buffer n out in
              if rc \<noteq> SQLITE_OK
              then Some (Null, pData,
                     (sqlcipher_codec_ctx_set_error ctx rc)
                       \<lparr>cc_buffer := Some (buf_write buffer n (sqlcipher_memset (drop n buffer) 0 (nat (page_sz ctx - offset))))\<rparr>, w)
              else Some (Buffer, pData, ctx\<lparr>cc_flags := FLAG_SET (cc_flags ctx) CIPHER_FLAG_KEY_USED, cc_buffer := Some buffer\<rparr>, w))"

definition sqlite3Codec :: "'s provider \<Rightarrow> codec_ctx \<Rightarrow> bytes \<Rightarrow> u32 \<Rightarrow> int \<Rightarrow> 's world \<Rightarrow> (codec_out \<times> bytes \<times> codec_ctx \<times> 's world) option" where
  "sqlite3Codec P ctx pData pgno mode w =
     (if cc_error ctx \<noteq> SQLITE_OK then Some (Null, pData, sqlcipher_codec_ctx_set_error ctx (cc_error ctx), w)
      else let (rc, ctx, w) = sqlcipher_codec_key_derive P ctx w in
        if rc \<noteq> SQLITE_OK then Some (Null, pData, sqlcipher_codec_ctx_set_error ctx rc, w)
        else if plaintext_header_sz ctx < 0 then Some (Null, pData, sqlcipher_codec_ctx_set_error ctx SQLITE_ERROR, w)
        else let offset = page_offset ctx pgno in
          if mode = CODEC_READ_OP then codec_read P ctx pData pgno offset w
          else if mode = CODEC_WRITE_OP then codec_write P 1 ctx pData pgno offset w
          else if mode = CODEC_JOURNAL_OP then codec_write P 0 ctx pData pgno offset w
          else Some (Page, pData, sqlcipher_codec_ctx_set_error ctx SQLITE_ERROR, w))"

section \<open>The error latch\<close>

lemma codec_disabled:
  assumes "cc_error ctx \<noteq> SQLITE_OK"
  shows "sqlite3Codec P ctx pData pgno mode w = Some (Null, pData, sqlcipher_codec_ctx_set_error ctx (cc_error ctx), w)"
  using assms by (simp add: sqlite3Codec_def)

text \<open>A sequence of calls, with the page, its number and the operation of each; the answers and the pages they leave.\<close>

type_synonym codec_call = "bytes \<times> u32 \<times> int"

fun codec_calls :: "'s provider \<Rightarrow> codec_ctx \<Rightarrow> codec_call list \<Rightarrow> 's world \<Rightarrow> ((codec_out \<times> bytes) list \<times> codec_ctx \<times> 's world) option" where
  "codec_calls P ctx [] w = Some ([], ctx, w)"
| "codec_calls P ctx ((pData, pgno, mode) # cs) w =
     (case sqlite3Codec P ctx pData pgno mode w of None \<Rightarrow> None
      | Some (out, page, ctx, w) \<Rightarrow>
          (case codec_calls P ctx cs w of None \<Rightarrow> None | Some (outs, ctx, w) \<Rightarrow> Some ((out, page) # outs, ctx, w)))"

lemma set_error_simps [simp]:
  "cc_error (sqlcipher_codec_ctx_set_error ctx e) = e" "bt_pager_err (pBt (sqlcipher_codec_ctx_set_error ctx e)) = e"
  "sqlcipher_codec_ctx_set_error (sqlcipher_codec_ctx_set_error ctx e) e = sqlcipher_codec_ctx_set_error ctx e"
  by (simp_all add: sqlcipher_codec_ctx_set_error_def)

lemma disabled_calls:
  assumes "cc_error ctx \<noteq> SQLITE_OK"
  shows "codec_calls P ctx cs w = Some (map (\<lambda>c. (Null, fst c)) cs, if cs = [] then ctx else sqlcipher_codec_ctx_set_error ctx (cc_error ctx), w)"
  using assms
proof (induction cs arbitrary: ctx)
  case (Cons c cs)
  obtain pData pgno mode where c: "c = (pData, pgno, mode)" by (cases c)
  have "codec_calls P (sqlcipher_codec_ctx_set_error ctx (cc_error ctx)) cs w =
    Some (map (\<lambda>c. (Null, fst c)) cs, sqlcipher_codec_ctx_set_error ctx (cc_error ctx), w)"
    using Cons.IH [of "sqlcipher_codec_ctx_set_error ctx (cc_error ctx)"] Cons.prems by simp
  then show ?case using Cons.prems by (simp add: c codec_disabled)
qed simp

section \<open>One page\<close>

text \<open>
  The bytes of a page before the encrypted part: none except on the first page, where they are the plaintext header of the page or, without
  one, what replaces the header.
\<close>

definition page_head :: "codec_ctx \<Rightarrow> u32 \<Rightarrow> bytes \<Rightarrow> bytes \<Rightarrow> bytes" where
  "page_head ctx pgno magic pData = take (nat (page_offset ctx pgno)) (if plaintext_header_sz ctx \<noteq> 0 then pData else magic)"

text \<open>A plaintext header that leaves whole blocks.\<close>

definition header_fits :: "nat \<Rightarrow> codec_ctx \<Rightarrow> bool" where
  "header_fits bs ctx \<longleftrightarrow> int bs dvd page_sz ctx - reserve_sz ctx \<and> int bs dvd page_offset ctx 1 \<and>
     0 \<le> page_offset ctx 1 \<and> page_offset ctx 1 \<le> page_sz ctx - reserve_sz ctx"

lemma page_offset_other [simp]: "pgno \<noteq> 1 \<Longrightarrow> page_offset ctx pgno = 0"
  by (simp add: page_offset_def)

lemma page_head_other [simp]: "pgno \<noteq> 1 \<Longrightarrow> page_head ctx pgno m x = []"
  by (simp add: page_head_def)

lemma length_page_head:
  assumes "plaintext_header_sz ctx = 0 \<Longrightarrow> length m = 16" "page_offset ctx pgno \<le> int (length x)"
  shows "length (page_head ctx pgno m x) = nat (page_offset ctx pgno)"
  using assms by (auto simp: page_head_def page_offset_def FILE_HEADER_SZ_def)

lemma page_offset_cong:
  "plaintext_header_sz c' = plaintext_header_sz c \<Longrightarrow> page_offset c' = page_offset c"
  "plaintext_header_sz c' = plaintext_header_sz c \<Longrightarrow> page_head c' = page_head c"
  by (simp_all add: page_offset_def page_head_def fun_eq_iff)

lemma length_file_header [simp]: "length SQLITE_FILE_HEADER = 16"
  by (simp add: SQLITE_FILE_HEADER_def)

lemma head_write:
  assumes "length h = n" "n \<le> length b"
  shows "drop n (buf_write b 0 h) = drop n b" "length out = length b - n \<Longrightarrow> buf_write (buf_write b 0 h) n out = h @ out"
  using assms by (simp_all add: buf_write_def)

text \<open>The two operations, given what the page cipher returns.\<close>

lemma codec_read_eq:
  assumes b: "cc_buffer ctx = Some b" "length b = nat (page_sz ctx)" "length pData = nat (page_sz ctx)"
    and off: "offset = page_offset ctx pgno" "n = nat offset" "0 \<le> offset" "offset \<le> page_sz ctx"
    and c: "sqlcipher_page_cipher P ctx 0 pgno SQLCIPHER_DECRYPT (page_sz ctx - offset) (drop n pData) (drop n b) w = Some (rc, out, w')"
      "length out = nat (page_sz ctx - offset)"
    and page: "page = page_head ctx pgno SQLITE_FILE_HEADER pData @ (if rc = SQLITE_OK then out else replicate (nat (page_sz ctx - offset)) 0)"
  shows "codec_read P ctx pData pgno offset w = Some (Page, page,
     (if rc = SQLITE_OK then ctx\<lparr>cc_flags := FLAG_SET (cc_flags ctx) CIPHER_FLAG_KEY_USED\<rparr>
      else if plaintext_header_sz ctx = page_sz ctx - reserve_sz ctx then ctx else sqlcipher_codec_ctx_set_error ctx rc)\<lparr>cc_buffer := Some page\<rparr>, w')"
proof -
  let ?h = "page_head ctx pgno SQLITE_FILE_HEADER pData"
  let ?b = "if pgno = 1 then buf_write b 0 (take n (if plaintext_header_sz ctx \<noteq> 0 then pData else SQLITE_FILE_HEADER)) else b"
  have lh: "length ?h = n" using length_page_head [of ctx SQLITE_FILE_HEADER pgno pData] off b(3) by simp
  have nb: "n \<le> length b" "length out = length b - n" using off b(2) c(2) by simp_all
  have bb: "?b = buf_write b 0 ?h" using off by (cases "pgno = 1") (simp_all add: page_head_def buf_write_def)
  note hw = head_write [OF lh nb(1)]
  have w1: "buf_write ?b n out = ?h @ out" "drop n ?b = drop n b" unfolding bb using hw(1) hw(2) [OF nb(2)] by simp_all
  have dr: "drop n (?h @ out) = out" using lh by simp
  have w2: "buf_write (?h @ out) n (sqlcipher_memset (drop n (?h @ out)) 0 (nat (page_sz ctx - offset))) = ?h @ replicate (nat (page_sz ctx - offset)) 0"
    unfolding dr ltc.memset_all [OF c(2)] using lh c(2) by (simp add: buf_write_def)
  have pg: "rc = SQLITE_OK \<Longrightarrow> ?h @ out = page" "rc \<noteq> SQLITE_OK \<Longrightarrow> ?h @ replicate (nat (page_sz ctx - offset)) 0 = page" by (simp_all add: page)
  have page_sz_error: "page_sz (sqlcipher_codec_ctx_set_error ctx e) = page_sz ctx" for e by (simp add: sqlcipher_codec_ctx_set_error_def)
  have full: "buf_write pData 0 (take (nat (page_sz ctx)) page) = page"
  proof -
    have "length page = nat (page_sz ctx)" unfolding page using lh off c(2) by simp
    then show ?thesis using b(3) by (simp add: buf_write_full)
  qed
  show ?thesis
    unfolding codec_read_def b(1) option.case Let_def off(2) [symmetric] w1(2) c(1) prod.case w1(1) w2
    using full pg by (cases "rc = SQLITE_OK") (simp_all add: page_sz_error)
qed

lemma codec_write_eq:
  assumes b: "cc_buffer ctx = Some b" "length b = nat (page_sz ctx)" "length pData = nat (page_sz ctx)" "length (kdf_salt ctx) = 16"
    and off: "offset = page_offset ctx pgno" "n = nat offset" "0 \<le> offset" "offset \<le> page_sz ctx"
    and salt: "pgno = 1 \<Longrightarrow> bit (cc_flags ctx) 4"
    and c: "sqlcipher_page_cipher P ctx f pgno SQLCIPHER_ENCRYPT (page_sz ctx - offset) (drop n pData) (drop n b) w = Some (rc, out, w')"
      "length out = nat (page_sz ctx - offset)"
    and page: "page = page_head ctx pgno (kdf_salt ctx) pData @ (if rc = SQLITE_OK then out else replicate (nat (page_sz ctx - offset)) 0)"
  shows "codec_write P f ctx pData pgno offset w = Some (if rc = SQLITE_OK then Buffer else Null, pData,
     (if rc = SQLITE_OK then ctx\<lparr>cc_flags := FLAG_SET (cc_flags ctx) CIPHER_FLAG_KEY_USED\<rparr> else sqlcipher_codec_ctx_set_error ctx rc)
       \<lparr>cc_buffer := Some page\<rparr>, w')"
proof -
  let ?h = "page_head ctx pgno (kdf_salt ctx) pData"
  let ?b = "if pgno = 1 then buf_write b 0 (take n (if plaintext_header_sz ctx \<noteq> 0 then pData else kdf_salt ctx)) else b"
  have lh: "length ?h = n" using length_page_head [of ctx "kdf_salt ctx" pgno pData] off b(3,4) by simp
  have nb: "n \<le> length b" "length out = length b - n" using off b(2) c(2) by simp_all
  have bb: "?b = buf_write b 0 ?h" using off by (cases "pgno = 1") (simp_all add: page_head_def buf_write_def)
  note hw = head_write [OF lh nb(1)]
  have w1: "buf_write ?b n out = ?h @ out" "drop n ?b = drop n b" unfolding bb using hw(1) hw(2) [OF nb(2)] by simp_all
  have dr: "drop n (?h @ out) = out" using lh by simp
  have w2: "buf_write (?h @ out) n (sqlcipher_memset (drop n (?h @ out)) 0 (nat (page_sz ctx - offset))) = ?h @ replicate (nat (page_sz ctx - offset)) 0"
    unfolding dr ltc.memset_all [OF c(2)] using lh c(2) by (simp add: buf_write_def)
  have s: "(if pgno = 1 then sqlcipher_codec_ctx_get_kdf_salt P ctx w else (SQLITE_OK, [], ctx, w)) =
      (SQLITE_OK, if pgno = 1 then kdf_salt ctx else [], ctx, w)"
    using salt by (simp add: sqlcipher_codec_ctx_get_kdf_salt_def)
  have bs: "(if pgno = 1 then buf_write b 0 (take n (if plaintext_header_sz ctx \<noteq> 0 then pData else if pgno = 1 then kdf_salt ctx else [])) else b) = ?b"
    by simp
  show ?thesis
    unfolding codec_write_def Let_def s prod.case b(1) option.case off(2) [symmetric] bs w1(2) c(1) w1(1) w2
    using page by (cases "rc = SQLITE_OK") simp_all
qed

section \<open>Every call\<close>

text \<open>What a call may do: the answer, the page it leaves, the error.\<close>

definition codec_outcome :: "bytes \<Rightarrow> u32 \<Rightarrow> int \<Rightarrow> codec_out \<Rightarrow> bytes \<Rightarrow> codec_ctx \<Rightarrow> bool" where
  "codec_outcome pData pgno mode out page ctx \<longleftrightarrow>
     length page = length pData \<and>
     (case out of
        Null \<Rightarrow> page = pData \<and> cc_error ctx \<noteq> SQLITE_OK \<and> bt_pager_err (pBt ctx) = cc_error ctx
      | Buffer \<Rightarrow> page = pData \<and> mode \<in> {CODEC_WRITE_OP, CODEC_JOURNAL_OP} \<and> cc_error ctx = SQLITE_OK \<and>
          FLAG_GET (cc_flags ctx) CIPHER_FLAG_KEY_USED
      | Page \<Rightarrow>
          mode = CODEC_READ_OP \<and> cc_error ctx = SQLITE_OK \<and> FLAG_GET (cc_flags ctx) CIPHER_FLAG_KEY_USED \<or>
          mode = CODEC_READ_OP \<and> (\<forall>b \<in> set (drop (nat (page_offset ctx pgno)) page). b = 0) \<and>
            (cc_error ctx \<noteq> SQLITE_OK \<and> bt_pager_err (pBt ctx) = cc_error ctx \<or> plaintext_header_sz ctx = page_sz ctx - reserve_sz ctx) \<or>
          mode \<notin> {CODEC_READ_OP, CODEC_WRITE_OP, CODEC_JOURNAL_OP} \<and> page = pData \<and> cc_error ctx \<noteq> SQLITE_OK \<and>
            bt_pager_err (pBt ctx) = cc_error ctx)"

text \<open>The header is invalid, and no page will be touched, or fits.\<close>

definition header_ok :: "nat \<Rightarrow> codec_ctx \<Rightarrow> bool" where
  "header_ok bs ctx \<longleftrightarrow> plaintext_header_sz ctx < 0 \<or> header_fits bs ctx"

text \<open>What of this a call on page \<open>pgno\<close> needs, and the calls that find no room between header and reserve.\<close>

definition fits_at :: "nat \<Rightarrow> codec_ctx \<Rightarrow> u32 \<Rightarrow> bool" where
  "fits_at bs ctx pgno \<longleftrightarrow> int bs dvd page_sz ctx - reserve_sz ctx \<and> int bs dvd page_offset ctx pgno \<and>
     0 \<le> page_offset ctx pgno \<and> page_offset ctx pgno \<le> page_sz ctx - reserve_sz ctx"

definition no_room :: "codec_ctx \<Rightarrow> u32 \<Rightarrow> int \<Rightarrow> bool" where
  "no_room ctx pgno mode \<longleftrightarrow> pgno = 1 \<and> mode \<in> {CODEC_READ_OP, CODEC_WRITE_OP, CODEC_JOURNAL_OP} \<and>
     0 \<le> plaintext_header_sz ctx \<and> page_sz ctx - reserve_sz ctx < page_offset ctx 1"

definition page_choice :: "nat \<Rightarrow> codec_ctx \<Rightarrow> u32 \<Rightarrow> bool" where
  "page_choice bs ctx pgno \<longleftrightarrow> plaintext_header_sz ctx < 0 \<or> fits_at bs ctx pgno \<or>
     pgno = 1 \<and> page_sz ctx - reserve_sz ctx < page_offset ctx 1"

lemma header_fits_at: "header_fits bs ctx \<Longrightarrow> fits_at bs ctx pgno"
  by (cases "pgno = 1") (auto simp: header_fits_def fits_at_def)

lemma header_ok_choice: "header_ok bs ctx \<Longrightarrow> page_choice bs ctx pgno" "header_ok bs ctx \<Longrightarrow> \<not> no_room ctx pgno mode"
  using header_fits_at [of bs ctx pgno] by (auto simp: header_ok_def page_choice_def no_room_def header_fits_def)

lemma header_fits_cong:
  "page_sz c' = page_sz c \<Longrightarrow> reserve_sz c' = reserve_sz c \<Longrightarrow> plaintext_header_sz c' = plaintext_header_sz c \<Longrightarrow> header_fits bs c' = header_fits bs c"
  unfolding header_fits_def page_offset_def by simp

lemma header_ok_cong:
  "page_sz c' = page_sz c \<Longrightarrow> reserve_sz c' = reserve_sz c \<Longrightarrow> plaintext_header_sz c' = plaintext_header_sz c \<Longrightarrow> header_ok bs c' = header_ok bs c"
  by (simp add: header_ok_def header_fits_def page_offset_def)

text \<open>What a call leaves alone.\<close>

definition codec_frame :: "codec_ctx \<Rightarrow> codec_ctx \<Rightarrow> bool" where
  "codec_frame ctx ctx' \<longleftrightarrow> page_sz ctx' = page_sz ctx \<and> reserve_sz ctx' = reserve_sz ctx \<and> plaintext_header_sz ctx' = plaintext_header_sz ctx \<and>
     bt_read (pBt ctx') = bt_read (pBt ctx)"

lemma codec_frame_simps [simp]:
  "codec_frame c c" "codec_frame c (x\<lparr>cc_flags := f\<rparr>) = codec_frame c x" "codec_frame c (x\<lparr>cc_buffer := b\<rparr>) = codec_frame c x"
  "codec_frame c (sqlcipher_codec_ctx_set_error x e) = codec_frame c x"
  by (auto simp: codec_frame_def sqlcipher_codec_ctx_set_error_def)

lemma codec_frame_trans [trans]: "codec_frame a b \<Longrightarrow> codec_frame b c \<Longrightarrow> codec_frame a c"
  by (simp add: codec_frame_def)

lemma codec_frame_keyed: "keyed ctx ctx' \<Longrightarrow> codec_frame ctx ctx'"
  using keyedD [of ctx ctx'] by (simp add: codec_frame_def)

lemma codec_frame_header: "codec_frame c c' \<Longrightarrow> header_ok bs c' = header_ok bs c" "codec_frame c c' \<Longrightarrow> btree_ok (pBt c') = btree_ok (pBt c)"
  using header_ok_cong [of c' c bs] by (auto simp only: codec_frame_def btree_ok_def)

lemma codec_frame_fits:
  "codec_frame c c' \<Longrightarrow> fits_at bs c' = fits_at bs c" "codec_frame c c' \<Longrightarrow> no_room c' = no_room c" "codec_frame c c' \<Longrightarrow> page_choice bs c' = page_choice bs c"
  by (simp_all add: fun_eq_iff codec_frame_def fits_at_def no_room_def page_choice_def page_offset_def)

lemma set_KEY_USED [simp]: "bit (FLAG_SET f CIPHER_FLAG_KEY_USED) 3"
  by simp

context crypto_provider
begin

lemma codec_layout:
  assumes "wf ctx" "fits_at block_size ctx pgno" "length pData = nat (page_sz ctx)" "cc_buffer ctx = Some b" "off = page_offset ctx pgno"
  shows "page_layout ctx (page_sz ctx - off) (nat (page_sz ctx - reserve_sz ctx - off)) (drop (nat off) pData) (drop (nat off) b)"
    "0 \<le> off" "off \<le> page_sz ctx" "length b = nat (page_sz ctx)"
proof -
  have pg: "page_ok (page_sz ctx)" and lb: "length b = nat (page_sz ctx)" using assms(1,4) by (auto simp: codec_wf_iff sizes_wf_def)
  have r: "0 \<le> reserve_sz ctx" using reserve_room(1) [OF assms(1)] by (auto split: if_splits)
  have o: "0 \<le> off" "off \<le> page_sz ctx - reserve_sz ctx" "int block_size dvd off"
    using assms(2,5) by (simp_all add: fits_at_def)
  obtain k where k: "9 \<le> k" "k \<le> 16" "page_sz ctx = 2 ^ k" using pg by (auto simp: page_ok_def)
  have "(2 :: int) ^ k \<le> 2 ^ 16" by (rule power_increasing) (use k in auto)
  then have big: "page_sz ctx - off < 2 ^ 31" using k(3) o(1) by simp
  have "int block_size dvd page_sz ctx - reserve_sz ctx - off" using assms(2) dvd_diff [OF _ o(3), of "page_sz ctx - reserve_sz ctx"]
    unfolding fits_at_def by blast
  then have "block_size dvd nat (page_sz ctx - reserve_sz ctx - off)" using o(2) by (metis int_dvd_int_iff int_nat_eq diff_ge_0_iff_ge)
  then show "page_layout ctx (page_sz ctx - off) (nat (page_sz ctx - reserve_sz ctx - off)) (drop (nat off) pData) (drop (nat off) b)"
    using o big assms(3) lb by (simp add: page_layout_def nat_diff_distrib)
  show "0 \<le> off" "off \<le> page_sz ctx" "length b = nat (page_sz ctx)" using o r lb by simp_all
qed

lemma page_cipher_total:
  assumes "up (w_prov w)" "wf ctx" "page_layout ctx pg n inp out" "mode \<in> {SQLCIPHER_ENCRYPT, SQLCIPHER_DECRYPT}"
  shows "\<exists>rc out' s. sqlcipher_page_cipher P ctx f pgno mode pg inp out w = Some (rc, out', w\<lparr>w_prov := s\<rparr>) \<and> up s \<and>
    (roomy (w_prov w) \<longrightarrow> roomy s) \<and> length out' = nat pg \<and> (rc = SQLITE_OK \<or> rc = SQLITE_ERROR) \<and>
    (roomy (w_prov w) \<longrightarrow> mode = SQLCIPHER_ENCRYPT \<longrightarrow> rc = SQLITE_OK)"
proof (cases "pgno = 1 \<and> n = 0")
  case True
  then have "sqlcipher_page_cipher P ctx f pgno mode pg inp out w = Some (SQLITE_OK, out, w\<lparr>w_prov := w_prov w\<rparr>)"
    using assms(3) by (simp add: sqlcipher_page_cipher_def Let_def page_layout_def)
  then show ?thesis using assms(1,3) by (intro exI [of _ SQLITE_OK] exI [of _ out] exI [of _ "w_prov w"]) (auto simp: page_layout_def)
next
  case False
  note d = page_cipher_decrypt [OF assms(1-3) False, of f] and e = page_cipher_encrypt [OF assms(1-3) False, of f]
  show ?thesis
  proof (cases "mode = SQLCIPHER_ENCRYPT")
    case True
    obtain rc y v where r: "sqlcipher_page_cipher P ctx f pgno SQLCIPHER_ENCRYPT pg inp out w = Some (rc, y, v)" "v = w\<lparr>w_prov := w_prov v\<rparr>"
      "up (w_prov v)" "roomy (w_prov w) \<longrightarrow> roomy (w_prov v)" "length y = nat pg" "rc = SQLITE_OK \<or> rc = SQLITE_ERROR \<and> \<not> roomy (w_prov w)"
      using e unfolding Let_def by blast
    from r(1) have "sqlcipher_page_cipher P ctx f pgno mode pg inp out w = Some (rc, y, w\<lparr>w_prov := w_prov v\<rparr>)" unfolding True r(2) [symmetric] .
    then show ?thesis using r(3-6) by blast
  next
    case dec: False
    then have m: "mode = SQLCIPHER_DECRYPT" using assms(4) by simp
    obtain rc y v where r: "sqlcipher_page_cipher P ctx f pgno SQLCIPHER_DECRYPT pg inp out w = Some (rc, y, v)" "v = w\<lparr>w_prov := w_prov v\<rparr>"
      "up (w_prov v)" "roomy (w_prov w) \<longrightarrow> roomy (w_prov v)" "length y = nat pg" "rc = SQLITE_OK \<or> rc = SQLITE_ERROR"
      using d unfolding Let_def by blast
    from r(1) have "sqlcipher_page_cipher P ctx f pgno mode pg inp out w = Some (rc, y, w\<lparr>w_prov := w_prov v\<rparr>)" unfolding m r(2) [symmetric] .
    then show ?thesis using r(3-6) dec by blast
  qed
qed

lemma codec_read_result:
  assumes up: "up (w_prov w)" and wf: "wf ctx" "fits_at block_size ctx pgno" "length pData = nat (page_sz ctx)" "cc_error ctx = SQLITE_OK"
  shows "\<exists>page ctx' s. codec_read P ctx pData pgno (page_offset ctx pgno) w = Some (Page, page, ctx', w\<lparr>w_prov := s\<rparr>) \<and>
    wf ctx' \<and> codec_frame ctx ctx' \<and> codec_outcome pData pgno CODEC_READ_OP Page page ctx' \<and> up s \<and> (roomy (w_prov w) \<longrightarrow> roomy s) \<and>
    read_ctx ctx' = read_ctx ctx \<and> write_ctx ctx' = write_ctx ctx"
proof -
  obtain b where b: "cc_buffer ctx = Some b" "length b = nat (page_sz ctx)" using wf(1) by (auto simp: codec_wf_iff sizes_wf_def)
  define off where "off = page_offset ctx pgno"
  note lay = codec_layout [OF wf(1-3) b(1) off_def]
  have "SQLCIPHER_DECRYPT \<in> {SQLCIPHER_ENCRYPT, SQLCIPHER_DECRYPT}" by simp
  from page_cipher_total [OF up wf(1) lay(1) this, of 0 pgno] obtain rc out s where
    c: "sqlcipher_page_cipher P ctx 0 pgno SQLCIPHER_DECRYPT (page_sz ctx - off) (drop (nat off) pData) (drop (nat off) b) w = Some (rc, out, w\<lparr>w_prov := s\<rparr>)"
    "up s" "roomy (w_prov w) \<longrightarrow> roomy s" "length out = nat (page_sz ctx - off)" "rc = SQLITE_OK \<or> rc = SQLITE_ERROR" by blast
  define page where "page = page_head ctx pgno SQLITE_FILE_HEADER pData @ (if rc = SQLITE_OK then out else replicate (nat (page_sz ctx - off)) 0)"
  define ctx' where "ctx' = (if rc = SQLITE_OK then ctx\<lparr>cc_flags := FLAG_SET (cc_flags ctx) CIPHER_FLAG_KEY_USED\<rparr>
      else if plaintext_header_sz ctx = page_sz ctx - reserve_sz ctx then ctx else sqlcipher_codec_ctx_set_error ctx rc)\<lparr>cc_buffer := Some page\<rparr>"
  have r: "codec_read P ctx pData pgno off w = Some (Page, page, ctx', w\<lparr>w_prov := s\<rparr>)"
    unfolding ctx'_def by (rule codec_read_eq [OF b wf(3) off_def refl lay(2,3) c(1,4) page_def])
  have lh: "length (page_head ctx pgno SQLITE_FILE_HEADER pData) = nat off"
    using length_page_head [of ctx SQLITE_FILE_HEADER pgno pData] lay(3) wf(3) off_def lay(2) by simp
  have lp: "length page = nat (page_sz ctx)" unfolding page_def using lh c(4) lay(2,3) by simp
  have wf': "wf ctx'" unfolding ctx'_def using wf(1) lp by (auto simp: codec_wf_iff sizes_wf_def reserve_of_def sqlcipher_codec_ctx_set_error_def)
  have fr: "codec_frame ctx ctx'" by (simp add: ctx'_def)
  have po: "page_offset ctx' pgno = off" using fr by (simp add: off_def page_offset_def codec_frame_def)
  have out: "codec_outcome pData pgno CODEC_READ_OP Page page ctx'"
  proof (cases "rc = SQLITE_OK")
    case True
    then show ?thesis using wf(4) by (simp add: codec_outcome_def lp wf(3)) (simp add: ctx'_def)
  next
    case False
    then have "drop (nat off) page = replicate (nat (page_sz ctx - off)) 0" unfolding page_def using lh by simp
    then show ?thesis using False c(5) unfolding codec_outcome_def po by (auto simp: lp wf(3) ctx'_def sqlcipher_codec_ctx_set_error_def)
  qed
  have "read_ctx ctx' = read_ctx ctx" "write_ctx ctx' = write_ctx ctx" by (simp_all add: ctx'_def sqlcipher_codec_ctx_set_error_def)
  then show ?thesis using r wf' fr out c(2,3) unfolding off_def by blast
qed

text \<open>The salt that goes to the first page is found or drawn before the page is encrypted.\<close>

lemma codec_write_salt:
  assumes up: "up (w_prov w)" and wf: "wf ctx" "btree_ok (pBt ctx)"
  obtains rc ctx1 s where "rc = SQLITE_OK \<or> rc = SQLITE_ERROR \<and> \<not> roomy (w_prov w)" "wf ctx1" "keyed ctx ctx1" "up s" "roomy (w_prov w) \<longrightarrow> roomy s"
    "rc = SQLITE_OK \<Longrightarrow> pgno = 1 \<Longrightarrow> bit (cc_flags ctx1) 4" "read_ctx ctx1 = read_ctx ctx" "write_ctx ctx1 = write_ctx ctx"
    "bit (cc_flags ctx) 4 \<Longrightarrow> ctx1 = ctx \<and> s = w_prov w"
    "codec_write P f ctx pData pgno offset w = (if rc = SQLITE_OK then codec_write P f ctx1 pData pgno offset (w\<lparr>w_prov := s\<rparr>)
       else Some (Null, pData, sqlcipher_codec_ctx_set_error ctx1 rc, w\<lparr>w_prov := s\<rparr>))"
proof (cases "pgno = 1 \<and> \<not> bit (cc_flags ctx) 4")
  case False
  have "w\<lparr>w_prov := w_prov w\<rparr> = w" by simp
  then show ?thesis using False up wf(1) by (intro that [of SQLITE_OK ctx "w_prov w"]) auto
next
  case True
  obtain rc ctx1 w1 where i: "sqlcipher_codec_ctx_init_kdf_salt P ctx w = (rc, ctx1, w1)" by (rule prod_cases3)
  note res = init_kdf_salt_result [OF up wf i]
  have f: "(if \<not> FLAG_GET (cc_flags ctx) CIPHER_FLAG_HAS_KDF_SALT then sqlcipher_codec_ctx_init_kdf_salt P ctx w else (SQLITE_OK, ctx, w)) = (rc, ctx1, w1)"
    using True i by simp
  note fs = find_salt_result [OF up wf f]
  have wf1: "wf ctx1" using salts_onlyD(1) [OF fs(1) wf(1)] .
  have k: "keyed ctx ctx1" using keyed_salts [OF fs(1)] .
  obtain s where w1: "w1 = w\<lparr>w_prov := s\<rparr>" using res(2) by blast
  have g: "sqlcipher_codec_ctx_get_kdf_salt P ctx w = (rc, kdf_salt ctx1, ctx1, w1)"
    using True i by (simp add: sqlcipher_codec_ctx_get_kdf_salt_def)
  have g1: "sqlcipher_codec_ctx_get_kdf_salt P ctx1 w1 = (rc, kdf_salt ctx1, ctx1, w1)" if "rc = SQLITE_OK"
    using fs(7) that by (simp add: sqlcipher_codec_ctx_get_kdf_salt_def)
  have eq: "codec_write P f ctx pData pgno offset w = (if rc = SQLITE_OK then codec_write P f ctx1 pData pgno offset w1
       else Some (Null, pData, sqlcipher_codec_ctx_set_error ctx1 rc, w1))"
  proof (cases "rc = SQLITE_OK")
    case ok: True
    have p: "(if pgno = 1 then sqlcipher_codec_ctx_get_kdf_salt P ctx w else (SQLITE_OK, [], ctx, w)) = (SQLITE_OK, kdf_salt ctx1, ctx1, w1)"
      "(if pgno = 1 then sqlcipher_codec_ctx_get_kdf_salt P ctx1 w1 else (SQLITE_OK, [], ctx1, w1)) = (SQLITE_OK, kdf_salt ctx1, ctx1, w1)"
      using True g g1 ok by simp_all
    show ?thesis unfolding if_P [OF ok] codec_write_def Let_def p prod.case by simp
  next
    case False
    then show ?thesis using True g by (simp add: codec_write_def Let_def)
  qed
  have "read_ctx ctx1 = read_ctx ctx" "write_ctx ctx1 = write_ctx ctx" using fs(1) by (auto simp: salts_only_def)
  then show ?thesis using eq res(3,4,5) fs wf1 k True by (intro that [of rc ctx1 s]) (auto simp: w1)
qed

lemma codec_write_result:
  assumes up: "up (w_prov w)" and wf: "wf ctx" "fits_at block_size ctx pgno" "length pData = nat (page_sz ctx)" "cc_error ctx = SQLITE_OK"
    and bt: "btree_ok (pBt ctx)" and m: "mode \<in> {CODEC_WRITE_OP, CODEC_JOURNAL_OP}"
  shows "\<exists>out ctx' s. codec_write P f ctx pData pgno (page_offset ctx pgno) w = Some (out, pData, ctx', w\<lparr>w_prov := s\<rparr>) \<and>
    wf ctx' \<and> codec_frame ctx ctx' \<and> codec_outcome pData pgno mode out pData ctx' \<and> up s \<and> (roomy (w_prov w) \<longrightarrow> roomy s \<and> out = Buffer) \<and>
    read_ctx ctx' = read_ctx ctx \<and> write_ctx ctx' = write_ctx ctx"
proof -
  define off where "off = page_offset ctx pgno"
  obtain rc x s where s: "rc = SQLITE_OK \<or> rc = SQLITE_ERROR \<and> \<not> roomy (w_prov w)" "wf x" "keyed ctx x" "up s" "roomy (w_prov w) \<longrightarrow> roomy s"
    "rc = SQLITE_OK \<Longrightarrow> pgno = 1 \<Longrightarrow> bit (cc_flags x) 4" "read_ctx x = read_ctx ctx" "write_ctx x = write_ctx ctx"
    and eq: "codec_write P f ctx pData pgno off w = (if rc = SQLITE_OK then codec_write P f x pData pgno off (w\<lparr>w_prov := s\<rparr>)
       else Some (Null, pData, sqlcipher_codec_ctx_set_error x rc, w\<lparr>w_prov := s\<rparr>))"
    by (rule codec_write_salt [OF up wf(1) bt, where pgno = pgno and f = f and pData = pData and offset = off]) blast
  note kd = keyedD [OF s(3)]
  have fr: "codec_frame ctx x" by (rule codec_frame_keyed [OF s(3)])
  show ?thesis
  proof (cases "rc = SQLITE_OK")
    case False
    then have "codec_write P f ctx pData pgno off w = Some (Null, pData, sqlcipher_codec_ctx_set_error x rc, w\<lparr>w_prov := s\<rparr>)" using eq by simp
    moreover have "wf (sqlcipher_codec_ctx_set_error x rc)" by (rule other_settings_wf(5) [OF s(2)])
    moreover have "codec_outcome pData pgno mode Null pData (sqlcipher_codec_ctx_set_error x rc)" using False by (simp add: codec_outcome_def)
    moreover have "read_ctx (sqlcipher_codec_ctx_set_error x rc) = read_ctx ctx" "write_ctx (sqlcipher_codec_ctx_set_error x rc) = write_ctx ctx"
      using s(7,8) by (simp_all add: sqlcipher_codec_ctx_set_error_def)
    moreover have "\<not> roomy (w_prov w)" using s(1) False by blast
    moreover have "codec_frame ctx (sqlcipher_codec_ctx_set_error x rc)" using fr by simp
    ultimately show ?thesis using s(4) unfolding off_def by blast
  next
    case ok: True
    obtain b where b: "cc_buffer x = Some b" "length b = nat (page_sz x)" "length (kdf_salt x) = 16" using s(2) by (auto simp: codec_wf_iff sizes_wf_def)
    have offx: "off = page_offset x pgno" using kd(3) by (simp add: off_def page_offset_def)
    have fits: "fits_at block_size x pgno" using wf(2) unfolding fits_at_def page_offset_def kd(1-3) .
    have lx: "length pData = nat (page_sz x)" using wf(3) kd(1) by simp
    note lay = codec_layout [OF s(2) fits lx b(1) offx]
    let ?w = "w\<lparr>w_prov := s\<rparr>"
    have upw: "up (w_prov ?w)" using s(4) by simp
    have "SQLCIPHER_ENCRYPT \<in> {SQLCIPHER_ENCRYPT, SQLCIPHER_DECRYPT}" by simp
    from page_cipher_total [OF upw s(2) lay(1) this, of f pgno] obtain rc2 out t where
      c: "sqlcipher_page_cipher P x f pgno SQLCIPHER_ENCRYPT (page_sz x - off) (drop (nat off) pData) (drop (nat off) b) ?w = Some (rc2, out, ?w\<lparr>w_prov := t\<rparr>)"
      "up t" "roomy s \<longrightarrow> roomy t" "length out = nat (page_sz x - off)" "rc2 = SQLITE_OK \<or> rc2 = SQLITE_ERROR" "roomy s \<longrightarrow> rc2 = SQLITE_OK" by auto
    define page where "page = page_head x pgno (kdf_salt x) pData @ (if rc2 = SQLITE_OK then out else replicate (nat (page_sz x - off)) 0)"
    define ctx' where "ctx' = (if rc2 = SQLITE_OK then x\<lparr>cc_flags := FLAG_SET (cc_flags x) CIPHER_FLAG_KEY_USED\<rparr>
        else sqlcipher_codec_ctx_set_error x rc2)\<lparr>cc_buffer := Some page\<rparr>"
    define o' where "o' = (if rc2 = SQLITE_OK then Buffer else Null)"
    have "codec_write P f x pData pgno off ?w = Some (o', pData, ctx', ?w\<lparr>w_prov := t\<rparr>)"
      unfolding ctx'_def o'_def by (rule codec_write_eq [OF b(1,2) lx b(3) offx refl lay(2,3) s(6) [OF ok] c(1,4) page_def])
    then have r: "codec_write P f ctx pData pgno off w = Some (o', pData, ctx', w\<lparr>w_prov := t\<rparr>)" using eq ok by simp
    have lh: "length (page_head x pgno (kdf_salt x) pData) = nat off"
      using length_page_head [of x "kdf_salt x" pgno pData] lay(3) lx offx lay(2) b(3) by simp
    have lp: "length page = nat (page_sz x)" unfolding page_def using lh c(4) lay(2,3) by simp
    have wf': "wf ctx'" unfolding ctx'_def using s(2) lp by (auto simp: codec_wf_iff sizes_wf_def reserve_of_def sqlcipher_codec_ctx_set_error_def)
    have out: "codec_outcome pData pgno mode o' pData ctx'"
      using m wf(4) c(5) kd(4) by (auto simp: codec_outcome_def o'_def ctx'_def)
    have e: "codec_frame ctx ctx'" "read_ctx ctx' = read_ctx ctx" "write_ctx ctx' = write_ctx ctx"
      using fr s(7,8) by (simp_all add: ctx'_def sqlcipher_codec_ctx_set_error_def) (auto simp: codec_frame_def)
    have "roomy (w_prov w) \<longrightarrow> roomy t \<and> o' = Buffer" using s(5) c(3,6) by (simp add: o'_def)
    then show ?thesis using r wf' e out c(2) unfolding off_def by blast
  qed
qed

text \<open>When the reserve is larger than what the header leaves of the first page.\<close>

lemma codec_no_room:
  assumes wf: "wf x" and less: "page_sz x - reserve_sz x < page_offset x 1"
  shows "codec_read P x pData 1 (page_offset x 1) v = None"
    and "up (w_prov v) \<Longrightarrow> btree_ok (pBt x) \<Longrightarrow> codec_write P f x pData 1 (page_offset x 1) v = None \<or>
      (\<exists>ctx' s. codec_write P f x pData 1 (page_offset x 1) v = Some (Null, pData, ctx', v\<lparr>w_prov := s\<rparr>) \<and>
        wf ctx' \<and> codec_frame x ctx' \<and> codec_outcome pData 1 mode Null pData ctx' \<and> up s \<and> (roomy (w_prov v) \<longrightarrow> roomy s))"
proof -
  have none: "sqlcipher_page_cipher P c f' 1 m (page_sz c - page_offset c 1) inp out u = None"
    if "wf c" "page_sz c - reserve_sz c < page_offset c 1" for c f' m inp out u
  proof -
    have "key_sz c \<noteq> 0" using key_sz_wf [OF that(1)] sizes_pos by simp
    then show ?thesis using that(2) by (simp add: sqlcipher_page_cipher_def Let_def)
  qed
  obtain b where b: "cc_buffer x = Some b" using wf by (auto simp: codec_wf_iff sizes_wf_def)
  show "codec_read P x pData 1 (page_offset x 1) v = None"
    using none [OF wf less] b by (simp add: codec_read_def Let_def)
  assume up: "up (w_prov v)" and bt: "btree_ok (pBt x)"
  obtain rc c s where s: "rc = SQLITE_OK \<or> rc = SQLITE_ERROR \<and> \<not> roomy (w_prov v)" "wf c" "keyed x c" "up s" "roomy (w_prov v) \<longrightarrow> roomy s"
    "rc = SQLITE_OK \<Longrightarrow> (1 :: u32) = 1 \<Longrightarrow> bit (cc_flags c) 4"
    and eq: "codec_write P f x pData 1 (page_offset x 1) v = (if rc = SQLITE_OK then codec_write P f c pData 1 (page_offset x 1) (v\<lparr>w_prov := s\<rparr>)
       else Some (Null, pData, sqlcipher_codec_ctx_set_error c rc, v\<lparr>w_prov := s\<rparr>))"
    by (rule codec_write_salt [OF up wf bt, where pgno = 1 and f = f and pData = pData and offset = "page_offset x 1"]) blast
  show "codec_write P f x pData 1 (page_offset x 1) v = None \<or>
      (\<exists>ctx' s. codec_write P f x pData 1 (page_offset x 1) v = Some (Null, pData, ctx', v\<lparr>w_prov := s\<rparr>) \<and>
        wf ctx' \<and> codec_frame x ctx' \<and> codec_outcome pData 1 mode Null pData ctx' \<and> up s \<and> (roomy (w_prov v) \<longrightarrow> roomy s))"
  proof (cases "rc = SQLITE_OK")
    case False
    have "wf (sqlcipher_codec_ctx_set_error c rc)" by (rule other_settings_wf(5) [OF s(2)])
    moreover have "codec_frame x (sqlcipher_codec_ctx_set_error c rc)" using codec_frame_keyed [OF s(3)] by simp
    ultimately show ?thesis using eq False s(4,5) by (auto simp: codec_outcome_def)
  next
    case True
    note d = keyedD [OF s(3)]
    have off: "page_offset x 1 = page_offset c 1" using d(3) by (simp add: page_offset_def)
    have l: "page_sz c - reserve_sz c < page_offset c 1" using less d(1,2) off by simp
    have g: "sqlcipher_codec_ctx_get_kdf_salt P c (v\<lparr>w_prov := s\<rparr>) = (SQLITE_OK, kdf_salt c, c, v\<lparr>w_prov := s\<rparr>)"
      using s(6) [OF True] by (simp add: sqlcipher_codec_ctx_get_kdf_salt_def)
    obtain b where "cc_buffer c = Some b" using s(2) by (auto simp: codec_wf_iff sizes_wf_def)
    then have "codec_write P f c pData 1 (page_offset x 1) (v\<lparr>w_prov := s\<rparr>) = None"
      using none [OF s(2) l] by (simp add: codec_write_def Let_def g off)
    then show ?thesis using eq True by simp
  qed
qed

lemma codec_run:
  assumes up: "up (w_prov w)" and wf: "wf ctx" "btree_ok (pBt ctx)" "page_choice block_size ctx pgno" "length pData = nat (page_sz ctx)"
  shows "sqlite3Codec P ctx pData pgno mode w = None \<and> no_room ctx pgno mode \<or> (\<exists>out page ctx' w'. sqlite3Codec P ctx pData pgno mode w = Some (out, page, ctx', w') \<and> wf ctx' \<and> codec_frame ctx ctx' \<and>
    codec_outcome pData pgno mode out page ctx' \<and> up (w_prov w') \<and> consumed w w' \<and> (roomy (w_prov w) \<longrightarrow> roomy (w_prov w')))"
proof (cases "cc_error ctx = SQLITE_OK")
  case False
  have "sqlite3Codec P ctx pData pgno mode w = Some (Null, pData, sqlcipher_codec_ctx_set_error ctx (cc_error ctx), w)" by (rule codec_disabled [OF False])
  moreover have "wf (sqlcipher_codec_ctx_set_error ctx (cc_error ctx))" by (rule other_settings_wf(5) [OF wf(1)])
  moreover have "codec_outcome pData pgno mode Null pData (sqlcipher_codec_ctx_set_error ctx (cc_error ctx))" using False by (simp add: codec_outcome_def)
  moreover have "codec_frame ctx (sqlcipher_codec_ctx_set_error ctx (cc_error ctx))" by simp
  moreover have "consumed w w" by (rule consumed_prov) (rule prov_only_upd(1))
  ultimately show ?thesis using up by blast
next
  case noerr: True
  obtain rc x v where k: "sqlcipher_codec_key_derive P ctx w = (rc, x, v)" by (rule prod_cases3)
  note kr = codec_key_derive_result [OF up wf(1,2) k]
  then have so: "wf x" "keyed ctx x" "up (w_prov v)" "consumed w v" "roomy (w_prov w) \<longrightarrow> roomy (w_prov v)" by (simp_all add: step_ok_def)
  note kd = keyedD [OF so(2)]
  have fr: "codec_frame ctx x" by (rule codec_frame_keyed [OF so(2)])
  let ?fail = "\<lambda>out e. Some (out, pData, sqlcipher_codec_ctx_set_error x e, v)"
  let ?off = "page_offset x pgno"
  have step: "sqlite3Codec P ctx pData pgno mode w =
     (if rc \<noteq> SQLITE_OK then ?fail Null rc else if plaintext_header_sz x < 0 then ?fail Null SQLITE_ERROR
      else if mode = CODEC_READ_OP then codec_read P x pData pgno ?off v else if mode = CODEC_WRITE_OP then codec_write P 1 x pData pgno ?off v
      else if mode = CODEC_JOURNAL_OP then codec_write P 0 x pData pgno ?off v else ?fail Page SQLITE_ERROR)"
    using noerr k by (simp add: sqlite3Codec_def)
  have fail: ?thesis if "sqlite3Codec P ctx pData pgno mode w = ?fail out e" "e \<noteq> SQLITE_OK"
    "out = Null \<or> out = Page \<and> mode \<notin> {CODEC_READ_OP, CODEC_WRITE_OP, CODEC_JOURNAL_OP}" for out e
  proof -
    have "wf (sqlcipher_codec_ctx_set_error x e)" by (rule other_settings_wf(5) [OF so(1)])
    moreover have "codec_outcome pData pgno mode out pData (sqlcipher_codec_ctx_set_error x e)" using that(2,3) by (auto simp: codec_outcome_def)
    moreover have "codec_frame ctx (sqlcipher_codec_ctx_set_error x e)" using fr by simp
    ultimately show ?thesis using that(1) so(3-5) by blast
  qed
  show ?thesis
  proof (cases "rc = SQLITE_OK \<and> 0 \<le> plaintext_header_sz x")
    case False
    then show ?thesis using fail [of Null rc] fail [of Null SQLITE_ERROR] step by (cases "rc = SQLITE_OK") auto
  next
    case ok: True
    then have go: "sqlite3Codec P ctx pData pgno mode w = (if mode = CODEC_READ_OP then codec_read P x pData pgno ?off v
      else if mode = CODEC_WRITE_OP then codec_write P 1 x pData pgno ?off v
      else if mode = CODEC_JOURNAL_OP then codec_write P 0 x pData pgno ?off v else ?fail Page SQLITE_ERROR)" using step by simp
    have choice: "fits_at block_size x pgno \<or> pgno = 1 \<and> page_sz x - reserve_sz x < page_offset x 1"
      using ok wf(3) [folded codec_frame_fits(3) [OF fr]] by (simp add: page_choice_def)
    have lx: "length pData = nat (page_sz x)" "cc_error x = SQLITE_OK" "btree_ok (pBt x)" using wf(2,4) kd noerr by simp_all
    have fin: ?thesis if "sqlite3Codec P ctx pData pgno mode w = Some (out, page, ctx', v\<lparr>w_prov := s\<rparr>)" "wf ctx'" "codec_frame x ctx'"
      "codec_outcome pData pgno mode out page ctx'" "up s" "roomy (w_prov v) \<longrightarrow> roomy s" for out page ctx' s
    proof -
      have "consumed w (v\<lparr>w_prov := s\<rparr>)" using consumed_trans [OF so(4) consumed_prov [OF prov_only_upd(2)]] .
      moreover have "codec_frame ctx ctx'" using fr that(3) by (rule codec_frame_trans)
      ultimately show ?thesis using that so(5) by (intro disjI2 exI [of _ out] exI [of _ page] exI [of _ ctx'] exI [of _ "v\<lparr>w_prov := s\<rparr>"]) simp
    qed
    consider "mode = CODEC_READ_OP" | "mode \<in> {CODEC_WRITE_OP, CODEC_JOURNAL_OP}" "mode \<noteq> CODEC_READ_OP" |
      "mode \<notin> {CODEC_READ_OP, CODEC_WRITE_OP, CODEC_JOURNAL_OP}" by blast
    then show ?thesis
    proof cases
      case 1
      show ?thesis
      proof (cases "fits_at block_size x pgno")
        case False
        then have nr: "pgno = 1" "page_sz x - reserve_sz x < page_offset x 1" using choice by blast+
        have "codec_read P x pData 1 (page_offset x 1) v = None" using codec_no_room(1) [OF so(1) nr(2)] .
        moreover have "no_room x pgno mode" using 1 nr ok by (simp add: no_room_def)
        ultimately show ?thesis using go 1 nr(1) by (simp add: codec_frame_fits(2) [OF fr])
      next
        case fits: True
        from codec_read_result [OF so(3,1) fits lx(1,2)] obtain page ctx' s where
          r: "codec_read P x pData pgno ?off v = Some (Page, page, ctx', v\<lparr>w_prov := s\<rparr>)" "wf ctx'" "codec_frame x ctx'"
          "codec_outcome pData pgno CODEC_READ_OP Page page ctx'" "up s" "roomy (w_prov v) \<longrightarrow> roomy s" by blast
        have "sqlite3Codec P ctx pData pgno mode w = Some (Page, page, ctx', v\<lparr>w_prov := s\<rparr>)" using go 1 r(1) by simp
        from fin [OF this r(2,3) r(4) [folded 1] r(5,6)] show ?thesis .
      qed
    next
      case 2
      have same: "sqlite3Codec P ctx pData pgno mode w = codec_write P (if mode = CODEC_WRITE_OP then 1 else 0) x pData pgno ?off v"
        unfolding go if_not_P [OF 2(2)] using 2(1) by (cases "mode = CODEC_WRITE_OP") (simp_all only: if_True if_False insert_iff empty_iff simp_thms)
      show ?thesis
      proof (cases "fits_at block_size x pgno")
        case False
        then have nr: "pgno = 1" "page_sz x - reserve_sz x < page_offset x 1" using choice by blast+
        have md: "mode \<in> {CODEC_READ_OP, CODEC_WRITE_OP, CODEC_JOURNAL_OP}" using 2 by auto
        from codec_no_room(2) [OF so(1) nr(2) so(3) lx(3), of "if mode = CODEC_WRITE_OP then 1 else 0" pData] show ?thesis
        proof
          assume "codec_write P (if mode = CODEC_WRITE_OP then 1 else 0) x pData 1 (page_offset x 1) v = None"
          moreover have "no_room x pgno mode" using md nr ok by (simp add: no_room_def)
          ultimately show ?thesis using same nr(1) by (simp add: codec_frame_fits(2) [OF fr])
        next
          assume "\<exists>ctx' s. codec_write P (if mode = CODEC_WRITE_OP then 1 else 0) x pData 1 (page_offset x 1) v = Some (Null, pData, ctx', v\<lparr>w_prov := s\<rparr>) \<and>
            wf ctx' \<and> codec_frame x ctx' \<and> codec_outcome pData 1 mode Null pData ctx' \<and> up s \<and> (roomy (w_prov v) \<longrightarrow> roomy s)"
          then show ?thesis using fin same nr(1) by fastforce
        qed
      next
        case fits: True
        from codec_write_result [OF so(3,1) fits lx(1,2,3) 2(1), of "if mode = CODEC_WRITE_OP then 1 else 0"] obtain out ctx' s where
          r: "codec_write P (if mode = CODEC_WRITE_OP then 1 else 0) x pData pgno ?off v = Some (out, pData, ctx', v\<lparr>w_prov := s\<rparr>)"
          "wf ctx'" "codec_frame x ctx'" "codec_outcome pData pgno mode out pData ctx'" "up s" "roomy (w_prov v) \<longrightarrow> roomy s" by blast
        have "sqlite3Codec P ctx pData pgno mode w = Some (out, pData, ctx', v\<lparr>w_prov := s\<rparr>)"
          using r(1) unfolding same .
        from fin [OF this r(2-6)] show ?thesis .
      qed
    next
      case 3
      then show ?thesis using go fail [of Page SQLITE_ERROR] by simp
    qed
  qed
qed

lemma codec_result:
  assumes up: "up (w_prov w)" and wf: "wf ctx" "btree_ok (pBt ctx)" "header_ok block_size ctx" "length pData = nat (page_sz ctx)"
  shows "\<exists>out page ctx' w'. sqlite3Codec P ctx pData pgno mode w = Some (out, page, ctx', w') \<and> wf ctx' \<and> codec_frame ctx ctx' \<and>
    codec_outcome pData pgno mode out page ctx' \<and> up (w_prov w') \<and> consumed w w' \<and> (roomy (w_prov w) \<longrightarrow> roomy (w_prov w'))"
  using codec_run [OF up wf(1,2) header_ok_choice(1) [OF wf(3)] wf(4), of pgno mode] header_ok_choice(2) [OF wf(3)] by blast

lemma codec_calls_run:
  assumes "up (w_prov w)" "wf ctx" "btree_ok (pBt ctx)" "\<And>pgno. page_choice block_size ctx pgno" "\<forall>c \<in> set cs. length (fst c) = nat (page_sz ctx)"
  shows "codec_calls P ctx cs w = None \<and> (\<exists>c \<in> set cs. no_room ctx (fst (snd c)) (snd (snd c))) \<or> (\<exists>outs ctx' w'. codec_calls P ctx cs w = Some (outs, ctx', w') \<and> wf ctx' \<and> codec_frame ctx ctx' \<and> up (w_prov w') \<and>
    length outs = length cs \<and> (\<forall>i < length cs. length (snd (outs ! i)) = length (fst (cs ! i))))"
  using assms
proof (induction cs arbitrary: ctx w)
  case Nil
  then show ?case by simp
next
  case (Cons c cs)
  obtain pData pgno mode where c: "c = (pData, pgno, mode)" by (cases c)
  have l: "length pData = nat (page_sz ctx)" using Cons.prems(5) by (simp add: c)
  show ?case
  proof (cases "sqlite3Codec P ctx pData pgno mode w")
    case None
    then have "no_room ctx pgno mode" using codec_run [OF Cons.prems(1-4) l, of pgno mode] by auto
    then show ?thesis using None by (simp add: c)
  next
    case Some
    with codec_run [OF Cons.prems(1-4) l, of pgno mode] obtain out page x v where
      r: "sqlite3Codec P ctx pData pgno mode w = Some (out, page, x, v)" "wf x" "codec_frame ctx x" "codec_outcome pData pgno mode out page x" "up (w_prov v)"
      by auto
    have x: "page_choice block_size x n" "btree_ok (pBt x)" "\<forall>c \<in> set cs. length (fst c) = nat (page_sz x)" for n
      using codec_frame_header(2) [OF r(3)] codec_frame_fits(3) [OF r(3)] Cons.prems(3-5) r(3) by (simp_all add: codec_frame_def)
    show ?thesis
    proof (cases "codec_calls P x cs v")
      case None
      then have "\<exists>c \<in> set cs. no_room ctx (fst (snd c)) (snd (snd c))"
        using Cons.IH [OF r(5,2) x(2,1,3)] codec_frame_fits(2) [OF r(3)] by auto
      then show ?thesis using None r(1) by (simp add: c)
    next
      case Some
      with Cons.IH [OF r(5,2) x(2,1,3)] obtain outs ctx' w' where
        i: "codec_calls P x cs v = Some (outs, ctx', w')" "wf ctx'" "codec_frame x ctx'" "up (w_prov w')" "length outs = length cs"
        "\<forall>i < length cs. length (snd (outs ! i)) = length (fst (cs ! i))" by auto
      have "length page = length pData" using r(4) by (simp add: codec_outcome_def)
      then have "\<forall>i < length (c # cs). length (snd (((out, page) # outs) ! i)) = length (fst ((c # cs) ! i))"
        using i(6) by (auto simp: c nth_Cons split: nat.split)
      then show ?thesis using r(1) i codec_frame_trans [OF r(3) i(3)] by (simp add: c)
    qed
  qed
qed

lemma codec_calls_result:
  assumes "up (w_prov w)" "wf ctx" "btree_ok (pBt ctx)" "header_ok block_size ctx" "\<forall>c \<in> set cs. length (fst c) = nat (page_sz ctx)"
  shows "\<exists>outs ctx' w'. codec_calls P ctx cs w = Some (outs, ctx', w') \<and> wf ctx' \<and> codec_frame ctx ctx' \<and> up (w_prov w') \<and>
    length outs = length cs \<and> (\<forall>i < length cs. length (snd (outs ! i)) = length (fst (cs ! i)))"
  using codec_calls_run [OF assms(1-3) header_ok_choice(1) [OF assms(4)] assms(5)] header_ok_choice(2) [OF assms(4)] by blast

text \<open>A page of one connection, read by another.\<close>

lemma codec_page_written:
  assumes a: "up (w_prov w)" "wf a" "header_fits block_size a" "length x = nat (page_sz a)" "pgno = 1 \<Longrightarrow> bit (cc_flags a) 4"
      "codec_write P f a x pgno (page_offset a pgno) w = Some (Buffer, x', a', w')" "cc_buffer a' = Some y"
    and off_def: "off = page_offset a pgno"
  obtains ba o1 s1 where
    "page_layout a (page_sz a - off) (nat (page_sz a - reserve_sz a - off)) (drop (nat off) x) (drop (nat off) ba)" "0 \<le> off" "off \<le> page_sz a"
    "sqlcipher_page_cipher P a f pgno SQLCIPHER_ENCRYPT (page_sz a - off) (drop (nat off) x) (drop (nat off) ba) w = Some (SQLITE_OK, o1, w\<lparr>w_prov := s1\<rparr>)"
    "y = page_head a pgno (kdf_salt a) x @ o1" "length o1 = nat (page_sz a - off)" "length (page_head a pgno (kdf_salt a) x) = nat off"
    "length y = nat (page_sz a)" "pgno = 1 \<and> plaintext_header_sz a = 0 \<longrightarrow> take 16 y = kdf_salt a"
proof -
  obtain ba where ba: "cc_buffer a = Some ba" using a(2) by (auto simp: codec_wf_iff sizes_wf_def)
  note la = codec_layout [OF a(2) header_fits_at [OF a(3)] a(4) ba off_def]
  have sa: "length (kdf_salt a) = 16" using a(2) by (simp add: codec_wf_iff sizes_wf_def)
  have "SQLCIPHER_ENCRYPT \<in> {SQLCIPHER_ENCRYPT, SQLCIPHER_DECRYPT}" by simp
  from page_cipher_total [OF a(1,2) la(1) this, of f pgno] obtain rc o1 s1 where
    c: "sqlcipher_page_cipher P a f pgno SQLCIPHER_ENCRYPT (page_sz a - off) (drop (nat off) x) (drop (nat off) ba) w = Some (rc, o1, w\<lparr>w_prov := s1\<rparr>)"
    "length o1 = nat (page_sz a - off)" by blast
  let ?ha = "page_head a pgno (kdf_salt a) x"
  note w = codec_write_eq [OF ba la(4) a(4) sa off_def refl la(2,3) a(5) c refl]
  have ok: "rc = SQLITE_OK" using w a(6) unfolding off_def by (auto split: if_splits)
  then have y: "y = ?ha @ o1" using w a(6,7) unfolding off_def by auto
  have lha: "length ?ha = nat off" using length_page_head [of a "kdf_salt a" pgno x] sa a(4) la(2,3) off_def by simp
  have ly: "length y = nat (page_sz a)" using y lha c(2) la(2,3) by simp
  have salt: "pgno = 1 \<and> plaintext_header_sz a = 0 \<longrightarrow> take 16 y = kdf_salt a"
    using y sa by (simp add: page_head_def page_offset_def FILE_HEADER_SZ_def)
  show thesis by (rule that [OF la(1-3) c(1) [unfolded ok] y c(2) lha ly salt])
qed

lemma codec_page_round_trip:
  assumes a: "up (w_prov w)" "wf a" "header_fits block_size a" "length x = nat (page_sz a)" "pgno = 1 \<Longrightarrow> bit (cc_flags a) 4"
      "codec_write P f a x pgno (page_offset a pgno) w = Some (Buffer, x', a', w')" "cc_buffer a' = Some y"
    and b: "up (w_prov v)" "wf b" "page_sz b = page_sz a" "plaintext_header_sz b = plaintext_header_sz a"
      "codec_read P b y pgno (page_offset b pgno) v = Some (out, z, b', v')"
    and same: "reserve_sz b = reserve_sz a" "bit (cc_flags b) 0 = bit (cc_flags a) 0" "pgno_raw b pgno = pgno_raw a pgno"
      "hmac_algorithm b = hmac_algorithm a" "ukey v (read_ctx b) = ukey w (get_cctx f a)"
      "bit (cc_flags a) 0 \<Longrightarrow> uhkey v (read_ctx b) = uhkey w (get_cctx f a)"
  shows "out = Page \<and>
    (take (nat (page_sz a - reserve_sz a)) z =
       page_head a pgno SQLITE_FILE_HEADER x @ drop (nat (page_offset a pgno)) (take (nat (page_sz a - reserve_sz a)) x) \<or>
     \<not> roomy (w_prov v) \<and> take (nat (page_sz a)) z = page_head a pgno SQLITE_FILE_HEADER x @ replicate (nat (page_sz a - page_offset a pgno)) 0)"
proof -
  define off where "off = page_offset a pgno"
  define n where "n = nat (page_sz a - reserve_sz a - off)"
  have offb: "off = page_offset b pgno" "header_fits block_size b"
    using page_offset_cong(1) [OF b(4)] header_fits_cong [OF b(3) same(1) b(4)] a(3) by (simp_all add: off_def)
  obtain ba o1 s1 where la: "page_layout a (page_sz a - off) (nat (page_sz a - reserve_sz a - off)) (drop (nat off) x) (drop (nat off) ba)"
      "0 \<le> off" "off \<le> page_sz a"
    and c: "sqlcipher_page_cipher P a f pgno SQLCIPHER_ENCRYPT (page_sz a - off) (drop (nat off) x) (drop (nat off) ba) w = Some (SQLITE_OK, o1, w\<lparr>w_prov := s1\<rparr>)"
      "length o1 = nat (page_sz a - off)"
    and y: "y = page_head a pgno (kdf_salt a) x @ o1" and lha: "length (page_head a pgno (kdf_salt a) x) = nat off"
    and ly0: "length y = nat (page_sz a)"
    by (rule codec_page_written [OF a off_def])
  have ly: "length y = nat (page_sz a)" "drop (nat off) y = o1" using y lha ly0 by simp_all
  obtain bb where bb: "cc_buffer b = Some bb" using b(2) by (auto simp: codec_wf_iff sizes_wf_def)
  have ly': "length y = nat (page_sz b)" using ly b(3) by simp
  note lb = codec_layout [OF b(2) header_fits_at [OF offb(2)] ly' bb offb(1)]
  have "SQLCIPHER_DECRYPT \<in> {SQLCIPHER_ENCRYPT, SQLCIPHER_DECRYPT}" by simp
  from page_cipher_total [OF b(1,2) lb(1) this, of 0 pgno] obtain rd o2 s2 where
    d: "sqlcipher_page_cipher P b 0 pgno SQLCIPHER_DECRYPT (page_sz b - off) (drop (nat off) y) (drop (nat off) bb) v = Some (rd, o2, v\<lparr>w_prov := s2\<rparr>)"
    "length o2 = nat (page_sz b - off)" by blast
  let ?hb = "page_head b pgno SQLITE_FILE_HEADER y"
  note r = codec_read_eq [OF bb lb(4) ly' offb(1) refl lb(2,3) d refl]
  have z: "out = Page" "z = ?hb @ (if rd = SQLITE_OK then o2 else replicate (nat (page_sz a - off)) 0)" using r b(3,5) unfolding offb(1) by auto
  have hb: "?hb = page_head a pgno SQLITE_FILE_HEADER x"
  proof -
    have hd: "page_head b = page_head a" using b(4) by (rule page_offset_cong(2))
    have "take (nat off) y = take (nat off) x" if "plaintext_header_sz a \<noteq> 0"
      unfolding y using that lha by (simp add: page_head_def off_def)
    then show ?thesis unfolding hd by (simp add: page_head_def off_def [symmetric])
  qed
  have lhb: "length ?hb = nat off" using length_page_head [of b SQLITE_FILE_HEADER pgno y] ly' lb(2,3) offb(1) by simp
  have used: "nat (page_sz a - reserve_sz a) = nat off + n" "n \<le> nat (page_sz a - off)"
  proof -
    have "off \<le> page_sz a - reserve_sz a" using a(3) off_def by (cases "pgno = 1") (force simp: header_fits_def)+
    moreover have "0 \<le> reserve_sz a" using reserve_room(1) [OF a(2)] by (auto split: if_splits)
    ultimately show "nat (page_sz a - reserve_sz a) = nat off + n" "n \<le> nat (page_sz a - off)" using la(2) by (simp_all add: n_def)
  qed
  have rt: "rd = SQLITE_OK \<and> take n o2 = take n (drop (nat off) x) \<or> rd \<noteq> SQLITE_OK \<and> \<not> roomy (w_prov v)"
  proof (cases "n = 0")
    case False
    then have pos: "0 < n" by simp
    have lo: "length (drop (nat off) bb) = nat (page_sz a - off)" using lb(4) b(3) la(2,3) by (simp add: nat_diff_distrib)
    have d': "sqlcipher_page_cipher P b 0 pgno SQLCIPHER_DECRYPT (page_sz a - off) o1 (drop (nat off) bb) v = Some (rd, o2, v\<lparr>w_prov := s2\<rparr>)"
      using d(1) unfolding b(3) ly(2) .
    have k: "ukey v (get_cctx 0 b) = ukey w (get_cctx f a)" "bit (cc_flags a) 0 \<Longrightarrow> uhkey v (get_cctx 0 b) = uhkey w (get_cctx f a)"
      using same(5,6) by (simp_all add: get_cctx_def)
    from page_round_trip_wf [OF a(1,2) la(1) [folded n_def] pos c(1) b(1,2) lo d' same(1-4) k]
    show ?thesis by auto
  next
    case True
    have "page_offset a 1 \<noteq> 0" by (simp add: page_offset_def FILE_HEADER_SZ_def)
    then have "pgno = 1" using True a(3) by (cases "pgno = 1") (simp_all add: n_def off_def header_fits_def)
    moreover have "page_sz b - off - reserve_sz b = 0"
      using True used(1) la(2) b(3) same(1) a(3) \<open>pgno = 1\<close> unfolding off_def header_fits_def by (simp add: nat_eq_iff)
    ultimately have "rd = SQLITE_OK" using d(1) by (simp add: sqlcipher_page_cipher_def Let_def)
    then show ?thesis using True by simp
  qed
  have main: "take (nat (page_sz a - reserve_sz a)) z =
       page_head a pgno SQLITE_FILE_HEADER x @ drop (nat off) (take (nat (page_sz a - reserve_sz a)) x)" if "rd = SQLITE_OK"
  proof -
    have "take n o2 = take n (drop (nat off) x)" using rt that by blast
    then show ?thesis using that lhb unfolding z(2) hb used(1) by (simp add: take_drop add.commute)
  qed
  have wiped: "take (nat (page_sz a)) z = page_head a pgno SQLITE_FILE_HEADER x @ replicate (nat (page_sz a - off)) 0 \<and> \<not> roomy (w_prov v)" if "rd \<noteq> SQLITE_OK"
  proof -
    have "length z = nat (page_sz a)" unfolding z(2) using lhb that la(2,3) by simp
    then show ?thesis using rt that unfolding z(2) hb by simp
  qed
  show ?thesis using z(1) main wiped unfolding off_def by blast
qed

end

section \<open>The keys of a call\<close>

text \<open>The salt that is stored gives the keys it was stored with.\<close>

lemma key_material_salt:
  assumes "key_material F ks use_hmac iter fast msk p salt = (K, H, S)"
  shows "key_material F ks use_hmac iter fast msk p S = (K, H, S)" "use_hmac \<Longrightarrow> H \<noteq> None"
  using assms by (auto simp: key_material_def raw_material_def Let_def split: if_splits)

lemma sqlite3Codec_go:
  assumes "cc_error ctx = SQLITE_OK" "sqlcipher_codec_key_derive P ctx w = (rc, x, v)" "0 \<le> plaintext_header_sz x"
  shows "sqlite3Codec P ctx pData pgno CODEC_READ_OP w =
      (if rc = SQLITE_OK then codec_read P x pData pgno (page_offset x pgno) v else Some (Null, pData, sqlcipher_codec_ctx_set_error x rc, v))"
    "mode \<in> {CODEC_WRITE_OP, CODEC_JOURNAL_OP} \<Longrightarrow> sqlite3Codec P ctx pData pgno mode w =
      (if rc = SQLITE_OK then codec_write P (if mode = CODEC_WRITE_OP then 1 else 0) x pData pgno (page_offset x pgno) v
       else Some (Null, pData, sqlcipher_codec_ctx_set_error x rc, v))"
  using assms by (auto simp: sqlite3Codec_def codec_op_defs)

text \<open>Once the keys are in place a call only drops the passphrases.\<close>

definition same_but_pass :: "codec_ctx \<Rightarrow> codec_ctx \<Rightarrow> bool" where
  "same_but_pass a x \<longleftrightarrow> keyed a x \<and> cc_flags x = cc_flags a \<and>
     ck_key (read_ctx x) = ck_key (read_ctx a) \<and> ck_hmac_key (read_ctx x) = ck_hmac_key (read_ctx a) \<and>
     ck_key (write_ctx x) = ck_key (write_ctx a) \<and> ck_hmac_key (write_ctx x) = ck_hmac_key (write_ctx a)"

lemma keys_in_place:
  assumes "derive_key (read_ctx ctx) = 0" "derive_key (write_ctx ctx) = 0" "codec_wf ks ivs bs ms ctx"
  obtains x where "sqlcipher_codec_key_derive P ctx w = (SQLITE_OK, x, w)" "codec_wf ks ivs bs ms x" "same_but_pass ctx x"
proof -
  let ?d = "ctx\<lparr>read_ctx := (read_ctx ctx)\<lparr>pass := None, pass_sz := 0\<rparr>, write_ctx := (write_ctx ctx)\<lparr>pass := None, pass_sz := 0\<rparr>\<rparr>"
  have d: "codec_wf ks ivs bs ms ?d" using assms(3) by (simp add: codec_wf_iff cipher_ctx_wf_def reserve_of_def sizes_wf_def)
  have k: "keyed ctx ?d" using keyed_ctx(2) [OF keyed_ctx(1) [OF keyed_refl]] by simp
  show thesis
    by (rule that [of "if store_pass ctx = 1 then ctx else ?d"])
      (use assms d k in \<open>simp_all add: sqlcipher_codec_key_derive_def derive_read_ctx_def derive_write_ctx_def set_pass_none same_but_pass_def\<close>)
qed

text \<open>Two connections with the same settings.\<close>

definition same_settings :: "codec_ctx \<Rightarrow> codec_ctx \<Rightarrow> bool" where
  "same_settings a b \<longleftrightarrow> page_sz a = page_sz b \<and> plaintext_header_sz a = plaintext_header_sz b \<and> hmac_algorithm a = hmac_algorithm b \<and>
     kdf_algorithm a = kdf_algorithm b \<and> kdf_iter a = kdf_iter b \<and> fast_kdf_iter a = fast_kdf_iter b \<and>
     FLAG_GET (cc_flags a) CIPHER_FLAG_HMAC = FLAG_GET (cc_flags b) CIPHER_FLAG_HMAC \<and>
     FLAG_GET (cc_flags a) CIPHER_FLAG_LE_PGNO = FLAG_GET (cc_flags b) CIPHER_FLAG_LE_PGNO \<and>
     FLAG_GET (cc_flags a) CIPHER_FLAG_BE_PGNO = FLAG_GET (cc_flags b) CIPHER_FLAG_BE_PGNO"

lemma same_settings_reserve:
  assumes "same_settings a b" "codec_wf ks ivs bs ms a" "codec_wf ks ivs bs ms b"
  shows "reserve_sz a = reserve_sz b" "pgno_raw a pgno = pgno_raw b pgno"
  using assms by (simp_all add: same_settings_def codec_wf_iff reserve_of_def pgno_raw_def)

text \<open>The header of a file without a plaintext header always fits.\<close>

lemma ltc_reserve_small:
  assumes "ltc_wf ctx"
  shows "reserve_sz ctx \<le> 96" "512 \<le> page_sz ctx" "16 dvd page_sz ctx"
proof -
  obtain k where k: "9 \<le> k" "k \<le> 16" "page_sz ctx = 2 ^ k" using assms by (auto simp: codec_wf_iff sizes_wf_def page_ok_def)
  show "16 dvd page_sz ctx" unfolding k(3) using le_imp_power_dvd [of 4 k "2 :: int"] k(1) by simp
  show "512 \<le> page_sz ctx" unfolding k(3) using power_increasing [of 9 k "2 :: int"] k(1) by simp
  have "ltc_mac_size (hmac_algorithm ctx) \<le> 64" using assms by (auto simp: codec_wf_iff alg_ok_def)
  then show "reserve_sz ctx \<le> 96" using assms by (auto simp: codec_wf_iff reserve_of_def round_up_def)
qed

lemma ltc_page_choice:
  assumes "ltc_wf ctx" "plaintext_header_sz ctx < 0 \<or> 16 dvd plaintext_header_sz ctx"
  shows "page_choice 16 ctx pgno"
proof -
  have "(16 :: int) dvd reserve_sz ctx" using ltc.reserve_room(2) [OF assms(1)] by simp
  then show ?thesis using ltc_reserve_small [OF assms(1)] assms(2)
    by (auto simp: page_choice_def fits_at_def page_offset_def FILE_HEADER_SZ_def)
qed

lemma ltc_header_fits:
  assumes "ltc_wf ctx" "0 \<le> plaintext_header_sz ctx" "16 dvd plaintext_header_sz ctx" "plaintext_header_sz ctx \<le> page_sz ctx - reserve_sz ctx"
  shows "header_fits 16 ctx"
proof -
  have "(16 :: int) dvd reserve_sz ctx" using ltc.reserve_room(2) [OF assms(1)] by simp
  then show ?thesis using ltc_reserve_small [OF assms(1)] assms(2-4) by (auto simp: header_fits_def page_offset_def FILE_HEADER_SZ_def)
qed

context crypto_provider
begin

lemma codec_round_trip_keys:
  assumes a: "up (w_prov w)" "wf a" "header_fits block_size a" "cc_error a = SQLITE_OK" "length x = nat (page_sz a)" "pgno = 1 \<Longrightarrow> bit (cc_flags a) 4"
      "derive_key (read_ctx a) = 0" "derive_key (write_ctx a) = 0" "mode \<in> {CODEC_WRITE_OP, CODEC_JOURNAL_OP}"
      "sqlite3Codec P a x pgno mode w = Some (Buffer, x', a', w')" "cc_buffer a' = Some y"
    and b: "up (w_prov v)" "wf b" "cc_error b = SQLITE_OK" "derive_key (read_ctx b) = 0" "derive_key (write_ctx b) = 0"
      "page_sz b = page_sz a" "plaintext_header_sz b = plaintext_header_sz a" "sqlite3Codec P b y pgno CODEC_READ_OP v = Some (out, z, b', v')"
    and same: "same_format pgno b a" "same_keys v (read_ctx b) w (get_cctx (if mode = CODEC_WRITE_OP then 1 else 0) a)"
  shows "out = Page \<and>
    (take (nat (page_sz a - reserve_sz a)) z =
       page_head a pgno SQLITE_FILE_HEADER x @ drop (nat (page_offset a pgno)) (take (nat (page_sz a - reserve_sz a)) x) \<or>
     \<not> roomy (w_prov v) \<and> take (nat (page_sz a)) z = page_head a pgno SQLITE_FILE_HEADER x @ replicate (nat (page_sz a - page_offset a pgno)) 0)"
proof -
  let ?f = "if mode = CODEC_WRITE_OP then 1 else 0 :: int"
  obtain a1 where ka: "sqlcipher_codec_key_derive P a w = (SQLITE_OK, a1, w)" "wf a1" "same_but_pass a a1" by (rule keys_in_place [OF a(7,8,2)])
  obtain b1 where kb: "sqlcipher_codec_key_derive P b v = (SQLITE_OK, b1, v)" "wf b1" "same_but_pass b b1" by (rule keys_in_place [OF b(4,5,2)])
  have fa: "keyed a a1" "cc_flags a1 = cc_flags a" and fb: "keyed b b1" "cc_flags b1 = cc_flags b" using ka(3) kb(3) by (simp_all add: same_but_pass_def)
  note da = keyedD [OF fa(1)] and db = keyedD [OF fb(1)]
  have h: "0 \<le> plaintext_header_sz a1" "0 \<le> plaintext_header_sz b1"
    using a(3) da(3) db(3) b(7) by (simp_all add: header_fits_def page_offset_def split: if_splits)
  have wr: "codec_write P ?f a1 x pgno (page_offset a1 pgno) w = Some (Buffer, x', a', w')"
    using a(10) sqlite3Codec_go(2) [OF a(4) ka(1) h(1) a(9)] by simp
  have rd: "codec_read P b1 y pgno (page_offset b1 pgno) v = Some (out, z, b', v')"
    using b(8) sqlite3Codec_go(1) [OF b(3) kb(1) h(2)] by simp
  have fits: "header_fits block_size a1" using a(3) header_fits_cong [OF da(1-3)] by simp
  have len: "length x = nat (page_sz a1)" using a(5) da(1) by simp
  have salt: "pgno = 1 \<Longrightarrow> bit (cc_flags a1) 4" using a(6) fa(2) by simp
  have pr: "pgno_raw b1 = pgno_raw b" "pgno_raw a1 = pgno_raw a" using fa(2) fb(2) by (simp_all add: pgno_raw_def fun_eq_iff)
  have same': "page_sz b1 = page_sz a1" "plaintext_header_sz b1 = plaintext_header_sz a1" "reserve_sz b1 = reserve_sz a1"
    "bit (cc_flags b1) 0 = bit (cc_flags a1) 0" "pgno_raw b1 pgno = pgno_raw a1 pgno" "hmac_algorithm b1 = hmac_algorithm a1"
    using da db b(6,7) same(1) by (simp_all add: same_format_def pr)
  have keys: "ukey v (read_ctx b1) = ukey w (get_cctx ?f a1)" "uhkey v (read_ctx b1) = uhkey w (get_cctx ?f a1)"
    using ka(3) kb(3) same(2) by (simp_all add: same_but_pass_def same_keys_def get_cctx_def split: if_splits)
  have po: "page_offset a1 pgno = page_offset a pgno" "page_head a1 = page_head a" using page_offset_cong [OF da(3)] by simp_all
  from codec_page_round_trip [OF a(1) ka(2) fits len salt wr a(11) b(1) kb(2) same'(1,2) rd same'(3-6) keys]
  show ?thesis unfolding po da(1,2) by blast
qed

lemma codec_round_trip_pass:
  assumes a: "up (w_prov w)" "wf a" "btree_ok (pBt a)" "header_fits block_size a" "plaintext_header_sz a = 0" "cc_error a = SQLITE_OK" "length x = nat (page_sz a)"
      "derive_key (read_ctx a) \<noteq> 0" "write_ctx a = read_ctx a" "pass (read_ctx a) = Some p"
      "sqlite3Codec P a x 1 CODEC_WRITE_OP w = Some (Buffer, x', a', w')" "cc_buffer a' = Some y"
    and b: "up (w_prov v)" "wf b" "btree_ok (pBt b)" "cc_error b = SQLITE_OK"
      "derive_key (read_ctx b) \<noteq> 0" "write_ctx b = read_ctx b" "pass (read_ctx b) = Some p"
      "\<not> bit (cc_flags b) 4" "bt_open (pBt b)" "bt_read (pBt b) (kdf_salt b) = (SQLITE_OK, take 16 y)"
      "sqlite3Codec P b y 1 CODEC_READ_OP v = Some (out, z, b', v')"
    and same: "same_settings b a" "hmac_salt_mask (w_defaults v) = hmac_salt_mask (w_defaults w)"
    and room: "roomy (w_prov v)" "plenty (w_heap v)"
  shows "out = Page \<and>
    take (nat (page_sz a - reserve_sz a)) z = SQLITE_FILE_HEADER @ drop 16 (take (nat (page_sz a - reserve_sz a)) x)"
proof -
  obtain ra a1 wa where ka: "sqlcipher_codec_key_derive P a w = (ra, a1, wa)" by (rule prod_cases3)
  obtain rb b1 vb where kb: "sqlcipher_codec_key_derive P b v = (rb, b1, vb)" by (rule prod_cases3)
  note ra = codec_key_derive_result [OF a(1-3) ka] and rb = codec_key_derive_result [OF b(1-3) kb]
  have sa: "wf a1" "keyed a a1" "up (w_prov wa)" "consumed w wa" and sb: "wf b1" "keyed b b1" "up (w_prov vb)" "consumed v vb"
    and rm: "roomy (w_prov vb)"
    using ra rb room(1) by (simp_all add: step_ok_def)
  note da = keyedD [OF sa(2)] and db = keyedD [OF sb(2)]
  have ss: "page_sz b = page_sz a" "plaintext_header_sz b = plaintext_header_sz a" using same(1) by (simp_all add: same_settings_def)
  have h: "0 \<le> plaintext_header_sz a1" "0 \<le> plaintext_header_sz b1" using a(5) da(3) db(3) ss(2) by simp_all
  have wm: "CODEC_WRITE_OP \<in> {CODEC_WRITE_OP, CODEC_JOURNAL_OP}" by simp
  have oka: "ra = SQLITE_OK" and wr: "codec_write P 1 a1 x 1 (page_offset a1 1) wa = Some (Buffer, x', a', w')"
    using a(11) sqlite3Codec_go(2) [OF a(6) ka h(1) wm] by (auto split: if_splits)
  have okb: "rb = SQLITE_OK" using rb b(5-7) room by blast
  have rd: "codec_read P b1 y 1 (page_offset b1 1) vb = Some (out, z, b', v')"
    using b(11) sqlite3Codec_go(1) [OF b(4) kb h(2)] okb by simp
  have dva: "derived KDF key_size w a p a1 (read_ctx a1)" "write_ctx a1 = read_ctx a1" using ra a(8-10) oka by blast+
  have dvb: "derived KDF key_size v b p b1 (read_ctx b1)" using rb b(5-7) okb by blast
  obtain salt K H where A: "material_of KDF key_size (hmac_salt_mask (w_defaults w)) a p salt = (K, H, kdf_salt a1)"
    "holds_keys (w_mask w) (K, H) (read_ctx a1)" "bit (cc_flags a1) 4" using dva(1) by (auto simp: derived_def)
  have fits: "header_fits block_size a1" using a(4) header_fits_cong [OF da(1-3)] by simp
  have len: "length x = nat (page_sz a1)" using a(7) da(1) by simp
  have rs: "reserve_sz b = reserve_sz a" "pgno_raw b 1 = pgno_raw a 1" using same_settings_reserve [OF same(1) b(2) a(2)] by simp_all
  have flags: "bit (cc_flags b) 0 = bit (cc_flags a) 0" "hmac_algorithm b = hmac_algorithm a" using same(1) by (simp_all add: same_settings_def)
  have "bit (cc_flags b1) 1 = bit (cc_flags a1) 1" "bit (cc_flags b1) 2 = bit (cc_flags a1) 2"
    using same(1) da(9) [of 1] da(9) [of 2] db(9) [of 1] db(9) [of 2] by (simp_all add: same_settings_def)
  then have raw: "pgno_raw b1 1 = pgno_raw a1 1" by (simp add: pgno_raw_def)
  have same': "page_sz b1 = page_sz a1" "plaintext_header_sz b1 = plaintext_header_sz a1" "reserve_sz b1 = reserve_sz a1"
    "bit (cc_flags b1) 0 = bit (cc_flags a1) 0" "hmac_algorithm b1 = hmac_algorithm a1"
    using da db ss rs flags da(9) [of 0] db(9) [of 0] by simp_all
  have mw: "w_mask wa = w_mask w" "w_mask vb = w_mask v" using consumedD(1) [OF sa(4)] consumedD(1) [OF sb(4)] .
  have "get_cctx 1 a1 = read_ctx a1" using dva(2) by (simp add: get_cctx_def)
  then have ka1: "ukey wa (get_cctx 1 a1) = K" "H \<noteq> None \<Longrightarrow> uhkey wa (get_cctx 1 a1) = the H" using A(2) mw by (auto simp: holds_keys_def)
  have a3: "bit (cc_flags a1) 4" if "(1 :: u32) = 1" using A(3) .
  have h0: "(1 :: u32) = 1 \<and> plaintext_header_sz a1 = 0" using a(5) da(3) by simp
  have y: "take 16 y = kdf_salt a1"
  proof (rule codec_page_written [OF sa(3,1) fits len a3 wr a(12) refl])
    assume *: "(1 :: u32) = 1 \<and> plaintext_header_sz a1 = 0 \<longrightarrow> take 16 y = kdf_salt a1"
    show "take 16 y = kdf_salt a1" using * h0 by blast
  qed
  have "salt_source b s \<Longrightarrow> s = kdf_salt a1" for s using b(8-10) y by (simp add: salt_source_def)
  then obtain K' H' S' where B: "material_of KDF key_size (hmac_salt_mask (w_defaults v)) b p (kdf_salt a1) = (K', H', S')"
    "holds_keys (w_mask v) (K', H') (read_ctx b1)" using dvb by (auto simp: derived_def)
  have st: "kdf_algorithm b = kdf_algorithm a" "kdf_iter b = kdf_iter a" "fast_kdf_iter b = fast_kdf_iter a" using same(1) by (simp_all add: same_settings_def)
  have "material_of KDF key_size (hmac_salt_mask (w_defaults w)) a p (kdf_salt a1) = (K', H', S')" using B(1) st flags(1) same(2) by simp
  then have KH: "K' = K" "H' = H" using key_material_salt(1) [OF A(1)] by simp_all
  have kb1: "ukey vb (read_ctx b1) = K" "H \<noteq> None \<Longrightarrow> uhkey vb (read_ctx b1) = the H" using B(2) mw by (auto simp: holds_keys_def KH)
  have hm: "H \<noteq> None" if "bit (cc_flags a1) 0" using key_material_salt(2) [OF A(1)] that da(9) [of 0] by simp
  have keys: "ukey vb (read_ctx b1) = ukey wa (get_cctx 1 a1)" "bit (cc_flags a1) 0 \<Longrightarrow> uhkey vb (read_ctx b1) = uhkey wa (get_cctx 1 a1)"
    using ka1 kb1 hm by simp_all
  have hd: "page_head a1 1 SQLITE_FILE_HEADER x = SQLITE_FILE_HEADER" "page_offset a1 1 = 16"
    using a(5) da(3) by (simp_all add: page_head_def page_offset_def FILE_HEADER_SZ_def)
  from codec_page_round_trip [OF sa(3,1) fits len a3 wr a(12) sb(3,1) same'(1,2) rd same'(3,4) raw same'(5) keys] rm
  show ?thesis unfolding hd da(1,2) by simp
qed

end

context crypto_provider
begin

text \<open>With memory at hand a write succeeds.\<close>

lemma codec_write_succeeds:
  assumes "up (w_prov w)" "wf ctx" "btree_ok (pBt ctx)" "header_fits block_size ctx" "cc_error ctx = SQLITE_OK" "length pData = nat (page_sz ctx)"
    "sqlcipher_codec_key_derive P ctx w = (SQLITE_OK, x, v)" "roomy (w_prov w)" "mode \<in> {CODEC_WRITE_OP, CODEC_JOURNAL_OP}"
  obtains y ctx' w' where "sqlite3Codec P ctx pData pgno mode w = Some (Buffer, pData, ctx', w')" "cc_buffer ctx' = Some y" "length y = nat (page_sz ctx)"
proof -
  let ?f = "if mode = CODEC_WRITE_OP then 1 else 0 :: int"
  have s: "wf x" "keyed ctx x" "up (w_prov v)" "roomy (w_prov v)"
    using codec_key_derive_result [OF assms(1-3,7)] assms(8) by (simp_all add: step_ok_def)
  note d = keyedD [OF s(2)]
  have x: "header_fits block_size x" "length pData = nat (page_sz x)" "cc_error x = SQLITE_OK" "btree_ok (pBt x)"
    using d header_fits_cong [OF d(1-3)] assms(3-6) by simp_all
  have h: "0 \<le> plaintext_header_sz x" using x(1) by (simp add: header_fits_def page_offset_def split: if_splits)
  obtain out ctx' t where w: "codec_write P ?f x pData pgno (page_offset x pgno) v = Some (out, pData, ctx', v\<lparr>w_prov := t\<rparr>)"
    "wf ctx'" "codec_frame x ctx'" "out = Buffer"
    using codec_write_result [OF s(3,1) header_fits_at [OF x(1)] x(2-4) assms(9), of ?f] s(4) by blast
  obtain y where y: "cc_buffer ctx' = Some y" "length y = nat (page_sz ctx')" using w(2) by (auto simp: codec_wf_iff sizes_wf_def)
  have "sqlite3Codec P ctx pData pgno mode w = Some (Buffer, pData, ctx', v\<lparr>w_prov := t\<rparr>)"
    using sqlite3Codec_go(2) [OF assms(5,7) h assms(9)] w(1,4) by simp
  then show thesis using y w(3) d(1) by (intro that) (simp_all add: codec_frame_def)
qed

end

section \<open>Properties\<close>

text \<open>
  C18: every call on a page of the right size, with a plaintext header in whole blocks as the setting of its size demands, keeps
  the context well-formed, and so does any sequence of calls.  A call is undefined only if it reads, writes or
  journals the first page and the header, which is not checked again when the reserve grows, overlaps the reserve.  The
  answer says what happened: nothing, the page is as it was and
  an error is set that the pager sees; the buffer, for the two kinds of write; or the page itself, decrypted, or wiped
  after its header and with the error set unless the whole page is a plaintext header, or for an unknown operation untouched with the error set.
\<close>

theorem codec_call:
  assumes "ltc_up (w_prov w)" "ltc_wf ctx" "btree_ok (pBt ctx)" "length pData = nat (page_sz ctx)"
    and "plaintext_header_sz ctx < 0 \<or> 16 dvd plaintext_header_sz ctx"
    and "\<forall>c \<in> set cs. length (fst c) = nat (page_sz ctx)"
  shows "sqlite3Codec sqlcipher_ltc_setup ctx pData pgno mode w = None \<and> no_room ctx pgno mode \<or>
    (\<exists>out page ctx' w'. sqlite3Codec sqlcipher_ltc_setup ctx pData pgno mode w = Some (out, page, ctx', w') \<and>
      ltc_wf ctx' \<and> codec_outcome pData pgno mode out page ctx' \<and>
      (codec_calls sqlcipher_ltc_setup ctx' cs w' = None \<and> (\<exists>c \<in> set cs. no_room ctx (fst (snd c)) (snd (snd c))) \<or>
       (\<exists>outs ctx'' w''. codec_calls sqlcipher_ltc_setup ctx' cs w' = Some (outs, ctx'', w'') \<and> ltc_wf ctx'' \<and> length outs = length cs)))"
proof -
  have choice: "page_choice 16 ctx n" for n using ltc_page_choice [OF assms(2,5)] .
  show ?thesis
  proof (cases "sqlite3Codec sqlcipher_ltc_setup ctx pData pgno mode w")
    case None
    then show ?thesis using ltc.codec_run [OF assms(1-3) choice assms(4), of pgno mode] by auto
  next
    case Some
    with ltc.codec_run [OF assms(1-3) choice assms(4), of pgno mode] obtain out page x v where
      r: "sqlite3Codec sqlcipher_ltc_setup ctx pData pgno mode w = Some (out, page, x, v)" "ltc_wf x" "codec_frame ctx x"
      "codec_outcome pData pgno mode out page x" "ltc_up (w_prov v)" by auto
    have x: "page_choice 16 x n" "btree_ok (pBt x)" "\<forall>c \<in> set cs. length (fst c) = nat (page_sz x)" "no_room x = no_room ctx" for n
      using codec_frame_header(2) [OF r(3)] codec_frame_fits(2,3) [OF r(3)] choice assms(3,6) r(3) by (simp_all add: codec_frame_def)
    from ltc.codec_calls_run [OF r(5,2) x(2,1,3)] r x(4) show ?thesis by auto
  qed
qed

lemma sample_header: "header_fits 16 sample_ctx" "header_ok 16 sample_ctx"
proof -
  show "header_fits 16 sample_ctx" using ltc_header_fits [OF sample_wf] by (simp add: sample_ctx_def)
  then show "header_ok 16 sample_ctx" by (simp add: header_ok_def)
qed

theorem codec_call_witness:
  "\<exists>out page ctx' w'. sqlite3Codec sqlcipher_ltc_setup sample_ctx (replicate 512 7) 1 CODEC_WRITE_OP sample_world = Some (out, page, ctx', w') \<and>
     codec_outcome (replicate 512 7) 1 CODEC_WRITE_OP out page ctx' \<and>
     codec_calls sqlcipher_ltc_setup ctx' [(replicate 512 8, 2, CODEC_JOURNAL_OP), (replicate 512 9, 3, CODEC_READ_OP)] w' \<noteq> None"
proof -
  have "length (replicate 512 7 :: bytes) = nat (page_sz sample_ctx)"
    "\<forall>c \<in> set [(replicate 512 8 :: bytes, 2 :: u32, CODEC_JOURNAL_OP), (replicate 512 9, 3, CODEC_READ_OP)]. length (fst c) = nat (page_sz sample_ctx)"
    by (simp_all add: sample_ctx_def)
  with codec_call [OF sample_world_ok(1) sample_wf sample_btree_ok, of "replicate 512 7"
      "[(replicate 512 8, 2, CODEC_JOURNAL_OP), (replicate 512 9, 3, CODEC_READ_OP)]" 1 CODEC_WRITE_OP] header_ok_choice(2) [OF sample_header(2)]
  show ?thesis by (auto simp: sample_ctx_def)
qed

text \<open>
  C19: after a call that gave no page or left the error set, every further call of any sequence gives no page
  and touches none, and nothing changes but that the error is set on the pager again.
\<close>

theorem codec_error_latch:
  assumes "ltc_up (w_prov w)" "ltc_wf ctx" "btree_ok (pBt ctx)" "header_ok 16 ctx" "length pData = nat (page_sz ctx)"
    and "sqlite3Codec sqlcipher_ltc_setup ctx pData pgno mode w = Some (out, page, ctx1, w1)" "out = Null \<or> cc_error ctx1 \<noteq> SQLITE_OK" "cs \<noteq> []"
  shows "\<exists>ctx2. codec_calls sqlcipher_ltc_setup ctx1 cs w1 = Some (map (\<lambda>c. (Null, fst c)) cs, ctx2, w1) \<and>
    cc_error ctx2 = cc_error ctx1 \<and> cc_error ctx1 \<noteq> SQLITE_OK \<and> bt_pager_err (pBt ctx2) = cc_error ctx1 \<and> cc_buffer ctx2 = cc_buffer ctx1"
proof -
  have "codec_outcome pData pgno mode out page ctx1" using ltc.codec_result [OF assms(1-5), of pgno mode] assms(6) by auto
  then have e: "cc_error ctx1 \<noteq> SQLITE_OK" using assms(7) by (auto simp: codec_outcome_def)
  show ?thesis using disabled_calls [OF e, of sqlcipher_ltc_setup cs w1] assms(8) e
    by (intro exI [of _ "sqlcipher_codec_ctx_set_error ctx1 (cc_error ctx1)"]) (simp, simp add: sqlcipher_codec_ctx_set_error_def)
qed

theorem codec_error_latch_witness:
  "\<exists>ctx1 w1 ctx2. sqlite3Codec sqlcipher_ltc_setup (sample_ctx\<lparr>plaintext_header_sz := -1\<rparr>) (replicate 512 7) 1 CODEC_READ_OP sample_world =
       Some (Null, replicate 512 7, ctx1, w1) \<and>
     codec_calls sqlcipher_ltc_setup ctx1 [(replicate 512 8, 2, CODEC_WRITE_OP)] w1 = Some ([(Null, replicate 512 8)], ctx2, w1)"
proof -
  let ?c = "sample_ctx\<lparr>plaintext_header_sz := -1\<rparr>"
  have c: "ltc_wf ?c" "btree_ok (pBt ?c)" "header_ok 16 ?c" "length (replicate 512 7 :: bytes) = nat (page_sz ?c)" "cc_error ?c = SQLITE_OK"
    using sample_wf sample_btree_ok by (simp_all add: codec_wf_iff header_ok_def reserve_of_def) (simp_all add: sample_ctx_def)
  obtain rc x v where k: "sqlcipher_codec_key_derive sqlcipher_ltc_setup ?c sample_world = (rc, x, v)" by (rule prod_cases3)
  have "keyed ?c x" using ltc.codec_key_derive_result [OF sample_world_ok(1) c(1,2) k] by (simp add: ltc.step_ok_def)
  then have "plaintext_header_sz x < 0" using keyedD(3) by fastforce
  then have r: "sqlite3Codec sqlcipher_ltc_setup ?c (replicate 512 7) 1 CODEC_READ_OP sample_world =
      Some (Null, replicate 512 7, sqlcipher_codec_ctx_set_error x (if rc \<noteq> SQLITE_OK then rc else SQLITE_ERROR), v)"
    using c(5) k by (simp add: sqlite3Codec_def)
  from codec_error_latch [OF sample_world_ok(1) c(1-4) r, of "[(replicate 512 8, 2, CODEC_WRITE_OP)]"] r show ?thesis by auto
qed

text \<open>
  C20: a page that one connection has written to the database, with the keys of its write context, or to the journal, with those of its
  read context, gives its bytes back to any connection that reads it with the same keys and format; the first page
  has the header of a database file again unless its own is plain.  If an allocation fails the page
  is wiped.
\<close>

theorem codec_round_trip:
  assumes "ltc_up (w_prov w)" "ltc_wf a" "header_fits 16 a" "cc_error a = SQLITE_OK" "length x = nat (page_sz a)"
      "pgno = 1 \<Longrightarrow> FLAG_GET (cc_flags a) CIPHER_FLAG_HAS_KDF_SALT"
      "derive_key (read_ctx a) = 0" "derive_key (write_ctx a) = 0" "mode \<in> {CODEC_WRITE_OP, CODEC_JOURNAL_OP}"
      "sqlite3Codec sqlcipher_ltc_setup a x pgno mode w = Some (Buffer, x', a', w')" "cc_buffer a' = Some y"
    and "ltc_up (w_prov v)" "ltc_wf b" "cc_error b = SQLITE_OK" "derive_key (read_ctx b) = 0" "derive_key (write_ctx b) = 0"
      "page_sz b = page_sz a" "plaintext_header_sz b = plaintext_header_sz a"
      "sqlite3Codec sqlcipher_ltc_setup b y pgno CODEC_READ_OP v = Some (out, z, b', v')"
    and "same_format pgno b a" "same_keys v (read_ctx b) w (get_cctx (if mode = CODEC_WRITE_OP then 1 else 0) a)"
  shows "out = Page \<and>
    (let usable = nat (page_sz a - reserve_sz a); header = page_head a pgno SQLITE_FILE_HEADER x in
     take usable z = header @ drop (length header) (take usable x) \<or>
     \<not> ltc_roomy (w_prov v) \<and> take (nat (page_sz a)) z = header @ replicate (nat (page_sz a) - length header) 0)"
proof -
  have po: "0 \<le> page_offset a pgno" "page_offset a pgno \<le> page_sz a"
    using ltc.codec_layout(2,3) [OF assms(2) header_fits_at [OF assms(3)] assms(5) _ refl, of _ pgno] assms(2) by (auto simp: codec_wf_iff sizes_wf_def)
  then have "length (page_head a pgno SQLITE_FILE_HEADER x) = nat (page_offset a pgno)"
    using length_page_head [of a SQLITE_FILE_HEADER pgno x] assms(5) by simp
  moreover have "nat (page_sz a - page_offset a pgno) = nat (page_sz a) - nat (page_offset a pgno)" using po by (simp add: nat_diff_distrib)
  moreover have "pgno = 1 \<Longrightarrow> bit (cc_flags a) 4" using assms(6) by simp
  ultimately show ?thesis
    using ltc.codec_round_trip_keys [OF assms(1-5) _ assms(7-21)] unfolding Let_def by simp
qed

lemma sample_keyed:
  defines "c \<equiv> sample_ctx\<lparr>read_ctx := sample_cipher_ctx\<lparr>derive_key := 0\<rparr>, write_ctx := sample_cipher_ctx\<lparr>derive_key := 0\<rparr>\<rparr>"
  shows "ltc_wf c" "btree_ok (pBt c)" "header_fits 16 c" "cc_error c = SQLITE_OK" "page_sz c = 512" "derive_key (read_ctx c) = 0" "derive_key (write_ctx c) = 0"
    "reserve_sz c = 80" "plaintext_header_sz c = 0" "write_ctx c = read_ctx c"
proof -
  show w: "ltc_wf c" using sample_wf by (simp add: c_def codec_wf_iff reserve_of_def cipher_ctx_wf_def sample_ctx_def sample_cipher_ctx_def sizes_wf_def)
  show h: "btree_ok (pBt c)" "cc_error c = SQLITE_OK" "page_sz c = 512" "derive_key (read_ctx c) = 0" "derive_key (write_ctx c) = 0"
    "reserve_sz c = 80" "plaintext_header_sz c = 0" "write_ctx c = read_ctx c"
    using sample_btree_ok by (simp_all add: c_def) (simp_all add: sample_ctx_def)
  show "header_fits 16 c" using ltc_header_fits [OF w] h by simp
qed

theorem codec_round_trip_witness:
  "let ctx = sample_ctx\<lparr>read_ctx := sample_cipher_ctx\<lparr>derive_key := 0\<rparr>, write_ctx := sample_cipher_ctx\<lparr>derive_key := 0\<rparr>\<rparr> in
   \<exists>ctx1 w1 y z ctx2 w2. sqlite3Codec sqlcipher_ltc_setup ctx (replicate 512 7) 2 CODEC_JOURNAL_OP sample_world = Some (Buffer, replicate 512 7, ctx1, w1) \<and>
     cc_buffer ctx1 = Some y \<and>
     sqlite3Codec sqlcipher_ltc_setup ctx y 2 CODEC_READ_OP sample_world = Some (Page, z, ctx2, w2) \<and> take 432 z = replicate 432 7"
proof -
  define c where "c = sample_ctx\<lparr>read_ctx := sample_cipher_ctx\<lparr>derive_key := 0\<rparr>, write_ctx := sample_cipher_ctx\<lparr>derive_key := 0\<rparr>\<rparr>"
  note s = sample_keyed [folded c_def]
  have ok: "header_ok 16 c" using s(3) by (simp add: header_ok_def)
  have l: "length (replicate 512 7 :: bytes) = nat (page_sz c)" by (simp add: s(5))
  have m: "CODEC_JOURNAL_OP \<in> {CODEC_WRITE_OP, CODEC_JOURNAL_OP}" by simp
  obtain c1 where k: "sqlcipher_codec_key_derive sqlcipher_ltc_setup c sample_world = (SQLITE_OK, c1, sample_world)"
    by (rule keys_in_place [OF s(6,7,1)])
  obtain y ctx1 w1 where a: "sqlite3Codec sqlcipher_ltc_setup c (replicate 512 7) 2 CODEC_JOURNAL_OP sample_world = Some (Buffer, replicate 512 7, ctx1, w1)"
    and y: "cc_buffer ctx1 = Some y" and ly: "length y = nat (page_sz c)"
    by (rule ltc.codec_write_succeeds [OF sample_world_ok(1) s(1-4) l k sample_world_ok(2) m])
  obtain o2 z ctx2 w2 where b: "sqlite3Codec sqlcipher_ltc_setup c y 2 CODEC_READ_OP sample_world = Some (o2, z, ctx2, w2)"
    using ltc.codec_result [OF sample_world_ok(1) s(1,2) ok ly, of 2 CODEC_READ_OP] by blast
  have f: "same_format 2 c c" "same_keys sample_world (read_ctx c) sample_world (get_cctx (if CODEC_JOURNAL_OP = CODEC_WRITE_OP then 1 else 0) c)"
    using s(10) by (simp_all add: same_format_def same_keys_def get_cctx_def)
  have p: "(2 :: u32) = 1 \<Longrightarrow> FLAG_GET (cc_flags c) CIPHER_FLAG_HAS_KDF_SALT" by simp
  from codec_round_trip [OF sample_world_ok(1) s(1,3,4) l p s(6,7) m a y sample_world_ok(1) s(1,4,6,7) refl refl b f]
  have "o2 = Page \<and> take 432 z = replicate 432 7" using sample_world_ok(2) s(5,8) by (simp add: Let_def)
  then show ?thesis using a y b unfolding c_def Let_def by blast
qed

text \<open>
  C21: a database can be opened with its passphrase: when a connection with a passphrase or raw key writes the first page, as its
  first call, any other connection with the same passphrase and settings that finds the salt at the start of that page
  reads, as its first call, the page that was written, with the header of a database file in
  place of the salt, provided that no allocation fails.
\<close>

theorem database_round_trip:
  assumes "ltc_up (w_prov w)" "ltc_wf a" "btree_ok (pBt a)" "plaintext_header_sz a = 0" "cc_error a = SQLITE_OK" "length x = nat (page_sz a)"
      "derive_key (read_ctx a) \<noteq> 0" "write_ctx a = read_ctx a" "pass (read_ctx a) = Some p"
      "sqlite3Codec sqlcipher_ltc_setup a x 1 CODEC_WRITE_OP w = Some (Buffer, x', a', w')" "cc_buffer a' = Some y"
    and "ltc_up (w_prov v)" "ltc_wf b" "btree_ok (pBt b)" "cc_error b = SQLITE_OK"
      "derive_key (read_ctx b) \<noteq> 0" "write_ctx b = read_ctx b" "pass (read_ctx b) = Some p"
      "\<not> FLAG_GET (cc_flags b) CIPHER_FLAG_HAS_KDF_SALT" "bt_open (pBt b)" "bt_read (pBt b) (kdf_salt b) = (SQLITE_OK, take 16 y)"
      "sqlite3Codec sqlcipher_ltc_setup b y 1 CODEC_READ_OP v = Some (out, z, b', v')"
    and "same_settings b a" "hmac_salt_mask (w_defaults v) = hmac_salt_mask (w_defaults w)" "ltc_roomy (w_prov v)" "plenty (w_heap v)"
  shows "out = Page \<and>
    take (nat (page_sz a - reserve_sz a)) z = SQLITE_FILE_HEADER @ drop 16 (take (nat (page_sz a - reserve_sz a)) x)"
proof -
  have r: "0 \<le> page_sz a - reserve_sz a" using ltc_reserve_small [OF assms(2)] by simp
  have "header_fits 16 a" using ltc_header_fits [OF assms(2)] assms(4) r by simp
  from ltc.codec_round_trip_pass [OF assms(1-3) this assms(4-18) _ assms(20-26)] assms(19) show ?thesis by simp
qed

theorem database_round_trip_witness:
  "\<exists>ctx1 w1 y z ctx2 w2. sqlite3Codec sqlcipher_ltc_setup sample_ctx (replicate 512 7) 1 CODEC_WRITE_OP sample_world = Some (Buffer, replicate 512 7, ctx1, w1) \<and>
     cc_buffer ctx1 = Some y \<and>
     sqlite3Codec sqlcipher_ltc_setup (sample_ctx\<lparr>pBt := sample_btree\<lparr>bt_open := True, bt_read := \<lambda>b. (SQLITE_OK, take (length b) (y @ b))\<rparr>\<rparr>) y 1
       CODEC_READ_OP sample_world = Some (Page, z, ctx2, w2) \<and> take 432 z = SQLITE_FILE_HEADER @ replicate 416 7"
proof -
  have s: "derive_key (read_ctx sample_ctx) \<noteq> 0" "write_ctx sample_ctx = read_ctx sample_ctx" "pass (read_ctx sample_ctx) = Some [97, 98, 99]"
    "cc_error sample_ctx = SQLITE_OK" "plaintext_header_sz sample_ctx = 0" "page_sz sample_ctx = 512" "reserve_sz sample_ctx = 80"
    "cc_flags sample_ctx = DEFAULT_CIPHER_FLAGS" "length (kdf_salt sample_ctx) = 16" by (simp_all add: sample_ctx_def sample_cipher_ctx_def)
  have l: "length (replicate 512 7 :: bytes) = nat (page_sz sample_ctx)" by (simp add: s(6))
  have m: "CODEC_WRITE_OP \<in> {CODEC_WRITE_OP, CODEC_JOURNAL_OP}" by simp
  obtain rc c1 v1 where k: "sqlcipher_codec_key_derive sqlcipher_ltc_setup sample_ctx sample_world = (rc, c1, v1)" by (rule prod_cases3)
  have "rc = SQLITE_OK"
    using ltc.codec_key_derive_result [OF sample_world_ok(1) sample_wf sample_btree_ok k] s(1-3) sample_world_ok(2,3) by blast
  note k = k [unfolded this]
  obtain y ctx1 w1 where a: "sqlite3Codec sqlcipher_ltc_setup sample_ctx (replicate 512 7) 1 CODEC_WRITE_OP sample_world = Some (Buffer, replicate 512 7, ctx1, w1)"
    and y: "cc_buffer ctx1 = Some y" and ly: "length y = nat (page_sz sample_ctx)"
    by (rule ltc.codec_write_succeeds [OF sample_world_ok(1) sample_wf sample_btree_ok sample_header(1) s(4) l k sample_world_ok(2) m])
  define b where "b = sample_ctx\<lparr>pBt := sample_btree\<lparr>bt_open := True, bt_read := \<lambda>b. (SQLITE_OK, take (length b) (y @ b))\<rparr>\<rparr>"
  have wf: "ltc_wf b" using sample_wf by (simp add: b_def codec_wf_iff reserve_of_def sizes_wf_def)
  have "length (take (length buf) (y @ buf)) = length buf" for buf by (simp only: length_take length_append min.absorb2 le_add2)
  then have bt: "btree_ok (pBt b)" unfolding b_def btree_ok_def by simp
  have sb: "cc_error b = SQLITE_OK" "derive_key (read_ctx b) \<noteq> 0" "write_ctx b = read_ctx b" "pass (read_ctx b) = Some [97, 98, 99]"
    "\<not> FLAG_GET (cc_flags b) CIPHER_FLAG_HAS_KDF_SALT" "bt_open (pBt b)" "bt_read (pBt b) (kdf_salt b) = (SQLITE_OK, take 16 y)"
    "same_settings b sample_ctx" "header_ok 16 b" "length y = nat (page_sz b)"
    using s ly sample_header(2) header_ok_cong [of b sample_ctx 16] by (simp_all add: b_def same_settings_def)
  obtain out z ctx2 w2 where r: "sqlite3Codec sqlcipher_ltc_setup b y 1 CODEC_READ_OP sample_world = Some (out, z, ctx2, w2)"
    using ltc.codec_result [OF sample_world_ok(1) wf bt sb(9,10), of 1 CODEC_READ_OP] by blast
  from database_round_trip [OF sample_world_ok(1) sample_wf sample_btree_ok s(5,4) l s(1-3) a y sample_world_ok(1) wf bt sb(1-7) r sb(8) refl sample_world_ok(2,3)]
  have "out = Page \<and> take 432 z = SQLITE_FILE_HEADER @ replicate 416 7" by (simp add: s(6,7))
  then show ?thesis using a y r unfolding b_def by blast
qed

end
