(* ===== verification/PrivHeap.thy ===== *)
theory PrivHeap
  imports CipherUtil
begin

text \<open>
  The private heap of SQLCipher: \<open>sqlcipher_malloc\<close> and \<open>sqlcipher_free\<close>.  Pointers are
  natural numbers; the block headers that the code reaches by casting are a map from
  addresses to records, the data bytes a map from addresses to bytes.  \<open>os\<close> is what
  \<open>sqlite3_malloc\<close> returns to the fallback.  Locking pages and logging have no effect on
  the state; each operation holds \<open>SQLCIPHER_MUTEX_MEM\<close> and is atomic.
\<close>

section \<open>The code\<close>

record private_block =
  pb_next :: "nat option"
  pb_size :: u32
  pb_used :: bool

record private_heap =
  ph_base :: "nat option"
  ph_sz :: u64
  ph_blocks :: "nat \<Rightarrow> private_block"
  ph_ram :: "nat \<Rightarrow> byte"
  ph_xoshiro :: xoshiro
  ph_used :: u64
  ph_hwm :: u64
  ph_alloc :: u64
  ph_allocs :: u32
  ph_overflow :: u64
  ph_overflows :: u32

definition SIZEOF_PRIVATE_BLOCK :: nat where "SIZEOF_PRIVATE_BLOCK = 16"
definition PRIVATE_HEAP_MIN_SPLIT_SIZE :: nat where "PRIVATE_HEAP_MIN_SPLIT_SIZE = 32"

definition ROUNDUP :: "u64 \<Rightarrow> u64" where
  "ROUNDUP x = (if x mod 8 \<noteq> 0 then (x div 8 + 1) * 8 else x)"

definition write_ram :: "nat \<Rightarrow> bytes \<Rightarrow> (nat \<Rightarrow> byte) \<Rightarrow> nat \<Rightarrow> byte" where
  "write_ram p bs ram = (\<lambda>x. if p \<le> x \<and> x < p + length bs then bs ! (x - p) else ram x)"

text \<open>\<open>xoshiro_randomness\<close> takes a signed 32-bit length and does nothing for a negative one.\<close>

definition int_arg :: "u64 \<Rightarrow> nat" where
  "int_arg sz = nat (sint (ucast sz :: u32))"

definition sqlcipher_internal_malloc :: "nat option \<Rightarrow> u64 \<Rightarrow> private_heap \<Rightarrow> nat option \<times> private_heap" where
  "sqlcipher_internal_malloc os sz st =
     (case os of None \<Rightarrow> (None, st)
      | Some p \<Rightarrow> (Some p, st\<lparr>ph_ram := write_ram p (replicate (unat sz) 0) (ph_ram st)\<rparr>))"

definition sqlcipher_internal_free :: "nat \<Rightarrow> u64 \<Rightarrow> private_heap \<Rightarrow> private_heap" where
  "sqlcipher_internal_free p sz st =
     (let (bs, xs) = xoshiro_randomness (int_arg sz) (ph_xoshiro st)
      in st\<lparr>ph_ram := write_ram p bs (ph_ram st), ph_xoshiro := xs\<rparr>)"

text \<open>The part of \<open>sqlcipher_extra_init\<close> that obtains the heap; \<open>os sz\<close> answers the request for \<open>sz\<close> bytes.\<close>

definition SQLCIPHER_PRIVATE_HEAP_SIZE_DEFAULT :: u64 where "SQLCIPHER_PRIVATE_HEAP_SIZE_DEFAULT = 49152"
definition SQLCIPHER_PRIVATE_HEAP_SIZE_STEP :: u64 where "SQLCIPHER_PRIVATE_HEAP_SIZE_STEP = 16384"

definition head_block :: "nat \<Rightarrow> private_heap \<Rightarrow> private_heap" where
  "head_block p st =
     (let (bs, xs) = xoshiro_randomness (int_arg (ph_sz st)) (ph_xoshiro st)
      in st\<lparr>ph_base := Some p, ph_ram := write_ram p bs (ph_ram st), ph_xoshiro := xs,
            ph_blocks := (ph_blocks st)(p := \<lparr>pb_next = None, pb_size = ucast (ph_sz st) - of_nat SIZEOF_PRIVATE_BLOCK, pb_used = False\<rparr>)\<rparr>)"

function private_heap_init :: "(u64 \<Rightarrow> nat option) \<Rightarrow> private_heap \<Rightarrow> private_heap" where
  "private_heap_init os st =
     (if SQLCIPHER_PRIVATE_HEAP_SIZE_STEP \<le> ph_sz st
      then case os (ph_sz st) of
             Some p \<Rightarrow> head_block p (snd (sqlcipher_internal_malloc (Some p) (ph_sz st) st))
           | None \<Rightarrow> private_heap_init os (st\<lparr>ph_sz := ph_sz st - SQLCIPHER_PRIVATE_HEAP_SIZE_STEP\<rparr>)
      else st)"
  by pat_completeness auto
termination
  by (relation "measure (\<lambda>(os, st). unat (ph_sz st))")
    (auto simp: SQLCIPHER_PRIVATE_HEAP_SIZE_STEP_def word_le_nat_alt unat_sub)

declare private_heap_init.simps [simp del]

text \<open>The search of \<open>sqlcipher_malloc\<close> along the \<open>next\<close> pointers.\<close>

partial_function (option) find_fit :: "(nat \<Rightarrow> private_block) \<Rightarrow> u64 \<Rightarrow> nat option \<Rightarrow> nat option option" where
  "find_fit B sz p =
     (case p of None \<Rightarrow> Some None
      | Some b \<Rightarrow>
          if \<not> pb_used (B b) \<and> sz \<le> ucast (pb_size (B b)) then Some (Some b)
          else find_fit B sz (pb_next (B b)))"

text \<open>The block found is marked, its space zeroed, and what is left split off when it is worth it.\<close>

definition take_block :: "u64 \<Rightarrow> nat \<Rightarrow> private_heap \<Rightarrow> private_heap" where
  "take_block sz b st =
     (let B = ph_blocks st;
          B = B(b := (B b)\<lparr>pb_used := True\<rparr>);
          st = st\<lparr>ph_ram := write_ram (b + SIZEOF_PRIVATE_BLOCK) (replicate (unat sz) 0) (ph_ram st)\<rparr>;
          bsz = (ucast (pb_size (B b)) :: u64);
          B = (if bsz \<ge> sz + of_nat SIZEOF_PRIVATE_BLOCK + of_nat PRIVATE_HEAP_MIN_SPLIT_SIZE
               then let split = b + unat sz + SIZEOF_PRIVATE_BLOCK;
                        B = B(split := \<lparr>pb_next = pb_next (B b),
                                        pb_size = ucast (bsz - sz - of_nat SIZEOF_PRIVATE_BLOCK),
                                        pb_used = False\<rparr>)
                    in B(b := (B b)\<lparr>pb_next := Some split, pb_size := ucast sz\<rparr>)
               else B)
      in st\<lparr>ph_blocks := B\<rparr>)"

definition sqlcipher_malloc :: "nat option \<Rightarrow> u64 \<Rightarrow> private_heap \<Rightarrow> (nat option \<times> private_heap) option" where
  "sqlcipher_malloc os sz st =
     (if sz < 1 then Some (None, st)
      else let sz = ROUNDUP sz in
        case find_fit (ph_blocks st) sz (ph_base st) of
          None \<Rightarrow> None
        | Some None \<Rightarrow>
            let st = st\<lparr>ph_overflow := ph_overflow st + sz, ph_overflows := ph_overflows st + 1\<rparr>
            in Some (sqlcipher_internal_malloc os sz st)
        | Some (Some b) \<Rightarrow>
            let st = take_block sz b st;
                st = st\<lparr>ph_used := ph_used st + sz\<rparr>;
                st = st\<lparr>ph_hwm := (if ph_used st > ph_hwm st then ph_used st else ph_hwm st),
                        ph_alloc := ph_alloc st + sz, ph_allocs := ph_allocs st + 1\<rparr>
            in Some (Some (b + SIZEOF_PRIVATE_BLOCK), st))"

text \<open>The search of \<open>sqlcipher_free\<close>: the block whose space starts at \<open>mem\<close>, and the one before it.\<close>

partial_function (option) find_block ::
  "(nat \<Rightarrow> private_block) \<Rightarrow> nat \<Rightarrow> nat option \<times> nat option \<Rightarrow> (nat option \<times> nat option) option" where
  "find_block B mem c =
     (if snd c = None then Some c
      else if mem = the (snd c) + SIZEOF_PRIVATE_BLOCK then Some c
      else find_block B mem (snd c, pb_next (B (the (snd c)))))"

definition merge_prev :: "nat option \<Rightarrow> nat \<Rightarrow> (nat \<Rightarrow> private_block) \<Rightarrow> nat \<times> (nat \<Rightarrow> private_block)" where
  "merge_prev prev b B =
     (case prev of
        Some p \<Rightarrow>
          if \<not> pb_used (B p)
          then (p, B(p := (B p)\<lparr>pb_size := pb_size (B p) + of_nat SIZEOF_PRIVATE_BLOCK + pb_size (B b),
                                 pb_next := pb_next (B b)\<rparr>))
          else (b, B)
      | None \<Rightarrow> (b, B))"

definition merge_next :: "nat \<Rightarrow> (nat \<Rightarrow> private_block) \<Rightarrow> nat \<Rightarrow> private_block" where
  "merge_next b B =
     (case pb_next (B b) of
        Some q \<Rightarrow>
          if \<not> pb_used (B q)
          then B(b := (B b)\<lparr>pb_size := pb_size (B b) + of_nat SIZEOF_PRIVATE_BLOCK + pb_size (B q),
                             pb_next := pb_next (B q)\<rparr>)
          else B
      | None \<Rightarrow> B)"

definition sqlcipher_free :: "nat \<Rightarrow> u64 \<Rightarrow> private_heap \<Rightarrow> private_heap option" where
  "sqlcipher_free mem sz st =
     (case find_block (ph_blocks st) mem (None, ph_base st) of
        None \<Rightarrow> None
      | Some (_, None) \<Rightarrow> Some (sqlcipher_internal_free mem sz st)
      | Some (prev, Some b) \<Rightarrow>
          let B = ph_blocks st;
              B = B(b := (B b)\<lparr>pb_used := False\<rparr>);
              block_size = pb_size (B b);
              (bs, xs) = xoshiro_randomness (int_arg (ucast block_size)) (ph_xoshiro st);
              st = st\<lparr>ph_ram := write_ram mem bs (ph_ram st), ph_xoshiro := xs\<rparr>;
              (b, B) = merge_prev prev b B;
              B = merge_next b B
          in Some (st\<lparr>ph_blocks := B, ph_used := ph_used st - ucast block_size\<rparr>))"

section \<open>The blocks as a list\<close>

text \<open>
  \<open>seg B p a bs q\<close>: from the pointer \<open>p\<close> the headers at \<open>a\<close> and after describe, without a gap,
  blocks of the sizes and states \<open>bs\<close>, and the last one points to \<open>q\<close>.
\<close>

type_synonym block_list = "(nat \<times> bool) list"

definition extent :: "block_list \<Rightarrow> nat" where
  "extent bs = (\<Sum>b \<leftarrow> bs. 16 + fst b)"

lemma extent_simps [simp]: "extent [] = 0" "extent (b # bs) = 16 + fst b + extent bs" "extent (xs @ ys) = extent xs + extent ys"
  by (simp_all add: extent_def)

fun seg :: "(nat \<Rightarrow> private_block) \<Rightarrow> nat option \<Rightarrow> nat \<Rightarrow> block_list \<Rightarrow> nat option \<Rightarrow> bool" where
  "seg B p a [] q \<longleftrightarrow> p = q"
| "seg B p a ((n, u) # bs) q \<longleftrightarrow>
     p = Some a \<and> unat (pb_size (B a)) = n \<and> pb_used (B a) = u \<and> seg B (pb_next (B a)) (a + 16 + n) bs q"

lemma seg_append: "seg B p a (xs @ ys) q \<longleftrightarrow> (\<exists>m. seg B p a xs m \<and> seg B m (a + extent xs) ys q)"
  by (induction xs arbitrary: p a) (auto simp: add.assoc)

lemma seg_cong:
  "(\<And>x. a \<le> x \<Longrightarrow> x < a + extent bs \<Longrightarrow> B' x = B x) \<Longrightarrow> seg B' p a bs q \<longleftrightarrow> seg B p a bs q"
proof (induction bs arbitrary: p a)
  case (Cons b bs)
  obtain n u where b: "b = (n, u)" by (cases b)
  have "B' a = B a" using Cons.prems [of a] by simp
  moreover have "seg B' r (a + 16 + n) bs q \<longleftrightarrow> seg B r (a + 16 + n) bs q" for r
    using Cons.prems b by (intro Cons.IH) auto
  ultimately show ?case by (simp add: b)
qed simp

lemma seg_start: "bs \<noteq> [] \<Longrightarrow> seg B p a bs q \<Longrightarrow> p = Some a"
  by (cases bs) auto


lemma seg_upd_outside:
  "x < a \<or> a + extent bs \<le> x \<Longrightarrow> seg (B(x := v)) p a bs q \<longleftrightarrow> seg B p a bs q"
  by (rule seg_cong) auto

lemma seg_middle:
  "seg B p a (xs @ b # ys) q \<longleftrightarrow>
     seg B p a xs (Some (a + extent xs)) \<and> seg B (Some (a + extent xs)) (a + extent xs) (b # ys) q"
  by (cases b) (auto simp: seg_append)

fun coalesced :: "block_list \<Rightarrow> bool" where
  "coalesced (x # y # zs) \<longleftrightarrow> (snd x \<or> snd y) \<and> coalesced (y # zs)"
| "coalesced _ \<longleftrightarrow> True"

lemma coalesced_append:
  "coalesced (xs @ ys) \<longleftrightarrow>
     coalesced xs \<and> coalesced ys \<and> (xs \<noteq> [] \<longrightarrow> ys \<noteq> [] \<longrightarrow> snd (last xs) \<or> snd (hd ys))"
  by (induction xs rule: coalesced.induct) (cases ys; auto)+

definition heap_wf :: "private_heap \<Rightarrow> nat \<Rightarrow> nat \<Rightarrow> block_list \<Rightarrow> bool" where
  "heap_wf st a N bs \<longleftrightarrow>
     seg (ph_blocks st) (ph_base st) a bs None \<and> extent bs = N \<and> N < 2 ^ 31 \<and>
     (\<forall>b \<in> set bs. 0 < fst b \<and> 8 dvd fst b) \<and> coalesced bs"

section \<open>The searches\<close>

fun fit_at :: "nat \<Rightarrow> nat \<Rightarrow> block_list \<Rightarrow> nat option" where
  "fit_at n a [] = None"
| "fit_at n a ((m, u) # bs) = (if \<not> u \<and> n \<le> m then Some a else fit_at n (a + 16 + m) bs)"

lemma unat_ucast_size: "unat (ucast (x :: u32) :: u64) = unat x"
proof -
  have "unat x < 2 ^ 32" using unsigned_less [of x] by simp
  then show ?thesis by (simp add: unsigned_ucast_eq take_bit_nat_eq_self)
qed

lemma ucast_up_down: "ucast (ucast (x :: u32) :: u64) = x"
  by (rule bit_word_eqI) (simp add: bit_simps)

lemma find_fit_seg:
  "seg B p a bs None \<Longrightarrow> find_fit B sz p = Some (fit_at (unat sz) a bs)"
proof (induction bs arbitrary: p a)
  case Nil
  then show ?case by (subst find_fit.simps) simp
next
  case (Cons b bs)
  obtain n u where "b = (n, u)" by (cases b)
  with Cons show ?case
    by (subst find_fit.simps) (auto simp: word_le_nat_alt unat_ucast_size)
qed

lemma fit_at_SomeD:
  "fit_at n a bs = Some b \<Longrightarrow>
     \<exists>xs m ys. bs = xs @ (m, False) # ys \<and> b = a + extent xs \<and> n \<le> m \<and> (\<forall>(k, u) \<in> set xs. u \<or> k < n)"
proof (induction bs arbitrary: a)
  case (Cons x bs)
  obtain m u where x: "x = (m, u)" by (cases x)
  show ?case
  proof (cases "\<not> u \<and> n \<le> m")
    case True
    then show ?thesis using Cons.prems x by (intro exI [of _ "[]"]) auto
  next
    case False
    then have "fit_at n (a + 16 + m) bs = Some b" using Cons.prems x by (simp split: if_splits)
    from Cons.IH [OF this] obtain xs m' ys where "bs = xs @ (m', False) # ys" "b = a + 16 + m + extent xs" "n \<le> m'"
      "\<forall>(k, u) \<in> set xs. u \<or> k < n" by blast
    moreover have "u \<or> m < n" using False by auto
    ultimately show ?thesis using x by (intro exI [of _ "x # xs"] exI [of _ m'] exI [of _ ys]) simp
  qed
qed simp

lemma fit_at_None: "fit_at n a bs = None \<longleftrightarrow> (\<forall>(k, u) \<in> set bs. u \<or> k < n)"
  by (induction n a bs rule: fit_at.induct) auto

lemma fit_at_append:
  "\<forall>(k, u) \<in> set xs. u \<or> k < n \<Longrightarrow> n \<le> m \<Longrightarrow> fit_at n a (xs @ (m, False) # ys) = Some (a + extent xs)"
proof (induction xs arbitrary: a)
  case (Cons x xs)
  then show ?case by (cases x) (auto simp: add.assoc)
qed simp

fun prev_of :: "nat option \<Rightarrow> nat \<Rightarrow> block_list \<Rightarrow> nat option" where
  "prev_of prev a [] = prev"
| "prev_of prev a ((m, u) # bs) = prev_of (Some a) (a + 16 + m) bs"

lemma find_block_found:
  "seg B p a (xs @ (m, u) # ys) None \<Longrightarrow>
   find_block B (a + extent xs + 16) (prev, p) = Some (prev_of prev a xs, Some (a + extent xs))"
proof (induction xs arbitrary: p a prev)
  case Nil
  then show ?case by (subst find_block.simps) (simp add: SIZEOF_PRIVATE_BLOCK_def)
next
  case (Cons b bs)
  obtain n u' where "b = (n, u')" by (cases b)
  with Cons.prems show ?case
    using Cons.IH [of "pb_next (B a)" "a + 16 + n" "Some a"]
    by (subst find_block.simps) (auto simp: SIZEOF_PRIVATE_BLOCK_def add.assoc)
qed

lemma find_block_foreign:
  "seg B p a bs None \<Longrightarrow> mem < a + 16 \<or> a + extent bs \<le> mem \<Longrightarrow> \<forall>b \<in> set bs. 0 < fst b \<Longrightarrow>
   \<exists>prev'. find_block B mem (prev, p) = Some (prev', None)"
proof (induction bs arbitrary: p a prev)
  case Nil
  then show ?case by (subst find_block.simps) simp
next
  case (Cons b bs)
  obtain n u' where "b = (n, u')" by (cases b)
  with Cons.prems show ?case
    using Cons.IH [of "pb_next (B a)" "a + 16 + n" "Some a"]
    by (subst find_block.simps) (auto simp: SIZEOF_PRIVATE_BLOCK_def add.assoc)
qed

lemma prev_of_snoc: "prev_of prev a (xs @ [(m, u)]) = Some (a + extent xs)"
  by (induction xs arbitrary: prev a) (auto simp: add.assoc)


section \<open>Marking and splitting\<close>

definition carve :: "nat \<Rightarrow> nat \<Rightarrow> block_list" where
  "carve n m = (if n + 48 \<le> m then [(n, True), (m - n - 16, False)] else [(m, True)])"

lemma extent_carve [simp]: "n \<le> m \<Longrightarrow> extent (carve n m) = 16 + m"
  by (simp add: carve_def)

lemma carve_words:
  fixes x :: u32 and sz :: u64
  assumes "unat x = m" "unat sz = n" "n \<le> m"
  shows "sz + of_nat SIZEOF_PRIVATE_BLOCK + of_nat PRIVATE_HEAP_MIN_SPLIT_SIZE \<le> ucast x \<longleftrightarrow> n + 48 \<le> m"
    and "n + 48 \<le> m \<Longrightarrow> unat (ucast (ucast x - sz - of_nat SIZEOF_PRIVATE_BLOCK :: u64) :: u32) = m - n - 16"
    and "unat (ucast sz :: u32) = n"
proof -
  have m: "m < 2 ^ 32" using assms(1) unsigned_less [of x, where 'a = nat] by simp
  have "unat (sz + 48) = n + 48"
    using assms(2,3) m by (simp add: unat_word_ariths)
  then show "sz + of_nat SIZEOF_PRIVATE_BLOCK + of_nat PRIVATE_HEAP_MIN_SPLIT_SIZE \<le> ucast x \<longleftrightarrow> n + 48 \<le> m"
    by (simp add: word_le_nat_alt unat_ucast_size assms(1) SIZEOF_PRIVATE_BLOCK_def PRIVATE_HEAP_MIN_SPLIT_SIZE_def add.assoc)
  show "unat (ucast sz :: u32) = n"
    using assms(2,3) m by (simp add: unsigned_ucast_eq take_bit_nat_eq_self)
  assume le: "n + 48 \<le> m"
  have "ucast x - sz - of_nat SIZEOF_PRIVATE_BLOCK = (of_nat (m - n - 16) :: u64)"
  proof -
    have "ucast x = (of_nat m :: u64)" "sz = of_nat n"
      by (simp_all flip: assms(1,2) unat_ucast_size)
    then show ?thesis using le by (simp add: SIZEOF_PRIVATE_BLOCK_def of_nat_diff)
  qed
  then show "unat (ucast (ucast x - sz - of_nat SIZEOF_PRIVATE_BLOCK :: u64) :: u32) = m - n - 16"
    using m by (simp add: unsigned_ucast_eq take_bit_nat_eq_self unsigned_of_nat)
qed

lemma seg_ConsD:
  assumes "seg B p a ((m, u) # ys) q"
  shows "p = Some a" "unat (pb_size (B a)) = m" "pb_used (B a) = u" "seg B (pb_next (B a)) (a + 16 + m) ys q"
  using assms by auto

lemma take_block_seg:
  assumes sg: "seg (ph_blocks st) p a (xs @ (m, False) # ys) None"
    and n: "unat sz = n" "n \<le> m"
  shows "seg (ph_blocks (take_block sz (a + extent xs) st)) p a (xs @ carve n m @ ys) None"
proof -
  define b where "b = a + extent xs"
  define B where "B = ph_blocks st"
  have xs: "seg B p a xs (Some b)" and bl: "seg B (Some b) b ((m, False) # ys) None"
    using sg by (simp_all only: seg_middle B_def b_def)
  note m = seg_ConsD(2) [OF bl] and ys = seg_ConsD(4) [OF bl]
  note w = carve_words [OF m n]
  define B' where "B' = ph_blocks (take_block sz b st)"
  have B': "B' = (if n + 48 \<le> m
      then B(b + 16 + n := \<lparr>pb_next = pb_next (B b), pb_size = ucast (ucast (pb_size (B b)) - sz - of_nat SIZEOF_PRIVATE_BLOCK :: u64), pb_used = False\<rparr>,
             b := (B b)\<lparr>pb_used := True, pb_next := Some (b + 16 + n), pb_size := ucast sz\<rparr>)
      else B(b := (B b)\<lparr>pb_used := True\<rparr>))"
    using n w(1) by (auto simp: B'_def take_block_def Let_def B_def fun_upd_twist SIZEOF_PRIVATE_BLOCK_def
        PRIVATE_HEAP_MIN_SPLIT_SIZE_def add.assoc add.commute)
  have before: "seg B' p a xs (Some b)"
    by (rule iffD2 [OF seg_cong xs]) (auto simp: B' b_def)
  have after: "seg B' (pb_next (B b)) (b + 16 + m) ys None"
    by (rule iffD2 [OF seg_cong ys]) (auto simp: B')
  show ?thesis
  proof (cases "n + 48 \<le> m")
    case True
    then have e: "b + 16 + m = b + 16 + n + 16 + (m - n - 16)" by simp
    have "seg B' (Some b) b (carve n m @ ys) None"
      using True after [unfolded e] w(2) [OF True] w(3) by (simp add: carve_def B')
    with before show ?thesis by (auto simp: seg_append B'_def b_def)
  next
    case False
    then have "seg B' (Some b) b (carve n m @ ys) None"
      using after m by (simp add: carve_def B')
    with before show ?thesis by (auto simp: seg_append B'_def b_def)
  qed
qed


section \<open>Merging\<close>

definition merge_back :: "block_list \<Rightarrow> nat \<Rightarrow> block_list \<times> nat" where
  "merge_back xs m = (if xs \<noteq> [] \<and> \<not> snd (last xs) then (butlast xs, fst (last xs) + 16 + m) else (xs, m))"

fun merge_fwd :: "nat \<Rightarrow> block_list \<Rightarrow> nat \<times> block_list" where
  "merge_fwd m ((k, False) # ys) = (m + 16 + k, ys)"
| "merge_fwd m ys = (m, ys)"

definition free_blocks :: "block_list \<Rightarrow> nat \<Rightarrow> block_list \<Rightarrow> block_list" where
  "free_blocks xs m ys =
     (let (xs, m) = merge_back xs m; (m, ys) = merge_fwd m ys in xs @ (m, False) # ys)"

lemma size_sum:
  fixes x y :: u32
  assumes "unat x = k" "unat y = m" "k + 16 + m < 2 ^ 32"
  shows "unat (x + of_nat SIZEOF_PRIVATE_BLOCK + y) = k + 16 + m"
  using assms by (simp add: unat_word_ariths SIZEOF_PRIVATE_BLOCK_def)

lemma merge_prev_seg:
  assumes sg: "seg B p a (xs @ (m, False) # ys) None"
    and small: "extent (xs @ (m, False) # ys) < 2 ^ 32"
    and mb: "merge_back xs m = (xs', m')"
  shows "\<exists>B'. merge_prev (prev_of None a xs) (a + extent xs) B = (a + extent xs', B') \<and>
    seg B' p a (xs' @ (m', False) # ys) None"
proof (cases xs rule: rev_cases)
  case Nil
  then show ?thesis using sg mb by (auto simp: merge_prev_def merge_back_def)
next
  case (snoc zs kv)
  obtain k v where kv: "kv = (k, v)" by (cases kv)
  define c b where "c = a + extent zs" and "b = a + extent xs"
  have bc: "b = c + 16 + k" by (simp add: b_def c_def snoc kv)
  have zs: "seg B p a zs (Some c)" and cs: "seg B (Some c) c ((k, v) # (m, False) # ys) None"
    using sg by (simp_all only: seg_middle c_def snoc kv append.assoc append.simps)
  then have cf: "unat (pb_size (B c)) = k" "pb_used (B c) = v" "pb_next (B c) = Some b"
      "unat (pb_size (B b)) = m" and ys: "seg B (pb_next (B b)) (b + 16 + m) ys None"
    by (auto simp: bc)
  have prev: "prev_of None a xs = Some c" by (simp add: snoc kv prev_of_snoc c_def)
  show ?thesis
  proof (cases v)
    case True
    then show ?thesis using sg mb cf prev by (auto simp: merge_prev_def merge_back_def snoc kv)
  next
    case False
    define B' where "B' = B(c := (B c)\<lparr>pb_size := pb_size (B c) + of_nat SIZEOF_PRIVATE_BLOCK + pb_size (B b),
                                 pb_next := pb_next (B b)\<rparr>)"
    have m': "xs' = zs" "m' = k + 16 + m" using mb False by (auto simp: merge_back_def snoc kv)
    have s: "unat (pb_size (B c) + of_nat SIZEOF_PRIVATE_BLOCK + pb_size (B b)) = k + 16 + m"
      using small cf by (intro size_sum) (auto simp: snoc kv)
    have "seg B' p a zs (Some c)" by (rule iffD2 [OF seg_cong zs]) (auto simp: B'_def c_def)
    moreover have "seg B' (pb_next (B b)) (b + 16 + m) ys None"
      by (rule iffD2 [OF seg_cong ys]) (auto simp: B'_def bc)
    moreover have "b + 16 + m = c + 16 + (k + 16 + m)" by (simp add: bc)
    ultimately have "seg B' p a (zs @ (k + 16 + m, False) # ys) None"
      using s cf(2) False by (simp add: seg_append c_def [symmetric]) (auto simp: B'_def)
    moreover have "merge_prev (prev_of None a xs) (a + extent xs) B = (c, B')"
      using cf(2) False by (simp add: merge_prev_def prev B'_def b_def)
    ultimately show ?thesis by (simp add: m' c_def)
  qed
qed

lemma merge_next_seg:
  assumes sg: "seg B p a (xs @ (m, False) # ys) None"
    and small: "extent (xs @ (m, False) # ys) < 2 ^ 32"
    and mf: "merge_fwd m ys = (m', ys')"
  shows "seg (merge_next (a + extent xs) B) p a (xs @ (m', False) # ys') None"
proof -
  define b where "b = a + extent xs"
  have xs: "seg B p a xs (Some b)" and bs: "seg B (Some b) b ((m, False) # ys) None"
    using sg by (simp_all only: seg_middle b_def)
  then have bf: "unat (pb_size (B b)) = m" "\<not> pb_used (B b)" and ys: "seg B (pb_next (B b)) (b + 16 + m) ys None"
    by auto
  show ?thesis
  proof (cases "\<exists>k zs. ys = (k, False) # zs")
    case False
    then have "m' = m" "ys' = ys" using mf by (cases "(m, ys)" rule: merge_fwd.cases; auto)+
    moreover have "merge_next b B = B"
      using False ys by (cases ys) (auto simp: merge_next_def)
    ultimately show ?thesis using sg by (simp add: b_def)
  next
    case True
    then obtain k zs where ks: "ys = (k, False) # zs" by blast
    define q where "q = b + 16 + m"
    define B' where "B' = merge_next b B"
    have qf: "pb_next (B b) = Some q" "unat (pb_size (B q)) = k" "\<not> pb_used (B q)"
      and zs: "seg B (pb_next (B q)) (q + 16 + k) zs None"
      using ys by (auto simp: ks q_def)
    have s: "unat (pb_size (B b) + of_nat SIZEOF_PRIVATE_BLOCK + pb_size (B q)) = m + 16 + k"
      using small bf qf by (intro size_sum) (auto simp: ks)
    have B': "B' = B(b := (B b)\<lparr>pb_size := pb_size (B b) + of_nat SIZEOF_PRIVATE_BLOCK + pb_size (B q),
                                 pb_next := pb_next (B q)\<rparr>)"
      using qf by (simp add: B'_def merge_next_def)
    have "seg B' p a xs (Some b)" by (rule iffD2 [OF seg_cong xs]) (auto simp: B' b_def)
    moreover have "seg B' (pb_next (B q)) (q + 16 + k) zs None"
      by (rule iffD2 [OF seg_cong zs]) (auto simp: B' q_def)
    moreover have "q + 16 + k = b + 16 + (m + 16 + k)" by (simp add: q_def)
    ultimately have "seg B' p a (xs @ (m + 16 + k, False) # zs) None"
      using s bf(2) by (simp add: seg_append b_def [symmetric]) (auto simp: B')
    then show ?thesis using mf by (simp add: ks B'_def b_def)
  qed
qed


section \<open>Live blocks\<close>

fun live :: "nat \<Rightarrow> block_list \<Rightarrow> (nat \<times> nat) list" where
  "live a [] = []"
| "live a ((m, u) # bs) = (if u then [(a + 16, m)] else []) @ live (a + 16 + m) bs"

lemma live_append [simp]: "live a (xs @ ys) = live a xs @ live (a + extent xs) ys"
  by (induction a xs rule: live.induct) (auto simp: add.assoc)

lemma live_bounds: "(q, l) \<in> set (live a bs) \<Longrightarrow> a + 16 \<le> q \<and> q + l \<le> a + extent bs"
proof (induction a bs rule: live.induct)
  case (2 a m u bs)
  then show ?case by (force split: if_splits)
qed simp

lemma live_split:
  "(q, l) \<in> set (live a bs) \<longleftrightarrow> (\<exists>xs ys. bs = xs @ (l, True) # ys \<and> q = a + extent xs + 16)"
proof (induction a bs rule: live.induct)
  case (2 a m u bs)
  show ?case
  proof
    assume "(q, l) \<in> set (live a ((m, u) # bs))"
    then consider "u" "q = a + 16" "l = m" | "(q, l) \<in> set (live (a + 16 + m) bs)" by (auto split: if_splits)
    then show "\<exists>xs ys. (m, u) # bs = xs @ (l, True) # ys \<and> q = a + extent xs + 16"
    proof cases
      case 1
      then show ?thesis by (intro exI [of _ "[]"] exI [of _ bs]) simp
    next
      case 2
      then obtain xs ys where "bs = xs @ (l, True) # ys" "q = a + 16 + m + extent xs + 16" using "2.IH" by blast
      then show ?thesis by (intro exI [of _ "(m, u) # xs"] exI [of _ ys]) simp
    qed
  next
    assume "\<exists>xs ys. (m, u) # bs = xs @ (l, True) # ys \<and> q = a + extent xs + 16"
    then show "(q, l) \<in> set (live a ((m, u) # bs))"
      by (auto simp: Cons_eq_append_conv "2.IH" simp del: live_append)
  qed
qed simp

lemma live_carve: "live b (carve n m) = [(b + 16, if n + 48 \<le> m then n else m)]"
  by (simp add: carve_def)

lemma live_merge_fwd: "merge_fwd m ys = (m', ys') \<Longrightarrow> live (b + m') ys' = live (b + m) ys"
  by (cases "(m, ys)" rule: merge_fwd.cases) (auto simp: add.assoc)

lemma live_merge_back:
  assumes "merge_back xs m = (xs', m')"
  shows "live a xs' = live a xs \<and> a + extent xs' + 16 + m' = a + extent xs + 16 + m"
proof (cases xs rule: rev_cases)
  case (snoc zs kv)
  then show ?thesis using assms by (cases kv) (auto simp: merge_back_def split: if_splits)
qed (use assms in \<open>auto simp: merge_back_def\<close>)

lemma live_free_blocks:
  "live a (free_blocks xs m ys) = live a xs @ live (a + extent xs + 16 + m) ys"
proof -
  obtain xs' m' where b: "merge_back xs m = (xs', m')" by fastforce
  obtain m'' ys' where f: "merge_fwd m' ys = (m'', ys')" by fastforce
  note mb = live_merge_back [OF b, of a]
  have "live (a + extent xs' + 16 + m'') ys' = live (a + extent xs + 16 + m) ys"
    using live_merge_fwd [OF f, of "a + extent xs' + 16"] by (simp only: mb)
  then show ?thesis using mb by (simp add: free_blocks_def b f)
qed

section \<open>Preservation\<close>

lemma coalesced_Cons: "coalesced (x # ys) \<longleftrightarrow> coalesced ys \<and> (ys \<noteq> [] \<longrightarrow> snd x \<or> snd (hd ys))"
  by (cases ys) auto

lemma coalesced_free:
  assumes "coalesced (xs @ (m, True) # ys)"
  shows "coalesced (free_blocks xs m ys)"
proof -
  obtain xs' m' where b: "merge_back xs m = (xs', m')" by fastforce
  obtain m'' ys' where f: "merge_fwd m' ys = (m'', ys')" by fastforce
  have xs': "coalesced xs' \<and> (xs' \<noteq> [] \<longrightarrow> snd (last xs'))"
  proof (cases xs rule: rev_cases)
    case (snoc zs kv)
    then show ?thesis using assms b
      by (auto simp: merge_back_def coalesced_append coalesced_Cons split: if_splits)
  qed (use b in \<open>auto simp: merge_back_def\<close>)
  have ys': "coalesced ys' \<and> (ys' \<noteq> [] \<longrightarrow> snd (hd ys'))"
    using assms f by (cases "(m', ys)" rule: merge_fwd.cases) (auto simp: coalesced_append coalesced_Cons)
  show ?thesis using xs' ys' by (simp add: free_blocks_def b f coalesced_append coalesced_Cons)
qed

lemma sizes_free:
  assumes "\<forall>b \<in> set (xs @ (m, u) # ys). 0 < fst b \<and> 8 dvd fst b"
  shows "\<forall>b \<in> set (free_blocks xs m ys). 0 < fst b \<and> 8 dvd fst b"
proof -
  obtain xs' m' where b: "merge_back xs m = (xs', m')" by fastforce
  obtain m'' ys' where f: "merge_fwd m' ys = (m'', ys')" by fastforce
  have m8: "8 dvd k + 16 + l" if "8 dvd k" "8 dvd l" for k l :: nat using that by presburger
  have "(\<forall>b \<in> set xs'. 0 < fst b \<and> 8 dvd fst b) \<and> 0 < m' \<and> 8 dvd m'"
    using assms b m8 by (cases xs rule: rev_cases) (auto simp: merge_back_def split: if_splits)
  moreover have "(\<forall>b \<in> set ys'. 0 < fst b \<and> 8 dvd fst b) \<and> 0 < m'' \<and> 8 dvd m''" if "0 < m'" "8 dvd m'"
    using assms f m8 that by (cases "(m', ys)" rule: merge_fwd.cases) auto
  ultimately show ?thesis by (auto simp: free_blocks_def b f)
qed

lemma extent_free: "extent (free_blocks xs m ys) = extent (xs @ (m, u) # ys)"
proof -
  obtain xs' m' where b: "merge_back xs m = (xs', m')" by fastforce
  obtain m'' ys' where f: "merge_fwd m' ys = (m'', ys')" by fastforce
  have "m'' + extent ys' = m' + extent ys"
    using f by (cases "(m', ys)" rule: merge_fwd.cases) auto
  then show ?thesis using live_merge_back [OF b, of 0] by (simp add: free_blocks_def b f)
qed


section \<open>The operations on a well-formed heap\<close>

lemma unat_ROUNDUP:
  assumes "unat sz \<le> 2 ^ 64 - 8"
  shows "unat (ROUNDUP sz) = 8 * ((unat sz + 7) div 8)"
proof -
  define k where "k = unat sz"
  have dv: "unat (sz div 8) = k div 8" "unat (sz mod 8) = k mod 8"
    by (simp_all add: k_def unat_div_distrib unat_mod_distrib)
  show ?thesis
  proof (cases "sz mod 8 = 0")
    case True
    then have "k mod 8 = 0" using dv(2) by simp
    then have "k = 8 * ((k + 7) div 8)" by presburger
    then show ?thesis using True by (simp add: ROUNDUP_def k_def)
  next
    case False
    then have "k mod 8 \<noteq> 0" using dv(2) by (simp add: word_unat_eq_iff)
    then obtain q r where kq: "k = 8 * q + r" "0 < r" "r < 8" and q: "k div 8 = q"
      by (metis mod_less_divisor mult_div_mod_eq neq0_conv zero_less_numeral)
    have e2: "(k div 8 + 1) * 8 < k + 8" using kq by (simp add: q)
    have "(k + 7) div 8 = k div 8 + 1" unfolding q using kq by (intro div_nat_eqI) auto
    then have e: "(k div 8 + 1) * 8 = 8 * ((k + 7) div 8)" by simp
    have b: "(k div 8 + 1) * 8 < 2 ^ 64" using assms e2 by (simp add: k_def)
    have "(sz div 8 + 1) * 8 = of_nat ((k div 8 + 1) * 8)"
      by (simp only: of_nat_mult of_nat_add of_nat_1 of_nat_numeral flip: dv) simp
    moreover have "take_bit 64 ((k div 8 + 1) * 8) = (k div 8 + 1) * 8" by (rule take_bit_nat_eq_self) (rule b)
    ultimately have "unat ((sz div 8 + 1) * 8) = (k div 8 + 1) * 8" by (simp only: unsigned_of_nat) simp
    then show ?thesis using False e by (simp add: ROUNDUP_def k_def)
  qed
qed

definition rounded :: "nat \<Rightarrow> nat" where
  "rounded k = 8 * ((k + 7) div 8)"

lemma malloc_fits:
  assumes wf: "heap_wf st a N (xs @ (m, False) # ys)"
    and sz: "1 \<le> sz" "unat sz \<le> 2 ^ 64 - 8" and n: "n = rounded (unat sz)"
    and ff: "n \<le> m" "\<forall>(k, u) \<in> set xs. u \<or> k < n"
  shows "\<exists>st'. sqlcipher_malloc os sz st = Some (Some (a + extent xs + 16), st') \<and>
    heap_wf st' a N (xs @ carve n m @ ys) \<and>
    ph_ram st' = write_ram (a + extent xs + 16) (replicate n 0) (ph_ram st) \<and>
    ph_used st' = ph_used st + of_nat n \<and> ph_xoshiro st' = ph_xoshiro st"
proof -
  have un: "unat (ROUNDUP sz) = n" using unat_ROUNDUP [OF sz(2)] by (simp add: n rounded_def)
  have sg: "seg (ph_blocks st) (ph_base st) a (xs @ (m, False) # ys) None"
    using wf by (simp add: heap_wf_def)
  have fit: "find_fit (ph_blocks st) (ROUNDUP sz) (ph_base st) = Some (Some (a + extent xs))"
    using find_fit_seg [OF sg, of "ROUNDUP sz"] fit_at_append [OF ff(2,1)] by (simp add: un)
  note tb = take_block_seg [OF sg un ff(1)]
  have base: "ph_base (take_block sz b st) = ph_base st" "ph_used (take_block sz b st) = ph_used st"
    "ph_xoshiro (take_block sz b st) = ph_xoshiro st"
    "ph_ram (take_block sz b st) = write_ram (b + 16) (replicate (unat sz) 0) (ph_ram st)" for sz b
    by (simp_all add: take_block_def Let_def SIZEOF_PRIVATE_BLOCK_def)
  have "0 < unat sz" using sz(1) by (simp add: word_le_nat_alt)
  then have n0: "0 < n" "8 dvd n" by (auto simp: n rounded_def)
  have co: "coalesced (xs @ carve n m @ ys)"
    using wf by (auto simp: heap_wf_def carve_def coalesced_append coalesced_Cons)
  have sizes: "\<forall>b \<in> set (xs @ carve n m @ ys). 0 < fst b \<and> 8 dvd fst b"
    using wf n0 by (auto simp: heap_wf_def carve_def dvd_diff_nat)
  have ext: "extent (xs @ carve n m @ ys) = N" "N < 2 ^ 31" using wf ff(1) by (auto simp: heap_wf_def)
  have nw: "ROUNDUP sz = of_nat n" by (simp flip: un)
  have "\<not> sz < 1" by (rule leD [OF sz(1)])
  then show ?thesis
    using tb co sizes ext un
    by (simp add: sqlcipher_malloc_def Let_def fit [unfolded nw] heap_wf_def base SIZEOF_PRIVATE_BLOCK_def nw)
qed

lemma malloc_overflows:
  assumes wf: "heap_wf st a N bs"
    and sz: "1 \<le> sz" "unat sz \<le> 2 ^ 64 - 8" and n: "n = rounded (unat sz)"
    and full: "\<forall>(k, u) \<in> set bs. u \<or> k < n"
  shows "\<exists>st'. sqlcipher_malloc os sz st = Some (os, st') \<and> heap_wf st' a N bs \<and> ph_used st' = ph_used st"
proof -
  have un: "unat (ROUNDUP sz) = n" using unat_ROUNDUP [OF sz(2)] by (simp add: n rounded_def)
  have fit: "find_fit (ph_blocks st) (ROUNDUP sz) (ph_base st) = Some None"
    using find_fit_seg [of "ph_blocks st" "ph_base st" a bs "ROUNDUP sz"] wf full
    by (simp add: heap_wf_def un fit_at_None)
  have "\<not> sz < 1" by (rule leD [OF sz(1)])
  then show ?thesis using wf
    by (simp add: sqlcipher_malloc_def fit sqlcipher_internal_malloc_def heap_wf_def Let_def split: option.split)
qed

lemma free_found:
  assumes wf: "heap_wf st a N (xs @ (m, True) # ys)"
  shows "\<exists>st' data. sqlcipher_free (a + extent xs + 16) sz st = Some st' \<and>
    heap_wf st' a N (free_blocks xs m ys) \<and> length data = m \<and>
    ph_ram st' = write_ram (a + extent xs + 16) data (ph_ram st) \<and>
    ph_used st' = ph_used st - of_nat m"
proof -
  define b B where "b = a + extent xs" and "B = (ph_blocks st)(b := (ph_blocks st b)\<lparr>pb_used := False\<rparr>)"
  have sg: "seg (ph_blocks st) (ph_base st) a (xs @ (m, True) # ys) None"
    using wf by (simp add: heap_wf_def)
  have found: "find_block (ph_blocks st) (b + 16) (None, ph_base st) = Some (prev_of None a xs, Some b)"
    using find_block_found [OF sg] by (simp add: b_def)
  have m31: "m < 2 ^ 31" using wf by (simp add: heap_wf_def)
  have size: "unat (pb_size (ph_blocks st b)) = m"
    using sg by (auto simp: seg_middle b_def simp del: seg.simps dest: seg_ConsD)
  obtain xs' m' where bk: "merge_back xs m = (xs', m')" by fastforce
  obtain m'' ys' where f: "merge_fwd m' ys = (m'', ys')" by fastforce
  have fb: "free_blocks xs m ys = xs' @ (m'', False) # ys'" by (simp add: free_blocks_def bk f)
  have small: "extent (xs @ (m, False) # ys) < 2 ^ 32" using wf by (simp add: heap_wf_def)
  have xs: "seg (ph_blocks st) (ph_base st) a xs (Some b)" and bl: "seg (ph_blocks st) (Some b) b ((m, True) # ys) None"
    using sg by (simp_all only: seg_middle b_def)
  have "seg B (ph_base st) a xs (Some b)" by (rule iffD2 [OF seg_cong xs]) (auto simp: B_def b_def)
  moreover have "seg B (Some b) b ((m, False) # ys) None"
    using bl iffD2 [OF seg_cong [of "b + 16 + m" ys B "ph_blocks st"] seg_ConsD(4) [OF bl]] by (auto simp: B_def)
  ultimately have "seg B (ph_base st) a (xs @ (m, False) # ys) None"
    by (simp only: seg_middle b_def)
  from merge_prev_seg [OF this small bk] obtain B1
    where mp: "merge_prev (prev_of None a xs) b B = (a + extent xs', B1)"
      and sg1: "seg B1 (ph_base st) a (xs' @ (m', False) # ys) None" by (auto simp: b_def)
  have small1: "extent (xs' @ (m', False) # ys) < 2 ^ 32"
    using small live_merge_back [OF bk, of 0] by simp
  note sg2 = merge_next_seg [OF sg1 small1 f]
  have arg: "int_arg (ucast (pb_size (ph_blocks st b))) = m"
  proof -
    have "sint (pb_size (ph_blocks st b)) = int m"
    proof -
      have "uint (pb_size (ph_blocks st b)) = int m" using size by (metis uint_nat)
      then show ?thesis using m31 by (simp add: sint_uint signed_take_bit_int_eq_self)
    qed
    then show ?thesis by (simp add: int_arg_def ucast_up_down)
  qed
  obtain data xo where x: "xoshiro_randomness m (ph_xoshiro st) = (data, xo)" by (rule prod.exhaust)
  have len: "length data = m" using length_xoshiro [of m "ph_xoshiro st"] x by simp
  have sizes: "\<forall>b \<in> set (free_blocks xs m ys). 0 < fst b \<and> 8 dvd fst b" "coalesced (free_blocks xs m ys)"
    "extent (free_blocks xs m ys) = N" "N < 2 ^ 31"
    using wf sizes_free [of xs m True ys] coalesced_free [of xs m ys] extent_free [of xs m ys True]
    unfolding heap_wf_def by blast+
  have um: "ucast (pb_size (ph_blocks st b)) = (of_nat m :: u64)" by (simp flip: size unat_ucast_size)
  then show ?thesis using sizes sg2 mp arg [unfolded um]
    by (intro exI [of _ "the (sqlcipher_free (b + 16) sz st)"] exI [of _ data])
      (simp add: sqlcipher_free_def found x len Let_def heap_wf_def fb b_def [symmetric] SIZEOF_PRIVATE_BLOCK_def flip: B_def)
qed


lemma free_foreign:
  assumes wf: "heap_wf st a N bs" and q: "q < a + 16 \<or> a + N \<le> q"
  shows "\<exists>st'. sqlcipher_free q sz st = Some st' \<and> heap_wf st' a N bs"
proof -
  obtain prev where "find_block (ph_blocks st) q (None, ph_base st) = Some (prev, None)"
    using find_block_foreign [of "ph_blocks st" "ph_base st" a bs q None] wf q by (auto simp: heap_wf_def)
  then show ?thesis using wf
    by (simp add: sqlcipher_free_def sqlcipher_internal_free_def heap_wf_def case_prod_beta Let_def)
qed

lemma carve_used: "n \<le> m \<Longrightarrow> \<exists>k zs. carve n m = (k, True) # zs \<and> k = (if n + 48 \<le> m then n else m) \<and>
    (coalesced (xs @ (m, False) # ys) \<longrightarrow> free_blocks xs k (zs @ ys) = xs @ (m, False) # ys)"
proof (cases "n + 48 \<le> m")
  case True
  have "merge_back xs n = (xs, n)" if "coalesced (xs @ (m, False) # ys)"
    using that by (auto simp: merge_back_def coalesced_append)
  then show ?thesis using True by (auto simp: carve_def free_blocks_def)
next
  case False
  have "merge_back xs m = (xs, m)" if "coalesced (xs @ (m, False) # ys)"
    using that by (auto simp: merge_back_def coalesced_append)
  moreover have "merge_fwd m ys = (m, ys)" if "coalesced (xs @ (m, False) # ys)"
    using that by (cases "(m, ys)" rule: merge_fwd.cases) (auto simp: coalesced_append)
  ultimately show ?thesis using False by (auto simp: carve_def free_blocks_def)
qed

lemma init_wf:
  assumes "ph_sz st0 = SQLCIPHER_PRIVATE_HEAP_SIZE_DEFAULT" "ph_base st0 = None"
    and "ph_base (private_heap_init os st0) = Some a"
  shows "heap_wf (private_heap_init os st0) a (unat (ph_sz (private_heap_init os st0)))
    [(unat (ph_sz (private_heap_init os st0)) - 16, False)]"
proof -
  have "heap_wf (private_heap_init os st) a (unat (ph_sz (private_heap_init os st)))
    [(unat (ph_sz (private_heap_init os st)) - 16, False)]"
    if "unat (ph_sz st) \<le> 49152" "8 dvd unat (ph_sz st)" "ph_base st = None" "ph_base (private_heap_init os st) = Some a" for st
    using that
  proof (induction os st rule: private_heap_init.induct)
    case (1 os st)
    have big: "16384 \<le> unat (ph_sz st)" if "16384 \<le> ph_sz st" using that by (simp add: word_le_nat_alt)
    show ?case
    proof (cases "16384 \<le> ph_sz st")
      case False
      then show ?thesis using "1.prems" by (simp add: private_heap_init.simps [of os st] SQLCIPHER_PRIVATE_HEAP_SIZE_STEP_def)
    next
      case True
      have sub: "unat (ph_sz st - 16384) = unat (ph_sz st) - 16384" using True by (simp add: unat_sub)
      show ?thesis
      proof (cases "os (ph_sz st)")
        case None
        then show ?thesis
          using "1.IH" "1.prems" True sub
          by (simp add: private_heap_init.simps [of os st] SQLCIPHER_PRIVATE_HEAP_SIZE_STEP_def dvd_diff_nat)
      next
        case (Some p)
        have "unat (ucast (ph_sz st) - 16 :: u32) = unat (ph_sz st) - 16"
        proof -
          have u: "unat (ucast (ph_sz st) :: u32) = unat (ph_sz st)"
            using "1.prems"(1) by (simp add: unsigned_ucast_eq take_bit_nat_eq_self)
          then have "(16 :: u32) \<le> ucast (ph_sz st)" using big [OF True] by (simp add: word_le_nat_alt)
          then show ?thesis using u by (simp add: unat_sub)
        qed
        then show ?thesis using Some True big [OF True] "1.prems"
          by (auto simp: private_heap_init.simps [of os st] SQLCIPHER_PRIVATE_HEAP_SIZE_STEP_def
              sqlcipher_internal_malloc_def head_block_def case_prod_beta Let_def heap_wf_def
              SIZEOF_PRIVATE_BLOCK_def dvd_diff_nat)
      qed
    qed
  qed
  from this [of st0] assms show ?thesis by (simp add: SQLCIPHER_PRIVATE_HEAP_SIZE_DEFAULT_def)
qed

section \<open>Runs\<close>

text \<open>
  The life of the heap at \<open>a\<close> of \<open>N\<close> bytes: \<open>L\<close> holds the addresses that have been handed out
  and not been freed.  Memory of the fallback allocator lies elsewhere.
\<close>

inductive heap_run :: "nat \<Rightarrow> nat \<Rightarrow> private_heap \<Rightarrow> nat set \<Rightarrow> bool" for a N where
  init: "ph_sz st0 = SQLCIPHER_PRIVATE_HEAP_SIZE_DEFAULT \<Longrightarrow> ph_base st0 = None \<Longrightarrow>
    st = private_heap_init os st0 \<Longrightarrow> ph_base st = Some a \<Longrightarrow> N = unat (ph_sz st) \<Longrightarrow> heap_run a N st {}"
| alloc: "heap_run a N st L \<Longrightarrow> 1 \<le> sz \<Longrightarrow> unat sz \<le> 2 ^ 64 - 8 \<Longrightarrow> (\<forall>q. os = Some q \<longrightarrow> q < a \<or> a + N \<le> q) \<Longrightarrow>
    sqlcipher_malloc os sz st = Some (r, st') \<Longrightarrow>
    heap_run a N st' (L \<union> {p. r = Some p \<and> a \<le> p \<and> p < a + N})"
| free: "heap_run a N st L \<Longrightarrow> p \<in> L \<Longrightarrow> sqlcipher_free p sz st = Some st' \<Longrightarrow> heap_run a N st' (L - {p})"
| free_other: "heap_run a N st L \<Longrightarrow> q < a \<or> a + N \<le> q \<Longrightarrow> sqlcipher_free q sz st = Some st' \<Longrightarrow> heap_run a N st' L"

lemma malloc_cases:
  assumes "heap_wf st a N bs" "1 \<le> sz" "unat sz \<le> 2 ^ 64 - 8"
  obtains (fits) xs m ys where "bs = xs @ (m, False) # ys" "rounded (unat sz) \<le> m"
      "\<forall>(k, u) \<in> set xs. u \<or> k < rounded (unat sz)"
    | (full) "\<forall>(k, u) \<in> set bs. u \<or> k < rounded (unat sz)"
  using fit_at_None [of "rounded (unat sz)" a bs] fit_at_SomeD [of "rounded (unat sz)" a bs]
  by (cases "fit_at (rounded (unat sz)) a bs") blast+

lemma live_distinct:
  "\<forall>b \<in> set bs. 0 < fst b \<Longrightarrow> distinct (map fst (live a bs))"
proof (induction a bs rule: live.induct)
  case (2 a m u bs)
  have "a + 16 \<notin> fst ` set (live (a + 16 + m) bs)" using live_bounds by fastforce
  then show ?case using 2 by simp
qed simp

lemma heap_run_wf:
  "heap_run a N st L \<Longrightarrow> \<exists>bs. heap_wf st a N bs \<and> L = fst ` set (live a bs)"
proof (induction rule: heap_run.induct)
  case (init st0 st os)
  then show ?case using init_wf [of st0 os a] by (intro exI [of _ "[(N - 16, False)]"]) simp
next
  case (alloc st L sz os r st')
  then obtain bs where wf: "heap_wf st a N bs" and L: "L = fst ` set (live a bs)" by blast
  from wf alloc.hyps(2,3) show ?case
  proof (cases rule: malloc_cases)
    case (fits xs m ys)
    then have "r = Some (a + extent xs + 16)" "heap_wf st' a N (xs @ carve (rounded (unat sz)) m @ ys)"
      using malloc_fits [of st a N xs m ys sz "rounded (unat sz)" os] wf alloc.hyps by auto
    moreover have "16 + m + extent xs \<le> N" "0 < m" using wf by (auto simp: heap_wf_def fits)
    ultimately show ?thesis using fits(2)
      by (intro exI [of _ "xs @ carve (rounded (unat sz)) m @ ys"]) (auto simp: L fits(1) live_carve add.assoc)
  next
    case full
    then have "r = os" "heap_wf st' a N bs"
      using malloc_overflows [OF wf alloc.hyps(2,3) refl full, of os] alloc.hyps by auto
    then show ?thesis using alloc.hyps(4) by (intro exI [of _ bs]) (auto simp: L)
  qed
next
  case (free st L p sz st')
  then obtain bs where wf: "heap_wf st a N bs" and L: "L = fst ` set (live a bs)" by blast
  then obtain m where "(p, m) \<in> set (live a bs)" using free.hyps by auto
  then obtain xs ys where bs: "bs = xs @ (m, True) # ys" "p = a + extent xs + 16"
    using live_split by blast
  then have "heap_wf st' a N (free_blocks xs m ys)"
    using free_found [of st a N xs m ys sz] wf free.hyps by auto
  moreover have "p \<notin> fst ` set (live a xs @ live (a + extent xs + 16 + m) ys)"
    using live_distinct [of bs a] wf by (auto simp: bs heap_wf_def)
  ultimately show ?case
    by (intro exI [of _ "free_blocks xs m ys"]) (auto simp: L bs live_free_blocks)
next
  case (free_other st L q sz st')
  then obtain bs where "heap_wf st a N bs" "L = fst ` set (live a bs)" by blast
  then show ?case using free_foreign [of st a N bs q sz] free_other.hyps by (intro exI [of _ bs]) auto
qed


section \<open>Properties\<close>

lemma live_disjoint:
  "(q, l) \<in> set (live a (xs @ (m, False) # ys)) \<Longrightarrow> q + l \<le> a + extent xs \<or> a + extent xs + 16 + m + 16 \<le> q"
  using live_bounds [of q l a xs] live_bounds [of q l "a + extent xs + 16 + m" ys] by auto

text \<open>
  A request is served from the first block in the chain that is free and large enough, with
  zeroed memory, and the block is split when at least 48 bytes would be left; without such a
  block the answer is that of the fallback allocator and the chain stays as it was.
\<close>

theorem private_heap_first_fit:
  assumes "heap_wf st a N bs" "1 \<le> sz" "unat sz \<le> 2 ^ 64 - 8"
  shows "((\<forall>(k, u) \<in> set bs. u \<or> k < rounded (unat sz)) \<longrightarrow>
      (\<exists>st'. sqlcipher_malloc os sz st = Some (os, st') \<and> heap_wf st' a N bs)) \<and>
    (\<forall>xs m ys. bs = xs @ (m, False) # ys \<longrightarrow> rounded (unat sz) \<le> m \<longrightarrow>
      (\<forall>(k, u) \<in> set xs. u \<or> k < rounded (unat sz)) \<longrightarrow>
      (\<exists>st'. sqlcipher_malloc os sz st = Some (Some (a + extent xs + 16), st') \<and>
        heap_wf st' a N (xs @ carve (rounded (unat sz)) m @ ys) \<and>
        ph_ram st' = write_ram (a + extent xs + 16) (replicate (rounded (unat sz)) 0) (ph_ram st)))"
  using malloc_overflows [OF assms refl, of os] malloc_fits [OF _ assms(2,3) refl, of st a N _ _ _ os] assms(1)
  by blast

definition blank_heap :: private_heap where
  "blank_heap = \<lparr>ph_base = None, ph_sz = SQLCIPHER_PRIVATE_HEAP_SIZE_DEFAULT,
     ph_blocks = (\<lambda>_. \<lparr>pb_next = None, pb_size = 0, pb_used = False\<rparr>), ph_ram = (\<lambda>_. 0),
     ph_xoshiro = (0, 0, 0, 0), ph_used = 0, ph_hwm = 0, ph_alloc = 0, ph_allocs = 0, ph_overflow = 0, ph_overflows = 0\<rparr>"

lemma blank_init:
  "ph_base (private_heap_init (\<lambda>_. Some 4096) blank_heap) = Some 4096"
  "ph_sz (private_heap_init (\<lambda>_. Some 4096) blank_heap) = 49152"
  by (simp_all add: private_heap_init.simps blank_heap_def SQLCIPHER_PRIVATE_HEAP_SIZE_DEFAULT_def
      SQLCIPHER_PRIVATE_HEAP_SIZE_STEP_def sqlcipher_internal_malloc_def head_block_def case_prod_beta Let_def)

lemma blank_wf: "heap_wf (private_heap_init (\<lambda>_. Some 4096) blank_heap) 4096 49152 [(49136, False)]"
  using init_wf [of blank_heap "\<lambda>_. Some 4096" 4096] blank_init by (simp add: blank_heap_def)

theorem private_heap_first_fit_witness:
  "\<exists>st'. sqlcipher_malloc None 20 (private_heap_init (\<lambda>_. Some 4096) blank_heap) = Some (Some 4112, st') \<and>
     heap_wf st' 4096 49152 [(24, True), (49096, False)]"
proof -
  have "rounded (unat (20 :: u64)) = 24" "carve 24 49136 = [(24, True), (49096, False)]"
    by (simp_all add: rounded_def carve_def)
  then show ?thesis
    using private_heap_first_fit [OF blank_wf, of 20 None, THEN conjunct2, rule_format, of "[]" 49136 "[]"]
    by (auto simp: word_le_nat_alt)
qed

text \<open>
  C9: freeing what was just allocated restores the chain of blocks exactly and overwrites the
  memory that was handed out and nothing else; but the count of used bytes is lowered by
  the size \<open>k\<close> of the block and not by the \<open>n\<close> bytes it was raised by.
\<close>

theorem private_heap_malloc_free:
  assumes "heap_wf st a N (xs @ (m, False) # ys)" "1 \<le> sz" "unat sz \<le> 2 ^ 64 - 8" "n = rounded (unat sz)"
    and "n \<le> m" "\<forall>(k, u) \<in> set xs. u \<or> k < n"
  shows "\<exists>p st1 st2 k. sqlcipher_malloc os sz st = Some (Some p, st1) \<and> sqlcipher_free p sz' st1 = Some st2 \<and>
    heap_wf st2 a N (xs @ (m, False) # ys) \<and> k = (if n + 48 \<le> m then n else m) \<and>
    (\<forall>x. x < p \<or> p + k \<le> x \<longrightarrow> ph_ram st2 x = ph_ram st x) \<and>
    ph_used st2 = ph_used st + of_nat n - of_nat k"
proof -
  let ?p = "a + extent xs + 16"
  obtain st1 where m: "sqlcipher_malloc os sz st = Some (Some ?p, st1)"
      "heap_wf st1 a N (xs @ carve n m @ ys)" "ph_ram st1 = write_ram ?p (replicate n 0) (ph_ram st)"
      "ph_used st1 = ph_used st + of_nat n"
    using malloc_fits [OF assms, of os] by blast
  obtain k zs where c: "carve n m = (k, True) # zs" "k = (if n + 48 \<le> m then n else m)"
      "coalesced (xs @ (m, False) # ys) \<longrightarrow> free_blocks xs k (zs @ ys) = xs @ (m, False) # ys"
    using carve_used [OF assms(5)] by blast
  then have fb: "free_blocks xs k (zs @ ys) = xs @ (m, False) # ys"
    using assms(1) by (simp add: heap_wf_def)
  obtain st2 data where f: "sqlcipher_free ?p sz' st1 = Some st2" "heap_wf st2 a N (xs @ (m, False) # ys)"
      "length data = k" "ph_ram st2 = write_ram ?p data (ph_ram st1)" "ph_used st2 = ph_used st1 - of_nat k"
    using free_found [of st1 a N xs k "zs @ ys" sz'] m(2) c(1) fb by auto
  have "n \<le> k" using c(2) assms(5) by simp
  then have "\<forall>x. x < ?p \<or> ?p + k \<le> x \<longrightarrow> ph_ram st2 x = ph_ram st x"
    by (auto simp: f(3,4) m(3) write_ram_def)
  then show ?thesis using m(1,4) f c(2)
    by (intro exI [of _ ?p] exI [of _ st1] exI [of _ st2] exI [of _ k]) simp
qed

theorem private_heap_malloc_free_witness:
  "\<exists>p st1 st2. sqlcipher_malloc None 49100 (private_heap_init (\<lambda>_. Some 4096) blank_heap) = Some (Some p, st1) \<and>
     sqlcipher_free p 49100 st1 = Some st2 \<and> heap_wf st2 4096 49152 [(49136, False)] \<and>
     ph_used st2 = ph_used (private_heap_init (\<lambda>_. Some 4096) blank_heap) - 32"
  using private_heap_malloc_free [of "private_heap_init (\<lambda>_. Some 4096) blank_heap" 4096 49152 "[]" 49136 "[]" 49100 _ None 49100]
    blank_wf
  by (fastforce simp: rounded_def word_le_nat_alt)

text \<open>
  C8: however allocations and frees are ordered, the chain covers the whole heap without gaps or
  adjacent free blocks, the addresses in use are exactly those handed out and not freed,
  no operation gets lost in the chain, and what an allocation hands out from the heap lies inside
  it and apart from every block in use.
\<close>

theorem private_heap_invariant:
  assumes "heap_run a N st L"
  shows "\<exists>bs. heap_wf st a N bs \<and> L = fst ` set (live a bs) \<and>
    (\<forall>p \<in> L. \<forall>sz. sqlcipher_free p sz st \<noteq> None) \<and>
    (\<forall>sz os. 1 \<le> sz \<longrightarrow> unat sz \<le> 2 ^ 64 - 8 \<longrightarrow> (\<exists>r st'. sqlcipher_malloc os sz st = Some (r, st') \<and>
       (r = os \<or> (\<exists>p. r = Some p \<and> a + 16 \<le> p \<and> p + rounded (unat sz) \<le> a + N \<and>
          (\<forall>(q, l) \<in> set (live a bs). q + l \<le> p - 16 \<or> p + rounded (unat sz) \<le> q - 16)))))"
proof -
  obtain bs where wf: "heap_wf st a N bs" and L: "L = fst ` set (live a bs)"
    using heap_run_wf [OF assms] by blast
  have "sqlcipher_free p sz st \<noteq> None" if pL: "p \<in> L" for p sz
  proof -
    obtain m where "(p, m) \<in> set (live a bs)" using pL by (auto simp: L)
    then obtain xs ys where "bs = xs @ (m, True) # ys" "p = a + extent xs + 16" using live_split by blast
    then show ?thesis using free_found [of st a N xs m ys sz] wf by auto
  qed
  moreover have "\<exists>r st'. sqlcipher_malloc os sz st = Some (r, st') \<and>
       (r = os \<or> (\<exists>p. r = Some p \<and> a + 16 \<le> p \<and> p + rounded (unat sz) \<le> a + N \<and>
          (\<forall>(q, l) \<in> set (live a bs). q + l \<le> p - 16 \<or> p + rounded (unat sz) \<le> q - 16)))"
    if sz: "1 \<le> sz" "unat sz \<le> 2 ^ 64 - 8" for sz os
    using wf sz
  proof (cases rule: malloc_cases)
    case (fits xs m ys)
    then obtain st' where "sqlcipher_malloc os sz st = Some (Some (a + extent xs + 16), st')"
      using malloc_fits [of st a N xs m ys sz "rounded (unat sz)" os] wf sz by auto
    moreover have "extent xs + 16 + m \<le> N" using wf by (auto simp: heap_wf_def fits)
    moreover have "q + l \<le> a + extent xs \<or> a + extent xs + 16 + m + 16 \<le> q" if "(q, l) \<in> set (live a bs)" for q l
      using live_disjoint that by (simp only: fits(1))
    ultimately show ?thesis using fits(2) by fastforce
  next
    case full
    then show ?thesis using malloc_overflows [OF wf sz refl full, of os] by auto
  qed
  ultimately show ?thesis using wf L by blast
qed

theorem private_heap_invariant_witness:
  "\<exists>bs. heap_wf (private_heap_init (\<lambda>_. Some 4096) blank_heap) 4096 49152 bs \<and> {} = fst ` set (live 4096 bs)"
proof -
  have "heap_run 4096 49152 (private_heap_init (\<lambda>_. Some 4096) blank_heap) {}"
    by (rule heap_run.init [of blank_heap _ "\<lambda>_. Some 4096"]) (simp_all add: blank_init, simp_all add: blank_heap_def)
  then show ?thesis using private_heap_invariant by blast
qed

end
