(* ===== verification/Attach.thy ===== *)
theory Attach
  imports Codec PrivHeap
begin

text \<open>
  Keying a database of a connection: \<open>sqlcipherCodecAttach\<close>, the entry points above it (\<open>sqlite3_key\<close>, the key
  pragmas, the parameters of a URI, \<open>ATTACH\<close>) and \<open>sqlcipherCodecGetKey\<close>, which hands the key to another database.
\<close>

unbundle bit_operations_syntax

section \<open>A connection\<close>

definition SQLITE_READONLY :: int where "SQLITE_READONLY = 8"
definition SQLITE_MISUSE :: int where "SQLITE_MISUSE = 21"

text \<open>
  \<open>BtShared\<close>, as far as keying changes it; \<open>bts_setPagesize\<close> is the answer of the pager to
  \<open>sqlite3PagerSetPagesize\<close>: a result code and the page size then in force.
\<close>

record bt_shared =
  bts_pageSize :: int
  bts_usableSize :: int
  bts_nReserveWanted :: int
  bts_btsFlags :: "16 word"
  bts_incrVacuum :: int
  bts_setPagesize :: "int \<Rightarrow> int \<Rightarrow> int \<times> int"

text \<open>
  A database of the connection has no B-tree, one without a codec, or one whose pager has a codec context, and
  the context then holds what the codec sees of the B-tree.
\<close>

datatype db_pager = No_Btree | Plain btree | Attached codec_ctx

record db_entry =
  zDbSName :: bytes
  db_pager :: db_pager
  db_bts :: bt_shared

record database =
  aDb :: "db_entry list"
  nextPagesize :: int

text \<open>\<open>sqlcipher_init\<close> and \<open>sqlcipher_init_error\<close>.\<close>

type_synonym init_state = "bool \<times> int"

definition entry_btree :: "db_entry \<Rightarrow> btree option" where
  "entry_btree e = (case db_pager e of No_Btree \<Rightarrow> None | Plain t \<Rightarrow> Some t | Attached c \<Rightarrow> Some (pBt c))"

definition sqlcipherPagerGetCodec :: "db_entry \<Rightarrow> codec_ctx option" where
  "sqlcipherPagerGetCodec e = (case db_pager e of Attached c \<Rightarrow> Some c | _ \<Rightarrow> None)"

section \<open>The B-tree settings\<close>

definition BTS_PAGESIZE_FIXED :: "16 word" where "BTS_PAGESIZE_FIXED = 0x0002"
definition BTS_SECURE_DELETE :: "16 word" where "BTS_SECURE_DELETE = 0x0004"
definition BTS_FAST_SECURE :: "16 word" where "BTS_FAST_SECURE = 0x000c"

definition sqlite3BtreeSetPageSize :: "bt_shared \<Rightarrow> int \<Rightarrow> int \<Rightarrow> bool \<Rightarrow> int \<times> bt_shared" where
  "sqlite3BtreeSetPageSize t pageSize nReserve iFix =
     (let t = t\<lparr>bts_nReserveWanted := nReserve mod 256\<rparr>;
          x = bts_pageSize t - bts_usableSize t in
      if x = nReserve \<and> (pageSize = 0 \<or> pageSize = bts_pageSize t) then (SQLITE_OK, t)
      else let nReserve = (if nReserve < x then x else nReserve) in
        if bts_btsFlags t AND BTS_PAGESIZE_FIXED \<noteq> 0 then (SQLITE_READONLY, t)
        else let t = (if pageSize \<ge> 512 \<and> pageSize \<le> 65536 \<and> (pageSize - 1) AND pageSize = 0
                      then t\<lparr>bts_pageSize := (if nReserve > 32 \<and> pageSize = 512 then 1024 else pageSize)\<rparr> else t);
                 (rc, ps) = bts_setPagesize t (bts_pageSize t) nReserve;
                 t = t\<lparr>bts_pageSize := ps, bts_usableSize := ps - nReserve mod 65536\<rparr>;
                 t = (if iFix then t\<lparr>bts_btsFlags := bts_btsFlags t OR BTS_PAGESIZE_FIXED\<rparr> else t)
             in (rc, t))"

definition sqlite3BtreeSecureDelete :: "bt_shared \<Rightarrow> int \<Rightarrow> int \<times> bt_shared" where
  "sqlite3BtreeSecureDelete t newFlag =
     (let t = (if newFlag \<ge> 0
               then t\<lparr>bts_btsFlags := (bts_btsFlags t AND NOT BTS_FAST_SECURE) OR (BTS_SECURE_DELETE * word_of_int newFlag)\<rparr> else t)
      in (uint ((bts_btsFlags t AND BTS_FAST_SECURE) div BTS_SECURE_DELETE), t))"

definition sqlite3BtreeSetAutoVacuum :: "bt_shared \<Rightarrow> btree \<Rightarrow> int \<Rightarrow> int \<times> bt_shared \<times> btree" where
  "sqlite3BtreeSetAutoVacuum t b autoVacuum =
     (let av = autoVacuum mod 256 in
      if bts_btsFlags t AND BTS_PAGESIZE_FIXED \<noteq> 0 \<and> (if av \<noteq> 0 then 1 else 0) \<noteq> bt_autovacuum b then (SQLITE_READONLY, t, b)
      else (SQLITE_OK, t\<lparr>bts_incrVacuum := (if av = 2 then 1 else 0)\<rparr>, b\<lparr>bt_autovacuum := (if av \<noteq> 0 then 1 else 0)\<rparr>))"

definition sqlite3BtreeGetRequestedReserve :: "bt_shared \<Rightarrow> int" where
  "sqlite3BtreeGetRequestedReserve t =
     (let n1 = bts_nReserveWanted t; n2 = bts_pageSize t - bts_usableSize t in if n1 > n2 then n1 else n2)"

text \<open>The page size of the B-tree follows that of the codec, whether or not it was fixed.\<close>

definition codec_set_btree_to_codec_pagesize :: "database \<Rightarrow> nat \<Rightarrow> codec_ctx \<Rightarrow> int \<times> database" where
  "codec_set_btree_to_codec_pagesize db i ctx =
     (let e = aDb db ! i; t = db_bts e;
          t = t\<lparr>bts_btsFlags := bts_btsFlags t AND NOT BTS_PAGESIZE_FIXED\<rparr>;
          (rc, t) = sqlite3BtreeSetPageSize t (page_sz ctx) (reserve_sz ctx) False
      in (rc, db\<lparr>nextPagesize := page_sz ctx, aDb := (aDb db)[i := e\<lparr>db_bts := t\<rparr>]\<rparr>))"

section \<open>Attaching a codec\<close>

definition SQLITE_DEFAULT_AUTOVACUUM :: int where "SQLITE_DEFAULT_AUTOVACUUM = 0"

text \<open>The label \<open>cleanup\<close> only leaves the mutexes.  The context gets the B-tree and its settings.\<close>

definition attach_codec :: "database \<Rightarrow> nat \<Rightarrow> codec_ctx \<Rightarrow> database" where
  "attach_codec db i ctx =
     (let open_file = bt_open (pBt ctx);
          (_, db) = codec_set_btree_to_codec_pagesize db i ctx;
          e = aDb db ! i;
          (_, t) = sqlite3BtreeSecureDelete (db_bts e) 1;
          (t, b) = (if open_file then let (_, t, b) = sqlite3BtreeSetAutoVacuum t (pBt ctx) SQLITE_DEFAULT_AUTOVACUUM in (t, b)
                    else (t, pBt ctx))
      in db\<lparr>aDb := (aDb db)[i := e\<lparr>db_pager := Attached (ctx\<lparr>pBt := b\<rparr>), db_bts := t\<rparr>]\<rparr>)"

text \<open>Without a context the pager is put in error.\<close>

definition attach_result :: "database \<Rightarrow> nat \<Rightarrow> btree \<Rightarrow> int \<Rightarrow> codec_ctx option \<Rightarrow> database" where
  "attach_result db i t rc r =
     (case r of Some ctx \<Rightarrow> attach_codec db i ctx
      | None \<Rightarrow> db\<lparr>aDb := (aDb db)[i := (aDb db ! i)\<lparr>db_pager := Plain (t\<lparr>bt_pager_err := rc, bt_db_err := rc\<rparr>)\<rparr>]\<rparr>)"

text \<open>
  \<open>nKey\<close> is the length that the caller gives; a negative one is taken for a huge size and overruns memory: \<open>None\<close>.
  A database without a B-tree is dereferenced: \<open>None\<close>.
\<close>

definition sqlcipherCodecAttach ::
    "'s provider \<Rightarrow> init_state \<Rightarrow> database option \<Rightarrow> int \<Rightarrow> bytes option \<Rightarrow> int \<Rightarrow> 's world \<Rightarrow> (int \<times> database option \<times> 's world) option" where
  "sqlcipherCodecAttach P ini db nDb zKey nKey w =
     (if \<not> fst ini then Some (snd ini, db, w)
      else if \<not> (nKey \<noteq> 0 \<and> zKey \<noteq> None) then Some (SQLITE_MISUSE, db, w)
      else case db of None \<Rightarrow> Some (SQLITE_MISUSE, db, w)
      | Some d \<Rightarrow>
          if \<not> (nDb \<ge> 0 \<and> nDb < int (length (aDb d))) then Some (SQLITE_MISUSE, db, w)
          else let i = nat nDb; e = aDb d ! i in
            case entry_btree e of None \<Rightarrow> None
            | Some t \<Rightarrow>
                if (case sqlcipherPagerGetCodec e of None \<Rightarrow> False
                    | Some ctx \<Rightarrow> FLAG_GET (cc_flags ctx) CIPHER_FLAG_KEY_USED \<or> bt_sharable t)
                then Some (SQLITE_OK, db, w)
                else case (if sqlcipherPagerGetCodec e \<noteq> None then sqlcipher_codec_ctx_free P w else Some w) of
                  None \<Rightarrow> None
                | Some w \<Rightarrow>
                    if nKey < 0 then None
                    else case sqlcipher_codec_ctx_init P t (Some (take (nat nKey) (the zKey))) w of
                      None \<Rightarrow> None
                    | Some (rc, ctx, w) \<Rightarrow> Some (rc, Some (attach_result d i t rc ctx), w))"

text \<open>Closing the pager releases the context.\<close>

definition sqlite3FreeCodecArg :: "'s provider \<Rightarrow> codec_ctx \<Rightarrow> 's world \<Rightarrow> 's world option" where
  "sqlite3FreeCodecArg P ctx w = sqlcipher_codec_ctx_free P w"

section \<open>Entry points\<close>

fun find_db_name :: "db_entry list \<Rightarrow> bytes \<Rightarrow> int \<Rightarrow> int" where
  "find_db_name [] zDb db_index = -1"
| "find_db_name (e # es) zDb db_index = (if sqlite3StrICmp (zDbSName e) zDb = 0 then db_index else find_db_name es zDb (db_index + 1))"

definition sqlcipher_find_db_index :: "database option \<Rightarrow> bytes option \<Rightarrow> int" where
  "sqlcipher_find_db_index db zDb =
     (case db of None \<Rightarrow> -1
      | Some d \<Rightarrow> (case zDb of None \<Rightarrow> 0 | Some z \<Rightarrow> if sqlite3StrICmp z [] = 0 then 0 else find_db_name (aDb d) z 0))"

definition sqlite3_key_v2 ::
    "'s provider \<Rightarrow> init_state \<Rightarrow> database option \<Rightarrow> bytes option \<Rightarrow> bytes option \<Rightarrow> int \<Rightarrow> 's world \<Rightarrow> (int \<times> database option \<times> 's world) option" where
  "sqlite3_key_v2 P ini db zDb pKey nKey w = sqlcipherCodecAttach P ini db (sqlcipher_find_db_index db zDb) pKey nKey w"

text \<open>The name is \<open>main\<close>.\<close>

definition sqlite3_key ::
    "'s provider \<Rightarrow> init_state \<Rightarrow> database option \<Rightarrow> bytes option \<Rightarrow> int \<Rightarrow> 's world \<Rightarrow> (int \<times> database option \<times> 's world) option" where
  "sqlite3_key P ini db pKey nKey w = sqlite3_key_v2 P ini db (Some [109, 97, 105, 110]) pKey nKey w"

definition sqlite3Isxdigit :: "byte \<Rightarrow> bool" where
  "sqlite3Isxdigit c \<longleftrightarrow> 48 \<le> c \<and> c \<le> 57 \<or> 65 \<le> c \<and> c \<le> 70 \<or> 97 \<le> c \<and> c \<le> 102"

definition sqlite3HexToInt :: "byte \<Rightarrow> byte" where
  "sqlite3HexToInt h = ucast ((ucast h + 9 * (1 AND drop_bit 6 (ucast h)) :: u32) AND 0xf)"

text \<open>
  The loop that decodes a hexadecimal key, shared by the pragma and the URI parameter: at most 40 bytes, the digits up
  to the first that is none; a last odd digit is dropped.  The result is the bytes of the buffer that are set.
\<close>

function decode_hex :: "nat \<Rightarrow> byte \<Rightarrow> bytes \<Rightarrow> bytes \<Rightarrow> bytes" where
  "decode_hex i iByte zBuf zRight =
     (if i < 40 * 2 \<and> sqlite3Isxdigit (ch zRight)
      then let iByte = push_bit 4 iByte + sqlite3HexToInt (ch zRight)
           in decode_hex (i + 1) iByte (if i AND 1 \<noteq> 0 then zBuf @ [iByte] else zBuf) (tl zRight)
      else zBuf)"
  by auto
termination by (relation "measure (\<lambda>(i, _). 80 - i)") auto

declare decode_hex.simps [simp del]

text \<open>The key pragmas; \<open>iArg\<close> is 0 for \<open>key\<close>, 2 for \<open>hexkey\<close> and 4 for \<open>textkey\<close>, and one more for \<open>rekey\<close>.\<close>

definition key_pragma_arg :: "int \<Rightarrow> bytes \<Rightarrow> bytes \<times> int" where
  "key_pragma_arg iArg zRight =
     (if iArg = 2 \<or> iArg = 3 then let zBuf = decode_hex 0 0 [] zRight in (zBuf, int (length zBuf))
      else (zRight, if iArg < 4 then int (length zRight) else -1))"

fun strlen :: "bytes \<Rightarrow> nat" where
  "strlen [] = 0"
| "strlen (c # cs) = (if c = 0 then 0 else Suc (strlen cs))"

text \<open>The parameters of a URI follow the file name in memory: NUL-terminated names and values, and an empty name.\<close>

function uri_parameters :: "bytes \<Rightarrow> bytes \<Rightarrow> bytes option" where
  "uri_parameters zFilename zParam =
     (if ch zFilename = 0 then None
      else let x = (take (strlen zFilename) zFilename = zParam); zFilename = drop (strlen zFilename + 1) zFilename in
        if x then Some (take (strlen zFilename) zFilename) else uri_parameters (drop (strlen zFilename + 1) zFilename) zParam)"
  by auto
termination
  by (relation "measure (\<lambda>(z, _). length z)") (auto simp: ch_def split: list.splits if_splits)

declare uri_parameters.simps [simp del]

definition uriParameter :: "bytes \<Rightarrow> bytes \<Rightarrow> bytes option" where
  "uriParameter zFilename zParam = uri_parameters (drop (strlen zFilename + 1) zFilename) zParam"

text \<open>The names are \<open>hexkey\<close>, \<open>key\<close> and \<open>textkey\<close>.\<close>

definition sqlite3CodecQueryParameters ::
    "'s provider \<Rightarrow> init_state \<Rightarrow> database option \<Rightarrow> bytes option \<Rightarrow> bytes option \<Rightarrow> 's world \<Rightarrow> (bool \<times> database option \<times> 's world) option" where
  "sqlite3CodecQueryParameters P ini db zDb zUri w =
     (let key = (\<lambda>k n. map_option (\<lambda>(_, db, w). (True, db, w)) (sqlite3_key_v2 P ini db zDb (Some k) n w)) in
      case zUri of None \<Rightarrow> Some (False, db, w)
      | Some zUri \<Rightarrow>
          case uriParameter zUri [104, 101, 120, 107, 101, 121] of
            Some (c # z) \<Rightarrow> let zDecoded = decode_hex 0 0 [] (c # z) in key zDecoded (int (length zDecoded))
          | _ \<Rightarrow>
              (case uriParameter zUri [107, 101, 121] of
                 Some zKey \<Rightarrow> key zKey (int (length zKey))
               | None \<Rightarrow>
                   (case uriParameter zUri [116, 101, 120, 116, 107, 101, 121] of
                      Some zKey \<Rightarrow> key zKey (-1)
                    | None \<Rightarrow> Some (False, db, w))))"

section \<open>Handing on the key\<close>

text \<open>The copy of the passphrase goes to memory that is not checked: \<open>None\<close>.\<close>

definition sqlcipherCodecGetKey :: "database option \<Rightarrow> int \<Rightarrow> 's world \<Rightarrow> (bytes option \<times> int \<times> 's world) option" where
  "sqlcipherCodecGetKey db nDb w =
     (case db of None \<Rightarrow> Some (None, 0, w)
      | Some d \<Rightarrow>
          if \<not> (nDb \<ge> 0 \<and> nDb < int (length (aDb d))) then Some (None, 0, w)
          else case sqlcipherPagerGetCodec (aDb d ! nat nDb) of
            None \<Rightarrow> Some (None, 0, w)
          | Some ctx \<Rightarrow>
              if derive_key (read_ctx ctx) \<noteq> 0 \<or> store_pass ctx = 1
              then let n = pass_sz (read_ctx ctx); (ok, w) = w_malloc n w in
                if n = 0 then Some (None, 0, w)
                else if \<not> ok then None
                else (case pass (read_ctx ctx) of None \<Rightarrow> None | Some p \<Rightarrow> Some (Some p, n, w))
              else let (rc, spec, w) = sqlcipher_cipher_ctx_get_keyspec ctx (read_ctx ctx) w
                   in Some (spec, case spec of None \<Rightarrow> 0 | Some k \<Rightarrow> int (length k), w))"

text \<open>The argument \<open>KEY\<close> of \<open>ATTACH\<close>, whose database is the last of the connection.\<close>

datatype key_value = Key_Number | Key_Bytes bytes | Key_Null

definition attach_key ::
    "'s provider \<Rightarrow> init_state \<Rightarrow> database \<Rightarrow> bytes option \<Rightarrow> bytes option \<Rightarrow> key_value \<Rightarrow> 's world \<Rightarrow> (int \<times> database option \<times> 's world) option" where
  "attach_key P ini d zName zPath key w =
     (let last_db = int (length (aDb d)) - 1 in
      case key of
        Key_Number \<Rightarrow> Some (SQLITE_ERROR, Some d, w)
      | Key_Bytes zKey \<Rightarrow>
          if zKey \<noteq> [] then sqlcipherCodecAttach P ini (Some d) last_db (Some zKey) (int (length zKey)) w else Some (SQLITE_OK, Some d, w)
      | Key_Null \<Rightarrow>
          (case sqlite3CodecQueryParameters P ini (Some d) zName zPath w of
             None \<Rightarrow> None
           | Some (True, db, w) \<Rightarrow> Some (SQLITE_OK, db, w)
           | Some (False, db, w) \<Rightarrow>
               (case sqlcipherCodecGetKey db 0 w of
                  None \<Rightarrow> None
                | Some (zKey, nKey, w) \<Rightarrow>
                    if nKey \<noteq> 0 \<or> sqlite3BtreeGetRequestedReserve (db_bts (aDb d ! 0)) > 0
                    then sqlcipherCodecAttach P ini db last_db zKey nKey w
                    else Some (SQLITE_OK, db, w))))"

section \<open>What attaching does\<close>

lemma ltc_ctx_free:
  assumes "ltc_up s" "ltc_init s \<noteq> 0" "\<not> l_held s"
  shows "\<exists>s'. sqlcipher_ltc_ctx_free s = Some (SQLITE_OK, s') \<and> ltc_up s' \<and> ltc_init s' \<noteq> 0 \<and> \<not> l_held s' \<and> l_heap s' = l_heap s"
  using assms ltc_up_cong [of "s\<lparr>ltc_ref_count := ltc_ref_count s - 1\<rparr>" s]
    ltc_up_cong [of "s\<lparr>ltc_ref_count := ltc_ref_count s - 1, l_prng := zero_prng\<rparr>" s]
  by (auto simp: sqlcipher_ltc_ctx_free_def sqlcipher_ltc_deactivate_def Let_def split: prod.split)

lemma attach_codec_form:
  assumes "i < length (aDb d)"
  shows "\<exists>t b. attach_codec d i ctx = d\<lparr>nextPagesize := page_sz ctx,
      aDb := (aDb d)[i := (aDb d ! i)\<lparr>db_pager := Attached (ctx\<lparr>pBt := b\<rparr>), db_bts := t\<rparr>]\<rparr> \<and>
    bt_read b = bt_read (pBt ctx) \<and> bt_open b = bt_open (pBt ctx) \<and> bt_sharable b = bt_sharable (pBt ctx)"
proof -
  obtain rc t where 1: "codec_set_btree_to_codec_pagesize d i ctx =
      (rc, d\<lparr>nextPagesize := page_sz ctx, aDb := (aDb d)[i := (aDb d ! i)\<lparr>db_bts := t\<rparr>]\<rparr>)"
    by (cases "sqlite3BtreeSetPageSize (db_bts (aDb d ! i)\<lparr>bts_btsFlags := bts_btsFlags (db_bts (aDb d ! i)) AND NOT BTS_PAGESIZE_FIXED\<rparr>)
      (page_sz ctx) (reserve_sz ctx) False") (simp add: codec_set_btree_to_codec_pagesize_def Let_def)
  obtain n t1 where 2: "sqlite3BtreeSecureDelete t 1 = (n, t1)" by (rule prod.exhaust)
  obtain m t2 b where 3: "sqlite3BtreeSetAutoVacuum t1 (pBt ctx) SQLITE_DEFAULT_AUTOVACUUM = (m, t2, b)" by (rule prod_cases3)
  have b: "bt_read b = bt_read (pBt ctx) \<and> bt_open b = bt_open (pBt ctx) \<and> bt_sharable b = bt_sharable (pBt ctx)"
    using 3 by (auto simp: sqlite3BtreeSetAutoVacuum_def Let_def split: if_splits)
  show ?thesis
  proof (cases "bt_open (pBt ctx)")
    case True
    then show ?thesis using assms 1 2 3 b by (intro exI [of _ t2] exI [of _ b]) (simp add: attach_codec_def)
  next
    case False
    then show ?thesis using assms 1 2 by (intro exI [of _ t1] exI [of _ "pBt ctx"]) (simp add: attach_codec_def)
  qed
qed

lemma attach_codec_entry:
  assumes "i < length (aDb d)"
  shows "\<exists>b. db_pager (aDb (attach_codec d i ctx) ! i) = Attached (ctx\<lparr>pBt := b\<rparr>) \<and> bt_read b = bt_read (pBt ctx) \<and> bt_open b = bt_open (pBt ctx) \<and>
      bt_sharable b = bt_sharable (pBt ctx)"
    "length (aDb (attach_codec d i ctx)) = length (aDb d)"
    "j \<noteq> i \<Longrightarrow> aDb (attach_codec d i ctx) ! j = aDb d ! j"
    "nextPagesize (attach_codec d i ctx) = page_sz ctx"
  using assms attach_codec_form [OF assms, of ctx] by auto

text \<open>A codec in use cannot be replaced.\<close>

definition codec_in_use :: "db_entry \<Rightarrow> bool" where
  "codec_in_use e = (case sqlcipherPagerGetCodec e of None \<Rightarrow> False
     | Some ctx \<Rightarrow> FLAG_GET (cc_flags ctx) CIPHER_FLAG_KEY_USED \<or> bt_sharable (pBt ctx))"

text \<open>A context fresh from \<open>sqlcipher_codec_ctx_init\<close>.\<close>

definition fresh_ctx :: "codec_defaults \<Rightarrow> bytes \<Rightarrow> codec_ctx \<Rightarrow> bool" where
  "fresh_ctx d key ctx \<longleftrightarrow> ltc_wf ctx \<and> settled d ctx \<and> pass (read_ctx ctx) = Some key \<and> derive_key (read_ctx ctx) = 1 \<and> write_ctx ctx = read_ctx ctx"

lemma fresh_ctx_pBt [simp]: "fresh_ctx d key (ctx\<lparr>pBt := b\<rparr>) = fresh_ctx d key ctx"
  by (simp add: fresh_ctx_def codec_wf_iff settled_def reserve_of_def sizes_wf_def)

lemma attach_step:
  assumes ini: "fst ini" and run: "ltc_up (w_prov w)" "ltc_init (w_prov w) \<noteq> 0" "\<not> l_held (w_prov w)"
    and d: "defaults_ok 16 16 ltc_mac_size (w_defaults w)" and key: "key \<noteq> []" "length key < 2 ^ 31"
    and i: "i < length (aDb db)" and e: "entry_btree (aDb db ! i) = Some t" and fresh: "\<not> codec_in_use (aDb db ! i)"
  shows "\<exists>rc r w'. sqlcipherCodecAttach sqlcipher_ltc_setup ini (Some db) (int i) (Some key) (int (length key)) w =
      Some (rc, Some (attach_result db i t rc r), w') \<and>
    (plenty (w_heap w) \<longrightarrow> rc = SQLITE_OK) \<and> (rc \<noteq> SQLITE_OK \<longrightarrow> rc = SQLITE_NOMEM \<and> r = None) \<and>
    (rc = SQLITE_OK \<longrightarrow> (\<exists>ctx s. r = Some ctx \<and> fresh_ctx (w_defaults w) key ctx \<and> pBt ctx = t \<and> ltc_up s \<and> l_heap s = l_heap (w_prov w) \<and>
       heap_only (w\<lparr>w_prov := s\<rparr>) w'))"
proof -
  have free: "\<exists>s. (if sqlcipherPagerGetCodec (aDb db ! i) \<noteq> None then sqlcipher_codec_ctx_free sqlcipher_ltc_setup w else Some w) = Some (w\<lparr>w_prov := s\<rparr>) \<and>
      ltc_up s \<and> ltc_init s \<noteq> 0 \<and> \<not> l_held s \<and> l_heap s = l_heap (w_prov w)"
  proof (cases "sqlcipherPagerGetCodec (aDb db ! i) = None")
    case True
    then show ?thesis using run by (intro exI [of _ "w_prov w"]) simp
  next
    case False
    then show ?thesis using ltc_ctx_free [OF run] by (auto simp: sqlcipher_codec_ctx_free_def sqlcipher_ltc_setup_def)
  qed
  then obtain s where s: "(if sqlcipherPagerGetCodec (aDb db ! i) \<noteq> None then sqlcipher_codec_ctx_free sqlcipher_ltc_setup w else Some w) = Some (w\<lparr>w_prov := s\<rparr>)"
    "ltc_up s" "ltc_init s \<noteq> 0" "\<not> l_held s" "l_heap s = l_heap (w_prov w)" by blast
  let ?w = "w\<lparr>w_prov := s\<rparr>"
  obtain u where u: "p_ctx_init sqlcipher_ltc_setup (w_prov ?w) = Some (SQLITE_OK, u)" "ltc_up u" "l_heap u = l_heap s"
    using activate_warm [OF s(2-4)] by (auto simp: sqlcipher_ltc_setup_def)
  obtain rc r w' where r: "sqlcipher_codec_ctx_init sqlcipher_ltc_setup t (Some key) ?w = Some (rc, r, w')"
    using codec_ctx_init_returns [OF u(1), of t "Some key"] by auto
  have len: "length k < 2 ^ 31" if "Some key = Some k" for k using key(2) that by simp
  have d': "defaults_ok 16 16 ltc_mac_size (w_defaults ?w)" using d by simp
  note init = ltc.codec_ctx_init_result [OF u(1,2) d' len r]
  have used: "\<not> (case sqlcipherPagerGetCodec (aDb db ! i) of None \<Rightarrow> False
                    | Some ctx \<Rightarrow> FLAG_GET (cc_flags ctx) CIPHER_FLAG_KEY_USED \<or> bt_sharable t)"
    using fresh e by (auto simp: codec_in_use_def sqlcipherPagerGetCodec_def entry_btree_def split: db_pager.splits)
  have k: "take (nat (int (length key))) (the (Some key)) = key" by simp
  have n: "int (length key) \<noteq> 0 \<and> Some key \<noteq> None" "\<not> int (length key) < 0" "int i \<ge> 0 \<and> int i < int (length (aDb db))" "nat (int i) = i"
    using key(1) i by simp_all
  have "sqlcipherCodecAttach sqlcipher_ltc_setup ini (Some db) (int i) (Some key) (int (length key)) w =
      Some (rc, Some (attach_result db i t rc r), w')"
    unfolding sqlcipherCodecAttach_def Let_def option.case n(4) e if_not_P [OF used] s(1) k r prod.case
    using ini n by simp
  moreover have "rc = SQLITE_OK \<Longrightarrow> \<exists>ctx s. r = Some ctx \<and> fresh_ctx (w_defaults w) key ctx \<and> pBt ctx = t \<and> ltc_up s \<and> l_heap s = l_heap (w_prov w) \<and>
       heap_only (w\<lparr>w_prov := s\<rparr>) w'"
    using init(3) key(1) u(2,3) s(5) by (auto simp: fresh_ctx_def pass_of_def)
  moreover have "plenty (w_heap w) \<Longrightarrow> rc = SQLITE_OK" using init(1) by simp
  ultimately show ?thesis using init(2) by blast
qed

section \<open>Names and hexadecimal keys\<close>

lemma find_db_name_first:
  assumes "i < length es" "sqlite3StrICmp (zDbSName (es ! i)) z = 0" "\<forall>j < i. sqlite3StrICmp (zDbSName (es ! j)) z \<noteq> 0"
  shows "find_db_name es z k = k + int i"
  using assms
proof (induction es arbitrary: i k)
  case (Cons e es)
  show ?case
  proof (cases i)
    case 0
    then show ?thesis using Cons.prems by simp
  next
    case (Suc m)
    then have "sqlite3StrICmp (zDbSName e) z \<noteq> 0" "\<forall>j < m. sqlite3StrICmp (zDbSName (es ! j)) z \<noteq> 0" using Cons.prems(3) by auto
    then show ?thesis using Cons.IH [of m "k + 1"] Cons.prems Suc by simp
  qed
qed simp

lemma hex_digit_decode:
  assumes "d < 16"
  shows "sqlite3Isxdigit (hex_digit d)" "sqlite3HexToInt (hex_digit d) = d"
proof -
  have "unat d < 16" using assms by (simp add: word_less_nat_alt)
  then have "unat d \<in> {0, 1, 2, 3, 4, 5, 6, 7, 8, 9, 10, 11, 12, 13, 14, 15}" by (simp only: insert_iff empty_iff) arith
  then have "(of_nat (unat d) :: byte) \<in> of_nat ` {0, 1, 2, 3, 4, 5, 6, 7, 8, 9, 10, 11, 12, 13, 14, 15}" by (rule imageI)
  moreover have "(of_nat (unat d) :: byte) = d" by simp
  ultimately have "d \<in> of_nat ` {0, 1, 2, 3, 4, 5, 6, 7, 8, 9, 10, 11, 12, 13, 14, 15}" by (simp only:)
  then have "d \<in> {0, 1, 2, 3, 4, 5, 6, 7, 8, 9, 10, 11, 12, 13, 14, 15}" by simp
  then show "sqlite3Isxdigit (hex_digit d)" "sqlite3HexToInt (hex_digit d) = d"
    by (elim insertE emptyE; simp add: sqlite3Isxdigit_def sqlite3HexToInt_def hex_digit_def)+
qed

lemma nibbles_join:
  "push_bit 4 (push_bit 4 b + drop_bit 4 x) + (x AND 15) = (x :: byte)"
proof -
  have "x AND 15 = take_bit 4 x" by (simp add: take_bit_eq_mask mask_eq_exp_minus_1)
  moreover have "push_bit 4 (push_bit 4 b + drop_bit 4 x) = push_bit 4 (drop_bit 4 x)"
  proof -
    have "push_bit 4 (push_bit 4 b) = (0 :: byte)" by (intro bit_word_eqI) (simp add: bit_push_bit_iff)
    then show ?thesis by (simp add: push_bit_add)
  qed
  ultimately show ?thesis using bits_ident [of 4 x] by simp
qed

lemma decode_hex_of:
  assumes "\<not> sqlite3Isxdigit (ch r)" "n \<le> 40"
  shows "decode_hex (2 * n) b acc (hex_of k @ r) = acc @ take (40 - n) k"
  using assms(2)
proof (induction k arbitrary: n b acc)
  case Nil
  then show ?case using assms(1) by (subst decode_hex.simps) (simp add: hex_of_def)
next
  case (Cons x k)
  show ?case
  proof (cases "n = 40")
    case True
    then show ?thesis by (subst decode_hex.simps) simp
  next
    case False
    let ?h = "hex_digit (drop_bit 4 x)" and ?l = "hex_digit (x AND 15)"
    have d: "drop_bit 4 x < 16" "x AND 15 < 16" by (simp_all add: nibbles)
    have even: "2 * n AND 1 = (0 :: nat)" "(2 * n + 1) AND 1 = (1 :: nat)" by (simp_all add: and_one_eq)
    have "decode_hex (2 * n) b acc (hex_of (x # k) @ r) = decode_hex (2 * n) b acc (?h # ?l # (hex_of k @ r))" by (simp add: hex_of_def)
    also have "\<dots> = decode_hex (2 * n + 1) (push_bit 4 b + drop_bit 4 x) acc (?l # (hex_of k @ r))"
      using False Cons.prems even by (subst decode_hex.simps) (simp add: ch_def hex_digit_decode [OF d(1)] Let_def)
    also have "\<dots> = decode_hex (2 * n + 1 + 1) x (acc @ [x]) (hex_of k @ r)"
      using False Cons.prems even by (subst decode_hex.simps) (simp add: ch_def hex_digit_decode [OF d(2)] Let_def nibbles_join)
    also have "\<dots> = decode_hex (2 * (n + 1)) x (acc @ [x]) (hex_of k @ r)" by simp
    also have "\<dots> = (acc @ [x]) @ take (40 - (n + 1)) k" using False Cons.prems by (intro Cons.IH) simp
    also have "\<dots> = acc @ take (40 - n) (x # k)" using False Cons.prems by (simp add: take_Cons')
    finally show ?thesis .
  qed
qed

section \<open>The key of another database\<close>

lemma get_key_derived:
  assumes "0 \<le> nDb" "nDb < int (length (aDb d))" "sqlcipherPagerGetCodec (aDb d ! nat nDb) = Some m" "derive_key (read_ctx m) = 0" "store_pass m \<noteq> 1"
    and "sqlcipher_cipher_ctx_get_keyspec m (read_ctx m) w = (rc, Some spec, w')"
  shows "sqlcipherCodecGetKey (Some d) nDb w = Some (Some spec, int (length spec), w')"
  using assms by (simp add: sqlcipherCodecGetKey_def)

section \<open>Properties\<close>

text \<open>
  C22: keying a database by its name touches no other database.  If the key of its codec is in use, or the codec is shared, the call succeeds without
  effect; otherwise the database gets a new well-formed context with the default settings and the given
  passphrase, in place of any codec it had, and the page size to go with it; or, when memory runs out,
  it is left without a codec and the error is set on its pager.
\<close>

theorem key_outcome:
  assumes "fst ini" "ltc_up (w_prov w)" "ltc_init (w_prov w) \<noteq> 0" "\<not> l_held (w_prov w)" "defaults_ok 16 16 ltc_mac_size (w_defaults w)"
      "key \<noteq> []" "length key < 2 ^ 31" "i < length (aDb db)" "entry_btree (aDb db ! i) = Some t"
    and "sqlite3StrICmp z [] \<noteq> 0" "sqlite3StrICmp (zDbSName (aDb db ! i)) z = 0" "\<forall>j < i. sqlite3StrICmp (zDbSName (aDb db ! j)) z \<noteq> 0"
  shows "\<exists>rc db' w'. sqlite3_key_v2 sqlcipher_ltc_setup ini (Some db) (Some z) (Some key) (int (length key)) w = Some (rc, Some db', w') \<and>
    length (aDb db') = length (aDb db) \<and> (\<forall>j < length (aDb db). j \<noteq> i \<longrightarrow> aDb db' ! j = aDb db ! j) \<and>
    (if codec_in_use (aDb db ! i) then rc = SQLITE_OK \<and> db' = db \<and> w' = w
     else (plenty (w_heap w) \<longrightarrow> rc = SQLITE_OK) \<and>
       (rc = SQLITE_OK \<and> (\<exists>ctx. sqlcipherPagerGetCodec (aDb db' ! i) = Some ctx \<and> fresh_ctx (w_defaults w) key ctx \<and> nextPagesize db' = page_sz ctx) \<or>
        rc = SQLITE_NOMEM \<and> db_pager (aDb db' ! i) = Plain (t\<lparr>bt_pager_err := rc, bt_db_err := rc\<rparr>)))"
proof -
  have ix: "sqlcipher_find_db_index (Some db) (Some z) = int i"
    using find_db_name_first [OF assms(8,11,12), of 0] assms(10) by (simp add: sqlcipher_find_db_index_def)
  let ?k = "sqlite3_key_v2 sqlcipher_ltc_setup ini (Some db) (Some z) (Some key) (int (length key)) w"
  show ?thesis
  proof (cases "codec_in_use (aDb db ! i)")
    case True
    then have "(case sqlcipherPagerGetCodec (aDb db ! i) of None \<Rightarrow> False
                    | Some ctx \<Rightarrow> FLAG_GET (cc_flags ctx) CIPHER_FLAG_KEY_USED \<or> bt_sharable t)"
      using assms(9) by (auto simp: codec_in_use_def sqlcipherPagerGetCodec_def entry_btree_def split: db_pager.splits)
    then have "?k = Some (SQLITE_OK, Some db, w)" using assms(1,6,8,9) by (simp add: sqlite3_key_v2_def ix sqlcipherCodecAttach_def)
    then show ?thesis using True by simp
  next
    case False
    from attach_step [OF assms(1-9) False] obtain rc r w' where
      k0: "sqlcipherCodecAttach sqlcipher_ltc_setup ini (Some db) (int i) (Some key) (int (length key)) w = Some (rc, Some (attach_result db i t rc r), w')"
      and r: "plenty (w_heap w) \<longrightarrow> rc = SQLITE_OK" "rc \<noteq> SQLITE_OK \<longrightarrow> rc = SQLITE_NOMEM \<and> r = None"
      "rc = SQLITE_OK \<longrightarrow> (\<exists>ctx s. r = Some ctx \<and> fresh_ctx (w_defaults w) key ctx \<and> pBt ctx = t \<and> ltc_up s \<and> l_heap s = l_heap (w_prov w) \<and>
         heap_only (w\<lparr>w_prov := s\<rparr>) w')" by blast
    have k: "?k = Some (rc, Some (attach_result db i t rc r), w')" using k0 by (simp only: sqlite3_key_v2_def ix)
    show ?thesis
    proof (cases "rc = SQLITE_OK")
      case True
      then obtain ctx where ctx: "r = Some ctx" "fresh_ctx (w_defaults w) key ctx" using r(3) by blast
      note a = attach_codec_entry [OF assms(8), where ctx = ctx]
      obtain b where b: "db_pager (aDb (attach_codec db i ctx) ! i) = Attached (ctx\<lparr>pBt := b\<rparr>)" using a(1) by blast
      have "fresh_ctx (w_defaults w) key (ctx\<lparr>pBt := b\<rparr>)" using ctx(2) by simp
      then show ?thesis using k True False ctx(1) a(2-4) b r(1) by (simp add: sqlcipherPagerGetCodec_def attach_result_def)
    next
      case nomem: False
      then show ?thesis using k r(1,2) False assms(8) by (simp add: attach_result_def)
    qed
  qed
qed

definition sample_bts :: bt_shared where
  "sample_bts = \<lparr>bts_pageSize = 4096, bts_usableSize = 4096, bts_nReserveWanted = 0, bts_btsFlags = 0, bts_incrVacuum = 0,
     bts_setPagesize = \<lambda>n r. (SQLITE_OK, n)\<rparr>"

definition sample_entry :: "db_pager \<Rightarrow> db_entry" where
  "sample_entry p = \<lparr>zDbSName = [109, 97, 105, 110], db_pager = p, db_bts = sample_bts\<rparr>"

lemma sample_running: "ltc_init (w_prov sample_world) \<noteq> 0" "\<not> l_held (w_prov sample_world)" "defaults_ok 16 16 ltc_mac_size (w_defaults sample_world)"
  "w_defaults sample_world = initial_defaults"
  using sample_defaults by (simp_all add: sample_world_def warm_ltc_def)

theorem key_outcome_witness:
  "\<exists>db' w' ctx. sqlite3_key_v2 sqlcipher_ltc_setup (True, 0) (Some \<lparr>aDb = [sample_entry (Plain sample_btree)], nextPagesize = 0\<rparr>) (Some [77, 65, 73, 78])
       (Some [97, 98, 99]) 3 sample_world = Some (SQLITE_OK, Some db', w') \<and>
     sqlcipherPagerGetCodec (aDb db' ! 0) = Some ctx \<and> pass (read_ctx ctx) = Some [97, 98, 99] \<and> nextPagesize db' = 4096"
proof -
  let ?db = "\<lparr>aDb = [sample_entry (Plain sample_btree)], nextPagesize = 0\<rparr>"
  have z: "sqlite3StrICmp [77, 65, 73, 78] [] \<noteq> 0" "sqlite3StrICmp (zDbSName (aDb ?db ! 0)) [77, 65, 73, 78] = 0"
    by (simp_all add: sample_entry_def sqlite3StrICmp_iff UpperToLower_def)
  have e: "entry_btree (aDb ?db ! 0) = Some sample_btree" "\<not> codec_in_use (aDb ?db ! 0)"
    by (simp_all add: sample_entry_def entry_btree_def codec_in_use_def sqlcipherPagerGetCodec_def)
  have k: "([97, 98, 99] :: bytes) \<noteq> []" "length ([97, 98, 99] :: bytes) < 2 ^ 31" "0 < length (aDb ?db)" by simp_all
  from key_outcome [of "(True, 0)", OF _ sample_world_ok(1) sample_running(1-3) k e(1) z] e(2) sample_world_ok(3)
  show ?thesis by (auto simp: fresh_ctx_def settled_def sample_running(4) initial_defaults_def)
qed

text \<open>
  \<open>PRAGMA hexkey\<close> and the URI parameter give a codec the bytes that the hexadecimal digits stand for, but no more than the first 40: the
  rest of a longer key is ignored.
\<close>

theorem hexkey_bytes:
  "key_pragma_arg 2 (cipher_bin2hex key) = (take 40 key, int (min 40 (length key)))"
proof -
  have "\<not> sqlite3Isxdigit (ch (if key = [] then [] else [0]))" by (simp add: ch_def sqlite3Isxdigit_def)
  from decode_hex_of [OF this, of 0 0 "[]" key] have "decode_hex 0 0 [] (cipher_bin2hex key) = take 40 key" by (simp add: cipher_bin2hex_eq)
  then show ?thesis by (simp add: key_pragma_arg_def Let_def)
qed

text \<open>
  \<open>PRAGMA textkey\<close> gives a key the length -1, which \<open>sqlcipher_malloc\<close> takes for a size that rounds up to 0: the request is served from
  the private heap with a block that has no bytes, and the copy of the key that follows overruns it.
\<close>

theorem textkey_block:
  assumes "heap_wf st a N (xs @ (m, False) # ys)" "\<forall>(k, u) \<in> set xs. u" "48 \<le> m"
  shows "\<exists>st'. key_pragma_arg 4 z = (z, -1) \<and>
    sqlcipher_malloc os (word_of_int (snd (key_pragma_arg 4 z))) st = Some (Some (a + extent xs + 16), st') \<and>
    seg (ph_blocks st') (ph_base st') a (xs @ (0, True) # (m - 16, False) # ys) None"
proof -
  have k: "key_pragma_arg 4 z = (z, -1)" by (simp add: key_pragma_arg_def)
  have r: "ROUNDUP (- 1) = 0" by code_simp
  have sg: "seg (ph_blocks st) (ph_base st) a (xs @ (m, False) # ys) None" using assms(1) by (simp add: heap_wf_def)
  have fit: "find_fit (ph_blocks st) 0 (ph_base st) = Some (Some (a + extent xs))"
    using find_fit_seg [OF sg, of 0] fit_at_append [of xs 0 m a ys] assms(2) by auto
  have u0: "unat (0 :: u64) = 0" by simp
  have tb: "seg (ph_blocks (take_block 0 (a + extent xs) st)) (ph_base st) a (xs @ (0, True) # (m - 16, False) # ys) None"
    using take_block_seg [OF sg u0] assms(3) by (simp add: carve_def)
  have base: "ph_base (take_block 0 b st) = ph_base st" for b by (simp add: take_block_def Let_def)
  have "\<not> (- 1 :: u64) < 1" by simp
  then show ?thesis using tb by (simp add: k sqlcipher_malloc_def r fit Let_def base SIZEOF_PRIVATE_BLOCK_def)
qed

text \<open>
  A database attached without a key gets the key of the main one: when that has been derived, it is handed on as a key
  specification, and the attached database derives from it the same key, the same key for HMAC and the same salt.
\<close>

theorem attach_same_key:
  assumes "fst ini" "ltc_up (w_prov w)" "ltc_init (w_prov w) \<noteq> 0" "\<not> l_held (w_prov w)" "defaults_ok 16 16 ltc_mac_size (w_defaults w)"
      "ltc_roomy (w_prov w)" "plenty (w_heap w)"
    and "n = length (aDb db) - 1" "0 < n" "db_pager (aDb db ! n) = Plain t" "btree_ok t"
    and "sqlcipherPagerGetCodec (aDb db ! 0) = Some m" "ltc_wf m" "derive_key (read_ctx m) = 0" "store_pass m \<noteq> 1"
      "FLAG_GET (default_flags (w_defaults w)) CIPHER_FLAG_HMAC = FLAG_GET (cc_flags m) CIPHER_FLAG_HMAC"
  shows "\<exists>db' w' ctx x v. attach_key sqlcipher_ltc_setup ini db zName None Key_Null w = Some (SQLITE_OK, Some db', w') \<and>
    sqlcipherPagerGetCodec (aDb db' ! n) = Some ctx \<and> sqlcipher_codec_key_derive sqlcipher_ltc_setup ctx w' = (SQLITE_OK, x, v) \<and>
    sqlcipher_shield (w_mask w) (ck_key (read_ctx x)) = sqlcipher_shield (w_mask w) (ck_key (read_ctx m)) \<and>
    (FLAG_GET (cc_flags m) CIPHER_FLAG_HMAC \<longrightarrow>
       sqlcipher_shield (w_mask w) (ck_hmac_key (read_ctx x)) = sqlcipher_shield (w_mask w) (ck_hmac_key (read_ctx m))) \<and>
    kdf_salt x = kdf_salt m"
proof -
  have m: "cipher_ctx_wf 32 (read_ctx m)" "length (kdf_salt m) = 16" using assms(13) by (simp_all add: codec_wf_iff sizes_wf_def)
  obtain rc sp w1 where g: "sqlcipher_cipher_ctx_get_keyspec m (read_ctx m) w = (rc, sp, w1)" by (rule prod_cases3)
  note gr = get_keyspec_result [OF assms(13) _ m(1) g, simplified]
  obtain spec where spec: "rc = SQLITE_OK" "sp = Some spec" "spec \<noteq> []" "length spec < 2 ^ 31"
    using gr(2) assms(7) m by (auto simp: keyspec_of_def cipher_ctx_wf_def split: if_splits)
  note ho = heap_onlyD [OF gr(1)]
  have run: "ltc_up (w_prov w1)" "ltc_init (w_prov w1) \<noteq> 0" "\<not> l_held (w_prov w1)" "defaults_ok 16 16 ltc_mac_size (w_defaults w1)"
    using ho assms(2-5) by simp_all
  have n: "n < length (aDb db)" "int (length (aDb db)) - 1 = int n" "0 < length (aDb db)" using assms(8,9) by linarith+
  have e: "entry_btree (aDb db ! n) = Some t" "\<not> codec_in_use (aDb db ! n)"
    using assms(10) by (simp_all add: entry_btree_def codec_in_use_def sqlcipherPagerGetCodec_def)
  obtain r w' where k: "sqlcipherCodecAttach sqlcipher_ltc_setup ini (Some db) (int n) (Some spec) (int (length spec)) w1 =
      Some (SQLITE_OK, Some (attach_result db n t SQLITE_OK r), w')"
    and r: "\<exists>ctx s. r = Some ctx \<and> fresh_ctx (w_defaults w1) spec ctx \<and> pBt ctx = t \<and> ltc_up s \<and> l_heap s = l_heap (w_prov w1) \<and>
      heap_only (w1\<lparr>w_prov := s\<rparr>) w'"
    using attach_step [OF assms(1) run spec(3,4) n(1) e] ho(5) assms(7) by blast
  then obtain ctx0 s where ctx0: "r = Some ctx0" "fresh_ctx (w_defaults w) spec ctx0" "pBt ctx0 = t" "ltc_up s" "l_heap s = l_heap (w_prov w1)"
    "heap_only (w1\<lparr>w_prov := s\<rparr>) w'" using ho(4) by auto
  obtain b where b: "db_pager (aDb (attach_codec db n ctx0) ! n) = Attached (ctx0\<lparr>pBt := b\<rparr>)" "bt_read b = bt_read t"
    using attach_codec_entry(1) [OF n(1), of ctx0] ctx0(3) by auto
  define ctx where "ctx = ctx0\<lparr>pBt := b\<rparr>"
  have fresh: "fresh_ctx (w_defaults w) spec ctx" using ctx0(2) by (simp add: ctx_def)
  have att: "attach_key sqlcipher_ltc_setup ini db zName None Key_Null w = Some (SQLITE_OK, Some (attach_codec db n ctx0), w')"
    using k get_key_derived [of 0 db m w rc spec w1] n assms(12,14,15) g spec ctx0(1)
    by (simp add: attach_key_def sqlite3CodecQueryParameters_def attach_result_def)
  note w' = heap_onlyD [OF ctx0(6)]
  have up: "ltc_up (w_prov w')" "w_mask w' = w_mask w" "ltc_roomy (w_prov w')" "plenty (w_heap w')"
    using w' ho ctx0(4,5) assms(6,7) by (simp_all add: ltc_roomy_def)
  have c: "ltc_wf ctx" "btree_ok (pBt ctx)" "derive_key (read_ctx ctx) \<noteq> 0" "write_ctx ctx = read_ctx ctx" "pass (read_ctx ctx) = Some spec"
    "FLAG_GET (cc_flags ctx) CIPHER_FLAG_HMAC = FLAG_GET (cc_flags m) CIPHER_FLAG_HMAC"
    using fresh assms(11,16) b(2) by (simp_all add: fresh_ctx_def settled_def btree_ok_def) (simp add: ctx_def btree_ok_def)
  obtain rd x v where d: "sqlcipher_codec_key_derive sqlcipher_ltc_setup ctx w' = (rd, x, v)" by (rule prod_cases3)
  have ok: "rd = SQLITE_OK" using ltc.codec_key_derive_result [OF up(1) c(1,2) d] c(3-5) up(3,4) by blast
  have "sqlcipherPagerGetCodec (aDb (attach_codec db n ctx0) ! n) = Some ctx" using b(1) by (simp add: sqlcipherPagerGetCodec_def ctx_def)
  then show ?thesis
    using att d [unfolded ok] keyspec_same_keys [OF assms(13) g [unfolded spec(1,2)] up(1) c d [unfolded ok]] up(2) by auto
qed

theorem attach_same_key_witness:
  "let m = sample_ctx\<lparr>read_ctx := sample_cipher_ctx\<lparr>derive_key := 0\<rparr>, write_ctx := sample_cipher_ctx\<lparr>derive_key := 0\<rparr>\<rparr>;
       db = \<lparr>aDb = [sample_entry (Attached m), sample_entry (Plain sample_btree)], nextPagesize = 0\<rparr> in
   \<exists>db' w' ctx x v. attach_key sqlcipher_ltc_setup (True, 0) db None None Key_Null sample_world = Some (SQLITE_OK, Some db', w') \<and>
     sqlcipherPagerGetCodec (aDb db' ! 1) = Some ctx \<and> sqlcipher_codec_key_derive sqlcipher_ltc_setup ctx w' = (SQLITE_OK, x, v) \<and>
     kdf_salt x = replicate 16 0"
proof -
  define m where "m = sample_ctx\<lparr>read_ctx := sample_cipher_ctx\<lparr>derive_key := 0\<rparr>, write_ctx := sample_cipher_ctx\<lparr>derive_key := 0\<rparr>\<rparr>"
  define db where "db = \<lparr>aDb = [sample_entry (Attached m), sample_entry (Plain sample_btree)], nextPagesize = 0\<rparr>"
  have c: "1 = length (aDb db) - 1" "(0 :: nat) < 1" "db_pager (aDb db ! 1) = Plain sample_btree" "btree_ok sample_btree"
    "sqlcipherPagerGetCodec (aDb db ! 0) = Some m" "ltc_wf m" "derive_key (read_ctx m) = 0" "store_pass m \<noteq> 1" "kdf_salt m = replicate 16 0"
    "FLAG_GET (default_flags (w_defaults sample_world)) CIPHER_FLAG_HMAC = FLAG_GET (cc_flags m) CIPHER_FLAG_HMAC"
    using sample_keyed(1) [folded m_def] sample_btree_ok
    by (simp_all add: db_def sample_entry_def sqlcipherPagerGetCodec_def sample_running(4) initial_defaults_def)
      (simp_all add: m_def sample_ctx_def)
  from attach_same_key [of "(True, 0)", OF _ sample_world_ok(1) sample_running(1-3) sample_world_ok(2,3) c(1-8,10), of None] c(9)
  show ?thesis unfolding m_def [symmetric] Let_def db_def [symmetric] by auto
qed

text \<open>
  Giving the B-tree the page size of the codec makes them agree, and leaves the reserve of the codec at the end of each page, when the pager
  accepts the size; but a B-tree does not take pages of 512 bytes with more than 32 in reserve and has 1024 instead, while the codec goes
  on with pages, and a buffer, of 512.
\<close>

theorem btree_page_size:
  assumes "ltc_wf ctx" "i < length (aDb db)" "t = db_bts (aDb db ! i)" "\<forall>n r. bts_setPagesize t n r = (SQLITE_OK, n)"
    "bts_pageSize t - bts_usableSize t \<le> reserve_sz ctx" "bts_pageSize t \<noteq> page_sz ctx"
  shows "\<exists>db' t'. codec_set_btree_to_codec_pagesize db i ctx = (SQLITE_OK, db') \<and> t' = db_bts (aDb db' ! i) \<and>
    bts_pageSize t' = (if page_sz ctx = 512 \<and> 32 < reserve_sz ctx then 1024 else page_sz ctx) \<and>
    bts_pageSize t' - bts_usableSize t' = reserve_sz ctx \<and> nextPagesize db' = page_sz ctx \<and>
    (\<exists>b. cc_buffer ctx = Some b \<and> length b = nat (page_sz ctx))"
proof -
  have b: "\<exists>b. cc_buffer ctx = Some b \<and> length b = nat (page_sz ctx)" and pg: "page_ok (page_sz ctx)"
    using assms(1) by (simp_all add: codec_wf_iff sizes_wf_def)
  obtain k where k: "9 \<le> k" "k \<le> 16" "page_sz ctx = 2 ^ k" using pg by (auto simp: page_ok_def)
  have "(2 :: int) ^ k \<le> 2 ^ 16" by (rule power_increasing) (use k in auto)
  moreover have "(2 :: int) ^ k AND (2 ^ k - 1) = 0" by (simp add: mask_eq_exp_minus_1 [symmetric] flip: take_bit_eq_mask)
  ultimately have range: "512 \<le> page_sz ctx" "page_sz ctx \<le> 65536" "(page_sz ctx - 1) AND page_sz ctx = 0"
    using ltc_reserve_small(2) [OF assms(1)] k(3) by (simp_all add: and.commute)
  have r: "0 \<le> reserve_sz ctx" "reserve_sz ctx \<le> 96" using ltc.reserve_room(1) [OF assms(1)] ltc_reserve_small(1) [OF assms(1)] by (auto split: if_splits)
  let ?t0 = "t\<lparr>bts_btsFlags := bts_btsFlags t AND NOT BTS_PAGESIZE_FIXED\<rparr>"
  let ?p = "if 32 < reserve_sz ctx \<and> page_sz ctx = 512 then 1024 else page_sz ctx"
  let ?t' = "?t0\<lparr>bts_nReserveWanted := reserve_sz ctx mod 256, bts_pageSize := ?p, bts_usableSize := ?p - reserve_sz ctx\<rparr>"
  have fixed: "(bts_btsFlags t AND NOT BTS_PAGESIZE_FIXED) AND BTS_PAGESIZE_FIXED = 0" by (intro bit_word_eqI) (simp add: bit_simps)
  have "sqlite3BtreeSetPageSize ?t0 (page_sz ctx) (reserve_sz ctx) False = (SQLITE_OK, ?t')"
    using assms(4-6) range r fixed by (simp add: sqlite3BtreeSetPageSize_def Let_def)
  then have "codec_set_btree_to_codec_pagesize db i ctx = (SQLITE_OK, db\<lparr>nextPagesize := page_sz ctx, aDb := (aDb db)[i := (aDb db ! i)\<lparr>db_bts := ?t'\<rparr>]\<rparr>)"
    by (simp add: codec_set_btree_to_codec_pagesize_def Let_def assms(3))
  then show ?thesis using assms(2) b by simp
qed

theorem btree_page_size_witness:
  "\<exists>db'. codec_set_btree_to_codec_pagesize \<lparr>aDb = [sample_entry (Attached sample_ctx)], nextPagesize = 0\<rparr> 0 sample_ctx = (SQLITE_OK, db') \<and>
     bts_pageSize (db_bts (aDb db' ! 0)) = 1024 \<and> page_sz sample_ctx = 512"
proof -
  let ?db = "\<lparr>aDb = [sample_entry (Attached sample_ctx)], nextPagesize = 0\<rparr>"
  have c: "page_sz sample_ctx = 512" "reserve_sz sample_ctx = 80" by (simp_all add: sample_ctx_def)
  from btree_page_size [OF sample_wf, of 0 ?db, OF _ refl] show ?thesis by (auto simp: c sample_entry_def sample_bts_def)
qed

theorem textkey_block_witness:
  "\<exists>st'. sqlcipher_malloc None (word_of_int (snd (key_pragma_arg 4 [97]))) (private_heap_init (\<lambda>_. Some 4096) blank_heap) = Some (Some 4112, st') \<and>
     seg (ph_blocks st') (ph_base st') 4096 [(0, True), (49120, False)] None"
  using textkey_block [of "private_heap_init (\<lambda>_. Some 4096) blank_heap" 4096 49152 "[]" 49136 "[]" "[97]" None] blank_wf by auto

end
