(* ===== verification/CStrings.thy ===== *)
theory CStrings
  imports Attach
begin

text \<open>
  Text as the pragmas use it: the numbers that \<open>sqlite3_mprintf\<close> prints and \<open>atoi\<close> reads, the integers and
  booleans of SQLite, and string literals.
\<close>

unbundle bit_operations_syntax

section \<open>The code\<close>

text \<open>A string literal, without its NUL, and comparison with one.\<close>

definition cstr :: "string \<Rightarrow> bytes" where "cstr s = map of_char s"

definition sqlite3_stricmp :: "bytes \<Rightarrow> string \<Rightarrow> int" where "sqlite3_stricmp z s = sqlite3StrICmp z (cstr s)"

text \<open>The digits of \<open>%d\<close>, from the last one on.\<close>

fun digits :: "nat \<Rightarrow> bytes" where
  "digits n = (if n < 10 then [48 + of_nat n] else digits (n div 10) @ [48 + of_nat (n mod 10)])"

declare digits.simps [simp del]

definition int_str :: "int \<Rightarrow> bytes" where
  "int_str i = (if i < 0 then 45 # digits (nat (- i)) else digits (nat i))"

definition sqlite3Isdigit :: "byte \<Rightarrow> bool" where "sqlite3Isdigit c \<longleftrightarrow> 48 \<le> c \<and> c \<le> 57"

definition digits_value :: "bytes \<Rightarrow> int" where
  "digits_value z = foldl (\<lambda>v c. v * 10 + (uint c - 48)) 0 z"

text \<open>\<open>atoi\<close> of the C library: space, a sign, digits; a number that is no \<open>int\<close> is undefined: \<open>None\<close>.\<close>

definition isspace :: "byte \<Rightarrow> bool" where "isspace c \<longleftrightarrow> c = 32 \<or> 9 \<le> c \<and> c \<le> 13"

definition atoi :: "bytes \<Rightarrow> int option" where
  "atoi z =
     (let z = dropWhile isspace z;
          neg = (ch z = 45);
          z = (if ch z = 45 \<or> ch z = 43 then tl z else z);
          v = digits_value (takeWhile sqlite3Isdigit z);
          v = (if neg then - v else v)
      in if - (2 ^ 31) \<le> v \<and> v < 2 ^ 31 then Some v else None)"

definition get_decimal :: "bool \<Rightarrow> bytes \<Rightarrow> int option" where
  "get_decimal neg zNum =
     (if \<not> sqlite3Isdigit (ch zNum) then None
      else let d = takeWhile sqlite3Isdigit (take 11 (dropWhile ((=) 48) zNum)); v = digits_value d in
        if length d > 10 then None
        else if v - (if neg then 1 else 0) > 2147483647 then None
        else Some (if neg then - v else v))"

definition get_hex :: "bytes \<Rightarrow> int option" where
  "get_hex zNum =
     (let zNum = dropWhile ((=) 48) zNum;
          d = takeWhile sqlite3Isxdigit (take 8 zNum);
          u = foldl (\<lambda>u c. u * 16 + ucast (sqlite3HexToInt c)) (0 :: u32) d
      in if u AND 0x80000000 = 0 \<and> \<not> sqlite3Isxdigit (ch (drop (length d) zNum)) then Some (uint u) else None)"

definition sqlite3GetInt32 :: "bytes \<Rightarrow> int option" where
  "sqlite3GetInt32 zNum =
     (if ch zNum = 45 then get_decimal True (tl zNum)
      else if ch zNum = 43 then get_decimal False (tl zNum)
      else if ch zNum = 48 \<and> (ch (drop 1 zNum) = 120 \<or> ch (drop 1 zNum) = 88) \<and> sqlite3Isxdigit (ch (drop 2 zNum))
      then get_hex (drop 2 zNum)
      else get_decimal False zNum)"

definition sqlite3Atoi :: "bytes \<Rightarrow> int" where
  "sqlite3Atoi z = (case sqlite3GetInt32 z of None \<Rightarrow> 0 | Some x \<Rightarrow> x)"

text \<open>The words are substrings of one text, given by offset and length, with their values.\<close>

definition safety_words :: "(nat \<times> nat \<times> int) list" where
  "safety_words = [(0, 2, 1), (1, 2, 0), (2, 3, 0), (4, 5, 0), (9, 3, 1), (12, 4, 1), (15, 5, 3), (20, 4, 2)]"

definition getSafetyLevel :: "bytes \<Rightarrow> bool \<Rightarrow> int \<Rightarrow> int" where
  "getSafetyLevel z omitFull dflt =
     (if sqlite3Isdigit (ch z) then sqlite3Atoi z mod 256
      else case find (\<lambda>(iOffset, iLength, iValue). iLength = length z \<and>
               sqlite3StrNICmp (drop iOffset (cstr ''onoffalseyestruextrafull'')) z (length z) = 0 \<and> (\<not> omitFull \<or> iValue \<le> 1)) safety_words of
        Some (_, _, iValue) \<Rightarrow> iValue
      | None \<Rightarrow> dflt)"

definition sqlite3GetBoolean :: "bytes \<Rightarrow> int \<Rightarrow> bool" where
  "sqlite3GetBoolean z dflt \<longleftrightarrow> getSafetyLevel z True dflt \<noteq> 0"

section \<open>Numbers\<close>

lemma cstr_simps [simp]: "cstr [] = []" "cstr (c # s) = of_char c # cstr s"
  by (simp_all add: cstr_def)

lemma digit_byte:
  assumes "n < 10"
  shows "sqlite3Isdigit (48 + of_nat n)" "uint (48 + of_nat n :: byte) = 48 + int n"
proof -
  have "n \<in> {0, 1, 2, 3, 4, 5, 6, 7, 8, 9}" using assms by (simp only: insert_iff empty_iff) arith
  then show "sqlite3Isdigit (48 + of_nat n)" "uint (48 + of_nat n :: byte) = 48 + int n"
    by (elim insertE emptyE; simp add: sqlite3Isdigit_def)+
qed

lemma digits_set: "c \<in> set (digits n) \<Longrightarrow> sqlite3Isdigit c"
proof (induction n rule: digits.induct)
  case (1 n)
  then show ?case by (subst (asm) digits.simps) (auto simp: digit_byte(1) split: if_splits)
qed

lemma digits_value_digits [simp]: "digits_value (digits n) = int n"
proof (induction n rule: digits.induct)
  case (1 n)
  show ?case
  proof (cases "n < 10")
    case True
    then show ?thesis by (subst digits.simps) (simp add: digits_value_def digit_byte(2))
  next
    case False
    have "n mod 10 < 10" by simp
    note d = digit_byte(2) [OF this]
    have "digits_value (digits n) = digits_value (digits (n div 10)) * 10 + (uint (48 + of_nat (n mod 10) :: byte) - 48)"
      using False by (subst digits.simps) (simp add: digits_value_def)
    also have "\<dots> = int n" using 1 False by (simp only: d) (simp add: zmod_int zdiv_int)
    finally show ?thesis .
  qed
qed

lemma digits_nonempty: "digits n \<noteq> []"
  by (subst digits.simps) simp

lemma digit_not_space: "sqlite3Isdigit c \<Longrightarrow> \<not> isspace c \<and> c \<noteq> 45 \<and> c \<noteq> 43"
  by (auto simp: sqlite3Isdigit_def isspace_def word_le_nat_alt)

lemma takeWhile_digits [simp]: "takeWhile sqlite3Isdigit (digits n) = digits n"
  using digits_set by (auto simp: takeWhile_eq_all_conv)

text \<open>\<open>atoi\<close> reads what \<open>%d\<close> prints.\<close>

lemma atoi_int_str:
  assumes "- (2 ^ 31) \<le> i" "i < 2 ^ 31"
  shows "atoi (int_str i) = Some i"
proof -
  show ?thesis
  proof (cases "i < 0")
    case True
    have "\<not> isspace 45" by (simp add: isspace_def)
    then show ?thesis using True assms by (simp add: atoi_def int_str_def Let_def)
  next
    case False
    obtain c cs where d: "digits (nat i) = c # cs" using digits_nonempty [of "nat i"] by (cases "digits (nat i)") auto
    then have "sqlite3Isdigit c" using digits_set [of c "nat i"] by simp
    then have "\<not> isspace c" "c \<noteq> 45" "c \<noteq> 43" using digit_not_space [of c] by simp_all
    then have "atoi (digits (nat i)) = Some i"
      using False assms takeWhile_digits [of "nat i"] digits_value_digits [of "nat i"] by (simp add: atoi_def d)
    then show ?thesis using False by (simp add: int_str_def)
  qed
qed

lemma boolean_int_str [simp]: "sqlite3GetBoolean (int_str 1) d" "\<not> sqlite3GetBoolean (int_str 0) d"
  by (simp_all add: sqlite3GetBoolean_def getSafetyLevel_def int_str_def digits.simps sqlite3Isdigit_def sqlite3Atoi_def sqlite3GetInt32_def
      get_decimal_def digits_value_def)

end
