(* ===== verification/Integrity.thy ===== *)
theory Integrity
  imports CStrings
begin

text \<open>
  \<open>PRAGMA cipher_integrity_check\<close>: every page of the file is read past the pager and its code checked.
\<close>

unbundle bit_operations_syntax

section \<open>The code\<close>

text \<open>A row of a result: the label of its column and its value, \<open>None\<close> for NULL.  Memory for a text is taken to be there.\<close>

type_synonym row = "bytes \<times> bytes option"

text \<open>
  The file: its size, the answer of \<open>sqlite3OsRead\<close> to a buffer and an offset, and the page of the lock byte
  (\<open>sqlite3pager_is_sj_pgno\<close>).
\<close>

record db_file =
  df_size :: int
  df_read :: "bytes \<Rightarrow> int \<Rightarrow> int \<times> bytes"
  df_sj :: "u32 \<Rightarrow> bool"

definition ic_row :: "bytes \<Rightarrow> row" where
  "ic_row msg = (cstr ''cipher_integrity_check'', Some msg)"

text \<open>The values \<open>%d\<close> of a page number and of a 64-bit offset: their low 32 bits with a sign.\<close>

definition read_error :: "int \<Rightarrow> u32 \<Rightarrow> int \<Rightarrow> bytes" where
  "read_error read_sz page pos =
     cstr ''error reading '' @ int_str read_sz @ cstr '' bytes from file page '' @ int_str (sint page) @ cstr '' at offset '' @
     int_str (sint (word_of_int pos :: u32))"

text \<open>
  The product of page number and page size has 32 bits.  An access outside of the buffer or through the unchecked
  \<open>hmac_out\<close> is \<open>None\<close>.
\<close>

definition ic_page :: "'s provider \<Rightarrow> db_file \<Rightarrow> bool \<Rightarrow> codec_ctx \<Rightarrow> u32 \<Rightarrow> 's world \<Rightarrow> (row list \<times> codec_ctx \<times> 's world) option" where
  "ic_page P f hmac_out_ok ctx page w =
     (let offset = uint ((page - 1) * word_of_int (page_sz ctx));
          payload_sz = page_sz ctx - reserve_sz ctx + iv_sz ctx;
          read_sz = page_sz ctx in
      if df_sj f page then Some ([], ctx, w)
      else let page1_offset = (if page = 1 then if plaintext_header_sz ctx \<noteq> 0 then plaintext_header_sz ctx else FILE_HEADER_SZ else 0);
               read_sz = read_sz - page1_offset;
               payload_sz = payload_sz - page1_offset;
               offset = offset + page1_offset in
        case cc_buffer ctx of None \<Rightarrow> None
        | Some buffer \<Rightarrow>
            if \<not> hmac_out_ok \<or> read_sz < 0 \<or> read_sz > page_sz ctx \<or> payload_sz < 0 \<or> payload_sz + hmac_sz ctx > page_sz ctx then None
            else let buffer = sqlcipher_memset buffer 0 (nat (page_sz ctx));
                     hmac_out = replicate (nat (hmac_sz ctx)) 0;
                     (rc, d) = df_read f (take (nat read_sz) buffer) offset;
                     buffer = buf_write buffer 0 d;
                     ctx = ctx\<lparr>cc_buffer := Some buffer\<rparr> in
              if rc \<noteq> SQLITE_OK then Some ([ic_row (read_error read_sz page offset)], ctx, w)
              else let (rc, mac, w) = sqlcipher_page_hmac P ctx (read_ctx ctx) page (take (nat payload_sz) buffer) w;
                       hmac_out = buf_write hmac_out 0 mac in
                if rc \<noteq> SQLITE_OK then Some ([ic_row (cstr ''HMAC operation failed for page '' @ int_str (sint page))], ctx, w)
                else if sqlcipher_memcmp (drop (nat payload_sz) buffer) hmac_out (nat (hmac_sz ctx)) \<noteq> 0
                then Some ([ic_row (cstr ''HMAC verification failed for page '' @ int_str (sint page))], ctx, w)
                else Some ([], ctx, w))"

text \<open>The loop from \<open>page\<close> on, with the number of pages left.\<close>

primrec ic_pages :: "'s provider \<Rightarrow> db_file \<Rightarrow> bool \<Rightarrow> nat \<Rightarrow> codec_ctx \<Rightarrow> u32 \<Rightarrow> 's world \<Rightarrow> (row list \<times> codec_ctx \<times> 's world) option" where
  "ic_pages P f ok 0 ctx page w = Some ([], ctx, w)"
| "ic_pages P f ok (Suc n) ctx page w =
     (case ic_page P f ok ctx page w of None \<Rightarrow> None
      | Some (rows, ctx, w) \<Rightarrow>
          (case ic_pages P f ok n ctx (page + 1) w of None \<Rightarrow> None
           | Some (rest, ctx, w) \<Rightarrow> Some (rows @ rest, ctx, w)))"

text \<open>A file with more pages than a page number counts keeps the loop running for ever: \<open>None\<close>.\<close>

definition sqlcipher_codec_ctx_integrity_check ::
    "'s provider \<Rightarrow> db_file \<Rightarrow> codec_ctx \<Rightarrow> 's world \<Rightarrow> (int \<times> row list \<times> codec_ctx \<times> 's world) option" where
  "sqlcipher_codec_ctx_integrity_check P f ctx w =
     (if \<not> bt_open (pBt ctx) then Some (SQLITE_OK, [ic_row (cstr ''database file is undefined'')], ctx, w)
      else if \<not> FLAG_GET (cc_flags ctx) CIPHER_FLAG_HMAC
      then Some (SQLITE_OK, [ic_row (cstr ''HMAC is not enabled, unable to integrity check'')], ctx, w)
      else let (rc, ctx, w) = sqlcipher_codec_key_derive P ctx w in
        if rc \<noteq> SQLITE_OK then Some (SQLITE_OK, [ic_row (cstr ''unable to derive keys'')], ctx, w)
        else let file_sz = df_size f; (ok, w) = w_malloc (hmac_sz ctx) w; pages = file_sz div page_sz ctx in
          if pages \<ge> 2 ^ 32 then None
          else case ic_pages P f ok (nat pages) ctx 1 w of None \<Rightarrow> None
          | Some (rows, ctx, w) \<Rightarrow>
              Some (SQLITE_OK,
                rows @ (if file_sz mod page_sz ctx \<noteq> 0
                  then [ic_row (cstr ''page '' @ int_str (sint (word_of_int (pages + 1) :: u32)) @ cstr '' has an invalid size of '' @
                          int_str (file_sz - pages * page_sz ctx) @ cstr '' bytes (expected '' @ int_str (page_sz ctx) @ cstr '' bytes)'')]
                  else []), ctx, w))"

section \<open>What the check reports\<close>

text \<open>
  The report on a page that is read from the position the code computes: an error of the file, or that the page does not
  authenticate its contents and number, or nothing.
\<close>

definition page_report :: "(bytes \<Rightarrow> bytes \<Rightarrow> bytes) \<Rightarrow> nat \<Rightarrow> nat \<Rightarrow> bytes \<Rightarrow> db_file \<Rightarrow> codec_ctx \<Rightarrow> u32 \<Rightarrow> row list" where
  "page_report mac ivs ms hkey f ctx page =
     (if df_sj f page then []
      else let off = page_offset ctx page;
               pos = (uint page - 1) * page_sz ctx mod 2 ^ 32 + off;
               (rc, y) = df_read f (replicate (nat (page_sz ctx - off)) 0) pos in
        if rc \<noteq> SQLITE_OK then [ic_row (read_error (page_sz ctx - off) page pos)]
        else if page_authentic mac ivs ms hkey (pgno_raw ctx page) (nat (page_sz ctx - off - reserve_sz ctx)) y then []
        else [ic_row (cstr ''HMAC verification failed for page '' @ int_str (sint page))])"

definition file_reads :: "db_file \<Rightarrow> bool" where
  "file_reads f \<longleftrightarrow> (\<forall>b pos. length (snd (df_read f b pos)) = length b)"

lemma page_report_buffer [simp]: "page_report mac ivs ms hkey f (ctx\<lparr>cc_buffer := b\<rparr>) = page_report mac ivs ms hkey f ctx"
proof (rule ext)
  fix page
  have "page_offset (ctx\<lparr>cc_buffer := b\<rparr>) page = page_offset ctx page" "pgno_raw (ctx\<lparr>cc_buffer := b\<rparr>) page = pgno_raw ctx page"
      "page_sz (ctx\<lparr>cc_buffer := b\<rparr>) = page_sz ctx" "reserve_sz (ctx\<lparr>cc_buffer := b\<rparr>) = reserve_sz ctx"
    by (simp_all add: page_offset_def pgno_raw_def)
  then show "page_report mac ivs ms hkey f (ctx\<lparr>cc_buffer := b\<rparr>) page = page_report mac ivs ms hkey f ctx page"
    unfolding page_report_def by (simp only:)
qed

lemma page_position:
  fixes page :: u32
  shows "uint ((page - 1) * word_of_int n) = (uint page - 1) * n mod 2 ^ 32"
proof -
  have "(page - 1) * word_of_int n = (word_of_int ((uint page - 1) * n) :: u32)"
    by (simp add: wi_hom_sub [symmetric] wi_hom_mult [symmetric])
  then show ?thesis by (simp only: uint_word_of_int) simp
qed

context crypto_provider
begin

abbreviation report :: "'s world \<Rightarrow> db_file \<Rightarrow> codec_ctx \<Rightarrow> u32 \<Rightarrow> row list" where
  "report w f ctx \<equiv> page_report (MAC (hmac_algorithm ctx)) iv_size (mac_size (hmac_algorithm ctx)) (uhkey w (read_ctx ctx)) f ctx"

lemma ic_page_result:
  assumes up: "up (w_prov w)" "roomy (w_prov w)" and wf: "wf ctx" and h: "bit (cc_flags ctx) 0" and fr: "file_reads f"
    and off: "0 \<le> plaintext_header_sz ctx" "page_offset ctx page \<le> page_sz ctx - reserve_sz ctx"
  shows "\<exists>b w'. ic_page P f True ctx page w = Some (report w f ctx page, ctx\<lparr>cc_buffer := Some b\<rparr>, w') \<and> wf (ctx\<lparr>cc_buffer := Some b\<rparr>) \<and>
    w' = w\<lparr>w_prov := w_prov w'\<rparr> \<and> up (w_prov w') \<and> roomy (w_prov w')"
proof -
  let ?off = "page_offset ctx page" and ?ms = "mac_size (hmac_algorithm ctx)"
  obtain b where b: "cc_buffer ctx = Some b" "length b = nat (page_sz ctx)" using wf by (auto simp: codec_wf_iff sizes_wf_def)
  have self: "ctx\<lparr>cc_buffer := Some b\<rparr> = ctx" using b(1) by simp
  show ?thesis
  proof (cases "df_sj f page")
    case True
    then show ?thesis using up wf b self by (intro exI [of _ b] exI [of _ w]) (simp only: self, simp add: ic_page_def page_report_def)
  next
    case False
    have sz: "iv_sz ctx = int iv_size" "hmac_sz ctx = int ?ms" "alg_ok (hmac_algorithm ctx)" "page_sz ctx \<le> 65536"
      using wf page_ok_accepted(3) by (auto simp: codec_wf_iff sizes_wf_def)
    have room: "int iv_size + int ?ms \<le> reserve_sz ctx" using reserve_room(1) [OF wf] h by simp
    have o0: "0 \<le> ?off" using off(1) by (simp add: page_offset_def FILE_HEADER_SZ_def)
    define n where "n = nat (page_sz ctx - ?off - reserve_sz ctx)"
    have n: "int n = page_sz ctx - ?off - reserve_sz ctx" using off(2) by (simp add: n_def)
    obtain rc y where y: "df_read f (replicate (nat (page_sz ctx - ?off)) 0) ((uint page - 1) * page_sz ctx mod 2 ^ 32 + ?off) = (rc, y)" by (rule prod.exhaust)
    have ly: "length y = nat (page_sz ctx - ?off)" using fr y unfolding file_reads_def by (metis length_replicate snd_conv)
    let ?z = "replicate (nat (page_sz ctx)) (0 :: byte)"
    have t: "take (nat (page_sz ctx - ?off)) ?z = replicate (nat (page_sz ctx - ?off)) 0" using o0 by (simp add: min_def)
    let ?buf = "buf_write ?z 0 y"
    let ?ctx = "ctx\<lparr>cc_buffer := Some ?buf\<rparr>"
    have lb: "length ?buf = nat (page_sz ctx)" using ly o0 by (simp add: length_buf_write)
    have wf': "wf ?ctx" using wf lb by (simp add: codec_wf_iff sizes_wf_def)
    have pay: "nat (page_sz ctx - reserve_sz ctx + iv_sz ctx - ?off) = n + iv_size" using n sz by simp
    have le: "n + iv_size + ?ms \<le> length y" using ly n room o0 by simp
    obtain rc1 mac w1 where m: "sqlcipher_page_hmac P ?ctx (read_ctx ?ctx) page (take (n + iv_size) ?buf) w = (rc1, mac, w1)" by (rule prod_cases3)
    have small: "length (take (n + iv_size) ?buf) < 2 ^ 31" using lb sz(4) by simp
    have cw: "cipher_ctx_wf key_size (read_ctx ?ctx)" using wf' wf_fields(4) by blast
    note mr = page_hmac_result [OF up(1) wf' cw small m]
    have r1: "rc1 = SQLITE_OK" "up (w_prov w1)" "roomy (w_prov w1)"
      and mac: "mac = MAC (hmac_algorithm ctx) (uhkey w (read_ctx ctx)) (take (n + iv_size) ?buf @ pgno_raw ctx page)"
      using mr(2) up(2) by (auto simp: served_def pgno_raw_def)
    have ty: "take (n + iv_size) ?buf = take (n + iv_size) y" "take ?ms (drop (n + iv_size) ?buf) = page_mac n iv_size ?ms y"
      using le by (simp_all add: buf_write_def page_mac_def)
    have lm: "length mac = ?ms" using mac_length sz(3) by (simp add: mac alg_ok_def)
    have "sqlcipher_memcmp (drop (n + iv_size) ?buf) (buf_write (replicate ?ms 0) 0 mac) ?ms = 0 \<longleftrightarrow>
        take ?ms (drop (n + iv_size) ?buf) = take ?ms (buf_write (replicate ?ms 0) 0 mac)"
      by (rule sqlcipher_memcmp_take) (use lb ly le lm o0 in \<open>simp_all add: length_buf_write\<close>)
    then have cmp: "sqlcipher_memcmp (drop (n + iv_size) ?buf) (buf_write (replicate ?ms 0) 0 mac) ?ms = 0 \<longleftrightarrow>
        page_authentic (MAC (hmac_algorithm ctx)) iv_size ?ms (uhkey w (read_ctx ctx)) (pgno_raw ctx page) n y"
      using lm by (simp add: ty buf_write_full page_authentic_def mac)
    have ok: "\<not> (\<not> True \<or> page_sz ctx - ?off < 0 \<or> page_sz ctx - ?off > page_sz ctx \<or> page_sz ctx - reserve_sz ctx + iv_sz ctx - ?off < 0 \<or>
        page_sz ctx - reserve_sz ctx + iv_sz ctx - ?off + hmac_sz ctx > page_sz ctx)"
      using n o0 sz(1,2) room by (simp only: de_Morgan_disj not_not simp_thms, intro conjI; linarith)
    have "ic_page P f True ctx page w =
      (if rc \<noteq> SQLITE_OK then Some ([ic_row (read_error (page_sz ctx - ?off) page ((uint page - 1) * page_sz ctx mod 2 ^ 32 + ?off))], ?ctx, w)
       else if page_authentic (MAC (hmac_algorithm ctx)) iv_size ?ms (uhkey w (read_ctx ctx)) (pgno_raw ctx page) n y then Some ([], ?ctx, w1)
       else Some ([ic_row (cstr ''HMAC verification failed for page '' @ int_str (sint page))], ?ctx, w1))"
      unfolding ic_page_def Let_def page_offset_def [symmetric] if_not_P [OF False] b(1) option.case if_not_P [OF ok] memset_all [OF b(2)] t page_position y prod.case
        pay m
      using r1(1) cmp by (simp add: sz(2))
    moreover have "report w f ctx page =
      (if rc \<noteq> SQLITE_OK then [ic_row (read_error (page_sz ctx - ?off) page ((uint page - 1) * page_sz ctx mod 2 ^ 32 + ?off))]
       else if page_authentic (MAC (hmac_algorithm ctx)) iv_size ?ms (uhkey w (read_ctx ctx)) (pgno_raw ctx page) n y then []
       else [ic_row (cstr ''HMAC verification failed for page '' @ int_str (sint page))])"
      unfolding page_report_def Let_def if_not_P [OF False] y prod.case n_def [symmetric] ..
    ultimately show ?thesis using up wf' r1 mr(1)
      by (cases "rc = SQLITE_OK"; intro exI [of _ ?buf]) (auto intro!: exI [of _ w1])
  qed
qed

text \<open>The pages from \<open>page\<close> on.\<close>

lemma ic_pages_result:
  assumes "up (w_prov w)" "roomy (w_prov w)" "wf ctx" "bit (cc_flags ctx) 0" "file_reads f"
    "0 \<le> plaintext_header_sz ctx" "page_offset ctx 1 \<le> page_sz ctx - reserve_sz ctx"
  shows "\<exists>ctx' w'. ic_pages P f True n ctx page w = Some (concat (map (\<lambda>i. report w f ctx (page + of_nat i)) [0..<n]), ctx', w') \<and>
    page_sz ctx' = page_sz ctx"
  using assms
proof (induction n arbitrary: ctx page w)
  case (Suc n)
  have "0 \<le> page_offset ctx 1" using Suc.prems(6) by (simp add: page_offset_def FILE_HEADER_SZ_def)
  then have off: "page_offset ctx page \<le> page_sz ctx - reserve_sz ctx" using Suc.prems(7) by (simp add: page_offset_def)
  obtain b w1 where 1: "ic_page P f True ctx page w = Some (report w f ctx page, ctx\<lparr>cc_buffer := Some b\<rparr>, w1)" "wf (ctx\<lparr>cc_buffer := Some b\<rparr>)"
    "w1 = w\<lparr>w_prov := w_prov w1\<rparr>" "up (w_prov w1)" "roomy (w_prov w1)"
    using ic_page_result [OF Suc.prems(1-6) off] by blast
  have mk: "w_mask w1 = w_mask w" using 1(3) by (metis world.select_convs(4) world.surjective world.update_convs(1))
  let ?c = "ctx\<lparr>cc_buffer := Some b\<rparr>"
  have po: "page_offset ?c 1 = page_offset ctx 1" by (simp add: page_offset_def)
  have fields: "bit (cc_flags ?c) 0" "0 \<le> plaintext_header_sz ?c" "page_offset ?c 1 \<le> page_sz ?c - reserve_sz ?c"
    using Suc.prems(4,6,7) po by simp_all
  obtain c2 w2 where 2: "ic_pages P f True n ?c (page + 1) w1 =
      Some (concat (map (\<lambda>i. report w1 f ?c (page + 1 + of_nat i)) [0..<n]), c2, w2)" "page_sz c2 = page_sz ctx"
    using Suc.IH [OF 1(4,5,2) fields(1) Suc.prems(5) fields(2,3), of "page + 1"] by auto
  have e: "report w1 f ?c (page + 1 + of_nat i) = report w f ctx (page + of_nat (Suc i))" for i by (simp add: mk algebra_simps)
  have "[0..<Suc n] = 0 # map Suc [0..<n]" by (simp add: map_Suc_upt upt_conv_Cons)
  then show ?case using 1(1) 2 by (simp only: ic_pages.simps e) (simp add: comp_def)
qed simp

end

section \<open>Properties\<close>

text \<open>
  C36: on a file that can be read past the pager, with HMAC and keys, the check gives for each page in order, the page of the lock byte
  left out, the report on the bytes at the position of the page taken modulo \<open>2 ^ 32\<close>: an error of the file, or that these
  bytes do not carry the code of their contents and of the number of the page; and one more row for a partial page at the end.  Pages beyond
  4 GiB are therefore compared with the bytes of other pages.
\<close>

theorem integrity_check_report:
  assumes "ltc_up (w_prov w)" "ltc_roomy (w_prov w)" "plenty (w_heap w)" "ltc_wf ctx" "btree_ok (pBt ctx)" "bt_open (pBt ctx)"
    "FLAG_GET (cc_flags ctx) CIPHER_FLAG_HMAC" "file_reads f" "0 \<le> plaintext_header_sz ctx" "page_offset ctx 1 \<le> page_sz ctx - reserve_sz ctx"
    "0 \<le> df_size f" "df_size f div page_sz ctx < 2 ^ 32" "sqlcipher_codec_key_derive sqlcipher_ltc_setup ctx w = (SQLITE_OK, ctx1, w1)"
  shows "\<exists>ctx' w'. sqlcipher_codec_ctx_integrity_check sqlcipher_ltc_setup f ctx w = Some (SQLITE_OK,
    concat (map (\<lambda>i. page_report (ltc_mac (hmac_algorithm ctx)) 16 (ltc_mac_size (hmac_algorithm ctx))
        (sqlcipher_shield (w_mask w) (ck_hmac_key (read_ctx ctx1))) f ctx1 (of_nat i)) [1..<nat (df_size f div page_sz ctx) + 1]) @
      (if page_sz ctx dvd df_size f then []
       else [ic_row (cstr ''page '' @ int_str (sint (word_of_int (df_size f div page_sz ctx + 1) :: u32)) @ cstr '' has an invalid size of '' @
               int_str (df_size f mod page_sz ctx) @ cstr '' bytes (expected '' @ int_str (page_sz ctx) @ cstr '' bytes)'')]), ctx', w')"
proof -
  note kd = ltc.codec_key_derive_result [OF assms(1,4,5,13)]
  have so: "ltc_wf ctx1" "keyed ctx ctx1" "ltc_up (w_prov w1)" "consumed w w1" "ltc_roomy (w_prov w1)"
    using kd assms(2) by (simp_all add: ltc.step_ok_def)
  note k = keyedD [OF so(2)] and c = consumedD [OF so(4)]
  have po: "page_offset ctx1 1 = page_offset ctx 1" using k(3) by (simp add: page_offset_def)
  obtain ok w2 where m: "w_malloc (hmac_sz ctx1) w1 = (ok, w2)" by (rule prod.exhaust)
  have hs: "0 < hmac_sz ctx1" using so(1) by (auto simp: codec_wf_iff alg_ok_def)
  have ok: "ok" and h: "heap_only w1 w2" using w_malloc_result [OF m] c(3) [OF assms(3)] hs by simp_all
  note h = heap_onlyD [OF h]
  let ?n = "nat (df_size f div page_sz ctx)"
  have pre: "ltc_up (w_prov w2)" "ltc_roomy (w_prov w2)" "bit (cc_flags ctx1) 0" "0 \<le> plaintext_header_sz ctx1" "page_offset ctx1 1 \<le> page_sz ctx1 - reserve_sz ctx1"
    using so h(1) k(1-3) po k(9) [of 0] assms(7,9,10) by simp_all
  obtain ctx' w' where r: "ic_pages sqlcipher_ltc_setup f True ?n ctx1 1 w2 =
      Some (concat (map (\<lambda>i. ltc.report w2 f ctx1 (1 + of_nat i)) [0..<?n]), ctx', w')" "page_sz ctx' = page_sz ctx1"
    using ltc.ic_pages_result [OF pre(1,2) so(1) pre(3) assms(8) pre(4,5), of ?n 1] by blast
  have e: "map (\<lambda>i. ltc.report w2 f ctx1 (1 + of_nat i)) [0..<?n] = map (\<lambda>i. ltc.report w f ctx1 (of_nat i)) [1..<?n + 1]"
    using c(1) h(3) by (simp add: map_Suc_upt [symmetric] del: map_Suc_upt upt_Suc)
  have md: "df_size f mod page_sz ctx \<noteq> 0 \<longleftrightarrow> \<not> page_sz ctx dvd df_size f" by (simp add: mod_eq_0_iff_dvd)
  have g: "\<not> \<not> bt_open (pBt ctx)" "\<not> \<not> FLAG_GET (cc_flags ctx) CIPHER_FLAG_HMAC" "\<not> SQLITE_OK \<noteq> SQLITE_OK" "\<not> df_size f div page_sz ctx \<ge> 2 ^ 32"
    using assms(6,7,12) by simp_all
  have r': "ic_pages sqlcipher_ltc_setup f ok ?n ctx1 1 w2 =
      Some (concat (map (\<lambda>i. ltc.report w f ctx1 (of_nat i)) [1..<?n + 1]), ctx', w')" using r(1) ok by (simp only: e)
  show ?thesis
    unfolding sqlcipher_codec_ctx_integrity_check_def Let_def if_not_P [OF g(1)] if_not_P [OF g(2)] assms(13) prod.case if_not_P [OF g(3)] m k(1)
      if_not_P [OF g(4)] r' option.case r(2) k(1) md minus_div_mult_eq_mod k(8)
    by simp
qed

text \<open>A file of two pages and five bytes, none of which can be read.\<close>

definition sample_file :: db_file where
  "sample_file = \<lparr>df_size = 1029, df_read = (\<lambda>b pos. (10, b)), df_sj = (\<lambda>_. False)\<rparr>"

theorem integrity_check_report_witness:
  "\<exists>msg ctx' w'. sqlcipher_codec_ctx_integrity_check sqlcipher_ltc_setup sample_file (sample_ctx\<lparr>pBt := sample_btree\<lparr>bt_open := True\<rparr>\<rparr>) sample_world =
     Some (SQLITE_OK, [ic_row (read_error 496 1 16), ic_row (read_error 512 2 512), ic_row msg], ctx', w')"
proof -
  define ctx where "ctx = sample_ctx\<lparr>pBt := sample_btree\<lparr>bt_open := True\<rparr>\<rparr>"
  have wf: "ltc_wf ctx" using sample_wf by (simp add: ctx_def codec_wf_iff)
  have c: "btree_ok (pBt ctx)" "bt_open (pBt ctx)" "FLAG_GET (cc_flags ctx) CIPHER_FLAG_HMAC" "plaintext_header_sz ctx = 0" "page_sz ctx = 512"
    "reserve_sz ctx = 80" "derive_key (read_ctx ctx) \<noteq> 0" "write_ctx ctx = read_ctx ctx" "pass (read_ctx ctx) = Some [97, 98, 99]"
    by (simp_all add: ctx_def sample_ctx_def sample_btree_def btree_ok_def sample_cipher_ctx_def)
  have po: "page_offset x 1 = 16" "page_offset x 2 = 0" if "plaintext_header_sz x = 0" for x using that by (simp_all add: page_offset_def FILE_HEADER_SZ_def)
  have f: "file_reads sample_file" "df_size sample_file = 1029" by (simp_all add: sample_file_def file_reads_def)
  obtain rc ctx1 w1 where kd: "sqlcipher_codec_key_derive sqlcipher_ltc_setup ctx sample_world = (rc, ctx1, w1)" by (rule prod_cases3)
  note r = ltc.codec_key_derive_result [OF sample_world_ok(1) wf c(1) kd]
  have rc: "rc = SQLITE_OK" using r c(7-9) sample_world_ok(2,3) by blast
  have "keyed ctx ctx1" using r by (simp add: ltc.step_ok_def)
  then have k: "page_sz ctx1 = 512" "plaintext_header_sz ctx1 = 0" using keyedD(1,3) c(4,5) by simp_all
  have rep: "page_report mac 16 ms h sample_file ctx1 1 = [ic_row (read_error 496 1 16)]"
    "page_report mac 16 ms h sample_file ctx1 2 = [ic_row (read_error 512 2 512)]" for mac ms h
    by (simp_all add: page_report_def po [OF k(2)] k(1) sample_file_def)
  have "[1..<nat (df_size sample_file div page_sz ctx) + 1] = [1, 2]" by (simp add: f c(5) upt_rec)
  moreover have "0 \<le> plaintext_header_sz ctx" "page_offset ctx 1 \<le> page_sz ctx - reserve_sz ctx" "0 \<le> df_size sample_file"
    "df_size sample_file div page_sz ctx < 2 ^ 32" "\<not> page_sz ctx dvd df_size sample_file" by (simp_all add: c po f)
  ultimately show ?thesis unfolding ctx_def [symmetric]
    using integrity_check_report [OF sample_world_ok wf c(1-3) f(1) _ _ _ _ kd [unfolded rc]] rep by auto
qed

end
