(* ===== verification/Pragma.thy ===== *)
theory Pragma
  imports Integrity
begin

text \<open>
  \<open>sqlcipher_codec_pragma\<close>: the pragmas that show and change the settings of a codec and the defaults.
\<close>

unbundle bit_operations_syntax

section \<open>State\<close>

text \<open>
  A connection, the codec's part of the process, and the globals of memory security and of the log.
\<close>

record 's pragma_state =
  ps_db :: database
  ps_world :: "'s world"
  ps_mem_security_on :: bool
  ps_mem_executed :: bool
  ps_log_level :: u32
  ps_log_source :: u32

text \<open>
  What the pragmas call: the file of a database; \<open>sqlcipher_cipher_profile\<close> and \<open>sqlcipher_set_log\<close>, which are modelled
  in \<open>Logging\<close>, and \<open>sqlcipher_codec_ctx_migrate\<close>, in \<open>Migrate\<close>, each over a state of its own.
\<close>

record 's pragma_env =
  pe_file :: "nat \<Rightarrow> db_file"
  pe_profile :: "bytes \<Rightarrow> int"
  pe_migrate :: "nat \<Rightarrow> 's pragma_state \<Rightarrow> (int \<times> 's pragma_state) option"
  pe_set_log :: "bytes \<Rightarrow> int"

text \<open>
  The result: 1 when the pragma is handled and 0 when it is left to SQLite, the rows of
  \<open>sqlcipher_vdbe_return_string\<close> and the state; \<open>None\<close> when the behaviour of the code is undefined.
\<close>

type_synonym 's pragma_result = "(int \<times> row list \<times> 's pragma_state) option"

definition ps_ctx :: "'s pragma_state \<Rightarrow> nat \<Rightarrow> codec_ctx option" where
  "ps_ctx s i = sqlcipherPagerGetCodec (aDb (ps_db s) ! i)"

definition put_ctx :: "nat \<Rightarrow> codec_ctx \<Rightarrow> 's pragma_state \<Rightarrow> 's pragma_state" where
  "put_ctx i ctx s = s\<lparr>ps_db := (ps_db s)\<lparr>aDb := (aDb (ps_db s))[i := (aDb (ps_db s) ! i)\<lparr>db_pager := Attached ctx\<rparr>]\<rparr>\<rparr>"

definition put_defaults :: "codec_defaults \<Rightarrow> 's pragma_state \<Rightarrow> 's pragma_state" where
  "put_defaults d s = s\<lparr>ps_world := (ps_world s)\<lparr>w_defaults := d\<rparr>\<rparr>"

abbreviation ps_defaults :: "'s pragma_state \<Rightarrow> codec_defaults" where "ps_defaults s \<equiv> w_defaults (ps_world s)"

definition handled :: "row list \<Rightarrow> 's pragma_state \<Rightarrow> 's pragma_result" where
  "handled rows s = Some (1, rows, s)"

definition row :: "string \<Rightarrow> bytes \<Rightarrow> row" where "row label value = (cstr label, Some value)"

definition of_flag :: "bool \<Rightarrow> int" where "of_flag b = (if b then 1 else 0)"

text \<open>Without a codec most pragmas do nothing.\<close>

definition with_ctx :: "'s pragma_state \<Rightarrow> nat \<Rightarrow> (codec_ctx \<Rightarrow> 's pragma_result) \<Rightarrow> 's pragma_result" where
  "with_ctx s i f = (case ps_ctx s i of None \<Rightarrow> handled [] s | Some ctx \<Rightarrow> f ctx)"

definition with_int :: "bytes \<Rightarrow> (int \<Rightarrow> 's pragma_result) \<Rightarrow> 's pragma_result" where
  "with_int z f = (case atoi z of None \<Rightarrow> None | Some n \<Rightarrow> f n)"

text \<open>\<open>rc = codec_set_btree_to_codec_pagesize(db, pDb, ctx)\<close>, and its error if any, as \<open>e\<close> says.\<close>

definition set_btree :: "nat \<Rightarrow> codec_ctx \<Rightarrow> (int \<Rightarrow> int) \<Rightarrow> 's pragma_state \<Rightarrow> 's pragma_state" where
  "set_btree i ctx e s =
     (let (rc, db) = codec_set_btree_to_codec_pagesize (ps_db s) i ctx
      in put_ctx i (if rc \<noteq> SQLITE_OK then sqlcipher_codec_ctx_set_error ctx (e rc) else ctx) (s\<lparr>ps_db := db\<rparr>))"

definition note_error :: "int \<Rightarrow> int \<Rightarrow> codec_ctx \<Rightarrow> codec_ctx" where
  "note_error rc err ctx = (if rc \<noteq> SQLITE_OK then sqlcipher_codec_ctx_set_error ctx err else ctx)"

section \<open>Status of a codec\<close>

definition sqlcipher_version :: bytes where "sqlcipher_version = cstr ''4.15.0 community''"

text \<open>The buffer that \<open>sqlcipher_malloc\<close> returns is not checked: \<open>None\<close>.\<close>

definition sqlcipher_codec_add_random :: "'s provider \<Rightarrow> bytes \<Rightarrow> int \<Rightarrow> 's world \<Rightarrow> (int \<times> 's world) option" where
  "sqlcipher_codec_add_random P zRight random_sz w =
     (let n = random_sz - 3 in
      if n > 0 \<and> sqlite3StrNICmp zRight (cstr ''x'' @ [39]) 2 = 0 \<and> sqlite3StrNICmp (drop (nat (random_sz - 1)) zRight) [39] 1 = 0 \<and> n mod 2 = 0
      then let buffer_sz = n div 2; (ok, w) = w_malloc buffer_sz w in
        if \<not> ok then None
        else let random = cipher_hex2bin (drop 2 zRight) (nat n);
                 (rc, s) = p_add_random P (w_prov w) random
             in Some (rc, w\<lparr>w_prov := s\<rparr>)
      else Some (SQLITE_ERROR, w))"

definition pragma_status ::
    "'s provider \<Rightarrow> 's pragma_env \<Rightarrow> 's pragma_state \<Rightarrow> nat \<Rightarrow> bytes \<Rightarrow> bytes option \<Rightarrow> 's pragma_result \<Rightarrow> 's pragma_result" where
  "pragma_status P E s i zLeft zRight otherwise =
     (if sqlite3_stricmp zLeft ''cipher_fips_status'' = 0 \<and> zRight = None
      then with_ctx s i (\<lambda>ctx. handled [row ''cipher_fips_status'' (int_str (p_fips_status P))] s)
      else if sqlite3_stricmp zLeft ''cipher_status'' = 0 \<and> zRight = None
      then handled [row ''cipher_status'' (case ps_ctx s i of Some ctx \<Rightarrow> if cc_error ctx = SQLITE_OK then cstr ''1'' else cstr ''0'' | None \<Rightarrow> cstr ''0'')] s
      else if sqlite3_stricmp zLeft ''cipher_store_pass'' = 0 \<and> zRight \<noteq> None
      then with_ctx s i (\<lambda>ctx. handled [row ''cipher_store_pass'' (cstr ''PRAGMA cipher_store_pass is deprecated, please remove from use'')]
             (put_ctx i (ctx\<lparr>store_pass := of_flag (sqlite3GetBoolean (the zRight) 1)\<rparr>) s))
      else if sqlite3_stricmp zLeft ''cipher_store_pass'' = 0 \<and> zRight = None
      then with_ctx s i (\<lambda>ctx. handled [row ''cipher_store_pass'' (int_str (store_pass ctx))] s)
      else if sqlite3_stricmp zLeft ''cipher_profile'' = 0 \<and> zRight \<noteq> None
      then handled [row ''cipher_profile'' (int_str (pe_profile E (the zRight)))] s
      else if sqlite3_stricmp zLeft ''cipher_add_random'' = 0 \<and> zRight \<noteq> None
      then with_ctx s i (\<lambda>ctx. case sqlcipher_codec_add_random P (the zRight) (int (length (the zRight))) (ps_world s) of None \<Rightarrow> None
             | Some (rc, w) \<Rightarrow> handled [row ''cipher_add_random'' (int_str rc)] (s\<lparr>ps_world := w\<rparr>))
      else if sqlite3_stricmp zLeft ''cipher_migrate'' = 0 \<and> zRight = None
      then with_ctx s i (\<lambda>ctx. case pe_migrate E i s of None \<Rightarrow> None
             | Some (status, s) \<Rightarrow> handled [row ''cipher_migrate'' (int_str status)] s)
      else if sqlite3_stricmp zLeft ''cipher_provider'' = 0 \<and> zRight = None
      then with_ctx s i (\<lambda>ctx. handled [row ''cipher_provider'' (cstr (p_name P))] s)
      else if sqlite3_stricmp zLeft ''cipher_provider_version'' = 0 \<and> zRight = None
      then with_ctx s i (\<lambda>ctx. handled [row ''cipher_provider_version'' (cstr (p_version P))] s)
      else if sqlite3_stricmp zLeft ''cipher_version'' = 0 \<and> zRight = None
      then handled [row ''cipher_version'' sqlcipher_version] s
      else if sqlite3_stricmp zLeft ''cipher'' = 0
      then with_ctx s i (\<lambda>ctx. handled [row ''cipher'' (if zRight \<noteq> None then cstr ''PRAGMA cipher is no longer supported.'' else cstr (p_get_cipher P))] s)
      else if sqlite3_stricmp zLeft ''rekey_cipher'' = 0 \<and> zRight \<noteq> None
      then handled [row ''rekey_cipher'' (cstr ''PRAGMA rekey_cipher is no longer supported.'')] s
      else otherwise)"

section \<open>Iterations\<close>

definition pragma_iterations :: "'s pragma_state \<Rightarrow> nat \<Rightarrow> bytes \<Rightarrow> bytes option \<Rightarrow> 's pragma_result \<Rightarrow> 's pragma_result" where
  "pragma_iterations s i zLeft zRight otherwise =
     (if sqlite3_stricmp zLeft ''cipher_default_kdf_iter'' = 0
      then case zRight of
          Some z \<Rightarrow> with_int z (\<lambda>n. handled [] (put_defaults ((ps_defaults s)\<lparr>default_kdf_iter := n\<rparr>) s))
        | None \<Rightarrow> handled [row ''cipher_default_kdf_iter'' (int_str (default_kdf_iter (ps_defaults s)))] s
      else if sqlite3_stricmp zLeft ''kdf_iter'' = 0
      then with_ctx s i (\<lambda>ctx. case zRight of
          Some z \<Rightarrow> with_int z (\<lambda>n. handled [] (put_ctx i (snd (sqlcipher_codec_ctx_set_kdf_iter ctx n)) s))
        | None \<Rightarrow> handled [row ''kdf_iter'' (int_str (kdf_iter ctx))] s)
      else if sqlite3_stricmp zLeft ''fast_kdf_iter'' = 0
      then with_ctx s i (\<lambda>ctx. case zRight of
          Some z \<Rightarrow> with_int z (\<lambda>n. handled [row ''fast_kdf_iter'' (cstr ''PRAGMA fast_kdf_iter is deprecated, please remove from use'')]
            (put_ctx i (snd (sqlcipher_codec_ctx_set_fast_kdf_iter ctx n)) s))
        | None \<Rightarrow> handled [row ''fast_kdf_iter'' (int_str (fast_kdf_iter ctx))] s)
      else if sqlite3_stricmp zLeft ''rekey_kdf_iter'' = 0 \<and> zRight \<noteq> None
      then handled [row ''rekey_kdf_iter'' (cstr ''PRAGMA rekey_kdf_iter is no longer supported.'')] s
      else otherwise)"

section \<open>The layout of pages\<close>

text \<open>\<open>page_size\<close> without a codec is left to SQLite.\<close>

definition pragma_layout ::
    "'s provider \<Rightarrow> 's pragma_state \<Rightarrow> nat \<Rightarrow> bytes \<Rightarrow> bytes option \<Rightarrow> 's pragma_result \<Rightarrow> 's pragma_result" where
  "pragma_layout P s i zLeft zRight otherwise =
     (if sqlite3_stricmp zLeft ''page_size'' = 0 \<or> sqlite3_stricmp zLeft ''cipher_page_size'' = 0
      then case ps_ctx s i of None \<Rightarrow> Some (0, [], s)
        | Some ctx \<Rightarrow> (case zRight of
              Some z \<Rightarrow> with_int z (\<lambda>sz.
                let (rc, ctx, w) = sqlcipher_codec_ctx_set_pagesize ctx sz (ps_world s)
                in handled [] (set_btree i (note_error rc rc ctx) (\<lambda>rc. rc) (s\<lparr>ps_world := w\<rparr>)))
            | None \<Rightarrow> handled [row ''cipher_page_size'' (int_str (page_sz ctx))] s)
      else if sqlite3_stricmp zLeft ''cipher_default_page_size'' = 0
      then case zRight of
          Some z \<Rightarrow> with_int z (\<lambda>n. handled [] (put_defaults ((ps_defaults s)\<lparr>default_page_size := n\<rparr>) s))
        | None \<Rightarrow> handled [row ''cipher_default_page_size'' (int_str (default_page_size (ps_defaults s)))] s
      else if sqlite3_stricmp zLeft ''cipher_default_use_hmac'' = 0
      then case zRight of
          Some z \<Rightarrow> handled [] (put_defaults (sqlcipher_set_default_use_hmac (sqlite3GetBoolean z 1) (ps_defaults s)) s)
        | None \<Rightarrow> handled [row ''cipher_default_use_hmac'' (int_str (of_flag (FLAG_GET (default_flags (ps_defaults s)) CIPHER_FLAG_HMAC)))] s
      else if sqlite3_stricmp zLeft ''cipher_use_hmac'' = 0
      then with_ctx s i (\<lambda>ctx. case zRight of
          Some z \<Rightarrow>
            let (rc, ctx) = sqlcipher_codec_ctx_set_use_hmac P ctx (sqlite3GetBoolean z 1) (ps_world s)
            in handled [] (set_btree i (note_error rc rc ctx) (\<lambda>rc. rc) s)
        | None \<Rightarrow> handled [row ''cipher_use_hmac'' (int_str (of_flag (FLAG_GET (cc_flags ctx) CIPHER_FLAG_HMAC)))] s)
      else otherwise)"

section \<open>Page numbers, masks, headers and salts\<close>

definition hmac_pgno_flags :: "bytes \<Rightarrow> u32 \<Rightarrow> u32" where
  "hmac_pgno_flags z f =
     (if sqlite3_stricmp z ''le'' = 0 then FLAG_SET (FLAG_UNSET f CIPHER_FLAG_BE_PGNO) CIPHER_FLAG_LE_PGNO
      else if sqlite3_stricmp z ''be'' = 0 then FLAG_SET (FLAG_UNSET f CIPHER_FLAG_LE_PGNO) CIPHER_FLAG_BE_PGNO
      else if sqlite3_stricmp z ''native'' = 0 then FLAG_UNSET (FLAG_UNSET f CIPHER_FLAG_LE_PGNO) CIPHER_FLAG_BE_PGNO
      else f)"

text \<open>A blob literal \<open>x'..'\<close> of \<open>n\<close> bytes.\<close>

definition blob_literal :: "bytes \<Rightarrow> nat \<Rightarrow> bool" where
  "blob_literal z n \<longleftrightarrow> sqlite3StrNICmp z (cstr ''x'' @ [39]) 2 = 0 \<and> length z = n * 2 + 3"

text \<open>The memory for the salt, and for its digits, is not checked: \<open>None\<close>.\<close>

definition pragma_salt ::
    "'s provider \<Rightarrow> 's pragma_state \<Rightarrow> nat \<Rightarrow> codec_ctx \<Rightarrow> bytes option \<Rightarrow> 's pragma_result" where
  "pragma_salt P s i ctx zRight =
     (case zRight of
        Some z \<Rightarrow>
          if blob_literal z 16
          then let (ok, w) = w_malloc FILE_HEADER_SZ (ps_world s) in
            if \<not> ok then None
            else let salt = cipher_hex2bin (drop 2 z) 32 in
              handled [] (put_ctx i (snd (sqlcipher_codec_ctx_set_kdf_salt ctx salt FILE_HEADER_SZ)) (s\<lparr>ps_world := w\<rparr>))
          else handled [] s
      | None \<Rightarrow>
          let (ok, w) = w_malloc (FILE_HEADER_SZ * 2 + 1) (ps_world s);
              (rc, salt, ctx, w) = sqlcipher_codec_ctx_get_kdf_salt P ctx w in
          if rc = SQLITE_OK
          then if \<not> ok then None
            else handled [row ''cipher_salt'' (take 32 (cipher_bin2hex (take 16 salt)))] (put_ctx i ctx (s\<lparr>ps_world := w\<rparr>))
          else handled [] (put_ctx i (sqlcipher_codec_ctx_set_error ctx rc) (s\<lparr>ps_world := w\<rparr>)))"

definition pragma_header ::
    "'s provider \<Rightarrow> 's pragma_state \<Rightarrow> nat \<Rightarrow> bytes \<Rightarrow> bytes option \<Rightarrow> 's pragma_result \<Rightarrow> 's pragma_result" where
  "pragma_header P s i zLeft zRight otherwise =
     (if sqlite3_stricmp zLeft ''cipher_hmac_pgno'' = 0
      then with_ctx s i (\<lambda>ctx. case zRight of
          Some z \<Rightarrow> handled [row ''cipher_hmac_pgno'' (cstr ''PRAGMA cipher_hmac_pgno is deprecated, please remove from use'')]
            (put_ctx i (ctx\<lparr>cc_flags := hmac_pgno_flags z (cc_flags ctx)\<rparr>) s)
        | None \<Rightarrow> handled [row ''cipher_hmac_pgno'' (if FLAG_GET (cc_flags ctx) CIPHER_FLAG_LE_PGNO then cstr ''le''
            else if FLAG_GET (cc_flags ctx) CIPHER_FLAG_BE_PGNO then cstr ''be'' else cstr ''native'')] s)
      else if sqlite3_stricmp zLeft ''cipher_hmac_salt_mask'' = 0
      then with_ctx s i (\<lambda>ctx. case zRight of
          Some z \<Rightarrow> handled [row ''cipher_hmac_salt_mask'' (cstr ''PRAGMA cipher_hmac_salt_mask is deprecated, please remove from use'')]
            (if blob_literal z 1 then put_defaults ((ps_defaults s)\<lparr>hmac_salt_mask := hd (cipher_hex2bin (drop 2 z) 2)\<rparr>) s else s)
        | None \<Rightarrow> let m = hmac_salt_mask (ps_defaults s)
            in handled [row ''cipher_hmac_salt_mask'' [hex_digit (drop_bit 4 m), hex_digit (m AND 15)]] s)
      else if sqlite3_stricmp zLeft ''cipher_plaintext_header_size'' = 0
      then with_ctx s i (\<lambda>ctx. case zRight of
          Some z \<Rightarrow> with_int z (\<lambda>n. handled [] (put_ctx i (snd (sqlcipher_codec_ctx_set_plaintext_header_size ctx n)) s))
        | None \<Rightarrow> handled [row ''cipher_plaintext_header_size'' (int_str (plaintext_header_sz ctx))] s)
      else if sqlite3_stricmp zLeft ''cipher_default_plaintext_header_size'' = 0
      then case zRight of
          Some z \<Rightarrow> with_int z (\<lambda>n. handled [] (put_defaults ((ps_defaults s)\<lparr>default_plaintext_header_size := n\<rparr>) s))
        | None \<Rightarrow> handled [row ''cipher_default_plaintext_header_size'' (int_str (default_plaintext_header_size (ps_defaults s)))] s
      else if sqlite3_stricmp zLeft ''cipher_salt'' = 0
      then with_ctx s i (\<lambda>ctx. pragma_salt P s i ctx zRight)
      else otherwise)"

section \<open>Algorithms\<close>

definition hmac_label :: "int \<Rightarrow> bytes option" where
  "hmac_label a = (if a = SQLCIPHER_HMAC_SHA1 then Some (cstr ''HMAC_SHA1'') else if a = SQLCIPHER_HMAC_SHA256 then Some (cstr ''HMAC_SHA256'')
     else if a = SQLCIPHER_HMAC_SHA512 then Some (cstr ''HMAC_SHA512'') else None)"

definition hmac_of_label :: "bytes \<Rightarrow> int option" where
  "hmac_of_label z = (if sqlite3_stricmp z ''HMAC_SHA1'' = 0 then Some SQLCIPHER_HMAC_SHA1
     else if sqlite3_stricmp z ''HMAC_SHA256'' = 0 then Some SQLCIPHER_HMAC_SHA256
     else if sqlite3_stricmp z ''HMAC_SHA512'' = 0 then Some SQLCIPHER_HMAC_SHA512 else None)"

definition kdf_label :: "int \<Rightarrow> bytes option" where
  "kdf_label a = (if a = SQLCIPHER_PBKDF2_HMAC_SHA1 then Some (cstr ''PBKDF2_HMAC_SHA1'')
     else if a = SQLCIPHER_PBKDF2_HMAC_SHA256 then Some (cstr ''PBKDF2_HMAC_SHA256'')
     else if a = SQLCIPHER_PBKDF2_HMAC_SHA512 then Some (cstr ''PBKDF2_HMAC_SHA512'') else None)"

definition kdf_of_label :: "bytes \<Rightarrow> int option" where
  "kdf_of_label z = (if sqlite3_stricmp z ''PBKDF2_HMAC_SHA1'' = 0 then Some SQLCIPHER_PBKDF2_HMAC_SHA1
     else if sqlite3_stricmp z ''PBKDF2_HMAC_SHA256'' = 0 then Some SQLCIPHER_PBKDF2_HMAC_SHA256
     else if sqlite3_stricmp z ''PBKDF2_HMAC_SHA512'' = 0 then Some SQLCIPHER_PBKDF2_HMAC_SHA512 else None)"

definition label_row :: "string \<Rightarrow> bytes option \<Rightarrow> row list" where
  "label_row label v = (case v of None \<Rightarrow> [] | Some z \<Rightarrow> [row label z])"

definition pragma_algorithms ::
    "'s provider \<Rightarrow> 's pragma_state \<Rightarrow> nat \<Rightarrow> bytes \<Rightarrow> bytes option \<Rightarrow> 's pragma_result \<Rightarrow> 's pragma_result" where
  "pragma_algorithms P s i zLeft zRight otherwise =
     (if sqlite3_stricmp zLeft ''cipher_hmac_algorithm'' = 0
      then with_ctx s i (\<lambda>ctx. case zRight of
          Some z \<Rightarrow>
            let (rc, ctx) = (case hmac_of_label z of None \<Rightarrow> (SQLITE_ERROR, ctx)
                             | Some a \<Rightarrow> sqlcipher_codec_ctx_set_hmac_algorithm P ctx a (ps_world s))
            in handled [] (set_btree i (note_error rc SQLITE_ERROR ctx) (\<lambda>_. SQLITE_ERROR) s)
        | None \<Rightarrow> handled (label_row ''cipher_hmac_algorithm'' (hmac_label (hmac_algorithm ctx))) s)
      else if sqlite3_stricmp zLeft ''cipher_default_hmac_algorithm'' = 0
      then case zRight of
          Some z \<Rightarrow> handled [] (case hmac_of_label z of None \<Rightarrow> s | Some a \<Rightarrow> put_defaults ((ps_defaults s)\<lparr>default_hmac_algorithm := a\<rparr>) s)
        | None \<Rightarrow> handled (label_row ''cipher_default_hmac_algorithm'' (hmac_label (default_hmac_algorithm (ps_defaults s)))) s
      else if sqlite3_stricmp zLeft ''cipher_kdf_algorithm'' = 0
      then with_ctx s i (\<lambda>ctx. case zRight of
          Some z \<Rightarrow>
            let (rc, ctx) = (case kdf_of_label z of None \<Rightarrow> (SQLITE_ERROR, ctx) | Some a \<Rightarrow> sqlcipher_codec_ctx_set_kdf_algorithm ctx a)
            in handled [] (put_ctx i (note_error rc SQLITE_ERROR ctx) s)
        | None \<Rightarrow> handled (label_row ''cipher_kdf_algorithm'' (kdf_label (kdf_algorithm ctx))) s)
      else if sqlite3_stricmp zLeft ''cipher_default_kdf_algorithm'' = 0
      then case zRight of
          Some z \<Rightarrow> handled [] (case kdf_of_label z of None \<Rightarrow> s | Some a \<Rightarrow> put_defaults ((ps_defaults s)\<lparr>default_kdf_algorithm := a\<rparr>) s)
        | None \<Rightarrow> handled (label_row ''cipher_default_kdf_algorithm'' (kdf_label (default_kdf_algorithm (ps_defaults s)))) s
      else otherwise)"

section \<open>Compatibility\<close>

text \<open>The page size, algorithms, iterations and use of HMAC of the versions 1, 2, 3 and all others.\<close>

definition compat_values :: "int \<Rightarrow> int \<times> int \<times> int \<times> int \<times> bool" where
  "compat_values version =
     (if version = 1 then (1024, SQLCIPHER_HMAC_SHA1, SQLCIPHER_PBKDF2_HMAC_SHA1, 4000, False)
      else if version = 2 then (1024, SQLCIPHER_HMAC_SHA1, SQLCIPHER_PBKDF2_HMAC_SHA1, 4000, True)
      else if version = 3 then (1024, SQLCIPHER_HMAC_SHA1, SQLCIPHER_PBKDF2_HMAC_SHA1, 64000, True)
      else (4096, SQLCIPHER_HMAC_SHA512, SQLCIPHER_PBKDF2_HMAC_SHA512, 256000, True))"

definition set_compatibility :: "'s provider \<Rightarrow> codec_ctx \<Rightarrow> int \<Rightarrow> 's world \<Rightarrow> codec_ctx \<times> 's world" where
  "set_compatibility P ctx version w =
     (let (pg, hmac, kdf, iter, use_hmac) = compat_values version;
          (rc, ctx, w) = sqlcipher_codec_ctx_set_pagesize ctx pg w;
          ctx = note_error rc SQLITE_ERROR ctx;
          (rc, ctx) = sqlcipher_codec_ctx_set_hmac_algorithm P ctx hmac w;
          ctx = note_error rc SQLITE_ERROR ctx;
          (rc, ctx) = sqlcipher_codec_ctx_set_kdf_algorithm ctx kdf;
          ctx = note_error rc SQLITE_ERROR ctx;
          (rc, ctx) = sqlcipher_codec_ctx_set_kdf_iter ctx iter;
          ctx = note_error rc SQLITE_ERROR ctx;
          (rc, ctx) = sqlcipher_codec_ctx_set_use_hmac P ctx use_hmac w;
          ctx = note_error rc SQLITE_ERROR ctx
      in (ctx, w))"

definition default_compatibility :: "int \<Rightarrow> codec_defaults \<Rightarrow> codec_defaults" where
  "default_compatibility version d =
     (let (pg, hmac, kdf, iter, use_hmac) = compat_values version
      in sqlcipher_set_default_use_hmac use_hmac
           (d\<lparr>default_page_size := pg, default_hmac_algorithm := hmac, default_kdf_algorithm := kdf, default_kdf_iter := iter\<rparr>))"

definition pragma_compatibility ::
    "'s provider \<Rightarrow> 's pragma_state \<Rightarrow> nat \<Rightarrow> bytes \<Rightarrow> bytes option \<Rightarrow> 's pragma_result \<Rightarrow> 's pragma_result" where
  "pragma_compatibility P s i zLeft zRight otherwise =
     (if sqlite3_stricmp zLeft ''cipher_compatibility'' = 0
      then with_ctx s i (\<lambda>ctx. case zRight of
          Some z \<Rightarrow> with_int z (\<lambda>version. let (ctx, w) = set_compatibility P ctx version (ps_world s)
            in handled [] (set_btree i ctx (\<lambda>_. SQLITE_ERROR) (s\<lparr>ps_world := w\<rparr>)))
        | None \<Rightarrow> handled [] s)
      else if sqlite3_stricmp zLeft ''cipher_default_compatibility'' = 0
      then case zRight of
          Some z \<Rightarrow> with_int z (\<lambda>version. handled [] (put_defaults (default_compatibility version (ps_defaults s)) s))
        | None \<Rightarrow> handled [] s
      else otherwise)"

section \<open>Listings, checks and the log\<close>

text \<open>One line of the listings: a pragma that sets the value.\<close>

definition setting_row :: "string \<Rightarrow> bytes \<Rightarrow> row" where
  "setting_row name value = row ''pragma'' (cstr ''PRAGMA '' @ cstr name @ cstr '' = '' @ value @ cstr '';'')"

definition setting_label_row :: "string \<Rightarrow> bytes option \<Rightarrow> row" where
  "setting_label_row name v = (case v of None \<Rightarrow> (cstr ''pragma'', None) | Some z \<Rightarrow> setting_row name z)"

definition cipher_settings :: "codec_ctx \<Rightarrow> row list" where
  "cipher_settings ctx =
     [setting_row ''kdf_iter'' (int_str (kdf_iter ctx)),
      setting_row ''cipher_page_size'' (int_str (page_sz ctx)),
      setting_row ''cipher_use_hmac'' (int_str (of_flag (FLAG_GET (cc_flags ctx) CIPHER_FLAG_HMAC))),
      setting_row ''cipher_plaintext_header_size'' (int_str (plaintext_header_sz ctx)),
      setting_label_row ''cipher_hmac_algorithm'' (hmac_label (hmac_algorithm ctx)),
      setting_label_row ''cipher_kdf_algorithm'' (kdf_label (kdf_algorithm ctx))]"

definition cipher_default_settings :: "codec_defaults \<Rightarrow> row list" where
  "cipher_default_settings d =
     [setting_row ''cipher_default_kdf_iter'' (int_str (default_kdf_iter d)),
      setting_row ''cipher_default_page_size'' (int_str (default_page_size d)),
      setting_row ''cipher_default_use_hmac'' (int_str (of_flag (FLAG_GET (default_flags d) CIPHER_FLAG_HMAC))),
      setting_row ''cipher_default_plaintext_header_size'' (int_str (default_plaintext_header_size d)),
      setting_label_row ''cipher_default_hmac_algorithm'' (hmac_label (default_hmac_algorithm d)),
      setting_label_row ''cipher_default_kdf_algorithm'' (kdf_label (default_kdf_algorithm d))]"

definition SQLCIPHER_LOG_NONE :: u32 where "SQLCIPHER_LOG_NONE = 0"
definition SQLCIPHER_LOG_ANY :: u32 where "SQLCIPHER_LOG_ANY = 0xffffffff"

definition log_levels :: "(u32 \<times> string) list" where
  "log_levels = [(1, ''ERROR''), (2, ''WARN''), (4, ''INFO''), (8, ''DEBUG''), (16, ''TRACE'')]"

definition log_sources :: "(u32 \<times> string) list" where
  "log_sources = [(1, ''CORE''), (2, ''MEMORY''), (4, ''MUTEX''), (8, ''PROVIDER'')]"

definition log_level_of :: "bytes \<Rightarrow> u32" where
  "log_level_of z = (case find (\<lambda>(v, n). sqlite3_stricmp z n = 0) log_levels of Some (v, _) \<Rightarrow> v | None \<Rightarrow> SQLCIPHER_LOG_NONE)"

definition sqlcipher_get_log_level_str :: "u32 \<Rightarrow> bytes" where
  "sqlcipher_get_log_level_str level =
     (case map_of log_levels level of Some n \<Rightarrow> cstr n | None \<Rightarrow> if level = SQLCIPHER_LOG_ANY then cstr ''ANY'' else cstr ''NONE'')"

definition sqlcipher_get_log_source_str :: "u32 \<Rightarrow> bytes" where
  "sqlcipher_get_log_source_str source =
     (if source = SQLCIPHER_LOG_NONE then cstr ''NONE'' else case map_of log_sources source of Some n \<Rightarrow> cstr n | None \<Rightarrow> cstr ''ANY'')"

text \<open>The loop shifts a flag out of its 32 bits; \<open>sources\<close> is \<open>None\<close> until the first that is set.\<close>

definition sqlcipher_get_log_sources_str :: "u32 \<Rightarrow> bytes option" where
  "sqlcipher_get_log_sources_str source =
     (if source = SQLCIPHER_LOG_NONE then Some (cstr ''NONE'')
      else if source = SQLCIPHER_LOG_ANY then Some (cstr ''ANY'')
      else fold (\<lambda>k sources. let flag = push_bit k (1 :: u32) in
          if source AND flag \<noteq> 0
          then case sources of Some z \<Rightarrow> Some (z @ cstr '' '' @ sqlcipher_get_log_source_str flag) | None \<Rightarrow> Some (sqlcipher_get_log_source_str flag)
          else sources) [0..<32] None)"

definition log_source_of :: "bytes \<Rightarrow> u32 \<Rightarrow> u32" where
  "log_source_of z source =
     (if sqlite3_stricmp z ''NONE'' = 0 then SQLCIPHER_LOG_NONE
      else if sqlite3_stricmp z ''ANY'' = 0 then SQLCIPHER_LOG_ANY
      else case find (\<lambda>(v, n). sqlite3_stricmp z n = 0) log_sources of Some (v, _) \<Rightarrow> FLAG_SET source v | None \<Rightarrow> source)"

definition pragma_listings ::
    "'s provider \<Rightarrow> 's pragma_env \<Rightarrow> 's pragma_state \<Rightarrow> nat \<Rightarrow> bytes \<Rightarrow> bytes option \<Rightarrow> 's pragma_result \<Rightarrow> 's pragma_result" where
  "pragma_listings P E s i zLeft zRight otherwise =
     (if sqlite3_stricmp zLeft ''cipher_memory_security'' = 0
      then case zRight of
          Some z \<Rightarrow> handled [] (if sqlite3GetBoolean z 1 then s\<lparr>ps_mem_security_on := True\<rparr> else s)
        | None \<Rightarrow> handled [row ''cipher_memory_security'' (int_str (of_flag (ps_mem_security_on s \<and> ps_mem_executed s)))] s
      else if sqlite3_stricmp zLeft ''cipher_settings'' = 0 then with_ctx s i (\<lambda>ctx. handled (cipher_settings ctx) s)
      else if sqlite3_stricmp zLeft ''cipher_default_settings'' = 0 then handled (cipher_default_settings (ps_defaults s)) s
      else if sqlite3_stricmp zLeft ''cipher_integrity_check'' = 0
      then with_ctx s i (\<lambda>ctx. case sqlcipher_codec_ctx_integrity_check P (pe_file E i) ctx (ps_world s) of None \<Rightarrow> None
             | Some (rc, rows, ctx, w) \<Rightarrow> handled rows (put_ctx i ctx (s\<lparr>ps_world := w\<rparr>)))
      else if sqlite3_stricmp zLeft ''cipher_log_level'' = 0
      then let s = (case zRight of Some z \<Rightarrow> s\<lparr>ps_log_level := log_level_of z\<rparr> | None \<Rightarrow> s)
           in handled [row ''cipher_log_level'' (sqlcipher_get_log_level_str (ps_log_level s))] s
      else if sqlite3_stricmp zLeft ''cipher_log_source'' = 0
      then let s = (case zRight of Some z \<Rightarrow> s\<lparr>ps_log_source := log_source_of z (ps_log_source s)\<rparr> | None \<Rightarrow> s)
           in handled [(cstr ''cipher_log_source'', sqlcipher_get_log_sources_str (ps_log_source s))] s
      else if sqlite3_stricmp zLeft ''cipher_log'' = 0 \<and> zRight \<noteq> None
      then handled [row ''cipher_log'' (int_str (pe_set_log E (the zRight)))] s
      else otherwise)"

section \<open>All pragmas\<close>

definition sqlcipher_codec_pragma ::
    "'s provider \<Rightarrow> 's pragma_env \<Rightarrow> 's pragma_state \<Rightarrow> nat \<Rightarrow> bytes \<Rightarrow> bytes option \<Rightarrow> 's pragma_result" where
  "sqlcipher_codec_pragma P E s i zLeft zRight =
     pragma_status P E s i zLeft zRight (
     pragma_iterations s i zLeft zRight (
     pragma_layout P s i zLeft zRight (
     pragma_header P s i zLeft zRight (
     pragma_algorithms P s i zLeft zRight (
     pragma_compatibility P s i zLeft zRight (
     pragma_listings P E s i zLeft zRight (Some (0, [], s))))))))"

fun pragmas :: "'s provider \<Rightarrow> 's pragma_env \<Rightarrow> nat \<Rightarrow> (bytes \<times> bytes option) list \<Rightarrow> 's pragma_state \<Rightarrow> 's pragma_state option" where
  "pragmas P E i [] s = Some s"
| "pragmas P E i ((zLeft, zRight) # ps) s =
     (case sqlcipher_codec_pragma P E s i zLeft zRight of None \<Rightarrow> None | Some (_, _, s) \<Rightarrow> pragmas P E i ps s)"

section \<open>Names\<close>

text \<open>Comparison of literals.\<close>

lemma stricmp_simps [simp]:
  "sqlite3_stricmp [] [] = 0"
  "sqlite3_stricmp (c # z) [] = 0 \<longleftrightarrow> c = 0"
  "sqlite3_stricmp [] (d # s) = 0 \<longleftrightarrow> (of_char d :: byte) = 0"
  "c \<noteq> 0 \<Longrightarrow> sqlite3_stricmp (c # z) (d # s) = 0 \<longleftrightarrow> UpperToLower c = UpperToLower (of_char d) \<and> sqlite3_stricmp z s = 0"
  by (auto simp: sqlite3_stricmp_def sqlite3StrICmp.simps Let_def ch_def)

lemmas pragma_defs = sqlcipher_codec_pragma_def pragma_status_def pragma_iterations_def pragma_layout_def pragma_header_def pragma_algorithms_def
  pragma_compatibility_def pragma_listings_def

section \<open>The context of a connection\<close>

text \<open>The connection has a database \<open>i\<close>; after a change it has the context that was put there.\<close>

definition has_db :: "'s pragma_state \<Rightarrow> nat \<Rightarrow> bool" where "has_db s i \<longleftrightarrow> i < length (aDb (ps_db s))"

lemma put_ctx_simps [simp]:
  "has_db s i \<Longrightarrow> ps_ctx (put_ctx i ctx s) i = Some ctx" "has_db (put_ctx i ctx s) j = has_db s j" "ps_world (put_ctx i ctx s) = ps_world s"
  by (simp_all add: has_db_def ps_ctx_def put_ctx_def sqlcipherPagerGetCodec_def)

lemma put_ctx_bts [simp]: "has_db s i \<Longrightarrow> db_bts (aDb (ps_db (put_ctx i ctx s)) ! j) = db_bts (aDb (ps_db s) ! j)"
  by (cases "j = i") (simp_all add: put_ctx_def has_db_def)

lemma other_state_simps [simp]:
  "ps_ctx (s\<lparr>ps_world := w\<rparr>) i = ps_ctx s i" "has_db (s\<lparr>ps_world := w\<rparr>) i = has_db s i" "ps_ctx (put_defaults d s) i = ps_ctx s i"
  "has_db (put_defaults d s) i = has_db s i" "ps_world (put_defaults d s) = (ps_world s)\<lparr>w_defaults := d\<rparr>" "ps_db (put_defaults d s) = ps_db s"
  "ps_ctx (s\<lparr>ps_mem_security_on := b\<rparr>) i = ps_ctx s i" "has_db (s\<lparr>ps_mem_security_on := b\<rparr>) i = has_db s i"
  "ps_ctx (s\<lparr>ps_log_level := l\<rparr>) i = ps_ctx s i" "has_db (s\<lparr>ps_log_level := l\<rparr>) i = has_db s i"
  "ps_ctx (s\<lparr>ps_log_source := l\<rparr>) i = ps_ctx s i" "has_db (s\<lparr>ps_log_source := l\<rparr>) i = has_db s i"
  by (simp_all add: ps_ctx_def has_db_def put_defaults_def)

lemma set_btree_ctx:
  assumes "has_db s i"
  shows "\<exists>rc. ps_ctx (set_btree i ctx e s) i = Some (note_error rc (e rc) ctx)" "has_db (set_btree i ctx e s) i"
    "ps_world (set_btree i ctx e s) = ps_world s"
proof -
  obtain rc t where 1: "codec_set_btree_to_codec_pagesize (ps_db s) i ctx =
      (rc, (ps_db s)\<lparr>nextPagesize := page_sz ctx, aDb := (aDb (ps_db s))[i := (aDb (ps_db s) ! i)\<lparr>db_bts := t\<rparr>]\<rparr>)"
    by (cases "sqlite3BtreeSetPageSize (db_bts (aDb (ps_db s) ! i)\<lparr>bts_btsFlags := bts_btsFlags (db_bts (aDb (ps_db s) ! i)) AND NOT BTS_PAGESIZE_FIXED\<rparr>)
      (page_sz ctx) (reserve_sz ctx) False") (simp add: codec_set_btree_to_codec_pagesize_def Let_def)
  have "set_btree i ctx e s = put_ctx i (note_error rc (e rc) ctx)
      (s\<lparr>ps_db := (ps_db s)\<lparr>nextPagesize := page_sz ctx, aDb := (aDb (ps_db s))[i := (aDb (ps_db s) ! i)\<lparr>db_bts := t\<rparr>]\<rparr>\<rparr>)"
    by (simp add: set_btree_def 1 note_error_def)
  moreover have "has_db (s\<lparr>ps_db := (ps_db s)\<lparr>nextPagesize := page_sz ctx, aDb := (aDb (ps_db s))[i := (aDb (ps_db s) ! i)\<lparr>db_bts := t\<rparr>]\<rparr>\<rparr>) i"
    using assms by (simp add: has_db_def)
  ultimately show "\<exists>rc. ps_ctx (set_btree i ctx e s) i = Some (note_error rc (e rc) ctx)" "has_db (set_btree i ctx e s) i"
    "ps_world (set_btree i ctx e s) = ps_world s" by auto
qed

text \<open>When the pager takes any page size there is no error.\<close>

definition pager_takes :: "'s pragma_state \<Rightarrow> nat \<Rightarrow> bool" where
  "pager_takes s i \<longleftrightarrow> (\<forall>n r. fst (bts_setPagesize (db_bts (aDb (ps_db s) ! i)) n r) = SQLITE_OK)"

lemma pager_takes_simps [simp]:
  "has_db s i \<Longrightarrow> pager_takes (put_ctx i c s) i = pager_takes s i" "pager_takes (s\<lparr>ps_world := w\<rparr>) i = pager_takes s i"
  by (simp_all add: pager_takes_def)

lemma set_page_size_result:
  assumes "bts_btsFlags t AND BTS_PAGESIZE_FIXED = 0" "\<forall>n r. fst (bts_setPagesize t n r) = SQLITE_OK"
  shows "\<exists>t'. sqlite3BtreeSetPageSize t n r False = (SQLITE_OK, t') \<and> bts_setPagesize t' = bts_setPagesize t"
  using assms by (auto simp: sqlite3BtreeSetPageSize_def Let_def split: prod.split) (metis fst_conv)+

lemma set_btree_ok:
  assumes s: "has_db s i" "pager_takes s i"
  shows "ps_ctx (set_btree i ctx e s) i = Some ctx" "pager_takes (set_btree i ctx e s) i"
proof -
  let ?t = "(db_bts (aDb (ps_db s) ! i))\<lparr>bts_btsFlags := bts_btsFlags (db_bts (aDb (ps_db s) ! i)) AND NOT BTS_PAGESIZE_FIXED\<rparr>"
  have "bts_btsFlags ?t AND BTS_PAGESIZE_FIXED = 0" by (intro bit_word_eqI) (simp add: bit_simps)
  moreover have "\<forall>n r. fst (bts_setPagesize ?t n r) = SQLITE_OK" using s(2) by (simp add: pager_takes_def)
  ultimately obtain t where t: "sqlite3BtreeSetPageSize ?t (page_sz ctx) (reserve_sz ctx) False = (SQLITE_OK, t)" "bts_setPagesize t = bts_setPagesize ?t"
    using set_page_size_result by blast
  have 1: "codec_set_btree_to_codec_pagesize (ps_db s) i ctx =
      (SQLITE_OK, (ps_db s)\<lparr>nextPagesize := page_sz ctx, aDb := (aDb (ps_db s))[i := (aDb (ps_db s) ! i)\<lparr>db_bts := t\<rparr>]\<rparr>)"
    using t(1) by (simp add: codec_set_btree_to_codec_pagesize_def Let_def)
  let ?s = "s\<lparr>ps_db := (ps_db s)\<lparr>nextPagesize := page_sz ctx, aDb := (aDb (ps_db s))[i := (aDb (ps_db s) ! i)\<lparr>db_bts := t\<rparr>]\<rparr>\<rparr>"
  have "set_btree i ctx e s = put_ctx i ctx ?s" by (simp add: set_btree_def 1)
  moreover have "has_db ?s i" "pager_takes ?s i" using s t(2) by (simp_all add: has_db_def pager_takes_def)
  ultimately show "ps_ctx (set_btree i ctx e s) i = Some ctx" "pager_takes (set_btree i ctx e s) i" by simp_all
qed

section \<open>A key in use\<close>

text \<open>
  Once a key has been used the keys of both cipher contexts are derived and the salt is known.  What a pragma may not
  change then: the format of the pages, what keys are derived with, and the keys.
\<close>

definition locked :: "codec_ctx \<Rightarrow> bool" where
  "locked ctx \<longleftrightarrow> FLAG_GET (cc_flags ctx) CIPHER_FLAG_KEY_USED \<and> FLAG_GET (cc_flags ctx) CIPHER_FLAG_HAS_KDF_SALT \<and>
     derive_key (read_ctx ctx) = 0 \<and> derive_key (write_ctx ctx) = 0"

definition cipher_keys :: "cipher_ctx \<Rightarrow> int \<times> bytes \<times> bytes" where
  "cipher_keys c = (derive_key c, ck_key c, ck_hmac_key c)"

definition same_lock :: "codec_ctx \<Rightarrow> codec_ctx \<Rightarrow> bool" where
  "same_lock a b \<longleftrightarrow> page_sz b = page_sz a \<and> reserve_sz b = reserve_sz a \<and> hmac_algorithm b = hmac_algorithm a \<and> kdf_algorithm b = kdf_algorithm a \<and>
     kdf_iter b = kdf_iter a \<and> fast_kdf_iter b = fast_kdf_iter a \<and> plaintext_header_sz b = plaintext_header_sz a \<and> kdf_salt b = kdf_salt a \<and>
     cc_flags b = cc_flags a \<and> cipher_keys (read_ctx b) = cipher_keys (read_ctx a) \<and> cipher_keys (write_ctx b) = cipher_keys (write_ctx a)"

lemma same_lock_refl [simp]: "same_lock a a" by (simp add: same_lock_def)

lemma same_lock_trans [trans]: "same_lock a b \<Longrightarrow> same_lock b c \<Longrightarrow> same_lock a c" by (simp add: same_lock_def)

lemma same_lock_locked: "same_lock a b \<Longrightarrow> locked a \<Longrightarrow> locked b" by (simp add: same_lock_def locked_def cipher_keys_def)

lemma same_lock_upd [simp]:
  "same_lock a (note_error rc e b) = same_lock a b" "same_lock a (sqlcipher_codec_ctx_set_error b e) = same_lock a b"
  "same_lock a (b\<lparr>cc_buffer := buf\<rparr>) = same_lock a b" "same_lock a (b\<lparr>store_pass := k\<rparr>) = same_lock a b"
  by (simp_all add: same_lock_def note_error_def sqlcipher_codec_ctx_set_error_def)

lemma locked_settings:
  assumes "locked ctx"
  shows "sqlcipher_codec_ctx_set_pagesize ctx n w = (SQLITE_OK, ctx, w)" "sqlcipher_codec_ctx_set_kdf_iter ctx n = (SQLITE_OK, ctx)"
    "sqlcipher_codec_ctx_set_fast_kdf_iter ctx n = (SQLITE_OK, ctx)" "sqlcipher_codec_ctx_set_use_hmac P ctx b w = (SQLITE_OK, ctx)"
    "sqlcipher_codec_ctx_set_hmac_algorithm P ctx a w = (SQLITE_OK, ctx)" "sqlcipher_codec_ctx_set_kdf_algorithm ctx a = (SQLITE_OK, ctx)"
    "sqlcipher_codec_ctx_set_kdf_salt ctx salt m = (SQLITE_OK, ctx)" "sqlcipher_codec_ctx_get_kdf_salt P ctx w = (SQLITE_OK, kdf_salt ctx, ctx, w)"
  using assms by (simp_all add: locked_def sqlcipher_codec_ctx_set_pagesize_def sqlcipher_codec_ctx_set_kdf_iter_def
      sqlcipher_codec_ctx_set_fast_kdf_iter_def sqlcipher_codec_ctx_set_use_hmac_def sqlcipher_codec_ctx_set_hmac_algorithm_def
      sqlcipher_codec_ctx_set_kdf_algorithm_def sqlcipher_codec_ctx_set_kdf_salt_def sqlcipher_codec_ctx_get_kdf_salt_def)

lemma locked_compatibility: "locked ctx \<Longrightarrow> set_compatibility P ctx v w = (ctx, w)"
  by (simp add: set_compatibility_def locked_settings note_error_def split: prod.split)

text \<open>The result of a pragma keeps what is locked in database \<open>i\<close>, and the mask for the salt of the process.\<close>

definition keeps_lock :: "codec_ctx \<Rightarrow> byte \<Rightarrow> nat \<Rightarrow> 's pragma_result \<Rightarrow> bool" where
  "keeps_lock ctx m i r \<longleftrightarrow> (case r of None \<Rightarrow> True
     | Some (_, _, s) \<Rightarrow> has_db s i \<and> hmac_salt_mask (ps_defaults s) = m \<and> (\<exists>b. ps_ctx s i = Some b \<and> same_lock ctx b))"

lemma keeps_lock_simps [simp]:
  "keeps_lock ctx m i None"
  "keeps_lock ctx m i (Some (k, rows, s)) = (has_db s i \<and> hmac_salt_mask (ps_defaults s) = m \<and> (\<exists>b. ps_ctx s i = Some b \<and> same_lock ctx b))"
  "keeps_lock ctx m i (handled rows s) = (has_db s i \<and> hmac_salt_mask (ps_defaults s) = m \<and> (\<exists>b. ps_ctx s i = Some b \<and> same_lock ctx b))"
  by (simp_all add: keeps_lock_def handled_def)

lemma keeps_lock_with:
  "ps_ctx s i = Some ctx \<Longrightarrow> keeps_lock a m i (f ctx) \<Longrightarrow> keeps_lock a m i (with_ctx s i f)"
  "(\<And>n. keeps_lock a m i (g n)) \<Longrightarrow> keeps_lock a m i (with_int z g)"
  by (simp_all add: with_ctx_def with_int_def split: option.split)

lemma keeps_lock_btree:
  assumes "has_db s i" "same_lock a ctx"
  shows "has_db (set_btree i ctx e s) i" "\<exists>b. ps_ctx (set_btree i ctx e s) i = Some b \<and> same_lock a b"
  using set_btree_ctx [OF assms(1), of ctx e] assms(2) by auto

lemma keeps_lock_if: "(c \<Longrightarrow> keeps_lock a m i x) \<Longrightarrow> (\<not> c \<Longrightarrow> keeps_lock a m i y) \<Longrightarrow> keeps_lock a m i (if c then x else y)"
  by simp

text \<open>Allocating, adding to the generator and checking pages change nothing that is locked.\<close>

lemma w_malloc_defaults: "w_malloc n w = (b, w') \<Longrightarrow> w_defaults w' = w_defaults w"
  using heap_onlyD(4) [OF w_malloc_result(1)] .

lemma add_random_defaults: "sqlcipher_codec_add_random P z n w = Some (rc, w') \<Longrightarrow> w_defaults w' = w_defaults w"
  using w_malloc_defaults by (auto simp: sqlcipher_codec_add_random_def Let_def split: if_splits prod.splits)

lemma lock_codec_key_derive:
  assumes "locked ctx" "sqlcipher_codec_key_derive P ctx w = (rc, ctx', w')"
  shows "same_lock ctx ctx'" "w' = w"
proof -
  have "same_lock ctx (ctx\<lparr>read_ctx := (read_ctx ctx)\<lparr>pass := None, pass_sz := 0\<rparr>, write_ctx := (write_ctx ctx)\<lparr>pass := None, pass_sz := 0\<rparr>\<rparr>)"
    by (simp add: same_lock_def cipher_keys_def)
  then show "same_lock ctx ctx'" "w' = w" using assms
    by (auto simp: sqlcipher_codec_key_derive_def derive_read_ctx_def derive_write_ctx_def locked_def set_pass_none split: if_splits)
qed

lemma lock_ic_page: "ic_page P f ok ctx page w = Some (rows, ctx', w') \<Longrightarrow> same_lock ctx ctx' \<and> w_defaults w' = w_defaults w"
  by (auto simp: ic_page_def sqlcipher_page_hmac_def Let_def split: if_splits option.splits prod.splits)

lemma lock_ic_pages: "ic_pages P f ok n ctx page w = Some (rows, ctx', w') \<Longrightarrow> same_lock ctx ctx' \<and> w_defaults w' = w_defaults w"
proof (induction n arbitrary: ctx page w rows)
  case (Suc n)
  then obtain r c v q where "ic_page P f ok ctx page w = Some (r, c, v)" "ic_pages P f ok n c (page + 1) v = Some (q, ctx', w')"
    by (auto split: option.splits prod.splits)
  with Suc.IH [OF this(2)] lock_ic_page [OF this(1)] show ?case using same_lock_trans by auto
qed simp

lemma lock_integrity_check:
  assumes l: "locked ctx" and r: "sqlcipher_codec_ctx_integrity_check P f ctx w = Some (rc, rows, ctx', w')"
  shows "same_lock ctx ctx' \<and> w_defaults w' = w_defaults w"
proof -
  obtain r1 x1 w1 where 1: "sqlcipher_codec_key_derive P ctx w = (r1, x1, w1)" by (rule prod_cases3)
  note d = lock_codec_key_derive [OF l 1]
  obtain ok w2 where 2: "w_malloc (hmac_sz x1) w1 = (ok, w2)" by (rule prod.exhaust)
  have "w_defaults w2 = w_defaults w" using w_malloc_defaults [OF 2] d(2) by simp
  then show ?thesis using r 1 2 d lock_ic_pages same_lock_trans [OF d(1)]
    by (fastforce simp: sqlcipher_codec_ctx_integrity_check_def Let_def split: if_splits option.splits prod.splits)
qed

text \<open>Each group of pragmas.\<close>

lemma lock_status:
  assumes s: "has_db s i" "ps_ctx s i = Some ctx" "hmac_salt_mask (ps_defaults s) = k" and m: "sqlite3_stricmp zLeft ''cipher_migrate'' \<noteq> 0" and r: "keeps_lock ctx k i r"
  shows "keeps_lock ctx k i (pragma_status P E s i zLeft zRight r)"
  unfolding pragma_status_def
  by (intro keeps_lock_if keeps_lock_with(1) [OF s(2)]) (use s m r in \<open>auto simp: add_random_defaults split: option.splits\<close>)

lemma lock_iterations:
  assumes s: "has_db s i" "ps_ctx s i = Some ctx" "hmac_salt_mask (ps_defaults s) = k" "locked ctx" and r: "keeps_lock ctx k i r"
  shows "keeps_lock ctx k i (pragma_iterations s i zLeft zRight r)"
  unfolding pragma_iterations_def
  by (intro keeps_lock_if keeps_lock_with(1) [OF s(2)]) (use s r in \<open>simp_all add: locked_settings keeps_lock_with(2) split: option.splits\<close>)

lemma lock_layout:
  assumes s: "has_db s i" "ps_ctx s i = Some ctx" "hmac_salt_mask (ps_defaults s) = k" "locked ctx" and r: "keeps_lock ctx k i r"
  shows "keeps_lock ctx k i (pragma_layout P s i zLeft zRight r)"
  unfolding pragma_layout_def
  by (intro keeps_lock_if keeps_lock_with(1) [OF s(2)])
    (use s r in \<open>simp_all add: locked_settings keeps_lock_with(2) keeps_lock_btree(2) set_btree_ctx(2,3) sqlcipher_set_default_use_hmac_def split: option.splits\<close>)

lemma lock_header:
  assumes s: "has_db s i" "ps_ctx s i = Some ctx" "hmac_salt_mask (ps_defaults s) = k" "locked ctx" and r: "keeps_lock ctx k i r"
    and m: "sqlite3_stricmp zLeft ''cipher_hmac_pgno'' \<noteq> 0" "sqlite3_stricmp zLeft ''cipher_plaintext_header_size'' \<noteq> 0"
      "sqlite3_stricmp zLeft ''cipher_hmac_salt_mask'' \<noteq> 0"
  shows "keeps_lock ctx k i (pragma_header P s i zLeft zRight r)"
proof -
  have salt: "keeps_lock ctx k i (pragma_salt P s i ctx zRight)"
    using s by (auto simp: pragma_salt_def locked_settings Let_def dest: w_malloc_defaults split: option.splits prod.splits)
  show ?thesis unfolding pragma_header_def
    by (intro keeps_lock_if keeps_lock_with(1) [OF s(2)])
      (use s m r salt in \<open>simp_all add: locked_settings keeps_lock_with(2) Let_def split: option.splits\<close>)
qed

lemma lock_algorithms:
  assumes s: "has_db s i" "ps_ctx s i = Some ctx" "hmac_salt_mask (ps_defaults s) = k" "locked ctx" and r: "keeps_lock ctx k i r"
  shows "keeps_lock ctx k i (pragma_algorithms P s i zLeft zRight r)"
  unfolding pragma_algorithms_def
  by (intro keeps_lock_if keeps_lock_with(1) [OF s(2)])
    (use s r in \<open>simp_all add: locked_settings keeps_lock_btree(2) set_btree_ctx(2,3) split: option.splits\<close>)

lemma lock_compatibility:
  assumes s: "has_db s i" "ps_ctx s i = Some ctx" "hmac_salt_mask (ps_defaults s) = k" "locked ctx" and r: "keeps_lock ctx k i r"
  shows "keeps_lock ctx k i (pragma_compatibility P s i zLeft zRight r)"
proof -
  have "hmac_salt_mask (default_compatibility v d) = hmac_salt_mask d" for v d
    by (simp add: default_compatibility_def sqlcipher_set_default_use_hmac_def split: prod.split)
  then show ?thesis unfolding pragma_compatibility_def
    by (intro keeps_lock_if keeps_lock_with(1) [OF s(2)])
      (use s r in \<open>simp_all add: locked_compatibility keeps_lock_with(2) keeps_lock_btree(2) set_btree_ctx(2,3) split: option.splits\<close>)
qed

lemma lock_listings:
  assumes s: "has_db s i" "ps_ctx s i = Some ctx" "hmac_salt_mask (ps_defaults s) = k" "locked ctx" and r: "keeps_lock ctx k i r"
  shows "keeps_lock ctx k i (pragma_listings P E s i zLeft zRight r)"
  unfolding pragma_listings_def
  by (intro keeps_lock_if keeps_lock_with(1) [OF s(2)])
    (use s r in \<open>auto simp: Let_def dest: lock_integrity_check [OF s(4)] split: option.splits\<close>)

text \<open>The four pragmas that do not look whether a key is in use.\<close>

definition unguarded :: "bytes \<Rightarrow> bool" where
  "unguarded zLeft \<longleftrightarrow> (\<exists>n \<in> {''cipher_migrate'', ''cipher_hmac_pgno'', ''cipher_plaintext_header_size'', ''cipher_hmac_salt_mask''}.
     sqlite3_stricmp zLeft n = 0)"

lemma pragma_keeps_lock:
  assumes "has_db s i" "ps_ctx s i = Some ctx" "hmac_salt_mask (ps_defaults s) = k" "locked ctx" "\<not> unguarded zLeft"
  shows "keeps_lock ctx k i (sqlcipher_codec_pragma P E s i zLeft zRight)"
  unfolding sqlcipher_codec_pragma_def
  by (intro lock_status lock_iterations lock_layout lock_header lock_algorithms lock_compatibility lock_listings assms)
    (use assms in \<open>simp_all add: unguarded_def\<close>)

section \<open>Properties\<close>


text \<open>A connection with one database.\<close>

definition sample_env :: "'s pragma_env" where
  "sample_env = \<lparr>pe_file = (\<lambda>_. sample_file), pe_profile = (\<lambda>_. 0), pe_migrate = (\<lambda>_ s. Some (0, s)), pe_set_log = (\<lambda>_. 0)\<rparr>"

definition sample_state :: "codec_ctx \<Rightarrow> ltc_state pragma_state" where
  "sample_state ctx = \<lparr>ps_db = \<lparr>aDb = [sample_entry (Attached ctx)], nextPagesize = 0\<rparr>, ps_world = sample_world, ps_mem_security_on = False,
     ps_mem_executed = False, ps_log_level = 0, ps_log_source = 0\<rparr>"

lemma sample_state_simps [simp]:
  "has_db (sample_state ctx) 0" "ps_ctx (sample_state ctx) 0 = Some ctx" "ps_world (sample_state ctx) = sample_world"
  by (simp_all add: sample_state_def has_db_def ps_ctx_def sample_entry_def sqlcipherPagerGetCodec_def)

text \<open>A context whose key has been used.\<close>

definition used_ctx :: codec_ctx where
  "used_ctx = sample_ctx\<lparr>cc_flags := FLAG_SET (FLAG_SET 0 CIPHER_FLAG_KEY_USED) CIPHER_FLAG_HAS_KDF_SALT,
     read_ctx := sample_cipher_ctx\<lparr>derive_key := 0\<rparr>, write_ctx := sample_cipher_ctx\<lparr>derive_key := 0\<rparr>\<rparr>"

lemma used_ctx_locked: "locked used_ctx"
  by (simp add: locked_def used_ctx_def)


end
