(* ===== verification/Settings.thy ===== *)
theory Settings
  imports Pragma
begin

text \<open>
  Pragmas that set several settings at once: \<open>cipher_compatibility\<close>, and the listing of \<open>cipher_settings\<close> replayed
  on another connection.
\<close>

unbundle bit_operations_syntax

section \<open>Compatibility\<close>

lemma compat_values_ok:
  assumes "compat_values v = (pg, hmac, kdf, iter, u)"
  shows "page_ok pg" "alg_ok hmac" "alg_ok kdf"
proof -
  have "page_ok 1024" "page_ok 4096" by (auto simp: page_ok_def intro: exI [of _ 10] exI [of _ 12])
  then show "page_ok pg" "alg_ok hmac" "alg_ok kdf"
    using assms by (auto simp: compat_values_def alg_ok_def algorithm_defs split: if_splits)
qed

lemma reserve_setup_form: "\<exists>a b. sqlcipher_codec_ctx_reserve_setup P ctx w = (SQLITE_OK, ctx\<lparr>hmac_sz := a, reserve_sz := b\<rparr>)"
  by (simp add: sqlcipher_codec_ctx_reserve_setup_def Let_def) blast

lemma set_compatibility_fresh:
  assumes up: "ltc_up (w_prov w)" and room: "plenty (w_heap w)" and d: "defaults_set d" and f: "fresh_ctx d key ctx"
  shows "\<exists>ctx' w'. set_compatibility sqlcipher_ltc_setup ctx v w = (ctx', w') \<and> heap_only w w' \<and>
    fresh_ctx (default_compatibility v d) key ctx' \<and> cc_error ctx' = cc_error ctx"
proof -
  have wf: "ltc_wf ctx" and se: "settled d ctx" using f by (simp_all add: fresh_ctx_def)
  have nk: "\<not> bit (cc_flags ctx) 3" using d se by (simp add: defaults_set_def settled_def)
  obtain pg hmac kdf iter u where cv: "compat_values v = (pg, hmac, kdf, iter, u)" by (rule prod_cases5)
  note ok = compat_values_ok [OF cv]
  obtain rc x1 w1 where 1: "sqlcipher_codec_ctx_set_pagesize ctx pg w = (rc, x1, w1)" by (rule prod_cases3)
  have rc: "rc = SQLITE_OK" by (rule pagesize_accepted [OF nk ok(1) room 1])
  have x1: "x1 = ctx\<lparr>page_sz := pg, cc_buffer := Some (replicate (nat pg) 0)\<rparr>"
    by (rule ltc.pagesize_cases [OF nk 1]) (use rc in simp_all)
  have h1: "heap_only w w1" by (rule pagesize_heap [OF 1])
  have up1: "ltc_up (w_prov w1)" using up heap_onlyD(1) [OF h1] by simp
  have wf1: "ltc_wf x1" using ltc.pagesize_wf [OF wf 1] rc by simp
  obtain rc2 x2 where 2: "sqlcipher_codec_ctx_set_hmac_algorithm sqlcipher_ltc_setup x1 hmac w1 = (rc2, x2)" by (rule prod.exhaust)
  have r2: "rc2 = SQLITE_OK" and wf2: "ltc_wf x2" using ltc.hmac_algorithm_wf [OF up1 wf1 ok(2) 2] by simp_all
  obtain a b where x2: "x2 = x1\<lparr>hmac_algorithm := hmac, hmac_sz := a, reserve_sz := b\<rparr>"
    using 2 nk reserve_setup_form [of sqlcipher_ltc_setup "x1\<lparr>hmac_algorithm := hmac\<rparr>" w1]
    by (auto simp: sqlcipher_codec_ctx_set_hmac_algorithm_def x1)
  let ?x3 = "x2\<lparr>kdf_algorithm := kdf\<rparr>"
  have 3: "sqlcipher_codec_ctx_set_kdf_algorithm x2 kdf = (SQLITE_OK, ?x3)" using nk by (simp add: sqlcipher_codec_ctx_set_kdf_algorithm_def x2 x1)
  have wf3: "ltc_wf ?x3" using ltc.other_settings_wf(1) [OF wf2 ok(3) 3] by simp
  define x4 where "x4 = sqlcipher_set_derive_key (?x3\<lparr>kdf_iter := iter\<rparr>) 1"
  have f4: "cc_flags x4 = cc_flags ctx" by (simp add: x4_def sqlcipher_set_derive_key_def x2 x1)
  have 4: "sqlcipher_codec_ctx_set_kdf_iter ?x3 iter = (SQLITE_OK, x4)" using nk by (simp add: sqlcipher_codec_ctx_set_kdf_iter_def x2 x1 x4_def)
  have wf4: "ltc_wf x4" using ltc.other_settings_wf(2) [OF wf3 4] by simp
  obtain rc5 x5 where 5: "sqlcipher_codec_ctx_set_use_hmac sqlcipher_ltc_setup x4 u w1 = (rc5, x5)" by (rule prod.exhaust)
  have r5: "rc5 = SQLITE_OK" and wf5: "ltc_wf x5" using ltc.use_hmac_wf [OF up1 wf4 5] by simp_all
  obtain k l where x5: "x5 = x4\<lparr>cc_flags := (if u then FLAG_SET (cc_flags x4) CIPHER_FLAG_HMAC else FLAG_UNSET (cc_flags x4) CIPHER_FLAG_HMAC),
      hmac_sz := k, reserve_sz := l\<rparr>"
    using 5 nk reserve_setup_form [of sqlcipher_ltc_setup
      "x4\<lparr>cc_flags := if u then FLAG_SET (cc_flags x4) CIPHER_FLAG_HMAC else FLAG_UNSET (cc_flags x4) CIPHER_FLAG_HMAC\<rparr>" w1]
    by (auto simp: sqlcipher_codec_ctx_set_use_hmac_def f4)
  have fd: "cc_flags x4 = default_flags d" using f4 se by (simp add: settled_def)
  have "set_compatibility sqlcipher_ltc_setup ctx v w = (x5, w1)"
    using rc r2 r5 by (simp add: set_compatibility_def cv 1 2 3 4 5 note_error_def)
  moreover have "fresh_ctx (default_compatibility v d) key x5" "cc_error x5 = cc_error ctx"
    using wf5 f by (simp_all add: fresh_ctx_def settled_def default_compatibility_def cv sqlcipher_set_default_use_hmac_def x5 fd)
      (simp_all add: x4_def sqlcipher_set_derive_key_def x2 x1)
  ultimately show ?thesis using h1 by blast
qed

lemma compatibility_dispatch:
  "sqlcipher_codec_pragma P E s i (cstr ''cipher_compatibility'') (Some z) =
     with_ctx s i (\<lambda>ctx. with_int z (\<lambda>version. let (ctx, w) = set_compatibility P ctx version (ps_world s)
            in handled [] (set_btree i ctx (\<lambda>_. SQLITE_ERROR) (s\<lparr>ps_world := w\<rparr>))))"
  "sqlcipher_codec_pragma P E s i (cstr ''cipher_default_compatibility'') (Some z) =
     with_int z (\<lambda>version. handled [] (put_defaults (default_compatibility version (ps_defaults s)) s))"
  by (simp_all add: pragma_defs UpperToLower_def)

section \<open>Replaying the settings\<close>

text \<open>The pragmas that \<open>cipher_settings\<close> lists, as name and value.\<close>

definition setting_pragmas :: "codec_ctx \<Rightarrow> (string \<times> bytes) list" where
  "setting_pragmas a = [(''kdf_iter'', int_str (kdf_iter a)), (''cipher_page_size'', int_str (page_sz a)),
     (''cipher_use_hmac'', int_str (of_flag (FLAG_GET (cc_flags a) CIPHER_FLAG_HMAC))),
     (''cipher_plaintext_header_size'', int_str (plaintext_header_sz a)),
     (''cipher_hmac_algorithm'', the (hmac_label (hmac_algorithm a))), (''cipher_kdf_algorithm'', the (kdf_label (kdf_algorithm a)))]"

lemma labels:
  assumes "alg_ok a"
  shows "\<exists>z. hmac_label a = Some z \<and> hmac_of_label z = Some a" "\<exists>z. kdf_label a = Some z \<and> kdf_of_label z = Some a"
  using assms by (auto simp: alg_ok_def hmac_label_def hmac_of_label_def kdf_label_def kdf_of_label_def algorithm_defs UpperToLower_def)

lemma settings_dispatch:
  "sqlcipher_codec_pragma P E s i (cstr ''kdf_iter'') (Some z) =
     with_ctx s i (\<lambda>ctx. with_int z (\<lambda>n. handled [] (put_ctx i (snd (sqlcipher_codec_ctx_set_kdf_iter ctx n)) s)))"
  "sqlcipher_codec_pragma P E s i (cstr ''cipher_use_hmac'') (Some z) =
     with_ctx s i (\<lambda>ctx. let (rc, ctx) = sqlcipher_codec_ctx_set_use_hmac P ctx (sqlite3GetBoolean z 1) (ps_world s)
            in handled [] (set_btree i (note_error rc rc ctx) (\<lambda>rc. rc) s))"
  by (simp_all add: pragma_defs UpperToLower_def)

lemma page_size_dispatch:
  "sqlcipher_codec_pragma P E s i (cstr ''cipher_page_size'') (Some z) =
     (case ps_ctx s i of None \<Rightarrow> Some (0, [], s) | Some ctx \<Rightarrow> with_int z (\<lambda>sz.
        let (rc, ctx, w) = sqlcipher_codec_ctx_set_pagesize ctx sz (ps_world s)
        in handled [] (set_btree i (note_error rc rc ctx) (\<lambda>rc. rc) (s\<lparr>ps_world := w\<rparr>))))"
  by (simp add: pragma_defs UpperToLower_def split: option.split)

lemma settings_dispatch2:
  "sqlcipher_codec_pragma P E s i (cstr ''cipher_plaintext_header_size'') (Some z) =
     with_ctx s i (\<lambda>ctx. with_int z (\<lambda>n. handled [] (put_ctx i (snd (sqlcipher_codec_ctx_set_plaintext_header_size ctx n)) s)))"
  "sqlcipher_codec_pragma P E s i (cstr ''cipher_hmac_algorithm'') (Some z) =
     with_ctx s i (\<lambda>ctx. let (rc, ctx) = (case hmac_of_label z of None \<Rightarrow> (SQLITE_ERROR, ctx)
                             | Some a \<Rightarrow> sqlcipher_codec_ctx_set_hmac_algorithm P ctx a (ps_world s))
            in handled [] (set_btree i (note_error rc SQLITE_ERROR ctx) (\<lambda>_. SQLITE_ERROR) s))"
  "sqlcipher_codec_pragma P E s i (cstr ''cipher_kdf_algorithm'') (Some z) =
     with_ctx s i (\<lambda>ctx. let (rc, ctx) = (case kdf_of_label z of None \<Rightarrow> (SQLITE_ERROR, ctx) | Some a \<Rightarrow> sqlcipher_codec_ctx_set_kdf_algorithm ctx a)
            in handled [] (put_ctx i (note_error rc SQLITE_ERROR ctx) s))"
  by (simp_all add: pragma_defs UpperToLower_def)

text \<open>A connection whose settings can be changed.\<close>

definition open_conn :: "ltc_state pragma_state \<Rightarrow> nat \<Rightarrow> codec_ctx \<Rightarrow> bool" where
  "open_conn s i b \<longleftrightarrow> has_db s i \<and> pager_takes s i \<and> ps_ctx s i = Some b \<and> ltc_up (w_prov (ps_world s)) \<and> plenty (w_heap (ps_world s)) \<and>
     ltc_wf b \<and> \<not> bit (cc_flags b) 3"

lemma open_put: "open_conn s i b \<Longrightarrow> ltc_wf c \<Longrightarrow> \<not> bit (cc_flags c) 3 \<Longrightarrow> open_conn (put_ctx i c s) i c"
  by (simp add: open_conn_def)

lemma open_btree:
  assumes "open_conn s i b" "ltc_wf c" "\<not> bit (cc_flags c) 3" "heap_only (ps_world s) w"
  shows "open_conn (set_btree i c e (s\<lparr>ps_world := w\<rparr>)) i c"
  using assms set_btree_ok [of "s\<lparr>ps_world := w\<rparr>" i c e] set_btree_ctx(2,3) [of "s\<lparr>ps_world := w\<rparr>" i c e] heap_onlyD(1,5) [OF assms(4)]
  by (simp add: open_conn_def)

lemma replay_kdf_iter:
  assumes "open_conn s i b" "- (2 ^ 31) \<le> n" "n < 2 ^ 31"
  shows "\<exists>s'. sqlcipher_codec_pragma sqlcipher_ltc_setup E s i (cstr ''kdf_iter'') (Some (int_str n)) = Some (1, [], s') \<and>
    open_conn s' i (sqlcipher_set_derive_key (b\<lparr>kdf_iter := n\<rparr>) 1)"
proof -
  have b: "ps_ctx s i = Some b" "ltc_wf b" "\<not> bit (cc_flags b) 3" using assms(1) by (simp_all add: open_conn_def)
  have e: "sqlcipher_codec_ctx_set_kdf_iter b n = (SQLITE_OK, sqlcipher_set_derive_key (b\<lparr>kdf_iter := n\<rparr>) 1)"
    using b(3) by (simp add: sqlcipher_codec_ctx_set_kdf_iter_def)
  have w: "ltc_wf (sqlcipher_set_derive_key (b\<lparr>kdf_iter := n\<rparr>) 1)" "\<not> bit (cc_flags (sqlcipher_set_derive_key (b\<lparr>kdf_iter := n\<rparr>) 1)) 3"
    using ltc.other_settings_wf(2) [OF b(2) e] b(3) by (simp_all add: sqlcipher_set_derive_key_def)
  show ?thesis using open_put [OF assms(1) w] unfolding settings_dispatch(1) by (simp add: with_ctx_def with_int_def handled_def b(1) atoi_int_str [OF assms(2,3)] e)
qed

lemma replay_page_size:
  assumes "open_conn s i b" "page_ok n"
  shows "\<exists>s'. sqlcipher_codec_pragma sqlcipher_ltc_setup E s i (cstr ''cipher_page_size'') (Some (int_str n)) = Some (1, [], s') \<and>
    open_conn s' i (b\<lparr>page_sz := n, cc_buffer := Some (replicate (nat n) 0)\<rparr>)"
proof -
  have b: "ps_ctx s i = Some b" "ltc_wf b" "\<not> bit (cc_flags b) 3" "plenty (w_heap (ps_world s))" using assms(1) by (simp_all add: open_conn_def)
  have r: "- (2 ^ 31) \<le> n" "n < 2 ^ 31" using page_ok_accepted(2,3) [OF assms(2)] by simp_all
  obtain rc c w where 1: "sqlcipher_codec_ctx_set_pagesize b n (ps_world s) = (rc, c, w)" by (rule prod_cases3)
  have rc: "rc = SQLITE_OK" by (rule pagesize_accepted [OF b(3) assms(2) b(4) 1])
  have c: "c = b\<lparr>page_sz := n, cc_buffer := Some (replicate (nat n) 0)\<rparr>" by (rule ltc.pagesize_cases [OF b(3) 1]) (use rc in simp_all)
  have w: "ltc_wf c" "\<not> bit (cc_flags c) 3" using ltc.pagesize_wf [OF b(2) 1] rc b(3) by (simp_all add: c)
  show ?thesis using open_btree [OF assms(1) w pagesize_heap(1) [OF 1], of "\<lambda>rc. rc"] unfolding page_size_dispatch
    by (simp add: with_int_def handled_def b(1) atoi_int_str [OF r] 1 rc note_error_def c)
qed

lemma replay_use_hmac:
  assumes "open_conn s i b"
  shows "\<exists>s' x y. sqlcipher_codec_pragma sqlcipher_ltc_setup E s i (cstr ''cipher_use_hmac'') (Some (int_str (of_flag u))) = Some (1, [], s') \<and>
    open_conn s' i (b\<lparr>cc_flags := (if u then FLAG_SET (cc_flags b) CIPHER_FLAG_HMAC else FLAG_UNSET (cc_flags b) CIPHER_FLAG_HMAC), hmac_sz := x, reserve_sz := y\<rparr>)"
proof -
  have b: "ps_ctx s i = Some b" "ltc_wf b" "\<not> bit (cc_flags b) 3" "ltc_up (w_prov (ps_world s))" using assms(1) by (simp_all add: open_conn_def)
  let ?b = "b\<lparr>cc_flags := if u then FLAG_SET (cc_flags b) CIPHER_FLAG_HMAC else FLAG_UNSET (cc_flags b) CIPHER_FLAG_HMAC\<rparr>"
  obtain x y where xy: "sqlcipher_codec_ctx_reserve_setup sqlcipher_ltc_setup ?b (ps_world s) = (SQLITE_OK, ?b\<lparr>hmac_sz := x, reserve_sz := y\<rparr>)"
    using reserve_setup_form by blast
  let ?c = "?b\<lparr>hmac_sz := x, reserve_sz := y\<rparr>"
  have e: "sqlcipher_codec_ctx_set_use_hmac sqlcipher_ltc_setup b u (ps_world s) = (SQLITE_OK, ?c)"
    using b(3) xy by (simp add: sqlcipher_codec_ctx_set_use_hmac_def)
  have w: "ltc_wf ?c" using ltc.use_hmac_wf [OF b(4,2) e] by simp
  have g: "sqlite3GetBoolean (int_str (of_flag u)) 1 = u" by (cases u) (simp_all add: of_flag_def)
  have k: "\<not> bit (cc_flags ?c) 3" using b(3) by simp
  have "open_conn (set_btree i ?c (\<lambda>rc. rc) s) i ?c" using open_btree [OF assms w k heap_only_refl, of "\<lambda>rc. rc"] by simp
  moreover have "sqlcipher_codec_pragma sqlcipher_ltc_setup E s i (cstr ''cipher_use_hmac'') (Some (int_str (of_flag u))) =
      Some (1, [], set_btree i ?c (\<lambda>rc. rc) s)"
    unfolding settings_dispatch(2) g by (simp add: with_ctx_def handled_def b(1) e note_error_def)
  ultimately show ?thesis by blast
qed

text \<open>The header is checked against the reserve of the moment, and becomes -1 where it is not accepted.\<close>

definition header_accepted :: "codec_ctx \<Rightarrow> int \<Rightarrow> bool" where
  "header_accepted b h \<longleftrightarrow> 0 \<le> h \<and> 16 dvd h \<and> h \<le> page_sz b - reserve_sz b"

lemma replay_header:
  assumes "open_conn s i b" "- (2 ^ 31) \<le> h" "h < 2 ^ 31"
  shows "\<exists>s'. sqlcipher_codec_pragma sqlcipher_ltc_setup E s i (cstr ''cipher_plaintext_header_size'') (Some (int_str h)) = Some (1, [], s') \<and>
    open_conn s' i (b\<lparr>plaintext_header_sz := if header_accepted b h then h else - 1\<rparr>)"
proof -
  have b: "ps_ctx s i = Some b" "ltc_wf b" "\<not> bit (cc_flags b) 3" using assms(1) by (simp_all add: open_conn_def)
  have sz: "block_sz b = 16" using b(2) by (simp add: codec_wf_iff sizes_wf_def)
  let ?c = "b\<lparr>plaintext_header_sz := if header_accepted b h then h else - 1\<rparr>"
  have e: "snd (sqlcipher_codec_ctx_set_plaintext_header_size b h) = ?c"
    using sz by (auto simp: sqlcipher_codec_ctx_set_plaintext_header_size_def header_accepted_def dvd_eq_mod_eq_0)
  have w: "ltc_wf ?c" "\<not> bit (cc_flags ?c) 3" using b(2,3) by (simp_all add: codec_wf_iff)
  show ?thesis using open_put [OF assms(1) w] unfolding settings_dispatch2(1)
    by (simp add: with_ctx_def with_int_def handled_def b(1) atoi_int_str [OF assms(2,3)] e)
qed

lemma replay_hmac_algorithm:
  assumes "open_conn s i b" "alg_ok a"
  shows "\<exists>s' x y. sqlcipher_codec_pragma sqlcipher_ltc_setup E s i (cstr ''cipher_hmac_algorithm'') (Some (the (hmac_label a))) = Some (1, [], s') \<and>
    open_conn s' i (b\<lparr>hmac_algorithm := a, hmac_sz := x, reserve_sz := y\<rparr>)"
proof -
  have b: "ps_ctx s i = Some b" "ltc_wf b" "\<not> bit (cc_flags b) 3" "ltc_up (w_prov (ps_world s))" using assms(1) by (simp_all add: open_conn_def)
  obtain z where z: "hmac_label a = Some z" "hmac_of_label z = Some a" using labels(1) [OF assms(2)] by blast
  let ?b = "b\<lparr>hmac_algorithm := a\<rparr>"
  obtain x y where xy: "sqlcipher_codec_ctx_reserve_setup sqlcipher_ltc_setup ?b (ps_world s) = (SQLITE_OK, ?b\<lparr>hmac_sz := x, reserve_sz := y\<rparr>)"
    using reserve_setup_form by blast
  let ?c = "?b\<lparr>hmac_sz := x, reserve_sz := y\<rparr>"
  have e: "sqlcipher_codec_ctx_set_hmac_algorithm sqlcipher_ltc_setup b a (ps_world s) = (SQLITE_OK, ?c)"
    using b(3) xy by (simp add: sqlcipher_codec_ctx_set_hmac_algorithm_def)
  have w: "ltc_wf ?c" using ltc.hmac_algorithm_wf [OF b(4,2) assms(2) e] by simp
  have k: "\<not> bit (cc_flags ?c) 3" using b(3) by simp
  have "open_conn (set_btree i ?c (\<lambda>_. SQLITE_ERROR) s) i ?c" using open_btree [OF assms(1) w k heap_only_refl, of "\<lambda>_. SQLITE_ERROR"] by simp
  moreover have "sqlcipher_codec_pragma sqlcipher_ltc_setup E s i (cstr ''cipher_hmac_algorithm'') (Some (the (hmac_label a))) =
      Some (1, [], set_btree i ?c (\<lambda>_. SQLITE_ERROR) s)"
    unfolding settings_dispatch2(2) z(1) option.sel by (simp add: with_ctx_def handled_def b(1) z e note_error_def)
  ultimately show ?thesis by blast
qed

lemma replay_kdf_algorithm:
  assumes "open_conn s i b" "alg_ok a"
  shows "\<exists>s'. sqlcipher_codec_pragma sqlcipher_ltc_setup E s i (cstr ''cipher_kdf_algorithm'') (Some (the (kdf_label a))) = Some (1, [], s') \<and>
    open_conn s' i (b\<lparr>kdf_algorithm := a\<rparr>)"
proof -
  have b: "ps_ctx s i = Some b" "ltc_wf b" "\<not> bit (cc_flags b) 3" using assms(1) by (simp_all add: open_conn_def)
  obtain z where z: "kdf_label a = Some z" "kdf_of_label z = Some a" using labels(2) [OF assms(2)] by blast
  have e: "sqlcipher_codec_ctx_set_kdf_algorithm b a = (SQLITE_OK, b\<lparr>kdf_algorithm := a\<rparr>)" using b(3) by (simp add: sqlcipher_codec_ctx_set_kdf_algorithm_def)
  have w: "ltc_wf (b\<lparr>kdf_algorithm := a\<rparr>)" "\<not> bit (cc_flags (b\<lparr>kdf_algorithm := a\<rparr>)) 3" using ltc.other_settings_wf(1) [OF b(2) assms(2) e] b(3) by simp_all
  show ?thesis using open_put [OF assms(1) w] unfolding settings_dispatch2(3) z(1) option.sel
    by (simp add: with_ctx_def handled_def b(1) z e note_error_def)
qed

text \<open>
  All six on a connection.  The header comes before the algorithm in the listing, so what counts is the reserve for the code of the
  algorithm that the second connection had.
\<close>

definition replay_reserve :: "codec_ctx \<Rightarrow> codec_ctx \<Rightarrow> int" where
  "replay_reserve a b = round_up 16 (16 + (if FLAG_GET (cc_flags a) CIPHER_FLAG_HMAC then int (ltc_mac_size (hmac_algorithm b)) else 0))"

lemma replay_settings:
  assumes s: "open_conn s i b" and a: "ltc_wf a" "- (2 ^ 31) \<le> kdf_iter a" "kdf_iter a < 2 ^ 31"
    and h: "- (2 ^ 31) \<le> plaintext_header_sz a" "plaintext_header_sz a < 2 ^ 31"
  shows "\<exists>s' c. pragmas sqlcipher_ltc_setup E i (map (\<lambda>(n, v). (cstr n, Some v)) (setting_pragmas a)) s = Some s' \<and> open_conn s' i c \<and>
    kdf_iter c = kdf_iter a \<and> page_sz c = page_sz a \<and> FLAG_GET (cc_flags c) CIPHER_FLAG_HMAC = FLAG_GET (cc_flags a) CIPHER_FLAG_HMAC \<and>
    plaintext_header_sz c = (if 0 \<le> plaintext_header_sz a \<and> 16 dvd plaintext_header_sz a \<and> plaintext_header_sz a \<le> page_sz a - replay_reserve a b
      then plaintext_header_sz a else - 1) \<and>
    hmac_algorithm c = hmac_algorithm a \<and> kdf_algorithm c = kdf_algorithm a \<and>
    (\<forall>n < 32. n \<noteq> 0 \<longrightarrow> bit (cc_flags c) n = bit (cc_flags b) n) \<and> fast_kdf_iter c = fast_kdf_iter b \<and> cc_error c = cc_error b \<and>
    derive_key (read_ctx c) = 1 \<and> derive_key (write_ctx c) = 1 \<and> pass (read_ctx c) = pass (read_ctx b) \<and> pass (write_ctx c) = pass (write_ctx b)"
proof -
  have pg: "page_ok (page_sz a)" "alg_ok (hmac_algorithm a)" "alg_ok (kdf_algorithm a)" using a(1) by (simp_all add: codec_wf_iff sizes_wf_def)
  let ?u = "FLAG_GET (cc_flags a) CIPHER_FLAG_HMAC"
  obtain s1 where 1: "sqlcipher_codec_pragma sqlcipher_ltc_setup E s i (cstr ''kdf_iter'') (Some (int_str (kdf_iter a))) = Some (1, [], s1)"
    "open_conn s1 i (sqlcipher_set_derive_key (b\<lparr>kdf_iter := kdf_iter a\<rparr>) 1)" using replay_kdf_iter [OF s a(2,3)] by blast
  define b1 where "b1 = sqlcipher_set_derive_key (b\<lparr>kdf_iter := kdf_iter a\<rparr>) 1"
  define b2 where "b2 = b1\<lparr>page_sz := page_sz a, cc_buffer := Some (replicate (nat (page_sz a)) 0)\<rparr>"
  obtain s2 where 2: "sqlcipher_codec_pragma sqlcipher_ltc_setup E s1 i (cstr ''cipher_page_size'') (Some (int_str (page_sz a))) = Some (1, [], s2)"
    "open_conn s2 i b2" using replay_page_size [OF 1(2) pg(1)] unfolding b2_def b1_def by blast
  obtain s3 x y where 3: "sqlcipher_codec_pragma sqlcipher_ltc_setup E s2 i (cstr ''cipher_use_hmac'') (Some (int_str (of_flag ?u))) = Some (1, [], s3)"
    "open_conn s3 i (b2\<lparr>cc_flags := (if ?u then FLAG_SET (cc_flags b2) CIPHER_FLAG_HMAC else FLAG_UNSET (cc_flags b2) CIPHER_FLAG_HMAC), hmac_sz := x, reserve_sz := y\<rparr>)"
    using replay_use_hmac [OF 2(2)] by blast
  define b3 where "b3 = b2\<lparr>cc_flags := (if ?u then FLAG_SET (cc_flags b2) CIPHER_FLAG_HMAC else FLAG_UNSET (cc_flags b2) CIPHER_FLAG_HMAC), hmac_sz := x, reserve_sz := y\<rparr>"
  have "ltc_wf b3" using 3(2) by (simp only: open_conn_def b3_def)
  then have "reserve_sz b3 = reserve_of 16 16 ltc_mac_size b3" by (simp add: codec_wf_iff)
  moreover have "bit (cc_flags b3) 0 = bit (cc_flags a) 0" "hmac_algorithm b3 = hmac_algorithm b"
    by (simp_all add: b3_def b2_def b1_def sqlcipher_set_derive_key_def)
  ultimately have R: "reserve_sz b3 = replay_reserve a b" by (simp add: reserve_of_def replay_reserve_def)
  let ?h = "if header_accepted b3 (plaintext_header_sz a) then plaintext_header_sz a else - 1"
  obtain s4 where 4: "sqlcipher_codec_pragma sqlcipher_ltc_setup E s3 i (cstr ''cipher_plaintext_header_size'') (Some (int_str (plaintext_header_sz a))) = Some (1, [], s4)"
    "open_conn s4 i (b3\<lparr>plaintext_header_sz := ?h\<rparr>)" using replay_header [OF 3(2) [folded b3_def] h(1,2)] by blast
  define b4 where "b4 = b3\<lparr>plaintext_header_sz := ?h\<rparr>"
  obtain s5 k l where 5: "sqlcipher_codec_pragma sqlcipher_ltc_setup E s4 i (cstr ''cipher_hmac_algorithm'') (Some (the (hmac_label (hmac_algorithm a)))) = Some (1, [], s5)"
    "open_conn s5 i (b4\<lparr>hmac_algorithm := hmac_algorithm a, hmac_sz := k, reserve_sz := l\<rparr>)" using replay_hmac_algorithm [OF 4(2) pg(2)] unfolding b4_def by blast
  define b5 where "b5 = b4\<lparr>hmac_algorithm := hmac_algorithm a, hmac_sz := k, reserve_sz := l\<rparr>"
  obtain s6 where 6: "sqlcipher_codec_pragma sqlcipher_ltc_setup E s5 i (cstr ''cipher_kdf_algorithm'') (Some (the (kdf_label (kdf_algorithm a)))) = Some (1, [], s6)"
    "open_conn s6 i (b5\<lparr>kdf_algorithm := kdf_algorithm a\<rparr>)" using replay_kdf_algorithm [OF 5(2) pg(3)] unfolding b5_def by blast
  have p: "pragmas sqlcipher_ltc_setup E i (map (\<lambda>(n, v). (cstr n, Some v)) (setting_pragmas a)) s = Some s6"
    unfolding setting_pragmas_def list.map prod.case pragmas.simps 1(1) 2(1) 3(1) 4(1) 5(1) 6(1) option.case ..
  have f: "\<forall>n < 32. n \<noteq> 0 \<longrightarrow> bit (cc_flags b5) n = bit (cc_flags b) n" "bit (cc_flags b5) 0 = bit (cc_flags a) 0"
    by (simp_all add: b5_def b4_def b3_def b2_def b1_def sqlcipher_set_derive_key_def)
  have g: "page_sz b3 = page_sz a" by (simp add: b3_def b2_def)
  have hd: "plaintext_header_sz b5 = (if 0 \<le> plaintext_header_sz a \<and> 16 dvd plaintext_header_sz a \<and> plaintext_header_sz a \<le> page_sz a - replay_reserve a b
      then plaintext_header_sz a else - 1)" by (simp add: b5_def b4_def header_accepted_def R g)
  have "kdf_iter b5 = kdf_iter a" "page_sz b5 = page_sz a" "hmac_algorithm b5 = hmac_algorithm a"
    "fast_kdf_iter b5 = fast_kdf_iter b" "cc_error b5 = cc_error b" "read_ctx b5 = (read_ctx b)\<lparr>derive_key := 1\<rparr>" "write_ctx b5 = (write_ctx b)\<lparr>derive_key := 1\<rparr>"
    by (simp_all add: b5_def b4_def b3_def b2_def b1_def sqlcipher_set_derive_key_def)
  then show ?thesis using p 6(2) f hd by (intro exI [of _ s6] exI [of _ "b5\<lparr>kdf_algorithm := kdf_algorithm a\<rparr>"]) simp
qed

text \<open>Attaching under the defaults that \<open>cipher_default_compatibility\<close> sets.\<close>

lemma default_compatibility_set: "defaults_set d \<Longrightarrow> defaults_set (default_compatibility v d)"
proof -
  assume d: "defaults_set d"
  obtain pg hmac kdf iter u where cv: "compat_values v = (pg, hmac, kdf, iter, u)" by (rule prod_cases5)
  show ?thesis using d compat_values_ok [OF cv] by (auto simp: default_compatibility_def cv sqlcipher_set_default_use_hmac_def defaults_set_def)
qed

lemma default_compatibility_ok:
  assumes "defaults_set d"
  shows "defaults_ok 16 16 ltc_mac_size (default_compatibility v d) \<longleftrightarrow> 0 \<le> default_plaintext_header_size d \<and> 16 dvd default_plaintext_header_size d \<and>
    default_plaintext_header_size d \<le> (if v = 1 then 1008 else if v = 2 \<or> v = 3 then 976 else 4016)"
proof -
  have "page_ok 1024" "page_ok 4096" by (auto simp: page_ok_def intro: exI [of _ 10] exI [of _ 12])
  then show ?thesis using assms
    by (auto simp: defaults_ok_def default_compatibility_def compat_values_def sqlcipher_set_default_use_hmac_def defaults_set_def alg_ok_def
        algorithm_defs round_up_def)
qed

lemma attach_fresh:
  assumes w: "ltc_up (w_prov w)" "ltc_init (w_prov w) \<noteq> 0" "\<not> l_held (w_prov w)" "plenty (w_heap w)" "defaults_set (w_defaults w)"
    and k: "key \<noteq> []" "length key < 2 ^ 31"
  shows "\<exists>rc r w'. sqlcipher_codec_ctx_init sqlcipher_ltc_setup t (Some key) w = Some (rc, r, w') \<and>
    (if defaults_ok 16 16 ltc_mac_size (w_defaults w) then rc = SQLITE_OK \<and> (\<exists>ctx. r = Some ctx \<and> fresh_ctx (w_defaults w) key ctx)
     else rc = SQLITE_ERROR \<and> r = None)"
proof -
  obtain s where s: "p_ctx_init sqlcipher_ltc_setup (w_prov w) = Some (SQLITE_OK, s)" "ltc_up s"
    using activate_warm [OF w(1-3)] by (auto simp: sqlcipher_ltc_setup_def)
  have "sqlcipher_codec_ctx_init sqlcipher_ltc_setup t (Some key) w \<noteq> None" by (rule codec_ctx_init_returns [OF s(1)])
  then obtain rc r w' where r: "sqlcipher_codec_ctx_init sqlcipher_ltc_setup t (Some key) w = Some (rc, r, w')" by auto
  have len: "length l < 2 ^ 31" if "Some key = Some l" for l using k(2) that by simp
  show ?thesis using ltc.codec_ctx_init_run [OF s w(5) len r] w(4) r k(1) by (auto simp: fresh_ctx_def pass_of_def)
qed

section \<open>Properties\<close>

text \<open>
  C38: \<open>cipher_compatibility\<close> on a connection that has just been given its key, against \<open>cipher_default_compatibility\<close> followed by
  attaching with the same key.  The first leaves the connection with the settings of the new defaults, keys to derive
  from the same passphrase and, if the pager takes the page size, no error.  The second gives a context with the same settings and the same
  passphrase exactly if the default plaintext header is in whole blocks and fits the pages of the version: at most 1008 bytes for version 1, 976 for 2 and 3, 4016 for any
  other.  If it does not fit, attaching fails with \<open>SQLITE_ERROR\<close>, while the connection of the first keeps that header, which
  \<open>cipher_compatibility\<close> does not check against the new page size.
\<close>

theorem compatibility_equivalence:
  assumes "ltc_up (w_prov (ps_world s))" "ltc_init (w_prov (ps_world s)) \<noteq> 0" "\<not> l_held (w_prov (ps_world s))" "plenty (w_heap (ps_world s))"
    "defaults_set (ps_defaults s)" "has_db s i" "ps_ctx s i = Some ctx" "fresh_ctx (ps_defaults s) key ctx" "atoi z = Some version"
  shows "\<exists>s1 s2 ctx1 rc r w'. sqlcipher_codec_pragma sqlcipher_ltc_setup E s i (cstr ''cipher_compatibility'') (Some z) = Some (1, [], s1) \<and>
    sqlcipher_codec_pragma sqlcipher_ltc_setup E s i (cstr ''cipher_default_compatibility'') (Some z) = Some (1, [], s2) \<and>
    sqlcipher_codec_ctx_init sqlcipher_ltc_setup (pBt ctx) (Some key) (ps_world s2) = Some (rc, r, w') \<and>
    ps_ctx s1 i = Some ctx1 \<and> fresh_ctx (ps_defaults s2) key ctx1 \<and> (pager_takes s i \<longrightarrow> cc_error ctx1 = cc_error ctx) \<and>
    (if 0 \<le> plaintext_header_sz ctx \<and> 16 dvd plaintext_header_sz ctx \<and>
        plaintext_header_sz ctx \<le> (if version = 1 then 1008 else if version = 2 \<or> version = 3 then 976 else 4016)
     then rc = SQLITE_OK \<and> (\<exists>ctx2. r = Some ctx2 \<and> fresh_ctx (ps_defaults s2) key ctx2)
     else rc = SQLITE_ERROR \<and> r = None \<and> plaintext_header_sz ctx1 = plaintext_header_sz ctx)"
proof -
  let ?d = "default_compatibility version (ps_defaults s)"
  obtain c w where c: "set_compatibility sqlcipher_ltc_setup ctx version (ps_world s) = (c, w)" "heap_only (ps_world s) w"
    "fresh_ctx ?d key c" "cc_error c = cc_error ctx"
    using set_compatibility_fresh [OF assms(1,4,5,8)] by blast
  let ?s = "s\<lparr>ps_world := w\<rparr>"
  let ?s1 = "set_btree i c (\<lambda>_. SQLITE_ERROR) ?s"
  obtain rc where rc: "ps_ctx ?s1 i = Some (note_error rc SQLITE_ERROR c)" using set_btree_ctx(1) [of ?s i c "\<lambda>_. SQLITE_ERROR"] assms(6) by auto
  have n: "fresh_ctx d key (note_error rc SQLITE_ERROR c) = fresh_ctx d key c" "plaintext_header_sz (note_error rc SQLITE_ERROR c) = plaintext_header_sz c" for d
    by (simp_all add: note_error_def sqlcipher_codec_ctx_set_error_def fresh_ctx_def codec_wf_iff settled_def reserve_of_def sizes_wf_def)
  have e: "note_error rc SQLITE_ERROR c = c" if "pager_takes s i" using set_btree_ok(1) [of ?s i c "\<lambda>_. SQLITE_ERROR"] rc that assms(6) by simp
  let ?s2 = "put_defaults ?d s"
  have s2: "ps_defaults ?s2 = ?d" "w_prov (ps_world ?s2) = w_prov (ps_world s)" "w_heap (ps_world ?s2) = w_heap (ps_world s)"
    by (simp_all add: put_defaults_def)
  have p: "pass (read_ctx ctx) = Some key" "ltc_wf ctx" "plaintext_header_sz ctx = default_plaintext_header_size (ps_defaults s)"
    using assms(8) by (simp_all add: fresh_ctx_def settled_def)
  then have k: "key \<noteq> []" "length key < 2 ^ 31" by (auto simp: codec_wf_iff cipher_ctx_wf_def)
  have h: "default_plaintext_header_size ?d = plaintext_header_sz ctx" "plaintext_header_sz c = plaintext_header_sz ctx"
    using c(3) p(3) by (simp_all add: fresh_ctx_def settled_def default_compatibility_def sqlcipher_set_default_use_hmac_def split: prod.split)
  obtain rc2 r w' where r: "sqlcipher_codec_ctx_init sqlcipher_ltc_setup (pBt ctx) (Some key) (ps_world ?s2) = Some (rc2, r, w')"
    "if defaults_ok 16 16 ltc_mac_size ?d then rc2 = SQLITE_OK \<and> (\<exists>ctx. r = Some ctx \<and> fresh_ctx ?d key ctx) else rc2 = SQLITE_ERROR \<and> r = None"
    using attach_fresh [of "ps_world ?s2" key "pBt ctx", unfolded s2, OF assms(1-4) default_compatibility_set [OF assms(5)] k] by blast
  note o = r(2) [unfolded default_compatibility_ok [OF assms(5)] p(3) [symmetric]]
  have "sqlcipher_codec_pragma sqlcipher_ltc_setup E s i (cstr ''cipher_compatibility'') (Some z) = Some (1, [], ?s1)"
    "sqlcipher_codec_pragma sqlcipher_ltc_setup E s i (cstr ''cipher_default_compatibility'') (Some z) = Some (1, [], ?s2)"
    using c(1) assms(7,9) unfolding compatibility_dispatch by (simp_all add: with_ctx_def with_int_def handled_def)
  then show ?thesis using c(3,4) rc n e r(1) s2(1) h o
    by (intro exI [of _ ?s1] exI [of _ ?s2] exI [of _ "note_error rc SQLITE_ERROR c"] exI [of _ rc2] exI [of _ r] exI [of _ w']) (simp split: if_splits)
qed


text \<open>The context of a connection with the default settings and the passphrase \<open>abc\<close>.\<close>

definition default_ctx :: codec_ctx where
  "default_ctx = sample_ctx\<lparr>page_sz := 4096, cc_buffer := Some (replicate 4096 0)\<rparr>"

lemma default_ctx_ok: "fresh_ctx initial_defaults [97, 98, 99] default_ctx" "open_conn (sample_state default_ctx) 0 default_ctx" "pager_takes (sample_state default_ctx) 0"
proof -
  have "page_ok 4096" by (auto simp: page_ok_def intro: exI [of _ 12])
  then have w: "ltc_wf default_ctx" using sample_wf by (simp add: default_ctx_def codec_wf_iff sizes_wf_def)
  then show "fresh_ctx initial_defaults [97, 98, 99] default_ctx"
    by (simp add: fresh_ctx_def settled_def default_ctx_def sample_ctx_def sample_cipher_ctx_def initial_defaults_def PBKDF2_ITER_def FAST_PBKDF2_ITER_def algorithm_defs)
  show p: "pager_takes (sample_state default_ctx) 0" by (simp add: pager_takes_def sample_state_def sample_entry_def sample_bts_def)
  show "open_conn (sample_state default_ctx) 0 default_ctx" using w p sample_world_ok by (simp add: open_conn_def default_ctx_def sample_ctx_def)
qed

theorem compatibility_equivalence_witness:
  "\<exists>s1 s2 c. sqlcipher_codec_pragma sqlcipher_ltc_setup sample_env (sample_state default_ctx) 0 (cstr ''cipher_compatibility'') (Some (int_str 3)) = Some (1, [], s1) \<and>
     sqlcipher_codec_pragma sqlcipher_ltc_setup sample_env (sample_state default_ctx) 0 (cstr ''cipher_default_compatibility'') (Some (int_str 3)) = Some (1, [], s2) \<and>
     ps_ctx s1 0 = Some c \<and> fresh_ctx (ps_defaults s2) [97, 98, 99] c \<and> cc_error c = SQLITE_OK \<and>
     (\<exists>c2 w'. sqlcipher_codec_ctx_init sqlcipher_ltc_setup (pBt default_ctx) (Some [97, 98, 99]) (ps_world s2) = Some (SQLITE_OK, Some c2, w') \<and>
       fresh_ctx (ps_defaults s2) [97, 98, 99] c2)"
proof -
  have a: "atoi (int_str 3) = Some 3" by (rule atoi_int_str) simp_all
  have d: "defaults_set (ps_defaults (sample_state default_ctx))" "fresh_ctx (ps_defaults (sample_state default_ctx)) [97, 98, 99] default_ctx"
    using default_ctx_ok(1) defaults_ok_set [OF sample_running(3)] sample_running(4) by simp_all
  have w: "ltc_up (w_prov (ps_world (sample_state default_ctx)))" "ltc_init (w_prov (ps_world (sample_state default_ctx))) \<noteq> 0"
    "\<not> l_held (w_prov (ps_world (sample_state default_ctx)))" "plenty (w_heap (ps_world (sample_state default_ctx)))"
    using sample_world_ok sample_running(1,2) by simp_all
  have "cc_error default_ctx = SQLITE_OK" "plaintext_header_sz default_ctx = 0" by (simp_all add: default_ctx_def sample_ctx_def)
  then show ?thesis
    using compatibility_equivalence [OF w d(1) sample_state_simps(1,2) d(2) a, of sample_env] default_ctx_ok(3) by fastforce
qed


end
