(* ===== verification/Rekey.thy ===== *)
theory Rekey
  imports Settings
begin

text \<open>
  Changing the key: \<open>sqlite3_rekey_v2\<close>, which writes every page again with the key of the write context, and the key
  pragmas.
\<close>

unbundle bit_operations_syntax

section \<open>The code\<close>

definition SQLITE_ABORT_ROLLBACK :: int where "SQLITE_ABORT_ROLLBACK = 516"

text \<open>
  The operations of the B-tree and the pager that a rekey uses.  They act on their own state, the codec context of the pager, which
  their calls of the codec change, and the world: \<open>sqlite3BtreeBeginTrans\<close>, \<open>sqlite3PagerPagecount\<close>, the page of the lock byte,
  \<open>sqlite3PagerGet\<close>, \<open>sqlite3PagerWrite\<close>, \<open>sqlite3PagerUnref\<close>, \<open>sqlite3BtreeCommit\<close> and \<open>sqlite3BtreeRollback\<close>.
\<close>

type_synonym ('p, 's) pager_state = "'p \<times> codec_ctx \<times> 's world"

record ('p, 's) pager_ops =
  pg_begin :: "('p, 's) pager_state \<Rightarrow> int \<times> ('p, 's) pager_state"
  pg_count :: "('p, 's) pager_state \<Rightarrow> int"
  pg_sj :: "u32 \<Rightarrow> bool"
  pg_get :: "u32 \<Rightarrow> ('p, 's) pager_state \<Rightarrow> int \<times> ('p, 's) pager_state"
  pg_write :: "u32 \<Rightarrow> ('p, 's) pager_state \<Rightarrow> int \<times> ('p, 's) pager_state"
  pg_unref :: "u32 \<Rightarrow> ('p, 's) pager_state \<Rightarrow> ('p, 's) pager_state"
  pg_commit :: "('p, 's) pager_state \<Rightarrow> int \<times> ('p, 's) pager_state"
  pg_rollback :: "int \<Rightarrow> ('p, 's) pager_state \<Rightarrow> ('p, 's) pager_state"

definition codec_set_pass_key :: "database \<Rightarrow> nat \<Rightarrow> bytes \<Rightarrow> int \<Rightarrow> 's world \<Rightarrow> int \<times> database \<times> 's world" where
  "codec_set_pass_key db i zKey for_ctx w =
     (case sqlcipherPagerGetCodec (aDb db ! i) of
        None \<Rightarrow> (SQLITE_ERROR, db, w)
      | Some ctx \<Rightarrow>
          let (rc, ctx, w) = sqlcipher_codec_ctx_set_pass ctx (Some zKey) for_ctx w
          in (rc, db\<lparr>aDb := (aDb db)[i := (aDb db ! i)\<lparr>db_pager := Attached ctx\<rparr>]\<rparr>, w))"

text \<open>The loop from page \<open>pgno\<close> on, with the number of pages left.  A page that cannot be written keeps its reference.\<close>

primrec rekey_pages :: "('p, 's) pager_ops \<Rightarrow> nat \<Rightarrow> u32 \<Rightarrow> ('p, 's) pager_state \<Rightarrow> int \<times> ('p, 's) pager_state" where
  "rekey_pages B 0 pgno x = (SQLITE_OK, x)"
| "rekey_pages B (Suc n) pgno x =
     (if \<not> pg_sj B pgno
      then let (rc, x) = pg_get B pgno x in
        if rc = SQLITE_OK
        then let (rc, x) = pg_write B pgno x in
          if rc = SQLITE_OK then rekey_pages B n (pgno + 1) (pg_unref B pgno x) else (rc, x)
        else (rc, x)
      else rekey_pages B n (pgno + 1) x)"

text \<open>The transaction; the results of the commit and of \<open>sqlcipher_codec_key_copy\<close> are not looked at.\<close>

definition rekey_transaction :: "('p, 's) pager_ops \<Rightarrow> ('p, 's) pager_state \<Rightarrow> ('p, 's) pager_state" where
  "rekey_transaction B x =
     (let (rc, x) = pg_begin B x;
          page_count = pg_count B x;
          (rc, x) = (if rc = SQLITE_OK then rekey_pages B (nat (page_count mod 2 ^ 32)) 1 x else (rc, x)) in
      if rc = SQLITE_OK
      then let (rc, p, ctx, w) = pg_commit B x; (rc, ctx, w) = sqlcipher_codec_key_copy ctx 1 w in (p, ctx, w)
      else pg_rollback B SQLITE_ABORT_ROLLBACK x)"

text \<open>A negative length is taken for a huge size: \<open>None\<close>.\<close>

definition sqlite3_rekey_v2 ::
    "('p, 's) pager_ops \<Rightarrow> init_state \<Rightarrow> database option \<Rightarrow> bytes option \<Rightarrow> bytes option \<Rightarrow> int \<Rightarrow> 'p \<Rightarrow> 's world \<Rightarrow>
      (int \<times> database option \<times> 'p \<times> 's world) option" where
  "sqlite3_rekey_v2 B ini db zDb pKey nKey p w =
     (if \<not> fst ini then Some (snd ini, db, p, w)
      else case (db, pKey) of
        (Some d, Some zKey) \<Rightarrow>
          if nKey = 0 then Some (SQLITE_MISUSE, db, p, w)
          else let db_index = sqlcipher_find_db_index db zDb in
            if \<not> (db_index \<ge> 0 \<and> db_index < int (length (aDb d))) then Some (SQLITE_MISUSE, db, p, w)
            else let i = nat db_index in
              if db_pager (aDb d ! i) = No_Btree then Some (SQLITE_OK, db, p, w)
              else if sqlcipherPagerGetCodec (aDb d ! i) = None then Some (SQLITE_MISUSE, db, p, w)
              else if nKey < 0 then None
              else let (_, d, w) = codec_set_pass_key d i (take (nat nKey) zKey) 1 w;
                       (p, ctx, w) = rekey_transaction B (p, the (sqlcipherPagerGetCodec (aDb d ! i)), w)
                   in Some (SQLITE_OK, Some (d\<lparr>aDb := (aDb d)[i := (aDb d ! i)\<lparr>db_pager := Attached ctx\<rparr>]\<rparr>), p, w)
      | _ \<Rightarrow> Some (SQLITE_MISUSE, db, p, w))"

definition sqlite3_rekey ::
    "('p, 's) pager_ops \<Rightarrow> init_state \<Rightarrow> database option \<Rightarrow> bytes option \<Rightarrow> int \<Rightarrow> 'p \<Rightarrow> 's world \<Rightarrow> (int \<times> database option \<times> 'p \<times> 's world) option" where
  "sqlite3_rekey B ini db pKey nKey p w = sqlite3_rekey_v2 B ini db (Some (cstr ''main'')) pKey nKey p w"

text \<open>
  The key pragmas: \<open>iArg\<close> is odd for \<open>rekey\<close>, \<open>hexrekey\<close> and \<open>textrekey\<close>.  The answer is the row \<open>ok\<close> or, as
  \<open>False\<close>, an error of the parser.
\<close>

definition pragma_key ::
    "'s provider \<Rightarrow> ('p, 's) pager_ops \<Rightarrow> init_state \<Rightarrow> int \<Rightarrow> database \<Rightarrow> bytes \<Rightarrow> bytes option \<Rightarrow> 'p \<Rightarrow> 's world \<Rightarrow>
      (bool \<times> row list \<times> database option \<times> 'p \<times> 's world) option" where
  "pragma_key P B ini iArg db zDb zRight p w =
     (case zRight of None \<Rightarrow> Some (True, [], Some db, p, w)
      | Some z \<Rightarrow>
          let (zKey, n) = key_pragma_arg iArg z in
          case (if iArg mod 2 = 0 then map_option (\<lambda>(rc, db, w). (rc, db, p, w)) (sqlite3_key_v2 P ini (Some db) (Some zDb) (Some zKey) n w)
                else sqlite3_rekey_v2 B ini (Some db) (Some zDb) (Some zKey) n p w) of
            None \<Rightarrow> None
          | Some (rc, db, p, w) \<Rightarrow>
              if rc = SQLITE_OK \<and> n \<noteq> 0 then Some (True, [row ''ok'' (cstr ''ok'')], db, p, w) else Some (False, [], db, p, w))"

section \<open>The pages of a rekey\<close>

text \<open>A sequence of steps that stops at the first that fails.\<close>

fun run_steps :: "('x \<Rightarrow> int \<times> 'x) list \<Rightarrow> 'x \<Rightarrow> int \<times> 'x" where
  "run_steps [] x = (SQLITE_OK, x)"
| "run_steps (f # fs) x = (let (rc, x) = f x in if rc = SQLITE_OK then run_steps fs x else (rc, x))"

lemma run_steps_append: "run_steps (fs @ gs) x = (let (rc, y) = run_steps fs x in if rc = SQLITE_OK then run_steps gs y else (rc, y))"
  by (induction fs arbitrary: x) (auto split: prod.split)

definition page_steps :: "('p, 's) pager_ops \<Rightarrow> u32 \<Rightarrow> (('p, 's) pager_state \<Rightarrow> int \<times> ('p, 's) pager_state) list" where
  "page_steps B pgno = [pg_get B pgno, pg_write B pgno, \<lambda>x. (SQLITE_OK, pg_unref B pgno x)]"

lemma rekey_pages_steps:
  "rekey_pages B n pgno x = run_steps (concat (map (page_steps B) (filter (\<lambda>p. \<not> pg_sj B p) (map (\<lambda>k. pgno + of_nat k) [0..<n])))) x"
proof (induction n arbitrary: pgno x)
  case (Suc n)
  have "map (\<lambda>k. pgno + of_nat k) [0..<Suc n] = pgno # map (\<lambda>k. pgno + 1 + of_nat k) [0..<n]"
    by (simp add: upt_conv_Cons map_Suc_upt [symmetric] algebra_simps del: map_Suc_upt upt_Suc)
  then show ?case by (simp add: Suc.IH page_steps_def Let_def split: prod.split del: upt_Suc)
qed simp

section \<open>Calls of the codec keep keys that have been derived\<close>

definition same_ctxs :: "codec_ctx \<Rightarrow> codec_ctx \<Rightarrow> bool" where
  "same_ctxs a b \<longleftrightarrow> read_ctx b = read_ctx a \<and> write_ctx b = write_ctx a"

lemma same_ctxs_simps [simp]:
  "same_ctxs a a" "same_ctxs a (b\<lparr>kdf_salt := x\<rparr>) = same_ctxs a b" "same_ctxs a (b\<lparr>hmac_kdf_salt := x\<rparr>) = same_ctxs a b"
  "same_ctxs a (b\<lparr>cc_flags := f\<rparr>) = same_ctxs a b" "same_ctxs a (b\<lparr>cc_buffer := buf\<rparr>) = same_ctxs a b"
  "same_ctxs a (sqlcipher_codec_ctx_set_error b e) = same_ctxs a b"
  by (simp_all add: same_ctxs_def sqlcipher_codec_ctx_set_error_def)

lemma same_ctxs_trans [trans]: "same_ctxs a b \<Longrightarrow> same_ctxs b c \<Longrightarrow> same_ctxs a c" by (simp add: same_ctxs_def)

lemma ctxs_salt:
  "sqlcipher_codec_ctx_init_kdf_salt P ctx w = (rc, ctx', w') \<Longrightarrow> same_ctxs ctx ctx'"
  "sqlcipher_codec_ctx_get_kdf_salt P ctx w = (rc, salt, ctx', w') \<Longrightarrow> same_ctxs ctx ctx'"
proof -
  show i: "sqlcipher_codec_ctx_init_kdf_salt P ctx w = (rc, ctx', w') \<Longrightarrow> same_ctxs ctx ctx'" for rc
    by (auto simp: sqlcipher_codec_ctx_init_kdf_salt_def Let_def split: if_splits prod.splits)
  show "sqlcipher_codec_ctx_get_kdf_salt P ctx w = (rc, salt, ctx', w') \<Longrightarrow> same_ctxs ctx ctx'"
    using i by (auto simp: sqlcipher_codec_ctx_get_kdf_salt_def Let_def split: if_splits prod.splits)
qed

lemma ctxs_key_derive:
  assumes "sqlcipher_cipher_ctx_key_derive P ctx c w = (rc, ctx', c', w')"
  shows "same_ctxs ctx ctx'"
proof (cases "pass c = None \<or> pass_sz c = 0")
  case True
  then show ?thesis using assms by (simp add: sqlcipher_cipher_ctx_key_derive_def)
next
  case False
  have scrub: "scrub_keys x c w = (rc, ctx', c', w') \<Longrightarrow> ctx' = x" for x c w by (auto simp: scrub_keys_def Let_def split: prod.splits)
  have mat: "derive_key_material P x c p w = (rc, b, x', c', w') \<Longrightarrow> same_ctxs x x'"
    "derive_hmac_key_material P x c w = (rc, x', c', w') \<Longrightarrow> same_ctxs x x'" for x c p w rc b x' c' w'
    by (auto simp: derive_key_material_def derive_hmac_key_material_def Let_def split: if_splits prod.splits)
  obtain r1 x1 w1 where 1: "(if \<not> FLAG_GET (cc_flags ctx) CIPHER_FLAG_HAS_KDF_SALT then sqlcipher_codec_ctx_init_kdf_salt P ctx w
      else (SQLITE_OK, ctx, w)) = (r1, x1, w1)" by (rule prod_cases3)
  have l1: "same_ctxs ctx x1" using 1 ctxs_salt(1) by (auto split: if_splits)
  obtain r2 b x2 c2 w2 where 2: "derive_key_material P x1 c (the (pass c)) w1 = (r2, b, x2, c2, w2)" by (rule prod_cases5)
  have l2: "same_ctxs ctx x2" using same_ctxs_trans [OF l1 mat(1) [OF 2]] .
  obtain r3 x3 c3 w3 where 3: "(if FLAG_GET (cc_flags x2) CIPHER_FLAG_HMAC \<and> b then derive_hmac_key_material P x2 c2 w2
      else (SQLITE_OK, x2, c2, w2)) = (r3, x3, c3, w3)" by (rule prod_cases4)
  have l3: "same_ctxs ctx x3" using 3 l2 same_ctxs_trans [OF l2 mat(2)] by (auto split: if_splits)
  show ?thesis
    using assms l1 l2 l3 scrub unfolding sqlcipher_cipher_ctx_key_derive_def if_not_P [OF False] Let_def 1 2 3 prod.case by (auto split: if_splits)
qed

text \<open>The keys of the read context, when they have been derived.\<close>

definition same_read :: "codec_ctx \<Rightarrow> codec_ctx \<Rightarrow> bool" where
  "same_read a b \<longleftrightarrow> derive_key (read_ctx b) = derive_key (read_ctx a) \<and> ck_key (read_ctx b) = ck_key (read_ctx a) \<and>
     ck_hmac_key (read_ctx b) = ck_hmac_key (read_ctx a)"

lemma same_read_simps [simp]: "same_read a a" by (simp add: same_read_def)

lemma same_read_trans [trans]: "same_read a b \<Longrightarrow> same_read b c \<Longrightarrow> same_read a c" by (simp add: same_read_def)

lemma same_read_ctxs: "same_ctxs b c \<Longrightarrow> same_read a b \<Longrightarrow> same_read a c" by (simp add: same_ctxs_def same_read_def)

lemma read_codec_key_derive:
  assumes "sqlcipher_codec_key_derive P ctx w = (rc, ctx', w')" "derive_key (read_ctx ctx) = 0"
  shows "same_read ctx ctx'"
proof -
  obtain r2 x2 w2 where 2: "derive_write_ctx P ctx w = (r2, x2, w2)" by (rule prod_cases3)
  have "same_read ctx x2" using 2 ctxs_key_derive
    by (auto simp: derive_write_ctx_def same_read_def same_ctxs_def split: if_splits prod.splits) fastforce+
  then show ?thesis using assms 2
    by (auto simp: sqlcipher_codec_key_derive_def derive_read_ctx_def Let_def set_pass_none same_read_def split: if_splits)
qed

lemma read_codec:
  assumes "sqlite3Codec P ctx pData pgno mode w = Some (out, page, ctx', w')" "derive_key (read_ctx ctx) = 0"
  shows "same_read ctx ctx'"
proof -
  obtain rc x v where k: "sqlcipher_codec_key_derive P ctx w = (rc, x, v)" by (rule prod_cases3)
  have x: "same_read ctx x" using read_codec_key_derive [OF k assms(2)] .
  have r: "codec_read P x pData pgno off v = Some (out, page, ctx', w') \<Longrightarrow> same_ctxs x ctx'" for off
    by (auto simp: codec_read_def Let_def split: option.splits if_splits prod.splits)
  have wr: "codec_write P k x pData pgno off v = Some (out, page, ctx', w') \<Longrightarrow> same_ctxs x ctx'" for k off
    using ctxs_salt(2) by (auto simp: codec_write_def Let_def split: option.splits if_splits prod.splits)
  have e: "same_read ctx (sqlcipher_codec_ctx_set_error x e)" "same_read ctx (sqlcipher_codec_ctx_set_error ctx e)" for e
    using x by (simp_all add: same_read_def sqlcipher_codec_ctx_set_error_def)
  show ?thesis using assms k e same_read_ctxs [OF r x] same_read_ctxs [OF wr x]
    by (auto simp: sqlite3Codec_def Let_def split: if_splits)
qed

lemma read_codec_calls:
  assumes "codec_calls P ctx cs w = Some (outs, ctx', w')" "derive_key (read_ctx ctx) = 0"
  shows "same_read ctx ctx'"
  using assms
proof (induction cs arbitrary: ctx w outs)
  case (Cons c cs)
  obtain pData pgno mode where c: "c = (pData, pgno, mode)" by (cases c)
  obtain out page x v where r: "sqlite3Codec P ctx pData pgno mode w = Some (out, page, x, v)" using Cons.prems(1) by (auto simp: c split: option.splits)
  obtain os where i: "codec_calls P x cs v = Some (os, ctx', w')" using Cons.prems(1) r by (auto simp: c split: option.splits)
  have x: "same_read ctx x" using read_codec [OF r Cons.prems(2)] .
  then have "derive_key (read_ctx x) = 0" using Cons.prems(2) by (simp add: same_read_def)
  from same_read_trans [OF x Cons.IH [OF i this]] show ?case .
qed simp

section \<open>The keys of the new passphrase\<close>

text \<open>What the keys of a call of the codec depend on; all of it stays as it is once the salt is known, but for the derivation itself.\<close>

definition same_core :: "codec_ctx \<Rightarrow> codec_ctx \<Rightarrow> bool" where
  "same_core a b \<longleftrightarrow> same_ctxs a b \<and> kdf_algorithm b = kdf_algorithm a \<and> kdf_iter b = kdf_iter a \<and> fast_kdf_iter b = fast_kdf_iter a \<and>
     bit (cc_flags b) 0 = bit (cc_flags a) 0 \<and> (bit (cc_flags a) 4 \<longrightarrow> bit (cc_flags b) 4 \<and> kdf_salt b = kdf_salt a)"

lemma same_core_simps [simp]:
  "same_core a a" "same_core a (b\<lparr>cc_buffer := buf\<rparr>) = same_core a b" "same_core a (sqlcipher_codec_ctx_set_error b e) = same_core a b"
  "same_core a (b\<lparr>cc_flags := FLAG_SET (cc_flags b) CIPHER_FLAG_KEY_USED\<rparr>) = same_core a b"
  by (simp_all add: same_core_def same_ctxs_def sqlcipher_codec_ctx_set_error_def)

lemma core_get_salt:
  assumes "sqlcipher_codec_ctx_get_kdf_salt P ctx w = (rc, salt, ctx', w')"
  shows "same_core ctx ctx'"
proof -
  have "same_core ctx x" if "sqlcipher_codec_ctx_init_kdf_salt P ctx w = (rc, x, v)" "\<not> bit (cc_flags ctx) 4" for rc x v
    using that by (auto simp: sqlcipher_codec_ctx_init_kdf_salt_def same_core_def Let_def split: if_splits prod.splits)
  then show ?thesis using assms by (auto simp: sqlcipher_codec_ctx_get_kdf_salt_def Let_def split: if_splits prod.splits)
qed

text \<open>A call of the codec derives the keys, unless an error is latched, and changes nothing else of these.\<close>

lemma codec_core:
  assumes "sqlite3Codec P ctx pData pgno mode w = Some (out, page, ctx', w')"
  shows "same_core ctx ctx' \<or> (\<exists>rc x v. sqlcipher_codec_key_derive P ctx w = (rc, x, v) \<and> same_core x ctx')"
proof -
  obtain rc x v where k: "sqlcipher_codec_key_derive P ctx w = (rc, x, v)" by (rule prod_cases3)
  have r: "codec_read P x pData pgno off v = Some (out, page, ctx', w') \<Longrightarrow> same_core x ctx'" for off
    by (auto simp: codec_read_def Let_def split: option.splits if_splits prod.splits)
  have wr: "codec_write P k x pData pgno off v = Some (out, page, ctx', w') \<Longrightarrow> same_core x ctx'" for k off
    using core_get_salt by (fastforce simp: codec_write_def Let_def split: option.splits if_splits prod.splits)
  show ?thesis using assms k r wr by (auto simp: sqlite3Codec_def Let_def split: if_splits)
qed

text \<open>Salts that are part of a raw key do not depend on the salt there was.\<close>

lemma derive_salt:
  assumes wf: "ltc_wf ctx" and c: "cipher_ctx_wf 32 c" "pass c = Some p" and h: "bit (cc_flags ctx) 4"
    and r: "sqlcipher_cipher_ctx_key_derive P ctx c w = (rc, ctx', c', w')"
  shows "raw_material F 32 iter p (kdf_salt ctx') = raw_material F 32 iter p (kdf_salt ctx)"
proof -
  have sz: "key_sz ctx = 32" "kdf_salt_sz ctx = 16" using wf by (simp_all add: codec_wf_iff sizes_wf_def)
  have p: "pass_sz c = int (length p)" "pass_sz c \<noteq> 0" using c by (auto simp: cipher_ctx_wf_def)
  have m: "kdf_salt x = kdf_salt ctx \<or> raw_key_blob p (int (length p)) \<and> (length p = 99 \<or> length p = 163)"
    if "derive_key_material P ctx c p w = (rc, d, x, c2, w2)" for rc d x c2 w2
    using that sz p by (auto simp: derive_key_material_def Let_def split: if_splits prod.splits)
  have hm: "derive_hmac_key_material P x c2 w2 = (rc, y, c3, w3) \<Longrightarrow> kdf_salt y = kdf_salt x" for x c2 w2 rc y c3 w3
    by (auto simp: derive_hmac_key_material_def Let_def split: prod.splits)
  have sc: "scrub_keys x c2 w2 = (rc, y, c3, w3) \<Longrightarrow> y = x" for x c2 w2 rc y c3 w3 by (auto simp: scrub_keys_def Let_def split: prod.splits)
  obtain r2 b x2 c2 w2 where 2: "derive_key_material P ctx c p w = (r2, b, x2, c2, w2)" by (rule prod_cases5)
  obtain r3 x3 c3 w3 where 3: "(if FLAG_GET (cc_flags x2) CIPHER_FLAG_HMAC \<and> b then derive_hmac_key_material P x2 c2 w2
      else (SQLITE_OK, x2, c2, w2)) = (r3, x3, c3, w3)" by (rule prod_cases4)
  have "kdf_salt x3 = kdf_salt x2" using 3 hm by (auto split: if_splits)
  then have "kdf_salt ctx' = kdf_salt x2"
    using r c(2) p(2) h 2 3 by (auto simp: sqlcipher_cipher_ctx_key_derive_def Let_def split: if_splits dest!: sc)
  then show ?thesis using m [OF 2] by (auto simp: raw_material_def Let_def)
qed

text \<open>
  The cipher context has the passphrase \<open>key\<close> to derive its keys from, or has the keys that follow from it, from the settings and the salt of \<open>a\<close>
  and from the masks of \<open>w\<close>; or else the passphrase is the one that the read context of \<open>a\<close> has stored, and it has the keys of that context.
\<close>

definition new_keys :: "'s world \<Rightarrow> codec_ctx \<Rightarrow> bytes \<Rightarrow> cipher_ctx \<Rightarrow> bool" where
  "new_keys w a key t \<longleftrightarrow> derive_key t \<noteq> 0 \<and> pass t = Some key \<or>
     (\<exists>K H S. material_of ltc_kdf 32 (hmac_salt_mask (w_defaults w)) a key (kdf_salt a) = (K, H, S) \<and> holds_keys (w_mask w) (K, H) t) \<or>
     derive_key t = 0 \<and> pass (read_ctx a) = Some key \<and> ck_key t = ck_key (read_ctx a) \<and> ck_hmac_key t = ck_hmac_key (read_ctx a)"

definition rekeyed :: "bytes \<Rightarrow> codec_ctx \<Rightarrow> 's world \<Rightarrow> codec_ctx \<times> 's world \<Rightarrow> bool" where
  "rekeyed key a v = (\<lambda>(b, w). w_mask w = w_mask v \<and> w_defaults w = w_defaults v \<and> bit (cc_flags b) 4 \<and> bit (cc_flags b) 0 = bit (cc_flags a) 0 \<and>
     kdf_algorithm b = kdf_algorithm a \<and> kdf_iter b = kdf_iter a \<and> fast_kdf_iter b = fast_kdf_iter a \<and> same_read a b \<and> derive_key (read_ctx b) = 0 \<and>
     (pass (read_ctx b) = None \<and> pass_sz (read_ctx b) = 0 \<or> pass (read_ctx b) \<noteq> None \<and> pass (read_ctx b) = pass (read_ctx a)) \<and>
     new_keys v a key (write_ctx b) \<and>
     (derive_key (write_ctx b) \<noteq> 0 \<longrightarrow> (\<forall>F. raw_material F 32 (kdf_iter a) key (kdf_salt b) = raw_material F 32 (kdf_iter a) key (kdf_salt a))))"

lemma rekeyed_core:
  assumes "rekeyed key a v (b, w)" "same_core b c" "w_mask w' = w_mask w" "w_defaults w' = w_defaults w"
  shows "rekeyed key a v (c, w')"
  using assms by (auto simp: rekeyed_def same_core_def same_ctxs_def same_read_def)

lemma cmp_passes:
  assumes c: "cipher_ctx_wf 32 t" "pass t = Some key" and r: "cipher_ctx_wf 32 r" "pass r = None \<longrightarrow> pass_sz r = 0"
    and e: "sqlcipher_cipher_ctx_cmp t r = 0"
  shows "pass r = Some key"
proof -
  have t: "pass_sz t = int (length key)" "0 < length key" using c by (auto simp: cipher_ctx_wf_def)
  have sz: "pass_sz r = pass_sz t" using e by (auto simp: sqlcipher_cipher_ctx_cmp_def Let_def split: if_splits)
  then obtain k where k: "pass r = Some k" using t r(2) by (cases "pass r") auto
  then have l: "length k = length key" using r(1) sz t by (auto simp: cipher_ctx_wf_def)
  have "sqlcipher_memcmp key k (length key) = 0" using e c(2) k t(1) by (auto simp: sqlcipher_cipher_ctx_cmp_def Let_def split: if_splits)
  then show ?thesis using k l by (simp add: sqlcipher_memcmp_take)
qed

lemma rekeyed_derive_write:
  assumes inv: "rekeyed key a v (b, w)" and ok: "ltc_up (w_prov w)" "ltc_wf b" "btree_ok (pBt b)"
    and r: "derive_write_ctx sqlcipher_ltc_setup b w = (rc, x, w')"
  shows "rekeyed key a v (x, w')"
proof (cases "derive_key (write_ctx b) = 0")
  case True
  then show ?thesis using inv r by (simp add: derive_write_ctx_def)
next
  case False
  have i: "w_mask w = w_mask v" "w_defaults w = w_defaults v" "bit (cc_flags b) 4" "bit (cc_flags b) 0 = bit (cc_flags a) 0"
    "kdf_algorithm b = kdf_algorithm a" "kdf_iter b = kdf_iter a" "fast_kdf_iter b = fast_kdf_iter a" "same_read a b" "derive_key (read_ctx b) = 0"
    "pass (read_ctx b) = None \<and> pass_sz (read_ctx b) = 0 \<or> pass (read_ctx b) \<noteq> None \<and> pass (read_ctx b) = pass (read_ctx a)"
    and raw: "raw_material F 32 (kdf_iter a) key (kdf_salt b) = raw_material F 32 (kdf_iter a) key (kdf_salt a)" and nk: "new_keys v a key (write_ctx b)" for F
    using inv False by (simp_all add: rekeyed_def)
  have pk: "pass (write_ctx b) = Some key" using nk False by (auto simp: new_keys_def holds_keys_def)
  have cw: "cipher_ctx_wf 32 (read_ctx b)" "cipher_ctx_wf 32 (write_ctx b)" using ok(2) by (simp_all add: codec_wf_iff)
  show ?thesis
  proof (cases "sqlcipher_cipher_ctx_cmp (write_ctx b) (read_ctx b) = 0")
    case True
    have "pass (read_ctx b) = None \<longrightarrow> pass_sz (read_ctx b) = 0" using i(10) by auto
    from cmp_passes [OF cw(2) pk cw(1) this True] have "pass (read_ctx b) = Some key" .
    then have pa: "pass (read_ctx a) = Some key" using i(10) by auto
    note d = ltc.derive_write [OF ok i(9) r]
    have x: "x = b\<lparr>write_ctx := read_ctx b\<rparr> \<or> x = b\<lparr>write_ctx := (read_ctx b)\<lparr>pass := None\<rparr>\<rparr>" using d(4) [OF False True] by blast
    have "w_mask w' = w_mask w" "w_defaults w' = w_defaults w" using d(1) consumedD [of w w'] by (simp_all add: ltc.step_ok_def)
    then show ?thesis using x i pa by (auto simp: rekeyed_def new_keys_def same_read_def)
  next
    case neq: False
    obtain rc1 x1 c w1 where 1: "sqlcipher_cipher_ctx_key_derive sqlcipher_ltc_setup b (write_ctx b) w = (rc1, x1, c, w1)" by (metis prod_cases4)
    note d = ltc.derive_one [OF ok cw(2) 1]
    have e: "x = x1\<lparr>write_ctx := c\<rparr>" "w' = w1" using r False neq 1 by (simp_all add: derive_write_ctx_def)
    have st: "ltc.step_ok b w x1 w1" "read_ctx x1 = read_ctx b" "pass c = Some key" using d pk by simp_all
    have ky: "keyed b x1" and w1: "w_mask w1 = w_mask w" "w_defaults w1 = w_defaults w" using st(1) consumedD [of w w1] by (simp_all add: ltc.step_ok_def)
    have set: "kdf_algorithm x1 = kdf_algorithm a" "kdf_iter x1 = kdf_iter a" "fast_kdf_iter x1 = fast_kdf_iter a" "bit (cc_flags x1) 0 = bit (cc_flags a) 0" "bit (cc_flags x1) 4"
      using ky i by (auto simp: keyed_def)
    have sl: "raw_material F 32 (kdf_iter a) key (kdf_salt x1) = raw_material F 32 (kdf_iter a) key (kdf_salt a)" for F
      using derive_salt [OF ok(2) cw(2) pk i(3) 1] raw by simp
    have "new_keys v a key c"
    proof (cases "rc1 = SQLITE_OK")
      case True
      then have "derived ltc_kdf 32 w b key x1 c" using d pk by blast
      then obtain K H where kh: "material_of ltc_kdf 32 (hmac_salt_mask (w_defaults w)) b key (kdf_salt b) = (K, H, kdf_salt x1)" "holds_keys (w_mask w) (K, H) c"
        using i(3) by (auto simp: derived_def salt_source_def)
      have "material_of ltc_kdf 32 (hmac_salt_mask (w_defaults v)) a key (kdf_salt a) = (K, H, kdf_salt x1)"
        using kh(1) i raw by (simp add: key_material_def)
      then show ?thesis using kh(2) i(1) by (auto simp: new_keys_def)
    next
      case bad: False
      have "derive_key c \<noteq> 0" using ltc.key_derive_result [OF ok cw(2) pk 1] bad False by auto
      then show ?thesis using st(3) by (simp add: new_keys_def)
    qed
    then show ?thesis unfolding e using i st set sl w1 by (auto simp: rekeyed_def same_read_def)
  qed
qed

lemma rekeyed_key_derive:
  assumes inv: "rekeyed key a v (b, w)" and ok: "ltc_up (w_prov w)" "ltc_wf b" "btree_ok (pBt b)"
    and r: "sqlcipher_codec_key_derive sqlcipher_ltc_setup b w = (rc, x, w')"
  shows "rekeyed key a v (x, w')"
proof -
  have rd: "derive_key (read_ctx b) = 0" using inv by (simp add: rekeyed_def)
  obtain r2 x2 w2 where 2: "derive_write_ctx sqlcipher_ltc_setup b w = (r2, x2, w2)" by (rule prod_cases3)
  have x2: "rekeyed key a v (x2, w2)" using rekeyed_derive_write [OF inv ok 2] .
  have d0: "derive_key (write_ctx x2) = 0" if "r2 = SQLITE_OK" using ltc.derive_write(3) [OF ok rd 2 that] .
  let ?wipe = "\<lambda>c :: cipher_ctx. c\<lparr>pass := None, pass_sz := 0\<rparr>"
  have wipe: "rekeyed key a v (x2\<lparr>read_ctx := ?wipe (read_ctx x2), write_ctx := ?wipe (write_ctx x2)\<rparr>, w2)" if "derive_key (write_ctx x2) = 0"
    using x2 that by (auto simp: rekeyed_def same_read_def new_keys_def holds_keys_def)
  show ?thesis using r rd 2 x2 d0 wipe
    by (auto simp: sqlcipher_codec_key_derive_def derive_read_ctx_def Let_def set_pass_none split: if_splits)
qed

lemma rekeyed_codec:
  assumes inv: "rekeyed key a v (b, w)" and ok: "ltc_up (w_prov w)" "ltc_wf b" "btree_ok (pBt b)" "header_ok 16 b" "length pData = nat (page_sz b)"
    and r: "sqlite3Codec sqlcipher_ltc_setup b pData pgno mode w = Some (out, page, x, w')"
  shows "rekeyed key a v (x, w')"
proof -
  have cw: "w_mask w' = w_mask w" "w_defaults w' = w_defaults w"
    using ltc.codec_result [OF ok, of pgno mode] r consumedD [of w w'] by auto
  from codec_core [OF r] show ?thesis
  proof (elim disjE exE conjE)
    assume "same_core b x"
    then show ?thesis using rekeyed_core [OF inv _ cw] by blast
  next
    fix rc y u assume y: "sqlcipher_codec_key_derive sqlcipher_ltc_setup b w = (rc, y, u)" "same_core y x"
    have "rekeyed key a v (y, u)" using rekeyed_key_derive [OF inv ok(1-3) y(1)] .
    moreover have "w_mask w' = w_mask u" "w_defaults w' = w_defaults u" using inv calculation cw by (simp_all add: rekeyed_def)
    ultimately show ?thesis using rekeyed_core y(2) by blast
  qed
qed

text \<open>Keys of the write context that have been derived stay, as those of the read context do.\<close>

definition same_write :: "codec_ctx \<Rightarrow> codec_ctx \<Rightarrow> bool" where
  "same_write a b \<longleftrightarrow> derive_key (write_ctx b) = derive_key (write_ctx a) \<and> ck_key (write_ctx b) = ck_key (write_ctx a) \<and>
     ck_hmac_key (write_ctx b) = ck_hmac_key (write_ctx a)"

lemma same_write_codec:
  assumes "sqlite3Codec P ctx pData pgno mode w = Some (out, page, ctx', w')" "derive_key (read_ctx ctx) = 0" "derive_key (write_ctx ctx) = 0"
  shows "same_write ctx ctx'"
proof -
  have "same_write ctx x" if "sqlcipher_codec_key_derive P ctx w = (rc, x, v)" for rc x v
    using that assms(2,3) by (auto simp: sqlcipher_codec_key_derive_def derive_read_ctx_def derive_write_ctx_def Let_def set_pass_none same_write_def split: if_splits)
  then show ?thesis using codec_core [OF assms(1)] by (auto simp: same_core_def same_ctxs_def same_write_def)
qed

section \<open>A rekey\<close>

text \<open>The operations of the pager change a context only by calls of the codec on whole pages.\<close>

definition by_codec :: "'s provider \<Rightarrow> codec_ctx \<times> 's world \<Rightarrow> codec_ctx \<times> 's world \<Rightarrow> bool" where
  "by_codec P = (\<lambda>(ctx, w) (ctx', w'). \<exists>cs outs. (\<forall>c \<in> set cs. length (fst c) = nat (page_sz ctx)) \<and> codec_calls P ctx cs w = Some (outs, ctx', w'))"

definition pager_calls :: "'s provider \<Rightarrow> ('p, 's) pager_ops \<Rightarrow> bool" where
  "pager_calls P B \<longleftrightarrow> (\<forall>x. by_codec P (snd x) (snd (snd (pg_begin B x))) \<and> by_codec P (snd x) (snd (snd (pg_commit B x))) \<and>
     (\<forall>e. by_codec P (snd x) (snd (pg_rollback B e x))) \<and>
     (\<forall>n. by_codec P (snd x) (snd (snd (pg_get B n x))) \<and> by_codec P (snd x) (snd (snd (pg_write B n x))) \<and> by_codec P (snd x) (snd (pg_unref B n x))))"

lemma pager_callsD:
  assumes "pager_calls P B"
  shows "by_codec P (snd x) (snd (snd (pg_begin B x)))" "by_codec P (snd x) (snd (snd (pg_commit B x)))" "by_codec P (snd x) (snd (pg_rollback B e x))"
    "by_codec P (snd x) (snd (snd (pg_get B n x)))" "by_codec P (snd x) (snd (snd (pg_write B n x)))" "by_codec P (snd x) (snd (pg_unref B n x))"
  using assms unfolding pager_calls_def by blast+

text \<open>The transaction begins, and every page but that of the lock byte is fetched, written and released, in order, until a step fails.\<close>

definition rekey_run :: "('p, 's) pager_ops \<Rightarrow> ('p, 's) pager_state \<Rightarrow> int \<times> ('p, 's) pager_state" where
  "rekey_run B x =
     (let (rc, x) = pg_begin B x; n = nat (pg_count B x mod 2 ^ 32) in
      if rc = SQLITE_OK
      then run_steps (concat (map (page_steps B) (filter (\<lambda>p. \<not> pg_sj B p) (map of_nat [1..<Suc n])))) x
      else (rc, x))"

lemma rekey_transaction_run:
  "rekey_transaction B x =
     (let (rc, y) = rekey_run B x in
      if rc = SQLITE_OK then let (rc, p, ctx, w) = pg_commit B y; (rc, ctx, w) = sqlcipher_codec_key_copy ctx 1 w in (p, ctx, w)
      else pg_rollback B SQLITE_ABORT_ROLLBACK y)"
proof -
  obtain rc y where b: "pg_begin B x = (rc, y)" by (rule prod.exhaust)
  let ?n = "nat (pg_count B y mod 2 ^ 32)"
  have "map (\<lambda>k. 1 + of_nat k) [0..<?n] = (map of_nat [1..<Suc ?n] :: u32 list)"
    by (simp add: map_Suc_upt [symmetric] del: map_Suc_upt upt_Suc)
  then show ?thesis unfolding rekey_transaction_def rekey_run_def Let_def b prod.case rekey_pages_steps [of B ?n 1] by simp
qed

text \<open>
  What holds of the context and the world all along, \<open>a\<close> and \<open>v\<close> being those at the start, with the passphrase that the write
  context has been given, if any.
\<close>

definition rekeying :: "bytes option \<Rightarrow> codec_ctx \<Rightarrow> ltc_state world \<Rightarrow> codec_ctx \<times> ltc_state world \<Rightarrow> bool" where
  "rekeying k a v = (\<lambda>(ctx, w). ltc_up (w_prov w) \<and> ltc_wf ctx \<and> btree_ok (pBt ctx) \<and> header_ok 16 ctx \<and> same_read a ctx \<and>
     (case k of None \<Rightarrow> derive_key (write_ctx a) = 0 \<longrightarrow> same_write a ctx | Some key \<Rightarrow> rekeyed key a v (ctx, w)))"

lemma rekeying_codec:
  assumes inv: "rekeying k a v (c, w)" and a: "derive_key (read_ctx a) = 0" and len: "length pData = nat (page_sz c)"
    and r: "sqlite3Codec sqlcipher_ltc_setup c pData pgno mode w = Some (out, page, c', w')"
  shows "rekeying k a v (c', w')" "page_sz c' = page_sz c"
proof -
  have i: "ltc_up (w_prov w)" "ltc_wf c" "btree_ok (pBt c)" "header_ok 16 c" "same_read a c" using inv by (simp_all add: rekeying_def)
  have n: "ltc_wf c'" "codec_frame c c'" "ltc_up (w_prov w')" using ltc.codec_result [OF i(1-4) len, of pgno mode] r by auto
  have rd: "derive_key (read_ctx c) = 0" using i(5) a by (simp add: same_read_def)
  have "same_read a c'" using same_read_trans [OF i(5) read_codec [OF r rd]] .
  moreover have "case k of None \<Rightarrow> derive_key (write_ctx a) = 0 \<longrightarrow> same_write a c' | Some key \<Rightarrow> rekeyed key a v (c', w')"
    using inv rekeyed_codec [OF _ i(1-4) len r] same_write_codec [OF r rd] by (auto simp: rekeying_def same_write_def split: option.split)
  moreover have "btree_ok (pBt c')" using n(2) i(3) by (simp add: codec_frame_def btree_ok_def)
  moreover have "header_ok 16 c'" using n(2) i(4) by (simp add: codec_frame_header)
  ultimately show "rekeying k a v (c', w')" using n by (simp add: rekeying_def)
  show "page_sz c' = page_sz c" using n(2) by (simp add: codec_frame_def)
qed

lemma rekeying_calls:
  assumes "codec_calls sqlcipher_ltc_setup c cs w = Some (outs, c', w')" "\<forall>x \<in> set cs. length (fst x) = nat (page_sz c)"
    "rekeying k a v (c, w)" "derive_key (read_ctx a) = 0"
  shows "rekeying k a v (c', w')"
  using assms
proof (induction cs arbitrary: c w outs)
  case (Cons x cs)
  obtain pData pgno mode where x: "x = (pData, pgno, mode)" by (cases x)
  obtain out page d u where r: "sqlite3Codec sqlcipher_ltc_setup c pData pgno mode w = Some (out, page, d, u)" using Cons.prems(1) by (auto simp: x split: option.splits)
  obtain os where i: "codec_calls sqlcipher_ltc_setup d cs u = Some (os, c', w')" using Cons.prems(1) r by (auto simp: x split: option.splits)
  have len: "length pData = nat (page_sz c)" using Cons.prems(2) by (simp add: x)
  note d = rekeying_codec [OF Cons.prems(3,4) len r]
  have "\<forall>x \<in> set cs. length (fst x) = nat (page_sz d)" using Cons.prems(2) d(2) by simp
  from Cons.IH [OF i this d(1) Cons.prems(4)] show ?case .
qed simp

lemma rekeying_step:
  assumes "by_codec sqlcipher_ltc_setup x y" "rekeying k a v x" "derive_key (read_ctx a) = 0"
  shows "rekeying k a v y"
proof -
  obtain c w c' w' where xy: "x = (c, w)" "y = (c', w')" by (cases x, cases y)
  obtain cs outs where cs: "\<forall>c' \<in> set cs. length (fst c') = nat (page_sz c)" "codec_calls sqlcipher_ltc_setup c cs w = Some (outs, c', w')"
    using assms(1) by (auto simp: by_codec_def xy)
  from rekeying_calls [OF cs(2,1) assms(2) [unfolded xy] assms(3)] show ?thesis unfolding xy .
qed

lemma run_steps_inv:
  assumes "\<And>f x. f \<in> set fs \<Longrightarrow> Q x \<Longrightarrow> Q (snd (f x))" "Q x"
  shows "Q (snd (run_steps fs x))"
  using assms
proof (induction fs arbitrary: x)
  case (Cons f fs)
  obtain rc y where f: "f x = (rc, y)" by (rule prod.exhaust)
  then have "Q y" using Cons.prems(1) [of f x] Cons.prems(2) by simp
  then show ?case using Cons.IH [of y] Cons.prems(1) f by simp
qed simp

lemma rekey_run_inv:
  assumes B: "pager_calls sqlcipher_ltc_setup B" and r: "rekeying k a v (snd x)" "derive_key (read_ctx a) = 0"
  shows "rekeying k a v (snd (snd (rekey_run B x)))"
proof -
  obtain rc y where b: "pg_begin B x = (rc, y)" by (rule prod.exhaust)
  have y: "rekeying k a v (snd y)" using rekeying_step [OF pager_callsD(1) [OF B] r] b by simp
  have "rekeying k a v (snd (snd (f z)))" if "f \<in> set (page_steps B n)" "rekeying k a v (snd z)" for f n z
    using that(1) rekeying_step [OF pager_callsD(4) [OF B] that(2) r(2)] rekeying_step [OF pager_callsD(5) [OF B] that(2) r(2)]
      rekeying_step [OF pager_callsD(6) [OF B] that(2) r(2)] by (auto simp: page_steps_def)
  then have "rekeying k a v (snd (snd (run_steps (concat (map (page_steps B) ns)) y)))" for ns
    by (intro run_steps_inv [where Q = "\<lambda>z. rekeying k a v (snd z)"]) (auto simp: y)
  then show ?thesis using y by (simp add: rekey_run_def b Let_def)
qed

lemma rekey_transaction_result:
  assumes B: "pager_calls sqlcipher_ltc_setup B" and r: "rekeying k a v (c, w)" "derive_key (read_ctx a) = 0"
    and run: "rekey_run B (p, c, w) = (rc, y)" and t: "rekey_transaction B (p, c, w) = (p', c', w')"
  shows "ltc_wf c' \<and> (if rc = SQLITE_OK then same_read (c'\<lparr>read_ctx := write_ctx c'\<rparr>) c' else same_read a c') \<and>
    (case k of None \<Rightarrow> derive_key (write_ctx a) = 0 \<longrightarrow> same_write a c' | Some key \<Rightarrow> new_keys v a key (write_ctx c'))"
proof -
  have y: "rekeying k a v (snd y)" using rekey_run_inv [OF B, of k a v "(p, c, w)"] r run by simp
  show ?thesis
  proof (cases "rc = SQLITE_OK")
    case False
    then have "rekeying k a v (c', w')" using rekeying_step [OF pager_callsD(3) [OF B, of y SQLITE_ABORT_ROLLBACK] y r(2)] t by (simp add: rekey_transaction_run run)
    then show ?thesis using False by (auto simp: rekeying_def rekeyed_def split: option.splits)
  next
    case True
    obtain rc1 q d u where cm: "pg_commit B y = (rc1, q, d, u)" by (rule prod_cases4)
    have d: "rekeying k a v (d, u)" using rekeying_step [OF pager_callsD(2) [OF B] y r(2)] cm by simp
    then have wf: "ltc_wf d" by (simp add: rekeying_def)
    have wk: "case k of None \<Rightarrow> derive_key (write_ctx a) = 0 \<longrightarrow> same_write a d | Some key \<Rightarrow> new_keys v a key (write_ctx d)"
      using d by (auto simp: rekeying_def rekeyed_def split: option.splits)
    obtain k2 t2 v2 where cp: "sqlcipher_cipher_ctx_copy d (read_ctx d) (write_ctx d) u = (k2, t2, v2)" by (rule prod_cases3)
    have e: "c' = d\<lparr>read_ctx := t2\<rparr>" using t True cm cp by (simp add: rekey_transaction_run run sqlcipher_codec_key_copy_def)
    have "cipher_ctx_wf 32 (read_ctx d)" "cipher_ctx_wf 32 (write_ctx d)" using wf by (simp_all add: codec_wf_iff)
    note copy = copy_result [OF this key_sz_wf [OF wf] cp]
    have "ltc_wf c'" using wf copy(3) by (simp add: e codec_wf_iff)
    moreover have "same_read (c'\<lparr>read_ctx := write_ctx c'\<rparr>) c'" using copy(1) by (auto simp: e same_read_def)
    moreover have "write_ctx c' = write_ctx d" by (simp add: e)
    ultimately show ?thesis using True wk by (simp add: same_write_def split: option.splits)
  qed
qed

lemma rekey_start:
  assumes "key \<noteq> []" "length key < 2 ^ 31" "ltc_up (w_prov w)" "ltc_wf ctx" "btree_ok (pBt ctx)" "header_ok 16 ctx" "derive_key (read_ctx ctx) = 0"
    "FLAG_GET (cc_flags ctx) CIPHER_FLAG_HAS_KDF_SALT" "pass (read_ctx ctx) = None \<longrightarrow> pass_sz (read_ctx ctx) = 0"
    "sqlcipher_codec_ctx_set_pass ctx (Some key) 1 w = (rc1, ctx1, w1)"
  shows "rekeying (if rc1 = SQLITE_OK then Some key else None) ctx1 w1 (ctx1, w1)"
    "new_keys w1 ctx1 key t \<longleftrightarrow> new_keys w ctx key t" "read_ctx ctx1 = read_ctx ctx"
    "rc1 \<noteq> SQLITE_OK \<Longrightarrow> rc1 = SQLITE_NOMEM \<and> same_write ctx ctx1"
proof -
  have len: "length k < 2 ^ 31" if "Some key = Some k" for k using that assms(2) by simp
  note sp = codec_set_pass_result [OF assms(4) len assms(10)]
  have wf1: "ltc_wf ctx1" and h1: "heap_only w w1" and rc1: "rc1 = SQLITE_OK \<or> rc1 = SQLITE_NOMEM" using sp by blast+
  have form: "ctx1 = ctx\<lparr>write_ctx := write_ctx ctx1\<rparr>"
    using assms(10) by (auto simp: sqlcipher_codec_ctx_set_pass_def set_cctx_def split: prod.splits if_splits)
  define t1 where "t1 = write_ctx ctx1"
  have c1: "ctx1 = ctx\<lparr>write_ctx := t1\<rparr>" unfolding t1_def by (rule form)
  have ho: "header_ok 16 ctx1" using header_ok_cong [of ctx1 ctx 16] assms(6) by (simp add: c1)
  have m: "w_mask w1 = w_mask w" "w_defaults w1 = w_defaults w" "w_prov w1 = w_prov w" using heap_onlyD [OF h1] by simp_all
  show nk: "new_keys w1 ctx1 key t \<longleftrightarrow> new_keys w ctx key t" for t by (simp add: new_keys_def c1 m)
  show "read_ctx ctx1 = read_ctx ctx" by (simp add: c1)
  have w: "if rc1 = SQLITE_OK then pass (write_ctx ctx1) = Some key \<and> derive_key (write_ctx ctx1) = 1 else same_write ctx ctx1"
    using assms(1,10) by (auto simp: sqlcipher_codec_ctx_set_pass_def sqlcipher_cipher_ctx_set_pass_def get_cctx_def set_cctx_def same_write_def Let_def split: prod.splits if_splits)
  then show "rc1 \<noteq> SQLITE_OK \<Longrightarrow> rc1 = SQLITE_NOMEM \<and> same_write ctx ctx1" using rc1 by auto
  have "rekeyed key ctx1 w1 (ctx1, w1)" if "rc1 = SQLITE_OK"
    using w that assms(7-9) by (auto simp: rekeyed_def new_keys_def) (simp_all add: c1)
  then show "rekeying (if rc1 = SQLITE_OK then Some key else None) ctx1 w1 (ctx1, w1)"
    using assms(3,5) wf1 ho m by (simp add: rekeying_def same_write_def) (simp add: c1)
qed

section \<open>Properties\<close>

text \<open>
  C40: a rekey of a database that has a codec with keys and a salt fetches, writes and releases every page but that of the lock byte in order, until a step
  fails, and then commits or rolls back; its answer is \<open>SQLITE_OK\<close> in every case.  Whatever calls of the codec the pager makes on the way, the write context has in the end the
  keys that follow from the new passphrase, the salt and the settings; or, when no call has derived keys, that passphrase still to derive them from; or, when the new passphrase is the one that is stored for
  the read context, the keys of that context.  When all steps succeed the read context has the same keys as the write context, so the
  connection reads what it has written; otherwise it goes on reading with the old keys, although the write context keeps the new ones.  If there is no memory for
  the new passphrase the write context keeps its keys, the pages are written with those, and on success the read context gets them.  The pager is taken to change the
  context only by calls of the codec on whole pages, and a passphrase that has been wiped to have length 0.
\<close>

theorem rekey_outcome:
  assumes "fst ini" "key \<noteq> []" "length key < 2 ^ 31" "i < length (aDb db)"
    and "sqlite3StrICmp z [] \<noteq> 0" "sqlite3StrICmp (zDbSName (aDb db ! i)) z = 0" "\<forall>j < i. sqlite3StrICmp (zDbSName (aDb db ! j)) z \<noteq> 0"
    and "sqlcipherPagerGetCodec (aDb db ! i) = Some ctx" "ltc_up (w_prov w)" "ltc_wf ctx" "btree_ok (pBt ctx)" "header_ok 16 ctx" "derive_key (read_ctx ctx) = 0"
    and "FLAG_GET (cc_flags ctx) CIPHER_FLAG_HAS_KDF_SALT" "pass (read_ctx ctx) = None \<longrightarrow> pass_sz (read_ctx ctx) = 0"
    and "pager_calls sqlcipher_ltc_setup B"
    and "sqlcipher_codec_ctx_set_pass ctx (Some key) 1 w = (rc1, ctx1, w1)" "rekey_run B (p, ctx1, w1) = (rc, y)"
  shows "\<exists>db' ctx' p' w'. sqlite3_rekey_v2 B ini (Some db) (Some z) (Some key) (int (length key)) p w = Some (SQLITE_OK, Some db', p', w') \<and>
    sqlcipherPagerGetCodec (aDb db' ! i) = Some ctx' \<and> ltc_wf ctx' \<and> (\<forall>j. j \<noteq> i \<longrightarrow> aDb db' ! j = aDb db ! j) \<and>
    p' = (if rc = SQLITE_OK then fst (snd (pg_commit B y)) else fst (pg_rollback B SQLITE_ABORT_ROLLBACK y)) \<and>
    (if rc1 = SQLITE_OK then new_keys w ctx key (write_ctx ctx')
     else rc1 = SQLITE_NOMEM \<and> (derive_key (write_ctx ctx) = 0 \<longrightarrow> derive_key (write_ctx ctx') = 0 \<and> ck_key (write_ctx ctx') = ck_key (write_ctx ctx) \<and>
       ck_hmac_key (write_ctx ctx') = ck_hmac_key (write_ctx ctx))) \<and>
    (if rc = SQLITE_OK
     then derive_key (read_ctx ctx') = derive_key (write_ctx ctx') \<and> ck_key (read_ctx ctx') = ck_key (write_ctx ctx') \<and> ck_hmac_key (read_ctx ctx') = ck_hmac_key (write_ctx ctx')
     else derive_key (read_ctx ctx') = 0 \<and> ck_key (read_ctx ctx') = ck_key (read_ctx ctx) \<and> ck_hmac_key (read_ctx ctx') = ck_hmac_key (read_ctx ctx))"
proof -
  have ix: "sqlcipher_find_db_index (Some db) (Some z) = int i"
    using find_db_name_first [OF assms(4,6,7), of 0] assms(5) by (simp add: sqlcipher_find_db_index_def)
  obtain c where c: "db_pager (aDb db ! i) = Attached c" "c = ctx" using assms(8) by (auto simp: sqlcipherPagerGetCodec_def split: db_pager.splits)
  obtain p' ctx' w' where t: "rekey_transaction B (p, ctx1, w1) = (p', ctx', w')" by (rule prod_cases3)
  let ?db = "db\<lparr>aDb := (aDb db)[i := (aDb db ! i)\<lparr>db_pager := Attached ctx'\<rparr>]\<rparr>"
  have g: "sqlcipherPagerGetCodec ((aDb db ! i)\<lparr>db_pager := Attached x\<rparr>) = Some x" for x by (simp add: sqlcipherPagerGetCodec_def)
  have r: "sqlite3_rekey_v2 B ini (Some db) (Some z) (Some key) (int (length key)) p w = Some (SQLITE_OK, Some ?db, p', w')"
    using assms(1,2,4,8,17) c(1) t by (simp add: sqlite3_rekey_v2_def ix codec_set_pass_key_def g)
  let ?k = "if rc1 = SQLITE_OK then Some key else None"
  note re = rekey_start [OF assms(2,3,9-15,17)]
  have "derive_key (read_ctx ctx1) = 0" using re(3) assms(13) by simp
  note tr = rekey_transaction_result [OF assms(16) re(1) this assms(18) t]
  have p: "p' = (if rc = SQLITE_OK then fst (snd (pg_commit B y)) else fst (pg_rollback B SQLITE_ABORT_ROLLBACK y))"
    using t by (auto simp: rekey_transaction_run assms(18) split: prod.splits)
  have "if rc1 = SQLITE_OK then new_keys w ctx key (write_ctx ctx')
     else rc1 = SQLITE_NOMEM \<and> (derive_key (write_ctx ctx) = 0 \<longrightarrow> derive_key (write_ctx ctx') = 0 \<and> ck_key (write_ctx ctx') = ck_key (write_ctx ctx) \<and>
       ck_hmac_key (write_ctx ctx') = ck_hmac_key (write_ctx ctx))"
    using tr re(2,4) by (auto simp: same_write_def split: if_splits)
  then show ?thesis
    by (intro exI [of _ ?db] exI [of _ ctx'] exI [of _ p'] exI [of _ w'])
      (use r tr p re(3) assms(4,13) in \<open>auto simp: g same_read_def\<close>)
qed

text \<open>A pager of three pages, the second that of the lock byte, which notes its operations.\<close>

definition sample_ops :: "((nat \<times> u32) list, ltc_state) pager_ops" where
  "sample_ops = \<lparr>pg_begin = (\<lambda>(l, x). (SQLITE_OK, l @ [(0, 0)], x)), pg_count = (\<lambda>_. 3), pg_sj = (\<lambda>n. n = 2),
     pg_get = (\<lambda>n (l, x). (SQLITE_OK, l @ [(1, n)], x)), pg_write = (\<lambda>n (l, x). (SQLITE_OK, l @ [(2, n)], x)),
     pg_unref = (\<lambda>n (l, x). (l @ [(3, n)], x)), pg_commit = (\<lambda>(l, x). (SQLITE_OK, l @ [(4, 0)], x)), pg_rollback = (\<lambda>_ (l, x). (l @ [(5, 0)], x))\<rparr>"

definition rekey_ctx :: codec_ctx where
  "rekey_ctx = sample_ctx\<lparr>cc_flags := FLAG_SET (cc_flags sample_ctx) CIPHER_FLAG_HAS_KDF_SALT,
     read_ctx := sample_cipher_ctx\<lparr>derive_key := 0\<rparr>, write_ctx := sample_cipher_ctx\<lparr>derive_key := 0\<rparr>\<rparr>"

lemma rekey_ctx_ok:
  "ltc_wf rekey_ctx" "btree_ok (pBt rekey_ctx)" "header_ok 16 rekey_ctx" "derive_key (read_ctx rekey_ctx) = 0"
  "FLAG_GET (cc_flags rekey_ctx) CIPHER_FLAG_HAS_KDF_SALT" "pass (read_ctx rekey_ctx) = None \<longrightarrow> pass_sz (read_ctx rekey_ctx) = 0"
proof -
  show "ltc_wf rekey_ctx" using sample_wf by (simp add: rekey_ctx_def codec_wf_iff reserve_of_def cipher_ctx_wf_def sample_ctx_def sample_cipher_ctx_def sizes_wf_def)
  show "btree_ok (pBt rekey_ctx)" using sample_btree_ok by (simp add: rekey_ctx_def)
  show "header_ok 16 rekey_ctx" using sample_keyed(3) header_ok_cong [of rekey_ctx "sample_ctx\<lparr>read_ctx := sample_cipher_ctx\<lparr>derive_key := 0\<rparr>, write_ctx := sample_cipher_ctx\<lparr>derive_key := 0\<rparr>\<rparr>" 16]
    by (simp add: rekey_ctx_def header_ok_def)
  show "derive_key (read_ctx rekey_ctx) = 0" "FLAG_GET (cc_flags rekey_ctx) CIPHER_FLAG_HAS_KDF_SALT" "pass (read_ctx rekey_ctx) = None \<longrightarrow> pass_sz (read_ctx rekey_ctx) = 0"
    by (simp_all add: rekey_ctx_def sample_cipher_ctx_def)
qed

theorem rekey_outcome_witness:
  "\<exists>db' ctx' w'. sqlite3_rekey_v2 sample_ops (True, 0)
       (Some \<lparr>aDb = [sample_entry (Attached rekey_ctx)], nextPagesize = 0\<rparr>)
       (Some [109, 97, 105, 110]) (Some [120, 121]) 2 [] sample_world =
       Some (SQLITE_OK, Some db', [(0, 0), (1, 1), (2, 1), (3, 1), (1, 3), (2, 3), (3, 3), (4, 0)], w') \<and>
     sqlcipherPagerGetCodec (aDb db' ! 0) = Some ctx' \<and> ck_key (read_ctx ctx') = ck_key (write_ctx ctx') \<and> new_keys sample_world rekey_ctx [120, 121] (write_ctx ctx')"
proof -
  let ?db = "\<lparr>aDb = [sample_entry (Attached rekey_ctx)], nextPagesize = 0\<rparr>"
  have calls: "pager_calls sqlcipher_ltc_setup sample_ops"
  proof -
    have "by_codec sqlcipher_ltc_setup x x" for x :: "codec_ctx \<times> ltc_state world" by (cases x) (auto simp: by_codec_def intro: exI [of _ "[]"])
    then show ?thesis by (simp add: pager_calls_def sample_ops_def split_def)
  qed
  have z: "sqlite3StrICmp [109, 97, 105, 110] [] \<noteq> 0" "sqlite3StrICmp (zDbSName (aDb ?db ! 0)) [109, 97, 105, 110] = 0" "0 < length (aDb ?db)"
    "sqlcipherPagerGetCodec (aDb ?db ! 0) = Some rekey_ctx"
    by (simp_all add: sample_entry_def sqlite3StrICmp_iff UpperToLower_def sqlcipherPagerGetCodec_def)
  obtain rc1 c1 w1 where 1: "sqlcipher_codec_ctx_set_pass rekey_ctx (Some [120, 121]) 1 sample_world = (rc1, c1, w1)" by (rule prod_cases3)
  have "[1..<Suc 3] = [1, 2, 3]" by (simp add: upt_rec)
  then have run: "rekey_run sample_ops ([], c1, w1) = (SQLITE_OK, [(0, 0), (1, 1), (2, 1), (3, 1), (1, 3), (2, 3), (3, 3)], c1, w1)"
    by (simp add: rekey_run_def sample_ops_def page_steps_def Let_def)
  have "rc1 = SQLITE_OK" using codec_set_pass_result [OF rekey_ctx_ok(1) _ 1] sample_world_ok(3) by auto
  moreover have "length ([120, 121] :: bytes) < 2 ^ 31" "[120, 121] \<noteq> ([] :: bytes)" by simp_all
  note rekey_outcome [of "(True, 0)", OF _ this(2,1) z(3,1,2) _ z(4) sample_world_ok(1) rekey_ctx_ok calls 1 run]
  ultimately show ?thesis by (auto simp: sample_ops_def)
qed

end
