(* ===== verification/Lifecycle.thy ===== *)
theory Lifecycle
  imports Attach
begin

text \<open>
  The start and the end of the library: \<open>sqlcipher_extra_init\<close>, \<open>sqlcipher_extra_shutdown\<close> and
  the part of \<open>sqlite3_initialize\<close> that calls the former.  The static variables are the record
  \<open>library\<close>; a provider is an address in the list \<open>lib_provs\<close> with its structure in
  \<open>lib_prov\<close>, which is \<open>None\<close> once the memory of the structure is freed.  The context that
  \<open>ctx_init\<close> may store stays \<open>NULL\<close> with the provider of the build, so the error path never
  calls \<open>ctx_free\<close>.  Logging is not modelled, its settings are.
\<close>

section \<open>The state\<close>

definition SQLCIPHER_MUTEX_COUNT :: nat where "SQLCIPHER_MUTEX_COUNT = 8"
definition SQLCIPHER_LOG_NONE :: u32 where "SQLCIPHER_LOG_NONE = 0"
definition SQLCIPHER_LOG_WARN :: u32 where "SQLCIPHER_LOG_WARN = 2"
definition sqlcipher_shield_mask_sz :: u64 where "sqlcipher_shield_mask_sz = 32"
definition SIZEOF_PROVIDER :: u64 where "SIZEOF_PROVIDER = 144"

record 's library =
  lib_init :: bool
  lib_shutdown :: bool
  lib_init_error :: int
  lib_cleanup :: bool
  lib_atexit :: nat
  lib_log_set :: bool
  lib_log_level :: u32
  lib_log_device :: bool
  lib_log_file :: "string option"
  lib_mutex :: "nat option list"
  lib_heap :: private_heap
  lib_mask :: "nat option"
  lib_provs :: "nat list"
  lib_prov :: "nat \<Rightarrow> 's provider option"
  lib_state :: 's
  lib_extension :: bool

text \<open>What the system answers to the requests for mutexes and memory.\<close>

record os_answers =
  os_mutex :: "nat \<Rightarrow> nat option"
  os_heap :: "u64 \<Rightarrow> nat option"
  os_provider :: "nat option"
  os_mask :: "nat option"

text \<open>A call that does not return, or that uses a null or a dangling pointer.\<close>

datatype stuck = Blocked | Endless | Null_Pointer | Dangling_Pointer

section \<open>Initialisation\<close>

definition default_logging :: "'s library \<Rightarrow> 's library" where
  "default_logging l =
     (if lib_log_set l then l
      else let l = (if lib_log_level l = SQLCIPHER_LOG_NONE then l\<lparr>lib_log_level := SQLCIPHER_LOG_WARN\<rparr> else l);
               l = (if \<not> lib_log_device l \<and> lib_log_file l = None then l\<lparr>lib_log_file := Some ''stderr''\<rparr> else l)
           in l\<lparr>lib_log_set := True\<rparr>)"

fun alloc_mutexes :: "(nat \<Rightarrow> nat option) \<Rightarrow> nat \<Rightarrow> nat option list \<Rightarrow> bool \<times> nat option list" where
  "alloc_mutexes os i [] = (True, [])"
| "alloc_mutexes os i (m # ms) =
     (case (if m = None then os i else m) of
        None \<Rightarrow> (False, None # ms)
      | Some p \<Rightarrow> let (ok, ms) = alloc_mutexes os (Suc i) ms in (ok, Some p # ms))"

text \<open>What lies in \<open>n\<close> bytes from \<open>a\<close> is gone.\<close>

definition forget :: "nat \<Rightarrow> nat \<Rightarrow> (nat \<Rightarrow> 'p option) \<Rightarrow> nat \<Rightarrow> 'p option" where
  "forget a n f = (\<lambda>q. if a \<le> q \<and> q < a + n then None else f q)"

definition free_private_heap :: "'s library \<Rightarrow> 's library" where
  "free_private_heap l =
     (let h = lib_heap l in
      case ph_base h of None \<Rightarrow> l
      | Some p \<Rightarrow> l\<lparr>lib_heap := (sqlcipher_internal_free p (ph_sz h) h)\<lparr>ph_base := None\<rparr>,
                   lib_prov := forget p (unat (ph_sz h)) (lib_prov l)\<rparr>)"

definition free_shield_mask :: "'s library \<Rightarrow> 's library" where
  "free_shield_mask l =
     (case lib_mask l of None \<Rightarrow> l
      | Some p \<Rightarrow> l\<lparr>lib_heap := sqlcipher_internal_free p sqlcipher_shield_mask_sz (lib_heap l), lib_mask := None\<rparr>)"

definition free_mutexes :: "'s library \<Rightarrow> 's library" where
  "free_mutexes l = l\<lparr>lib_mutex := map (\<lambda>_. None) (lib_mutex l)\<rparr>"

text \<open>The label \<open>error\<close>.\<close>

definition init_failed :: "int \<Rightarrow> 's library \<Rightarrow> int \<times> 's library" where
  "init_failed rc l = (rc, (free_mutexes (free_shield_mask (free_private_heap l)))\<lparr>lib_init_error := rc\<rparr>)"

definition init_provider :: "'s provider \<Rightarrow> os_answers \<Rightarrow> 's library \<Rightarrow> stuck + int \<times> 's library" where
  "init_provider setup os l =
     (if sqlcipher_get_provider (lib_provs l) \<noteq> None then Inr (SQLITE_OK, l)
      else case sqlcipher_malloc (os_provider os) SIZEOF_PROVIDER (lib_heap l) of
             None \<Rightarrow> Inl Endless
           | Some (None, _) \<Rightarrow> Inl Null_Pointer
           | Some (Some p, h) \<Rightarrow>
               let l = l\<lparr>lib_heap := h, lib_prov := (lib_prov l)(p \<mapsto> setup)\<rparr>;
                   (rc, ps, s) = sqlcipher_register_provider (\<lambda>q. Option.bind (lib_prov l q) p_init) (Some p)
                     (lib_provs l) (lib_state l)
               in Inr (rc, l\<lparr>lib_provs := ps, lib_state := s\<rparr>))"

text \<open>The four words of \<open>xoshiro_s\<close> in memory, and read back.\<close>

definition bytes_word :: "bytes \<Rightarrow> u64" where
  "bytes_word bs = foldr (\<lambda>b w. ucast b OR push_bit 8 w) bs 0"

definition seed_xoshiro :: "bytes \<Rightarrow> xoshiro" where
  "seed_xoshiro bs = (bytes_word (take 8 bs), bytes_word (take 8 (drop 8 bs)),
     bytes_word (take 8 (drop 16 bs)), bytes_word (take 8 (drop 24 bs)))"

definition xoshiro_bytes :: "xoshiro \<Rightarrow> bytes" where
  "xoshiro_bytes s = (case s of (a, b, c, d) \<Rightarrow> word_bytes a @ word_bytes b @ word_bytes c @ word_bytes d)"

text \<open>The shield mask: \<open>rc\<close> is what the variable held before, and still holds when the allocation fails.\<close>

definition init_mask :: "'s provider \<Rightarrow> os_answers \<Rightarrow> int \<Rightarrow> 's library \<Rightarrow> bool \<times> int \<times> 's library" where
  "init_mask P os rc l =
     (if lib_mask l \<noteq> None then (True, rc, l)
      else case sqlcipher_internal_malloc (os_mask os) sqlcipher_shield_mask_sz (lib_heap l) of
             (None, h) \<Rightarrow> (False, rc, l\<lparr>lib_heap := h\<rparr>)
           | (Some p, h) \<Rightarrow>
               let buf = map (ph_ram h) [p..<p + unat sqlcipher_shield_mask_sz];
                   (rc, s, out) = p_random P (lib_state l) buf;
                   l = l\<lparr>lib_mask := Some p, lib_state := s, lib_heap := h\<lparr>ph_ram := write_ram p out (ph_ram h)\<rparr>\<rparr>
               in (rc = SQLITE_OK, rc, l))"

definition init_random :: "os_answers \<Rightarrow> 's library \<Rightarrow> stuck + int \<times> 's library" where
  "init_random os l =
     (case lib_provs l of [] \<Rightarrow> Inl Null_Pointer
      | q # _ \<Rightarrow>
          case lib_prov l q of None \<Rightarrow> Inl Dangling_Pointer
          | Some P \<Rightarrow>
              case p_ctx_init P (lib_state l) of None \<Rightarrow> Inl Blocked
              | Some (rc, s) \<Rightarrow>
                  let l = l\<lparr>lib_state := s\<rparr> in
                  if rc \<noteq> SQLITE_OK then Inr (init_failed rc l)
                  else let (rc, s, out) = p_random P (lib_state l) (xoshiro_bytes (ph_xoshiro (lib_heap l)));
                           l = l\<lparr>lib_state := s, lib_heap := (lib_heap l)\<lparr>ph_xoshiro := seed_xoshiro out\<rparr>\<rparr> in
                    if rc \<noteq> SQLITE_OK then Inr (init_failed rc l)
                    else let (ok, rc, l) = init_mask P os rc l in
                      if \<not> ok then Inr (init_failed rc l)
                      else case p_ctx_free P (lib_state l) of None \<Rightarrow> Inl Blocked
                           | Some (_, s) \<Rightarrow>
                               Inr (SQLITE_OK, l\<lparr>lib_state := s, lib_init := True, lib_shutdown := False, lib_extension := True\<rparr>))"

text \<open>From the check of the private heap on.\<close>

definition init_rest :: "'s provider \<Rightarrow> os_answers \<Rightarrow> 's library \<Rightarrow> stuck + int \<times> 's library" where
  "init_rest setup os l =
     (if ph_base (lib_heap l) = None then Inr (init_failed SQLITE_NOMEM l)
      else case init_provider setup os l of
             Inl e \<Rightarrow> Inl e
           | Inr (rc, l) \<Rightarrow> if rc \<noteq> SQLITE_OK then Inr (init_failed rc l) else init_random os l)"

definition sqlcipher_extra_init :: "'s provider \<Rightarrow> os_answers \<Rightarrow> 's library \<Rightarrow> stuck + int \<times> 's library" where
  "sqlcipher_extra_init setup os l =
     (if lib_init l then Inr (SQLITE_OK, l)
      else let l = (if \<not> lib_cleanup l then l\<lparr>lib_atexit := Suc (lib_atexit l), lib_cleanup := True\<rparr> else l);
               l = default_logging l;
               (ok, ms) = alloc_mutexes (os_mutex os) 0 (lib_mutex l);
               l = l\<lparr>lib_mutex := ms\<rparr> in
        if \<not> ok then Inr (init_failed SQLITE_NOMEM l)
        else let l = (if ph_base (lib_heap l) = None then l\<lparr>lib_heap := private_heap_init (os_heap os) (lib_heap l)\<rparr> else l) in
          init_rest setup os l)"

text \<open>
  \<open>sqlite3_initialize\<close>: \<open>isInit\<close> is the flag of the global configuration and \<open>engine\<close> the result of
  all that the engine does before.
\<close>

definition sqlite3_initialize ::
    "'s provider \<Rightarrow> int \<Rightarrow> os_answers \<Rightarrow> bool \<times> 's library \<Rightarrow> stuck + int \<times> bool \<times> 's library" where
  "sqlite3_initialize setup engine os g =
     (let (isInit, l) = g in
      if isInit then Inr (SQLITE_OK, True, l)
      else if engine \<noteq> SQLITE_OK then Inr (engine, False, l)
      else case sqlcipher_extra_init setup os l of Inl e \<Rightarrow> Inl e | Inr (rc, l) \<Rightarrow> Inr (rc, True, l))"

section \<open>Shutdown\<close>

fun free_providers :: "nat list \<Rightarrow> 's library \<Rightarrow> stuck + 's library" where
  "free_providers [] l = Inr l"
| "free_providers (p # ps) l =
     (case lib_prov l p of None \<Rightarrow> Inl Dangling_Pointer
      | Some P \<Rightarrow>
          let l = (case p_shutdown P of None \<Rightarrow> l | Some f \<Rightarrow> l\<lparr>lib_state := f (lib_state l)\<rparr>) in
          case sqlcipher_free p SIZEOF_PROVIDER (lib_heap l) of None \<Rightarrow> Inl Endless
          | Some h \<Rightarrow> free_providers ps (l\<lparr>lib_heap := h, lib_prov := (lib_prov l)(p := None)\<rparr>))"

definition shutdown_cleanup :: "'s library \<Rightarrow> 's library" where
  "shutdown_cleanup l = l\<lparr>lib_init := False, lib_init_error := SQLITE_ERROR, lib_shutdown := True\<rparr>"

definition sqlcipher_extra_shutdown :: "'s library \<Rightarrow> stuck + 's library" where
  "sqlcipher_extra_shutdown l =
     (if \<not> lib_init l \<or> lib_shutdown l then Inr (shutdown_cleanup l)
      else case free_providers (lib_provs l) (free_shield_mask l) of
             Inl e \<Rightarrow> Inl e
           | Inr l \<Rightarrow> Inr (shutdown_cleanup (free_mutexes (free_private_heap (l\<lparr>lib_provs := []\<rparr>)))))"

definition sqlite3_shutdown :: "bool \<times> 's library \<Rightarrow> stuck + bool \<times> 's library" where
  "sqlite3_shutdown g =
     (let (isInit, l) = g in
      if isInit then (case sqlcipher_extra_shutdown l of Inl e \<Rightarrow> Inl e | Inr l \<Rightarrow> Inr (False, l\<lparr>lib_extension := False\<rparr>))
      else Inr (False, l))"

section \<open>Lemmas\<close>

definition lib_fresh :: "'s library \<Rightarrow> bool" where
  "lib_fresh l \<longleftrightarrow> \<not> lib_init l \<and> lib_mutex l = replicate SQLCIPHER_MUTEX_COUNT None \<and> lib_mask l = None \<and> lib_provs l = [] \<and>
     ph_base (lib_heap l) = None \<and> ph_sz (lib_heap l) = SQLCIPHER_PRIVATE_HEAP_SIZE_DEFAULT"

definition torn_down :: "'s library \<Rightarrow> bool" where
  "torn_down l \<longleftrightarrow> \<not> lib_init l \<and> lib_mutex l = replicate SQLCIPHER_MUTEX_COUNT None \<and> lib_mask l = None \<and> ph_base (lib_heap l) = None"

definition heap_sizes :: "u64 list" where "heap_sizes = [49152, 32768, 16384]"

lemma alloc_mutexes_replicate:
  "alloc_mutexes os i (replicate n None) = (ok, ms) \<Longrightarrow>
     length ms = n \<and> (ok \<longleftrightarrow> (\<forall>k < n. os (i + k) \<noteq> None)) \<and> (ok \<longrightarrow> None \<notin> set ms)"
proof (induction n arbitrary: i ok ms)
  case (Suc n)
  have all: "(\<forall>k < Suc n. os (i + k) \<noteq> None) \<longleftrightarrow> os i \<noteq> None \<and> (\<forall>k < n. os (Suc i + k) \<noteq> None)"
    by (auto simp: less_Suc_eq_0_disj)
  obtain ok' ms' where r: "alloc_mutexes os (Suc i) (replicate n None) = (ok', ms')" by (rule prod.exhaust)
  from Suc.IH [OF r] Suc.prems r show ?case
    unfolding all by (auto simp: Let_def split: option.splits)
qed simp

lemma free_private_heap_simps [simp]:
  "lib_init (free_private_heap l) = lib_init l" "lib_mutex (free_private_heap l) = lib_mutex l"
  "lib_mask (free_private_heap l) = lib_mask l" "lib_provs (free_private_heap l) = lib_provs l"
  "lib_state (free_private_heap l) = lib_state l"
  "ph_base (lib_heap (free_private_heap l)) = None" "ph_sz (lib_heap (free_private_heap l)) = ph_sz (lib_heap l)"
  by (simp_all add: free_private_heap_def sqlcipher_internal_free_def case_prod_beta Let_def split: option.split)

lemma free_shield_mask_simps [simp]:
  "lib_init (free_shield_mask l) = lib_init l" "lib_mutex (free_shield_mask l) = lib_mutex l"
  "lib_mask (free_shield_mask l) = None" "lib_provs (free_shield_mask l) = lib_provs l" "lib_prov (free_shield_mask l) = lib_prov l"
  "lib_state (free_shield_mask l) = lib_state l" "ph_base (lib_heap (free_shield_mask l)) = ph_base (lib_heap l)"
  "ph_sz (lib_heap (free_shield_mask l)) = ph_sz (lib_heap l)" "ph_blocks (lib_heap (free_shield_mask l)) = ph_blocks (lib_heap l)"
  by (simp_all add: free_shield_mask_def sqlcipher_internal_free_def case_prod_beta Let_def split: option.split)

lemma default_logging_simps [simp]:
  "lib_init (default_logging l) = lib_init l" "lib_mutex (default_logging l) = lib_mutex l" "lib_mask (default_logging l) = lib_mask l"
  "lib_provs (default_logging l) = lib_provs l" "lib_prov (default_logging l) = lib_prov l"
  "lib_heap (default_logging l) = lib_heap l" "lib_state (default_logging l) = lib_state l"
  by (simp_all add: default_logging_def Let_def)

lemma free_private_heap_forgets:
  "ph_base (lib_heap l) = Some a \<Longrightarrow> a \<le> q \<Longrightarrow> q < a + unat (ph_sz (lib_heap l)) \<Longrightarrow> lib_prov (free_private_heap l) q = None"
  by (simp add: free_private_heap_def forget_def Let_def)

lemma map_None: "map (\<lambda>_. None) xs = replicate (length xs) None"
  by (simp add: map_replicate_const)

lemma init_failed_down:
  "\<not> lib_init l \<Longrightarrow> length (lib_mutex l) = SQLCIPHER_MUTEX_COUNT \<Longrightarrow> init_failed rc l = (rc', l') \<Longrightarrow>
    rc' = rc \<and> torn_down l' \<and> lib_init_error l' = rc \<and> lib_provs l' = lib_provs l \<and> ph_sz (lib_heap l') = ph_sz (lib_heap l) \<and>
    (\<forall>a q. ph_base (lib_heap l) = Some a \<longrightarrow> a \<le> q \<longrightarrow> q < a + unat (ph_sz (lib_heap l)) \<longrightarrow> lib_prov l' q = None)"
  by (auto simp: init_failed_def torn_down_def free_mutexes_def map_None free_private_heap_forgets)

text \<open>The requests for the private heap, the largest first.\<close>

lemma head_block_malloc:
  "ph_base (head_block p (snd (sqlcipher_internal_malloc (Some p) n h))) = Some p"
  "ph_sz (head_block p (snd (sqlcipher_internal_malloc (Some p) n h))) = ph_sz h"
  by (simp_all add: head_block_def sqlcipher_internal_malloc_def case_prod_beta)

lemma private_heap_init_step:
  "SQLCIPHER_PRIVATE_HEAP_SIZE_STEP \<le> ph_sz h \<Longrightarrow> os (ph_sz h) = None \<Longrightarrow>
     private_heap_init os h = private_heap_init os (h\<lparr>ph_sz := ph_sz h - SQLCIPHER_PRIVATE_HEAP_SIZE_STEP\<rparr>)"
  "SQLCIPHER_PRIVATE_HEAP_SIZE_STEP \<le> ph_sz h \<Longrightarrow> os (ph_sz h) = Some p \<Longrightarrow>
     private_heap_init os h = head_block p (snd (sqlcipher_internal_malloc (Some p) (ph_sz h) h))"
  "\<not> SQLCIPHER_PRIVATE_HEAP_SIZE_STEP \<le> ph_sz h \<Longrightarrow> private_heap_init os h = h"
  by (subst private_heap_init.simps, simp)+

lemma private_heap_init_base:
  assumes "ph_base h = None" "ph_sz h = SQLCIPHER_PRIVATE_HEAP_SIZE_DEFAULT"
  shows "ph_base (private_heap_init os h) = None \<longleftrightarrow> (\<forall>n \<in> set heap_sizes. os n = None)"
    "ph_base (private_heap_init os h) = None \<Longrightarrow> ph_sz (private_heap_init os h) = 0"
    "ph_base (private_heap_init os h) \<noteq> None \<Longrightarrow> ph_sz (private_heap_init os h) \<in> set heap_sizes"
proof -
  note simps = SQLCIPHER_PRIVATE_HEAP_SIZE_DEFAULT_def SQLCIPHER_PRIVATE_HEAP_SIZE_STEP_def private_heap_init_step
    head_block_malloc heap_sizes_def
  have "(ph_base (private_heap_init os h) = None \<longleftrightarrow> (\<forall>n \<in> set heap_sizes. os n = None)) \<and>
      (if ph_base (private_heap_init os h) = None then ph_sz (private_heap_init os h) = 0
       else ph_sz (private_heap_init os h) \<in> set heap_sizes)"
    using assms by (cases "os 49152"; cases "os 32768"; cases "os 16384") (simp_all add: simps)
  note all = this
  show "ph_base (private_heap_init os h) = None \<longleftrightarrow> (\<forall>n \<in> set heap_sizes. os n = None)"
    by (rule conjunct1 [OF all])
  show "ph_base (private_heap_init os h) = None \<Longrightarrow> ph_sz (private_heap_init os h) = 0"
    using conjunct2 [OF all] by (simp only: if_True)
  show "ph_base (private_heap_init os h) \<noteq> None \<Longrightarrow> ph_sz (private_heap_init os h) \<in> set heap_sizes"
    using conjunct2 [OF all] by (simp only: if_False)
qed

text \<open>The structure of the provider is the first block of the heap.\<close>

lemma provider_block:
  assumes "heap_wf h a (unat n) [(unat n - 16, False)]" "n \<in> set heap_sizes"
  shows "\<exists>h'. sqlcipher_malloc os SIZEOF_PROVIDER h = Some (Some (a + 16), h') \<and>
    heap_wf h' a (unat n) [(144, True), (unat n - 176, False)] \<and> ph_sz h' = ph_sz h \<and> ph_base h' = Some a"
proof -
  have n: "144 + 48 \<le> unat n - 16" using assms(2) by (auto simp: heap_sizes_def)
  have sz: "1 \<le> SIZEOF_PROVIDER" "unat SIZEOF_PROVIDER \<le> 2 ^ 64 - 8" "144 = rounded (unat SIZEOF_PROVIDER)"
    by (simp_all add: SIZEOF_PROVIDER_def rounded_def)
  have wf: "heap_wf h a (unat n) ([] @ (unat n - 16, False) # [])" using assms(1) by simp
  have "144 \<le> unat n - 16" using n by linarith
  from malloc_fits [OF wf sz this, of os] obtain h' where h': "sqlcipher_malloc os SIZEOF_PROVIDER h = Some (Some (a + 16), h')"
    "heap_wf h' a (unat n) (carve 144 (unat n - 16))" by auto
  moreover have "ph_sz h' = ph_sz h" using h'(1)
    by (auto simp: sqlcipher_malloc_def sqlcipher_internal_malloc_def take_block_def Let_def split: if_splits option.splits)
  ultimately show ?thesis using n by (auto simp: carve_def heap_wf_def)
qed

lemma ltc_random_frame:
  assumes "sqlcipher_ltc_random s buf = (rc, s', out)"
  shows "rc = SQLITE_OK" "length out = length buf" "l_held s' = l_held s" "ltc_init s' = ltc_init s"
    "ltc_ref_count s' = ltc_ref_count s" "ltc_up s \<Longrightarrow> ltc_up s'"
proof -
  obtain n out' prng where r: "fortuna_read (l_timed s) (en_now (l_env s 0)) (en_md (l_env s 0)) (en_tmp (l_env s 0)) buf (length buf)
      (l_prng s) = (n, out', prng)" by (rule prod_cases3)
  show "rc = SQLITE_OK" "length out = length buf" "l_held s' = l_held s" "ltc_init s' = ltc_init s"
    "ltc_ref_count s' = ltc_ref_count s" "ltc_up s \<Longrightarrow> ltc_up s'"
    using r assms length_fortuna_read [OF r] by (auto simp: sqlcipher_ltc_random_def next_env_def)
qed

lemma ltc_ctx_free_last:
  assumes "\<not> l_held s" "ltc_ref_count s = 1"
  shows "sqlcipher_ltc_ctx_free s = Some (SQLITE_OK, s\<lparr>ltc_ref_count := 0, l_prng := zero_prng\<rparr>)"
  using assms by (simp add: sqlcipher_ltc_ctx_free_def sqlcipher_ltc_deactivate_def Let_def split: prod.split)

definition same_layout :: "private_heap \<Rightarrow> private_heap \<Rightarrow> bool" where
  "same_layout h h' \<longleftrightarrow> ph_base h' = ph_base h \<and> ph_sz h' = ph_sz h \<and> ph_blocks h' = ph_blocks h"

definition idle_ltc :: "ltc_state \<Rightarrow> bool" where
  "idle_ltc s \<longleftrightarrow> ltc_up s \<and> ltc_init s = 1 \<and> \<not> l_held s \<and> ltc_ref_count s = 0 \<and> l_prng s = zero_prng"

lemma init_random_ltc:
  assumes "lib_provs l = [q]" "lib_prov l q = Some sqlcipher_ltc_setup" "lib_mask l = None"
    and act: "sqlcipher_ltc_activate (lib_state l) = Some (SQLITE_OK, s1)" "ltc_up s1" "ltc_init s1 = 1" "ltc_ref_count s1 = 1" "\<not> l_held s1"
  shows "os_mask os = None \<Longrightarrow> \<exists>s h. init_random os l = Inr (init_failed SQLITE_OK (l\<lparr>lib_state := s, lib_heap := h\<rparr>)) \<and>
      same_layout (lib_heap l) h"
    and "os_mask os = Some p \<Longrightarrow> \<exists>s h. init_random os l = Inr (SQLITE_OK, l\<lparr>lib_heap := h, lib_mask := Some p, lib_state := s,
        lib_init := True, lib_shutdown := False, lib_extension := True\<rparr>) \<and> same_layout (lib_heap l) h \<and> idle_ltc s"
proof -
  obtain rc2 s2 out2 where r2: "sqlcipher_ltc_random s1 (xoshiro_bytes (ph_xoshiro (lib_heap l))) = (rc2, s2, out2)" by (rule prod_cases3)
  note f2 = ltc_random_frame [OF r2]
  note start = init_random_def assms(1-3) list.case option.case ltc_setup_simps sqlcipher_ltc_ctx_init_def act(1) prod.case
  show "\<exists>s h. init_random os l = Inr (init_failed SQLITE_OK (l\<lparr>lib_state := s, lib_heap := h\<rparr>)) \<and> same_layout (lib_heap l) h"
    if "os_mask os = None"
    using that f2(1) r2
    by (intro exI [of _ s2] exI [of _ "(lib_heap l)\<lparr>ph_xoshiro := seed_xoshiro out2\<rparr>"])
      (simp add: start init_mask_def sqlcipher_internal_malloc_def Let_def same_layout_def)
  show "\<exists>s h. init_random os l = Inr (SQLITE_OK, l\<lparr>lib_heap := h, lib_mask := Some p, lib_state := s,
      lib_init := True, lib_shutdown := False, lib_extension := True\<rparr>) \<and> same_layout (lib_heap l) h \<and> idle_ltc s"
    if mask: "os_mask os = Some p"
  proof -
    define h where "h = (lib_heap l)\<lparr>ph_xoshiro := seed_xoshiro out2, ph_ram := write_ram p (replicate (unat sqlcipher_shield_mask_sz) 0) (ph_ram (lib_heap l))\<rparr>"
    obtain rc3 s3 out3 where r3: "sqlcipher_ltc_random s2 (map (ph_ram h) [p..<p + unat sqlcipher_shield_mask_sz]) = (rc3, s3, out3)"
      by (rule prod_cases3)
    note f3 = ltc_random_frame [OF r3]
    have up: "ltc_up (s3\<lparr>ltc_ref_count := 0, l_prng := zero_prng\<rparr>)"
      using f3(6) f2(6) act(2) by (subst ltc_up_cong [of _ s3]) simp_all
    have free: "sqlcipher_ltc_ctx_free s3 = Some (SQLITE_OK, s3\<lparr>ltc_ref_count := 0, l_prng := zero_prng\<rparr>)"
      using f2 f3 act by (intro ltc_ctx_free_last) simp_all
    show ?thesis
      using mask f2 f3 r2 r3 free act up
      by (intro exI [of _ "s3\<lparr>ltc_ref_count := 0, l_prng := zero_prng\<rparr>"] exI [of _ "h\<lparr>ph_ram := write_ram p out3 (ph_ram h)\<rparr>"])
        (simp add: start init_mask_def sqlcipher_internal_malloc_def Let_def same_layout_def idle_ltc_def h_def)
  qed
qed

definition cold_start :: "ltc_state \<Rightarrow> bool" where
  "cold_start s \<longleftrightarrow> ltc_cold s \<and> length (md_buf (en_md (l_env s 1))) = 64 \<and>
     (l_timed s \<longrightarrow> en_now (l_env s 1) \<noteq> en_now0 (l_env s 1) - 1)"

definition lib_up :: "ltc_state library \<Rightarrow> bool" where
  "lib_up l \<longleftrightarrow> lib_init l \<and> \<not> lib_shutdown l \<and> length (lib_mutex l) = SQLCIPHER_MUTEX_COUNT \<and> None \<notin> set (lib_mutex l) \<and>
     lib_mask l \<noteq> None \<and> idle_ltc (lib_state l) \<and>
     (\<exists>a. heap_wf (lib_heap l) a (unat (ph_sz (lib_heap l))) [(144, True), (unat (ph_sz (lib_heap l)) - 176, False)] \<and>
       lib_provs l = [a + 16] \<and> lib_prov l (a + 16) = Some sqlcipher_ltc_setup)"

definition mutexes_granted :: "os_answers \<Rightarrow> bool" where
  "mutexes_granted os \<longleftrightarrow> (\<forall>i < SQLCIPHER_MUTEX_COUNT. os_mutex os i \<noteq> None)"

definition heap_granted :: "os_answers \<Rightarrow> bool" where
  "heap_granted os \<longleftrightarrow> (\<exists>n \<in> set heap_sizes. os_heap os n \<noteq> None)"

text \<open>The state before the mutexes are allocated.\<close>

definition prepared :: "'s library \<Rightarrow> 's library" where
  "prepared l = default_logging (if \<not> lib_cleanup l then l\<lparr>lib_atexit := Suc (lib_atexit l), lib_cleanup := True\<rparr> else l)"

lemma prepared_simps [simp]:
  "lib_init (prepared l) = lib_init l" "lib_mutex (prepared l) = lib_mutex l" "lib_mask (prepared l) = lib_mask l"
  "lib_provs (prepared l) = lib_provs l" "lib_prov (prepared l) = lib_prov l"
  "lib_heap (prepared l) = lib_heap l" "lib_state (prepared l) = lib_state l"
  by (simp_all add: prepared_def)

lemma extra_init_steps:
  assumes "\<not> lib_init l" "lib_mutex l = replicate SQLCIPHER_MUTEX_COUNT None" "ph_base (lib_heap l) = None"
  obtains ms where "length ms = SQLCIPHER_MUTEX_COUNT"
    "\<not> mutexes_granted os \<Longrightarrow> sqlcipher_extra_init P os l = Inr (init_failed SQLITE_NOMEM ((prepared l)\<lparr>lib_mutex := ms\<rparr>))"
    "mutexes_granted os \<Longrightarrow> None \<notin> set ms"
    "mutexes_granted os \<Longrightarrow> sqlcipher_extra_init P os l =
      init_rest P os ((prepared l)\<lparr>lib_mutex := ms, lib_heap := private_heap_init (os_heap os) (lib_heap l)\<rparr>)"
proof -
  obtain ok ms where r: "alloc_mutexes (os_mutex os) 0 (replicate SQLCIPHER_MUTEX_COUNT None) = (ok, ms)" by (rule prod.exhaust)
  note ms = alloc_mutexes_replicate [OF r]
  have ok: "ok \<longleftrightarrow> mutexes_granted os" using ms by (simp add: mutexes_granted_def)
  have "sqlcipher_extra_init P os l = (let l = prepared l; (ok, ms) = alloc_mutexes (os_mutex os) 0 (lib_mutex l); l = l\<lparr>lib_mutex := ms\<rparr> in
        if \<not> ok then Inr (init_failed SQLITE_NOMEM l)
        else let l = (if ph_base (lib_heap l) = None then l\<lparr>lib_heap := private_heap_init (os_heap os) (lib_heap l)\<rparr> else l) in
          init_rest P os l)"
    using assms(1) unfolding sqlcipher_extra_init_def prepared_def Let_def by simp
  then have e: "sqlcipher_extra_init P os l = (if \<not> ok then Inr (init_failed SQLITE_NOMEM ((prepared l)\<lparr>lib_mutex := ms\<rparr>))
      else init_rest P os ((prepared l)\<lparr>lib_mutex := ms, lib_heap := private_heap_init (os_heap os) (lib_heap l)\<rparr>))"
    using assms(3) by (simp add: Let_def assms(2) r)
  show thesis
    by (rule that [of ms]) (use e ok ms in simp_all)
qed

text \<open>Without mutexes or without a heap everything is torn down.\<close>

lemma extra_init_no_memory:
  assumes "\<not> lib_init l" "lib_mutex l = replicate SQLCIPHER_MUTEX_COUNT None" "ph_base (lib_heap l) = None"
    and "\<not> mutexes_granted os \<or> ph_base (private_heap_init (os_heap os) (lib_heap l)) = None"
  shows "\<exists>l'. sqlcipher_extra_init P os l = Inr (SQLITE_NOMEM, l') \<and> torn_down l' \<and> lib_init_error l' = SQLITE_NOMEM \<and>
    lib_provs l' = lib_provs l \<and>
    ph_sz (lib_heap l') = ph_sz (if mutexes_granted os then private_heap_init (os_heap os) (lib_heap l) else lib_heap l)"
proof (rule extra_init_steps [OF assms(1-3), of os P])
  fix ms
  assume s: "length ms = SQLCIPHER_MUTEX_COUNT"
    "\<not> mutexes_granted os \<Longrightarrow> sqlcipher_extra_init P os l = Inr (init_failed SQLITE_NOMEM ((prepared l)\<lparr>lib_mutex := ms\<rparr>))"
    "mutexes_granted os \<Longrightarrow> sqlcipher_extra_init P os l =
      init_rest P os ((prepared l)\<lparr>lib_mutex := ms, lib_heap := private_heap_init (os_heap os) (lib_heap l)\<rparr>)"
  define l1 where "l1 = (if mutexes_granted os then (prepared l)\<lparr>lib_mutex := ms, lib_heap := private_heap_init (os_heap os) (lib_heap l)\<rparr>
      else (prepared l)\<lparr>lib_mutex := ms\<rparr>)"
  have "sqlcipher_extra_init P os l = Inr (init_failed SQLITE_NOMEM l1)"
    using assms(4) s(2,3) by (cases "mutexes_granted os") (simp_all add: l1_def init_rest_def)
  moreover obtain rc l' where f: "init_failed SQLITE_NOMEM l1 = (rc, l')" by (rule prod.exhaust)
  moreover have "lib_init l1 = lib_init l" "length (lib_mutex l1) = SQLCIPHER_MUTEX_COUNT" "lib_provs l1 = lib_provs l"
    "ph_sz (lib_heap l1) = ph_sz (if mutexes_granted os then private_heap_init (os_heap os) (lib_heap l) else lib_heap l)"
    using s(1) by (simp_all add: l1_def)
  ultimately show ?thesis using init_failed_down [of l1 SQLITE_NOMEM rc l'] assms(1) by simp
qed

text \<open>The size of the heap is never set again: once it is zero no request is made.\<close>

lemma extra_init_no_size:
  assumes "torn_down l" "ph_sz (lib_heap l) = 0"
  shows "\<exists>l'. sqlcipher_extra_init P os l = Inr (SQLITE_NOMEM, l') \<and> torn_down l' \<and> ph_sz (lib_heap l') = 0"
proof -
  have "private_heap_init (os_heap os) (lib_heap l) = lib_heap l"
    by (rule private_heap_init_step(3)) (simp add: assms(2) SQLCIPHER_PRIVATE_HEAP_SIZE_STEP_def)
  then show ?thesis using extra_init_no_memory [of l os P] assms by (auto simp: torn_down_def split: if_splits)
qed

lemma extra_init_with_heap:
  assumes "lib_fresh l" "cold_start (lib_state l)" "mutexes_granted os" "heap_granted os"
  shows "os_mask os = None \<Longrightarrow> \<exists>l' p. sqlcipher_extra_init sqlcipher_ltc_setup os l = Inr (SQLITE_OK, l') \<and> torn_down l' \<and>
      lib_init_error l' = SQLITE_OK \<and> lib_provs l' = [p] \<and> lib_prov l' p = None \<and> ph_sz (lib_heap l') \<in> set heap_sizes"
    and "os_mask os \<noteq> None \<Longrightarrow> \<exists>l'. sqlcipher_extra_init sqlcipher_ltc_setup os l = Inr (SQLITE_OK, l') \<and> lib_up l' \<and> lib_mask l' = os_mask os"
proof -
  have fresh: "\<not> lib_init l" "lib_mutex l = replicate SQLCIPHER_MUTEX_COUNT None" "ph_base (lib_heap l) = None"
    "ph_sz (lib_heap l) = SQLCIPHER_PRIVATE_HEAP_SIZE_DEFAULT" "lib_provs l = []" "lib_mask l = None"
    using assms(1) by (simp_all add: lib_fresh_def)
  define h where "h = private_heap_init (os_heap os) (lib_heap l)"
  have base: "ph_base h \<noteq> None" using assms(4) private_heap_init_base(1) [OF fresh(3,4), of "os_heap os"]
    unfolding h_def heap_granted_def by metis
  then obtain a where a: "ph_base h = Some a" by blast
  have sz: "ph_sz h \<in> set heap_sizes" using private_heap_init_base(3) [OF fresh(3,4)] base unfolding h_def by blast
  have wf: "heap_wf h a (unat (ph_sz h)) [(unat (ph_sz h) - 16, False)]"
    using init_wf [OF fresh(4,3)] a unfolding h_def by blast
  obtain h1 where m: "sqlcipher_malloc (os_provider os) SIZEOF_PROVIDER h = Some (Some (a + 16), h1)"
    "heap_wf h1 a (unat (ph_sz h)) [(144, True), (unat (ph_sz h) - 176, False)]" "ph_sz h1 = ph_sz h" "ph_base h1 = Some a"
    using provider_block [OF wf sz] by blast
  obtain ms where s: "length ms = SQLCIPHER_MUTEX_COUNT" "None \<notin> set ms"
    "sqlcipher_extra_init sqlcipher_ltc_setup os l = init_rest sqlcipher_ltc_setup os ((prepared l)\<lparr>lib_mutex := ms, lib_heap := h\<rparr>)"
    by (rule extra_init_steps [OF fresh(1-3), of os sqlcipher_ltc_setup]) (use assms(3) in \<open>simp add: h_def\<close>)
  define l1 where "l1 = (prepared l)\<lparr>lib_mutex := ms, lib_heap := h1, lib_prov := (lib_prov l)(a + 16 \<mapsto> sqlcipher_ltc_setup),
    lib_provs := [a + 16]\<rparr>"
  have prov: "init_provider sqlcipher_ltc_setup os ((prepared l)\<lparr>lib_mutex := ms, lib_heap := h\<rparr>) = Inr (SQLITE_OK, l1)"
    by (simp add: init_provider_def fresh sqlcipher_get_provider_def m(1) sqlcipher_register_provider_def ltc_setup_simps l1_def)
  have run: "sqlcipher_extra_init sqlcipher_ltc_setup os l = init_random os l1"
    by (simp add: s(3) init_rest_def a prov)
  obtain s1 where act: "sqlcipher_ltc_activate (lib_state l1) = Some (SQLITE_OK, s1)" "ltc_up s1" "ltc_init s1 = 1"
    "ltc_ref_count s1 = 1" "\<not> l_held s1"
    using activate_cold [of "lib_state l"] assms(2) by (auto simp: cold_start_def l1_def)
  have l1: "lib_provs l1 = [a + 16]" "lib_prov l1 (a + 16) = Some sqlcipher_ltc_setup" "lib_mask l1 = None"
    "lib_heap l1 = h1" "\<not> lib_init l1" "lib_mutex l1 = ms"
    by (simp_all add: l1_def fresh)
  note rand = init_random_ltc [OF l1(1-3) act, of os]
  show "\<exists>l' p. sqlcipher_extra_init sqlcipher_ltc_setup os l = Inr (SQLITE_OK, l') \<and> torn_down l' \<and>
      lib_init_error l' = SQLITE_OK \<and> lib_provs l' = [p] \<and> lib_prov l' p = None \<and> ph_sz (lib_heap l') \<in> set heap_sizes"
    if mask: "os_mask os = None"
  proof -
    obtain s' h' where r: "init_random os l1 = Inr (init_failed SQLITE_OK (l1\<lparr>lib_state := s', lib_heap := h'\<rparr>))" "same_layout h1 h'"
      using rand(1) mask l1(4) by auto
    obtain rc l' where f: "init_failed SQLITE_OK (l1\<lparr>lib_state := s', lib_heap := h'\<rparr>) = (rc, l')" by (rule prod.exhaust)
    have "16 < unat (ph_sz h)" using sz by (auto simp: heap_sizes_def)
    then show ?thesis using init_failed_down [OF _ _ f] r f l1 s(1) m(3,4) sz
      by (auto simp: run same_layout_def)
  qed
  show "\<exists>l'. sqlcipher_extra_init sqlcipher_ltc_setup os l = Inr (SQLITE_OK, l') \<and> lib_up l' \<and> lib_mask l' = os_mask os"
    if some: "os_mask os \<noteq> None"
  proof -
    obtain p where p: "os_mask os = Some p" using some by blast
    obtain s' h' where r: "init_random os l1 = Inr (SQLITE_OK, l1\<lparr>lib_heap := h', lib_mask := Some p, lib_state := s',
        lib_init := True, lib_shutdown := False, lib_extension := True\<rparr>)" "same_layout h1 h'" "idle_ltc s'"
      using rand(2) [OF p] l1(4) by auto
    have "heap_wf h' a (unat (ph_sz h')) [(144, True), (unat (ph_sz h') - 176, False)]"
      using r(2) m(2,3) by (simp add: heap_wf_def same_layout_def)
    then show ?thesis using r(3) s(1,2) l1 unfolding run r(1) p by (simp add: lib_up_def)
  qed
qed

lemma sqlcipher_free_size: "sqlcipher_free p n h = Some h' \<Longrightarrow> ph_sz h' = ph_sz h"
  by (auto simp: sqlcipher_free_def sqlcipher_internal_free_def merge_prev_def Let_def split: option.splits prod.splits)

text \<open>Every block that \<open>p\<close> may be, and what is left of the others.\<close>

lemma free_any:
  assumes "heap_wf h a N bs" "p \<in> fst ` set (live a bs) \<or> p < a \<or> a + N \<le> p"
  shows "\<exists>h' bs'. sqlcipher_free p n h = Some h' \<and> heap_wf h' a N bs' \<and> fst ` set (live a bs) - {p} \<subseteq> fst ` set (live a bs')"
proof (cases "p \<in> fst ` set (live a bs)")
  case True
  then obtain m where "(p, m) \<in> set (live a bs)" by auto
  then obtain xs ys where bs: "bs = xs @ (m, True) # ys" "p = a + extent xs + 16" using live_split by blast
  then obtain h' where "sqlcipher_free p n h = Some h'" "heap_wf h' a N (free_blocks xs m ys)"
    using free_found [of h a N xs m ys n] assms(1) by auto
  then show ?thesis by (intro exI [of _ h'] exI [of _ "free_blocks xs m ys"]) (auto simp: bs live_free_blocks)
next
  case False
  then obtain h' where "sqlcipher_free p n h = Some h'" "heap_wf h' a N bs"
    using free_foreign [of h a N bs p n] assms by auto
  then show ?thesis by (intro exI [of _ h'] exI [of _ bs]) auto
qed

lemma free_providers_ok:
  assumes "heap_wf (lib_heap l) a N bs" "distinct ps"
    and "\<forall>p \<in> set ps. lib_prov l p \<noteq> None \<and> (p \<in> fst ` set (live a bs) \<or> p < a \<or> a + N \<le> p)"
  shows "\<exists>l'. free_providers ps l = Inr l' \<and> lib_init l' = lib_init l \<and> lib_mutex l' = lib_mutex l \<and> lib_mask l' = lib_mask l \<and>
    ph_sz (lib_heap l') = ph_sz (lib_heap l) \<and> (\<forall>p. p \<in> set ps \<or> lib_prov l p = None \<longrightarrow> lib_prov l' p = None)"
  using assms
proof (induction ps arbitrary: l bs)
  case (Cons p ps)
  obtain P where P: "lib_prov l p = Some P" using Cons.prems(3) by auto
  obtain h' bs' where h': "sqlcipher_free p SIZEOF_PROVIDER (lib_heap l) = Some h'" "heap_wf h' a N bs'"
    "fst ` set (live a bs) - {p} \<subseteq> fst ` set (live a bs')"
    using free_any [OF Cons.prems(1), of p SIZEOF_PROVIDER] Cons.prems(3) by auto
  define l1 where "l1 = (case p_shutdown P of None \<Rightarrow> l | Some f \<Rightarrow> l\<lparr>lib_state := f (lib_state l)\<rparr>)\<lparr>lib_heap := h', lib_prov := (lib_prov l)(p := None)\<rparr>"
  have l1: "lib_heap l1 = h'" "lib_prov l1 = (lib_prov l)(p := None)" "lib_init l1 = lib_init l" "lib_mutex l1 = lib_mutex l" "lib_mask l1 = lib_mask l"
    by (simp_all add: l1_def split: option.split)
  have "free_providers (p # ps) l = free_providers ps l1"
    using P h'(1) by (simp add: Let_def l1_def split: option.split)
  moreover have "\<forall>q \<in> set ps. lib_prov l1 q \<noteq> None \<and> (q \<in> fst ` set (live a bs') \<or> q < a \<or> a + N \<le> q)"
  proof
    fix q assume "q \<in> set ps"
    then have q: "q \<noteq> p" "lib_prov l q \<noteq> None" "q \<in> fst ` set (live a bs) \<or> q < a \<or> a + N \<le> q" using Cons.prems(2,3) by auto
    then have "q \<in> fst ` set (live a bs') \<or> q < a \<or> a + N \<le> q" using h'(3) by blast
    then show "lib_prov l1 q \<noteq> None \<and> (q \<in> fst ` set (live a bs') \<or> q < a \<or> a + N \<le> q)" using q by (simp add: l1)
  qed
  ultimately show ?case
    using Cons.IH [of l1 bs'] Cons.prems(2) h'(2) sqlcipher_free_size [OF h'(1)] by (auto simp: l1)
qed simp

text \<open>The list of providers and the heap of a library in use.\<close>

definition providers_ok :: "'s library \<Rightarrow> nat \<Rightarrow> nat \<Rightarrow> block_list \<Rightarrow> bool" where
  "providers_ok l a N bs \<longleftrightarrow> heap_wf (lib_heap l) a N bs \<and> distinct (lib_provs l) \<and>
     (\<forall>p \<in> set (lib_provs l). lib_prov l p \<noteq> None \<and> (p \<in> fst ` set (live a bs) \<or> p < a \<or> a + N \<le> p))"

text \<open>A process that has just started, and a system that grants all but the shield mask.\<close>

definition blank_library :: "ltc_state library" where
  "blank_library = \<lparr>lib_init = False, lib_shutdown = False, lib_init_error = SQLITE_ERROR, lib_cleanup = False, lib_atexit = 0,
     lib_log_set = False, lib_log_level = SQLCIPHER_LOG_NONE, lib_log_device = False, lib_log_file = None,
     lib_mutex = replicate SQLCIPHER_MUTEX_COUNT None, lib_heap = blank_heap, lib_mask = None, lib_provs = [],
     lib_prov = (\<lambda>_. None), lib_state = cold_ltc, lib_extension = False\<rparr>"

definition no_mask :: os_answers where
  "no_mask = \<lparr>os_mutex = Some, os_heap = (\<lambda>_. Some 4096), os_provider = None, os_mask = None\<rparr>"

lemma blank_library_ok: "lib_fresh blank_library" "cold_start (lib_state blank_library)" "mutexes_granted no_mask"
  "heap_granted no_mask" "os_mask no_mask = None" "\<forall>n \<in> set heap_sizes. os_heap no_mask n \<noteq> None"
  unfolding heap_granted_def
  by (auto simp: lib_fresh_def cold_start_def blank_library_def blank_heap_def cold_ltc_def warm_ltc_def ltc_cold_def
      mutexes_granted_def no_mask_def heap_sizes_def SQLCIPHER_PRIVATE_HEAP_SIZE_DEFAULT_def)

definition used_library :: "ltc_state library" where
  "used_library = blank_library\<lparr>lib_init := True, lib_heap := private_heap_init (\<lambda>_. Some 4096) blank_heap, lib_mask := Some 99,
     lib_provs := [99999], lib_prov := [99999 \<mapsto> sqlcipher_ltc_setup]\<rparr>"

section \<open>Properties\<close>

text \<open>
  C23: in a new process the initialisation always returns.  Without a mutex or without a private heap of any of the
  three sizes it reports \<open>SQLITE_NOMEM\<close> and gives everything back, and after the latter the size of the
  heap stays zero and no later initialisation can succeed.  Without the shield mask it gives everything back but reports
  \<open>SQLITE_OK\<close>.  Otherwise all is set up: the provider in the first block of a well-formed heap,
  the mask, and the provider idle with its tables filled.
\<close>

theorem extra_init_outcome:
  assumes "lib_fresh l" "cold_start (lib_state l)"
  shows "\<exists>rc l'. sqlcipher_extra_init sqlcipher_ltc_setup os l = Inr (rc, l') \<and>
    (if \<not> mutexes_granted os then rc = SQLITE_NOMEM \<and> torn_down l' \<and> lib_init_error l' = SQLITE_NOMEM \<and> lib_provs l' = []
     else if \<not> heap_granted os then rc = SQLITE_NOMEM \<and> torn_down l' \<and> lib_init_error l' = SQLITE_NOMEM \<and> lib_provs l' = [] \<and>
       (\<exists>l''. sqlcipher_extra_init sqlcipher_ltc_setup os' l' = Inr (SQLITE_NOMEM, l''))
     else if os_mask os = None then rc = SQLITE_OK \<and> torn_down l' \<and> lib_init_error l' = SQLITE_OK
     else rc = SQLITE_OK \<and> lib_up l' \<and> lib_mask l' = os_mask os)"
proof -
  have fresh: "\<not> lib_init l" "lib_mutex l = replicate SQLCIPHER_MUTEX_COUNT None" "ph_base (lib_heap l) = None"
    "ph_sz (lib_heap l) = SQLCIPHER_PRIVATE_HEAP_SIZE_DEFAULT" "lib_provs l = []"
    using assms(1) by (simp_all add: lib_fresh_def)
  note none = extra_init_no_memory [OF fresh(1-3), of os sqlcipher_ltc_setup]
  consider (mutex) "\<not> mutexes_granted os" | (heap) "mutexes_granted os" "\<not> heap_granted os" | (ok) "mutexes_granted os" "heap_granted os" by blast
  then show ?thesis
  proof cases
    case mutex
    then show ?thesis using none fresh(5) by auto
  next
    case heap
    then have base: "ph_base (private_heap_init (os_heap os) (lib_heap l)) = None"
      using private_heap_init_base(1) [OF fresh(3,4), of "os_heap os"] unfolding heap_granted_def by metis
    then obtain l' where l': "sqlcipher_extra_init sqlcipher_ltc_setup os l = Inr (SQLITE_NOMEM, l')" "torn_down l'"
      "lib_init_error l' = SQLITE_NOMEM" "lib_provs l' = []" "ph_sz (lib_heap l') = 0"
      using none heap(1) fresh(5) private_heap_init_base(2) [OF fresh(3,4) base] by auto
    then show ?thesis using extra_init_no_size [OF l'(2,5), of sqlcipher_ltc_setup os'] heap by auto
  next
    case ok
    then show ?thesis using extra_init_with_heap [OF assms ok] by (cases "os_mask os = None") auto
  qed
qed

theorem extra_init_outcome_witness:
  "\<exists>l'. sqlcipher_extra_init sqlcipher_ltc_setup (no_mask\<lparr>os_mask := Some 99\<rparr>) blank_library = Inr (SQLITE_OK, l') \<and> lib_up l' \<and>
     lib_mask l' = Some 99"
proof -
  have "mutexes_granted (no_mask\<lparr>os_mask := Some 99\<rparr>)" "heap_granted (no_mask\<lparr>os_mask := Some 99\<rparr>)"
    using blank_library_ok(3,4) by (simp_all add: mutexes_granted_def heap_granted_def)
  then show ?thesis
    using extra_init_outcome [OF blank_library_ok(1,2), of "no_mask\<lparr>os_mask := Some 99\<rparr>" no_mask] by auto
qed

text \<open>
  C24: when only the shield mask is refused, \<open>sqlite3_initialize\<close> succeeds and every \<open>sqlite3_key_v2\<close>
  returns \<open>SQLITE_OK\<close> without attaching a codec, so the database is written in plain text.  Initialising
  again does nothing; after \<open>sqlite3_shutdown\<close> the next initialisation calls the provider through a pointer
  into the freed heap.
\<close>

theorem failed_mask_leaves_no_encryption:
  assumes "lib_fresh l" "cold_start (lib_state l)" "mutexes_granted os" "heap_granted os" "os_mask os = None"
    and again: "mutexes_granted os'" "\<forall>n \<in> set heap_sizes. os_heap os' n \<noteq> None"
  shows "\<exists>l' l''. sqlite3_initialize sqlcipher_ltc_setup SQLITE_OK os (False, l) = Inr (SQLITE_OK, True, l') \<and>
    (\<forall>db zDb key n w. sqlite3_key_v2 sqlcipher_ltc_setup (lib_init l', lib_init_error l') db zDb key n w = Some (SQLITE_OK, db, w)) \<and>
    sqlite3_initialize sqlcipher_ltc_setup SQLITE_OK os' (True, l') = Inr (SQLITE_OK, True, l') \<and>
    sqlite3_shutdown (True, l') = Inr (False, l'') \<and>
    sqlite3_initialize sqlcipher_ltc_setup SQLITE_OK os' (False, l'') = Inl Dangling_Pointer"
proof -
  obtain l' p where l': "sqlcipher_extra_init sqlcipher_ltc_setup os l = Inr (SQLITE_OK, l')" "torn_down l'" "lib_init_error l' = SQLITE_OK"
    "lib_provs l' = [p]" "lib_prov l' p = None" "ph_sz (lib_heap l') \<in> set heap_sizes"
    using extra_init_with_heap(1) [OF assms(1-5)] by blast
  define l'' where "l'' = (shutdown_cleanup l')\<lparr>lib_extension := False\<rparr>"
  have down: "\<not> lib_init l''" "lib_mutex l'' = replicate SQLCIPHER_MUTEX_COUNT None" "ph_base (lib_heap l'') = None"
    using l'(2) by (simp_all add: l''_def shutdown_cleanup_def torn_down_def)
  obtain ms where s: "sqlcipher_extra_init sqlcipher_ltc_setup os' l'' =
      init_rest sqlcipher_ltc_setup os' ((prepared l'')\<lparr>lib_mutex := ms, lib_heap := private_heap_init (os_heap os') (lib_heap l'')\<rparr>)"
    by (rule extra_init_steps [OF down, of os' sqlcipher_ltc_setup]) (use again(1) in simp)
  have "ph_sz (lib_heap l'') \<in> set heap_sizes" using l'(6) by (simp add: l''_def shutdown_cleanup_def)
  then obtain q where q: "os_heap os' (ph_sz (lib_heap l'')) = Some q" "SQLCIPHER_PRIVATE_HEAP_SIZE_STEP \<le> ph_sz (lib_heap l'')"
    using again(2) by (auto simp: heap_sizes_def SQLCIPHER_PRIVATE_HEAP_SIZE_STEP_def)
  have base: "ph_base (private_heap_init (os_heap os') (lib_heap l'')) = Some q"
    using private_heap_init_step(2) [of "lib_heap l''" "os_heap os'", OF q(2,1)] by (simp add: head_block_malloc)
  have "sqlcipher_extra_init sqlcipher_ltc_setup os' l'' = Inl Dangling_Pointer"
  proof -
    have "lib_provs l'' = [p]" "lib_prov l'' p = None" using l'(4,5) by (simp_all add: l''_def shutdown_cleanup_def)
    then show ?thesis using base by (simp add: s init_rest_def init_provider_def init_random_def sqlcipher_get_provider_def)
  qed
  then have "sqlite3_initialize sqlcipher_ltc_setup SQLITE_OK os' (False, l'') = Inl Dangling_Pointer"
    by (simp add: sqlite3_initialize_def)
  moreover have "sqlite3_shutdown (True, l') = Inr (False, l'')"
    using l'(2) by (simp add: sqlite3_shutdown_def sqlcipher_extra_shutdown_def l''_def torn_down_def)
  moreover have "sqlite3_key_v2 sqlcipher_ltc_setup (lib_init l', lib_init_error l') db zDb key n w = Some (SQLITE_OK, db, w)" for db zDb key n w
    using l'(2,3) by (simp add: sqlite3_key_v2_def sqlcipherCodecAttach_def torn_down_def)
  ultimately show ?thesis using l'(1) by (intro exI [of _ l'] exI [of _ l'']) (simp add: sqlite3_initialize_def)
qed

theorem failed_mask_leaves_no_encryption_witness:
  "\<exists>l'. sqlite3_initialize sqlcipher_ltc_setup SQLITE_OK no_mask (False, blank_library) = Inr (SQLITE_OK, True, l') \<and>
     (\<forall>db zDb key n w. sqlite3_key_v2 sqlcipher_ltc_setup (lib_init l', lib_init_error l') db zDb key n w = Some (SQLITE_OK, db, w))"
  using failed_mask_leaves_no_encryption [OF blank_library_ok(1-5) blank_library_ok(3,6)] by blast

text \<open>
  C25: shutting down a library in use calls and frees every provider, frees the mask, the heap and the mutexes,
  leaves the state of a new process when the heap had its default size, and does nothing the second time.
\<close>

theorem shutdown_releases:
  assumes "lib_init l" "\<not> lib_shutdown l" "length (lib_mutex l) = SQLCIPHER_MUTEX_COUNT" "providers_ok l a N bs"
  shows "\<exists>l'. sqlcipher_extra_shutdown l = Inr l' \<and> torn_down l' \<and> lib_provs l' = [] \<and> lib_init_error l' = SQLITE_ERROR \<and>
    (\<forall>p \<in> set (lib_provs l). lib_prov l' p = None) \<and>
    (ph_sz (lib_heap l) = SQLCIPHER_PRIVATE_HEAP_SIZE_DEFAULT \<longrightarrow> lib_fresh l') \<and> sqlcipher_extra_shutdown l' = Inr l'"
proof -
  have ok: "heap_wf (lib_heap l) a N bs" "distinct (lib_provs l)"
    "\<forall>p \<in> set (lib_provs l). lib_prov l p \<noteq> None \<and> (p \<in> fst ` set (live a bs) \<or> p < a \<or> a + N \<le> p)"
    using assms(4) by (simp_all add: providers_ok_def)
  have "heap_wf (lib_heap (free_shield_mask l)) a N bs" using ok(1) by (simp add: heap_wf_def)
  from free_providers_ok [OF this ok(2)] ok(3) obtain l1 where l1: "free_providers (lib_provs l) (free_shield_mask l) = Inr l1"
    "lib_init l1 = lib_init l" "lib_mutex l1 = lib_mutex l" "lib_mask l1 = None" "ph_sz (lib_heap l1) = ph_sz (lib_heap l)"
    "\<forall>p \<in> set (lib_provs l). lib_prov l1 p = None" by auto
  define l' where "l' = shutdown_cleanup (free_mutexes (free_private_heap (l1\<lparr>lib_provs := []\<rparr>)))"
  have "sqlcipher_extra_shutdown l = Inr l'"
    using assms(1,2) by (simp add: sqlcipher_extra_shutdown_def l1(1) l'_def)
  moreover have "torn_down l'" "lib_provs l' = []" "lib_init_error l' = SQLITE_ERROR" "ph_sz (lib_heap l') = ph_sz (lib_heap l)"
    using l1 assms(3) by (simp_all add: l'_def shutdown_cleanup_def free_mutexes_def torn_down_def map_None)
  moreover have "lib_prov l' p = None" if "p \<in> set (lib_provs l)" for p
    using that l1(6) by (simp add: l'_def shutdown_cleanup_def free_mutexes_def free_private_heap_def forget_def Let_def split: option.split)
  moreover have "sqlcipher_extra_shutdown l' = Inr l'"
    by (simp add: sqlcipher_extra_shutdown_def l'_def shutdown_cleanup_def)
  ultimately show ?thesis by (auto simp: lib_fresh_def torn_down_def)
qed

theorem shutdown_releases_witness:
  "\<exists>l'. sqlcipher_extra_shutdown used_library = Inr l' \<and> lib_fresh l'"
proof -
  have "providers_ok used_library 4096 49152 [(49136, False)]"
    using blank_wf by (simp add: providers_ok_def used_library_def)
  moreover have "ph_sz (lib_heap used_library) = SQLCIPHER_PRIVATE_HEAP_SIZE_DEFAULT"
    by (simp add: used_library_def blank_init SQLCIPHER_PRIVATE_HEAP_SIZE_DEFAULT_def)
  ultimately show ?thesis
    using shutdown_releases [of used_library 4096 49152] by (auto simp: used_library_def blank_library_def)
qed

end
