(* ===== verification/Migrate.thy ===== *)
theory Migrate
  imports Rekey
begin

text \<open>
  Migration of a database in the format of an older version: \<open>sqlcipher_codec_ctx_migrate\<close>, which
  exports it to a new file and renames that file over the old one, and \<open>sqlcipher_check_connection\<close>,
  by which it finds the version.  The SQL engine and the file system are a record of operations on a state of
  their own, the connection and the world.
\<close>

unbundle bit_operations_syntax

section \<open>The engine\<close>

definition SQLITE_ROW :: int where "SQLITE_ROW = 100"

type_synonym ('e, 's) conn = "database \<times> 's world \<times> 'e"

text \<open>
  \<open>sqlite3_open\<close>, \<open>sqlite3_exec\<close>, \<open>sqlite3_prepare\<close>, \<open>sqlite3_step\<close> with the columns of the row as a number and a
  text, \<open>sqlite3_finalize\<close> and \<open>sqlite3_close\<close>; \<open>sqlite3_db_filename\<close>, \<open>autoCommit\<close>, \<open>nVdbeActive\<close>;
  \<open>sqlite3OsClose\<close> and \<open>sqlite3OsOpen\<close> of the file of a database of the connection, \<open>rename\<close>, \<open>sqlite3OsDelete\<close>,
  \<open>sqlite3pager_reset\<close> and \<open>sqlite3ResetAllSchemasOfConnection\<close>.  A statement that is prepared is part of the state.
\<close>

record ('e, 's) engine =
  en_open :: "bytes \<Rightarrow> 's world \<Rightarrow> 'e \<Rightarrow> int \<times> database option \<times> 's world \<times> 'e"
  en_exec :: "bytes \<Rightarrow> ('e, 's) conn \<Rightarrow> int \<times> ('e, 's) conn"
  en_prepare :: "bytes \<Rightarrow> ('e, 's) conn \<Rightarrow> int \<times> ('e, 's) conn"
  en_step :: "('e, 's) conn \<Rightarrow> int \<times> int \<times> bytes \<times> ('e, 's) conn"
  en_finalize :: "('e, 's) conn \<Rightarrow> ('e, 's) conn"
  en_close :: "database option \<Rightarrow> 's world \<Rightarrow> 'e \<Rightarrow> 's world \<times> 'e"
  en_filename :: "('e, 's) conn \<Rightarrow> bytes option"
  en_autocommit :: "('e, 's) conn \<Rightarrow> bool"
  en_active :: "('e, 's) conn \<Rightarrow> int"
  en_os_close :: "nat \<Rightarrow> ('e, 's) conn \<Rightarrow> ('e, 's) conn"
  en_os_open :: "bytes \<Rightarrow> nat \<Rightarrow> ('e, 's) conn \<Rightarrow> int \<times> ('e, 's) conn"
  en_rename :: "bytes \<Rightarrow> bytes \<Rightarrow> ('e, 's) conn \<Rightarrow> int \<times> ('e, 's) conn"
  en_delete :: "bytes \<Rightarrow> ('e, 's) conn \<Rightarrow> int \<times> ('e, 's) conn"
  en_pager_reset :: "nat \<Rightarrow> ('e, 's) conn \<Rightarrow> ('e, 's) conn"
  en_reset_schemas :: "('e, 's) conn \<Rightarrow> ('e, 's) conn"

section \<open>Finding the version\<close>

text \<open>From the first query on: the user version and the journal mode are set as far as the queries get.\<close>

definition query_version :: "('e, 's) engine \<Rightarrow> int \<Rightarrow> bytes option \<Rightarrow> ('e, 's) conn \<Rightarrow> int \<times> int \<times> bytes option \<times> ('e, 's) conn" where
  "query_version E uv jm c =
     (let (rc, c) = en_prepare E (cstr ''PRAGMA user_version;'') c in
      if rc \<noteq> SQLITE_OK then (rc, uv, jm, c)
      else let (rc, v, _, c) = en_step E c in
        if rc \<noteq> SQLITE_ROW then (rc, uv, jm, en_finalize E c)
        else let uv = v;
                 c = en_finalize E c;
                 (rc, c) = en_prepare E (cstr ''PRAGMA journal_mode;'') c in
          if rc \<noteq> SQLITE_OK then (rc, uv, jm, c)
          else let (rc, _, t, c) = en_step E c in
            if rc \<noteq> SQLITE_ROW then (rc, uv, jm, en_finalize E c)
            else (SQLITE_OK, uv, Some t, en_finalize E c))"

definition sqlcipher_check_connection ::
    "'s provider \<Rightarrow> init_state \<Rightarrow> ('e, 's) engine \<Rightarrow> bytes \<Rightarrow> bytes \<Rightarrow> int \<Rightarrow> bytes \<Rightarrow> int \<Rightarrow> bytes option \<Rightarrow> 's world \<Rightarrow> 'e \<Rightarrow>
      (int \<times> int \<times> bytes option \<times> 's world \<times> 'e) option" where
  "sqlcipher_check_connection P ini E filename key nKey sql uv jm w e =
     (let (rc, db, w, e) = en_open E filename w e in
      if rc \<noteq> SQLITE_OK then Some (rc, uv, jm, en_close E db w e)
      else case sqlite3_key P ini db (Some key) nKey w of
             None \<Rightarrow> None
           | Some (rc, db, w) \<Rightarrow>
               if rc \<noteq> SQLITE_OK then Some (rc, uv, jm, en_close E db w e)
               else case db of None \<Rightarrow> None
                    | Some d \<Rightarrow>
                        let (rc, c) = en_exec E sql (d, w, e);
                            (rc, uv, jm, d, w, e) = (if rc \<noteq> SQLITE_OK then (rc, uv, jm, c) else query_version E uv jm c)
                        in Some (rc, uv, jm, en_close E (Some d) w e))"

definition pragma_compat :: "int \<Rightarrow> bytes" where
  "pragma_compat i = cstr ''PRAGMA cipher_compatibility = '' @ int_str i @ cstr '';''"

text \<open>The loop over the versions 3, 2 and 1: the one found, or the result of the last attempt.\<close>

fun find_version ::
    "'s provider \<Rightarrow> init_state \<Rightarrow> ('e, 's) engine \<Rightarrow> bytes \<Rightarrow> bytes \<Rightarrow> int \<Rightarrow> int list \<Rightarrow> int \<Rightarrow> int \<Rightarrow> bytes option \<Rightarrow> 's world \<Rightarrow> 'e \<Rightarrow>
      (int \<times> int option \<times> int \<times> bytes option \<times> 's world \<times> 'e) option" where
  "find_version P ini E filename key nKey [] rc uv jm w e = Some (rc, None, uv, jm, w, e)"
| "find_version P ini E filename key nKey (i # vs) rc uv jm w e =
     (case sqlcipher_check_connection P ini E filename key nKey (pragma_compat i) uv jm w e of
        None \<Rightarrow> None
      | Some (rc, uv, jm, w, e) \<Rightarrow>
          if rc = SQLITE_OK then Some (rc, Some i, uv, jm, w, e)
          else find_version P ini E filename key nKey vs rc uv jm w e)"

section \<open>The stages\<close>

text \<open>
  A stage goes on or jumps to \<open>handle_error\<close> with the value of \<open>rc\<close>; \<open>mg_alive\<close> says whether the context
  of the caller still exists.
\<close>

record ('e, 's) migration =
  mg_conn :: "('e, 's) conn"
  mg_alive :: bool

type_synonym ('e, 's) stage = "('e, 's) migration \<Rightarrow> (bool \<times> int \<times> ('e, 's) migration) option"

fun run_stages :: "('e, 's) stage list \<Rightarrow> int \<Rightarrow> ('e, 's) migration \<Rightarrow> (int \<times> ('e, 's) migration) option" where
  "run_stages [] rc m = Some (rc, m)"
| "run_stages (f # fs) rc m =
     (case f m of None \<Rightarrow> None | Some (go, rc, m) \<Rightarrow> if go then run_stages fs rc m else Some (rc, m))"

definition call_stage :: "(('e, 's) conn \<Rightarrow> int \<times> ('e, 's) conn) \<Rightarrow> ('e, 's) stage" where
  "call_stage f m = (let (rc, c) = f (mg_conn m) in Some (rc = SQLITE_OK, rc, m\<lparr>mg_conn := c\<rparr>))"

definition key_stage :: "'s provider \<Rightarrow> init_state \<Rightarrow> bytes \<Rightarrow> int \<Rightarrow> ('e, 's) stage" where
  "key_stage P ini key nKey m =
     (let (db, w, e) = mg_conn m in
      case sqlite3_key_v2 P ini (Some db) (Some (cstr ''migrate'')) (Some key) nKey w of
        Some (rc, Some db, w) \<Rightarrow> Some (rc = SQLITE_OK, rc, m\<lparr>mg_conn := (db, w, e)\<rparr>)
      | _ \<Rightarrow> None)"

text \<open>Neither of these jumps sets \<open>rc\<close>, which is \<open>SQLITE_OK\<close> there.\<close>

definition idle_stage :: "('e, 's) engine \<Rightarrow> ('e, 's) stage" where
  "idle_stage E m =
     (if \<not> en_autocommit E (mg_conn m) then Some (False, SQLITE_OK, m)
      else if en_active E (mg_conn m) > 1 then Some (False, SQLITE_OK, m)
      else Some (True, SQLITE_OK, m))"

text \<open>The page size of the main B-tree, with the reserve of the last database of the connection.\<close>

definition page_size_stage :: "('e, 's) stage" where
  "page_size_stage m =
     (let (db, w, e) = mg_conn m in
      if aDb db = [] then None
      else let nRes = sqlite3BtreeGetRequestedReserve (db_bts (last (aDb db)));
               d = aDb db ! 0; t = db_bts d;
               t = t\<lparr>bts_btsFlags := bts_btsFlags t AND NOT BTS_PAGESIZE_FIXED\<rparr>;
               (rc, t) = sqlite3BtreeSetPageSize t (default_page_size (w_defaults w)) nRes False
           in Some (rc = SQLITE_OK, rc, m\<lparr>mg_conn := (db\<lparr>aDb := (aDb db)[0 := d\<lparr>db_bts := t\<rparr>]\<rparr>, w, e)\<rparr>))"

definition put_codec :: "nat \<Rightarrow> codec_ctx \<Rightarrow> database \<Rightarrow> database" where
  "put_codec i ctx db = db\<lparr>aDb := (aDb db)[i := (aDb db ! i)\<lparr>db_pager := Attached ctx\<rparr>]\<rparr>"

text \<open>
  The key of the last database is attached to the main one, whatever comes of it.  When that replaces the codec of the main
  database, \<open>sqlcipherCodecAttach\<close> frees its context, which is that of the caller when \<open>i\<close> is 0.
\<close>

definition attach_frees :: "init_state \<Rightarrow> database \<Rightarrow> bytes option \<Rightarrow> int \<Rightarrow> bool" where
  "attach_frees ini db key nKey \<longleftrightarrow>
     fst ini \<and> key \<noteq> None \<and> nKey \<noteq> 0 \<and>
     (case sqlcipherPagerGetCodec (aDb db ! 0) of None \<Rightarrow> False
      | Some ctx \<Rightarrow> \<not> FLAG_GET (cc_flags ctx) CIPHER_FLAG_KEY_USED \<and> \<not> bt_sharable (pBt ctx))"

definition codec_stage :: "'s provider \<Rightarrow> init_state \<Rightarrow> nat \<Rightarrow> ('e, 's) stage" where
  "codec_stage P ini i m =
     (let (db, w, e) = mg_conn m in
      case sqlcipherCodecGetKey (Some db) (int (length (aDb db)) - 1) w of
        None \<Rightarrow> None
      | Some (keyspec, keyspec_sz, w) \<Rightarrow>
          case sqlcipherPagerGetCodec (aDb db ! i) of
            None \<Rightarrow> None
          | Some ctx \<Rightarrow>
              let db = put_codec i (ctx\<lparr>cc_flags := FLAG_UNSET (cc_flags ctx) CIPHER_FLAG_KEY_USED\<rparr>) db in
              case sqlcipherCodecAttach P ini (Some db) 0 keyspec keyspec_sz w of
                Some (_, Some db', w) \<Rightarrow>
                  Some (True, SQLITE_OK, m\<lparr>mg_conn := (db', w, e), mg_alive := \<not> (i = 0 \<and> attach_frees ini db keyspec keyspec_sz)\<rparr>)
              | _ \<Rightarrow> None)"

text \<open>The files: the last database is the source and the main one the destination.\<close>

definition close_stage :: "('e, 's) engine \<Rightarrow> ('e, 's) stage" where
  "close_stage E m =
     (let n = length (aDb (fst (mg_conn m))) - 1
      in Some (True, SQLITE_OK, m\<lparr>mg_conn := en_os_close E 0 (en_os_close E n (mg_conn m))\<rparr>))"

definition open_stage :: "('e, 's) engine \<Rightarrow> bytes \<Rightarrow> bool \<Rightarrow> ('e, 's) stage" where
  "open_stage E filename src m =
     call_stage (en_os_open E filename (if src then length (aDb (fst (mg_conn m))) - 1 else 0)) m"

definition reset_stage :: "('e, 's) engine \<Rightarrow> ('e, 's) stage" where
  "reset_stage E m = Some (True, SQLITE_OK, m\<lparr>mg_conn := en_pager_reset E 0 (mg_conn m)\<rparr>)"

definition migrated_name :: "bytes \<Rightarrow> bytes" where "migrated_name filename = filename @ cstr ''-migrated''"

definition export_stages :: "'s provider \<Rightarrow> init_state \<Rightarrow> ('e, 's) engine \<Rightarrow> bytes \<Rightarrow> bytes \<Rightarrow> int \<Rightarrow> int \<Rightarrow> int \<Rightarrow> ('e, 's) stage list" where
  "export_stages P ini E filename key nKey version user_version =
     [call_stage (en_exec E (pragma_compat version)),
      call_stage (en_exec E (cstr ''PRAGMA journal_mode = delete;'')),
      call_stage (en_exec E (cstr ''ATTACH DATABASE '' @ [39] @ migrated_name filename @ [39] @ cstr '' as migrate;'')),
      key_stage P ini key nKey,
      call_stage (en_exec E (cstr ''SELECT sqlcipher_export('' @ [39] @ cstr ''migrate'' @ [39] @ cstr '');'')),
      call_stage (en_exec E (cstr ''PRAGMA migrate.user_version = '' @ int_str user_version @ cstr '';''))]"

definition file_stages :: "'s provider \<Rightarrow> init_state \<Rightarrow> ('e, 's) engine \<Rightarrow> nat \<Rightarrow> bytes \<Rightarrow> ('e, 's) stage list" where
  "file_stages P ini E i filename =
     [idle_stage E, page_size_stage, codec_stage P ini i, close_stage E,
      call_stage (en_rename E (migrated_name filename) filename),
      open_stage E (migrated_name filename) True, open_stage E filename False, reset_stage E]"

section \<open>The end\<close>

definition keep_error :: "int \<Rightarrow> int \<Rightarrow> int" where "keep_error rc rc_cleanup = (if rc = SQLITE_OK then rc_cleanup else rc)"

text \<open>
  The label \<open>handle_error\<close>, which the migration reaches in every case; \<open>temp\<close> is the name of the new file once it is set.
  An error is put in the context of the caller.
\<close>

definition handle_error :: "('e, 's) engine \<Rightarrow> nat \<Rightarrow> bytes option \<Rightarrow> bytes option \<Rightarrow> int \<Rightarrow> ('e, 's) migration \<Rightarrow> (int \<times> ('e, 's) conn) option" where
  "handle_error E i temp journal_mode rc m =
     (let c = mg_conn m;
          (rc_cleanup, c) = en_exec E (cstr ''DETACH DATABASE migrate;'') c;
          rc = keep_error rc rc_cleanup;
          c = en_reset_schemas E c;
          (rc, c) = (case journal_mode of None \<Rightarrow> (rc, c)
                     | Some j \<Rightarrow> let (rc_cleanup, c) = en_exec E (cstr ''PRAGMA journal_mode = '' @ j @ cstr '';'') c
                                 in (keep_error rc rc_cleanup, c));
          c = (case temp of None \<Rightarrow> c | Some t \<Rightarrow> snd (en_delete E t c)) in
      if rc = SQLITE_OK then Some (rc, c)
      else if \<not> mg_alive m then None
      else let (db, w, e) = en_pager_reset E i c in
        case sqlcipherPagerGetCodec (aDb db ! i) of None \<Rightarrow> None
        | Some ctx \<Rightarrow> Some (rc, put_codec i (ctx\<lparr>cc_error := rc\<rparr>) db, w, e))"

text \<open>\<open>i\<close> is the database whose context the code is given.  The copy of the passphrase is not checked for \<open>NULL\<close>.\<close>

definition sqlcipher_codec_ctx_migrate ::
    "'s provider \<Rightarrow> init_state \<Rightarrow> ('e, 's) engine \<Rightarrow> nat \<Rightarrow> ('e, 's) conn \<Rightarrow> (int \<times> ('e, 's) conn) option" where
  "sqlcipher_codec_ctx_migrate P ini E i c =
     (case en_filename E c of None \<Rightarrow> Some (SQLITE_OK, c)
      | Some filename \<Rightarrow>
          if filename = [] then Some (SQLITE_OK, c)
          else let (db, w, e) = c in
            case sqlcipherPagerGetCodec (aDb db ! i) of None \<Rightarrow> None
            | Some ctx \<Rightarrow>
                let n = pass_sz (read_ctx ctx); (ok, w) = w_malloc (n + 1) w in
                if \<not> ok \<or> (pass (read_ctx ctx) = None \<and> n \<noteq> 0) then None
                else let key = (case pass (read_ctx ctx) of None \<Rightarrow> [] | Some p \<Rightarrow> take (nat n) p) in
                  case sqlcipher_check_connection P ini E filename key n [] 0 None w e of
                    None \<Rightarrow> None
                  | Some (rc, uv, jm, w, e) \<Rightarrow>
                      if rc = SQLITE_OK then Some (rc, db, w, e)
                      else case find_version P ini E filename key n [3, 2, 1] rc uv jm w e of
                        None \<Rightarrow> None
                      | Some (rc, None, uv, jm, w, e) \<Rightarrow> handle_error E i None jm rc \<lparr>mg_conn = (db, w, e), mg_alive = True\<rparr>
                      | Some (rc, Some version, uv, jm, w, e) \<Rightarrow>
                          let (ok, w) = w_malloc (int (length (migrated_name filename)) + 2) w in
                          if \<not> ok then None
                          else case run_stages (export_stages P ini E filename key n version uv @ file_stages P ini E i filename) rc
                                   \<lparr>mg_conn = (db, w, e), mg_alive = True\<rparr> of
                            None \<Rightarrow> None
                          | Some (rc, m) \<Rightarrow> handle_error E i (Some (migrated_name filename)) jm rc m)"

section \<open>Running the stages\<close>

text \<open>A stage that stops only with an error.\<close>

definition honest :: "('e, 's) stage \<Rightarrow> bool" where
  "honest f \<longleftrightarrow> (\<forall>m go rc m'. f m = Some (go, rc, m') \<longrightarrow> go = (rc = SQLITE_OK))"

lemma honest_stages:
  "honest (call_stage g)" "honest (key_stage P ini key n)" "honest page_size_stage" "honest (codec_stage P ini i)"
  "honest (close_stage E)" "honest (open_stage E f src)" "honest (reset_stage E)"
proof -
  have call: "honest (call_stage h)" for h :: "('x, 'y) conn \<Rightarrow> int \<times> ('x, 'y) conn"
    by (simp add: honest_def call_stage_def Let_def split: prod.split)
  show "honest (call_stage g)" by (rule call)
  show "honest (key_stage P ini key n)"
    by (auto simp: honest_def key_stage_def Let_def split: prod.splits option.splits)
  show "honest page_size_stage"
    by (simp add: honest_def page_size_stage_def Let_def split: prod.split)
  show "honest (codec_stage P ini i)"
    by (auto simp: honest_def codec_stage_def Let_def split: prod.splits option.splits)
  show "honest (close_stage E)" "honest (reset_stage E)"
    by (simp_all add: honest_def close_stage_def reset_stage_def Let_def)
  show "honest (open_stage E f src)"
    using call unfolding honest_def open_stage_def by blast
qed

lemma run_stages_append:
  "\<forall>f \<in> set fs. honest f \<Longrightarrow> run_stages (fs @ gs) SQLITE_OK m =
     (case run_stages fs SQLITE_OK m of None \<Rightarrow> None | Some (rc, m) \<Rightarrow> if rc = SQLITE_OK then run_stages gs SQLITE_OK m else Some (rc, m))"
proof (induction fs arbitrary: m)
  case (Cons f fs)
  show ?case
  proof (cases "f m")
    case (Some r)
    obtain go rc m1 where r: "r = (go, rc, m1)" by (rule prod_cases3)
    then have "go = (rc = SQLITE_OK)" using Some Cons.prems by (auto simp: honest_def)
    then show ?thesis using Cons.IH [of m1] Cons.prems Some r by (cases "rc = SQLITE_OK") simp_all
  qed simp
qed simp

lemma export_stages_honest: "\<forall>f \<in> set (export_stages P ini E filename key n version uv). honest f"
  by (simp add: export_stages_def honest_stages)

section \<open>From the call to the stages\<close>

text \<open>The version \<open>version\<close> has been found for the passphrase \<open>key\<close> and the stages start at \<open>m\<close>.\<close>

definition migration_starts ::
    "'s provider \<Rightarrow> init_state \<Rightarrow> ('e, 's) engine \<Rightarrow> nat \<Rightarrow> ('e, 's) conn \<Rightarrow> bytes \<Rightarrow> bytes \<Rightarrow> int \<Rightarrow> int \<Rightarrow> int \<Rightarrow> bytes option \<Rightarrow>
      ('e, 's) migration \<Rightarrow> bool" where
  "migration_starts P ini E i c filename key n version uv jm m \<longleftrightarrow>
     (\<exists>db w e ctx w0 rc1 uv1 jm1 w1 e1 w2 e2 w3.
       c = (db, w, e) \<and> en_filename E c = Some filename \<and> filename \<noteq> [] \<and> sqlcipherPagerGetCodec (aDb db ! i) = Some ctx \<and>
       n = pass_sz (read_ctx ctx) \<and> w_malloc (n + 1) w = (True, w0) \<and> (pass (read_ctx ctx) = None \<longrightarrow> n = 0) \<and>
       key = (case pass (read_ctx ctx) of None \<Rightarrow> [] | Some p \<Rightarrow> take (nat n) p) \<and>
       sqlcipher_check_connection P ini E filename key n [] 0 None w0 e = Some (rc1, uv1, jm1, w1, e1) \<and> rc1 \<noteq> SQLITE_OK \<and>
       find_version P ini E filename key n [3, 2, 1] rc1 uv1 jm1 w1 e1 = Some (SQLITE_OK, Some version, uv, jm, w2, e2) \<and>
       w_malloc (int (length (migrated_name filename)) + 2) w2 = (True, w3) \<and>
       m = \<lparr>mg_conn = (db, w3, e2), mg_alive = True\<rparr>)"

lemma migrate_from_start:
  assumes "migration_starts P ini E i c filename key n version uv jm m"
  shows "sqlcipher_codec_ctx_migrate P ini E i c =
    (case run_stages (export_stages P ini E filename key n version uv @ file_stages P ini E i filename) SQLITE_OK m of
       None \<Rightarrow> None | Some (rc, m) \<Rightarrow> handle_error E i (Some (migrated_name filename)) jm rc m)"
proof -
  obtain db w e ctx w0 rc1 uv1 jm1 w1 e1 w2 e2 w3 where c: "c = (db, w, e)" and name: "en_filename E c = Some filename" "filename \<noteq> []"
    and ctx: "sqlcipherPagerGetCodec (aDb db ! i) = Some ctx" and n: "n = pass_sz (read_ctx ctx)"
    and mem: "w_malloc (n + 1) w = (True, w0)" "pass (read_ctx ctx) = None \<longrightarrow> n = 0"
    and key: "key = (case pass (read_ctx ctx) of None \<Rightarrow> [] | Some p \<Rightarrow> take (nat n) p)"
    and check: "sqlcipher_check_connection P ini E filename key n [] 0 None w0 e = Some (rc1, uv1, jm1, w1, e1)" "rc1 \<noteq> SQLITE_OK"
    and find: "find_version P ini E filename key n [3, 2, 1] rc1 uv1 jm1 w1 e1 = Some (SQLITE_OK, Some version, uv, jm, w2, e2)"
    and m3: "w_malloc (int (length (migrated_name filename)) + 2) w2 = (True, w3)" and m: "m = \<lparr>mg_conn = (db, w3, e2), mg_alive = True\<rparr>"
    using assms unfolding migration_starts_def by metis
  have go: "\<not> (\<not> True \<or> (pass (read_ctx ctx) = None \<and> n \<noteq> 0))" using mem(2) by auto
  note name' = name(1) [unfolded c]
  show ?thesis
    unfolding sqlcipher_codec_ctx_migrate_def c name' option.case if_not_P [OF name(2)] Let_def prod.case ctx n [symmetric] mem(1) if_not_P [OF go]
      key [symmetric] check(1) if_not_P [OF check(2)] find m3 m by simp
qed

text \<open>Nothing but the stage of the renaming uses \<open>en_rename\<close>.\<close>

lemma rename_others:
  "en_open (E\<lparr>en_rename := f\<rparr>) = en_open E" "en_exec (E\<lparr>en_rename := f\<rparr>) = en_exec E" "en_prepare (E\<lparr>en_rename := f\<rparr>) = en_prepare E"
  "en_step (E\<lparr>en_rename := f\<rparr>) = en_step E" "en_finalize (E\<lparr>en_rename := f\<rparr>) = en_finalize E" "en_close (E\<lparr>en_rename := f\<rparr>) = en_close E"
  "en_filename (E\<lparr>en_rename := f\<rparr>) = en_filename E" "en_autocommit (E\<lparr>en_rename := f\<rparr>) = en_autocommit E" "en_active (E\<lparr>en_rename := f\<rparr>) = en_active E"
  "en_os_close (E\<lparr>en_rename := f\<rparr>) = en_os_close E" "en_delete (E\<lparr>en_rename := f\<rparr>) = en_delete E"
  "en_pager_reset (E\<lparr>en_rename := f\<rparr>) = en_pager_reset E" "en_reset_schemas (E\<lparr>en_rename := f\<rparr>) = en_reset_schemas E"
  by simp_all

lemma rename_unused [simp]:
  "query_version (E\<lparr>en_rename := f\<rparr>) = query_version E" "sqlcipher_check_connection P ini (E\<lparr>en_rename := f\<rparr>) = sqlcipher_check_connection P ini E"
  "export_stages P ini (E\<lparr>en_rename := f\<rparr>) = export_stages P ini E" "handle_error (E\<lparr>en_rename := f\<rparr>) = handle_error E"
  "idle_stage (E\<lparr>en_rename := f\<rparr>) = idle_stage E" "close_stage (E\<lparr>en_rename := f\<rparr>) = close_stage E"
proof -
  show q: "query_version (E\<lparr>en_rename := f\<rparr>) = query_version E" by (intro ext) (simp only: query_version_def rename_others)
  show "sqlcipher_check_connection P ini (E\<lparr>en_rename := f\<rparr>) = sqlcipher_check_connection P ini E"
    by (intro ext) (simp only: sqlcipher_check_connection_def rename_others q)
  show "export_stages P ini (E\<lparr>en_rename := f\<rparr>) = export_stages P ini E" "handle_error (E\<lparr>en_rename := f\<rparr>) = handle_error E"
    "idle_stage (E\<lparr>en_rename := f\<rparr>) = idle_stage E" "close_stage (E\<lparr>en_rename := f\<rparr>) = close_stage E"
    by (intro ext, simp only: export_stages_def handle_error_def idle_stage_def close_stage_def rename_others)+
qed

lemma find_version_rename [simp]:
  "find_version P ini (E\<lparr>en_rename := f\<rparr>) filename key nKey vs rc uv jm w e = find_version P ini E filename key nKey vs rc uv jm w e"
proof (induction vs arbitrary: rc uv jm w e)
  case (Cons i vs)
  then show ?case by (simp split: option.split)
qed simp

lemma find_version_found:
  "find_version P ini E filename key nKey vs rc uv jm w e = Some (rc', Some v, uv', jm', w', e') \<Longrightarrow> v \<in> set vs \<and> rc' = SQLITE_OK"
proof (induction vs arbitrary: rc uv jm w e)
  case (Cons i vs)
  then show ?case by (auto split: option.splits if_splits) blast+
qed simp

lemma migration_starts_rename [simp]:
  "migration_starts P ini (E\<lparr>en_rename := f\<rparr>) i c filename key n version uv jm m = migration_starts P ini E i c filename key n version uv jm m"
proof -
  have "en_filename (E\<lparr>en_rename := f\<rparr>) c = en_filename E c" by simp
  then show ?thesis unfolding migration_starts_def by (simp only: rename_unused find_version_rename)
qed

text \<open>The stages start, or it does not matter what a renaming would do.\<close>

lemma migrate_cases:
  obtains (same) "sqlcipher_codec_ctx_migrate P ini (E\<lparr>en_rename := f\<rparr>) i c = sqlcipher_codec_ctx_migrate P ini E i c"
    | (stages) filename key n version uv jm m where "migration_starts P ini E i c filename key n version uv jm m" "version \<in> {1, 2, 3}"
proof -
  obtain db w e where c: "c = (db, w, e)" by (rule prod_cases3)
  let ?same = "sqlcipher_codec_ctx_migrate P ini (E\<lparr>en_rename := f\<rparr>) i (db, w, e) = sqlcipher_codec_ctx_migrate P ini E i (db, w, e)"
  have "?same \<or> (\<exists>filename key n version uv jm m. migration_starts P ini E i (db, w, e) filename key n version uv jm m \<and> version \<in> {1, 2, 3})"
  proof (cases "en_filename E (db, w, e)")
    case None
    then show ?thesis by (simp add: sqlcipher_codec_ctx_migrate_def)
  next
    case name: (Some filename)
    show ?thesis
    proof (cases "filename = [] \<or> sqlcipherPagerGetCodec (aDb db ! i) = None")
      case True
      then show ?thesis using name by (auto simp: sqlcipher_codec_ctx_migrate_def)
    next
      case False
      then obtain ctx where nonempty: "filename \<noteq> []" and ctx: "sqlcipherPagerGetCodec (aDb db ! i) = Some ctx" by auto
      define n where "n = pass_sz (read_ctx ctx)"
      obtain ok w0 where mem: "w_malloc (n + 1) w = (ok, w0)" by (rule prod.exhaust)
      define key where "key = (case pass (read_ctx ctx) of None \<Rightarrow> [] | Some p \<Rightarrow> take (nat n) p)"
      have name': "en_filename (E\<lparr>en_rename := f\<rparr>) (db, w, e) = Some filename" using name by simp
      note def = sqlcipher_codec_ctx_migrate_def [of P ini E i "(db, w, e)", unfolded name option.case if_not_P [OF nonempty] Let_def prod.case ctx
          n_def [symmetric] mem key_def [symmetric]]
        sqlcipher_codec_ctx_migrate_def [of P ini "E\<lparr>en_rename := f\<rparr>" i "(db, w, e)", unfolded name' option.case if_not_P [OF nonempty] Let_def prod.case ctx
          n_def [symmetric] mem key_def [symmetric], unfolded rename_unused find_version_rename]
      show ?thesis
      proof (cases "ok \<and> (pass (read_ctx ctx) = None \<longrightarrow> n = 0)")
        case False
        then show ?thesis unfolding def by auto
      next
        case True
        then have "\<not> (\<not> ok \<or> (pass (read_ctx ctx) = None \<and> n \<noteq> 0))" by blast
        note def = def [unfolded if_not_P [OF this]]
        show ?thesis
        proof (cases "sqlcipher_check_connection P ini E filename key n [] 0 None w0 e")
          case None
          then show ?thesis unfolding def by simp
        next
          case (Some r)
          obtain rc1 uv1 jm1 w1 e1 where r: "r = (rc1, uv1, jm1, w1, e1)" by (rule prod_cases5)
          note check = Some [unfolded r]
          note def = def [unfolded check option.case prod.case]
          show ?thesis
          proof (cases "rc1 = SQLITE_OK \<or> find_version P ini E filename key n [3, 2, 1] rc1 uv1 jm1 w1 e1 = None")
            case True
            then show ?thesis unfolding def by (auto simp del: find_version.simps)
          next
            case False
            then obtain rc2 v uv2 jm2 w2 e2 where f: "rc1 \<noteq> SQLITE_OK" "find_version P ini E filename key n [3, 2, 1] rc1 uv1 jm1 w1 e1 = Some (rc2, v, uv2, jm2, w2, e2)"
              by (metis option.exhaust prod_cases6)
            note def = def [unfolded if_not_P [OF f(1)] f(2) option.case prod.case]
            show ?thesis
            proof (cases v)
              case None
              then show ?thesis unfolding def by simp
            next
              case (Some version)
              note v = find_version_found [OF f(2) [unfolded Some]]
              obtain ok3 w3 where m3: "w_malloc (int (length (migrated_name filename)) + 2) w2 = (ok3, w3)" by (rule prod.exhaust)
              show ?thesis
              proof (cases ok3)
                case False
                then show ?thesis unfolding def using Some m3 by simp
              next
                case ok3: True
                have mem': "w_malloc (n + 1) w = (True, w0)" "pass (read_ctx ctx) = None \<longrightarrow> n = 0"
                  and m3': "w_malloc (int (length (migrated_name filename)) + 2) w2 = (True, w3)" using mem True m3 ok3 by auto
                have f': "find_version P ini E filename key n [3, 2, 1] rc1 uv1 jm1 w1 e1 = Some (SQLITE_OK, Some version, uv2, jm2, w2, e2)"
                  using f(2) v Some by (simp del: find_version.simps)
                have "migration_starts P ini E i (db, w, e) filename key n version uv2 jm2 \<lparr>mg_conn = (db, w3, e2), mg_alive = True\<rparr>"
                  unfolding migration_starts_def
                  by (intro exI conjI) (rule refl name nonempty ctx n_def mem' key_def check f(1) f' m3')+
                moreover have "version \<in> {1, 2, 3}" using v by auto
                ultimately show ?thesis by blast
              qed
            qed
          qed
        qed
      qed
    qed
  qed
  then show thesis using same stages unfolding c by blast
qed

text \<open>What follows the check for a transaction and other statements, up to the renaming and after it.\<close>

definition before_rename :: "'s provider \<Rightarrow> init_state \<Rightarrow> ('e, 's) engine \<Rightarrow> nat \<Rightarrow> ('e, 's) stage list" where
  "before_rename P ini E i = [page_size_stage, codec_stage P ini i, close_stage E]"

definition after_rename :: "('e, 's) engine \<Rightarrow> bytes \<Rightarrow> ('e, 's) stage list" where
  "after_rename E filename = [open_stage E (migrated_name filename) True, open_stage E filename False, reset_stage E]"

lemma file_stages_idle:
  assumes "en_autocommit E (mg_conn m)" "en_active E (mg_conn m) \<le> 1"
  shows "run_stages (file_stages P ini E i filename) SQLITE_OK m =
    (case run_stages (before_rename P ini E i) SQLITE_OK m of None \<Rightarrow> None
     | Some (rc, m) \<Rightarrow> if rc = SQLITE_OK
         then let (rc, c) = en_rename E (migrated_name filename) filename (mg_conn m)
              in if rc = SQLITE_OK then run_stages (after_rename E filename) SQLITE_OK (m\<lparr>mg_conn := c\<rparr>) else Some (rc, m\<lparr>mg_conn := c\<rparr>)
         else Some (rc, m))"
proof -
  have h: "\<forall>f \<in> set (before_rename P ini E i). honest f" by (simp add: before_rename_def honest_stages)
  have "run_stages (file_stages P ini E i filename) SQLITE_OK m =
      run_stages (before_rename P ini E i @ call_stage (en_rename E (migrated_name filename) filename) # after_rename E filename) SQLITE_OK m"
    using assms by (simp add: file_stages_def idle_stage_def before_rename_def after_rename_def)
  then show ?thesis unfolding run_stages_append [OF h] by (simp add: call_stage_def Let_def split: option.split prod.split)
qed

lemma file_stages_busy:
  "\<not> en_autocommit E (mg_conn m) \<or> en_active E (mg_conn m) > 1 \<Longrightarrow> run_stages (file_stages P ini E i filename) SQLITE_OK m = Some (SQLITE_OK, m)"
  by (auto simp: file_stages_def idle_stage_def)

text \<open>The operations of the end of a migration leave the codec of database \<open>i\<close> attached.\<close>

definition has_codec :: "nat \<Rightarrow> ('e, 's) conn \<Rightarrow> bool" where
  "has_codec i c \<longleftrightarrow> i < length (aDb (fst c)) \<and> sqlcipherPagerGetCodec (aDb (fst c) ! i) \<noteq> None"

definition keeps_codec :: "nat \<Rightarrow> ('e, 's) engine \<Rightarrow> bool" where
  "keeps_codec i E \<longleftrightarrow> (\<forall>c. has_codec i c \<longrightarrow> has_codec i (snd (en_exec E (cstr ''DETACH DATABASE migrate;'') c)) \<and>
     has_codec i (en_reset_schemas E c) \<and> has_codec i (en_pager_reset E i c))"

lemma check_without_key:
  assumes "fst ini"
  shows "\<exists>rc w' e'. sqlcipher_check_connection P ini E filename key 0 sql uv jm w e = Some (rc, uv, jm, w', e') \<and> rc \<noteq> SQLITE_OK"
proof -
  obtain rc db w1 e1 where o: "en_open E filename w e = (rc, db, w1, e1)" by (rule prod_cases4)
  have k: "sqlite3_key P ini db (Some key) 0 w1 = Some (SQLITE_MISUSE, db, w1)"
    using assms by (simp add: sqlite3_key_def sqlite3_key_v2_def sqlcipherCodecAttach_def)
  show ?thesis by (cases "rc = SQLITE_OK"; cases "en_close E db w1 e1") (simp_all add: sqlcipher_check_connection_def o k SQLITE_MISUSE_def)
qed

lemma find_without_key:
  assumes "fst ini"
  shows "rc \<noteq> SQLITE_OK \<Longrightarrow> \<exists>rc' w' e'. find_version P ini E filename key 0 vs rc uv jm w e = Some (rc', None, uv, jm, w', e') \<and> rc' \<noteq> SQLITE_OK"
proof (induction vs arbitrary: rc w e)
  case (Cons i vs)
  obtain rc1 w1 e1 where "sqlcipher_check_connection P ini E filename key 0 (pragma_compat i) uv jm w e = Some (rc1, uv, jm, w1, e1)" "rc1 \<noteq> SQLITE_OK"
    using check_without_key [OF assms] by metis
  then show ?case using Cons.IH [of rc1 w1 e1] by simp
qed simp

lemma derived_wiped:
  assumes "sqlcipher_codec_key_derive P ctx0 w0 = (SQLITE_OK, ctx, w)" "store_pass ctx \<noteq> 1"
  shows "pass_sz (read_ctx ctx) = 0"
proof -
  obtain r1 x1 v1 where 1: "derive_read_ctx P ctx0 w0 = (r1, x1, v1)" by (rule prod_cases3)
  obtain r2 x2 v2 where 2: "derive_write_ctx P x1 v1 = (r2, x2, v2)" by (rule prod_cases3)
  show ?thesis using assms 1 2 by (auto simp: sqlcipher_codec_key_derive_def Let_def set_pass_none split: if_splits)
qed

section \<open>Examples\<close>

text \<open>
  An engine in which everything succeeds but the first query: the number of queries so far, and the contents of the two files.
\<close>

definition sample_engine :: "(nat \<times> nat \<times> nat, ltc_state) engine" where
  "sample_engine = \<lparr>en_open = (\<lambda>f w e. (SQLITE_OK, None, w, e)), en_exec = (\<lambda>sql c. (SQLITE_OK, c)), en_prepare = (\<lambda>sql c. (SQLITE_OK, c)),
     en_step = (\<lambda>(d, w, k, f, t). (if k = 0 then 101 else SQLITE_ROW, 7, cstr ''delete'', d, w, Suc k, f, t)),
     en_finalize = (\<lambda>c. c), en_close = (\<lambda>db w e. (w, e)), en_filename = (\<lambda>c. Some [97]), en_autocommit = (\<lambda>c. True), en_active = (\<lambda>c. 1),
     en_os_close = (\<lambda>n c. c), en_os_open = (\<lambda>f n c. (SQLITE_OK, c)), en_rename = (\<lambda>a b (d, w, k, f, t). (SQLITE_OK, d, w, k, t, t)),
     en_delete = (\<lambda>f c. (SQLITE_OK, c)), en_pager_reset = (\<lambda>n c. c), en_reset_schemas = (\<lambda>c. c)\<rparr>"

definition sample_connection :: database where
  "sample_connection = \<lparr>aDb = [sample_entry (Attached (sample_ctx\<lparr>store_pass := 1, read_ctx := (read_ctx sample_ctx)\<lparr>pass := Some [5], pass_sz := 1\<rparr>\<rparr>))],
     nextPagesize = 4096\<rparr>"

definition opening_engine :: "(nat \<times> nat \<times> nat, ltc_state) engine" where
  "opening_engine = sample_engine\<lparr>en_open := (\<lambda>f w e. (SQLITE_OK, Some sample_connection, w, e))\<rparr>"

lemma sample_start:
  "migration_starts sqlcipher_ltc_setup (False, SQLITE_OK) (opening_engine\<lparr>en_autocommit := (\<lambda>c. a)\<rparr>) 0 (sample_connection, sample_world, 0, 1, 2) [97] [5] 1 3 7
     (Some (cstr ''delete'')) \<lparr>mg_conn = (sample_connection, sample_world, 3, 1, 2), mg_alive = True\<rparr>"
proof -
  have mem: "w_malloc n sample_world = (True, sample_world)" if "1 \<le> n" for n
    using that by (simp add: w_malloc_def sample_world_def xmalloc_def)
  show ?thesis
    unfolding migration_starts_def
    by (simp add: opening_engine_def sample_engine_def sample_connection_def sample_entry_def sqlcipherPagerGetCodec_def mem migrated_name_def
        sqlcipher_check_connection_def query_version_def sqlite3_key_def sqlite3_key_v2_def sqlcipherCodecAttach_def SQLITE_ROW_def Let_def)
qed

lemma opening_autocommit: "opening_engine\<lparr>en_autocommit := (\<lambda>c. True)\<rparr> = opening_engine"
  by (simp add: opening_engine_def sample_engine_def)

lemma sample_exports:
  "run_stages (export_stages sqlcipher_ltc_setup (False, SQLITE_OK) (opening_engine\<lparr>en_autocommit := (\<lambda>c. a)\<rparr>) [97] [5] 1 3 7) SQLITE_OK
     \<lparr>mg_conn = (sample_connection, sample_world, 3, 1, 2), mg_alive = True\<rparr> =
   Some (SQLITE_OK, \<lparr>mg_conn = (sample_connection, sample_world, 3, 1, 2), mg_alive = True\<rparr>)"
  by (simp add: export_stages_def call_stage_def key_stage_def opening_engine_def sample_engine_def sqlite3_key_v2_def sqlcipherCodecAttach_def)

lemma sample_migration:
  "\<exists>db' w'. sqlcipher_codec_ctx_migrate sqlcipher_ltc_setup (False, SQLITE_OK) opening_engine 0 (sample_connection, sample_world, 0, 1, 2) =
     Some (SQLITE_OK, db', w', 3, 2, 2)"
proof -
  let ?m = "\<lparr>mg_conn = (sample_connection, sample_world, 3 :: nat, 1 :: nat, 2 :: nat), mg_alive = True\<rparr>"
  note start = sample_start [of True, unfolded opening_autocommit]
  note exports = sample_exports [of True, unfolded opening_autocommit]
  have "\<exists>db' w'. run_stages (file_stages sqlcipher_ltc_setup (False, SQLITE_OK) opening_engine 0 [97]) SQLITE_OK ?m =
      Some (SQLITE_OK, \<lparr>mg_conn = (db', w', 3, 2, 2), mg_alive = True\<rparr>)"
    by (simp add: file_stages_def idle_stage_def page_size_stage_def codec_stage_def close_stage_def open_stage_def reset_stage_def call_stage_def
        opening_engine_def sample_engine_def sample_connection_def sample_entry_def sample_bts_def sqlite3BtreeGetRequestedReserve_def
        sqlite3BtreeSetPageSize_def sample_world_def initial_defaults_def BTS_PAGESIZE_FIXED_def sqlcipherCodecGetKey_def sqlcipherPagerGetCodec_def
        w_malloc_def xmalloc_def sqlcipherCodecAttach_def attach_frees_def Let_def)
  then obtain db' w' where r: "run_stages (file_stages sqlcipher_ltc_setup (False, SQLITE_OK) opening_engine 0 [97]) SQLITE_OK ?m =
      Some (SQLITE_OK, \<lparr>mg_conn = (db', w', 3, 2, 2), mg_alive = True\<rparr>)" by blast
  show ?thesis
    unfolding migrate_from_start [OF start] run_stages_append [OF export_stages_honest] exports option.case prod.case if_P [OF refl] r
    by (simp add: handle_error_def keep_error_def opening_engine_def sample_engine_def)
qed

section \<open>Properties\<close>

text \<open>
  C26: whatever the engine and the file system answer, the new file is renamed over the old one only after every statement of the
  export has succeeded for one of the three old versions, with no transaction open and no other statement running, and after the new page size and the
  codec have been put in place and both files closed; there is one renaming, from the new name to that of the database.  In every other case what a
  migration does does not depend on what a renaming would do.
\<close>

theorem migrate_atomic:
  "sqlcipher_codec_ctx_migrate P ini (E\<lparr>en_rename := f\<rparr>) i c = sqlcipher_codec_ctx_migrate P ini E i c \<or>
   (\<exists>filename key n version uv jm m m1 m2. migration_starts P ini E i c filename key n version uv jm m \<and> version \<in> {1, 2, 3} \<and>
      run_stages (export_stages P ini E filename key n version uv) SQLITE_OK m = Some (SQLITE_OK, m1) \<and>
      en_autocommit E (mg_conn m1) \<and> en_active E (mg_conn m1) \<le> 1 \<and>
      run_stages [page_size_stage, codec_stage P ini i, close_stage E] SQLITE_OK m1 = Some (SQLITE_OK, m2) \<and>
      sqlcipher_codec_ctx_migrate P ini E i c =
        (let (rc, c2) = en_rename E (migrated_name filename) filename (mg_conn m2) in
         case (if rc = SQLITE_OK
               then run_stages [open_stage E (migrated_name filename) True, open_stage E filename False, reset_stage E] SQLITE_OK (m2\<lparr>mg_conn := c2\<rparr>)
               else Some (rc, m2\<lparr>mg_conn := c2\<rparr>)) of
           None \<Rightarrow> None | Some (rc, m3) \<Rightarrow> handle_error E i (Some (migrated_name filename)) jm rc m3))"
proof (cases rule: migrate_cases [where P = P and ini = ini and E = E and f = f and i = i and c = c])
  case same
  then show ?thesis ..
next
  case (stages filename key n version uv jm m)
  let ?E = "E\<lparr>en_rename := f\<rparr>"
  have starts: "migration_starts P ini ?E i c filename key n version uv jm m" using stages(1) by simp
  note def = migrate_from_start [OF stages(1), unfolded run_stages_append [OF export_stages_honest]]
    migrate_from_start [OF starts, unfolded run_stages_append [OF export_stages_honest], unfolded rename_unused]
  show ?thesis
  proof (cases "\<exists>m1. run_stages (export_stages P ini E filename key n version uv) SQLITE_OK m = Some (SQLITE_OK, m1)")
    case False
    then show ?thesis unfolding def by (auto split: option.splits)
  next
    case True
    then obtain m1 where x: "run_stages (export_stages P ini E filename key n version uv) SQLITE_OK m = Some (SQLITE_OK, m1)" by blast
    note def = def [unfolded x option.case prod.case if_P [OF refl]]
    show ?thesis
    proof (cases "en_autocommit E (mg_conn m1) \<and> en_active E (mg_conn m1) \<le> 1")
      case False
      then have "run_stages (file_stages P ini E i filename) SQLITE_OK m1 = Some (SQLITE_OK, m1)"
        "run_stages (file_stages P ini ?E i filename) SQLITE_OK m1 = Some (SQLITE_OK, m1)" by (auto intro!: file_stages_busy)
      then show ?thesis unfolding def by simp
    next
      case idle: True
      have b: "before_rename P ini ?E i = before_rename P ini E i" by (simp add: before_rename_def)
      have "run_stages (file_stages P ini F i filename) SQLITE_OK m1 = (case run_stages (before_rename P ini F i) SQLITE_OK m1 of None \<Rightarrow> None
          | Some (rc, m) \<Rightarrow> if rc = SQLITE_OK
              then let (rc, c) = en_rename F (migrated_name filename) filename (mg_conn m)
                   in if rc = SQLITE_OK then run_stages (after_rename F filename) SQLITE_OK (m\<lparr>mg_conn := c\<rparr>) else Some (rc, m\<lparr>mg_conn := c\<rparr>)
              else Some (rc, m))" if "F = E \<or> F = ?E" for F
        using idle that by (intro file_stages_idle) auto
      note runs = this [of E, OF disjI1, OF refl] this [of ?E, OF disjI2, OF refl, unfolded b]
      show ?thesis
      proof (cases "\<exists>m2. run_stages (before_rename P ini E i) SQLITE_OK m1 = Some (SQLITE_OK, m2)")
        case False
        then show ?thesis unfolding def runs by (auto split: option.splits)
      next
        case True
        then obtain m2 where m2: "run_stages (before_rename P ini E i) SQLITE_OK m1 = Some (SQLITE_OK, m2)" by blast
        then have "sqlcipher_codec_ctx_migrate P ini E i c =
          (let (rc, c2) = en_rename E (migrated_name filename) filename (mg_conn m2) in
           case (if rc = SQLITE_OK then run_stages (after_rename E filename) SQLITE_OK (m2\<lparr>mg_conn := c2\<rparr>) else Some (rc, m2\<lparr>mg_conn := c2\<rparr>)) of
             None \<Rightarrow> None | Some (rc, m3) \<Rightarrow> handle_error E i (Some (migrated_name filename)) jm rc m3)"
          unfolding def runs by (simp add: Let_def split: prod.split)
        then show ?thesis using stages x idle m2 unfolding before_rename_def after_rename_def by (intro disjI2 exI conjI) auto
      qed
    qed
  qed
qed

text \<open>
  C27: two ends that the code does not mean.  Inside a transaction or with another statement running the migration
  gives up after the export without an error of its own: it goes to the end with \<open>SQLITE_OK\<close>, and what it answers is what detaching the new database
  (which the engine refuses while that database has a transaction) and setting the journal mode back answer.  When the renaming fails after the attached key has replaced the
  codec of the caller, the error is written to the context that \<open>sqlcipherCodecAttach\<close> has freed.
\<close>

theorem migrate_unreported:
  assumes start: "migration_starts P ini E i c filename key n version uv jm m"
    and exported: "run_stages (export_stages P ini E filename key n version uv) SQLITE_OK m = Some (SQLITE_OK, m1)"
  shows "(\<not> en_autocommit E (mg_conn m1) \<or> en_active E (mg_conn m1) > 1 \<longrightarrow>
      sqlcipher_codec_ctx_migrate P ini E i c = handle_error E i (Some (migrated_name filename)) jm SQLITE_OK m1 \<and>
      (\<forall>d1 c1. en_exec E (cstr ''DETACH DATABASE migrate;'') (mg_conn m1) = (d1, c1) \<longrightarrow>
        (case jm of None \<Rightarrow> d1 | Some j \<Rightarrow> keep_error d1 (fst (en_exec E (cstr ''PRAGMA journal_mode = '' @ j @ cstr '';'') (en_reset_schemas E c1)))) = SQLITE_OK \<longrightarrow>
        (\<exists>c'. sqlcipher_codec_ctx_migrate P ini E i c = Some (SQLITE_OK, c')))) \<and>
    (\<forall>m2 r c2. en_autocommit E (mg_conn m1) \<and> en_active E (mg_conn m1) \<le> 1 \<longrightarrow>
      run_stages [page_size_stage, codec_stage P ini i, close_stage E] SQLITE_OK m1 = Some (SQLITE_OK, m2) \<longrightarrow> \<not> mg_alive m2 \<longrightarrow>
      en_rename E (migrated_name filename) filename (mg_conn m2) = (r, c2) \<longrightarrow> r \<noteq> SQLITE_OK \<longrightarrow> sqlcipher_codec_ctx_migrate P ini E i c = None)"
proof (intro conjI allI impI)
  note def = migrate_from_start [OF start, unfolded run_stages_append [OF export_stages_honest] exported option.case prod.case if_P [OF refl]]
  show busy: "sqlcipher_codec_ctx_migrate P ini E i c = handle_error E i (Some (migrated_name filename)) jm SQLITE_OK m1"
    if "\<not> en_autocommit E (mg_conn m1) \<or> en_active E (mg_conn m1) > 1"
    using file_stages_busy [OF that, of P ini i filename] unfolding def by simp
  show "\<exists>c'. sqlcipher_codec_ctx_migrate P ini E i c = Some (SQLITE_OK, c')"
    if "\<not> en_autocommit E (mg_conn m1) \<or> en_active E (mg_conn m1) > 1" "en_exec E (cstr ''DETACH DATABASE migrate;'') (mg_conn m1) = (d1, c1)"
      "(case jm of None \<Rightarrow> d1 | Some j \<Rightarrow> keep_error d1 (fst (en_exec E (cstr ''PRAGMA journal_mode = '' @ j @ cstr '';'') (en_reset_schemas E c1)))) = SQLITE_OK" for d1 c1
    using that(2,3) unfolding busy [OF that(1)] by (auto simp: handle_error_def keep_error_def Let_def case_prod_beta simp del: split_paired_Ex split: option.splits if_splits)
  show "sqlcipher_codec_ctx_migrate P ini E i c = None"
    if idle: "en_autocommit E (mg_conn m1) \<and> en_active E (mg_conn m1) \<le> 1"
      and pre: "run_stages [page_size_stage, codec_stage P ini i, close_stage E] SQLITE_OK m1 = Some (SQLITE_OK, m2)"
      and dead: "\<not> mg_alive m2" and ren: "en_rename E (migrated_name filename) filename (mg_conn m2) = (r, c2)" "r \<noteq> SQLITE_OK" for m2 r c2
  proof -
    have "run_stages (file_stages P ini E i filename) SQLITE_OK m1 = Some (r, m2\<lparr>mg_conn := c2\<rparr>)"
      using file_stages_idle [of E m1 P ini i filename] idle pre ren by (simp add: before_rename_def)
    moreover have "handle_error E i t j r (m2\<lparr>mg_conn := c2\<rparr>) = None" for t j
      using dead ren(2) by (simp add: handle_error_def keep_error_def Let_def split: prod.split option.split)
    ultimately show ?thesis unfolding def by simp
  qed
qed

theorem migrate_unreported_witness:
  "\<exists>c'. sqlcipher_codec_ctx_migrate sqlcipher_ltc_setup (False, SQLITE_OK) (opening_engine\<lparr>en_autocommit := (\<lambda>c. False)\<rparr>) 0
     (sample_connection, sample_world, 0, 1, 2) = Some (SQLITE_OK, c')"
proof -
  have e: "en_exec opening_engine sql c = (SQLITE_OK, c)" for sql c by (simp add: opening_engine_def sample_engine_def)
  note mu = conjunct1 [OF migrate_unreported [OF sample_start [of False] sample_exports [of False]]]
  show ?thesis using conjunct2 [OF mp [OF mu], rule_format, of SQLITE_OK "(sample_connection, sample_world, 3, 1, 2)"] by (simp add: e keep_error_def)
qed

text \<open>
  C28: once the keys of the main database have been derived from a passphrase that is not stored, the passphrase is gone, and a migration
  of a database that has a file, with memory for the copy of the passphrase, always fails and leaves
  the connection with a codec that answers no further call, whatever the engine answers.  Detaching \<open>migrate\<close>, forgetting the schemas and
  resetting the pager are taken to leave the codec of the main database attached.
\<close>

theorem migrate_after_derivation:
  assumes "fst ini" "en_filename E (db, w, e) = Some filename" "filename \<noteq> []" "has_codec 0 (db, w, e)" "keeps_codec 0 E"
    and ctx: "sqlcipherPagerGetCodec (aDb db ! 0) = Some ctx"
    and derived: "sqlcipher_codec_key_derive Q ctx0 w0 = (SQLITE_OK, ctx, w1)" "store_pass ctx \<noteq> 1" and mem: "fst (w_malloc 1 w)" and "cs \<noteq> []"
  shows "\<exists>rc db' w' e' ctx'. sqlcipher_codec_ctx_migrate P ini E 0 (db, w, e) = Some (rc, db', w', e') \<and> rc \<noteq> SQLITE_OK \<and>
    sqlcipherPagerGetCodec (aDb db' ! 0) = Some ctx' \<and> cc_error ctx' = rc \<and>
    (\<forall>v. \<exists>ctx''. codec_calls P ctx' cs v = Some (map (\<lambda>c. (Null, fst c)) cs, ctx'', v))"
proof -
  have gone: "pass_sz (read_ctx ctx) = 0" by (rule derived_wiped [OF derived])
  define key where "key = (case pass (read_ctx ctx) of None \<Rightarrow> [] | Some p \<Rightarrow> take (nat 0) p)"
  obtain v0 where w0: "w_malloc 1 w = (True, v0)" using mem by (cases "w_malloc 1 w") auto
  obtain rc1 v1 e1 where c: "sqlcipher_check_connection P ini E filename key 0 [] 0 None v0 e = Some (rc1, 0, None, v1, e1)" "rc1 \<noteq> SQLITE_OK"
    using check_without_key [OF assms(1)] by metis
  obtain rc2 w2 e2 where f: "find_version P ini E filename key 0 [3, 2, 1] rc1 0 None v1 e1 = Some (rc2, None, 0, None, w2, e2)" "rc2 \<noteq> SQLITE_OK"
    using find_without_key [OF assms(1) c(2)] by metis
  have mig: "sqlcipher_codec_ctx_migrate P ini E 0 (db, w, e) = handle_error E 0 None None rc2 \<lparr>mg_conn = (db, w2, e2), mg_alive = True\<rparr>"
    using assms(2,3) ctx gone w0 c f by (simp add: sqlcipher_codec_ctx_migrate_def key_def)
  define c3 where "c3 = en_pager_reset E 0 (en_reset_schemas E (snd (en_exec E (cstr ''DETACH DATABASE migrate;'') (db, w2, e2))))"
  have "has_codec 0 (db, w2, e2)" using assms(4) by (simp add: has_codec_def)
  then have "has_codec 0 c3" using assms(5) unfolding keeps_codec_def c3_def by blast
  then obtain db3 w3 e3 ctx3 where c3: "c3 = (db3, w3, e3)" "0 < length (aDb db3)" "sqlcipherPagerGetCodec (aDb db3 ! 0) = Some ctx3"
    by (cases c3) (auto simp: has_codec_def)
  have "handle_error E 0 None None rc2 \<lparr>mg_conn = (db, w2, e2), mg_alive = True\<rparr> =
      Some (rc2, put_codec 0 (ctx3\<lparr>cc_error := rc2\<rparr>) db3, w3, e3)"
    using c3(1,3) f(2) by (simp add: handle_error_def Let_def keep_error_def c3_def case_prod_beta)
  moreover have "sqlcipherPagerGetCodec (aDb (put_codec 0 (ctx3\<lparr>cc_error := rc2\<rparr>) db3) ! 0) = Some (ctx3\<lparr>cc_error := rc2\<rparr>)"
    using c3(2) by (simp add: put_codec_def sqlcipherPagerGetCodec_def)
  moreover have "\<exists>ctx''. codec_calls P (ctx3\<lparr>cc_error := rc2\<rparr>) cs v = Some (map (\<lambda>c. (Null, fst c)) cs, ctx'', v)" for v
    using disabled_calls [of "ctx3\<lparr>cc_error := rc2\<rparr>" P cs v] f(2) \<open>cs \<noteq> []\<close> by simp
  ultimately show ?thesis using f(2) unfolding mig by auto
qed

theorem migrate_after_derivation_witness:
  "\<exists>ctx v rc c'. sqlcipher_codec_key_derive sqlcipher_ltc_setup sample_ctx sample_world = (SQLITE_OK, ctx, v) \<and>
     sqlcipher_codec_ctx_migrate sqlcipher_ltc_setup (True, SQLITE_OK) sample_engine 0
       (\<lparr>aDb = [sample_entry (Attached ctx)], nextPagesize = 4096\<rparr>, sample_world, 0, 1, 2) = Some (rc, c') \<and> rc \<noteq> SQLITE_OK"
proof -
  obtain rc ctx v where r: "sqlcipher_codec_key_derive sqlcipher_ltc_setup sample_ctx sample_world = (rc, ctx, v)" by (rule prod_cases3)
  have "derive_key (read_ctx sample_ctx) \<noteq> 0" "write_ctx sample_ctx = read_ctx sample_ctx" "pass (read_ctx sample_ctx) = Some [97, 98, 99]" "store_pass sample_ctx = 0"
    by (simp_all add: sample_ctx_def sample_cipher_ctx_def)
  then have ok: "rc = SQLITE_OK" "store_pass ctx \<noteq> 1"
    using ltc.codec_key_derive_result [OF sample_world_ok(1) sample_wf sample_btree_ok r] sample_world_ok(2,3) keyedD(7) [of sample_ctx ctx] by (auto simp: ltc.step_ok_def)
  let ?db = "\<lparr>aDb = [sample_entry (Attached ctx)], nextPagesize = 4096\<rparr>"
  have "has_codec 0 (?db, sample_world, 0 :: nat, 1 :: nat, 2 :: nat)" "sqlcipherPagerGetCodec (aDb ?db ! 0) = Some ctx"
    by (simp_all add: has_codec_def sample_entry_def sqlcipherPagerGetCodec_def)
  moreover have "keeps_codec 0 sample_engine" by (simp add: keeps_codec_def sample_engine_def)
  moreover have "fst (w_malloc 1 sample_world)" by (simp add: w_malloc_def sample_world_def xmalloc_def)
  moreover have "en_filename sample_engine (?db, sample_world, 0, 1, 2) = Some [97]" by (simp add: sample_engine_def)
  ultimately have "\<exists>e c'. sqlcipher_codec_ctx_migrate sqlcipher_ltc_setup (True, SQLITE_OK) sample_engine 0 (?db, sample_world, 0, 1, 2) = Some (e, c') \<and> e \<noteq> SQLITE_OK"
    using migrate_after_derivation [of "(True, SQLITE_OK)" sample_engine ?db sample_world "(0, 1, 2)" "[97]" ctx sqlcipher_ltc_setup sample_ctx sample_world v "[([], 1, 0)]" sqlcipher_ltc_setup]
      r ok by (simp only: fst_conv) blast
  then show ?thesis using r ok by blast
qed

end
