(* ===== verification/Export.thy ===== *)
theory Export
  imports Migrate
begin

text \<open>
  \<open>sqlcipher_export\<close>: the SQL function that copies a database into an attached one by a script of
  queries, the rows of which are statements to run.
\<close>

unbundle bit_operations_syntax

section \<open>State\<close>

text \<open>The fields of the connection that an export sets, and the SQL engine over them.\<close>

record export_db =
  xd_db :: database
  xd_flags :: u64
  xd_mDbFlags :: u32
  xd_nChange :: u64
  xd_nTotalChange :: u64
  xd_mTrace :: byte
  xd_init_iDb :: byte

type_synonym 'e xconn = "export_db \<times> 'e"

text \<open>
  \<open>sqlite3_prepare\<close> with the number of the statement, \<open>sqlite3_step\<close>, \<open>sqlite3_column_text\<close> of the first column,
  \<open>sqlite3_finalize\<close>, \<open>sqlite3_errmsg\<close>, \<open>sqlite3_errcode\<close>, and whether the allocation of a string succeeds.
\<close>

record 'e sql_engine =
  sq_prepare :: "bytes \<Rightarrow> 'e xconn \<Rightarrow> int \<times> nat \<times> 'e xconn"
  sq_step :: "nat \<Rightarrow> 'e xconn \<Rightarrow> int \<times> 'e xconn"
  sq_text :: "nat \<Rightarrow> 'e xconn \<Rightarrow> bytes option"
  sq_finalize :: "nat \<Rightarrow> 'e xconn \<Rightarrow> int \<times> 'e xconn"
  sq_errmsg :: "'e xconn \<Rightarrow> bytes"
  sq_errcode :: "'e xconn \<Rightarrow> int"
  sq_alloc :: "'e xconn \<Rightarrow> bool \<times> 'e xconn"

definition mprintf :: "'e sql_engine \<Rightarrow> bytes \<Rightarrow> 'e xconn \<Rightarrow> bytes option \<times> 'e xconn" where
  "mprintf E z c = (let (ok, c) = sq_alloc E c in (if ok then Some z else None, c))"

definition sqlite3SetString :: "'e sql_engine \<Rightarrow> bytes \<Rightarrow> 'e xconn \<Rightarrow> bytes option \<times> 'e xconn" where
  "sqlite3SetString E z c = mprintf E z c"

section \<open>Running statements\<close>

definition sqlcipher_finalize :: "'e sql_engine \<Rightarrow> nat \<Rightarrow> bytes option \<Rightarrow> 'e xconn \<Rightarrow> int \<times> bytes option \<times> 'e xconn" where
  "sqlcipher_finalize E pStmt pzErrMsg c =
     (let (rc, c) = sq_finalize E pStmt c in
      if rc \<noteq> 0 then let (z, c) = sqlite3SetString E (sq_errmsg E c) c in (rc, z, c) else (rc, pzErrMsg, c))"

definition sqlcipher_execSql :: "'e sql_engine \<Rightarrow> bytes option \<Rightarrow> bytes option \<Rightarrow> 'e xconn \<Rightarrow> int \<times> bytes option \<times> 'e xconn" where
  "sqlcipher_execSql E zSql pzErrMsg c =
     (case zSql of None \<Rightarrow> (SQLITE_NOMEM, pzErrMsg, c)
      | Some sql \<Rightarrow>
          let (rc, pStmt, c) = sq_prepare E sql c in
          if rc \<noteq> SQLITE_OK then let (z, c) = sqlite3SetString E (sq_errmsg E c) c in (sq_errcode E c, z, c)
          else let (rc, c) = sq_step E pStmt c in sqlcipher_finalize E pStmt pzErrMsg c)"

text \<open>The loop over the rows of a query; \<open>None\<close> when it does not end.\<close>

partial_function (option) exec_rows :: "'e sql_engine \<Rightarrow> nat \<Rightarrow> bytes option \<Rightarrow> 'e xconn \<Rightarrow> (int \<times> bytes option \<times> 'e xconn) option" where
  "exec_rows E pStmt pzErrMsg c =
     (let (r, c) = sq_step E pStmt c in
      if r \<noteq> SQLITE_ROW then Some (sqlcipher_finalize E pStmt pzErrMsg c)
      else let (rc, pzErrMsg, c) = sqlcipher_execSql E (sq_text E pStmt c) pzErrMsg c in
        if rc \<noteq> SQLITE_OK then let (_, pzErrMsg, c) = sqlcipher_finalize E pStmt pzErrMsg c in Some (rc, pzErrMsg, c)
        else exec_rows E pStmt pzErrMsg c)"

definition sqlcipher_execExecSql :: "'e sql_engine \<Rightarrow> bytes \<Rightarrow> bytes option \<Rightarrow> 'e xconn \<Rightarrow> (int \<times> bytes option \<times> 'e xconn) option" where
  "sqlcipher_execExecSql E zSql pzErrMsg c =
     (let (rc, pStmt, c) = sq_prepare E zSql c in
      if rc \<noteq> SQLITE_OK then Some (rc, pzErrMsg, c) else exec_rows E pStmt pzErrMsg c)"

section \<open>The script\<close>

datatype export_statement = Exec_Rows bytes | Exec bytes

definition export_script :: "bytes \<Rightarrow> bytes \<Rightarrow> export_statement list" where
  "export_script targetDb sourceDb =
     [Exec_Rows (cstr ''SELECT sql   FROM '' @ sourceDb @
        cstr ''.sqlite_schema WHERE type='table' AND name!='sqlite_sequence'   AND rootpage>0''),
      Exec_Rows (cstr ''SELECT sql   FROM '' @ sourceDb @ cstr ''.sqlite_schema WHERE sql LIKE 'CREATE INDEX %' ''),
      Exec_Rows (cstr ''SELECT sql   FROM '' @ sourceDb @ cstr ''.sqlite_schema WHERE sql LIKE 'CREATE UNIQUE INDEX %'' @ [39]),
      Exec_Rows (cstr ''SELECT 'INSERT INTO '' @ targetDb @ cstr ''.' || quote(name) || ' SELECT * FROM '' @ sourceDb @
        cstr ''.' || quote(name) || ';'FROM '' @ sourceDb @
        cstr ''.sqlite_schema WHERE type = 'table' AND name!='sqlite_sequence'   AND rootpage>0''),
      Exec_Rows (cstr ''SELECT 'INSERT INTO '' @ targetDb @ cstr ''.' || quote(name) || ' SELECT * FROM '' @ sourceDb @
        cstr ''.' || quote(name) || ';' FROM '' @ targetDb @ cstr ''.sqlite_schema WHERE name=='sqlite_sequence';''),
      Exec (cstr ''INSERT INTO '' @ targetDb @ cstr ''.sqlite_schema   SELECT type, name, tbl_name, rootpage, sql    FROM '' @ sourceDb @
        cstr ''.sqlite_schema   WHERE type='view' OR type='trigger'      OR (type='table' AND rootpage=0)'')]"

fun run_script :: "'e sql_engine \<Rightarrow> export_statement list \<Rightarrow> bytes option \<Rightarrow> 'e xconn \<Rightarrow> (int \<times> bytes option \<times> 'e xconn) option" where
  "run_script E [] pzErrMsg c = Some (SQLITE_OK, pzErrMsg, c)"
| "run_script E (x # xs) pzErrMsg c =
     (let (zSql, c) = mprintf E (case x of Exec_Rows z \<Rightarrow> z | Exec z \<Rightarrow> z) c in
      case (case zSql of None \<Rightarrow> Some (SQLITE_NOMEM, pzErrMsg, c)
            | Some z \<Rightarrow> (case x of Exec_Rows _ \<Rightarrow> sqlcipher_execExecSql E z pzErrMsg c | Exec _ \<Rightarrow> Some (sqlcipher_execSql E (Some z) pzErrMsg c))) of
        None \<Rightarrow> None
      | Some (rc, pzErrMsg, c) \<Rightarrow> if rc \<noteq> SQLITE_OK then Some (rc, pzErrMsg, c) else run_script E xs pzErrMsg c)"

section \<open>The function\<close>

definition error_messages :: "string list" where
  "error_messages =
     [''not an error'', ''SQL logic error'', [], ''access permission denied'', ''query aborted'', ''database is locked'',
      ''database table is locked'', ''out of memory'', ''attempt to write a readonly database'', ''interrupted'', ''disk I/O error'',
      ''database disk image is malformed'', ''unknown operation'', ''database or disk is full'', ''unable to open database file'',
      ''locking protocol'', [], ''database schema has changed'', ''string or blob too big'', ''constraint failed'', ''datatype mismatch'',
      ''bad parameter or other API misuse'', [], ''authorization denied'', [], ''column index out of range'', ''file is not a database'',
      ''notification message'', ''warning message'']"

definition sqlite3ErrStr :: "int \<Rightarrow> bytes" where
  "sqlite3ErrStr rc =
     (if rc = 516 then cstr ''abort due to ROLLBACK'' else if rc = SQLITE_ROW then cstr ''another row available''
      else if rc = 101 then cstr ''no more rows available''
      else let k = nat (rc AND 0xff) in
        if k < length error_messages \<and> error_messages ! k \<noteq> [] then cstr (error_messages ! k) else cstr ''unknown error'')"

definition export_flags :: "int \<Rightarrow> export_db \<Rightarrow> export_db" where
  "export_flags targetDb_idx d =
     d\<lparr>xd_init_iDb := of_int targetDb_idx,
       xd_flags := (xd_flags d OR 0x00000001 OR 0x00000200) AND NOT (0x00004000 OR 0x00001000 OR 0x10000000 OR 0x100000000),
       xd_mDbFlags := xd_mDbFlags d OR 0x0002 OR 0x0004,
       xd_mTrace := 0\<rparr>"

text \<open>Up to the label \<open>end_of_export\<close>; an argument is \<open>None\<close> when it is NULL.\<close>

definition export_body :: "'e sql_engine \<Rightarrow> bytes option list \<Rightarrow> 'e xconn \<Rightarrow> (int \<times> bytes option \<times> 'e xconn) option" where
  "export_body E argv c =
     (let fail = (\<lambda>z. let (m, c) = mprintf E z c in Some (SQLITE_ERROR, m, c)) in
      if length argv \<noteq> 1 \<and> length argv \<noteq> 2
      then fail (cstr ''invalid number of arguments ('' @ int_str (int (length argv)) @ cstr '') passed to sqlcipher_export'')
      else case argv ! 0 of None \<Rightarrow> fail (cstr ''target database can't be NULL'')
      | Some targetDb \<Rightarrow>
          (case (if length argv = 2 then argv ! 1 else Some (cstr ''main'')) of None \<Rightarrow> fail (cstr ''target database can't be NULL'')
           | Some sourceDb \<Rightarrow>
               if sqlcipher_find_db_index (Some (xd_db (fst c))) (Some sourceDb) < 0
               then fail (cstr ''invalid source database '' @ sourceDb)
               else let targetDb_idx = sqlcipher_find_db_index (Some (xd_db (fst c))) (Some targetDb) in
                 if targetDb_idx < 0 then fail (cstr ''invalid target database '' @ targetDb)
                 else run_script E (export_script targetDb sourceDb) None (export_flags targetDb_idx (fst c), snd c)))"

text \<open>The counters of changes, which have 64 bits, are saved in an \<open>int\<close>.\<close>

definition as_int :: "u64 \<Rightarrow> u64" where "as_int x = scast (ucast x :: u32)"

definition restore_db :: "export_db \<Rightarrow> export_db \<Rightarrow> export_db" where
  "restore_db saved d =
     d\<lparr>xd_init_iDb := 0, xd_flags := xd_flags saved, xd_mDbFlags := xd_mDbFlags saved, xd_nChange := as_int (xd_nChange saved),
       xd_nTotalChange := as_int (xd_nTotalChange saved), xd_mTrace := xd_mTrace saved\<rparr>"

text \<open>The result: the message of an error, or nothing.\<close>

definition sqlcipher_exportFunc :: "'e sql_engine \<Rightarrow> bytes option list \<Rightarrow> 'e xconn \<Rightarrow> (bytes option \<times> 'e xconn) option" where
  "sqlcipher_exportFunc E argv c =
     (case export_body E argv c of None \<Rightarrow> None
      | Some (rc, pzErrMsg, d, e) \<Rightarrow>
          Some (if rc \<noteq> 0 then Some (case pzErrMsg of None \<Rightarrow> sqlite3ErrStr rc | Some m \<Rightarrow> m) else None, restore_db (fst c) d, e))"

section \<open>The counters\<close>

lemma as_int_iff: "as_int x = x \<longleftrightarrow> - (2 ^ 31) \<le> sint x \<and> sint x < 2 ^ 31"
proof -
  have "sint (as_int x) = signed_take_bit 31 (sint x)"
    unfolding as_int_def by transfer (simp add: signed_take_bit_take_bit signed_take_bit_signed_take_bit min_def)
  moreover have "as_int x = x \<longleftrightarrow> sint (as_int x) = sint x" by (metis signed_word_eqI)
  ultimately show ?thesis by (simp add: signed_take_bit_int_eq_self_iff)
qed

section \<open>Engines that answer honestly\<close>

text \<open>
  The statements that are open and the rows that each has left: a new statement is not one of those, no call changes
  another statement, a step that gives a row takes it from those that are left, and a statement that is finalized without an
  error after a step without a row has given them all.  After a statement that cannot be prepared the connection has an error code.
\<close>

definition others_keep :: "('e xconn \<Rightarrow> nat set) \<Rightarrow> (nat \<Rightarrow> 'e xconn \<Rightarrow> bytes list) \<Rightarrow> nat set \<Rightarrow> 'e xconn \<Rightarrow> 'e xconn \<Rightarrow> bool" where
  "others_keep opened rows X c c' \<longleftrightarrow> (\<forall>k \<in> opened c - X. k \<in> opened c' \<and> rows k c' = rows k c)"

definition honest_engine :: "'e sql_engine \<Rightarrow> ('e xconn \<Rightarrow> nat set) \<Rightarrow> (nat \<Rightarrow> 'e xconn \<Rightarrow> bytes list) \<Rightarrow> bool" where
  "honest_engine E opened rows \<longleftrightarrow>
     (\<forall>sql c rc st c'. sq_prepare E sql c = (rc, st, c') \<longrightarrow>
        others_keep opened rows {} c c' \<and> (rc = SQLITE_OK \<longrightarrow> st \<notin> opened c \<and> st \<in> opened c') \<and>
        (rc \<noteq> SQLITE_OK \<longrightarrow> (\<forall>ok c2. sq_alloc E c' = (ok, c2) \<longrightarrow> sq_errcode E c2 \<noteq> SQLITE_OK))) \<and>
     (\<forall>st c r c'. sq_step E st c = (r, c') \<longrightarrow> others_keep opened rows {st} c c' \<and> (st \<in> opened c \<longrightarrow> st \<in> opened c' \<and>
        (r = SQLITE_ROW \<longrightarrow> (\<exists>t. sq_text E st c' = Some t \<and> rows st c = t # rows st c')) \<and>
        (r \<noteq> SQLITE_ROW \<longrightarrow> fst (sq_finalize E st c') = SQLITE_OK \<longrightarrow> rows st c = []))) \<and>
     (\<forall>st c rc c'. sq_finalize E st c = (rc, c') \<longrightarrow> others_keep opened rows {st} c c') \<and>
     (\<forall>c ok c'. sq_alloc E c = (ok, c') \<longrightarrow> others_keep opened rows {} c c')"

lemma honest_engineD:
  assumes "honest_engine E opened rows"
  shows "sq_prepare E sql c = (rc, st, c') \<Longrightarrow> others_keep opened rows {} c c'"
    "sq_prepare E sql c = (SQLITE_OK, st, c') \<Longrightarrow> st \<notin> opened c \<and> st \<in> opened c'"
    "sq_step E st c = (r, c') \<Longrightarrow> others_keep opened rows {st} c c'"
    "sq_step E st c = (SQLITE_ROW, c') \<Longrightarrow> st \<in> opened c \<Longrightarrow> st \<in> opened c' \<and> (\<exists>t. sq_text E st c' = Some t \<and> rows st c = t # rows st c')"
    "sq_step E st c = (r, c') \<Longrightarrow> r \<noteq> SQLITE_ROW \<Longrightarrow> st \<in> opened c \<Longrightarrow> sq_finalize E st c' = (SQLITE_OK, c'') \<Longrightarrow> rows st c = []"
    "sq_finalize E st c = (rc, c') \<Longrightarrow> others_keep opened rows {st} c c'"
    "sq_alloc E c = (ok, c') \<Longrightarrow> others_keep opened rows {} c c'"
    "sq_prepare E sql c = (rc, st, c') \<Longrightarrow> rc \<noteq> SQLITE_OK \<Longrightarrow> sq_alloc E c' = (ok, c'') \<Longrightarrow> sq_errcode E c'' \<noteq> SQLITE_OK"
  using assms unfolding honest_engine_def by (blast, blast, blast, blast, metis fst_conv, blast, blast, blast)

lemma others_keepD: "others_keep opened rows X c c' \<Longrightarrow> k \<in> opened c \<Longrightarrow> k \<notin> X \<Longrightarrow> k \<in> opened c' \<and> rows k c' = rows k c"
  by (simp add: others_keep_def)

lemma others_keep_trans:
  "others_keep opened rows X c c' \<Longrightarrow> others_keep opened rows X c' c'' \<Longrightarrow> others_keep opened rows X c c''"
  by (simp add: others_keep_def)

lemma others_keep_new:
  "others_keep opened rows {} c c' \<Longrightarrow> st \<notin> opened c \<Longrightarrow> others_keep opened rows {st} c' c'' \<Longrightarrow> others_keep opened rows {} c c''"
  unfolding others_keep_def by (metis Diff_iff empty_iff singletonD)

lemma others_keep_mono: "others_keep opened rows {} c c' \<Longrightarrow> others_keep opened rows X c c'"
  by (simp add: others_keep_def)

lemma set_string_keeps:
  assumes "honest_engine E opened rows" "sqlite3SetString E z c = (m, c')"
  shows "others_keep opened rows {} c c'"
  using assms(2) honest_engineD(7) [OF assms(1)] by (auto simp: sqlite3SetString_def mprintf_def split: prod.splits)

lemma finalize_keeps:
  assumes h: "honest_engine E opened rows" and f: "sqlcipher_finalize E st err c = (rc, err', c')"
  shows "others_keep opened rows {st} c c'"
proof -
  obtain rc1 c1 where f1: "sq_finalize E st c = (rc1, c1)" by (rule prod.exhaust)
  obtain z c2 where f2: "sqlite3SetString E (sq_errmsg E c1) c1 = (z, c2)" by (rule prod.exhaust)
  from honest_engineD(6) [OF h f1] others_keep_mono [OF set_string_keeps [OF h f2]] f show ?thesis
    by (auto simp: sqlcipher_finalize_def f1 f2 split: if_splits intro: others_keep_trans)
qed

lemma exec_sql_keeps:
  assumes h: "honest_engine E opened rows" and f: "sqlcipher_execSql E z err c = (rc, err', c')"
  shows "others_keep opened rows {} c c'"
proof (cases z)
  case None
  then show ?thesis using f by (simp add: sqlcipher_execSql_def others_keep_def)
next
  case (Some sql)
  obtain rc1 st c1 where p: "sq_prepare E sql c = (rc1, st, c1)" by (metis prod.exhaust)
  note k1 = honest_engineD(1) [OF h p]
  show ?thesis
  proof (cases "rc1 = SQLITE_OK")
    case True
    obtain r c2 where s: "sq_step E st c1 = (r, c2)" by (rule prod.exhaust)
    have "sqlcipher_finalize E st err c2 = (rc, err', c')" using f Some True p s by (simp add: sqlcipher_execSql_def)
    then have "others_keep opened rows {st} c1 c'" using finalize_keeps [OF h] honest_engineD(3) [OF h s] others_keep_trans by metis
    moreover have "st \<notin> opened c" using honest_engineD(2) [OF h] p True by metis
    ultimately show ?thesis using others_keep_new [OF k1] by blast
  next
    case False
    obtain m c2 where m: "sqlite3SetString E (sq_errmsg E c1) c1 = (m, c2)" by (rule prod.exhaust)
    then have "c' = c2" using f Some False p by (simp add: sqlcipher_execSql_def)
    then show ?thesis using others_keep_trans [OF k1] set_string_keeps [OF h m] by blast
  qed
qed

text \<open>
  What a script that reports no error has done.  A statement has been run when it has been prepared, stepped once, which completes it unless it is a
  query with rows, and finalized, and the engine has reported no error.  Every row that each query had when it was prepared has been run, in order.
\<close>

definition ran :: "'e sql_engine \<Rightarrow> (nat \<Rightarrow> 'e xconn \<Rightarrow> bytes list) \<Rightarrow> bytes \<Rightarrow> 'e xconn \<Rightarrow> 'e xconn \<Rightarrow> bool" where
  "ran E rows sql c c' \<longleftrightarrow> (\<exists>st c1 r c2. sq_prepare E sql c = (SQLITE_OK, st, c1) \<and> sq_step E st c1 = (r, c2) \<and> (r = SQLITE_ROW \<longrightarrow> rows st c1 \<noteq> []) \<and>
     sq_finalize E st c2 = (SQLITE_OK, c'))"

lemma exec_sql_ran:
  assumes h: "honest_engine E opened rows" and x: "sqlcipher_execSql E (Some sql) err c = (SQLITE_OK, err', c')"
  shows "ran E rows sql c c'"
proof -
  obtain rc st c1 where p: "sq_prepare E sql c = (rc, st, c1)" by (rule prod_cases3)
  have rc: "rc = SQLITE_OK"
  proof (rule ccontr)
    assume bad: "rc \<noteq> SQLITE_OK"
    obtain ok c2 where a: "sq_alloc E c1 = (ok, c2)" by (rule prod.exhaust)
    have "sq_errcode E c2 = SQLITE_OK" using x p bad a by (auto simp: sqlcipher_execSql_def sqlite3SetString_def mprintf_def)
    then show False using honest_engineD(8) [OF h p bad a] by simp
  qed
  obtain r c2 where s: "sq_step E st c1 = (r, c2)" by (rule prod.exhaust)
  have "st \<in> opened c1" using honest_engineD(2) [OF h] p rc by metis
  then have "r = SQLITE_ROW \<longrightarrow> rows st c1 \<noteq> []" using honest_engineD(4) [OF h] s by fastforce
  moreover have "sq_finalize E st c2 = (SQLITE_OK, c')"
    using x p rc s by (auto simp: sqlcipher_execSql_def sqlcipher_finalize_def Let_def split: if_splits prod.splits)
  ultimately show ?thesis using p rc s unfolding ran_def by blast
qed

inductive rows_ran :: "'e sql_engine \<Rightarrow> (nat \<Rightarrow> 'e xconn \<Rightarrow> bytes list) \<Rightarrow> nat \<Rightarrow> 'e xconn \<Rightarrow> bytes list \<Rightarrow> 'e xconn \<Rightarrow> bool" for E rows st where
  rows_end: "sq_step E st c = (r, c1) \<Longrightarrow> r \<noteq> SQLITE_ROW \<Longrightarrow> sq_finalize E st c1 = (SQLITE_OK, c') \<Longrightarrow> rows_ran E rows st c [] c'"
| rows_row: "sq_step E st c = (SQLITE_ROW, c1) \<Longrightarrow> ran E rows t c1 c2 \<Longrightarrow> rows_ran E rows st c2 ts c' \<Longrightarrow> rows_ran E rows st c (t # ts) c'"

inductive script_ran :: "'e sql_engine \<Rightarrow> (nat \<Rightarrow> 'e xconn \<Rightarrow> bytes list) \<Rightarrow> export_statement list \<Rightarrow> 'e xconn \<Rightarrow> 'e xconn \<Rightarrow> bool" for E rows where
  script_end: "script_ran E rows [] c c"
| script_rows: "sq_alloc E c = (True, c1) \<Longrightarrow> sq_prepare E q c1 = (SQLITE_OK, st, c2) \<Longrightarrow> rows_ran E rows st c2 (rows st c2) c3 \<Longrightarrow>
    script_ran E rows xs c3 c' \<Longrightarrow> script_ran E rows (Exec_Rows q # xs) c c'"
| script_exec: "sq_alloc E c = (True, c1) \<Longrightarrow> ran E rows q c1 c2 \<Longrightarrow> script_ran E rows xs c2 c' \<Longrightarrow> script_ran E rows (Exec q # xs) c c'"

lemma exec_rows_honest:
  assumes h: "honest_engine E opened rows" and "st \<in> opened c"
  shows "\<exists>rc err' c'. exec_rows E st err c = Some (rc, err', c') \<and> (rc = SQLITE_OK \<longrightarrow> rows_ran E rows st c (rows st c) c')"
  using assms(2)
proof (induction "rows st c" arbitrary: c err rule: length_induct)
  case 1
  obtain r c1 where s: "sq_step E st c = (r, c1)" by (rule prod.exhaust)
  show ?case
  proof (cases "r = SQLITE_ROW")
    case False
    obtain rc c2 where f: "sq_finalize E st c1 = (rc, c2)" by (rule prod.exhaust)
    obtain m c3 where m: "sqlite3SetString E (sq_errmsg E c2) c2 = (m, c3)" by (rule prod.exhaust)
    show ?thesis
    proof (cases "rc = SQLITE_OK")
      case True
      have "rows st c = []" using honest_engineD(5) [OF h s False 1(2)] f True by simp
      moreover have "rows_ran E rows st c [] c2" by (rule rows_end [OF s False]) (use f True in simp)
      ultimately show ?thesis using s False f True by (subst exec_rows.simps) (simp add: sqlcipher_finalize_def)
    next
      case rc: False
      then show ?thesis using s False f m by (subst exec_rows.simps) (simp add: sqlcipher_finalize_def)
    qed
  next
    case True
    obtain t where t: "st \<in> opened c1" "sq_text E st c1 = Some t" "rows st c = t # rows st c1"
      using honest_engineD(4) [OF h _ 1(2)] s True by blast
    obtain rc err1 c2 where x: "sqlcipher_execSql E (Some t) err c1 = (rc, err1, c2)" by (metis prod.exhaust)
    show ?thesis
    proof (cases "rc = SQLITE_OK")
      case False
      obtain rc' err2 c3 where "sqlcipher_finalize E st err1 c2 = (rc', err2, c3)" by (metis prod.exhaust)
      then show ?thesis using s True t(2) x False by (subst exec_rows.simps) simp
    next
      case ok: True
      have o: "st \<in> opened c2" "rows st c2 = rows st c1" using others_keepD [OF exec_sql_keeps [OF h x] t(1)] by simp_all
      obtain rc3 err3 c3 where ih: "exec_rows E st err1 c2 = Some (rc3, err3, c3)" "rc3 = SQLITE_OK \<longrightarrow> rows_ran E rows st c2 (rows st c2) c3"
        using 1(1) o t(3) by (metis length_Cons lessI)
      have "ran E rows t c1 c2" using exec_sql_ran [OF h] x ok by metis
      then have "rc3 = SQLITE_OK \<longrightarrow> rows_ran E rows st c (rows st c) c3" using rows_row s True ih(2) o(2) t(3) by metis
      then show ?thesis using s True t(2) x ok ih(1) by (subst exec_rows.simps) simp
    qed
  qed
qed

lemma run_script_honest:
  assumes h: "honest_engine E opened rows"
  shows "\<exists>rc err' c'. run_script E xs err c = Some (rc, err', c') \<and> (rc = SQLITE_OK \<longrightarrow> script_ran E rows xs c c')"
proof (induction xs arbitrary: err c)
  case Nil
  show ?case by (simp add: script_end)
next
  case (Cons x xs)
  let ?z = "case x of Exec_Rows z \<Rightarrow> z | Exec z \<Rightarrow> z"
  obtain ok c1 where a: "sq_alloc E c = (ok, c1)" by (rule prod.exhaust)
  show ?case
  proof (cases ok)
    case False
    then show ?thesis using a by (simp add: mprintf_def)
  next
    case True
    define run1 where "run1 = (case x of Exec_Rows _ \<Rightarrow> sqlcipher_execExecSql E ?z err c1 | Exec _ \<Rightarrow> Some (sqlcipher_execSql E (Some ?z) err c1))"
    have one: "\<exists>rc err1 c2. run1 = Some (rc, err1, c2) \<and> (rc = SQLITE_OK \<longrightarrow> (\<forall>c'. script_ran E rows xs c2 c' \<longrightarrow> script_ran E rows (x # xs) c c'))"
    proof (cases x)
      case (Exec_Rows q)
      obtain rc st c2 where p: "sq_prepare E q c1 = (rc, st, c2)" by (metis prod.exhaust)
      show ?thesis
      proof (cases "rc = SQLITE_OK")
        case ok: True
        then have "st \<in> opened c2" using honest_engineD(2) [OF h] p by metis
        from exec_rows_honest [OF h this] obtain rc3 err3 c3 where r: "exec_rows E st err c2 = Some (rc3, err3, c3)"
          "rc3 = SQLITE_OK \<longrightarrow> rows_ran E rows st c2 (rows st c2) c3" by blast
        then have "run1 = Some (rc3, err3, c3)" using Exec_Rows p ok by (simp add: run1_def sqlcipher_execExecSql_def)
        moreover have "rc3 = SQLITE_OK \<longrightarrow> script_ran E rows xs c3 c' \<longrightarrow> script_ran E rows (x # xs) c c'" for c'
          using script_rows [of E c c1 q st c2 rows c3 xs c'] a True p ok r(2) Exec_Rows by simp
        ultimately show ?thesis by blast
      next
        case False
        then show ?thesis using Exec_Rows p by (simp add: run1_def sqlcipher_execExecSql_def)
      qed
    next
      case (Exec q)
      obtain rc err1 c2 where e: "sqlcipher_execSql E (Some q) err c1 = (rc, err1, c2)" by (metis prod.exhaust)
      then have "rc = SQLITE_OK \<longrightarrow> script_ran E rows xs c2 c' \<longrightarrow> script_ran E rows (x # xs) c c'" for c'
        using script_exec [of E c c1 rows q c2 xs c'] exec_sql_ran [OF h] a True Exec by metis
      then show ?thesis using Exec e by (simp add: run1_def)
    qed
    then obtain rc err1 c2 where r: "run1 = Some (rc, err1, c2)"
      "rc = SQLITE_OK \<longrightarrow> (\<forall>c'. script_ran E rows xs c2 c' \<longrightarrow> script_ran E rows (x # xs) c c')" by blast
    have eq: "run_script E (x # xs) err c = (if rc \<noteq> SQLITE_OK then Some (rc, err1, c2) else run_script E xs err1 c2)"
      using a True r(1) unfolding run1_def by (simp add: mprintf_def)
    then show ?thesis using r(2) Cons.IH [of err1 c2] by auto
  qed
qed

lemma restore_simps:
  "xd_flags (restore_db s d) = xd_flags s" "xd_mDbFlags (restore_db s d) = xd_mDbFlags s" "xd_mTrace (restore_db s d) = xd_mTrace s"
  "xd_init_iDb (restore_db s d) = 0" "xd_nChange (restore_db s d) = as_int (xd_nChange s)"
  "xd_nTotalChange (restore_db s d) = as_int (xd_nTotalChange s)" "xd_db (restore_db s d) = xd_db d"
  by (simp_all add: restore_db_def)

lemma export_body_honest:
  assumes h: "honest_engine E opened rows"
  shows "\<exists>rc err c1. export_body E argv c = Some (rc, err, c1) \<and> (rc = SQLITE_OK \<longrightarrow>
    (\<exists>target source. (argv = [Some target] \<and> source = cstr ''main'' \<or> argv = [Some target, Some source]) \<and>
      0 \<le> sqlcipher_find_db_index (Some (xd_db (fst c))) (Some source) \<and> 0 \<le> sqlcipher_find_db_index (Some (xd_db (fst c))) (Some target) \<and>
      script_ran E rows (export_script target source)
        (export_flags (sqlcipher_find_db_index (Some (xd_db (fst c))) (Some target)) (fst c), snd c) c1))"
proof -
  let ?idx = "\<lambda>z. sqlcipher_find_db_index (Some (xd_db (fst c))) (Some z)"
  have fail: "\<exists>m c1. (let (m, c) = mprintf E z c in Some (SQLITE_ERROR, m, c)) = Some (SQLITE_ERROR, m, c1)" for z
    by (cases "mprintf E z c") simp
  let ?src = "if length argv = 2 then argv ! 1 else Some (cstr ''main'')"
  show ?thesis
  proof (cases "(length argv = 1 \<or> length argv = 2) \<and> argv ! 0 \<noteq> None \<and> ?src \<noteq> None \<and> 0 \<le> ?idx (the ?src) \<and> 0 \<le> ?idx (the (argv ! 0))")
    case False
    then have "\<exists>z. export_body E argv c = (let (m, c) = mprintf E z c in Some (SQLITE_ERROR, m, c))"
      by (auto simp: export_body_def Let_def not_le split: option.splits)
    then show ?thesis using fail by fastforce
  next
    case True
    then obtain target source where a: "argv ! 0 = Some target" "?src = Some source" by blast
    have form: "argv = [Some target] \<and> source = cstr ''main'' \<or> argv = [Some target, Some source]"
      using True a by (auto simp: numeral_2_eq_2 length_Suc_conv split: if_splits)
    have guards: "(length argv \<noteq> 1 \<and> length argv \<noteq> 2) = False" "(?idx source < 0) = False" "(?idx target < 0) = False"
      using True a by (auto simp del: cstr_simps)
    have "export_body E argv c = run_script E (export_script target source) None (export_flags (?idx target) (fst c), snd c)"
      by (simp only: export_body_def Let_def guards if_False a option.case)
    then show ?thesis
      using run_script_honest [OF h, of "export_script target source" None "(export_flags (?idx target) (fst c), snd c)"] form True a by auto
  qed
qed

section \<open>Examples\<close>

text \<open>Queries have one row, other statements none; a statement is the number of those before it.\<close>

type_synonym sample_sql_state = "nat \<times> (nat \<Rightarrow> bytes list) \<times> bytes"

definition sample_sql :: "sample_sql_state sql_engine" where
  "sample_sql =
     \<lparr>sq_prepare = (\<lambda>sql (d, n, R, t). (SQLITE_OK, n, d, Suc n, R(n := if take 1 sql = [83] then [[65]] else []), t)),
      sq_step = (\<lambda>st (d, n, R, t). case R st of [] \<Rightarrow> (101, d, n, R, t) | u # us \<Rightarrow> (SQLITE_ROW, d, n, R(st := us), u)),
      sq_text = (\<lambda>st (d, n, R, t). Some t), sq_finalize = (\<lambda>st c. (SQLITE_OK, c)), sq_errmsg = (\<lambda>c. []), sq_errcode = (\<lambda>c. 1),
      sq_alloc = (\<lambda>c. (True, c))\<rparr>"

definition sample_opened :: "sample_sql_state xconn \<Rightarrow> nat set" where "sample_opened = (\<lambda>(d, n, R, t). {..<n})"

definition sample_rows :: "nat \<Rightarrow> sample_sql_state xconn \<Rightarrow> bytes list" where "sample_rows st = (\<lambda>(d, n, R, t). R st)"

definition sample_export_db :: export_db where
  "sample_export_db = \<lparr>xd_db = sample_connection, xd_flags = 0x4000, xd_mDbFlags = 0, xd_nChange = 1, xd_nTotalChange = 0x80000000,
     xd_mTrace = 1, xd_init_iDb = 0\<rparr>"

lemma sample_honest: "honest_engine sample_sql sample_opened sample_rows"
  by (auto simp: honest_engine_def sample_sql_def others_keep_def sample_opened_def sample_rows_def SQLITE_ROW_def split: list.splits)

lemma sample_statement: "\<exists>c'. sqlcipher_execSql sample_sql (Some z) err c = (SQLITE_OK, err, c')"
  by (cases c) (auto simp: sqlcipher_execSql_def sqlcipher_finalize_def sample_sql_def split: list.splits)

lemma sample_query: "\<exists>c'. sqlcipher_execExecSql sample_sql z err c = Some (SQLITE_OK, err, c')"
proof -
  obtain d n R t where c: "c = (d, n, R, t)" by (metis prod.exhaust)
  have empty: "\<exists>c'. exec_rows sample_sql n err (d, m, S, t) = Some (SQLITE_OK, err, c')" if "S n = []" for m S t
    using that by (subst exec_rows.simps) (simp add: sample_sql_def sqlcipher_finalize_def SQLITE_ROW_def)
  have "\<exists>c'. exec_rows sample_sql n err (d, Suc n, R(n := [[65]]), t) = Some (SQLITE_OK, err, c')"
    using empty [of "R(n := [], Suc n := [])" "Suc (Suc n)" "[65]"]
    by (subst exec_rows.simps) (simp add: sample_sql_def sqlcipher_finalize_def sqlcipher_execSql_def SQLITE_ROW_def)
  then show ?thesis using empty [of "R(n := [])" "Suc n" t] by (simp add: c sqlcipher_execExecSql_def) (simp add: sample_sql_def)
qed

lemma sample_script: "\<exists>c'. run_script sample_sql xs err c = Some (SQLITE_OK, err, c')"
proof (induction xs arbitrary: c)
  case Nil
  show ?case by (rule exI [of _ c]) simp
next
  case (Cons x xs)
  have a: "mprintf sample_sql z c = (Some z, c)" for z by (simp add: mprintf_def sample_sql_def)
  show ?case
  proof (cases x)
    case (Exec_Rows q)
    obtain c1 where "sqlcipher_execExecSql sample_sql q err c = Some (SQLITE_OK, err, c1)" using sample_query by blast
    then show ?thesis using Cons.IH [of c1] by (simp add: a Exec_Rows)
  next
    case (Exec q)
    obtain c1 where "sqlcipher_execSql sample_sql (Some q) err c = (SQLITE_OK, err, c1)" using sample_statement by blast
    then show ?thesis using Cons.IH [of c1] by (simp add: a Exec)
  qed
qed

section \<open>Properties\<close>

text \<open>
  C31: an export always returns, if the engine gives finitely many rows, and when it reports no error both databases were found
  and, under the flags of an export, every statement of the script has been run: each query prepared, stepped to its end and finalized, and each of the rows that it
  had then prepared, stepped and finalized as a statement of its own, in order and without an error from the engine.  The engine is one that answers
  honestly, in the sense of \<open>honest_engine\<close>.
\<close>

theorem export_runs_script:
  assumes "honest_engine E opened rows"
  shows "\<exists>r c'. sqlcipher_exportFunc E argv c = Some (r, c') \<and> (r = None \<longrightarrow>
    (\<exists>target source c1. (argv = [Some target] \<and> source = cstr ''main'' \<or> argv = [Some target, Some source]) \<and>
      0 \<le> sqlcipher_find_db_index (Some (xd_db (fst c))) (Some source) \<and> 0 \<le> sqlcipher_find_db_index (Some (xd_db (fst c))) (Some target) \<and>
      script_ran E rows (export_script target source)
        (export_flags (sqlcipher_find_db_index (Some (xd_db (fst c))) (Some target)) (fst c), snd c) c1 \<and>
      c' = (restore_db (fst c) (fst c1), snd c1)))"
proof -
  obtain rc err c1 where b: "export_body E argv c = Some (rc, err, c1)" "rc = SQLITE_OK \<longrightarrow>
    (\<exists>target source. (argv = [Some target] \<and> source = cstr ''main'' \<or> argv = [Some target, Some source]) \<and>
      0 \<le> sqlcipher_find_db_index (Some (xd_db (fst c))) (Some source) \<and> 0 \<le> sqlcipher_find_db_index (Some (xd_db (fst c))) (Some target) \<and>
      script_ran E rows (export_script target source)
        (export_flags (sqlcipher_find_db_index (Some (xd_db (fst c))) (Some target)) (fst c), snd c) c1)"
    using export_body_honest [OF assms] by blast
  then have e: "sqlcipher_exportFunc E argv c =
      Some (if rc \<noteq> 0 then Some (case err of None \<Rightarrow> sqlite3ErrStr rc | Some m \<Rightarrow> m) else None, restore_db (fst c) (fst c1), snd c1)"
    by (cases c1) (simp add: sqlcipher_exportFunc_def)
  show ?thesis
  proof (cases "rc = 0")
    case True
    then have "sqlcipher_exportFunc E argv c = Some (None, restore_db (fst c) (fst c1), snd c1)" using e by simp
    then show ?thesis using mp [OF b(2) True] by blast
  qed (use e in simp)
qed

theorem export_runs_script_witness:
  "\<exists>c1. sqlcipher_exportFunc sample_sql [Some []] (sample_export_db, 0, \<lambda>_. [], []) = Some (None, restore_db sample_export_db (fst c1), snd c1) \<and>
     script_ran sample_sql sample_rows (export_script [] (cstr ''main'')) (export_flags 0 sample_export_db, 0, \<lambda>_. [], []) c1"
proof -
  let ?c = "(sample_export_db, 0, \<lambda>_. [], []) :: sample_sql_state xconn"
  have idx: "sqlcipher_find_db_index (Some (xd_db sample_export_db)) (Some (cstr ''main'')) = 0"
    "sqlcipher_find_db_index (Some (xd_db sample_export_db)) (Some []) = 0"
    by (simp_all add: sqlcipher_find_db_index_def sample_export_db_def sample_connection_def sample_entry_def sqlite3StrICmp_iff)
  obtain c2 where s: "run_script sample_sql (export_script [] (cstr ''main'')) None (export_flags 0 sample_export_db, 0, \<lambda>_. [], []) = Some (SQLITE_OK, None, c2)"
    using sample_script by blast
  have "\<exists>c'. sqlcipher_exportFunc sample_sql [Some []] ?c = Some (None, c')"
    using s idx by (cases c2) (simp add: sqlcipher_exportFunc_def export_body_def del: cstr_simps)
  with export_runs_script [OF sample_honest, of "[Some []]" ?c] idx show ?thesis by auto
qed

text \<open>
  C32: whatever the engine does and on every way out, the flags and the trace mask of the connection are as
  before; the two counters of changes are as before only if they fit into 32 bits.
\<close>

theorem export_restores_connection:
  assumes "sqlcipher_exportFunc E argv (d, e) = Some (r, d', e')"
  shows "xd_flags d' = xd_flags d \<and> xd_mDbFlags d' = xd_mDbFlags d \<and> xd_mTrace d' = xd_mTrace d \<and> xd_init_iDb d' = 0 \<and>
    (xd_nChange d' = xd_nChange d \<longleftrightarrow> - (2 ^ 31) \<le> sint (xd_nChange d) \<and> sint (xd_nChange d) < 2 ^ 31) \<and>
    (xd_nTotalChange d' = xd_nTotalChange d \<longleftrightarrow> - (2 ^ 31) \<le> sint (xd_nTotalChange d) \<and> sint (xd_nTotalChange d) < 2 ^ 31)"
proof -
  obtain d1 where "d' = restore_db d d1" using assms by (auto simp: sqlcipher_exportFunc_def split: option.splits)
  then show ?thesis by (simp add: restore_simps as_int_iff)
qed

theorem export_restores_connection_witness:
  "\<exists>d' e'. sqlcipher_exportFunc sample_sql [] (sample_export_db, 0, \<lambda>_. [], []) = Some (Some (cstr ''invalid number of arguments (0) passed to sqlcipher_export''), d', e') \<and>
     xd_flags d' = 0x4000 \<and> xd_nTotalChange d' \<noteq> 0x80000000"
proof -
  obtain r d' e' where r: "sqlcipher_exportFunc sample_sql [] (sample_export_db, 0, \<lambda>_. [], []) = Some (r, d', e')"
    "r = Some (cstr ''invalid number of arguments (0) passed to sqlcipher_export'')"
    by (simp add: sqlcipher_exportFunc_def export_body_def mprintf_def sample_sql_def int_str_def digits.simps)
  from export_restores_connection [OF r(1)] have "xd_flags d' = 0x4000 \<and> xd_nTotalChange d' \<noteq> 0x80000000"
    by (simp add: sample_export_db_def)
  with r show ?thesis by blast
qed

end
