(* ===== verification/Backup.thy ===== *)
theory Backup
  imports Attach
begin

text \<open>
  Backups: \<open>sqlite3_backup_init\<close> asks whether both databases are encrypted, and the loop of \<open>sqlite3_backup_step\<close> copies
  the pages of the source, converting the size of pages on the way (\<open>backupOnePage\<close>).
\<close>

section \<open>Both encrypted or none\<close>

text \<open>The part of \<open>sqlite3_backup_init\<close> that SQLCipher adds: whether it goes on.\<close>

definition backup_key_size :: "database option \<Rightarrow> bytes option \<Rightarrow> 's world \<Rightarrow> (int \<times> 's world) option" where
  "backup_key_size db zDb w =
     (case sqlcipherCodecGetKey db (sqlcipher_find_db_index db zDb) w of None \<Rightarrow> None
      | Some (zKey, nKey, w) \<Rightarrow> Some (nKey, w))"

definition backup_allowed ::
    "database option \<Rightarrow> bytes option \<Rightarrow> database option \<Rightarrow> bytes option \<Rightarrow> 's world \<Rightarrow> (bool \<times> 's world) option" where
  "backup_allowed pDestDb zDestDb pSrcDb zSrcDb w =
     (case backup_key_size pSrcDb zSrcDb w of None \<Rightarrow> None
      | Some (srcNKey, w) \<Rightarrow>
          (case backup_key_size pDestDb zDestDb w of None \<Rightarrow> None
           | Some (destNKey, w) \<Rightarrow> Some (\<not> (srcNKey = 0 \<and> destNKey > 0 \<or> srcNKey > 0 \<and> destNKey = 0), w)))"

section \<open>Copying pages\<close>

text \<open>
  The sizes and reserves of the pages on both sides, whether the destination has a codec, the number of pages of the source;
  and the destination: its pages and the answers of \<open>sqlite3PagerGet\<close> and \<open>sqlite3PagerWrite\<close> to come.  Offsets
  and page numbers are below the limits of their types.
\<close>

record backup =
  nSrcPgsz :: nat
  nDestPgsz :: nat
  nSrcReserve :: int
  nDestReserve :: int
  dest_codec :: bool
  nSrcPage :: nat

record dest =
  ds_page :: "nat \<Rightarrow> bytes"
  ds_answers :: "nat \<Rightarrow> int"

definition PENDING_BYTE_PAGE :: "nat \<Rightarrow> nat" where "PENDING_BYTE_PAGE pageSize = 0x40000000 div pageSize + 1"

definition ds_answer :: "dest \<Rightarrow> int \<times> dest" where
  "ds_answer d = (ds_answers d 0, d\<lparr>ds_answers := (\<lambda>k. ds_answers d (Suc k))\<rparr>)"

definition pager_get_write :: "dest \<Rightarrow> int \<times> dest" where
  "pager_get_write d = (let (rc, d) = ds_answer d in if rc \<noteq> SQLITE_OK then (rc, d) else ds_answer d)"

text \<open>One turn of the loop of \<open>backupOnePage\<close>.\<close>

definition backup_part :: "backup \<Rightarrow> bytes \<Rightarrow> bool \<Rightarrow> nat \<Rightarrow> dest \<Rightarrow> int \<times> dest" where
  "backup_part B zSrcData bUpdate iOff d =
     (let nCopy = min (nSrcPgsz B) (nDestPgsz B); iDest = iOff div nDestPgsz B + 1 in
      if iDest = PENDING_BYTE_PAGE (nDestPgsz B) then (SQLITE_OK, d)
      else let (rc, d) = pager_get_write d in
        if rc \<noteq> SQLITE_OK then (rc, d)
        else let zIn = drop (iOff mod nSrcPgsz B) zSrcData;
                 zOut = iOff mod nDestPgsz B;
                 zDestData = buf_write (ds_page d iDest) zOut (take nCopy zIn);
                 zDestData = (if iOff = 0 \<and> \<not> bUpdate then buf_write zDestData (zOut + 28) (STORE32H (of_nat (nSrcPage B))) else zDestData)
             in (SQLITE_OK, d\<lparr>ds_page := (ds_page d)(iDest := zDestData)\<rparr>))"

function backup_loop :: "backup \<Rightarrow> bytes \<Rightarrow> bool \<Rightarrow> int \<Rightarrow> nat \<Rightarrow> nat \<Rightarrow> dest \<Rightarrow> int \<times> dest" where
  "backup_loop B zSrcData bUpdate rc iOff iEnd d =
     (if rc = SQLITE_OK \<and> iOff < iEnd \<and> 0 < nDestPgsz B
      then let (rc, d) = backup_part B zSrcData bUpdate iOff d in backup_loop B zSrcData bUpdate rc (iOff + nDestPgsz B) iEnd d
      else (rc, d))"
  by auto
termination by (relation "measure (\<lambda>(B, _, _, _, iOff, iEnd, _). iEnd - iOff)") auto

declare backup_loop.simps [simp del]

text \<open>\<open>set_pagesize\<close> is \<open>sqlite3PagerSetPagesize\<close> of the destination.\<close>

definition backupOnePage :: "backup \<Rightarrow> (nat \<Rightarrow> int \<Rightarrow> dest \<Rightarrow> int \<times> nat \<times> dest) \<Rightarrow> nat \<Rightarrow> bytes \<Rightarrow> bool \<Rightarrow> dest \<Rightarrow> int \<times> dest" where
  "backupOnePage B set_pagesize iSrcPg zSrcData bUpdate d =
     (let iEnd = iSrcPg * nSrcPgsz B;
          rc = (if nSrcPgsz B \<noteq> nDestPgsz B \<and> dest_codec B then SQLITE_READONLY else SQLITE_OK);
          (rc, d) = (if nSrcReserve B \<noteq> nDestReserve B
                     then let (rc, newPgsz, d) = set_pagesize (nSrcPgsz B) (nSrcReserve B) d
                          in (if rc = SQLITE_OK \<and> newPgsz \<noteq> nSrcPgsz B then SQLITE_READONLY else rc, d)
                     else (rc, d))
      in backup_loop B zSrcData bUpdate rc (iEnd - nSrcPgsz B) iEnd d)"

text \<open>
  The loop of \<open>sqlite3_backup_step\<close> over the pages of the source: \<open>src_get\<close> is \<open>sqlite3PagerGet\<close> of the source.  Results: the
  status and the next page.
\<close>

function backup_pages :: "backup \<Rightarrow> (nat \<Rightarrow> int \<Rightarrow> dest \<Rightarrow> int \<times> nat \<times> dest) \<Rightarrow> (nat \<Rightarrow> int \<times> bytes) \<Rightarrow> int \<Rightarrow> int \<Rightarrow> nat \<Rightarrow> int \<Rightarrow> dest \<Rightarrow>
    int \<times> nat \<times> dest" where
  "backup_pages B set_pagesize src_get nPage ii iNext rc d =
     (if (nPage < 0 \<or> ii < nPage) \<and> iNext \<le> nSrcPage B \<and> rc = SQLITE_OK
      then let (rc, d) = (if iNext \<noteq> PENDING_BYTE_PAGE (nSrcPgsz B)
                          then let (rc, zData) = src_get iNext in if rc = SQLITE_OK then backupOnePage B set_pagesize iNext zData False d else (rc, d)
                          else (rc, d))
           in backup_pages B set_pagesize src_get nPage (ii + 1) (iNext + 1) rc d
      else (rc, iNext, d))"
  by auto
termination by (relation "measure (\<lambda>(B, _, _, _, _, iNext, _, _). nSrcPage B + 1 - iNext)") auto

declare backup_pages.simps [simp del]

section \<open>What a copy changes\<close>

text \<open>The bytes of the destination by their offset in its file, and the sizes of pages that the formats allow.\<close>

definition dest_at :: "backup \<Rightarrow> dest \<Rightarrow> nat \<Rightarrow> byte" where
  "dest_at B d x = ds_page d (x div nDestPgsz B + 1) ! (x mod nDestPgsz B)"

definition dest_ok :: "backup \<Rightarrow> dest \<Rightarrow> bool" where "dest_ok B d \<longleftrightarrow> (\<forall>p. length (ds_page d p) = nDestPgsz B)"

definition sizes_ok :: "backup \<Rightarrow> bool" where
  "sizes_ok B \<longleftrightarrow> 32 \<le> nSrcPgsz B \<and> 32 \<le> nDestPgsz B \<and> (nSrcPgsz B dvd nDestPgsz B \<or> nDestPgsz B dvd nSrcPgsz B)"

text \<open>A page of the source as it is copied: the first one gets the number of pages.\<close>

definition patched :: "backup \<Rightarrow> nat \<Rightarrow> bool \<Rightarrow> bytes \<Rightarrow> bytes" where
  "patched B start bUpdate z = (if start = 0 \<and> \<not> bUpdate then buf_write z 28 (STORE32H (of_nat (nSrcPage B))) else z)"

lemma length_patched: "32 \<le> length z \<Longrightarrow> length (patched B start bUpdate z) = length z"
  by (simp add: patched_def length_buf_write)

lemma take_patched: "32 \<le> n \<Longrightarrow> n \<le> length z \<Longrightarrow> take n (patched B start bUpdate z) = patched B start bUpdate (take n z)"
  by (auto simp: patched_def buf_write_def min_def take_drop)

lemma same_page:
  assumes "0 < n" "(x :: nat) mod n + k < n"
  shows "(x + k) div n = x div n" "(x + k) mod n = x mod n + k"
proof -
  have k: "k div n = 0" "k mod n = k" using assms by simp_all
  show "(x + k) div n = x div n" using assms k by (simp add: div_add1_eq [of x k])
  show "(x + k) mod n = x mod n + k" using assms mod_add_left_eq [of x n k] by simp
qed

lemma nth_write:
  assumes "i + length z \<le> length b"
  shows "k < length z \<Longrightarrow> buf_write b i z ! (i + k) = z ! k" "j < length b \<Longrightarrow> j < i \<or> i + length z \<le> j \<Longrightarrow> buf_write b i z ! j = b ! j"
  using assms by (auto simp: buf_write_def nth_append min_def)

lemma write_write:
  assumes "i + length z \<le> length b" "j + length y \<le> length z"
  shows "buf_write (buf_write b i z) (i + j) y = buf_write b i (buf_write z j y)"
proof -
  obtain T D where b: "b = T @ D" "length T = i" using assms(1) by (metis append_take_drop_id length_take min.absorb2 add_leD1)
  have "length (buf_write z j y) = length z" using assms(2) by (simp add: length_buf_write)
  then have "buf_write b i (buf_write z j y) = T @ buf_write z j y @ drop (length z) D" by (simp add: buf_write_def b)
  moreover have "buf_write (buf_write b i z) (i + j) y = T @ take j z @ y @ drop (j + length y) z @ drop (length z) D"
    using assms(2) by (simp add: buf_write_def b)
  ultimately show ?thesis by (simp add: buf_write_def)
qed

lemma write_part:
  assumes n: "0 < nDestPgsz B" and ok: "dest_ok B d" and fit: "x mod nDestPgsz B + length z \<le> nDestPgsz B"
    and d': "ds_page d' = (ds_page d)(x div nDestPgsz B + 1 := buf_write (ds_page d (x div nDestPgsz B + 1)) (x mod nDestPgsz B) z)"
  shows "dest_ok B d'" "x \<le> y \<Longrightarrow> y < x + length z \<Longrightarrow> dest_at B d' y = z ! (y - x)"
    "y < x \<or> x + length z \<le> y \<Longrightarrow> dest_at B d' y = dest_at B d y"
proof -
  let ?n = "nDestPgsz B"
  have len: "x mod ?n + length z \<le> length (ds_page d (x div ?n + 1))" using ok fit by (simp add: dest_ok_def)
  show "dest_ok B d'" using ok len by (simp add: dest_ok_def d' length_buf_write)
  show "dest_at B d' y = z ! (y - x)" if "x \<le> y" "y < x + length z"
  proof -
    define k where "k = y - x"
    then have k: "y = x + k" "k < length z" using that by simp_all
    then have "y div ?n = x div ?n" "y mod ?n = x mod ?n + k" using same_page [OF n, of x k] fit by simp_all
    then show ?thesis using nth_write(1) [OF len k(2)] k(1) by (simp add: dest_at_def d')
  qed
  show "dest_at B d' y = dest_at B d y" if "y < x \<or> x + length z \<le> y"
  proof (cases "y div ?n = x div ?n")
    case True
    have "y = x div ?n * ?n + y mod ?n" "x = x div ?n * ?n + x mod ?n" using True by (metis div_mult_mod_eq)+
    then have "y mod ?n < x mod ?n \<or> x mod ?n + length z \<le> y mod ?n" using that by linarith
    moreover have "y mod ?n < length (ds_page d (x div ?n + 1))" using ok n by (simp add: dest_ok_def)
    ultimately show ?thesis using nth_write(2) [OF len] True by (simp add: dest_at_def d')
  qed (simp add: dest_at_def d')
qed

lemma get_write_pages: "pager_get_write d = (rc, d') \<Longrightarrow> ds_page d' = ds_page d"
  by (auto simp: pager_get_write_def ds_answer_def Let_def split: if_splits)

lemma part_effect:
  assumes sz: "sizes_ok B" and ok: "dest_ok B d" and run: "backup_part B data bUpdate x d = (SQLITE_OK, d')"
    and c: "c = min (nSrcPgsz B) (nDestPgsz B)" and fit: "x mod nDestPgsz B + c \<le> nDestPgsz B" "x mod nSrcPgsz B + c \<le> length data"
  shows "dest_ok B d' \<and>
    (\<forall>y. x \<le> y \<longrightarrow> y < x + c \<longrightarrow> y div nDestPgsz B + 1 \<noteq> PENDING_BYTE_PAGE (nDestPgsz B) \<longrightarrow>
       dest_at B d' y = patched B x bUpdate (take c (drop (x mod nSrcPgsz B) data)) ! (y - x)) \<and>
    (\<forall>y. y < x \<or> x + c \<le> y \<longrightarrow> dest_at B d' y = dest_at B d y)"
proof (cases "x div nDestPgsz B + 1 = PENDING_BYTE_PAGE (nDestPgsz B)")
  case True
  have n: "0 < nDestPgsz B" using sz by (simp add: sizes_ok_def)
  have y: "y div nDestPgsz B + 1 = PENDING_BYTE_PAGE (nDestPgsz B)" if "x \<le> y" "y < x + c" for y
    using same_page(1) [OF n, of x "y - x"] that fit(1) True by simp
  have "d' = d" using run unfolding backup_part_def Let_def if_P [OF True] by simp
  with ok y show ?thesis by blast
next
  case False
  let ?z = "take c (drop (x mod nSrcPgsz B) data)"
  have n: "0 < nDestPgsz B" and c32: "32 \<le> c" using sz by (auto simp: sizes_ok_def c)
  have len: "length ?z = c" using fit(2) by simp
  obtain rc d1 where g: "pager_get_write d = (rc, d1)" by (rule prod.exhaust)
  let ?p = "x div nDestPgsz B + 1"
  let ?new = "if x = 0 \<and> \<not> bUpdate then buf_write (buf_write (ds_page d1 ?p) (x mod nDestPgsz B) ?z) (x mod nDestPgsz B + 28) (STORE32H (of_nat (nSrcPage B)))
       else buf_write (ds_page d1 ?p) (x mod nDestPgsz B) ?z"
  have "backup_part B data bUpdate x d = (if rc \<noteq> SQLITE_OK then (rc, d1) else (SQLITE_OK, d1\<lparr>ds_page := (ds_page d1)(?p := ?new)\<rparr>))"
    using False unfolding backup_part_def Let_def g prod.case c [symmetric] by (simp only: if_False)
  then have d': "d' = d1\<lparr>ds_page := (ds_page d1)(?p := ?new)\<rparr>" using run by (auto split: if_splits)
  have "x mod nDestPgsz B + length ?z \<le> length (ds_page d ?p)" using fit(1) ok len by (simp add: dest_ok_def)
  note ww = write_write [OF this, of 28 "STORE32H (of_nat (nSrcPage B))"]
  have "ds_page d' = (ds_page d)(?p := buf_write (ds_page d ?p) (x mod nDestPgsz B) (patched B x bUpdate ?z))"
  proof (cases "x = 0 \<and> \<not> bUpdate")
    case True
    have "28 + length (STORE32H (of_nat (nSrcPage B))) \<le> length ?z" using len c32 by simp
    from ww [OF this] show ?thesis unfolding d' patched_def if_P [OF True] get_write_pages [OF g] by simp
  next
    case False
    show ?thesis unfolding d' patched_def if_not_P [OF False] get_write_pages [OF g] by simp
  qed
  moreover have "length (patched B x bUpdate ?z) = c" using length_patched len c32 by simp
  ultimately show ?thesis using write_part [OF n ok, of x "patched B x bUpdate ?z" d'] fit(1) by simp
qed

lemma patched_part:
  assumes "start \<le> x" "x - start + c \<le> length data" "32 \<le> c" "k < c" "x = 0 \<or> start \<noteq> 0 \<or> 32 \<le> x"
  shows "patched B x bUpdate (take c (drop (x - start) data)) ! k = patched B start bUpdate data ! (x - start + k)"
proof (cases "x = 0")
  case True
  then show ?thesis using assms take_patched [of c data B 0 bUpdate] by (metis diff_is_0_eq' drop0 le_zero_eq add_0 nth_take)
next
  case False
  then have p: "patched B x bUpdate (take c (drop (x - start) data)) ! k = data ! (x - start + k)"
    using assms(2,4) by (simp add: patched_def)
  show ?thesis
  proof (cases "start = 0 \<and> \<not> bUpdate")
    case True
    then have "buf_write data 28 (STORE32H (of_nat (nSrcPage B))) ! (x - start + k) = data ! (x - start + k)"
      using assms False by (intro nth_write(2)) auto
    then show ?thesis using p True by (simp add: patched_def)
  qed (use p in \<open>auto simp: patched_def\<close>)
qed

text \<open>Where the loop may stand inside a page, with the larger size a multiple of the smaller.\<close>

definition at_part :: "backup \<Rightarrow> nat \<Rightarrow> nat \<Rightarrow> bool" where
  "at_part B start x \<longleftrightarrow> start \<le> x \<and> (x = start \<or> nDestPgsz B dvd nSrcPgsz B \<and> nDestPgsz B dvd x \<or> start + nSrcPgsz B \<le> x)"

lemma at_part_fits:
  assumes sz: "sizes_ok B" and start: "nSrcPgsz B dvd start" and x: "at_part B start x" "x < start + nSrcPgsz B"
    and c: "c = min (nSrcPgsz B) (nDestPgsz B)"
  shows "x mod nDestPgsz B + c \<le> nDestPgsz B" "x - start + c \<le> nSrcPgsz B" "at_part B start (x + nDestPgsz B)"
    "c = nDestPgsz B \<or> x + c = start + nSrcPgsz B" "x = 0 \<or> start \<noteq> 0 \<or> 32 \<le> x"
proof -
  let ?ns = "nSrcPgsz B" and ?nd = "nDestPgsz B"
  have n: "0 < ?nd" "0 < ?ns" "32 \<le> ?nd" using sz by (auto simp: sizes_ok_def)
  have "(x mod ?nd + c \<le> ?nd \<and> x - start + c \<le> ?ns) \<and> at_part B start (x + ?nd) \<and> (c = ?nd \<or> x + c = start + ?ns) \<and> (x = 0 \<or> start \<noteq> 0 \<or> 32 \<le> x)"
  proof (cases "?nd dvd ?ns")
    case True
    then have c: "c = ?nd" using n dvd_imp_le [of ?nd ?ns] by (simp add: c min_def)
    have d: "?nd dvd start" using True start by (rule dvd_trans)
    then have dx: "?nd dvd x" using x by (auto simp: at_part_def)
    have "?nd dvd ?ns - (x - start)" using True dx d by (intro dvd_diff_nat)
    then have "?nd \<le> ?ns - (x - start)" using x by (intro dvd_imp_le) (auto simp: at_part_def)
    moreover have "x = 0 \<or> 32 \<le> x" using dvd_imp_le [OF dx] n(3) by linarith
    ultimately show ?thesis using c dx True x n by (auto simp: at_part_def)
  next
    case False
    then have s: "?ns dvd ?nd" "x = start" using sz x by (auto simp: sizes_ok_def at_part_def)
    then have c: "c = ?ns" using n dvd_imp_le [of ?ns ?nd] by (simp add: c min_def)
    obtain k i where k: "?nd = ?ns * k" "start = ?ns * i" using s(1) start by (auto elim!: dvdE)
    have "i mod k < k" using n(1) k(1) by (cases "k = 0") auto
    then have "?ns * (i mod k + 1) \<le> ?ns * k" by (intro mult_le_mono2) simp
    moreover have "start mod ?nd = ?ns * (i mod k)" unfolding k by simp
    ultimately have "start mod ?nd + ?ns \<le> ?nd" unfolding k(1) [symmetric] by (simp only: add_mult_distrib2 mult_1_right)
    moreover have "?ns \<le> ?nd" using s(1) n(1) by (rule dvd_imp_le)
    ultimately show ?thesis using s(2) c by (auto simp: at_part_def)
  qed
  then show "x mod ?nd + c \<le> ?nd" "x - start + c \<le> ?ns" "at_part B start (x + ?nd)" "c = ?nd \<or> x + c = start + ?ns" "x = 0 \<or> start \<noteq> 0 \<or> 32 \<le> x"
    by blast+
qed

lemma loop_effect:
  assumes sz: "sizes_ok B" and len: "length data = nSrcPgsz B" and start: "nSrcPgsz B dvd start"
  shows "\<lbrakk>dest_ok B d; backup_loop B data bUpdate SQLITE_OK x (start + nSrcPgsz B) d = (SQLITE_OK, d'); at_part B start x\<rbrakk> \<Longrightarrow>
    dest_ok B d' \<and>
    (\<forall>y. x \<le> y \<longrightarrow> y < start + nSrcPgsz B \<longrightarrow> y div nDestPgsz B + 1 \<noteq> PENDING_BYTE_PAGE (nDestPgsz B) \<longrightarrow>
       dest_at B d' y = patched B start bUpdate data ! (y - start)) \<and>
    (\<forall>y. y < x \<or> start + nSrcPgsz B \<le> y \<longrightarrow> dest_at B d' y = dest_at B d y)"
proof (induction "start + nSrcPgsz B - x" arbitrary: x d rule: less_induct)
  case less
  let ?ns = "nSrcPgsz B" and ?nd = "nDestPgsz B"
  define c where "c = min ?ns ?nd"
  have n: "0 < ?nd" "0 < ?ns" "32 \<le> c" "c \<le> ?nd" using sz by (auto simp: sizes_ok_def c_def)
  show ?case
  proof (cases "x < start + ?ns")
    case False
    then have "d' = d" using less.prems(2) by (simp add: backup_loop.simps [of B data bUpdate SQLITE_OK x])
    then show ?thesis using False less.prems(1) by auto
  next
    case x: True
    obtain rc d1 where p: "backup_part B data bUpdate x d = (rc, d1)" by (rule prod.exhaust)
    have loop: "backup_loop B data bUpdate rc (x + ?nd) (start + ?ns) d1 = (SQLITE_OK, d')"
      using less.prems(2) x n(1) p by (simp add: backup_loop.simps [of B data bUpdate SQLITE_OK x])
    then have rc: "rc = SQLITE_OK" by (cases "rc = SQLITE_OK") (simp_all add: backup_loop.simps [of B data bUpdate rc])
    note at = at_part_fits [OF sz start less.prems(3) x c_def]
    have sx: "start \<le> x" using less.prems(3) by (simp add: at_part_def)
    have m: "x mod ?ns = x - start"
    proof -
      have "x = start + (x - start)" "x - start < ?ns" using sx x by simp_all
      then show ?thesis using start by (metis dvd_imp_mod_0 mod_add_left_eq add_0 mod_less)
    qed
    have e: "dest_ok B d1" "\<And>y. x \<le> y \<Longrightarrow> y < x + c \<Longrightarrow> y div ?nd + 1 \<noteq> PENDING_BYTE_PAGE ?nd \<Longrightarrow>
        dest_at B d1 y = patched B x bUpdate (take c (drop (x - start) data)) ! (y - x)"
      "\<And>y. y < x \<or> x + c \<le> y \<Longrightarrow> dest_at B d1 y = dest_at B d y"
      using part_effect [OF sz less.prems(1) p [unfolded rc] c_def at(1)] at(2) unfolding m len by blast+
    have "start + ?ns - (x + ?nd) < start + ?ns - x" using x n(1) by simp
    note ih = less.hyps [OF this e(1) loop [unfolded rc] at(3)]
    have inside: "dest_at B d' y = patched B start bUpdate data ! (y - start)"
      if "x \<le> y" "y < start + ?ns" "y div ?nd + 1 \<noteq> PENDING_BYTE_PAGE ?nd" for y
    proof (cases "y < x + c")
      case True
      have "dest_at B d' y = dest_at B d1 y" using ih True n(4) by simp
      also have "\<dots> = patched B start bUpdate data ! (x - start + (y - x))"
        using e(2) [OF that(1) True that(3)] patched_part [OF sx _ n(3) _ at(5), of data "y - x"] at(2) len True that(1) by simp
      finally show ?thesis using sx that(1) by simp
    next
      case False
      then show ?thesis using ih at(4) that by auto
    qed
    have "dest_at B d' y = dest_at B d y" if "y < x \<or> start + ?ns \<le> y" for y
    proof -
      have "dest_at B d' y = dest_at B d1 y" using ih that by auto
      moreover have "y < x \<or> x + c \<le> y" using that at(2) sx by auto
      ultimately show ?thesis using e(3) by simp
    qed
    then show ?thesis using ih inside by blast
  qed
qed

text \<open>The reserves agree, or the sizes of pages do and setting the same size again, with another reserve, does not touch the pages.\<close>

definition reserves_ok :: "backup \<Rightarrow> (nat \<Rightarrow> int \<Rightarrow> dest \<Rightarrow> int \<times> nat \<times> dest) \<Rightarrow> bool" where
  "reserves_ok B set_pagesize \<longleftrightarrow> nSrcReserve B = nDestReserve B \<or>
     nSrcPgsz B = nDestPgsz B \<and> (\<forall>r d. ds_page (snd (snd (set_pagesize (nDestPgsz B) r d))) = ds_page d)"

lemma dest_at_cong: "ds_page d = ds_page e \<Longrightarrow> dest_at B d y = dest_at B e y" "ds_page d = ds_page e \<Longrightarrow> dest_ok B d = dest_ok B e"
  by (simp_all add: dest_at_def dest_ok_def)

lemma one_page_effect:
  assumes sz: "sizes_ok B" and len: "length data = nSrcPgsz B" and res: "reserves_ok B set_pagesize" and ok: "dest_ok B d"
    and run: "backupOnePage B set_pagesize (Suc p) data bUpdate d = (SQLITE_OK, d')"
  shows "dest_ok B d' \<and>
    (\<forall>y. p * nSrcPgsz B \<le> y \<longrightarrow> y < Suc p * nSrcPgsz B \<longrightarrow> y div nDestPgsz B + 1 \<noteq> PENDING_BYTE_PAGE (nDestPgsz B) \<longrightarrow>
       dest_at B d' y = patched B (p * nSrcPgsz B) bUpdate data ! (y - p * nSrcPgsz B)) \<and>
    (\<forall>y. y < p * nSrcPgsz B \<or> Suc p * nSrcPgsz B \<le> y \<longrightarrow> dest_at B d' y = dest_at B d y)"
proof -
  let ?start = "p * nSrcPgsz B"
  have e: "Suc p * nSrcPgsz B = ?start + nSrcPgsz B" "Suc p * nSrcPgsz B - nSrcPgsz B = ?start" by simp_all
  let ?bad = "nSrcPgsz B \<noteq> nDestPgsz B \<and> dest_codec B"
  have stop: "backup_loop B data bUpdate rc x z e = (SQLITE_OK, d') \<Longrightarrow> rc = SQLITE_OK" for rc x z e
    by (cases "rc = SQLITE_OK") (simp_all add: backup_loop.simps [of B data bUpdate rc])
  obtain rc d0 where r: "backup_loop B data bUpdate rc ?start (?start + nSrcPgsz B) d0 = (SQLITE_OK, d')" "ds_page d0 = ds_page d"
  proof (cases "nSrcReserve B = nDestReserve B")
    case True
    have "backup_loop B data bUpdate (if ?bad then SQLITE_READONLY else SQLITE_OK) ?start (?start + nSrcPgsz B) d = (SQLITE_OK, d')"
      using run True unfolding backupOnePage_def Let_def e by (simp only: if_False prod.case simp_thms add_diff_cancel_right')
    then show thesis using that by blast
  next
    case False
    obtain r1 n1 d1 where s: "set_pagesize (nSrcPgsz B) (nSrcReserve B) d = (r1, n1, d1)" by (rule prod_cases3)
    have k: "nSrcPgsz B = nDestPgsz B" "ds_page (snd (snd (set_pagesize (nDestPgsz B) (nSrcReserve B) d))) = ds_page d"
      using res False unfolding reserves_ok_def by blast+
    then have d1: "ds_page d1 = ds_page d" using s by simp
    have "backup_loop B data bUpdate (if r1 = SQLITE_OK \<and> n1 \<noteq> nSrcPgsz B then SQLITE_READONLY else r1) ?start (?start + nSrcPgsz B) d1 = (SQLITE_OK, d')"
      using run False unfolding backupOnePage_def Let_def e s by (simp only: if_True prod.case simp_thms add_diff_cancel_right')
    then show thesis using that d1 by blast
  qed
  have "backup_loop B data bUpdate SQLITE_OK ?start (?start + nSrcPgsz B) d0 = (SQLITE_OK, d')" using r(1) stop [OF r(1)] by simp
  moreover have "dest_ok B d0" using ok r(2) by (simp add: dest_ok_def)
  ultimately show ?thesis using loop_effect [OF sz len, of ?start d0 bUpdate ?start d'] dest_at_cong(1) [OF r(2)] unfolding e(1) by (simp add: at_part_def)
qed

text \<open>The bytes of the source as a backup copies them.\<close>

definition src_at :: "backup \<Rightarrow> (nat \<Rightarrow> int \<times> bytes) \<Rightarrow> nat \<Rightarrow> byte" where
  "src_at B src_get y = patched B (y div nSrcPgsz B * nSrcPgsz B) False (snd (src_get (y div nSrcPgsz B + 1))) ! (y mod nSrcPgsz B)"

lemma src_at_eq:
  assumes "sizes_ok B" "\<And>p. length (snd (src_get p)) = nSrcPgsz B"
  shows "src_at B src_get y = (if 28 \<le> y \<and> y < 32 then STORE32H (of_nat (nSrcPage B)) ! (y - 28) else snd (src_get (y div nSrcPgsz B + 1)) ! (y mod nSrcPgsz B))"
proof -
  let ?n = "nSrcPgsz B" and ?z = "snd (src_get (y div nSrcPgsz B + 1))"
  have n: "32 \<le> ?n" and len: "length ?z = ?n" using assms by (simp_all add: sizes_ok_def)
  show ?thesis
  proof (cases "y div ?n = 0")
    case True
    then have y: "y < ?n" "y mod ?n = y" using n by (auto simp: div_eq_0_iff)
    have fit: "28 + length (STORE32H (of_nat (nSrcPage B))) \<le> length (snd (src_get 1))" using n assms(2) [of 1] by simp
    show ?thesis
    proof (cases "28 \<le> y \<and> y < 32")
      case True
      then have "y - 28 < length (STORE32H (of_nat (nSrcPage B)))" by auto
      then show ?thesis using True nth_write(1) [OF fit, of "y - 28"] \<open>y div ?n = 0\<close> y by (simp add: src_at_def patched_def)
    next
      case False
      then have "y < 28 \<or> 28 + length (STORE32H (of_nat (nSrcPage B))) \<le> y" by auto
      then show ?thesis using False nth_write(2) [OF fit, of y] \<open>y div ?n = 0\<close> y assms(2) [of 1] by (auto simp: src_at_def patched_def)
    qed
  next
    case False
    then have "\<not> y < 32" using n by (auto simp: div_eq_0_iff)
    then show ?thesis using False n by (simp add: src_at_def patched_def)
  qed
qed

text \<open>The pages that are not copied: those of the locking byte on either side.\<close>

definition lock_page :: "backup \<Rightarrow> nat \<Rightarrow> bool" where
  "lock_page B y \<longleftrightarrow> y div nSrcPgsz B + 1 = PENDING_BYTE_PAGE (nSrcPgsz B) \<or> y div nDestPgsz B + 1 = PENDING_BYTE_PAGE (nDestPgsz B)"

lemma pages_effect:
  assumes sz: "sizes_ok B" and res: "reserves_ok B set_pagesize" and len: "\<And>p. length (snd (src_get p)) = nSrcPgsz B"
  shows "\<lbrakk>dest_ok B d; backup_pages B set_pagesize src_get nPage ii (Suc p) SQLITE_OK d = (SQLITE_OK, j, d')\<rbrakk> \<Longrightarrow>
    dest_ok B d' \<and> Suc p \<le> j \<and> (nPage < 0 \<longrightarrow> nSrcPage B < j) \<and>
    (\<forall>y. p * nSrcPgsz B \<le> y \<longrightarrow> y < (j - 1) * nSrcPgsz B \<longrightarrow> \<not> lock_page B y \<longrightarrow> dest_at B d' y = src_at B src_get y) \<and>
    (\<forall>y. y < p * nSrcPgsz B \<or> (j - 1) * nSrcPgsz B \<le> y \<longrightarrow> dest_at B d' y = dest_at B d y)"
proof (induction "nSrcPage B - p" arbitrary: p ii d rule: less_induct)
  case less
  let ?ns = "nSrcPgsz B"
  have ns: "0 < ?ns" using sz by (simp add: sizes_ok_def)
  show ?case
  proof (cases "(nPage < 0 \<or> ii < nPage) \<and> Suc p \<le> nSrcPage B")
    case False
    then have "d' = d" "j = Suc p" using less.prems(2) by (auto simp: backup_pages.simps [of B set_pagesize src_get nPage ii "Suc p"])
    then show ?thesis using False less.prems(1) by auto
  next
    case True
    let ?one = "if Suc p \<noteq> PENDING_BYTE_PAGE ?ns
        then let (rc, zData) = src_get (Suc p) in if rc = SQLITE_OK then backupOnePage B set_pagesize (Suc p) zData False d else (rc, d)
        else (SQLITE_OK, d)"
    obtain rc d1 where one: "?one = (rc, d1)" by (rule prod.exhaust)
    have rest: "backup_pages B set_pagesize src_get nPage (ii + 1) (Suc (Suc p)) rc d1 = (SQLITE_OK, j, d')"
      using less.prems(2) True one by (simp add: backup_pages.simps [of B set_pagesize src_get nPage ii "Suc p"])
    then have rc: "rc = SQLITE_OK" by (cases "rc = SQLITE_OK") (simp_all add: backup_pages.simps [of B set_pagesize src_get nPage "ii + 1"])
    have this_page: "y div ?ns = p" if "p * ?ns \<le> y" "y < Suc p * ?ns" for y
      using that by (metis div_nat_eqI mult.commute)
    have eff: "dest_ok B d1 \<and> (\<forall>y. p * ?ns \<le> y \<longrightarrow> y < Suc p * ?ns \<longrightarrow> \<not> lock_page B y \<longrightarrow> dest_at B d1 y = src_at B src_get y) \<and>
        (\<forall>y. y < p * ?ns \<or> Suc p * ?ns \<le> y \<longrightarrow> dest_at B d1 y = dest_at B d y)"
    proof (cases "Suc p = PENDING_BYTE_PAGE ?ns")
      case True
      then have "d1 = d" using one by simp
      then show ?thesis using less.prems(1) this_page True by (auto simp: lock_page_def)
    next
      case False
      obtain r z where g: "src_get (Suc p) = (r, z)" by (rule prod.exhaust)
      have run: "backupOnePage B set_pagesize (Suc p) z False d = (SQLITE_OK, d1)" using one False g rc by (auto split: if_splits)
      have z: "length z = ?ns" using len [of "Suc p"] g by simp
      note e = one_page_effect [OF sz z res less.prems(1) run]
      have "dest_at B d1 y = src_at B src_get y" if "p * ?ns \<le> y" "y < Suc p * ?ns" "\<not> lock_page B y" for y
      proof -
        have "y - p * ?ns = y mod ?ns" using this_page [OF that(1,2)] by (metis minus_div_mult_eq_mod)
        then show ?thesis using e that this_page [OF that(1,2)] g by (simp add: lock_page_def src_at_def)
      qed
      then show ?thesis using e by blast
    qed
    have "nSrcPage B - Suc p < nSrcPage B - p" using True by linarith
    note ih = less.hyps [OF this conjunct1 [OF eff] rest [unfolded rc]]
    have "Suc (Suc p) \<le> j" using ih by blast
    then have "Suc p \<le> j - 1" by simp
    then have j: "Suc p * ?ns \<le> (j - 1) * ?ns" by (rule mult_le_mono1)
    have "dest_at B d' y = src_at B src_get y" if "p * ?ns \<le> y" "y < (j - 1) * ?ns" "\<not> lock_page B y" for y
      using that ih eff by (cases "y < Suc p * ?ns") auto
    moreover have "dest_at B d' y = dest_at B d y" if "y < p * ?ns \<or> (j - 1) * ?ns \<le> y" for y
      using that ih eff j by auto
    ultimately show ?thesis using ih by auto
  qed
qed

section \<open>The question\<close>

lemma buf_write_nonempty: "z \<noteq> [] \<Longrightarrow> buf_write b i z \<noteq> []" "b \<noteq> [] \<Longrightarrow> 0 < i \<Longrightarrow> buf_write b i z \<noteq> []"
  by (auto simp: buf_write_def)

lemma keyspec_nonempty: "sqlcipher_cipher_ctx_get_keyspec ctx c w = (rc, Some k, w') \<Longrightarrow> k \<noteq> []"
  by (auto simp: sqlcipher_cipher_ctx_get_keyspec_def Let_def buf_write_nonempty split: prod.splits if_splits)

lemma backup_size_plain:
  assumes "\<forall>e \<in> set (aDb d). sqlcipherPagerGetCodec e = None"
  shows "backup_key_size (Some d) z w = Some (0, w)"
  using assms by (auto simp: backup_key_size_def sqlcipherCodecGetKey_def)

text \<open>
  An encrypted database whose key has been derived is not copied into a plain one, unless there is no memory for its key
  specification: then it counts as plain.
\<close>

lemma backup_refused:
  assumes src: "sqlcipher_find_db_index (Some s) zs = int i" "i < length (aDb s)" "sqlcipherPagerGetCodec (aDb s ! i) = Some ctx"
    and derived: "derive_key (read_ctx ctx) = 0" "store_pass ctx \<noteq> 1"
    and dest: "\<forall>e \<in> set (aDb d). sqlcipherPagerGetCodec e = None"
    and spec: "sqlcipher_cipher_ctx_get_keyspec ctx (read_ctx ctx) w = (rc, spec, w')"
  shows "backup_allowed (Some d) zd (Some s) zs w = Some (spec = None, w')"
proof -
  have "backup_key_size (Some s) zs w = Some (case spec of None \<Rightarrow> 0 | Some k \<Rightarrow> int (length k), w')"
    using src derived spec by (simp add: backup_key_size_def sqlcipherCodecGetKey_def)
  then show ?thesis
    using keyspec_nonempty [of ctx "read_ctx ctx" w rc _ w'] spec
    by (cases spec) (auto simp: backup_allowed_def backup_size_plain [OF dest])
qed

section \<open>Examples\<close>

definition sample_backup :: backup where
  "sample_backup = \<lparr>nSrcPgsz = 1024, nDestPgsz = 512, nSrcReserve = 0, nDestReserve = 0, dest_codec = False, nSrcPage = 2\<rparr>"

definition sample_dest :: dest where "sample_dest = \<lparr>ds_page = (\<lambda>_. replicate 512 0), ds_answers = (\<lambda>_. SQLITE_OK)\<rparr>"

definition sample_src :: "nat \<Rightarrow> int \<times> bytes" where "sample_src p = (SQLITE_OK, replicate 1024 (of_nat p))"

text \<open>Without a refusal the copy succeeds.\<close>

lemma part_succeeds:
  "ds_answers d = (\<lambda>_. SQLITE_OK) \<Longrightarrow> \<exists>d'. backup_part B data bUpdate x d = (SQLITE_OK, d') \<and> ds_answers d' = (\<lambda>_. SQLITE_OK)"
  by (simp add: backup_part_def pager_get_write_def ds_answer_def Let_def)

lemma loop_succeeds:
  "ds_answers d = (\<lambda>_. SQLITE_OK) \<Longrightarrow> \<exists>d'. backup_loop B data bUpdate SQLITE_OK x z d = (SQLITE_OK, d') \<and> ds_answers d' = (\<lambda>_. SQLITE_OK)"
proof (induction "z - x" arbitrary: x d rule: less_induct)
  case less
  show ?case
  proof (cases "x < z \<and> 0 < nDestPgsz B")
    case True
    obtain d1 where d1: "backup_part B data bUpdate x d = (SQLITE_OK, d1)" "ds_answers d1 = (\<lambda>_. SQLITE_OK)" using part_succeeds less.prems by blast
    have "z - (x + nDestPgsz B) < z - x" using True by linarith
    from less.hyps [OF this d1(2)] show ?thesis using True d1(1) by (simp add: backup_loop.simps [of B data bUpdate SQLITE_OK x])
  next
    case False
    then show ?thesis using less.prems by (auto simp: backup_loop.simps [of B data bUpdate SQLITE_OK x])
  qed
qed

lemma pages_succeed:
  assumes B: "nSrcReserve B = nDestReserve B" "nSrcPgsz B = nDestPgsz B \<or> \<not> dest_codec B" and src: "\<And>p. fst (src_get p) = SQLITE_OK"
  shows "ds_answers d = (\<lambda>_. SQLITE_OK) \<Longrightarrow> \<exists>j d'. backup_pages B set_pagesize src_get nPage ii p SQLITE_OK d = (SQLITE_OK, j, d')"
proof (induction "nSrcPage B + 1 - p" arbitrary: p ii d rule: less_induct)
  case less
  show ?case
  proof (cases "(nPage < 0 \<or> ii < nPage) \<and> p \<le> nSrcPage B")
    case True
    obtain z where z: "src_get p = (SQLITE_OK, z)" using src [of p] by (cases "src_get p") simp
    have one: "backupOnePage B set_pagesize p z False d = backup_loop B z False SQLITE_OK (p * nSrcPgsz B - nSrcPgsz B) (p * nSrcPgsz B) d"
      using B by (auto simp: backupOnePage_def Let_def)
    obtain d1 where d1: "(if p \<noteq> PENDING_BYTE_PAGE (nSrcPgsz B) then backupOnePage B set_pagesize p z False d else (SQLITE_OK, d)) = (SQLITE_OK, d1)"
      "ds_answers d1 = (\<lambda>_. SQLITE_OK)" unfolding one using loop_succeeds [OF less.prems] less.prems by (metis (full_types))
    have "nSrcPage B + 1 - (p + 1) < nSrcPage B + 1 - p" using True by linarith
    from less.hyps [OF this d1(2), of "ii + 1"] show ?thesis
      using True d1(1) z by (simp add: backup_pages.simps [of B set_pagesize src_get nPage ii p] split: if_splits)
  next
    case False
    then show ?thesis by (auto simp: backup_pages.simps [of B set_pagesize src_get nPage ii p])
  qed
qed

section \<open>Properties\<close>

text \<open>
  C34: the loop of a step over the pages of the source, when it meets no error, has copied the bytes of those pages to their offsets in the pages of the destination,
  whatever the two sizes of pages are; bytes 28 to 31 of the first page get the number of pages of the source, the pages of the locking byte of either side are left
  out, and what is behind the pages copied has not been changed by the loop.  A loop over all pages copies them all.  One of the two sizes of pages divides the other, and the two
  reserves agree, or else the two sizes of pages do and setting the same size with another reserve keeps the pages.  What a step does after
  its last page (the new schema version, the pages behind the locking byte, the truncation) is not part of this.
\<close>

theorem backup_copies_bytes:
  assumes "sizes_ok B" "reserves_ok B set_pagesize" "\<And>p. length (snd (src_get p)) = nSrcPgsz B" "dest_ok B d"
    and "backup_pages B set_pagesize src_get nPage 0 1 SQLITE_OK d = (SQLITE_OK, j, d')"
  shows "(\<forall>y < (j - 1) * nSrcPgsz B. \<not> lock_page B y \<longrightarrow> dest_at B d' y = (if 28 \<le> y \<and> y < 32 then STORE32H (of_nat (nSrcPage B)) ! (y - 28)
      else snd (src_get (y div nSrcPgsz B + 1)) ! (y mod nSrcPgsz B))) \<and>
    (\<forall>y \<ge> (j - 1) * nSrcPgsz B. dest_at B d' y = dest_at B d y) \<and> (nPage < 0 \<longrightarrow> nSrcPage B < j)"
  using pages_effect [OF assms(1-4), where p = 0 and ii = 0, unfolded One_nat_def [symmetric], OF assms(5)] src_at_eq [OF assms(1,3)] by simp

theorem backup_copies_bytes_witness:
  "\<exists>j d'. backup_pages sample_backup (\<lambda>n r d. (SQLITE_OK, n, d)) sample_src (- 1) 0 1 SQLITE_OK sample_dest = (SQLITE_OK, j, d') \<and>
     dest_at sample_backup d' 1500 = 2"
proof -
  have src: "fst (sample_src p) = SQLITE_OK" "length (snd (sample_src p)) = nSrcPgsz sample_backup" for p by (simp_all add: sample_src_def sample_backup_def)
  have "\<exists>j d'. backup_pages sample_backup (\<lambda>n r d. (SQLITE_OK, n, d)) sample_src (- 1) 0 1 SQLITE_OK sample_dest = (SQLITE_OK, j, d')"
    by (rule pages_succeed [OF _ _ src(1)]) (simp_all add: sample_backup_def sample_dest_def)
  then obtain j d' where r: "backup_pages sample_backup (\<lambda>n r d. (SQLITE_OK, n, d)) sample_src (- 1) 0 1 SQLITE_OK sample_dest = (SQLITE_OK, j, d')"
    by blast
  have sz: "sizes_ok sample_backup" "reserves_ok sample_backup (\<lambda>n r d. (SQLITE_OK, n, d))" "dest_ok sample_backup sample_dest"
    by (simp_all add: sizes_ok_def reserves_ok_def sample_backup_def dest_ok_def sample_dest_def)
  note c = backup_copies_bytes [OF sz(1,2) src(2) sz(3) r]
  have "3 \<le> j" using c by (simp add: sample_backup_def)
  then have "(2 :: nat) * 1024 \<le> (j - 1) * 1024" by (intro mult_le_mono1) simp
  then have "1500 < (j - 1) * nSrcPgsz sample_backup" by (simp add: sample_backup_def)
  moreover have "\<not> lock_page sample_backup 1500" by (simp add: lock_page_def sample_backup_def PENDING_BYTE_PAGE_def)
  moreover have "snd (sample_src (1500 div nSrcPgsz sample_backup + 1)) ! (1500 mod nSrcPgsz sample_backup) = 2" by (simp add: sample_backup_def sample_src_def)
  ultimately show ?thesis using c r by auto
qed

end
