(* ===== verification/Memory.thy ===== *)
theory Memory
  imports Lifecycle
begin

text \<open>
  The allocators of SQLite: the default one of \<open>mem1.c\<close>, which keeps the size of a block in a header before
  it, and SQLCipher's wrapper, which overwrites what it frees when \<open>cipher_memory_security\<close> is on.  Both keep the same
  contract, the locale \<open>allocator\<close>.
\<close>

section \<open>The C library\<close>

text \<open>
  The blocks at their addresses, the contents of the memory that has been given back, the latest first, and
  the answers to the requests to come: the address of a block and the junk in it.  The address of a live block is taken for a
  refusal, as the library never answers it.  Freeing what is not a block is undefined.
\<close>

record c_heap =
  ch_blocks :: "nat \<Rightarrow> bytes option"
  ch_freed :: "bytes list"
  ch_answers :: "nat \<Rightarrow> (nat \<times> (nat \<Rightarrow> byte)) option"

definition next_answer :: "c_heap \<Rightarrow> (nat \<times> (nat \<Rightarrow> byte)) option \<times> c_heap" where
  "next_answer h = (ch_answers h 0, h\<lparr>ch_answers := (\<lambda>k. ch_answers h (Suc k))\<rparr>)"

definition c_malloc :: "nat \<Rightarrow> c_heap \<Rightarrow> nat option \<times> c_heap" where
  "c_malloc n h =
     (let (r, h) = next_answer h in
      case r of None \<Rightarrow> (None, h)
      | Some (p, junk) \<Rightarrow>
          if ch_blocks h p \<noteq> None then (None, h)
          else (Some p, h\<lparr>ch_blocks := (ch_blocks h)(p \<mapsto> map junk [0..<n])\<rparr>))"

definition c_free :: "nat \<Rightarrow> c_heap \<Rightarrow> c_heap option" where
  "c_free p h =
     (case ch_blocks h p of None \<Rightarrow> None
      | Some b \<Rightarrow> Some (h\<lparr>ch_blocks := (ch_blocks h)(p := None), ch_freed := b # ch_freed h\<rparr>))"

definition c_realloc :: "nat \<Rightarrow> nat \<Rightarrow> c_heap \<Rightarrow> (nat option \<times> c_heap) option" where
  "c_realloc p n h =
     (case ch_blocks h p of None \<Rightarrow> None
      | Some b \<Rightarrow>
          let (r, h) = next_answer h in
          case r of None \<Rightarrow> Some (None, h)
          | Some (q, junk) \<Rightarrow>
              if q \<noteq> p \<and> ch_blocks h q \<noteq> None then Some (None, h)
              else Some (Some q, h\<lparr>ch_blocks := ((ch_blocks h)(p := None))(q \<mapsto> take n (b @ map junk [length b..<n])),
                                   ch_freed := (if q = p then drop n b else b) # ch_freed h\<rparr>))"

section \<open>The default allocator\<close>

text \<open>Without \<open>SQLITE_MALLOCSIZE\<close>, as the build has it; \<open>store_size\<close> is \<open>p[0] = nByte\<close>.\<close>

definition store_size :: "nat \<Rightarrow> nat \<Rightarrow> c_heap \<Rightarrow> c_heap" where
  "store_size p n h =
     h\<lparr>ch_blocks := (ch_blocks h)(p := map_option (\<lambda>b. word_bytes (of_nat n) @ drop 8 b) (ch_blocks h p))\<rparr>"

definition sqlite3MemMalloc :: "nat \<Rightarrow> c_heap \<Rightarrow> nat option \<times> c_heap" where
  "sqlite3MemMalloc nByte h =
     (let (p, h) = c_malloc (nByte + 8) h in
      case p of None \<Rightarrow> (None, h) | Some p \<Rightarrow> (Some (p + 8), store_size p nByte h))"

definition sqlite3MemFree :: "nat \<Rightarrow> c_heap \<Rightarrow> c_heap option" where
  "sqlite3MemFree pPrior h = (if pPrior < 8 then None else c_free (pPrior - 8) h)"

definition sqlite3MemSize :: "nat \<Rightarrow> c_heap \<Rightarrow> nat option" where
  "sqlite3MemSize pPrior h =
     (if pPrior < 8 then None
      else case ch_blocks h (pPrior - 8) of None \<Rightarrow> None
           | Some b \<Rightarrow> Some (nat (sint (ucast (bytes_word (take 8 b)) :: u32))))"

definition sqlite3MemRealloc :: "nat \<Rightarrow> nat \<Rightarrow> c_heap \<Rightarrow> (nat option \<times> c_heap) option" where
  "sqlite3MemRealloc pPrior nByte h =
     (if pPrior < 8 then None
      else case c_realloc (pPrior - 8) (nByte + 8) h of None \<Rightarrow> None
           | Some (p, h) \<Rightarrow> Some (case p of None \<Rightarrow> (None, h) | Some p \<Rightarrow> (Some (p + 8), store_size p nByte h)))"

definition sqlite3MemRoundup :: "int \<Rightarrow> int" where
  "sqlite3MemRoundup n = (n + 7) div 8 * 8"

section \<open>The wrapper\<close>

record mem_state =
  ms_heap :: c_heap
  ms_xo :: xoshiro
  ms_security_on :: bool
  ms_executed :: bool

definition overwrite :: "nat \<Rightarrow> nat \<Rightarrow> mem_state \<Rightarrow> mem_state" where
  "overwrite p n s =
     (let (bs, xo) = xoshiro_randomness n (ms_xo s); h = ms_heap s
      in s\<lparr>ms_heap := h\<lparr>ch_blocks := (ch_blocks h)(p - 8 := map_option (\<lambda>b. buf_write b 8 bs) (ch_blocks h (p - 8)))\<rparr>, ms_xo := xo\<rparr>)"

definition sqlcipher_mem_malloc :: "nat \<Rightarrow> mem_state \<Rightarrow> nat option \<times> mem_state" where
  "sqlcipher_mem_malloc n s = (let (p, h) = sqlite3MemMalloc n (ms_heap s) in (p, s\<lparr>ms_heap := h, ms_executed := True\<rparr>))"

definition sqlcipher_mem_size :: "nat \<Rightarrow> mem_state \<Rightarrow> nat option" where
  "sqlcipher_mem_size p s = sqlite3MemSize p (ms_heap s)"

definition sqlcipher_mem_free :: "nat \<Rightarrow> mem_state \<Rightarrow> mem_state option" where
  "sqlcipher_mem_free p s =
     (let s = s\<lparr>ms_executed := True\<rparr> in
      case (if ms_security_on s then map_option (\<lambda>sz. overwrite p sz s) (sqlcipher_mem_size p s) else Some s) of
        None \<Rightarrow> None
      | Some s \<Rightarrow> map_option (\<lambda>h. s\<lparr>ms_heap := h\<rparr>) (sqlite3MemFree p (ms_heap s)))"

text \<open>\<open>memcpy(new, p, orig_sz)\<close> between two blocks.\<close>

definition copy_block :: "nat \<Rightarrow> nat \<Rightarrow> nat \<Rightarrow> mem_state \<Rightarrow> mem_state option" where
  "copy_block new p n s =
     (let h = ms_heap s in
      case (ch_blocks h (new - 8), ch_blocks h (p - 8)) of
        (Some b', Some b) \<Rightarrow> Some (s\<lparr>ms_heap := h\<lparr>ch_blocks := (ch_blocks h)(new - 8 \<mapsto> buf_write b' 8 (take n (drop 8 b)))\<rparr>\<rparr>)
      | _ \<Rightarrow> None)"

text \<open>A null pointer has no size: the code asks for it before it looks whether the pointer is null.\<close>

definition sqlcipher_mem_realloc :: "nat \<Rightarrow> nat \<Rightarrow> mem_state \<Rightarrow> (nat option \<times> mem_state) option" where
  "sqlcipher_mem_realloc p n s =
     (if ms_security_on s
      then case sqlcipher_mem_size p s of None \<Rightarrow> None
           | Some orig_sz \<Rightarrow>
               if n = 0 then map_option (\<lambda>s. (None, s)) (sqlcipher_mem_free p s)
               else if n \<le> orig_sz then Some (Some p, s)
               else let (new, s) = sqlcipher_mem_malloc n s in
                 (case new of None \<Rightarrow> Some (None, s)
                  | Some q \<Rightarrow>
                      (case copy_block q p orig_sz s of None \<Rightarrow> None
                       | Some s \<Rightarrow> map_option (\<lambda>s. (Some q, s)) (sqlcipher_mem_free p s)))
      else map_option (\<lambda>(r, h). (r, s\<lparr>ms_heap := h\<rparr>)) (sqlite3MemRealloc p n (ms_heap s)))"

definition sqlcipher_mem_roundup :: "int \<Rightarrow> int" where
  "sqlcipher_mem_roundup n = sqlite3MemRoundup n"

text \<open>
  \<open>sqlcipher_init_memmethods\<close>: the answers of the two calls of \<open>sqlite3_config\<close> decide; the state is the flags
  \<open>sqlcipher_mem_security_on\<close>, \<open>sqlcipher_mem_executed\<close> and \<open>sqlcipher_mem_initialized\<close>.
\<close>

definition sqlcipher_init_memmethods :: "int \<Rightarrow> int \<Rightarrow> bool \<times> bool \<times> bool \<Rightarrow> bool \<times> bool \<times> bool" where
  "sqlcipher_init_memmethods getmalloc setmalloc f =
     (let (on, executed, initialized) = f in
      if initialized then f
      else if getmalloc \<noteq> SQLITE_OK \<or> setmalloc \<noteq> SQLITE_OK then (False, False, False) else (on, executed, True))"

section \<open>The contract\<close>

definition SQLITE_MAX_ALLOCATION_SIZE :: nat where "SQLITE_MAX_ALLOCATION_SIZE = 2147483391"

text \<open>A block \<open>b\<close> at \<open>p\<close> given the size \<open>n\<close> with the answer \<open>r\<close>: the blocks before and after.\<close>

definition resized :: "nat \<Rightarrow> nat \<Rightarrow> bytes \<Rightarrow> (nat \<Rightarrow> bytes option) \<Rightarrow> nat option \<Rightarrow> (nat \<Rightarrow> bytes option) \<Rightarrow> bool" where
  "resized n p b C r C' \<longleftrightarrow>
     (case r of None \<Rightarrow> C' = C
      | Some q \<Rightarrow> (q = p \<or> C q = None) \<and>
          (\<exists>b'. n \<le> length b' \<and> take (min n (length b)) b' = take (min n (length b)) b \<and> C' = (C(p := None))(q \<mapsto> b')))"

locale allocator =
  fixes malloc :: "nat \<Rightarrow> 'h \<Rightarrow> nat option \<times> 'h"
    and realloc :: "nat \<Rightarrow> nat \<Rightarrow> 'h \<Rightarrow> (nat option \<times> 'h) option"
    and free :: "nat \<Rightarrow> 'h \<Rightarrow> 'h option"
    and content :: "'h \<Rightarrow> nat \<Rightarrow> bytes option"
    and ok :: "'h \<Rightarrow> bool"
  assumes malloc_ok: "ok h \<Longrightarrow> 0 < n \<Longrightarrow> n \<le> SQLITE_MAX_ALLOCATION_SIZE \<Longrightarrow> malloc n h = (r, h') \<Longrightarrow>
      ok h' \<and> (case r of None \<Rightarrow> content h' = content h
               | Some p \<Rightarrow> content h p = None \<and> (\<exists>b. n \<le> length b \<and> content h' = (content h)(p \<mapsto> b)))"
    and free_ok: "ok h \<Longrightarrow> content h p \<noteq> None \<Longrightarrow> \<exists>h'. free p h = Some h' \<and> ok h' \<and> content h' = (content h)(p := None)"
    and realloc_ok: "ok h \<Longrightarrow> 0 < n \<Longrightarrow> n \<le> SQLITE_MAX_ALLOCATION_SIZE \<Longrightarrow> content h p = Some b \<Longrightarrow>
      \<exists>r h'. realloc p n h = Some (r, h') \<and> ok h' \<and> resized n p b (content h) r (content h')"

section \<open>The default allocator keeps it\<close>

lemma bytes_word_upt:
  "bytes_word (map (\<lambda>i. ucast (drop_bit (8 * i) (v :: u64))) [0..<n]) = take_bit (8 * n) v"
proof (induction n arbitrary: v)
  case (Suc n)
  have "[0..<Suc n] = 0 # map Suc [0..<n]" by (simp add: map_Suc_upt upt_conv_Cons)
  then have "map (\<lambda>i. ucast (drop_bit (8 * i) v) :: byte) [0..<Suc n] = ucast v # map (\<lambda>i. ucast (drop_bit (8 * i) (drop_bit 8 v))) [0..<n]"
    by (simp add: o_def drop_bit_drop_bit add.commute)
  then have "bytes_word (map (\<lambda>i. ucast (drop_bit (8 * i) v)) [0..<Suc n]) = ucast (ucast v :: byte) OR push_bit 8 (take_bit (8 * n) (drop_bit 8 v))"
    using Suc.IH [of "drop_bit 8 v"] by (simp add: bytes_word_def)
  also have "\<dots> = take_bit (8 * Suc n) v"
    by (rule bit_word_eqI) (auto simp: bit_simps)
  finally show ?case .
qed (simp add: bytes_word_def)

lemma bytes_word_bytes: "bytes_word (word_bytes w) = w"
proof -
  have "take_bit 64 w = w" by (rule bit_word_eqI) (auto simp: bit_simps)
  then show ?thesis using bytes_word_upt [of w 8] by (simp add: word_bytes_def)
qed

lemma seed_xoshiro_bytes: "seed_xoshiro (xoshiro_bytes s) = s"
  by (cases s) (simp add: seed_xoshiro_def xoshiro_bytes_def bytes_word_bytes)

text \<open>The blocks as the callers see them, behind their headers.\<close>

definition user_blocks :: "(nat \<Rightarrow> bytes option) \<Rightarrow> nat \<Rightarrow> bytes option" where
  "user_blocks B p = (if p < 8 then None else map_option (drop 8) (B (p - 8)))"

definition user_content :: "c_heap \<Rightarrow> nat \<Rightarrow> bytes option" where
  "user_content h = user_blocks (ch_blocks h)"

lemma user_blocks_upd: "user_blocks (B(p := x)) = (user_blocks B)(p + 8 := map_option (drop 8) x)"
  by (auto simp: user_blocks_def fun_eq_iff)

lemma user_blocks_Some: "user_blocks B p = Some b \<longleftrightarrow> 8 \<le> p \<and> (\<exists>c. B (p - 8) = Some c \<and> b = drop 8 c)"
  by (auto simp: user_blocks_def)

definition block_ok :: "bytes \<Rightarrow> bool" where
  "block_ok b \<longleftrightarrow> 8 \<le> length b \<and> length b - 8 \<le> SQLITE_MAX_ALLOCATION_SIZE \<and> take 8 b = word_bytes (of_nat (length b - 8))"

definition c_heap_ok :: "c_heap \<Rightarrow> bool" where
  "c_heap_ok h \<longleftrightarrow> (\<forall>p b. ch_blocks h p = Some b \<longrightarrow> block_ok b)"

lemma block_size:
  assumes "block_ok b"
  shows "nat (sint (ucast (bytes_word (take 8 b)) :: u32)) = length b - 8"
proof -
  define n where "n = length b - 8"
  have n: "n < 2 ^ 31" "take 8 b = word_bytes (of_nat n)" using assms by (simp_all add: block_ok_def SQLITE_MAX_ALLOCATION_SIZE_def n_def)
  have "ucast (of_nat n :: u64) = (of_nat n :: u32)" by (rule bit_word_eqI) (auto simp: bit_simps)
  moreover have "sint (of_nat n :: u32) = int n"
    using n(1) by (simp add: sint_uint unsigned_of_nat signed_take_bit_int_eq_self take_bit_nat_eq_self)
  ultimately show ?thesis by (simp add: n(2) bytes_word_bytes flip: n_def)
qed

lemma mem_size_ok: "c_heap_ok h \<Longrightarrow> user_content h p = Some b \<Longrightarrow> sqlite3MemSize p h = Some (length b)"
  by (auto simp: user_content_def user_blocks_Some sqlite3MemSize_def c_heap_ok_def block_size)

lemma mem_malloc_cases:
  assumes "sqlite3MemMalloc n h = (r, h')"
  shows "\<exists>A. r = None \<and> h' = h\<lparr>ch_answers := A\<rparr> \<or>
    (\<exists>p j. r = Some (p + 8) \<and> ch_blocks h p = None \<and>
      h' = h\<lparr>ch_answers := A, ch_blocks := (ch_blocks h)(p \<mapsto> word_bytes (of_nat n) @ map j [8..<n + 8])\<rparr>)"
proof (cases "ch_answers h 0")
  case None
  then show ?thesis using assms by (auto simp: sqlite3MemMalloc_def c_malloc_def next_answer_def)
next
  case (Some a)
  obtain p j where a: "a = (p, j)" by (cases a)
  have d: "drop 8 (map j [0..<n + 8]) = map j [8..<n + 8]" by (simp add: drop_map)
  show ?thesis
  proof (cases "ch_blocks h p")
    case None
    then show ?thesis using assms Some a d
      by (auto simp: sqlite3MemMalloc_def c_malloc_def next_answer_def store_size_def)
  next
    case (Some b)
    then show ?thesis using assms \<open>ch_answers h 0 = Some a\<close> a
      by (auto simp: sqlite3MemMalloc_def c_malloc_def next_answer_def)
  qed
qed

lemma mem_realloc_cases:
  assumes "ch_blocks h (p - 8) = Some b" "8 \<le> p" "8 \<le> length b"
  shows "\<exists>r h' A. sqlite3MemRealloc p n h = Some (r, h') \<and> (r = None \<and> h' = h\<lparr>ch_answers := A\<rparr> \<or>
    (\<exists>q x F. r = Some (q + 8) \<and> (q + 8 \<noteq> p \<longrightarrow> ch_blocks h q = None) \<and> length x = n \<and>
       take (min n (length b - 8)) x = take (min n (length b - 8)) (drop 8 b) \<and>
       h' = h\<lparr>ch_answers := A, ch_blocks := ((ch_blocks h)(p - 8 := None))(q \<mapsto> word_bytes (of_nat n) @ x), ch_freed := F\<rparr>))"
proof (cases "ch_answers h 0")
  case None
  then show ?thesis using assms by (auto simp: sqlite3MemRealloc_def c_realloc_def next_answer_def)
next
  case (Some a)
  obtain q j where a: "a = (q, j)" by (cases a)
  show ?thesis
  proof (cases "q \<noteq> p - 8 \<and> ch_blocks h q \<noteq> None")
    case True
    then show ?thesis using assms Some a by (auto simp: sqlite3MemRealloc_def c_realloc_def next_answer_def)
  next
    case False
    define x where "x = drop 8 (take (n + 8) (b @ map j [length b..<n + 8]))"
    have "length x = n" by (simp add: x_def)
    moreover have "take (min n (length b - 8)) x = take (min n (length b - 8)) (drop 8 b)"
    proof -
      have "x = take n (drop 8 b @ map j [length b..<n + 8])" using assms(3) by (simp add: x_def drop_take)
      then show ?thesis by (simp add: min_def)
    qed
    moreover have "sqlite3MemRealloc p n h = Some (Some (q + 8), h\<lparr>ch_answers := (\<lambda>k. ch_answers h (Suc k)),
        ch_blocks := ((ch_blocks h)(p - 8 := None))(q \<mapsto> word_bytes (of_nat n) @ x),
        ch_freed := (if q = p - 8 then drop (n + 8) b else b) # ch_freed h\<rparr>)"
      using False assms Some a by (simp add: sqlite3MemRealloc_def c_realloc_def next_answer_def store_size_def x_def)
    moreover have "q + 8 \<noteq> p \<longrightarrow> ch_blocks h q = None" using False assms(2) by auto
    ultimately show ?thesis by blast
  qed
qed

lemma new_block_ok: "length x \<le> SQLITE_MAX_ALLOCATION_SIZE \<Longrightarrow> block_ok (word_bytes (of_nat (length x)) @ x)"
  by (simp add: block_ok_def)

lemma mem_realloc_ok:
  assumes ok: "c_heap_ok h" and n: "0 < n" "n \<le> SQLITE_MAX_ALLOCATION_SIZE" and b: "user_content h p = Some b"
  shows "\<exists>r h'. sqlite3MemRealloc p n h = Some (r, h') \<and> c_heap_ok h' \<and> resized n p b (user_content h) r (user_content h')"
proof -
  obtain c where c: "8 \<le> p" "ch_blocks h (p - 8) = Some c" "b = drop 8 c" "8 \<le> length c"
    using b ok by (auto simp: user_content_def user_blocks_Some c_heap_ok_def block_ok_def)
  obtain r h' A where r: "sqlite3MemRealloc p n h = Some (r, h')" "r = None \<and> h' = h\<lparr>ch_answers := A\<rparr> \<or>
    (\<exists>q x F. r = Some (q + 8) \<and> (q + 8 \<noteq> p \<longrightarrow> ch_blocks h q = None) \<and> length x = n \<and>
       take (min n (length c - 8)) x = take (min n (length c - 8)) (drop 8 c) \<and>
       h' = h\<lparr>ch_answers := A, ch_blocks := ((ch_blocks h)(p - 8 := None))(q \<mapsto> word_bytes (of_nat n) @ x), ch_freed := F\<rparr>)"
    using mem_realloc_cases [OF c(2,1,4), of n] by blast
  from r(2) have "c_heap_ok h' \<and> resized n p b (user_content h) r (user_content h')"
  proof (elim disjE conjE exE)
    assume "r = None" "h' = h\<lparr>ch_answers := A\<rparr>"
    then show ?thesis using ok by (simp add: user_content_def c_heap_ok_def resized_def)
  next
    fix q x F assume q: "r = Some (q + 8)" "length x = n" "take (min n (length c - 8)) x = take (min n (length c - 8)) (drop 8 c)"
      and fresh: "q + 8 \<noteq> p \<longrightarrow> ch_blocks h q = None"
      and h': "h' = h\<lparr>ch_answers := A, ch_blocks := ((ch_blocks h)(p - 8 := None))(q \<mapsto> word_bytes (of_nat n) @ x), ch_freed := F\<rparr>"
    have "block_ok (word_bytes (of_nat n) @ x)" using new_block_ok [of x] n q(2) by simp
    moreover have "q + 8 = p \<or> user_content h (q + 8) = None" using fresh by (auto simp: user_content_def user_blocks_def)
    ultimately show ?thesis using ok q c
      by (auto simp: h' user_content_def user_blocks_upd c_heap_ok_def resized_def intro!: exI [of _ x])
  qed
  with r(1) show ?thesis by blast
qed

interpretation mem1: allocator sqlite3MemMalloc sqlite3MemRealloc sqlite3MemFree user_content c_heap_ok
proof
  fix h n r h' assume ok: "c_heap_ok h" and n: "0 < n" "n \<le> SQLITE_MAX_ALLOCATION_SIZE" and run: "sqlite3MemMalloc n h = (r, h')"
  obtain A where "r = None \<and> h' = h\<lparr>ch_answers := A\<rparr> \<or> (\<exists>p j. r = Some (p + 8) \<and> ch_blocks h p = None \<and>
      h' = h\<lparr>ch_answers := A, ch_blocks := (ch_blocks h)(p \<mapsto> word_bytes (of_nat n) @ map j [8..<n + 8])\<rparr>)"
    using mem_malloc_cases [OF run] by blast
  then show "c_heap_ok h' \<and> (case r of None \<Rightarrow> user_content h' = user_content h
      | Some p \<Rightarrow> user_content h p = None \<and> (\<exists>b. n \<le> length b \<and> user_content h' = (user_content h)(p \<mapsto> b)))"
  proof (elim disjE conjE exE)
    assume "r = None" "h' = h\<lparr>ch_answers := A\<rparr>"
    then show ?thesis using ok by (simp add: user_content_def c_heap_ok_def)
  next
    fix p j assume r: "r = Some (p + 8)" "ch_blocks h p = None"
      and h': "h' = h\<lparr>ch_answers := A, ch_blocks := (ch_blocks h)(p \<mapsto> word_bytes (of_nat n) @ map j [8..<n + 8])\<rparr>"
    have "block_ok (word_bytes (of_nat n) @ map j [8..<n + 8])" using new_block_ok [of "map j [8..<n + 8]"] n by simp
    then show ?thesis using ok r
      by (auto simp: h' user_content_def user_blocks_upd c_heap_ok_def user_blocks_def intro!: exI [of _ "map j [8..<n + 8]"])
  qed
next
  fix h p assume "c_heap_ok h" "user_content h p \<noteq> None"
  then show "\<exists>h'. sqlite3MemFree p h = Some h' \<and> c_heap_ok h' \<and> user_content h' = (user_content h)(p := None)"
    by (auto simp: sqlite3MemFree_def c_free_def user_content_def user_blocks_Some user_blocks_upd c_heap_ok_def)
next
  fix h n p b assume "c_heap_ok h" "0 < n" "n \<le> SQLITE_MAX_ALLOCATION_SIZE" "user_content h p = Some b"
  then show "\<exists>r h'. sqlite3MemRealloc p n h = Some (r, h') \<and> c_heap_ok h' \<and> resized n p b (user_content h) r (user_content h')"
    by (rule mem_realloc_ok)
qed

section \<open>The wrapper keeps it\<close>

lemma mem_size_block: "c_heap_ok (ms_heap s) \<Longrightarrow> ch_blocks (ms_heap s) (p - 8) = Some b \<Longrightarrow> 8 \<le> p \<Longrightarrow> sqlcipher_mem_size p s = Some (length b - 8)"
  by (simp add: sqlcipher_mem_size_def sqlite3MemSize_def c_heap_ok_def block_size)

lemma mem_free_secure:
  assumes "c_heap_ok (ms_heap s)" "ch_blocks (ms_heap s) (p - 8) = Some b" "8 \<le> p" "ms_security_on s"
    and "xoshiro_randomness (length b - 8) (ms_xo s) = (bs, xo)"
  shows "sqlcipher_mem_free p s = Some (s\<lparr>ms_executed := True, ms_xo := xo,
    ms_heap := (ms_heap s)\<lparr>ch_blocks := (ch_blocks (ms_heap s))(p - 8 := None), ch_freed := (take 8 b @ bs) # ch_freed (ms_heap s)\<rparr>\<rparr>)"
proof -
  have "length bs = length b - 8" using length_xoshiro [of "length b - 8" "ms_xo s"] assms(5) by simp
  moreover have "8 \<le> length b" using assms(1,2) by (auto simp: c_heap_ok_def block_ok_def)
  ultimately have "buf_write b 8 bs = take 8 b @ bs" by (simp add: buf_write_def)
  moreover have "sqlcipher_mem_size p (s\<lparr>ms_executed := True\<rparr>) = Some (length b - 8)"
    by (rule mem_size_block) (use assms in simp_all)
  ultimately show ?thesis
    using assms(2-5) by (simp add: sqlcipher_mem_free_def overwrite_def sqlite3MemFree_def c_free_def Let_def)
qed

lemma mem_free_plain:
  "ch_blocks (ms_heap s) (p - 8) = Some b \<Longrightarrow> 8 \<le> p \<Longrightarrow> \<not> ms_security_on s \<Longrightarrow>
    sqlcipher_mem_free p s = Some (s\<lparr>ms_executed := True,
      ms_heap := (ms_heap s)\<lparr>ch_blocks := (ch_blocks (ms_heap s))(p - 8 := None), ch_freed := b # ch_freed (ms_heap s)\<rparr>\<rparr>)"
  by (simp add: sqlcipher_mem_free_def sqlite3MemFree_def c_free_def Let_def)

lemma mem_free_ok:
  assumes "c_heap_ok (ms_heap s)" "user_content (ms_heap s) p \<noteq> None"
  shows "\<exists>s'. sqlcipher_mem_free p s = Some s' \<and> c_heap_ok (ms_heap s') \<and> user_content (ms_heap s') = (user_content (ms_heap s))(p := None)"
proof -
  obtain b where b: "8 \<le> p" "ch_blocks (ms_heap s) (p - 8) = Some b"
    using assms(2) by (auto simp: user_content_def user_blocks_Some)
  have cont: "user_blocks ((ch_blocks (ms_heap s))(p - 8 := None)) = (user_blocks (ch_blocks (ms_heap s)))(p := None)"
    using b(1) by (simp add: user_blocks_upd)
  obtain bs xo where x: "xoshiro_randomness (length b - 8) (ms_xo s) = (bs, xo)" by (rule prod.exhaust)
  show ?thesis
    using assms(1) cont mem_free_secure [OF assms(1) b(2,1) _ x] mem_free_plain [OF b(2,1)]
    by (cases "ms_security_on s") (simp_all add: user_content_def c_heap_ok_def)
qed

text \<open>Growing a block with security on: it moves, and the old one is overwritten and freed.\<close>

lemma mem_realloc_secure:
  assumes "c_heap_ok (ms_heap s)" "ch_blocks (ms_heap s) (p - 8) = Some b" "8 \<le> p" "ms_security_on s" "0 < n" "length b - 8 < n"
    and "sqlite3MemMalloc n (ms_heap s) = (r, h)" "n \<le> SQLITE_MAX_ALLOCATION_SIZE"
  shows "sqlcipher_mem_realloc p n s =
    (case r of None \<Rightarrow> Some (None, s\<lparr>ms_heap := h, ms_executed := True\<rparr>)
     | Some q \<Rightarrow> map_option (\<lambda>s. (Some q, s)) (sqlcipher_mem_free p (s\<lparr>ms_executed := True,
         ms_heap := h\<lparr>ch_blocks := (ch_blocks h)(q - 8 := map_option (\<lambda>c. take 8 c @ drop 8 b @ drop (length b) c) (ch_blocks h (q - 8)))\<rparr>\<rparr>)))"
proof -
  have len: "8 \<le> length b" using assms(1,2) by (auto simp: c_heap_ok_def block_ok_def)
  note size = mem_size_block [OF assms(1-3)]
  show ?thesis
  proof (cases r)
    case None
    then show ?thesis using assms(4-7) size by (simp add: sqlcipher_mem_realloc_def sqlcipher_mem_malloc_def Let_def)
  next
    case (Some q)
    obtain A p' j where q: "q = p' + 8" "ch_blocks (ms_heap s) p' = None"
      "h = (ms_heap s)\<lparr>ch_answers := A, ch_blocks := (ch_blocks (ms_heap s))(p' \<mapsto> word_bytes (of_nat n) @ map j [8..<n + 8])\<rparr>"
      using mem_malloc_cases [OF assms(7)] Some by auto
    have "p' \<noteq> p - 8" using q(2) assms(2) by auto
    then have "ch_blocks h (p - 8) = Some b" "ch_blocks h (q - 8) = Some (word_bytes (of_nat n) @ map j [8..<n + 8])"
      using q assms(2) by simp_all
    then show ?thesis using assms(4-7) size Some len
      by (simp add: sqlcipher_mem_realloc_def sqlcipher_mem_malloc_def copy_block_def buf_write_def Let_def)
  qed
qed

lemma mem_grow_ok:
  assumes ok: "c_heap_ok (ms_heap s)" "ms_security_on s" and n: "n \<le> SQLITE_MAX_ALLOCATION_SIZE" "length c - 8 < n"
    and c: "8 \<le> p" "ch_blocks (ms_heap s) (p - 8) = Some c" "8 \<le> length c"
  shows "\<exists>r s'. sqlcipher_mem_realloc p n s = Some (r, s') \<and> c_heap_ok (ms_heap s') \<and>
    resized n p (drop 8 c) (user_content (ms_heap s)) r (user_content (ms_heap s'))"
proof -
  have n0: "0 < n" using n(2) by simp
  have b: "user_content (ms_heap s) p = Some (drop 8 c)" using c by (simp add: user_content_def user_blocks_def)
  obtain r h where m: "sqlite3MemMalloc n (ms_heap s) = (r, h)" by (rule prod.exhaust)
  note re = mem_realloc_secure [OF ok(1) c(2,1) ok(2) n0 n(2) m n(1)]
  show ?thesis
  proof (cases r)
    case None
    then show ?thesis using re mem1.malloc_ok [OF ok(1) n0 n(1) m] by (auto simp: resized_def)
  next
    case (Some q)
    obtain A p' j where q: "q = p' + 8" "ch_blocks (ms_heap s) p' = None"
      "h = (ms_heap s)\<lparr>ch_answers := A, ch_blocks := (ch_blocks (ms_heap s))(p' \<mapsto> word_bytes (of_nat n) @ map j [8..<n + 8])\<rparr>"
      using mem_malloc_cases [OF m] Some by auto
    define x where "x = drop 8 c @ drop (length c) (word_bytes (of_nat n) @ map j [8..<n + 8])"
    define s1 where "s1 = s\<lparr>ms_executed := True, ms_heap := h\<lparr>ch_blocks := (ch_blocks (ms_heap s))(p' \<mapsto> word_bytes (of_nat n) @ x)\<rparr>\<rparr>"
    have x: "length x = n" "take (length c - 8) x = drop 8 c" using n(2) c(3) by (simp_all add: x_def)
    have pp: "p' \<noteq> p - 8" "p \<noteq> q" using q c(1,2) by auto
    have "block_ok (word_bytes (of_nat n) @ x)" using new_block_ok [of x] n x by simp
    then have s1: "c_heap_ok (ms_heap s1)" "user_content (ms_heap s1) = (user_content (ms_heap s))(q \<mapsto> x)"
      using ok by (simp_all add: s1_def q(1) user_content_def user_blocks_upd c_heap_ok_def)
    obtain s2 where s2: "sqlcipher_mem_free p s1 = Some s2" "c_heap_ok (ms_heap s2)" "user_content (ms_heap s2) = (user_content (ms_heap s1))(p := None)"
      using mem_free_ok [OF s1(1), of p] s1(2) b pp by auto
    have "sqlcipher_mem_realloc p n s = Some (Some q, s2)" using re Some q s2(1) by (simp add: s1_def x_def)
    moreover have "resized n p (drop 8 c) (user_content (ms_heap s)) (Some q) (user_content (ms_heap s2))"
      using s2(3) s1(2) x pp q n(2) c(3) by (auto simp: resized_def fun_upd_twist user_content_def user_blocks_def intro!: exI [of _ x])
    ultimately show ?thesis using s2(2) by blast
  qed
qed

lemma mem_resize_ok:
  assumes ok: "c_heap_ok (ms_heap s)" and n: "0 < n" "n \<le> SQLITE_MAX_ALLOCATION_SIZE" and b: "user_content (ms_heap s) p = Some b"
  shows "\<exists>r s'. sqlcipher_mem_realloc p n s = Some (r, s') \<and> c_heap_ok (ms_heap s') \<and>
    resized n p b (user_content (ms_heap s)) r (user_content (ms_heap s'))"
proof (cases "ms_security_on s")
  case False
  obtain r h where r: "sqlite3MemRealloc p n (ms_heap s) = Some (r, h)" "c_heap_ok h" "resized n p b (user_content (ms_heap s)) r (user_content h)"
    using mem1.realloc_ok [OF ok n b] by blast
  have "sqlcipher_mem_realloc p n s = Some (r, s\<lparr>ms_heap := h\<rparr>)" using False r(1) by (simp add: sqlcipher_mem_realloc_def)
  moreover have "c_heap_ok (ms_heap (s\<lparr>ms_heap := h\<rparr>)) \<and> resized n p b (user_content (ms_heap s)) r (user_content (ms_heap (s\<lparr>ms_heap := h\<rparr>)))"
    using r(2,3) by simp
  ultimately show ?thesis by blast
next
  case True
  obtain c where c: "8 \<le> p" "ch_blocks (ms_heap s) (p - 8) = Some c" "b = drop 8 c" "8 \<le> length c"
    using b ok by (auto simp: user_content_def user_blocks_Some c_heap_ok_def block_ok_def)
  show ?thesis
  proof (cases "length c - 8 < n")
    case False
    have "(user_content (ms_heap s))(p := None, p \<mapsto> b) = user_content (ms_heap s)" using b by (auto simp: fun_eq_iff)
    then have "resized n p b (user_content (ms_heap s)) (Some p) (user_content (ms_heap s))"
      using False c by (auto simp: resized_def intro!: exI [of _ b])
    then show ?thesis using False True n ok mem_size_block [OF ok c(2,1)] by (auto simp: sqlcipher_mem_realloc_def)
  qed (use mem_grow_ok [OF ok True n(2) _ c(1,2,4)] c(3) in simp)
qed

interpretation wrapped: allocator sqlcipher_mem_malloc sqlcipher_mem_realloc sqlcipher_mem_free
  "\<lambda>s. user_content (ms_heap s)" "\<lambda>s. c_heap_ok (ms_heap s)"
proof
  fix s s' :: mem_state and n r assume ok: "c_heap_ok (ms_heap s)" and n: "0 < n" "n \<le> SQLITE_MAX_ALLOCATION_SIZE" and run: "sqlcipher_mem_malloc n s = (r, s')"
  obtain h where m: "sqlite3MemMalloc n (ms_heap s) = (r, h)" and h: "ms_heap s' = h"
    using run by (auto simp: sqlcipher_mem_malloc_def split: prod.splits)
  show "c_heap_ok (ms_heap s') \<and> (case r of None \<Rightarrow> user_content (ms_heap s') = user_content (ms_heap s)
      | Some p \<Rightarrow> user_content (ms_heap s) p = None \<and> (\<exists>b. n \<le> length b \<and> user_content (ms_heap s') = (user_content (ms_heap s))(p \<mapsto> b)))"
    unfolding h by (rule mem1.malloc_ok [OF ok n m])
next
  fix s :: mem_state and p assume "c_heap_ok (ms_heap s)" "user_content (ms_heap s) p \<noteq> None"
  then show "\<exists>s'. sqlcipher_mem_free p s = Some s' \<and> c_heap_ok (ms_heap s') \<and> user_content (ms_heap s') = (user_content (ms_heap s))(p := None)"
    by (rule mem_free_ok)
next
  fix s :: mem_state and n p b assume "c_heap_ok (ms_heap s)" "0 < n" "n \<le> SQLITE_MAX_ALLOCATION_SIZE" "user_content (ms_heap s) p = Some b"
  then show "\<exists>r s'. sqlcipher_mem_realloc p n s = Some (r, s') \<and> c_heap_ok (ms_heap s') \<and>
      resized n p b (user_content (ms_heap s)) r (user_content (ms_heap s'))"
    by (rule mem_resize_ok)
qed

text \<open>A block that is resized again and again, keeping the pointer when that fails.\<close>

fun resize_all :: "(nat \<Rightarrow> nat \<Rightarrow> 'h \<Rightarrow> (nat option \<times> 'h) option) \<Rightarrow> nat list \<Rightarrow> nat \<Rightarrow> 'h \<Rightarrow> (nat \<times> 'h) option" where
  "resize_all realloc [] p h = Some (p, h)"
| "resize_all realloc (n # ns) p h =
     (case realloc p n h of None \<Rightarrow> None
      | Some (r, h) \<Rightarrow> resize_all realloc ns (case r of None \<Rightarrow> p | Some q \<Rightarrow> q) h)"

context allocator
begin

lemma resize_keeps:
  assumes "ok h" "content h p = Some b" "\<forall>n \<in> set ns. 0 < n \<and> n \<le> SQLITE_MAX_ALLOCATION_SIZE"
  shows "\<exists>q h' b'. resize_all realloc ns p h = Some (q, h') \<and> ok h' \<and> content h' q = Some b' \<and>
    (\<forall>k. k \<le> length b \<longrightarrow> (\<forall>n \<in> set ns. k \<le> n) \<longrightarrow> k \<le> length b' \<and> take k b' = take k b) \<and>
    (\<forall>p'. p' \<noteq> p \<longrightarrow> content h p' \<noteq> None \<longrightarrow> p' \<noteq> q \<and> content h' p' = content h p')"
  using assms
proof (induction ns arbitrary: h p b)
  case (Cons n ns)
  then have n: "0 < n" "n \<le> SQLITE_MAX_ALLOCATION_SIZE" by simp_all
  obtain r h1 where r: "realloc p n h = Some (r, h1)" "ok h1" "resized n p b (content h) r (content h1)"
    using realloc_ok [OF Cons.prems(1) n Cons.prems(2)] by blast
  show ?case
  proof (cases r)
    case None
    then have c1: "content h1 = content h" using r(3) by (simp add: resized_def)
    then have "content h1 p = Some b" using Cons.prems(2) by simp
    from Cons.IH [OF r(2) this] Cons.prems(3) show ?thesis
      unfolding resize_all.simps r(1) option.case prod.case None c1 by auto
  next
    case (Some q)
    then obtain b1 where b1: "q = p \<or> content h q = None" "n \<le> length b1" "take (min n (length b)) b1 = take (min n (length b)) b"
      "content h1 = ((content h)(p := None))(q \<mapsto> b1)" using r(3) by (auto simp: resized_def)
    have cq: "content h1 q = Some b1" using b1(4) by simp
    from Cons.IH [OF r(2) cq] Cons.prems(3) obtain q' h' b' where i: "resize_all realloc ns q h1 = Some (q', h')" "ok h'" "content h' q' = Some b'"
      "\<forall>k. k \<le> length b1 \<longrightarrow> (\<forall>n \<in> set ns. k \<le> n) \<longrightarrow> k \<le> length b' \<and> take k b' = take k b1"
      "\<forall>p'. p' \<noteq> q \<longrightarrow> content h1 p' \<noteq> None \<longrightarrow> p' \<noteq> q' \<and> content h' p' = content h1 p'" by auto
    have "take k b' = take k b \<and> k \<le> length b'" if "k \<le> length b" "\<forall>m \<in> set (n # ns). k \<le> m" for k
    proof -
      have "k \<le> min n (length b)" using that by simp
      then have "take k (take (min n (length b)) x) = take k x" for x :: bytes by (simp only: take_take min.absorb1)
      then have "take k b1 = take k b" using arg_cong [OF b1(3), of "take k"] by simp
      then show ?thesis using i(4) that b1(2) by auto
    qed
    moreover have "p' \<noteq> q' \<and> content h' p' = content h p'" if "p' \<noteq> p" "content h p' \<noteq> None" for p'
    proof -
      have "p' \<noteq> q" using that b1(1) by auto
      then have "content h1 p' = content h p'" using that(1) b1(4) by simp
      then show ?thesis using i(5) that(2) \<open>p' \<noteq> q\<close> by simp
    qed
    ultimately show ?thesis using r(1) Some i(1-3) by auto
  qed
qed auto

end

section \<open>What is left in freed memory\<close>

text \<open>The operations of a client of the wrapper, which also stores bytes in its blocks.\<close>

datatype mem_op = Mem_Malloc nat | Mem_Free nat | Mem_Realloc nat nat | Mem_Store nat nat byte

fun mem_step :: "mem_op \<Rightarrow> mem_state \<Rightarrow> (nat option \<times> mem_state) option" where
  "mem_step (Mem_Malloc n) s = Some (sqlcipher_mem_malloc n s)"
| "mem_step (Mem_Free p) s = (if p < 8 then None else map_option (\<lambda>s. (None, s)) (sqlcipher_mem_free p s))"
| "mem_step (Mem_Realloc p n) s = (if p < 8 then None else sqlcipher_mem_realloc p n s)"
| "mem_step (Mem_Store p i v) s =
     (case ch_blocks (ms_heap s) (p - 8) of None \<Rightarrow> None
      | Some b \<Rightarrow>
          if p < 8 \<or> length b \<le> 8 + i then None
          else Some (None, s\<lparr>ms_heap := (ms_heap s)\<lparr>ch_blocks := (ch_blocks (ms_heap s))(p - 8 \<mapsto> b[8 + i := v])\<rparr>\<rparr>))"

fun mem_run :: "mem_op list \<Rightarrow> mem_state \<Rightarrow> (nat option list \<times> mem_state) option" where
  "mem_run [] s = Some ([], s)"
| "mem_run (x # xs) s =
     (case mem_step x s of None \<Rightarrow> None
      | Some (r, s) \<Rightarrow> map_option (\<lambda>(rs, s). (r # rs, s)) (mem_run xs s))"

fun op_fits :: "mem_op \<Rightarrow> bool" where
  "op_fits (Mem_Malloc n) = (0 < n \<and> n \<le> SQLITE_MAX_ALLOCATION_SIZE)"
| "op_fits (Mem_Realloc p n) = (n \<le> SQLITE_MAX_ALLOCATION_SIZE)"
| "op_fits _ = True"

text \<open>Up to the bytes that are stored.\<close>

fun same_op :: "mem_op \<Rightarrow> mem_op \<Rightarrow> bool" where
  "same_op (Mem_Store p i v) (Mem_Store p' i' v') = (p = p' \<and> i = i')"
| "same_op x y = (x = y)"

definition same_block :: "bytes \<Rightarrow> bytes \<Rightarrow> bool" where
  "same_block b c \<longleftrightarrow> length b = length c \<and> take 8 b = take 8 c"

definition same_shape :: "mem_state \<Rightarrow> mem_state \<Rightarrow> bool" where
  "same_shape s t \<longleftrightarrow> ms_xo s = ms_xo t \<and> ms_security_on s = ms_security_on t \<and> ms_executed s = ms_executed t \<and>
     ch_freed (ms_heap s) = ch_freed (ms_heap t) \<and> ch_answers (ms_heap s) = ch_answers (ms_heap t) \<and>
     (\<forall>p. rel_option same_block (ch_blocks (ms_heap s) p) (ch_blocks (ms_heap t) p))"

lemma same_block_refl [simp]: "same_block b b" by (simp add: same_block_def)

lemma same_shape_blocks:
  assumes "same_shape s t" "ch_blocks (ms_heap s) p = Some b"
  obtains c where "ch_blocks (ms_heap t) p = Some c" "same_block b c"
  using assms unfolding same_shape_def by (metis option_rel_Some1)

lemma same_shape_None: "same_shape s t \<Longrightarrow> ch_blocks (ms_heap s) p = None \<longleftrightarrow> ch_blocks (ms_heap t) p = None"
  unfolding same_shape_def by (metis option.rel_distinct option.exhaust)

lemma same_shape_ok: "same_shape s t \<Longrightarrow> c_heap_ok (ms_heap s) \<Longrightarrow> c_heap_ok (ms_heap t)"
proof -
  assume sh: "same_shape s t" and ok: "c_heap_ok (ms_heap s)"
  have "block_ok c" if c: "ch_blocks (ms_heap t) p = Some c" for p c
  proof -
    obtain b where "ch_blocks (ms_heap s) p = Some b" "same_block b c"
      using sh c unfolding same_shape_def by (metis option_rel_Some2)
    then have "block_ok b" "length c = length b" "take 8 c = take 8 b" using ok by (auto simp: c_heap_ok_def same_block_def)
    then show ?thesis unfolding block_ok_def by metis
  qed
  then show ?thesis by (simp add: c_heap_ok_def)
qed

lemma same_malloc:
  assumes sh: "same_shape s t" and m: "sqlcipher_mem_malloc n s = (r, s')"
  shows "\<exists>t'. sqlcipher_mem_malloc n t = (r, t') \<and> same_shape s' t'"
proof -
  have ans: "ch_answers (ms_heap t) = ch_answers (ms_heap s)" using sh by (simp add: same_shape_def)
  note ops = sqlcipher_mem_malloc_def sqlite3MemMalloc_def c_malloc_def next_answer_def store_size_def
  show ?thesis
  proof (cases "ch_answers (ms_heap s) 0")
    case None
    then show ?thesis using m sh ans by (auto simp: ops same_shape_def)
  next
    case (Some a)
    obtain p j where a: "a = (p, j)" by (rule prod.exhaust)
    show ?thesis
    proof (cases "ch_blocks (ms_heap s) p")
      case None
      then have t: "ch_blocks (ms_heap t) p = None" using same_shape_None [OF sh] by simp
      have s': "r = Some (p + 8)" "s' = s\<lparr>ms_executed := True, ms_heap := (ms_heap s)\<lparr>ch_answers := (\<lambda>k. ch_answers (ms_heap s) (Suc k)),
          ch_blocks := (ch_blocks (ms_heap s))(p \<mapsto> word_bytes (of_nat n) @ drop 8 (map j [0..<n + 8]))\<rparr>\<rparr>"
        using m Some a None by (auto simp: ops)
      have "sqlcipher_mem_malloc n t = (Some (p + 8), t\<lparr>ms_executed := True, ms_heap := (ms_heap t)\<lparr>ch_answers := (\<lambda>k. ch_answers (ms_heap s) (Suc k)),
          ch_blocks := (ch_blocks (ms_heap t))(p \<mapsto> word_bytes (of_nat n) @ drop 8 (map j [0..<n + 8]))\<rparr>\<rparr>)"
        using Some a t ans by (simp add: ops)
      then show ?thesis using sh unfolding s' by (simp add: same_shape_def)
    next
      case (Some b)
      then obtain c where "ch_blocks (ms_heap t) p = Some c" using same_shape_blocks [OF sh] by blast
      then show ?thesis using m \<open>ch_answers (ms_heap s) 0 = Some a\<close> a Some ans sh by (auto simp: ops same_shape_def)
    qed
  qed
qed

lemma free_keeps_ok:
  assumes f: "sqlcipher_mem_free p s = Some s'" and ok: "c_heap_ok (ms_heap s)" "ms_security_on s" and p: "8 \<le> p"
  shows "c_heap_ok (ms_heap s') \<and> ms_security_on s'"
proof -
  have "ch_blocks (ms_heap s) (p - 8) \<noteq> None"
    using f ok(2) by (auto simp: sqlcipher_mem_free_def sqlcipher_mem_size_def sqlite3MemSize_def Let_def split: option.splits if_splits)
  then obtain b where b: "ch_blocks (ms_heap s) (p - 8) = Some b" by blast
  obtain bs xo where x: "xoshiro_randomness (length b - 8) (ms_xo s) = (bs, xo)" by (rule prod.exhaust)
  show ?thesis using f ok unfolding mem_free_secure [OF ok(1) b p ok(2) x] by (auto simp: c_heap_ok_def split: if_splits)
qed

lemma same_free:
  assumes sh: "same_shape s t" and f: "sqlcipher_mem_free p s = Some s'" and ok: "c_heap_ok (ms_heap s)" "ms_security_on s" and p: "8 \<le> p"
  shows "\<exists>t'. sqlcipher_mem_free p t = Some t' \<and> same_shape s' t'"
proof -
  have "ch_blocks (ms_heap s) (p - 8) \<noteq> None"
    using f ok(2) by (auto simp: sqlcipher_mem_free_def sqlcipher_mem_size_def sqlite3MemSize_def Let_def split: option.splits if_splits)
  then obtain b where b: "ch_blocks (ms_heap s) (p - 8) = Some b" by blast
  then obtain c where c: "ch_blocks (ms_heap t) (p - 8) = Some c" "same_block b c" using same_shape_blocks [OF sh] by blast
  have t: "c_heap_ok (ms_heap t)" "ms_security_on t" "ms_xo t = ms_xo s"
    using same_shape_ok [OF sh ok(1)] sh ok(2) by (simp_all add: same_shape_def)
  have len: "length c = length b" "take 8 c = take 8 b" using c(2) by (simp_all add: same_block_def)
  obtain bs xo where x: "xoshiro_randomness (length b - 8) (ms_xo s) = (bs, xo)" by (rule prod.exhaust)
  have x': "xoshiro_randomness (length c - 8) (ms_xo t) = (bs, xo)" using x len(1) t(3) by simp
  have s': "s' = s\<lparr>ms_executed := True, ms_xo := xo,
    ms_heap := (ms_heap s)\<lparr>ch_blocks := (ch_blocks (ms_heap s))(p - 8 := None), ch_freed := (take 8 b @ bs) # ch_freed (ms_heap s)\<rparr>\<rparr>"
    using f mem_free_secure [OF ok(1) b p ok(2) x] by simp
  show ?thesis
    unfolding s' mem_free_secure [OF t(1) c(1) p t(2) x'] len(2) using sh by (simp add: same_shape_def)
qed

lemma same_copy:
  assumes sh: "same_shape s t" and f: "copy_block q p n s = Some s'"
    and q: "\<And>b. ch_blocks (ms_heap s) (q - 8) = Some b \<Longrightarrow> 8 \<le> length b"
  shows "\<exists>t'. copy_block q p n t = Some t' \<and> same_shape s' t'"
proof -
  obtain b b' where b: "ch_blocks (ms_heap s) (p - 8) = Some b" "ch_blocks (ms_heap s) (q - 8) = Some b'"
    using f by (auto simp: copy_block_def Let_def split: option.splits)
  obtain c where c: "ch_blocks (ms_heap t) (p - 8) = Some c" "same_block b c" using same_shape_blocks [OF sh b(1)] by blast
  obtain c' where c': "ch_blocks (ms_heap t) (q - 8) = Some c'" "same_block b' c'" using same_shape_blocks [OF sh b(2)] by blast
  have "same_block (buf_write b' 8 (take n (drop 8 b))) (buf_write c' 8 (take n (drop 8 c)))"
    using c(2) c'(2) q [OF b(2)] by (simp add: same_block_def buf_write_def)
  moreover have "s' = s\<lparr>ms_heap := (ms_heap s)\<lparr>ch_blocks := (ch_blocks (ms_heap s))(q - 8 \<mapsto> buf_write b' 8 (take n (drop 8 b)))\<rparr>\<rparr>"
    using f b by (simp add: copy_block_def Let_def)
  ultimately show ?thesis using sh c(1) c'(1) by (simp add: copy_block_def same_shape_def Let_def)
qed

lemma same_size: "same_shape s t \<Longrightarrow> sqlcipher_mem_size p t = sqlcipher_mem_size p s"
proof -
  assume sh: "same_shape s t"
  show ?thesis
  proof (cases "ch_blocks (ms_heap s) (p - 8)")
    case None
    then show ?thesis using same_shape_None [OF sh, of "p - 8"] by (simp add: sqlcipher_mem_size_def sqlite3MemSize_def)
  next
    case (Some b)
    then obtain c where "ch_blocks (ms_heap t) (p - 8) = Some c" "same_block b c" using same_shape_blocks [OF sh] by blast
    then show ?thesis using Some by (simp add: sqlcipher_mem_size_def sqlite3MemSize_def same_block_def)
  qed
qed

lemma block_ok_write:
  "block_ok b \<Longrightarrow> 8 + length x \<le> length b \<Longrightarrow> block_ok (buf_write b 8 x)"
  by (simp add: block_ok_def buf_write_def min_def)

lemma copy_ok:
  assumes "copy_block q p n s = Some s'" "c_heap_ok (ms_heap s)" "\<And>b. ch_blocks (ms_heap s) (q - 8) = Some b \<Longrightarrow> 8 + n \<le> length b"
  shows "c_heap_ok (ms_heap s') \<and> ms_security_on s' = ms_security_on s"
proof -
  obtain b b' where b: "ch_blocks (ms_heap s) (p - 8) = Some b" "ch_blocks (ms_heap s) (q - 8) = Some b'"
    using assms(1) by (auto simp: copy_block_def Let_def split: option.splits)
  have "block_ok (buf_write b' 8 (take n (drop 8 b)))"
    by (rule block_ok_write) (use assms(2) b(2) assms(3) [OF b(2)] in \<open>auto simp: c_heap_ok_def\<close>)
  then show ?thesis using assms(1,2) b by (auto simp: copy_block_def c_heap_ok_def Let_def split: if_splits)
qed

lemma malloc_block:
  assumes "sqlcipher_mem_malloc n s = (Some q, s')"
  obtains b where "ch_blocks (ms_heap s') (q - 8) = Some b" "length b = n + 8" "ms_security_on s' = ms_security_on s"
proof -
  obtain h where m: "sqlite3MemMalloc n (ms_heap s) = (Some q, h)" "s' = s\<lparr>ms_heap := h, ms_executed := True\<rparr>"
    using assms by (auto simp: sqlcipher_mem_malloc_def split: prod.splits)
  from mem_malloc_cases [OF m(1)] show ?thesis using that m(2) by auto
qed

lemma same_realloc:
  assumes sh: "same_shape s t" and f: "sqlcipher_mem_realloc p n s = Some (r, s')" and ok: "c_heap_ok (ms_heap s)" "ms_security_on s"
    and p: "8 \<le> p" and n: "n \<le> SQLITE_MAX_ALLOCATION_SIZE"
  shows "\<exists>t'. sqlcipher_mem_realloc p n t = Some (r, t') \<and> same_shape s' t'"
proof -
  have on: "ms_security_on t" using sh ok(2) by (simp add: same_shape_def)
  obtain sz where sz: "sqlcipher_mem_size p s = Some sz" using f ok(2) by (auto simp: sqlcipher_mem_realloc_def split: option.splits)
  then have szt: "sqlcipher_mem_size p t = Some sz" using same_size [OF sh] by simp
  consider "n = 0" | "0 < n" "n \<le> sz" | "0 < n" "sz < n" by linarith
  then show ?thesis
  proof cases
    case 1
    then obtain s1 where "sqlcipher_mem_free p s = Some s1" "r = None" "s' = s1"
      using f ok(2) sz by (auto simp: sqlcipher_mem_realloc_def)
    with same_free [OF sh _ ok p] 1 on szt show ?thesis by (auto simp: sqlcipher_mem_realloc_def)
  next
    case 2
    then show ?thesis using f ok(2) sz on szt sh by (auto simp: sqlcipher_mem_realloc_def)
  next
    case 3
    obtain a s1 where m: "sqlcipher_mem_malloc n s = (a, s1)" by (rule prod.exhaust)
    obtain t1 where t1: "sqlcipher_mem_malloc n t = (a, t1)" "same_shape s1 t1" using same_malloc [OF sh m] by blast
    show ?thesis
    proof (cases a)
      case None
      then show ?thesis using f ok(2) sz on szt 3 m t1 by (simp add: sqlcipher_mem_realloc_def)
    next
      case (Some q)
      obtain b where b: "ch_blocks (ms_heap s1) (q - 8) = Some b" "length b = n + 8" "ms_security_on s1" using malloc_block m Some ok(2) by metis
      obtain s2 where s2: "copy_block q p sz s1 = Some s2" "sqlcipher_mem_free p s2 = Some s'" "r = Some q"
        using f ok(2) sz 3 m Some by (auto simp: sqlcipher_mem_realloc_def split: option.splits)
      obtain t2 where t2: "copy_block q p sz t1 = Some t2" "same_shape s2 t2" using same_copy [OF t1(2) s2(1)] b by auto
      have "c_heap_ok (ms_heap s1)" using wrapped.malloc_ok [OF ok(1) 3(1) n m] by blast
      then have "c_heap_ok (ms_heap s2) \<and> ms_security_on s2" using copy_ok [OF s2(1)] b 3 by auto
      then obtain t3 where "sqlcipher_mem_free p t2 = Some t3" "same_shape s' t3" using same_free [OF t2(2) s2(2) _ _ p] by blast
      then show ?thesis using on szt 3 t1(1) Some t2(1) s2(3) by (simp add: sqlcipher_mem_realloc_def)
    qed
  qed
qed

lemma malloc_keeps_ok:
  assumes "sqlcipher_mem_malloc n s = (r, s')" "c_heap_ok (ms_heap s)" "ms_security_on s" "0 < n" "n \<le> SQLITE_MAX_ALLOCATION_SIZE"
  shows "c_heap_ok (ms_heap s') \<and> ms_security_on s'"
  using wrapped.malloc_ok [OF assms(2,4,5,1)] assms(1,3) by (auto simp: sqlcipher_mem_malloc_def split: prod.splits)

lemma realloc_keeps_ok:
  assumes f: "sqlcipher_mem_realloc p n s = Some (r, s')" and ok: "c_heap_ok (ms_heap s)" "ms_security_on s"
    and p: "8 \<le> p" and n: "n \<le> SQLITE_MAX_ALLOCATION_SIZE"
  shows "c_heap_ok (ms_heap s') \<and> ms_security_on s'"
proof -
  obtain sz where sz: "sqlcipher_mem_size p s = Some sz" using f ok(2) by (auto simp: sqlcipher_mem_realloc_def split: option.splits)
  consider "n = 0" | "0 < n" "n \<le> sz" | "0 < n" "sz < n" by linarith
  then show ?thesis
  proof cases
    case 1
    then have "sqlcipher_mem_free p s = Some s'" using f ok(2) sz by (auto simp: sqlcipher_mem_realloc_def)
    then show ?thesis using free_keeps_ok ok p by blast
  next
    case 2
    then show ?thesis using f ok sz by (auto simp: sqlcipher_mem_realloc_def)
  next
    case 3
    obtain a s1 where m: "sqlcipher_mem_malloc n s = (a, s1)" by (rule prod.exhaust)
    note ok1 = malloc_keeps_ok [OF m ok 3(1) n]
    show ?thesis
    proof (cases a)
      case None
      then show ?thesis using f ok sz 3 m ok1 by (simp add: sqlcipher_mem_realloc_def)
    next
      case (Some q)
      obtain b where b: "ch_blocks (ms_heap s1) (q - 8) = Some b" "length b = n + 8" using malloc_block m Some by metis
      obtain s2 where s2: "copy_block q p sz s1 = Some s2" "sqlcipher_mem_free p s2 = Some s'"
        using f ok(2) sz 3 m Some by (auto simp: sqlcipher_mem_realloc_def split: option.splits)
      have "c_heap_ok (ms_heap s2) \<and> ms_security_on s2" using copy_ok [OF s2(1)] ok1 b 3 by auto
      then show ?thesis using free_keeps_ok [OF s2(2) _ _ p] by blast
    qed
  qed
qed

lemma same_store:
  assumes sh: "same_shape s t" and f: "mem_step (Mem_Store p i v) s = Some (r, s')"
  shows "\<exists>t'. mem_step (Mem_Store p i v') t = Some (r, t') \<and> same_shape s' t'"
proof -
  obtain b where b: "ch_blocks (ms_heap s) (p - 8) = Some b" "8 \<le> p" "8 + i < length b" "r = None"
    "s' = s\<lparr>ms_heap := (ms_heap s)\<lparr>ch_blocks := (ch_blocks (ms_heap s))(p - 8 \<mapsto> b[8 + i := v])\<rparr>\<rparr>"
    using f by (auto split: option.splits if_splits)
  obtain c where c: "ch_blocks (ms_heap t) (p - 8) = Some c" "same_block b c" using same_shape_blocks [OF sh b(1)] by blast
  have "same_block (b[8 + i := v]) (c[8 + i := v'])" using c(2) by (simp add: same_block_def)
  then show ?thesis using b(2-4) c sh unfolding b(5) by (simp add: same_shape_def same_block_def)
qed

lemma store_keeps_ok:
  assumes f: "mem_step (Mem_Store p i v) s = Some (r, s')" and ok: "c_heap_ok (ms_heap s)" "ms_security_on s"
  shows "c_heap_ok (ms_heap s') \<and> ms_security_on s'"
proof -
  obtain b where b: "ch_blocks (ms_heap s) (p - 8) = Some b"
    "s' = s\<lparr>ms_heap := (ms_heap s)\<lparr>ch_blocks := (ch_blocks (ms_heap s))(p - 8 \<mapsto> b[8 + i := v])\<rparr>\<rparr>"
    using f by (auto split: option.splits if_splits)
  have "block_ok b" using ok(1) b(1) by (simp add: c_heap_ok_def)
  then have "block_ok (b[8 + i := v])" by (simp add: block_ok_def)
  then show ?thesis using ok unfolding b(2) by (simp add: c_heap_ok_def)
qed

lemma same_step:
  assumes sh: "same_shape s t" and op: "same_op x y" "op_fits x" and f: "mem_step x s = Some (r, s')"
    and ok: "c_heap_ok (ms_heap s)" "ms_security_on s"
  shows "(\<exists>t'. mem_step y t = Some (r, t') \<and> same_shape s' t') \<and> c_heap_ok (ms_heap s') \<and> ms_security_on s'"
proof (cases x)
  case (Mem_Malloc n)
  then show ?thesis using op f same_malloc [OF sh, of n r s'] malloc_keeps_ok [OF _ ok, of n r s'] by auto
next
  case (Mem_Free p)
  then have p: "8 \<le> p" "sqlcipher_mem_free p s = Some s'" "r = None" using f by (auto split: if_splits)
  then show ?thesis using op Mem_Free same_free [OF sh p(2) ok p(1)] free_keeps_ok [OF p(2) ok p(1)] by auto
next
  case (Mem_Realloc p n)
  then have p: "8 \<le> p" "sqlcipher_mem_realloc p n s = Some (r, s')" using f by (auto split: if_splits)
  have n: "n \<le> SQLITE_MAX_ALLOCATION_SIZE" using op(2) Mem_Realloc by simp
  show ?thesis using op Mem_Realloc p(1) same_realloc [OF sh p(2) ok p(1) n] realloc_keeps_ok [OF p(2) ok p(1) n] by auto
next
  case (Mem_Store p i v)
  then obtain v' where y: "y = Mem_Store p i v'" using op(1) by (cases y) auto
  show ?thesis using same_store [OF sh f [unfolded Mem_Store], of v'] store_keeps_ok [OF f [unfolded Mem_Store] ok] y by blast
qed

lemma same_run:
  assumes "same_shape s t" "list_all2 same_op xs ys" "list_all op_fits xs" "mem_run xs s = Some (rs, s')"
    and "c_heap_ok (ms_heap s)" "ms_security_on s"
  shows "\<exists>t'. mem_run ys t = Some (rs, t') \<and> same_shape s' t' \<and> c_heap_ok (ms_heap s')"
  using assms
proof (induction xs arbitrary: s t ys rs)
  case (Cons x xs)
  obtain y zs where ys: "ys = y # zs" "same_op x y" "list_all2 same_op xs zs" using Cons.prems(2) by (auto simp: list_all2_Cons1)
  obtain r s1 rs1 where s1: "mem_step x s = Some (r, s1)" "mem_run xs s1 = Some (rs1, s')" "rs = r # rs1"
    using Cons.prems(4) by (auto split: option.splits)
  from same_step [OF Cons.prems(1) ys(2) _ s1(1) Cons.prems(5,6)] Cons.prems(3)
  obtain t1 where t1: "mem_step y t = Some (r, t1)" "same_shape s1 t1" "c_heap_ok (ms_heap s1)" "ms_security_on s1" by auto
  from Cons.IH [OF t1(2) ys(3) _ s1(2) t1(3,4)] Cons.prems(3) obtain t' where
    "mem_run zs t1 = Some (rs1, t')" "same_shape s' t'" "c_heap_ok (ms_heap s')" by auto
  then show ?case using t1(1) s1(3) ys(1) by simp
qed simp

lemma same_shape_refl: "same_shape s s"
  by (simp add: same_shape_def option.rel_refl)

section \<open>Examples\<close>

definition sample_mem :: mem_state where
  "sample_mem = \<lparr>ms_heap = \<lparr>ch_blocks = Map.empty(992 \<mapsto> word_bytes 2 @ [1, 2]), ch_freed = [], ch_answers = (\<lambda>k. Some (2000 + 100 * k, \<lambda>_. 7))\<rparr>,
     ms_xo = (1, 2, 3, 4), ms_security_on = True, ms_executed = False\<rparr>"

lemma sample_mem_ok: "c_heap_ok (ms_heap sample_mem)"
  by (simp add: sample_mem_def c_heap_ok_def block_ok_def SQLITE_MAX_ALLOCATION_SIZE_def)

section \<open>Properties\<close>

text \<open>
  C29: a block that is resized any number of times, whether memory security is on or off and whichever requests the system
  refuses, keeps the bytes that fit into every size, and no other block moves or changes.
\<close>

theorem resized_blocks_keep_data:
  assumes "c_heap_ok (ms_heap s)" "user_content (ms_heap s) p = Some b" "\<forall>n \<in> set ns. 0 < n \<and> n \<le> SQLITE_MAX_ALLOCATION_SIZE"
  shows "\<exists>q s' b'. resize_all sqlcipher_mem_realloc ns p s = Some (q, s') \<and> c_heap_ok (ms_heap s') \<and> user_content (ms_heap s') q = Some b' \<and>
    (\<forall>k. k \<le> length b \<longrightarrow> (\<forall>n \<in> set ns. k \<le> n) \<longrightarrow> k \<le> length b' \<and> take k b' = take k b) \<and>
    (\<forall>p'. p' \<noteq> p \<longrightarrow> user_content (ms_heap s) p' \<noteq> None \<longrightarrow> p' \<noteq> q \<and> user_content (ms_heap s') p' = user_content (ms_heap s) p')"
  by (rule wrapped.resize_keeps [OF assms])

theorem resized_blocks_keep_data_witness:
  "\<exists>q s' b'. resize_all sqlcipher_mem_realloc [20, 1] 1000 sample_mem = Some (q, s') \<and> user_content (ms_heap s') q = Some b' \<and> take 1 b' = [1]"
proof -
  have b: "user_content (ms_heap sample_mem) 1000 = Some [1, 2]" by (simp add: sample_mem_def user_content_def user_blocks_def)
  have n: "\<forall>n \<in> set [20 :: nat, 1]. 0 < n \<and> n \<le> SQLITE_MAX_ALLOCATION_SIZE" by (simp add: SQLITE_MAX_ALLOCATION_SIZE_def)
  obtain q s' b' where r: "resize_all sqlcipher_mem_realloc [20, 1] 1000 sample_mem = Some (q, s')" "user_content (ms_heap s') q = Some b'"
    "\<forall>k. k \<le> length [1, 2 :: byte] \<longrightarrow> (\<forall>n \<in> set [20, 1]. k \<le> n) \<longrightarrow> k \<le> length b' \<and> take k b' = take k [1, 2]"
    using resized_blocks_keep_data [OF sample_mem_ok b n] by blast
  have "take 1 b' = [1]" using spec [OF r(3), of 1] by simp
  with r(1,2) show ?thesis by blast
qed

text \<open>
  C30: with memory security on, two clients of the allocator that do the same operations but store different bytes in
  their blocks leave the same contents in the memory that is given back, and see the same results.
\<close>

theorem freed_memory_tells_nothing:
  assumes "c_heap_ok (ms_heap s)" "ms_security_on s" "list_all2 same_op xs ys" "list_all op_fits xs" "mem_run xs s = Some (rs, s')"
  shows "\<exists>t'. mem_run ys s = Some (rs, t') \<and> ch_freed (ms_heap t') = ch_freed (ms_heap s')"
  using same_run [OF same_shape_refl assms(3-5,1,2)] by (auto simp: same_shape_def)

theorem freed_memory_tells_nothing_witness:
  "\<exists>rs s' t'. mem_run [Mem_Store 1000 1 65, Mem_Free 1000] sample_mem = Some (rs, s') \<and>
     mem_run [Mem_Store 1000 1 66, Mem_Free 1000] sample_mem = Some (rs, t') \<and> ch_freed (ms_heap t') = ch_freed (ms_heap s')"
proof -
  obtain s1 where s1: "mem_step (Mem_Store 1000 1 65) sample_mem = Some (None, s1)" by (simp add: sample_mem_def)
  have ok: "c_heap_ok (ms_heap s1) \<and> ms_security_on s1" by (rule store_keeps_ok [OF s1 sample_mem_ok]) (simp add: sample_mem_def)
  have "user_content (ms_heap s1) 1000 \<noteq> None" using s1 by (auto simp: sample_mem_def user_content_def user_blocks_def)
  then obtain s2 where "sqlcipher_mem_free 1000 s1 = Some s2" using mem_free_ok ok by blast
  then have "mem_run [Mem_Store 1000 1 65, Mem_Free 1000] sample_mem = Some ([None, None], s2)"
    using s1 by (simp only: mem_run.simps mem_step.simps(2)) simp
  from freed_memory_tells_nothing [OF sample_mem_ok _ _ _ this, of "[Mem_Store 1000 1 66, Mem_Free 1000]"] this
  show ?thesis by (auto simp: sample_mem_def)
qed

end
