(* ===== verification/MemLock.thy ===== *)
theory MemLock
  imports CipherUtil
begin

text \<open>
  Keeping memory from being swapped out: \<open>sqlcipher_mlock\<close> and \<open>sqlcipher_munlock\<close> over the pages that the system has
  locked.
\<close>

section \<open>The code\<close>

text \<open>
  \<open>mlock\<close> and \<open>munlock\<close> of POSIX: they act on whole pages, locks do not nest, and a call that fails changes nothing.
  \<open>P\<close> is the size of a page of the system, \<open>sysconf(_SC_PAGESIZE)\<close>.
\<close>

definition pages :: "nat \<Rightarrow> nat \<Rightarrow> nat \<Rightarrow> nat set" where
  "pages P addr len = {k. \<exists>i < len. k = (addr + i) div P}"

definition c_mlock :: "nat \<Rightarrow> bool \<Rightarrow> nat \<Rightarrow> nat \<Rightarrow> nat set \<Rightarrow> nat set" where
  "c_mlock P ok addr len L = (if ok then L \<union> pages P addr len else L)"

definition c_munlock :: "nat \<Rightarrow> bool \<Rightarrow> nat \<Rightarrow> nat \<Rightarrow> nat set \<Rightarrow> nat set" where
  "c_munlock P ok addr len L = (if ok then L - pages P addr len else L)"

definition sqlcipher_mlock :: "nat \<Rightarrow> bool \<Rightarrow> nat \<Rightarrow> nat \<Rightarrow> nat set \<Rightarrow> nat set" where
  "sqlcipher_mlock P ok ptr sz L =
     (let offset = ptr mod P in if ptr = 0 \<or> sz = 0 then L else c_mlock P ok (ptr - offset) (sz + offset) L)"

definition sqlcipher_munlock :: "nat \<Rightarrow> bool \<Rightarrow> nat \<Rightarrow> nat \<Rightarrow> nat set \<Rightarrow> nat set" where
  "sqlcipher_munlock P ok ptr sz L =
     (let offset = ptr mod P in if ptr = 0 \<or> sz = 0 then L else c_munlock P ok (ptr - offset) (sz + offset) L)"

text \<open>What blocks do: they are locked when they are allocated, and unlocked when they are freed.\<close>

datatype lock_op = Lock bool nat nat | Unlock bool nat nat

fun lock_step :: "nat \<Rightarrow> lock_op \<Rightarrow> nat set \<Rightarrow> nat set" where
  "lock_step P (Lock ok ptr sz) L = sqlcipher_mlock P ok ptr sz L"
| "lock_step P (Unlock ok ptr sz) L = sqlcipher_munlock P ok ptr sz L"

definition lock_run :: "nat \<Rightarrow> lock_op list \<Rightarrow> nat set \<Rightarrow> nat set" where
  "lock_run P ops L = fold (lock_step P) ops L"

section \<open>The pages of a block\<close>

definition block_locked :: "nat \<Rightarrow> nat \<Rightarrow> nat \<Rightarrow> nat set \<Rightarrow> bool" where
  "block_locked P ptr sz L \<longleftrightarrow> (\<forall>a. ptr \<le> a \<longrightarrow> a < ptr + sz \<longrightarrow> a div P \<in> L)"

definition share_page :: "nat \<Rightarrow> nat \<Rightarrow> nat \<Rightarrow> nat \<Rightarrow> nat \<Rightarrow> bool" where
  "share_page P p n q m \<longleftrightarrow> pages P p n \<inter> pages P q m \<noteq> {}"

text \<open>Starting at the page of the block locks no further page.\<close>

lemma pages_aligned:
  assumes "0 < P" "0 < sz"
  shows "pages P (ptr - ptr mod P) (sz + ptr mod P) = pages P ptr sz"
proof -
  have base: "(ptr - ptr mod P + i) div P = ptr div P" if "i < ptr mod P" for i
  proof -
    have "ptr - ptr mod P = P * (ptr div P)" by (simp add: minus_mod_eq_mult_div)
    moreover have "i < P" using that assms(1) by (meson mod_less_divisor order_less_trans)
    ultimately show ?thesis using assms(1) by simp
  qed
  have "(\<exists>i < sz + ptr mod P. k = (ptr - ptr mod P + i) div P) \<longleftrightarrow> (\<exists>i < sz. k = (ptr + i) div P)" for k
  proof
    assume "\<exists>i < sz + ptr mod P. k = (ptr - ptr mod P + i) div P"
    then obtain i where i: "i < sz + ptr mod P" "k = (ptr - ptr mod P + i) div P" by blast
    show "\<exists>i < sz. k = (ptr + i) div P"
    proof (cases "i < ptr mod P")
      case True
      then show ?thesis using i base assms(2) by (intro exI [of _ 0]) simp
    next
      case False
      then have "ptr - ptr mod P + i = ptr + (i - ptr mod P)" by simp
      then show ?thesis using i False by (intro exI [of _ "i - ptr mod P"]) simp
    qed
  next
    assume "\<exists>i < sz. k = (ptr + i) div P"
    then obtain i where i: "i < sz" "k = (ptr + i) div P" by blast
    then show "\<exists>i < sz + ptr mod P. k = (ptr - ptr mod P + i) div P" by (intro exI [of _ "i + ptr mod P"]) simp
  qed
  then show ?thesis by (simp add: pages_def)
qed

lemma mlock_pages: "0 < P \<Longrightarrow> ptr \<noteq> 0 \<Longrightarrow> 0 < sz \<Longrightarrow> sqlcipher_mlock P ok ptr sz L = (if ok then L \<union> pages P ptr sz else L)"
  by (simp add: sqlcipher_mlock_def c_mlock_def pages_aligned)

lemma munlock_pages: "0 < P \<Longrightarrow> ptr \<noteq> 0 \<Longrightarrow> 0 < sz \<Longrightarrow> sqlcipher_munlock P ok ptr sz L = (if ok then L - pages P ptr sz else L)"
  by (simp add: sqlcipher_munlock_def c_munlock_def pages_aligned)

lemma block_locked_pages: "block_locked P ptr sz L \<longleftrightarrow> pages P ptr sz \<subseteq> L"
proof
  assume b: "block_locked P ptr sz L"
  show "pages P ptr sz \<subseteq> L"
  proof
    fix k assume "k \<in> pages P ptr sz"
    then obtain i where "i < sz" "k = (ptr + i) div P" by (auto simp: pages_def)
    then show "k \<in> L" using b by (simp add: block_locked_def)
  qed
next
  assume s: "pages P ptr sz \<subseteq> L"
  show "block_locked P ptr sz L"
    unfolding block_locked_def
  proof (intro allI impI)
    fix a assume "ptr \<le> a" "a < ptr + sz"
    then have "a div P \<in> pages P ptr sz" unfolding pages_def by (intro CollectI exI [of _ "a - ptr"]) auto
    then show "a div P \<in> L" using s by blast
  qed
qed

lemma lock_step_keeps:
  assumes "0 < P" "block_locked P p n L" "\<And>ok q m. x = Unlock ok q m \<Longrightarrow> \<not> share_page P p n q m"
  shows "block_locked P p n (lock_step P x L)"
proof (cases x)
  case (Lock ok q m)
  then show ?thesis using assms(1,2) by (auto simp: block_locked_pages sqlcipher_mlock_def c_mlock_def Let_def)
next
  case (Unlock ok q m)
  then have "pages P p n \<inter> pages P q m = {}" using assms(3) by (simp add: share_page_def)
  then show ?thesis
    using assms(1,2) Unlock by (cases "q = 0 \<or> m = 0") (auto simp: block_locked_pages munlock_pages, auto simp: sqlcipher_munlock_def)
qed

lemma lock_run_keeps:
  assumes "0 < P" and "\<And>ok q m. Unlock ok q m \<in> set ops \<Longrightarrow> \<not> share_page P p n q m"
  shows "block_locked P p n L \<Longrightarrow> block_locked P p n (lock_run P ops L)"
  using assms(2)
proof (induction ops arbitrary: L)
  case (Cons x ops)
  have "block_locked P p n (lock_step P x L)" by (rule lock_step_keeps [OF assms(1) Cons.prems(1)]) (use Cons.prems(2) in auto)
  moreover have "\<not> share_page P p n q m" if "Unlock ok q m \<in> set ops" for ok q m using Cons.prems(2) that by (meson list.set_intros(2))
  ultimately show ?case using Cons.IH [of "lock_step P x L"] by (simp add: lock_run_def)
qed (simp add: lock_run_def)

section \<open>Properties\<close>

text \<open>
  C35: a block that has been locked stays locked as long as no block on one of its pages is freed, and it is no longer
  locked when one is: a page is unlocked whatever other blocks are on it.
\<close>

theorem locked_until_shared_page:
  assumes "0 < P" "p \<noteq> 0" "0 < n" "\<forall>ok q m. Unlock ok q m \<in> set ops \<longrightarrow> \<not> share_page P p n q m"
  shows "block_locked P p n (lock_run P (Lock True p n # ops) L) \<and>
    (\<forall>q m. q \<noteq> 0 \<longrightarrow> 0 < m \<longrightarrow> share_page P p n q m \<longrightarrow> \<not> block_locked P p n (lock_run P (Lock True p n # ops @ [Unlock True q m]) L))"
proof -
  have "block_locked P p n (sqlcipher_mlock P True p n L)" using assms(1-3) by (simp add: mlock_pages block_locked_pages)
  then have "block_locked P p n (lock_run P ops (sqlcipher_mlock P True p n L))"
    by (rule lock_run_keeps [OF assms(1), rotated]) (use assms(4) in blast)
  moreover have "\<not> block_locked P p n (sqlcipher_munlock P True q m L')" if "q \<noteq> 0" "0 < m" "share_page P p n q m" for q m L'
    using that assms(1) by (auto simp: munlock_pages block_locked_pages share_page_def)
  ultimately show ?thesis by (simp add: lock_run_def)
qed

theorem locked_until_shared_page_witness:
  "block_locked 4096 8192 64 (lock_run 4096 [Lock True 8192 64, Lock True 8256 64] {}) \<and>
   \<not> block_locked 4096 8192 64 (lock_run 4096 [Lock True 8192 64, Lock True 8256 64, Unlock True 8256 64] {})"
proof -
  have "2 \<in> pages 4096 8192 64" "2 \<in> pages 4096 8256 64" unfolding pages_def by (intro CollectI exI [of _ 0]; simp)+
  then have "share_page 4096 8192 64 8256 64" by (auto simp: share_page_def)
  then show ?thesis using locked_until_shared_page [of 4096 8192 64 "[Lock True 8256 64]" "{}"] by simp
qed

end
