(* ===== verification/Logging.thy ===== *)
theory Logging
  imports Pragma
begin

text \<open>
  Logs and profiles: \<open>sqlcipher_log\<close>, its target (\<open>sqlcipher_set_log\<close>) and the trace of \<open>cipher_profile\<close>, on a platform
  without a log device, over the streams of the C library.
\<close>

unbundle bit_operations_syntax

section \<open>State\<close>

text \<open>
  \<open>lg_trace\<close> is the callback of the connection with its argument, \<open>None\<close> for the null pointer; \<open>lg_open\<close> are the files that
  are open, \<open>lg_lines\<close> what has been written to each stream, the last first.
\<close>

datatype stream = Stdout | Stderr | File nat

record log_state =
  lg_file :: "stream option"
  lg_device :: bool
  lg_level :: u32
  lg_source :: u32
  lg_trace :: "stream option option"
  lg_open :: "nat set"
  lg_lines :: "stream \<Rightarrow> bytes list"

text \<open>Closing or writing a stream that is not open is undefined; an answer to \<open>fopen\<close> that is open is taken for a refusal.\<close>

fun usable :: "log_state \<Rightarrow> stream \<Rightarrow> bool" where
  "usable s (File k) = (k \<in> lg_open s)"
| "usable s _ = True"

definition c_fopen :: "nat option \<Rightarrow> log_state \<Rightarrow> stream option \<times> log_state" where
  "c_fopen answer s = (case answer of None \<Rightarrow> (None, s) | Some k \<Rightarrow> if k \<in> lg_open s then (None, s) else (Some (File k), s\<lparr>lg_open := insert k (lg_open s)\<rparr>))"

fun c_fclose :: "stream \<Rightarrow> log_state \<Rightarrow> log_state option" where
  "c_fclose (File k) s = (if k \<in> lg_open s then Some (s\<lparr>lg_open := lg_open s - {k}\<rparr>) else None)"
| "c_fclose _ s = Some s"

definition sqlcipher_fprintf :: "stream \<Rightarrow> bytes \<Rightarrow> log_state \<Rightarrow> log_state option" where
  "sqlcipher_fprintf f line s = (if usable s f then Some (s\<lparr>lg_lines := (lg_lines s)(f := line # lg_lines s f)\<rparr>) else None)"

section \<open>The log\<close>

definition MAX_LOG_LEN :: nat where "MAX_LOG_LEN = 8192"

text \<open>The message is given with its parameters filled in; \<open>now\<close> is the time and its milliseconds as text, \<open>None\<close> when \<open>strftime\<close> fails.\<close>

definition log_passes :: "u32 \<Rightarrow> u32 \<Rightarrow> log_state \<Rightarrow> bool" where
  "log_passes level source s \<longleftrightarrow>
     \<not> (lg_level s < level \<or> \<not> FLAG_GET (lg_source s) source \<or> \<not> lg_device s \<and> lg_file s = None)"

definition log_text :: "u32 \<Rightarrow> u32 \<Rightarrow> bytes \<Rightarrow> bytes" where
  "log_text level source message =
     (let formatted = take (MAX_LOG_LEN - 1) (sqlcipher_get_log_level_str level @ [32] @ sqlcipher_get_log_source_str source @ [32])
      in formatted @ take (MAX_LOG_LEN - length formatted - 1) message)"

definition sqlcipher_log :: "bytes option \<Rightarrow> u32 \<Rightarrow> u32 \<Rightarrow> bytes \<Rightarrow> log_state \<Rightarrow> log_state option" where
  "sqlcipher_log now level source message s =
     (if \<not> log_passes level source s then Some s
      else case lg_file s of None \<Rightarrow> Some s
           | Some f \<Rightarrow> (case now of None \<Rightarrow> Some s
                        | Some t \<Rightarrow> sqlcipher_fprintf f (t @ cstr '': '' @ log_text level source message @ [10]) s))"

definition sqlcipher_set_log :: "nat option \<Rightarrow> bytes option \<Rightarrow> bytes \<Rightarrow> log_state \<Rightarrow> (int \<times> log_state) option" where
  "sqlcipher_set_log answer now destination s =
     (case (case lg_file s of None \<Rightarrow> Some s | Some f \<Rightarrow> c_fclose f s) of
        None \<Rightarrow> None
      | Some s \<Rightarrow>
          let s = s\<lparr>lg_file := None, lg_device := False\<rparr>;
              (ok, s) = (if sqlite3_stricmp destination ''logcat'' = 0 \<or> sqlite3_stricmp destination ''device'' = 0 then (True, s\<lparr>lg_device := True\<rparr>)
                   else if sqlite3_stricmp destination ''stdout'' = 0 then (True, s\<lparr>lg_file := Some Stdout\<rparr>)
                   else if sqlite3_stricmp destination ''stderr'' = 0 then (True, s\<lparr>lg_file := Some Stderr\<rparr>)
                   else if sqlite3_stricmp destination ''off'' \<noteq> 0
                   then let (f, s) = c_fopen answer s in (f \<noteq> None, s\<lparr>lg_file := f\<rparr>)
                   else (True, s)) in
          if \<not> ok then Some (SQLITE_ERROR, s)
          else map_option (\<lambda>s. (SQLITE_OK, s)) (sqlcipher_log now 4 1 (cstr ''sqlcipher_set_log: set log to '' @ destination) s))"

section \<open>Profiles\<close>

definition sqlcipher_cipher_profile :: "nat option \<Rightarrow> bytes \<Rightarrow> log_state \<Rightarrow> int \<times> log_state" where
  "sqlcipher_cipher_profile answer destination s =
     (if sqlite3_stricmp destination ''off'' = 0 then (SQLITE_OK, s\<lparr>lg_trace := None\<rparr>)
      else if sqlite3_stricmp destination ''stdout'' = 0 then (SQLITE_OK, s\<lparr>lg_trace := Some (Some Stdout)\<rparr>)
      else if sqlite3_stricmp destination ''stderr'' = 0 then (SQLITE_OK, s\<lparr>lg_trace := Some (Some Stderr)\<rparr>)
      else if sqlite3_stricmp destination ''logcat'' = 0 \<or> sqlite3_stricmp destination ''device'' = 0 then (SQLITE_OK, s\<lparr>lg_trace := Some None\<rparr>)
      else let (f, s) = c_fopen answer s in
        case f of None \<Rightarrow> (SQLITE_ERROR, s) | Some f \<Rightarrow> (SQLITE_OK, s\<lparr>lg_trace := Some (Some f)\<rparr>))"

text \<open>A statement that has run: the time it took, in milliseconds with three decimals, and its text.\<close>

definition sqlcipher_profile_callback :: "bytes \<Rightarrow> bytes \<Rightarrow> log_state \<Rightarrow> log_state option" where
  "sqlcipher_profile_callback elapsed sql s =
     (case lg_trace s of Some (Some f) \<Rightarrow> sqlcipher_fprintf f (cstr ''Elapsed time:'' @ elapsed @ cstr '' ms - '' @ sql @ [10]) s | _ \<Rightarrow> Some s)"

section \<open>What stays open\<close>

datatype log_op = Log "bytes option" u32 u32 bytes | Set_Log "nat option" "bytes option" bytes | Set_Filter u32 u32
  | Set_Profile "nat option" bytes | Ran bytes bytes

fun log_step :: "log_op \<Rightarrow> log_state \<Rightarrow> log_state option" where
  "log_step (Log now level source message) s = sqlcipher_log now level source message s"
| "log_step (Set_Log answer now destination) s = map_option snd (sqlcipher_set_log answer now destination s)"
| "log_step (Set_Filter level source) s = Some (s\<lparr>lg_level := level, lg_source := source\<rparr>)"
| "log_step (Set_Profile answer destination) s = Some (snd (sqlcipher_cipher_profile answer destination s))"
| "log_step (Ran elapsed sql) s = sqlcipher_profile_callback elapsed sql s"

fun log_run :: "log_op list \<Rightarrow> log_state \<Rightarrow> log_state option" where
  "log_run [] s = Some s"
| "log_run (x # xs) s = (case log_step x s of None \<Rightarrow> None | Some s \<Rightarrow> log_run xs s)"

definition log_ok :: "log_state \<Rightarrow> bool" where
  "log_ok s \<longleftrightarrow> (\<forall>k. lg_file s = Some (File k) \<longrightarrow> k \<in> lg_open s) \<and>
     (\<forall>k. lg_trace s = Some (Some (File k)) \<longrightarrow> k \<in> lg_open s \<and> lg_file s \<noteq> Some (File k))"

text \<open>The open files that are not the target of the log.\<close>

definition other_files :: "log_state \<Rightarrow> nat set" where "other_files s = {k \<in> lg_open s. lg_file s \<noteq> Some (File k)}"

definition log_target_usable :: "log_state \<Rightarrow> bool" where
  "log_target_usable s \<longleftrightarrow> (\<forall>f. lg_file s = Some f \<longrightarrow> usable s f)"

lemma usable_File: "(\<And>k. f = File k \<Longrightarrow> k \<in> lg_open s) \<Longrightarrow> usable s f"
  by (cases f) auto

lemma log_ok_usable: "log_ok s \<Longrightarrow> log_target_usable s" "log_ok s \<Longrightarrow> lg_trace s = Some (Some f) \<Longrightarrow> usable s f"
  by (auto simp: log_ok_def log_target_usable_def intro!: usable_File)

definition same_streams :: "log_state \<Rightarrow> log_state \<Rightarrow> bool" where
  "same_streams s t \<longleftrightarrow> lg_file t = lg_file s \<and> lg_trace t = lg_trace s \<and> lg_open t = lg_open s"

lemma same_streams_ok: "same_streams s t \<Longrightarrow> log_ok t = log_ok s" "same_streams s t \<Longrightarrow> other_files t = other_files s"
  by (simp_all add: same_streams_def log_ok_def other_files_def)

lemma log_streams_same:
  assumes "log_target_usable s"
  shows "\<exists>t. sqlcipher_log now level source message s = Some t \<and> same_streams s t"
  using assms by (auto simp: sqlcipher_log_def sqlcipher_fprintf_def same_streams_def log_target_usable_def split: option.splits)

lemma profile_streams_same:
  assumes "log_ok s"
  shows "\<exists>t. sqlcipher_profile_callback elapsed sql s = Some t \<and> same_streams s t"
  using log_ok_usable(2) [OF assms] by (auto simp: sqlcipher_profile_callback_def sqlcipher_fprintf_def same_streams_def split: option.splits)

text \<open>The target is closed before another is opened.\<close>

definition closed_log :: "log_state \<Rightarrow> log_state" where
  "closed_log s = s\<lparr>lg_file := None, lg_device := False, lg_open := other_files s\<rparr>"

lemma close_target:
  assumes "log_ok s"
  shows "\<exists>t. (case lg_file s of None \<Rightarrow> Some s | Some f \<Rightarrow> c_fclose f s) = Some t \<and> t\<lparr>lg_file := None, lg_device := False\<rparr> = closed_log s"
proof (cases "lg_file s")
  case None
  then show ?thesis by (simp add: closed_log_def other_files_def)
next
  case (Some f)
  have "lg_open s - {k} = {j \<in> lg_open s. k \<noteq> j}" for k by blast
  then show ?thesis using Some assms by (cases f) (auto simp: log_ok_def closed_log_def other_files_def)
qed

lemma closed_log_ok: "log_ok s \<Longrightarrow> log_ok (closed_log s) \<and> other_files (closed_log s) = other_files s \<and> lg_file (closed_log s) = None"
  by (auto simp: log_ok_def closed_log_def other_files_def)

lemma set_log_streams:
  assumes ok: "log_ok s"
  shows "\<exists>rc t. sqlcipher_set_log answer now destination s = Some (rc, t) \<and> log_ok t \<and> other_files t = other_files s"
proof -
  obtain t where t: "(case lg_file s of None \<Rightarrow> Some s | Some f \<Rightarrow> c_fclose f s) = Some t" "t\<lparr>lg_file := None, lg_device := False\<rparr> = closed_log s"
    using close_target [OF ok] by blast
  let ?c = "closed_log s"
  define choice where "choice = (if sqlite3_stricmp destination ''logcat'' = 0 \<or> sqlite3_stricmp destination ''device'' = 0 then (True, ?c\<lparr>lg_device := True\<rparr>)
                   else if sqlite3_stricmp destination ''stdout'' = 0 then (True, ?c\<lparr>lg_file := Some Stdout\<rparr>)
                   else if sqlite3_stricmp destination ''stderr'' = 0 then (True, ?c\<lparr>lg_file := Some Stderr\<rparr>)
                   else if sqlite3_stricmp destination ''off'' \<noteq> 0
                   then let (f, s) = c_fopen answer ?c in (f \<noteq> None, s\<lparr>lg_file := f\<rparr>)
                   else (True, ?c))"
  have c: "log_ok (snd choice) \<and> other_files (snd choice) = other_files s"
    using closed_log_ok [OF ok]
    by (auto simp: choice_def c_fopen_def log_ok_def other_files_def split: option.splits)
  have eq: "sqlcipher_set_log answer now destination s = (case choice of (ok, s) \<Rightarrow>
      if \<not> ok then Some (SQLITE_ERROR, s)
      else map_option (\<lambda>s. (SQLITE_OK, s)) (sqlcipher_log now 4 1 (cstr ''sqlcipher_set_log: set log to '' @ destination) s))"
    unfolding sqlcipher_set_log_def t(1) option.case Let_def t(2) choice_def by (rule refl)
  obtain go u where u: "choice = (go, u)" by (rule prod.exhaust)
  obtain v where v: "sqlcipher_log now 4 1 (cstr ''sqlcipher_set_log: set log to '' @ destination) u = Some v" "same_streams u v"
    using log_streams_same log_ok_usable(1) c u by (metis snd_conv)
  show ?thesis using c same_streams_ok [OF v(2)] unfolding eq u by (simp add: v(1) del: cstr_simps)
qed

lemma profile_opens:
  assumes "log_ok s"
  shows "log_ok (snd (sqlcipher_cipher_profile answer destination s)) \<and> other_files s \<subseteq> other_files (snd (sqlcipher_cipher_profile answer destination s))"
  using assms by (auto simp: sqlcipher_cipher_profile_def c_fopen_def log_ok_def other_files_def Let_def split: option.splits)

lemma log_step_streams:
  assumes ok: "log_ok s"
  shows "\<exists>t. log_step x s = Some t \<and> log_ok t \<and> other_files s \<subseteq> other_files t \<and> ((\<forall>a d. x \<noteq> Set_Profile a d) \<longrightarrow> other_files t = other_files s)"
proof (cases x)
  case (Log now level source message)
  obtain t where "sqlcipher_log now level source message s = Some t" "same_streams s t" using log_streams_same log_ok_usable(1) ok by blast
  then show ?thesis using Log ok same_streams_ok by auto
next
  case (Set_Log answer now destination)
  then show ?thesis using set_log_streams [OF ok, of answer now destination] by auto
next
  case (Set_Filter level source)
  have "same_streams s (s\<lparr>lg_level := level, lg_source := source\<rparr>)" by (simp add: same_streams_def)
  then show ?thesis using Set_Filter ok same_streams_ok by auto
next
  case (Set_Profile answer destination)
  then show ?thesis using profile_opens [OF ok] by auto
next
  case (Ran elapsed sql)
  obtain t where "sqlcipher_profile_callback elapsed sql s = Some t" "same_streams s t" using profile_streams_same ok by blast
  then show ?thesis using Ran ok same_streams_ok by auto
qed

definition quiet_log :: log_state where
  "quiet_log = \<lparr>lg_file = None, lg_device = False, lg_level = 0, lg_source = 0xffffffff, lg_trace = None, lg_open = {}, lg_lines = (\<lambda>_. [])\<rparr>"

lemma quiet_log_ok: "log_ok quiet_log"
  by (simp add: log_ok_def quiet_log_def)

section \<open>Properties\<close>

text \<open>
  C33: no order of messages, settings of the log, profiles and statements writes or closes a stream that is not open.  The log
  keeps no file open but its target; a file opened for a profile is never closed.
\<close>

theorem log_streams:
  assumes "log_ok s"
  shows "\<exists>t. log_run ops s = Some t \<and> log_ok t \<and> other_files s \<subseteq> other_files t \<and>
    ((\<forall>x \<in> set ops. \<forall>answer destination. x \<noteq> Set_Profile answer destination) \<longrightarrow> other_files t = other_files s)"
  using assms
proof (induction ops arbitrary: s)
  case (Cons x ops)
  obtain u where u: "log_step x s = Some u" "log_ok u" "other_files s \<subseteq> other_files u" "(\<forall>a d. x \<noteq> Set_Profile a d) \<longrightarrow> other_files u = other_files s"
    using log_step_streams [OF Cons.prems] by blast
  from Cons.IH [OF u(2)] obtain t where "log_run ops u = Some t" "log_ok t" "other_files u \<subseteq> other_files t"
    "(\<forall>x \<in> set ops. \<forall>a d. x \<noteq> Set_Profile a d) \<longrightarrow> other_files t = other_files u" by blast
  then show ?case using u by (intro exI [of _ t]) auto
qed simp

theorem log_streams_witness:
  "\<exists>t. log_run [Set_Profile (Some 2) [98], Set_Profile None (cstr ''off''), Set_Log (Some 1) None [97]] quiet_log = Some t \<and> 2 \<in> other_files t"
proof -
  let ?first = "snd (sqlcipher_cipher_profile (Some 2) [98] quiet_log)"
  have "2 \<in> other_files ?first"
    by (simp add: sqlcipher_cipher_profile_def sqlite3_stricmp_def sqlite3StrICmp_iff c_fopen_def quiet_log_def other_files_def)
  moreover have "log_ok ?first" using profile_opens [OF quiet_log_ok] by blast
  ultimately show ?thesis using log_streams [of ?first "[Set_Profile None (cstr ''off''), Set_Log (Some 1) None [97]]"]
    by (auto simp del: cstr_simps)
qed

end
