(* ===== verification/Spec2Isabelle.thy ===== *)
theory Spec2Isabelle
  imports AesTest HashTest Registry Cbc Hashes Hmac Pbkdf2 Fortuna Rekey Lifecycle Migrate Export Backup Memory MemLock
    Logging
begin

text \<open>
  Verification library for the C part of go-sqlcipher: the LibTomCrypt subset at the top of
  the repository and the SQLCipher part of \<open>sqlite3.c\<close> (\<open>sqlcipher.c\<close> and \<open>crypto_libtomcrypt.c\<close>).
  The theories follow the layers of the code, and a record, datatype or definition has
  the name of the C structure or function it models; a definition with a name of its own models
  a part of one function and says which.

  \<^bold>\<open>LibTomCrypt.\<close>

  \<^item> \<open>Prelude\<close>: bytes and words, status codes, buffers, the load, store and rotate macros.
  \<^item> \<open>AesTables\<close>, \<open>Aes\<close>, \<open>AesSpec\<close>, \<open>AesTest\<close>: the table-driven AES of \<open>aes.c\<close> and
    \<open>aes_tab.h\<close>, its agreement with FIPS-197, decryption after encryption, the self-test.
  \<^item> \<open>Registry\<close>: the descriptor tables (\<open>crypt_register_*.c\<close>, \<open>crypt_find_*.c\<close>).
  \<^item> \<open>Cbc\<close>: CBC mode through the cipher table (\<open>cbc_*.c\<close>), in the loops by bytes that a build with
    \<open>LTC_NO_ASM\<close> has.
  \<^item> \<open>HashCore\<close>, \<open>Sha1\<close>, \<open>Sha2\<close>, \<open>Sha256\<close>, \<open>Sha512\<close>, \<open>Hashes\<close>, \<open>HashTest\<close>: the streaming hashes and their
    agreement with FIPS 180-4, the self-tests.
  \<^item> \<open>Hmac\<close>, \<open>Pbkdf2\<close>: HMAC (RFC 2104) and PBKDF2 (RFC 2898) through the hash table.
  \<^item> \<open>Fortuna\<close>: the random generator over SHA-256 and AES.

  \<^bold>\<open>SQLCipher.\<close>

  \<^item> \<open>CipherUtil\<close>: xoshiro, hexadecimal conversion, the shield mask, the comparison and fill loops.
  \<^item> \<open>PrivHeap\<close>: the private heap, \<open>sqlcipher_malloc\<close> and \<open>sqlcipher_free\<close>.
  \<^item> \<open>Provider\<close>: \<open>sqlcipher_provider\<close> as a record of functions, the list of providers, and
    the contract the codec relies on, the locale \<open>crypto_provider\<close>.
  \<^item> \<open>LtcProvider\<close>: the provider over LibTomCrypt and its \<open>interpretation\<close> of the contract.
  \<^item> \<open>CodecCtx\<close>: \<open>cipher_ctx\<close> and \<open>codec_ctx\<close>, construction, settings, key specification; when a
    context is well-formed (\<open>codec_wf\<close>) and that every setting keeps it so.
  \<^item> \<open>KeyDerive\<close>: the keys that a passphrase, the salt and the settings determine, for both
    cipher contexts.
  \<^item> \<open>PageCipher\<close>: encryption and authentication of one page.
  \<^item> \<open>Codec\<close>: \<open>sqlite3Codec\<close>, through which the pager reads, writes and journals pages; sequences
    of its calls; from the passphrase to the page another connection reads.

  \<^item> \<open>Attach\<close>: \<open>sqlcipherCodecAttach\<close> and the ways to it (\<open>sqlite3_key\<close>, the key pragmas, the parameters
    of a URI, \<open>ATTACH\<close>), and \<open>sqlcipherCodecGetKey\<close>, which hands a key on.
  \<^item> \<open>CStrings\<close>: numbers and booleans in text, string literals.
  \<^item> \<open>Integrity\<close>: \<open>cipher_integrity_check\<close>, which reads the file past the pager.
  \<^item> \<open>Pragma\<close>, \<open>Settings\<close>: \<open>sqlcipher_codec_pragma\<close> as seven groups of pragmas tried in the order of the
    code; what they leave alone once a key is in use; \<open>cipher_compatibility\<close> and the replay of
    \<open>cipher_settings\<close>.
  \<^item> \<open>Rekey\<close>: \<open>sqlite3_rekey_v2\<close> over the operations of the pager, and the key pragmas; the keys of both
    cipher contexts afterwards.
  \<^item> \<open>Lifecycle\<close>: the start and the end of the library, with every failure of the start.
  \<^item> \<open>Backup\<close>: the loop that copies the pages of a database into another, with pages of another size, without
    what a backup does before and after it.
  \<^item> \<open>Logging\<close>: messages, their target, and the profile of statements, over streams that are
    opened and closed.
  \<^item> \<open>Memory\<close>: the allocator of \<open>mem1.c\<close> and the wrapper of SQLCipher over it, two
    interpretations of the locale \<open>allocator\<close>; what freed memory tells of the data.
  \<^item> \<open>MemLock\<close>: which pages of memory the system keeps from being swapped out.
  \<^item> \<open>Migrate\<close>: \<open>cipher_migrate\<close> as a list of stages over the operations \<open>engine\<close> of the SQL engine and
    the file system; when the renaming is reached, and what the ways out answer.
  \<^item> \<open>Export\<close>: \<open>sqlcipher_export\<close>, its script and the loop over the rows of its queries, over an
    engine of which \<open>honest_engine\<close> says what the rows of a statement are.

  The connection of \<open>Attach\<close> and later theories is a \<open>database\<close>: its entries have a name, the settings of the
  B-tree, and a pager without a codec or with a \<open>codec_ctx\<close>.  The rest of the pager enters by its answers:
  \<open>bts_setPagesize\<close>, the reads of \<open>db_file\<close>, and the operations \<open>pager_ops\<close> of a rekey, of which
  \<open>pager_calls\<close> says that they change a context only by calls of the codec.

  The lemmas of the SQLCipher theories are proved in \<open>context crypto_provider\<close>, for any provider that
  keeps the contract; the properties are stated of \<open>sqlcipher_ltc_setup\<close>, the provider of the build, and
  follow by the interpretation \<open>ltc\<close>.

  \<^bold>\<open>Conventions.\<close>  Buffers are lists of bytes and a write through a pointer returns the buffer updated.
  Allocation takes the next answer of a supply (\<open>heap\<close>): \<open>plenty\<close> says that all succeed.  Readings of
  the clock, of random devices and of uninitialised locals are entries of an environment.  A
  function whose result is \<open>None\<close> may block for ever or leave the meaning of C.  Loops are
  structural, have a measure, or are \<open>while\<close> loops with a proof that they end; the loop over the rows of an
  export, whose number the engine decides, is a partial function with a proof that it ends; no fuel is used.

  \<^bold>\<open>Not modelled.\<close>  The rest of the SQLite amalgamation (pager, B-tree, SQL engine), of which the
  codec sees the fields of \<open>btree\<close>; the messages that the components log and their calls that lock pages in
  memory, which change no other state; the mutexes, except the one that a failed activation keeps and
  the allocation of the static ones; the other providers, which the build leaves out; the Go driver, examples and scripts.
\<close>

end
